(* ===== verification/Prelude.thy ===== *)
theory Prelude
  imports Main "HOL-Library.AList" "HOL-Library.Sublist"
begin

text \<open>
  The shared vocabulary of the development.

  Strings are Isabelle \<open>string\<close>s (lists of characters); every string the code takes apart is
  ASCII (identifiers, references, dotted addresses), so a JavaScript code unit is one character.
  A JavaScript \<open>Map\<close> is an association list: \<open>AList.update\<close> overwrites an existing key in
  place and appends a new one at the end, which is the insertion order \<open>Map\<close> iterates in.
  A thrown \<open>Error\<close> or a failed \<open>Result\<close> is the left side of a sum.
\<close>

section \<open>Collections of facts\<close>

named_theorems walk_simps \<open>unfolding of the steps of a graph walk\<close>
named_theorems store_simps \<open>reading a table after an operation on it\<close>

section \<open>Errors and results\<close>

datatype js_error = Error string

type_synonym 'a throws = "js_error + 'a"
type_synonym ('a, 'e) result = "'e + 'a"

abbreviation ok :: "'a \<Rightarrow> ('a, 'e) result" where
  "ok v \<equiv> Inr v"

abbreviation err :: "'e \<Rightarrow> ('a, 'e) result" where
  "err e \<equiv> Inl e"

definition is_ok :: "('a, 'e) result \<Rightarrow> bool" where
  "is_ok r = (case r of Inl _ \<Rightarrow> False | Inr _ \<Rightarrow> True)"

lemma is_ok_simps [simp]: "is_ok (Inr v)" "\<not> is_ok (Inl e)"
  by (simp_all add: is_ok_def)

lemma is_okE: "is_ok r \<Longrightarrow> (\<And>v. r = Inr v \<Longrightarrow> P) \<Longrightarrow> P"
  by (cases r) auto

section \<open>Strings of the JavaScript library\<close>

text \<open>\<open>s.indexOf(c)\<close>, with \<open>None\<close> for -1.\<close>

fun index_of :: "'a \<Rightarrow> 'a list \<Rightarrow> nat option" where
  "index_of c [] = None"
| "index_of c (x # xs) = (if x = c then Some 0 else map_option Suc (index_of c xs))"

text \<open>\<open>s.split(c)\<close> for a separator of one character: never empty.\<close>

fun split_on :: "'a \<Rightarrow> 'a list \<Rightarrow> 'a list list" where
  "split_on c [] = [[]]"
| "split_on c (x # xs) =
     (if x = c then [] # split_on c xs
      else (case split_on c xs of [] \<Rightarrow> [[x]] | y # ys \<Rightarrow> (x # y) # ys))"

lemma split_on_nonempty [simp]: "split_on c xs \<noteq> []"
  by (induction xs) (auto split: list.splits)

lemma split_on_absent: "c \<notin> set xs \<Longrightarrow> split_on c xs = [xs]"
  by (induction xs) auto

lemma split_on_append_sep:
  "c \<notin> set xs \<Longrightarrow> split_on c (xs @ c # ys) = xs # split_on c ys"
  by (induction xs) auto

lemma split_on_parts: "p \<in> set (split_on c xs) \<Longrightarrow> c \<notin> set p \<and> set p \<subseteq> set xs"
proof (induction xs arbitrary: p)
  case Nil
  then show ?case by simp
next
  case (Cons x xs)
  obtain y ys where y: "split_on c xs = y # ys"
    by (cases "split_on c xs") auto
  with Cons show ?case
    by (force split: if_splits)
qed

lemma index_of_None_iff [simp]: "index_of c xs = None \<longleftrightarrow> c \<notin> set xs"
  by (induction xs) auto

lemma index_of_absent [simp]: "c \<notin> set xs \<Longrightarrow> index_of c xs = None"
  by simp

lemma index_of_Some_less: "index_of c xs = Some i \<Longrightarrow> i < length xs"
  by (induction xs arbitrary: i) (auto split: if_splits)

lemma index_of_append_sep: "c \<notin> set xs \<Longrightarrow> index_of c (xs @ c # ys) = Some (length xs)"
  by (induction xs) auto

lemma index_of_split:
  "index_of c xs = Some i \<Longrightarrow> xs = take i xs @ c # drop (Suc i) xs \<and> c \<notin> set (take i xs)"
  by (induction xs arbitrary: i) (auto split: if_splits)

lemma index_of_Some_append:
  "index_of c xs = Some i \<Longrightarrow> index_of c (xs @ ys) = Some i"
  by (induction xs arbitrary: i) (auto split: if_splits)

text \<open>Two strings that hold the separator once, read from the left, split in one way.\<close>

lemma sep_append_eq:
  "c \<notin> set xs \<Longrightarrow> c \<notin> set xs' \<Longrightarrow> xs @ c # ys = xs' @ c # ys' \<Longrightarrow> xs = xs' \<and> ys = ys'"
proof (induction xs arbitrary: xs')
  case Nil
  then show ?case by (cases xs') auto
next
  case (Cons x xs)
  then show ?case by (cases xs') auto
qed

lemma sep_append_eq_right:
  "c \<notin> set ys \<Longrightarrow> c \<notin> set ys' \<Longrightarrow> xs @ c # ys = xs' @ c # ys' \<Longrightarrow> xs = xs' \<and> ys = ys'"
  using sep_append_eq[of c "rev ys" "rev ys'" "rev xs" "rev xs'"]
  by (metis append_Cons append_Nil append_assoc rev.simps(2) rev_append rev_rev_ident set_rev)

section \<open>Lists and association lists\<close>

text \<open>
  \<open>for (const x of xs) ...\<close> over a fallible body: the first error ends the loop.
\<close>

fun first_error :: "('a \<Rightarrow> 'e option) \<Rightarrow> 'a list \<Rightarrow> 'e option" where
  "first_error f [] = None"
| "first_error f (x # xs) = (case f x of Some e \<Rightarrow> Some e | None \<Rightarrow> first_error f xs)"

lemma first_error_None_iff [simp]: "first_error f xs = None \<longleftrightarrow> (\<forall>x \<in> set xs. f x = None)"
  by (induction xs) (auto split: option.splits)

lemma first_error_Some: "first_error f xs = Some e \<Longrightarrow> \<exists>x \<in> set xs. f x = Some e"
  by (induction xs) (auto split: option.splits)

lemma first_error_cong [fundef_cong]:
  "xs = ys \<Longrightarrow> (\<And>x. x \<in> set ys \<Longrightarrow> f x = g x) \<Longrightarrow> first_error f xs = first_error g ys"
  by (induction xs arbitrary: ys) (auto split: option.splits)

text \<open>\<open>[...new Set(xs)]\<close>: the first occurrence of every element, in order.\<close>

fun dedup :: "'a list \<Rightarrow> 'a list" where
  "dedup [] = []"
| "dedup (x # xs) = x # filter (\<lambda>y. y \<noteq> x) (dedup xs)"

lemma set_dedup [simp]: "set (dedup xs) = set xs"
  by (induction xs) auto

lemma distinct_dedup [simp]: "distinct (dedup xs)"
  by (induction xs) auto

lemma dedup_distinct: "distinct xs \<Longrightarrow> dedup xs = xs"
  by (induction xs) (auto simp: filter_id_conv)

text \<open>An absent key reads as nothing in every table of the development.\<close>

lemma map_of_update_same [simp]: "map_of (AList.update k v xs) k = Some v"
  by (simp add: update_conv')

lemma map_of_update_other [simp]: "k' \<noteq> k \<Longrightarrow> map_of (AList.update k v xs) k' = map_of xs k'"
  by (simp add: update_conv')

lemma map_of_values: "map_of xs k = Some v \<Longrightarrow> v \<in> snd ` set xs"
  by (force dest: map_of_SomeD)

lemma update_values:
  "w \<in> snd ` set (AList.update k v xs) \<Longrightarrow> w = v \<or> w \<in> snd ` set xs"
  by (induction xs) (auto split: if_splits)

lemma update_keys: "fst ` set (AList.update k v xs) = insert k (fst ` set xs)"
  by (simp add: dom_update)

end
