(* ===== verification/Kernel.thy ===== *)
theory Kernel
  imports Prelude
begin

text \<open>
  The shared kernel and the references of the authorization domain:
  \<open>shared/kernel\<close> (\<open>OrgId\<close>, \<open>UserId\<close>, \<open>Revision\<close>), \<open>authz/domain/identifier.ts\<close>,
  \<open>entity-ref.ts\<close>, \<open>subject-ref.ts\<close>, \<open>action.ts\<close>, \<open>decision.ts\<close>,
  \<open>authorization-query.ts\<close>, \<open>relation-tuple.ts\<close> and \<open>tuple-index.ts\<close>.
  A revision is a JavaScript safe integer that the database hands out from 1 on: a \<open>nat\<close>.
  A date is the number of its milliseconds.
\<close>

section \<open>Identifiers of the shared kernel\<close>

datatype org_id = OrgId (org_value: string)

datatype user_id = UserId (user_value: string)

type_synonym date = int

definition org_equals :: "org_id \<Rightarrow> org_id \<Rightarrow> bool" where
  "org_equals a b \<longleftrightarrow> org_value a = org_value b"

lemma org_equals_iff [simp]: "org_equals a b \<longleftrightarrow> a = b"
  by (auto simp: org_equals_def org_id.expand)

definition user_equals :: "user_id \<Rightarrow> user_id \<Rightarrow> bool" where
  "user_equals a b \<longleftrightarrow> user_value a = user_value b"

lemma user_equals_iff [simp]: "user_equals a b \<longleftrightarrow> a = b"
  by (auto simp: user_equals_def user_id.expand)

datatype revision = Revision (rev_value: nat)

definition is_at_least :: "revision \<Rightarrow> revision \<Rightarrow> bool" where
  "is_at_least a b \<longleftrightarrow> rev_value b \<le> rev_value a"

text \<open>\<open>isAtLeast\<close> is a linear order, so the library's orders and maxima apply to revisions.\<close>

instantiation revision :: linorder
begin

definition less_eq_revision :: "revision \<Rightarrow> revision \<Rightarrow> bool" where
  "less_eq_revision a b \<longleftrightarrow> is_at_least b a"

definition less_revision :: "revision \<Rightarrow> revision \<Rightarrow> bool" where
  "less_revision a b \<longleftrightarrow> is_at_least b a \<and> \<not> is_at_least a b"

instance
  by standard
    (auto simp: less_eq_revision_def less_revision_def is_at_least_def revision.expand)

end

lemma revision_le_iff: "a \<le> b \<longleftrightarrow> rev_value a \<le> rev_value b"
  by (simp add: less_eq_revision_def is_at_least_def)

lemma is_at_least_iff [simp]: "is_at_least a b \<longleftrightarrow> b \<le> a"
  by (simp add: less_eq_revision_def)

lemma revision_less_iff: "a < b \<longleftrightarrow> rev_value a < rev_value b"
  by (cases a; cases b) (simp add: less_le revision_le_iff)

lemma Revision_le [simp]: "Revision a \<le> Revision b \<longleftrightarrow> a \<le> b"
  by (simp add: revision_le_iff)

lemma Revision_less [simp]: "Revision a < Revision b \<longleftrightarrow> a < b"
  by (simp add: revision_less_iff)

section \<open>Identifiers and references of the authorization domain\<close>

definition is_letter :: "char \<Rightarrow> bool" where
  "is_letter c \<longleftrightarrow> c \<in> set ''abcdefghijklmnopqrstuvwxyzABCDEFGHIJKLMNOPQRSTUVWXYZ''"

definition is_digit :: "char \<Rightarrow> bool" where
  "is_digit c \<longleftrightarrow> c \<in> set ''0123456789''"

definition is_identifier_char :: "char \<Rightarrow> bool" where
  "is_identifier_char c \<longleftrightarrow> is_letter c \<or> is_digit c \<or> c \<in> set ''_-''"

definition is_identifier :: "string \<Rightarrow> bool" where
  "is_identifier s = (case s of [] \<Rightarrow> False | c # cs \<Rightarrow> is_letter c \<and> list_all is_identifier_char cs)"

definition reserved_id_chars :: "char list" where
  "reserved_id_chars = [CHR '':'', CHR ''#'', CHR ''@'']"

lemma is_identifier_char_not_reserved:
  "is_identifier_char c \<Longrightarrow> c \<notin> set reserved_id_chars \<and> c \<noteq> CHR ''.'' \<and> c \<noteq> CHR ''*''"
  by (auto simp: is_identifier_char_def is_letter_def is_digit_def reserved_id_chars_def)

lemma is_identifier_chars:
  "is_identifier s \<Longrightarrow> c \<in> set s \<Longrightarrow> is_identifier_char c"
  by (cases s) (auto simp: is_identifier_def is_identifier_char_def list_all_iff)

lemma is_identifier_plain:
  assumes "is_identifier s"
  shows "CHR '':'' \<notin> set s" "CHR ''#'' \<notin> set s" "CHR ''@'' \<notin> set s" "CHR ''.'' \<notin> set s" "s \<noteq> []"
  using assms is_identifier_chars[OF assms] is_identifier_char_not_reserved
  by (fastforce simp: reserved_id_chars_def is_identifier_def)+

record entity_ref =
  ref_type :: string
  ref_id :: string

definition format_entity_ref :: "entity_ref \<Rightarrow> string" where
  "format_entity_ref r = ref_type r @ '':'' @ ref_id r"

definition ref_equals :: "entity_ref \<Rightarrow> entity_ref \<Rightarrow> bool" where
  "ref_equals a b \<longleftrightarrow> ref_type a = ref_type b \<and> ref_id a = ref_id b"

lemma ref_equals_iff [simp]: "ref_equals a b \<longleftrightarrow> a = b"
  by (auto simp: ref_equals_def)

definition assert_writable_entity_ref :: "entity_ref \<Rightarrow> js_error option" where
  "assert_writable_entity_ref r =
     (if \<not> is_identifier (ref_type r)
      then Some (Error (''invalid entity type: '' @ ref_type r))
      else if ref_id r = [] \<or> list_ex (\<lambda>c. c \<in> set reserved_id_chars) (ref_id r)
      then Some (Error (''invalid entity id: '' @ ref_id r))
      else None)"

definition parse_entity_ref :: "string \<Rightarrow> entity_ref throws" where
  "parse_entity_ref v =
     (case index_of (CHR '':'') v of
        None \<Rightarrow> Inl (Error (''invalid entity reference: '' @ v))
      | Some i \<Rightarrow>
          if i = 0 \<or> i = length v - 1
          then Inl (Error (''invalid entity reference: '' @ v))
          else Inr \<lparr>ref_type = take i v, ref_id = drop (Suc i) v\<rparr>)"

lemma assert_writable_entity_ref_None_iff:
  "assert_writable_entity_ref r = None \<longleftrightarrow>
     is_identifier (ref_type r) \<and> ref_id r \<noteq> [] \<and> set (ref_id r) \<inter> set reserved_id_chars = {}"
  by (auto simp: assert_writable_entity_ref_def list_ex_iff)

lemma parse_format_entity_ref:
  assumes "CHR '':'' \<notin> set (ref_type r)" "ref_type r \<noteq> []" "ref_id r \<noteq> []"
  shows "parse_entity_ref (format_entity_ref r) = Inr r"
  using assms
  by (auto simp: parse_entity_ref_def format_entity_ref_def index_of_append_sep)

lemma format_parse_entity_ref:
  "parse_entity_ref v = Inr r \<Longrightarrow> format_entity_ref r = v"
  using index_of_split[of "CHR '':''" v]
  by (auto simp: parse_entity_ref_def format_entity_ref_def split: option.splits if_splits)

section \<open>Subjects\<close>

datatype subject_ref =
    Subject (subject_entity: entity_ref)
  | UsersetSubject (subject_entity: entity_ref) (subject_relation: string)

fun assert_writable_subject :: "subject_ref \<Rightarrow> js_error option" where
  "assert_writable_subject (Subject r) = assert_writable_entity_ref r"
| "assert_writable_subject (UsersetSubject r rel) =
     (case assert_writable_entity_ref r of
        Some e \<Rightarrow> Some e
      | None \<Rightarrow> if is_identifier rel then None
                else Some (Error (''invalid userset relation: '' @ rel)))"

fun encode_subject :: "subject_ref \<Rightarrow> string" where
  "encode_subject (Subject r) = format_entity_ref r"
| "encode_subject (UsersetSubject r rel) = format_entity_ref r @ ''#'' @ rel"

definition parse_subject :: "string \<Rightarrow> subject_ref throws" where
  "parse_subject v =
     (case index_of (CHR ''#'') v of
        None \<Rightarrow> map_sum id Subject (parse_entity_ref v)
      | Some h \<Rightarrow>
          let relation = drop (Suc h) v in
          if relation = [] \<or> CHR ''#'' \<in> set relation
          then Inl (Error (''invalid userset subject: '' @ v))
          else map_sum id (\<lambda>r. UsersetSubject r relation) (parse_entity_ref (take h v)))"

text \<open>What \<open>assertWritableSubject\<close> lets through survives the trip through the subject column.\<close>

lemma writable_entity_ref_chars:
  assumes "assert_writable_entity_ref r = None"
  shows "CHR '':'' \<notin> set (ref_type r)" "ref_type r \<noteq> []" "ref_id r \<noteq> []"
    "CHR ''#'' \<notin> set (format_entity_ref r)" "CHR '':'' \<notin> set (ref_id r)"
  using assms is_identifier_plain[of "ref_type r"]
  by (auto simp: assert_writable_entity_ref_None_iff reserved_id_chars_def format_entity_ref_def)

lemma parse_encode_subject:
  assumes "assert_writable_subject s = None"
  shows "parse_subject (encode_subject s) = Inr s"
proof (cases s)
  case (Subject r)
  with assms have "assert_writable_entity_ref r = None" by simp
  note w = writable_entity_ref_chars[OF this]
  from Subject show ?thesis
    using w by (simp add: parse_subject_def parse_format_entity_ref)
next
  case (UsersetSubject r rel)
  with assms have "assert_writable_entity_ref r = None" and rel: "is_identifier rel"
    by (auto split: option.splits if_splits)
  note w = writable_entity_ref_chars[OF this(1)] is_identifier_plain[OF rel]
  from UsersetSubject show ?thesis
    using w by (simp add: parse_subject_def parse_format_entity_ref index_of_append_sep)
qed

lemma encode_parse_subject: "parse_subject v = Inr s \<Longrightarrow> encode_subject s = v"
proof (cases "index_of (CHR ''#'') v")
  case None
  assume p: "parse_subject v = Inr s"
  with None obtain r where "parse_entity_ref v = Inr r" "s = Subject r"
    by (cases "parse_entity_ref v") (auto simp: parse_subject_def)
  then show ?thesis by (simp add: format_parse_entity_ref)
next
  case (Some h)
  assume p: "parse_subject v = Inr s"
  have v: "v = take h v @ CHR ''#'' # drop (Suc h) v"
    using index_of_split[OF Some] by simp
  from p Some obtain r where "parse_entity_ref (take h v) = Inr r"
    "s = UsersetSubject r (drop (Suc h) v)"
    by (cases "parse_entity_ref (take h v)")
      (auto simp: parse_subject_def Let_def split: if_splits)
  then have "encode_subject s = take h v @ CHR ''#'' # drop (Suc h) v"
    by (simp add: format_parse_entity_ref)
  then show ?thesis using v by (rule trans[OF _ sym])
qed

lemma encode_subject_inj:
  "assert_writable_subject s = None \<Longrightarrow> assert_writable_subject t = None \<Longrightarrow>
   encode_subject s = encode_subject t \<Longrightarrow> s = t"
  by (metis parse_encode_subject sum.inject(2))

section \<open>Actions, decisions and queries\<close>

record action =
  action_namespace :: string
  action_verb :: string

datatype action_error = InvalidAction

definition action_create :: "string \<Rightarrow> (action, action_error) result" where
  "action_create name =
     (case split_on (CHR ''.'') name of
        [namespace, verb] \<Rightarrow>
          if namespace = [] \<or> verb = [] \<or> \<not> is_identifier namespace \<or> \<not> is_identifier verb
          then err InvalidAction
          else ok \<lparr>action_namespace = namespace, action_verb = verb\<rparr>
      | _ \<Rightarrow> err InvalidAction)"

definition action_of :: "string \<Rightarrow> action throws" where
  "action_of name =
     (case action_create name of
        Inl _ \<Rightarrow> Inl (Error (''invalid action: '' @ name))
      | Inr a \<Rightarrow> Inr a)"

definition action_name :: "action \<Rightarrow> string" where
  "action_name a = action_namespace a @ ''.'' @ action_verb a"

lemma action_create_ok:
  assumes "action_create name = ok a"
  shows "action_name a = name" "is_identifier (action_namespace a)" "is_identifier (action_verb a)"
proof -
  from assms obtain n v where nv: "split_on (CHR ''.'') name = [n, v]"
    and a: "a = \<lparr>action_namespace = n, action_verb = v\<rparr>" "is_identifier n" "is_identifier v"
    by (auto simp: action_create_def split: list.splits if_splits)
  have "CHR ''.'' \<in> set name"
    using nv split_on_absent[of "CHR ''.''" name] by auto
  then obtain xs ys where name: "name = xs @ CHR ''.'' # ys" "CHR ''.'' \<notin> set xs"
    by (meson split_list_first)
  with nv have n: "n = xs" and v: "split_on (CHR ''.'') ys = [v]"
    by (simp_all add: split_on_append_sep)
  have "CHR ''.'' \<notin> set ys"
  proof
    assume "CHR ''.'' \<in> set ys"
    then obtain us vs where "ys = us @ CHR ''.'' # vs" "CHR ''.'' \<notin> set us"
      by (meson split_list_first)
    with v show False by (simp add: split_on_append_sep)
  qed
  with v have "v = ys" by (simp add: split_on_absent)
  with name n a show "action_name a = name" "is_identifier (action_namespace a)"
    "is_identifier (action_verb a)"
    by (simp_all add: action_name_def)
qed

lemma action_create_name:
  "is_identifier (action_namespace a) \<Longrightarrow> is_identifier (action_verb a) \<Longrightarrow>
   action_create (action_name a) = ok a"
  using is_identifier_plain[of "action_namespace a"] is_identifier_plain[of "action_verb a"]
  by (simp add: action_create_def action_name_def split_on_append_sep split_on_absent)

datatype effect = Permit | Deny

record reason =
  reason_code :: string
  reason_message :: string
  reason_relation :: "string option"
  reason_path :: "string list option"

record decision =
  decision_effect :: effect
  decision_reasons :: "reason list"

definition plain_reason :: "string \<Rightarrow> string \<Rightarrow> reason" where
  "plain_reason code message =
     \<lparr>reason_code = code, reason_message = message, reason_relation = None, reason_path = None\<rparr>"

definition deny :: "reason list \<Rightarrow> decision" where
  "deny reasons = \<lparr>decision_effect = Deny, decision_reasons = reasons\<rparr>"

definition permit :: "reason list \<Rightarrow> decision" where
  "permit reasons = \<lparr>decision_effect = Permit, decision_reasons = reasons\<rparr>"

lemma decision_selectors [simp]:
  "decision_effect (deny rs) = Deny" "decision_reasons (deny rs) = rs"
  "decision_effect (permit rs) = Permit" "decision_reasons (permit rs) = rs"
  "deny rs \<noteq> permit rs'" "permit rs' \<noteq> deny rs"
  by (simp_all add: deny_def permit_def)

lemma plain_reason_code [simp]: "reason_code (plain_reason c m) = c"
  by (simp add: plain_reason_def)

record authorization_query =
  query_org :: org_id
  query_subject :: entity_ref
  query_action :: action
  query_resource :: entity_ref

section \<open>Relation tuples and the tuple index\<close>

record relation_tuple =
  tuple_org :: org_id
  tuple_object :: entity_ref
  tuple_relation :: string
  tuple_subject :: subject_ref
  tuple_revision :: revision
  tuple_created :: date

definition relation_tuple_write :: "relation_tuple \<Rightarrow> relation_tuple throws" where
  "relation_tuple_write input =
     (case assert_writable_entity_ref (tuple_object input) of
        Some e \<Rightarrow> Inl e
      | None \<Rightarrow>
          if \<not> is_identifier (tuple_relation input)
          then Inl (Error (''invalid relation: '' @ tuple_relation input))
          else (case assert_writable_subject (tuple_subject input) of
                  Some e \<Rightarrow> Inl e
                | None \<Rightarrow> Inr input))"

definition writable_tuple :: "relation_tuple \<Rightarrow> bool" where
  "writable_tuple t \<longleftrightarrow>
     assert_writable_entity_ref (tuple_object t) = None \<and> is_identifier (tuple_relation t) \<and>
     assert_writable_subject (tuple_subject t) = None"

lemma relation_tuple_write_ok_iff:
  "relation_tuple_write input = Inr t \<longleftrightarrow> t = input \<and> writable_tuple t"
  by (auto simp: relation_tuple_write_def writable_tuple_def split: option.splits)

definition node_key :: "entity_ref \<Rightarrow> string \<Rightarrow> string" where
  "node_key object relation = format_entity_ref object @ ''#'' @ relation"

definition tuple_key :: "entity_ref \<Rightarrow> string \<Rightarrow> subject_ref \<Rightarrow> string" where
  "tuple_key object relation subject = node_key object relation @ ''@'' @ encode_subject subject"

text \<open>
  Node keys of writable references are injective, so the walk's string sets stand for sets of
  nodes.
\<close>

definition plain_node :: "entity_ref \<Rightarrow> string \<Rightarrow> bool" where
  "plain_node object relation \<longleftrightarrow> CHR '':'' \<notin> set (ref_type object) \<and> CHR ''#'' \<notin> set relation"

lemma node_key_inj:
  assumes "plain_node a r" "plain_node b q" "node_key a r = node_key b q"
  shows "a = b \<and> r = q"
proof -
  from assms have "format_entity_ref a @ CHR ''#'' # r = format_entity_ref b @ CHR ''#'' # q"
    by (simp add: node_key_def)
  with assms have f: "format_entity_ref a = format_entity_ref b" and "r = q"
    using sep_append_eq_right[of "CHR ''#''" r q] by (auto simp: plain_node_def)
  from f have "ref_type a @ CHR '':'' # ref_id a = ref_type b @ CHR '':'' # ref_id b"
    by (simp add: format_entity_ref_def)
  with assms have "ref_type a = ref_type b \<and> ref_id a = ref_id b"
    using sep_append_eq[of "CHR '':''" "ref_type a" "ref_type b"] by (auto simp: plain_node_def)
  with \<open>r = q\<close> show ?thesis by simp
qed

definition relation_tuple_key :: "relation_tuple \<Rightarrow> string" where
  "relation_tuple_key t =
     format_entity_ref (tuple_object t) @ ''#'' @ tuple_relation t @ ''@'' @ encode_subject (tuple_subject t)"

record tuple_index =
  index_org :: org_id
  by_subject_node :: "(string \<times> subject_ref list) list"

fun index_tuple ::
  "org_id \<Rightarrow> (string \<times> subject_ref list) list \<Rightarrow> relation_tuple \<Rightarrow> (string \<times> subject_ref list) list" where
  "index_tuple org m t =
     (if \<not> org_equals (tuple_org t) org then m
      else let key = node_key (tuple_object t) (tuple_relation t) in
        (case map_of m key of
           Some bucket \<Rightarrow> AList.update key (bucket @ [tuple_subject t]) m
         | None \<Rightarrow> AList.update key [tuple_subject t] m))"

definition tuple_index_of :: "org_id \<Rightarrow> relation_tuple list \<Rightarrow> tuple_index" where
  "tuple_index_of org tuples =
     \<lparr>index_org = org, by_subject_node = foldl (index_tuple org) [] tuples\<rparr>"

definition subjects_of :: "tuple_index \<Rightarrow> entity_ref \<Rightarrow> string \<Rightarrow> subject_ref list" where
  "subjects_of ti object relation =
     (case map_of (by_subject_node ti) (node_key object relation) of
        Some bucket \<Rightarrow> bucket | None \<Rightarrow> [])"

lemma foldl_index_tuple:
  "(case map_of (foldl (index_tuple org) m ts) k of Some b \<Rightarrow> b | None \<Rightarrow> []) =
   (case map_of m k of Some b \<Rightarrow> b | None \<Rightarrow> []) @
   map tuple_subject (filter (\<lambda>t. tuple_org t = org \<and>
     node_key (tuple_object t) (tuple_relation t) = k) ts)"
proof (induction ts arbitrary: m)
  case Nil
  then show ?case by simp
next
  case (Cons t ts)
  have "(case map_of (index_tuple org m t) k of Some b \<Rightarrow> b | None \<Rightarrow> []) =
    (case map_of m k of Some b \<Rightarrow> b | None \<Rightarrow> []) @
    (if tuple_org t = org \<and> node_key (tuple_object t) (tuple_relation t) = k
     then [tuple_subject t] else [])"
    by (cases "node_key (tuple_object t) (tuple_relation t) = k")
      (auto simp: Let_def split: option.splits)
  with Cons.IH[of "index_tuple org m t"] show ?case
    by (simp del: index_tuple.simps)
qed

text \<open>The index holds, per node, the subjects of the organization's tuples, in order.\<close>

lemma subjects_of_tuple_index:
  "subjects_of (tuple_index_of org ts) object relation =
   map tuple_subject (filter (\<lambda>t. tuple_org t = org \<and>
     node_key (tuple_object t) (tuple_relation t) = node_key object relation) ts)"
  using foldl_index_tuple[of org "[]" ts "node_key object relation"]
  by (simp add: subjects_of_def tuple_index_of_def)

lemma index_org_of [simp]: "index_org (tuple_index_of org ts) = org"
  by (simp add: tuple_index_of_def)

end
