(* ===== verification/Namespaces.thy ===== *)
theory Namespaces
  imports Kernel
begin

text \<open>
  Namespace configuration: the rewrite algebra of \<open>userset.ts\<close>, the validation and the
  cycle check of \<open>namespace-config.ts\<close>, \<open>namespace-definition.ts\<close> and the
  registry of \<open>namespace-registry.ts\<close>. The lemmas show that what
  \<open>NamespaceConfig.create\<close> accepts is well formed, that the depth-first cycle check
  answers exactly whether the computed-userset graph has a cycle, and that an accepted
  configuration therefore ranks its relations.
\<close>

section \<open>Userset rewrites\<close>

datatype userset =
    This
  | ComputedUserset string
  | TupleToUserset string string
  | Union "userset list"
  | Intersection "userset list"
  | Exclusion userset userset

definition direct_userset :: userset where
  "direct_userset = This"

fun computed_userset_targets :: "userset \<Rightarrow> string list" where
  "computed_userset_targets This = []"
| "computed_userset_targets (TupleToUserset ts cu) = []"
| "computed_userset_targets (ComputedUserset relation) = [relation]"
| "computed_userset_targets (Union children) = concat (map computed_userset_targets children)"
| "computed_userset_targets (Intersection children) = concat (map computed_userset_targets children)"
| "computed_userset_targets (Exclusion base sub) =
     computed_userset_targets base @ computed_userset_targets sub"

section \<open>Validation\<close>

datatype config_error =
    EmptyRelations
  | InvalidRelation
  | DuplicateRelation
  | InvalidVerb
  | EmptyBinding
  | UnknownRelation
  | UnknownRewriteRelation
  | InvalidRewrite
  | RewriteTooDeep
  | CyclicComputedUserset

definition max_rewrite_depth :: nat where
  "max_rewrite_depth = 32"

record config_data =
  data_relations :: "string list"
  data_actions :: "(string \<times> string list) list"
  data_rewrites :: "(string \<times> userset) list option"

fun validate_userset :: "string list \<Rightarrow> nat \<Rightarrow> userset \<Rightarrow> config_error option" where
  "validate_userset relations depth This =
     (if depth > max_rewrite_depth then Some RewriteTooDeep else None)"
| "validate_userset relations depth (ComputedUserset relation) =
     (if depth > max_rewrite_depth then Some RewriteTooDeep
      else if \<not> is_identifier relation then Some InvalidRewrite
      else if relation \<notin> set relations then Some UnknownRewriteRelation
      else None)"
| "validate_userset relations depth (TupleToUserset tupleset computed) =
     (if depth > max_rewrite_depth then Some RewriteTooDeep
      else if \<not> is_identifier tupleset \<or> \<not> is_identifier computed then Some InvalidRewrite
      else if tupleset \<notin> set relations then Some UnknownRewriteRelation
      else None)"
| "validate_userset relations depth (Union children) =
     (if depth > max_rewrite_depth then Some RewriteTooDeep
      else if children = [] then Some InvalidRewrite
      else first_error (validate_userset relations (depth + 1)) children)"
| "validate_userset relations depth (Intersection children) =
     (if depth > max_rewrite_depth then Some RewriteTooDeep
      else if children = [] then Some InvalidRewrite
      else first_error (validate_userset relations (depth + 1)) children)"
| "validate_userset relations depth (Exclusion base sub) =
     (if depth > max_rewrite_depth then Some RewriteTooDeep
      else (case validate_userset relations (depth + 1) base of
              Some e \<Rightarrow> Some e
            | None \<Rightarrow> validate_userset relations (depth + 1) sub))"

lemma validate_userset_targets:
  "validate_userset relations depth u = None \<Longrightarrow>
   set (computed_userset_targets u) \<subseteq> set relations"
  by (induction relations depth u rule: validate_userset.induct)
    (auto split: if_splits option.splits)

text \<open>The height of a rewrite tree: what the depth bound of the validation limits.\<close>

fun userset_height :: "userset \<Rightarrow> nat" where
  "userset_height (Union children) = Suc (fold max (map userset_height children) 0)"
| "userset_height (Intersection children) = Suc (fold max (map userset_height children) 0)"
| "userset_height (Exclusion base sub) = Suc (max (userset_height base) (userset_height sub))"
| "userset_height _ = 0"

lemma fold_max_le_iff: "fold max xs (k :: nat) \<le> n \<longleftrightarrow> k \<le> n \<and> (\<forall>x \<in> set xs. x \<le> n)"
  by (induction xs arbitrary: k) auto

lemma validate_userset_height:
  "validate_userset relations depth u = None \<Longrightarrow> depth + userset_height u \<le> max_rewrite_depth"
proof (induction relations depth u rule: validate_userset.induct)
  case (4 relations depth children)
  then have "\<forall>c \<in> set children. Suc (depth + userset_height c) \<le> max_rewrite_depth"
    "children \<noteq> []" "depth \<le> max_rewrite_depth"
    by (auto split: if_splits)
  then have "fold max (map userset_height children) 0 \<le> max_rewrite_depth - Suc depth"
    by (auto simp: fold_max_le_iff)
  moreover have "Suc depth \<le> max_rewrite_depth"
    using \<open>children \<noteq> []\<close> \<open>\<forall>c \<in> set children. _ c\<close> by (cases children) auto
  ultimately show ?case by simp
next
  case (5 relations depth children)
  then have "\<forall>c \<in> set children. Suc (depth + userset_height c) \<le> max_rewrite_depth"
    "children \<noteq> []" "depth \<le> max_rewrite_depth"
    by (auto split: if_splits)
  then have "fold max (map userset_height children) 0 \<le> max_rewrite_depth - Suc depth"
    by (auto simp: fold_max_le_iff)
  moreover have "Suc depth \<le> max_rewrite_depth"
    using \<open>children \<noteq> []\<close> \<open>\<forall>c \<in> set children. _ c\<close> by (cases children) auto
  ultimately show ?case by simp
qed (auto split: if_splits option.splits)

section \<open>The computed-userset cycle check\<close>

text \<open>
  \<open>walk\<close> is a depth-first search. The set \<open>visiting\<close> is the search stack: every call
  adds its relation and takes it out again before it returns \<open>false\<close>, so it is an argument
  here, and \<open>done\<close> is the state the calls share. \<open>None\<close> is the answer \<open>true\<close> (a
  cycle), which ends all the calls, \<open>Some done\<close> the answer \<open>false\<close>.
\<close>

definition edge_targets :: "(string \<times> string list) list \<Rightarrow> string \<Rightarrow> string list" where
  "edge_targets edges relation = (case map_of edges relation of Some ts \<Rightarrow> ts | None \<Rightarrow> [])"

lemma edge_targets_dom: "t \<in> set (edge_targets edges r) \<Longrightarrow> r \<in> fst ` set edges"
  by (cases "map_of edges r") (auto simp: edge_targets_def dest: map_of_SomeD intro: rev_image_eqI)

fun walk_all :: "(string \<Rightarrow> string set \<Rightarrow> string set option) \<Rightarrow> string list \<Rightarrow> string set \<Rightarrow> string set option" where
  "walk_all f [] seen = Some seen"
| "walk_all f (t # ts) seen = (case f t seen of None \<Rightarrow> None | Some seen' \<Rightarrow> walk_all f ts seen')"

lemma walk_all_cong [fundef_cong]:
  "ts = us \<Longrightarrow> d = d' \<Longrightarrow> (\<And>t e. t \<in> set us \<Longrightarrow> f t e = g t e) \<Longrightarrow> walk_all f ts d = walk_all g us d'"
  by (induction ts arbitrary: us d d') (auto split: option.splits)

function cycle_walk :: "(string \<times> string list) list \<Rightarrow> string set \<Rightarrow> string \<Rightarrow> string set \<Rightarrow> string set option" where
  "cycle_walk edges visiting relation seen =
     (if relation \<in> visiting then None
      else if relation \<in> seen then Some seen
      else (case walk_all (cycle_walk edges (insert relation visiting)) (edge_targets edges relation) seen of
              None \<Rightarrow> None
            | Some seen' \<Rightarrow> Some (insert relation seen')))"
  by pat_completeness auto
termination
proof (relation "measure (\<lambda>(edges, visiting, relation, seen). card (fst ` set edges - visiting))")
  fix edges :: "(string \<times> string list) list" and visiting :: "string set"
  fix relation t :: string and seen e :: "string set"
  assume "relation \<notin> visiting" "t \<in> set (edge_targets edges relation)"
  then have "relation \<in> fst ` set edges"
    by (blast dest: edge_targets_dom)
  with \<open>relation \<notin> visiting\<close>
  have "fst ` set edges - insert relation visiting \<subset> fst ` set edges - visiting" by auto
  then show "((edges, insert relation visiting, t, e), (edges, visiting, relation, seen))
    \<in> measure (\<lambda>(edges, visiting, relation, seen). card (fst ` set edges - visiting))"
    by (simp add: psubset_card_mono)
qed simp

declare cycle_walk.simps [simp del]

definition has_computed_userset_cycle :: "(string \<times> string list) list \<Rightarrow> bool" where
  "has_computed_userset_cycle edges \<longleftrightarrow>
     walk_all (cycle_walk edges {}) (map fst edges) {} = None"

definition edge_relation :: "(string \<times> string list) list \<Rightarrow> (string \<times> string) set" where
  "edge_relation edges = {(a, b). b \<in> set (edge_targets edges a)}"

text \<open>
  A set of finished relations is closed under edges and none of its members lies on a cycle.
\<close>

definition finished :: "(string \<times> string list) list \<Rightarrow> string set \<Rightarrow> bool" where
  "finished edges D \<longleftrightarrow>
     (\<forall>x \<in> D. set (edge_targets edges x) \<subseteq> D \<and> (x, x) \<notin> (edge_relation edges)\<^sup>+)"

lemma finished_closed:
  assumes "finished edges D" "x \<in> D" "(x, y) \<in> (edge_relation edges)\<^sup>+"
  shows "y \<in> D"
  using assms(3,2)
  by (induction rule: trancl_induct) (use assms(1) in \<open>auto simp: finished_def edge_relation_def\<close>)

lemma walk_all_finished:
  assumes "\<And>t e e'. t \<in> set ts \<Longrightarrow> f t e = Some e' \<Longrightarrow> finished edges e \<Longrightarrow> e \<inter> V = {} \<Longrightarrow>
      finished edges e' \<and> e \<subseteq> e' \<and> t \<in> e' \<and> e' \<inter> V = {}"
    and "walk_all f ts d = Some d'" "finished edges d" "d \<inter> V = {}"
  shows "finished edges d' \<and> d \<subseteq> d' \<and> set ts \<subseteq> d' \<and> d' \<inter> V = {}"
  using assms
proof (induction ts arbitrary: d)
  case Nil
  then show ?case by simp
next
  case (Cons t ts)
  from Cons.prems(2) obtain e where e: "f t d = Some e" "walk_all f ts e = Some d'"
    by (auto split: option.splits)
  have 1: "finished edges e \<and> d \<subseteq> e \<and> t \<in> e \<and> e \<inter> V = {}"
    using Cons.prems(1)[OF _ e(1) Cons.prems(3,4)] by simp
  have "finished edges d' \<and> e \<subseteq> d' \<and> set ts \<subseteq> d' \<and> d' \<inter> V = {}"
    using 1 by (intro Cons.IH[OF Cons.prems(1) e(2)]) auto
  with 1 show ?case by auto
qed

lemma cycle_walk_finished:
  "cycle_walk edges V r d = Some d' \<Longrightarrow> finished edges d \<Longrightarrow> d \<inter> V = {} \<Longrightarrow>
   finished edges d' \<and> d \<subseteq> d' \<and> r \<in> d' \<and> d' \<inter> V = {}"
proof (induction edges V r d arbitrary: d' rule: cycle_walk.induct)
  case (1 edges V r d)
  show ?case
  proof (cases "r \<in> d")
    case True
    with "1.prems" show ?thesis by (auto simp: cycle_walk.simps[of edges V r] split: if_splits)
  next
    case False
    with "1.prems" obtain e where nv: "r \<notin> V"
      and e: "walk_all (cycle_walk edges (insert r V)) (edge_targets edges r) d = Some e"
      and d': "d' = insert r e"
      by (auto simp: cycle_walk.simps[of edges V r] split: if_splits option.splits)
    have w: "finished edges e \<and> d \<subseteq> e \<and> set (edge_targets edges r) \<subseteq> e \<and> e \<inter> insert r V = {}"
      using "1.prems" False nv
      by (intro walk_all_finished[OF "1.IH" e]) auto
    have "(r, r) \<notin> (edge_relation edges)\<^sup>+"
    proof
      assume "(r, r) \<in> (edge_relation edges)\<^sup>+"
      then obtain t where "(r, t) \<in> edge_relation edges" "(t, r) \<in> (edge_relation edges)\<^sup>*"
        by (blast dest: tranclD)
      moreover from this(1) w have "t \<in> e" by (auto simp: edge_relation_def)
      ultimately have "r \<in> e"
        using w by (auto simp: rtrancl_eq_or_trancl intro: finished_closed)
      with w show False by auto
    qed
    with w d' nv show ?thesis by (auto simp: finished_def)
  qed
qed

lemma walk_all_None: "walk_all f ts d = None \<Longrightarrow> \<exists>t \<in> set ts. \<exists>e. f t e = None"
  by (induction ts arbitrary: d) (auto split: option.splits)

lemma cycle_walk_None:
  "cycle_walk edges V r d = None \<Longrightarrow> \<forall>v \<in> V. (v, r) \<in> (edge_relation edges)\<^sup>+ \<Longrightarrow>
   \<exists>x. (x, x) \<in> (edge_relation edges)\<^sup>+"
proof (induction edges V r d rule: cycle_walk.induct)
  case (1 edges V r d)
  show ?case
  proof (cases "r \<in> V")
    case True
    with "1.prems" show ?thesis by blast
  next
    case False
    with "1.prems"(1)
    have n: "r \<notin> d" "walk_all (cycle_walk edges (insert r V)) (edge_targets edges r) d = None"
      by (auto simp: cycle_walk.simps[of edges V r] split: if_splits option.splits)
    then obtain t e where t: "t \<in> set (edge_targets edges r)" "cycle_walk edges (insert r V) t e = None"
      by (blast dest: walk_all_None)
    then have "(r, t) \<in> edge_relation edges" by (simp add: edge_relation_def)
    with "1.prems"(2) have "\<forall>v \<in> insert r V. (v, t) \<in> (edge_relation edges)\<^sup>+"
      by (auto intro: trancl_into_trancl)
    with "1.IH"[OF False n(1) t] show ?thesis by blast
  qed
qed

lemma edge_relation_dom: "(a, b) \<in> edge_relation edges \<Longrightarrow> a \<in> fst ` set edges"
  by (auto simp: edge_relation_def dest: edge_targets_dom)

lemma has_cycle_iff:
  "has_computed_userset_cycle edges \<longleftrightarrow> (\<exists>x. (x, x) \<in> (edge_relation edges)\<^sup>+)"
proof
  assume "has_computed_userset_cycle edges"
  then obtain t e where "cycle_walk edges {} t e = None"
    by (auto simp: has_computed_userset_cycle_def dest: walk_all_None)
  then show "\<exists>x. (x, x) \<in> (edge_relation edges)\<^sup>+"
    using cycle_walk_None by blast
next
  assume "\<exists>x. (x, x) \<in> (edge_relation edges)\<^sup>+"
  then obtain x where x: "(x, x) \<in> (edge_relation edges)\<^sup>+" by blast
  show "has_computed_userset_cycle edges"
  proof (rule ccontr)
    assume "\<not> has_computed_userset_cycle edges"
    then obtain d where "walk_all (cycle_walk edges {}) (map fst edges) {} = Some d"
      by (auto simp: has_computed_userset_cycle_def)
    from walk_all_finished[OF _ this, of edges "{}"]
    have "finished edges d" "set (map fst edges) \<subseteq> d"
      using cycle_walk_finished by (auto simp: finished_def)
    moreover have "x \<in> fst ` set edges"
      using x by (blast dest: tranclD edge_relation_dom)
    ultimately show False using x by (auto simp: finished_def)
  qed
qed

lemma finite_edge_relation: "finite (edge_relation edges)"
proof -
  have "edge_relation edges \<subseteq> (\<Union>(a, ts) \<in> set edges. {a} \<times> set ts)"
    by (force simp: edge_relation_def edge_targets_def dest: map_of_SomeD[OF sym] split: option.splits)
  then show ?thesis by (rule finite_subset) auto
qed

text \<open>A relation's rank is the number of relations its computed usersets lead to.\<close>

definition relation_rank :: "(string \<times> string list) list \<Rightarrow> string \<Rightarrow> nat" where
  "relation_rank edges r = card {x. (r, x) \<in> (edge_relation edges)\<^sup>+}"

lemma relation_rank_decreases:
  assumes "\<not> has_computed_userset_cycle edges" "t \<in> set (edge_targets edges r)"
  shows "relation_rank edges t < relation_rank edges r"
proof -
  let ?E = "(edge_relation edges)\<^sup>+"
  from assms(2) have rt: "(r, t) \<in> ?E" by (auto simp: edge_relation_def)
  have "finite (snd ` ?E)" using finite_edge_relation by simp
  moreover have "{x. (r, x) \<in> ?E} \<subseteq> snd ` ?E" by force
  ultimately have "finite {x. (r, x) \<in> ?E}" by (rule rev_finite_subset)
  moreover have "{x. (t, x) \<in> ?E} \<subset> {x. (r, x) \<in> ?E}"
    using rt assms(1) has_cycle_iff[of edges] by (blast intro: trancl_trans)
  ultimately show ?thesis
    unfolding relation_rank_def by (rule psubset_card_mono)
qed

section \<open>Namespace configurations\<close>

record namespace_config =
  config_relations :: "string list"
  config_actions :: "(string \<times> string list) list"
  config_rewrites :: "(string \<times> userset) list"

text \<open>The three loops of \<open>NamespaceConfig.create\<close>, in order.\<close>

fun collect_relations :: "string list \<Rightarrow> string list \<Rightarrow> (string list, config_error) result" where
  "collect_relations acc [] = ok acc"
| "collect_relations acc (relation # rest) =
     (if \<not> is_identifier relation then err InvalidRelation
      else if relation \<in> set acc then err DuplicateRelation
      else collect_relations (acc @ [relation]) rest)"

fun collect_actions ::
  "string list \<Rightarrow> (string \<times> string list) list \<Rightarrow> (string \<times> string list) list \<Rightarrow>
   ((string \<times> string list) list, config_error) result" where
  "collect_actions relations acc [] = ok acc"
| "collect_actions relations acc ((verb, bound) # rest) =
     (if \<not> is_identifier verb then err InvalidVerb
      else if bound = [] then err EmptyBinding
      else if list_ex (\<lambda>r. r \<notin> set relations) bound then err UnknownRelation
      else collect_actions relations (AList.update verb (dedup bound) acc) rest)"

fun collect_rewrites ::
  "string list \<Rightarrow> (string \<times> userset) list \<Rightarrow> (string \<times> string list) list \<Rightarrow> (string \<times> userset) list \<Rightarrow>
   ((string \<times> userset) list \<times> (string \<times> string list) list, config_error) result" where
  "collect_rewrites relations acc edges [] = ok (acc, edges)"
| "collect_rewrites relations acc edges ((relation, tree) # rest) =
     (if relation \<notin> set relations then err UnknownRewriteRelation
      else (case validate_userset relations 0 tree of
              Some e \<Rightarrow> err e
            | None \<Rightarrow> collect_rewrites relations (AList.update relation tree acc)
                (AList.update relation (computed_userset_targets tree) edges) rest))"

definition config_create :: "config_data \<Rightarrow> (namespace_config, config_error) result" where
  "config_create data =
     (if data_relations data = [] then err EmptyRelations
      else case collect_relations [] (data_relations data) of
        Inl e \<Rightarrow> err e
      | Inr relations \<Rightarrow>
          (case collect_actions relations [] (data_actions data) of
             Inl e \<Rightarrow> err e
           | Inr actions \<Rightarrow>
               (case collect_rewrites relations [] []
                       (case data_rewrites data of None \<Rightarrow> [] | Some rw \<Rightarrow> rw) of
                  Inl e \<Rightarrow> err e
                | Inr (rewrites, edges) \<Rightarrow>
                    if has_computed_userset_cycle edges then err CyclicComputedUserset
                    else ok \<lparr>config_relations = relations, config_actions = actions,
                             config_rewrites = rewrites\<rparr>)))"

definition config_from_data :: "config_data \<Rightarrow> namespace_config" where
  "config_from_data data =
     \<lparr>config_relations = dedup (data_relations data), config_actions = data_actions data,
      config_rewrites = (case data_rewrites data of None \<Rightarrow> [] | Some rw \<Rightarrow> rw)\<rparr>"

definition config_has_relation :: "namespace_config \<Rightarrow> string \<Rightarrow> bool" where
  "config_has_relation c relation \<longleftrightarrow> relation \<in> set (config_relations c)"

definition required_relations_for_verb :: "namespace_config \<Rightarrow> string \<Rightarrow> string list" where
  "required_relations_for_verb c verb =
     (case map_of (config_actions c) verb of Some rs \<Rightarrow> rs | None \<Rightarrow> [])"

definition config_rewrites_for :: "namespace_config \<Rightarrow> string \<Rightarrow> userset" where
  "config_rewrites_for c relation =
     (case map_of (config_rewrites c) relation of Some u \<Rightarrow> u | None \<Rightarrow> direct_userset)"

definition config_to_data :: "namespace_config \<Rightarrow> config_data" where
  "config_to_data c =
     \<lparr>data_relations = config_relations c, data_actions = config_actions c,
      data_rewrites = (if config_rewrites c = [] then None else Some (config_rewrites c))\<rparr>"

text \<open>What a configuration that \<open>create\<close> returns satisfies.\<close>

definition config_edges :: "namespace_config \<Rightarrow> (string \<times> string list) list" where
  "config_edges c = map (\<lambda>(r, u). (r, computed_userset_targets u)) (config_rewrites c)"

definition valid_config :: "namespace_config \<Rightarrow> bool" where
  "valid_config c \<longleftrightarrow>
     config_relations c \<noteq> [] \<and> distinct (config_relations c) \<and>
     list_all is_identifier (config_relations c) \<and>
     distinct (map fst (config_actions c)) \<and>
     list_all (\<lambda>(v, rs). is_identifier v \<and> rs \<noteq> [] \<and> distinct rs \<and>
       set rs \<subseteq> set (config_relations c)) (config_actions c) \<and>
     distinct (map fst (config_rewrites c)) \<and>
     list_all (\<lambda>(r, u). r \<in> set (config_relations c) \<and>
       validate_userset (config_relations c) 0 u = None) (config_rewrites c) \<and>
     \<not> has_computed_userset_cycle (config_edges c)"

lemma collect_relations_ok:
  "collect_relations acc rs = ok out \<Longrightarrow> distinct acc \<Longrightarrow> list_all is_identifier acc \<Longrightarrow>
   out = acc @ rs \<and> distinct out \<and> list_all is_identifier out"
  by (induction acc rs rule: collect_relations.induct) (auto split: if_splits)

lemma collect_relations_accepts:
  "distinct (acc @ rs) \<Longrightarrow> list_all is_identifier rs \<Longrightarrow> collect_relations acc rs = ok (acc @ rs)"
  by (induction acc rs rule: collect_relations.induct) auto

lemma distinct_keys_update [simp]:
  "distinct (map fst (AList.update k v xs)) \<longleftrightarrow> distinct (map fst xs)"
  by (induction xs) (auto simp: update_keys)

lemma set_update_cases: "p \<in> set (AList.update k v xs) \<Longrightarrow> p = (k, v) \<or> p \<in> set xs"
  by (induction xs) (auto split: if_splits)

lemma update_fresh: "k \<notin> fst ` set xs \<Longrightarrow> AList.update k v xs = xs @ [(k, v)]"
  by (induction xs) auto

definition valid_binding :: "string list \<Rightarrow> string \<times> string list \<Rightarrow> bool" where
  "valid_binding relations = (\<lambda>(v, rs). is_identifier v \<and> rs \<noteq> [] \<and> distinct rs \<and> set rs \<subseteq> set relations)"

lemma collect_actions_ok:
  "collect_actions relations acc bs = ok out \<Longrightarrow> distinct (map fst acc) \<Longrightarrow>
   list_all (valid_binding relations) acc \<Longrightarrow>
   distinct (map fst out) \<and> list_all (valid_binding relations) out"
proof (induction relations acc bs rule: collect_actions.induct)
  case (2 relations acc verb bound rest)
  then have ok: "is_identifier verb" "bound \<noteq> []" "set bound \<subseteq> set relations"
    "collect_actions relations (AList.update verb (dedup bound) acc) rest = ok out"
    by (auto simp: list_ex_iff split: if_splits)
  then have "valid_binding relations (verb, dedup bound)"
    by (cases bound) (auto simp: valid_binding_def)
  with "2.prems"(3) have "list_all (valid_binding relations) (AList.update verb (dedup bound) acc)"
    by (auto simp: list_all_iff dest: set_update_cases)
  with 2 ok show ?case
    by (auto simp: list_ex_iff)
qed auto

lemma collect_actions_accepts:
  "distinct (map fst (acc @ bs)) \<Longrightarrow> list_all (valid_binding relations) bs \<Longrightarrow>
   collect_actions relations acc bs = ok (acc @ bs)"
proof (induction relations acc bs rule: collect_actions.induct)
  case (2 relations acc verb bound rest)
  then have "AList.update verb (dedup bound) acc = acc @ [(verb, bound)]"
    by (auto simp: valid_binding_def dedup_distinct intro!: update_fresh)
  with 2 show ?case by (auto simp: valid_binding_def list_ex_iff)
qed simp

definition valid_rewrite :: "string list \<Rightarrow> string \<times> userset \<Rightarrow> bool" where
  "valid_rewrite relations = (\<lambda>(r, u). r \<in> set relations \<and> validate_userset relations 0 u = None)"

abbreviation rewrite_edges :: "(string \<times> userset) list \<Rightarrow> (string \<times> string list) list" where
  "rewrite_edges rw \<equiv> map (\<lambda>(r, u). (r, computed_userset_targets u)) rw"

lemma rewrite_edges_update:
  "rewrite_edges (AList.update r u rw) = AList.update r (computed_userset_targets u) (rewrite_edges rw)"
  by (induction rw) auto

lemma collect_rewrites_ok:
  "collect_rewrites relations acc edges rws = ok (out, edges') \<Longrightarrow> distinct (map fst acc) \<Longrightarrow>
   list_all (valid_rewrite relations) acc \<Longrightarrow> edges = rewrite_edges acc \<Longrightarrow>
   distinct (map fst out) \<and> list_all (valid_rewrite relations) out \<and> edges' = rewrite_edges out"
proof (induction relations acc edges rws rule: collect_rewrites.induct)
  case (2 relations acc edges r u rest)
  then have ok: "valid_rewrite relations (r, u)"
    "collect_rewrites relations (AList.update r u acc)
       (AList.update r (computed_userset_targets u) edges) rest = ok (out, edges')"
    by (auto simp: valid_rewrite_def split: if_splits option.splits)
  with "2.prems"(3) have "list_all (valid_rewrite relations) (AList.update r u acc)"
    by (auto simp: list_all_iff dest: set_update_cases)
  with 2 ok show ?case
    by (auto simp: valid_rewrite_def rewrite_edges_update)
qed auto

lemma collect_rewrites_accepts:
  "distinct (map fst (acc @ rws)) \<Longrightarrow> list_all (valid_rewrite relations) rws \<Longrightarrow>
   edges = rewrite_edges acc \<Longrightarrow>
   collect_rewrites relations acc edges rws = ok (acc @ rws, rewrite_edges (acc @ rws))"
proof (induction relations acc edges rws rule: collect_rewrites.induct)
  case (2 relations acc edges r u rest)
  then have "AList.update r u acc = acc @ [(r, u)]"
    by (auto intro!: update_fresh)
  moreover from this 2
  have "AList.update r (computed_userset_targets u) edges = rewrite_edges (acc @ [(r, u)])"
    by (metis rewrite_edges_update)
  ultimately show ?case using 2 by (auto simp: valid_rewrite_def)
qed simp

lemma valid_config_alt:
  "valid_config c \<longleftrightarrow>
     config_relations c \<noteq> [] \<and> distinct (config_relations c) \<and>
     list_all is_identifier (config_relations c) \<and>
     distinct (map fst (config_actions c)) \<and>
     list_all (valid_binding (config_relations c)) (config_actions c) \<and>
     distinct (map fst (config_rewrites c)) \<and>
     list_all (valid_rewrite (config_relations c)) (config_rewrites c) \<and>
     \<not> has_computed_userset_cycle (rewrite_edges (config_rewrites c))"
  by (simp add: valid_config_def valid_binding_def valid_rewrite_def config_edges_def)

lemma config_create_valid: "config_create data = ok c \<Longrightarrow> valid_config c"
proof -
  assume "config_create data = ok c"
  then obtain rs acts rws where
    "data_relations data \<noteq> []" "collect_relations [] (data_relations data) = ok rs"
    "collect_actions rs [] (data_actions data) = ok acts"
    "collect_rewrites rs [] [] (case data_rewrites data of None \<Rightarrow> [] | Some rw \<Rightarrow> rw) = ok rws"
    "\<not> has_computed_userset_cycle (snd rws)"
    "c = \<lparr>config_relations = rs, config_actions = acts, config_rewrites = fst rws\<rparr>"
    by (auto simp: config_create_def split: if_splits sum.splits)
  then show ?thesis
    using collect_relations_ok[of "[]" "data_relations data" rs]
      collect_actions_ok[of rs "[]" "data_actions data" acts]
      collect_rewrites_ok[of rs "[]" "[]" _ "fst rws" "snd rws"]
    by (auto simp: valid_config_alt)
qed

lemma config_create_to_data: "valid_config c \<Longrightarrow> config_create (config_to_data c) = ok c"
  using collect_relations_accepts[of "[]" "config_relations c"]
    collect_actions_accepts[of "[]" "config_actions c" "config_relations c"]
    collect_rewrites_accepts[of "[]" "config_rewrites c" "config_relations c" "[]"]
  by (auto simp: config_create_def config_to_data_def valid_config_alt)

lemma config_from_to_data: "valid_config c \<Longrightarrow> config_from_data (config_to_data c) = c"
  by (simp add: config_from_data_def config_to_data_def valid_config_def dedup_distinct)

text \<open>The rank of a relation in a valid configuration drops along every computed userset.\<close>

definition config_rank :: "namespace_config \<Rightarrow> string \<Rightarrow> nat" where
  "config_rank c relation = relation_rank (config_edges c) relation"

lemma config_rank_decreases:
  assumes "valid_config c" "t \<in> set (computed_userset_targets (config_rewrites_for c r))"
  shows "config_rank c t < config_rank c r"
proof -
  have "map_of (config_edges c) r = map_option computed_userset_targets (map_of (config_rewrites c) r)"
    by (simp add: config_edges_def map_of_map)
  with assms(2) have "t \<in> set (edge_targets (config_edges c) r)"
    by (auto simp: edge_targets_def config_rewrites_for_def direct_userset_def split: option.splits)
  with assms(1) show ?thesis
    unfolding config_rank_def by (intro relation_rank_decreases) (auto simp: valid_config_def)
qed

section \<open>Namespace definitions and the registry\<close>

record namespace_definition =
  def_org :: org_id
  def_namespace :: string
  def_config :: namespace_config
  def_revision :: revision
  def_created :: date

definition required_relations_for :: "namespace_definition \<Rightarrow> action \<Rightarrow> string list" where
  "required_relations_for d a =
     (if action_namespace a \<noteq> def_namespace d then []
      else required_relations_for_verb (def_config d) (action_verb a))"

type_synonym namespace_registry = "(string \<times> namespace_definition) list"

definition registry_of :: "namespace_definition list \<Rightarrow> namespace_registry" where
  "registry_of ds = foldl (\<lambda>m d. AList.update (def_namespace d) d m) [] ds"

definition registry_get :: "namespace_registry \<Rightarrow> string \<Rightarrow> namespace_definition option" where
  "registry_get reg type = map_of reg type"

definition registry_all :: "namespace_registry \<Rightarrow> namespace_definition list" where
  "registry_all reg = map snd reg"

definition rewrites_for :: "namespace_registry \<Rightarrow> string \<Rightarrow> string \<Rightarrow> userset" where
  "rewrites_for reg type relation =
     (case map_of reg type of
        Some d \<Rightarrow> config_rewrites_for (def_config d) relation
      | None \<Rightarrow> direct_userset)"

lemma registry_of_keys:
  "map_of (foldl (\<lambda>m d. AList.update (def_namespace d) d m) m ds) k =
   (case find (\<lambda>d. def_namespace d = k) (rev ds) of Some d \<Rightarrow> Some d | None \<Rightarrow> map_of m k)"
proof (induction ds rule: rev_induct)
  case Nil
  then show ?case by simp
next
  case (snoc d ds)
  then show ?case by (cases "def_namespace d = k") auto
qed

lemma registry_get_of:
  "registry_get (registry_of ds) k = find (\<lambda>d. def_namespace d = k) (rev ds)"
  using registry_of_keys[of "[]" ds k]
  by (simp add: registry_get_def registry_of_def split: option.splits)

text \<open>Every namespace of a registry has a configuration that \<open>create\<close> would accept.\<close>

definition valid_registry :: "namespace_registry \<Rightarrow> bool" where
  "valid_registry reg \<longleftrightarrow> list_all (\<lambda>d. valid_config (def_config d)) (registry_all reg)"

definition node_rank :: "namespace_registry \<Rightarrow> string \<Rightarrow> string \<Rightarrow> nat" where
  "node_rank reg type relation =
     (case map_of reg type of Some d \<Rightarrow> config_rank (def_config d) relation | None \<Rightarrow> 0)"

lemma node_rank_decreases:
  assumes "valid_registry reg" "t \<in> set (computed_userset_targets (rewrites_for reg type r))"
  shows "node_rank reg type t < node_rank reg type r"
proof (cases "map_of reg type")
  case None
  with assms(2) show ?thesis by (simp add: rewrites_for_def direct_userset_def)
next
  case (Some d)
  then have "valid_config (def_config d)"
    using assms(1) by (force simp: valid_registry_def registry_all_def list_all_iff dest: map_of_SomeD)
  with assms(2) Some show ?thesis
    by (simp add: rewrites_for_def node_rank_def config_rank_decreases)
qed

end
