(* ===== verification/Evaluate.thy ===== *)
theory Evaluate
  imports Namespaces
begin

text \<open>
  The decision engine, \<open>authz/domain/evaluate.ts\<close>, with \<open>indexed-memberships.ts\<close>:
  \<open>derive\<close> and \<open>deriveRewrite\<close> walk the relation graph for one subject,
  \<open>evaluate\<close> turns the walk into a decision, \<open>collectMembers\<close> and
  \<open>collectRewrite\<close> list the members of a userset for \<open>flattenSet\<close> and
  \<open>expand\<close>. The recursion of the code is general (a badly formed configuration makes it
  recurse forever), so the walks are partial functions: \<open>None\<close> is a call that does not
  return. The mutable \<open>visited\<close> set and the \<open>truncated\<close> flag are threaded as a
  record.
\<close>

definition max_userset_depth :: nat where
  "max_userset_depth = 10"

section \<open>The membership index as the evaluator sees it\<close>

record indexed_membership =
  im_object :: entity_ref
  im_relation :: string
  im_depth :: nat

record indexed_memberships =
  index_member :: "string option"
  index_depths :: "(string \<times> nat) list"

definition no_memberships :: indexed_memberships where
  "no_memberships = \<lparr>index_member = None, index_depths = []\<rparr>"

definition record_depth :: "(string \<times> nat) list \<Rightarrow> indexed_membership \<Rightarrow> (string \<times> nat) list" where
  "record_depth depths m =
     (let key = format_entity_ref (im_object m) @ ''#'' @ im_relation m in
      case map_of depths key of
        None \<Rightarrow> AList.update key (im_depth m) depths
      | Some seen \<Rightarrow> if im_depth m < seen then AList.update key (im_depth m) depths else depths)"

definition indexed_memberships_of :: "entity_ref \<Rightarrow> indexed_membership list \<Rightarrow> indexed_memberships" where
  "indexed_memberships_of member ms =
     \<lparr>index_member = Some (format_entity_ref member), index_depths = foldl record_depth [] ms\<rparr>"

definition depth_of :: "indexed_memberships \<Rightarrow> entity_ref \<Rightarrow> string \<Rightarrow> entity_ref \<Rightarrow> nat option" where
  "depth_of im object relation member =
     (if index_member im \<noteq> Some (format_entity_ref member) then None
      else map_of (index_depths im) (format_entity_ref object @ ''#'' @ relation))"

record snapshot =
  snap_namespaces :: namespace_registry
  snap_tuples :: tuple_index
  snap_memberships :: "indexed_memberships option"

section \<open>The walk for one subject\<close>

record grant =
  grant_code :: string
  grant_path :: "string list"

record walk =
  visited :: "string set"
  truncated :: bool

type_synonym run = "(grant option \<times> walk) option"

definition fresh :: walk where
  "fresh = \<lparr>visited = {}, truncated = False\<rparr>"

text \<open>\<open>for (const x of xs) \{ const grant = f(x); if (grant) return grant; \}\<close>\<close>

fun first_grant :: "('a \<Rightarrow> walk \<Rightarrow> run) \<Rightarrow> 'a list \<Rightarrow> walk \<Rightarrow> run" where
  "first_grant f [] w = Some (None, w)"
| "first_grant f (x # xs) w =
     Option.bind (f x w) (\<lambda>(g, w'). case g of
         Some _ \<Rightarrow> Some (g, w')
       | None \<Rightarrow> first_grant f xs w')"

text \<open>The loop of the intersection: every child starts from a fresh visited set and state.\<close>

fun intersect_grants :: "('a \<Rightarrow> walk \<Rightarrow> run) \<Rightarrow> 'a list \<Rightarrow> string list \<Rightarrow> walk \<Rightarrow> run" where
  "intersect_grants f [] path w =
     Some (Some \<lparr>grant_code = ''grant.intersection'', grant_path = path\<rparr>, w)"
| "intersect_grants f (x # xs) path w =
     Option.bind (f x fresh) (\<lambda>(g, cw).
       if truncated cw then Some (None, w\<lparr>truncated := True\<rparr>)
       else (case g of
               None \<Rightarrow> Some (None, w)
             | Some gr \<Rightarrow> intersect_grants f xs (path @ grant_path gr) w))"

lemma first_grant_cong [fundef_cong]:
  "xs = ys \<Longrightarrow> w = w' \<Longrightarrow> (\<And>x v. x \<in> set ys \<Longrightarrow> f x v = g x v) \<Longrightarrow>
   first_grant f xs w = first_grant g ys w'"
proof (induction xs arbitrary: ys w w')
  case (Cons x xs)
  then show ?case by (cases "g x w'") (auto split: option.splits)
qed simp

lemma intersect_grants_cong [fundef_cong]:
  "xs = ys \<Longrightarrow> p = p' \<Longrightarrow> w = w' \<Longrightarrow> (\<And>x v. x \<in> set ys \<Longrightarrow> f x v = g x v) \<Longrightarrow>
   intersect_grants f xs p w = intersect_grants g ys p' w'"
proof (induction xs arbitrary: ys p p' w w')
  case (Cons x xs)
  then show ?case by (cases "g x fresh") (auto split: option.splits)
qed simp

definition relabel :: "string \<Rightarrow> string list \<Rightarrow> grant option \<times> walk \<Rightarrow> run" where
  "relabel code hops = (\<lambda>(sub, w). Some (case sub of
       None \<Rightarrow> None
     | Some g \<Rightarrow> Some \<lparr>grant_code = code, grant_path = hops @ grant_path g\<rparr>, w))"

definition indexed_depth :: "snapshot \<Rightarrow> entity_ref \<Rightarrow> string \<Rightarrow> entity_ref \<Rightarrow> nat option" where
  "indexed_depth snap object relation target =
     (case snap_memberships snap of
        None \<Rightarrow> None | Some im \<Rightarrow> depth_of im object relation target)"

definition derive_this ::
  "(entity_ref \<Rightarrow> string \<Rightarrow> nat \<Rightarrow> walk \<Rightarrow> run) \<Rightarrow> snapshot \<Rightarrow> entity_ref \<Rightarrow> entity_ref \<Rightarrow>
   string \<Rightarrow> nat \<Rightarrow> walk \<Rightarrow> run" where
  "derive_this derive snap target object relation depth w =
     (let subjects = subjects_of (snap_tuples snap) object relation in
      if list_ex (\<lambda>s. case s of Subject r \<Rightarrow> ref_equals r target | UsersetSubject _ _ \<Rightarrow> False) subjects
      then Some (Some \<lparr>grant_code = ''grant.direct'',
                       grant_path = [tuple_key object relation (Subject target)]\<rparr>, w)
      else first_grant (\<lambda>s w. case s of
               Subject _ \<Rightarrow> Some (None, w)
             | UsersetSubject ref rel \<Rightarrow>
                 (case indexed_depth snap ref rel target of
                    Some d \<Rightarrow>
                      if depth + 1 + d \<le> max_userset_depth
                      then Some (Some \<lparr>grant_code = ''grant.indexed_userset'',
                                       grant_path = [tuple_key object relation s]\<rparr>, w)
                      else Option.bind (derive ref rel (depth + 1) w)
                             (relabel ''grant.userset'' [tuple_key object relation s])
                  | None \<Rightarrow> Option.bind (derive ref rel (depth + 1) w)
                             (relabel ''grant.userset'' [tuple_key object relation s])))
             subjects w)"

fun derive_rewrite ::
  "(entity_ref \<Rightarrow> string \<Rightarrow> nat \<Rightarrow> walk \<Rightarrow> run) \<Rightarrow> snapshot \<Rightarrow> entity_ref \<Rightarrow> entity_ref \<Rightarrow>
   string \<Rightarrow> nat \<Rightarrow> userset \<Rightarrow> walk \<Rightarrow> run" where
  "derive_rewrite derive snap target object relation depth This w =
     derive_this derive snap target object relation depth w"
| "derive_rewrite derive snap target object relation depth (ComputedUserset r) w =
     Option.bind (derive object r depth w) (relabel ''grant.computed_userset'' [])"
| "derive_rewrite derive snap target object relation depth (TupleToUserset tupleset computed) w =
     first_grant (\<lambda>s w. case s of
         Subject ref \<Rightarrow> Option.bind (derive ref computed (depth + 1) w)
           (relabel ''grant.tuple_to_userset'' [tuple_key object tupleset s])
       | UsersetSubject _ _ \<Rightarrow> Some (None, w))
       (subjects_of (snap_tuples snap) object tupleset) w"
| "derive_rewrite derive snap target object relation depth (Union children) w =
     first_grant (\<lambda>c w. derive_rewrite derive snap target object relation depth c w) children w"
| "derive_rewrite derive snap target object relation depth (Intersection children) w =
     intersect_grants (\<lambda>c w. derive_rewrite derive snap target object relation depth c w) children [] w"
| "derive_rewrite derive snap target object relation depth (Exclusion base sub) w =
     Option.bind (derive_rewrite derive snap target object relation depth base fresh) (\<lambda>(b, bw).
       if truncated bw then Some (None, w\<lparr>truncated := True\<rparr>)
       else (case b of
         None \<Rightarrow> Some (None, w)
       | Some g \<Rightarrow>
           Option.bind (derive_rewrite derive snap target object relation depth sub fresh) (\<lambda>(s, sw).
             if truncated sw then Some (None, w\<lparr>truncated := True\<rparr>)
             else (case s of
               Some _ \<Rightarrow> Some (None, w)
             | None \<Rightarrow> Some (Some \<lparr>grant_code = ''grant.exclusion'', grant_path = grant_path g\<rparr>, w)))))"

text \<open>
  The bodies are monotone in the function they call back, so the mutual recursion of
  \<open>derive\<close> and \<open>deriveRewrite\<close> has a least fixed point.
\<close>

lemma option_case_mono:
  "mono_option N \<Longrightarrow> (\<And>x. mono_option (\<lambda>f. S f x)) \<Longrightarrow>
   mono_option (\<lambda>f. case g of None \<Rightarrow> N f | Some x \<Rightarrow> S f x)"
  by (cases g) auto

lemma subject_case_mono:
  "(\<And>r. mono_option (\<lambda>f. A f r)) \<Longrightarrow> (\<And>r q. mono_option (\<lambda>f. B f r q)) \<Longrightarrow>
   mono_option (\<lambda>f. case s of Subject r \<Rightarrow> A f r | UsersetSubject r q \<Rightarrow> B f r q)"
  by (cases s) auto

lemmas run_mono = bind_mono if_mono let_mono option_case_mono subject_case_mono option.const_mono

lemma first_grant_mono_on:
  "(\<And>x w. x \<in> set xs \<Longrightarrow> mono_option (\<lambda>f. B f x w)) \<Longrightarrow>
   mono_option (\<lambda>f. first_grant (\<lambda>x w. B f x w) xs w)"
proof (induction xs arbitrary: w)
  case Nil
  show ?case by (simp add: option.const_mono)
next
  case (Cons x xs)
  have "mono_option (\<lambda>f. B f x w)" "\<And>w. mono_option (\<lambda>f. first_grant (\<lambda>x w. B f x w) xs w)"
    using Cons by simp_all
  then show ?case
    unfolding first_grant.simps case_prod_unfold by (intro run_mono)
qed

lemma intersect_grants_mono_on:
  "(\<And>x w. x \<in> set xs \<Longrightarrow> mono_option (\<lambda>f. B f x w)) \<Longrightarrow>
   mono_option (\<lambda>f. intersect_grants (\<lambda>x w. B f x w) xs p w)"
proof (induction xs arbitrary: p)
  case Nil
  show ?case by (simp add: option.const_mono)
next
  case (Cons x xs)
  have "\<And>w. mono_option (\<lambda>f. B f x w)" "\<And>p. mono_option (\<lambda>f. intersect_grants (\<lambda>x w. B f x w) xs p w)"
    using Cons by simp_all
  then show ?case
    unfolding intersect_grants.simps case_prod_unfold by (intro run_mono)
qed

lemmas first_grant_mono [partial_function_mono] = first_grant_mono_on

lemma derive_this_mono [partial_function_mono]:
  assumes "\<And>object relation depth w. mono_option (\<lambda>f. D f object relation depth w)"
  shows "mono_option (\<lambda>f. derive_this (D f) snap target object relation depth w)"
  unfolding derive_this_def
  by (intro run_mono first_grant_mono assms)

lemma derive_rewrite_mono [partial_function_mono]:
  assumes "\<And>object relation depth w. mono_option (\<lambda>f. D f object relation depth w)"
  shows "mono_option (\<lambda>f. derive_rewrite (D f) snap target object relation depth u w)"
proof (induction u arbitrary: w)
  case This
  show ?case by (simp, intro derive_this_mono assms)
next
  case (ComputedUserset r)
  show ?case by (simp, intro run_mono assms)
next
  case (TupleToUserset ts cu)
  show ?case by (simp, intro first_grant_mono run_mono assms)
next
  case (Union children)
  then show ?case by (simp, intro first_grant_mono_on)
next
  case (Intersection children)
  then show ?case by (simp, intro intersect_grants_mono_on)
next
  case (Exclusion base sub)
  show ?case
    unfolding derive_rewrite.simps case_prod_unfold
    by (intro run_mono assms Exclusion.IH)
qed

partial_function (option) derive ::
  "snapshot \<Rightarrow> entity_ref \<Rightarrow> entity_ref \<Rightarrow> string \<Rightarrow> nat \<Rightarrow> walk \<Rightarrow> run" where
  "derive snap target object relation depth w =
     (if depth > max_userset_depth then Some (None, w\<lparr>truncated := True\<rparr>)
      else let current = node_key object relation in
        if current \<in> visited w then Some (None, w)
        else derive_rewrite (derive snap target) snap target object relation depth
               (rewrites_for (snap_namespaces snap) (ref_type object) relation)
               (w\<lparr>visited := insert current (visited w)\<rparr>))"

declare derive.simps [code]

text \<open>\<open>evaluate\<close> starts every required relation with a new visited set and one shared state.\<close>

fun derive_any :: "snapshot \<Rightarrow> entity_ref \<Rightarrow> entity_ref \<Rightarrow> string list \<Rightarrow> bool \<Rightarrow>
    ((string \<times> grant) option \<times> bool) option" where
  "derive_any snap subject resource [] trunc = Some (None, trunc)"
| "derive_any snap subject resource (relation # rest) trunc =
     Option.bind (derive snap subject resource relation 0 \<lparr>visited = {}, truncated = trunc\<rparr>) (\<lambda>(g, w).
       case g of
         Some gr \<Rightarrow> Some (Some (relation, gr), truncated w)
       | None \<Rightarrow> derive_any snap subject resource rest (truncated w))"

definition required_relations :: "authorization_query \<Rightarrow> snapshot \<Rightarrow> string list" where
  "required_relations q snap =
     (case registry_get (snap_namespaces snap) (ref_type (query_resource q)) of
        Some d \<Rightarrow> required_relations_for d (query_action q)
      | None \<Rightarrow> [])"

definition walk_truncated_reason :: reason where
  "walk_truncated_reason = plain_reason ''walk_truncated''
     ''Traversal stopped at the depth bound (10); a deeper relationship may exist.''"

definition evaluate :: "authorization_query \<Rightarrow> snapshot \<Rightarrow> decision option" where
  "evaluate q snap =
     (if \<not> org_equals (index_org (snap_tuples snap)) (query_org q)
      then Some (deny [plain_reason ''org_mismatch''
        ''Tuple snapshot belongs to a different organization.''])
      else if list_ex (\<lambda>d. \<not> org_equals (def_org d) (query_org q)) (registry_all (snap_namespaces snap))
      then Some (deny [plain_reason ''org_mismatch''
        ''Namespace definition belongs to a different organization.''])
      else let required = required_relations q snap in
        if required = []
        then Some (deny [plain_reason ''unknown_action''
          (''No relation is bound to action '' @ action_name (query_action q) @ ''.'')])
        else Option.bind (derive_any snap (query_subject q) (query_resource q) required False) (\<lambda>(g, trunc).
          case g of
            Some (relation, gr) \<Rightarrow>
              Some (permit [\<lparr>reason_code = grant_code gr,
                reason_message = ''Subject '' @ format_entity_ref (query_subject q) @ '' holds '' @
                  relation @ '' on '' @ format_entity_ref (query_resource q) @ ''.'',
                reason_relation = Some relation, reason_path = Some (grant_path gr)\<rparr>])
          | None \<Rightarrow>
              Some (deny (plain_reason ''default_deny'' ''No grant path resolved; denied by default.'' #
                (if trunc then [walk_truncated_reason] else [])))))"

section \<open>The members of a userset\<close>

record flat_member =
  member_ref :: entity_ref
  member_depth :: nat

record collect_state =
  collected :: "string set"
  excluded :: bool

type_synonym collect_run = "(flat_member list \<times> collect_state) option"

fun collect_all :: "('a \<Rightarrow> collect_state \<Rightarrow> collect_run) \<Rightarrow> 'a list \<Rightarrow> collect_state \<Rightarrow> collect_run" where
  "collect_all f [] c = Some ([], c)"
| "collect_all f (x # xs) c =
     Option.bind (f x c) (\<lambda>(ms, c'). Option.bind (collect_all f xs c') (\<lambda>(ns, c''). Some (ms @ ns, c'')))"

definition meet_members :: "flat_member list \<Rightarrow> flat_member list \<Rightarrow> flat_member list" where
  "meet_members members others =
     concat (map (\<lambda>m. case find (\<lambda>other. ref_equals (member_ref other) (member_ref m)) others of
         Some match \<Rightarrow> [\<lparr>member_ref = member_ref m, member_depth = max (member_depth m) (member_depth match)\<rparr>]
       | None \<Rightarrow> []) members)"

fun collect_meet :: "('a \<Rightarrow> collect_state \<Rightarrow> collect_run) \<Rightarrow> 'a list \<Rightarrow> flat_member list option \<Rightarrow>
    collect_state \<Rightarrow> collect_run" where
  "collect_meet f [] acc c = Some (case acc of None \<Rightarrow> [] | Some ms \<Rightarrow> ms, c)"
| "collect_meet f (x # xs) acc c =
     Option.bind (f x (c\<lparr>collected := {}\<rparr>)) (\<lambda>(ms, c').
       collect_meet f xs (Some (case acc of None \<Rightarrow> ms | Some members \<Rightarrow> meet_members members ms))
         (c\<lparr>excluded := excluded c'\<rparr>))"

lemma collect_all_cong [fundef_cong]:
  "xs = ys \<Longrightarrow> c = c' \<Longrightarrow> (\<And>x v. x \<in> set ys \<Longrightarrow> f x v = g x v) \<Longrightarrow>
   collect_all f xs c = collect_all g ys c'"
proof (induction xs arbitrary: ys c c')
  case (Cons x xs)
  then show ?case by (cases "g x c'") auto
qed simp

lemma collect_meet_cong [fundef_cong]:
  "xs = ys \<Longrightarrow> a = a' \<Longrightarrow> c = c' \<Longrightarrow> (\<And>x v. x \<in> set ys \<Longrightarrow> f x v = g x v) \<Longrightarrow>
   collect_meet f xs a c = collect_meet g ys a' c'"
proof (induction xs arbitrary: ys a a' c c')
  case (Cons x xs)
  then show ?case by (cases "g x (c'\<lparr>collected := {}\<rparr>)") auto
qed simp

fun collect_rewrite ::
  "(entity_ref \<Rightarrow> string \<Rightarrow> nat \<Rightarrow> collect_state \<Rightarrow> collect_run) \<Rightarrow> snapshot \<Rightarrow> entity_ref \<Rightarrow>
   string \<Rightarrow> nat \<Rightarrow> userset \<Rightarrow> collect_state \<Rightarrow> collect_run" where
  "collect_rewrite collect snap object relation depth This c =
     collect_all (\<lambda>s c. case s of
         Subject ref \<Rightarrow> Some ([\<lparr>member_ref = ref, member_depth = depth\<rparr>], c)
       | UsersetSubject ref rel \<Rightarrow> collect ref rel (depth + 1) c)
       (subjects_of (snap_tuples snap) object relation) c"
| "collect_rewrite collect snap object relation depth (ComputedUserset r) c =
     collect object r depth c"
| "collect_rewrite collect snap object relation depth (TupleToUserset tupleset computed) c =
     collect_all (\<lambda>s c. case s of
         Subject ref \<Rightarrow> collect ref computed (depth + 1) c
       | UsersetSubject _ _ \<Rightarrow> Some ([], c))
       (subjects_of (snap_tuples snap) object tupleset) c"
| "collect_rewrite collect snap object relation depth (Union children) c =
     collect_all (\<lambda>u c. collect_rewrite collect snap object relation depth u c) children c"
| "collect_rewrite collect snap object relation depth (Intersection children) c =
     collect_meet (\<lambda>u c. collect_rewrite collect snap object relation depth u c) children None c"
| "collect_rewrite collect snap object relation depth (Exclusion base sub) c =
     Option.bind (collect_rewrite collect snap object relation depth base
         \<lparr>collected = {}, excluded = True\<rparr>) (\<lambda>(bs, bc).
       Option.bind (collect_rewrite collect snap object relation depth sub
         \<lparr>collected = {}, excluded = excluded bc\<rparr>) (\<lambda>(ss, sc).
         Some (filter (\<lambda>m. \<not> list_ex (\<lambda>other. ref_equals (member_ref other) (member_ref m)) ss) bs,
               c\<lparr>excluded := excluded sc\<rparr>)))"

lemma collect_all_mono_on [partial_function_mono]:
  "(\<And>x w. x \<in> set xs \<Longrightarrow> mono_option (\<lambda>f. B f x w)) \<Longrightarrow>
   mono_option (\<lambda>f. collect_all (\<lambda>x w. B f x w) xs w)"
proof (induction xs arbitrary: w)
  case Nil
  show ?case by (simp add: option.const_mono)
next
  case (Cons x xs)
  have "mono_option (\<lambda>f. B f x w)" "\<And>w. mono_option (\<lambda>f. collect_all (\<lambda>x w. B f x w) xs w)"
    using Cons by simp_all
  then show ?case
    unfolding collect_all.simps case_prod_unfold by (intro run_mono)
qed

lemma collect_meet_mono_on:
  "(\<And>x w. x \<in> set xs \<Longrightarrow> mono_option (\<lambda>f. B f x w)) \<Longrightarrow>
   mono_option (\<lambda>f. collect_meet (\<lambda>x w. B f x w) xs a w)"
proof (induction xs arbitrary: a w)
  case Nil
  show ?case by (simp add: option.const_mono)
next
  case (Cons x xs)
  have "\<And>w. mono_option (\<lambda>f. B f x w)" "\<And>a w. mono_option (\<lambda>f. collect_meet (\<lambda>x w. B f x w) xs a w)"
    using Cons by simp_all
  then show ?case
    unfolding collect_meet.simps case_prod_unfold by (intro run_mono)
qed

lemma collect_rewrite_mono [partial_function_mono]:
  assumes "\<And>object relation depth c. mono_option (\<lambda>f. D f object relation depth c)"
  shows "mono_option (\<lambda>f. collect_rewrite (D f) snap object relation depth u c)"
proof (induction u arbitrary: c)
  case This
  show ?case by (simp, intro collect_all_mono_on run_mono assms)
next
  case (ComputedUserset r)
  show ?case by (simp add: assms)
next
  case (TupleToUserset ts cu)
  show ?case by (simp, intro collect_all_mono_on run_mono assms)
next
  case (Union children)
  then show ?case by (simp, intro collect_all_mono_on)
next
  case (Intersection children)
  then show ?case by (simp, intro collect_meet_mono_on)
next
  case (Exclusion base sub)
  show ?case
    unfolding collect_rewrite.simps case_prod_unfold
    by (intro run_mono assms Exclusion.IH)
qed

partial_function (option) collect_members ::
  "snapshot \<Rightarrow> entity_ref \<Rightarrow> string \<Rightarrow> nat \<Rightarrow> collect_state \<Rightarrow> collect_run" where
  "collect_members snap object relation depth c =
     (if depth > max_userset_depth then Some ([], c)
      else let current = node_key object relation in
        if current \<in> collected c then Some ([], c)
        else collect_rewrite (collect_members snap) snap object relation depth
               (rewrites_for (snap_namespaces snap) (ref_type object) relation)
               (c\<lparr>collected := insert current (collected c)\<rparr>))"

declare collect_members.simps [code]

record flattened_set =
  flat_members :: "flat_member list"
  flat_monotonic :: bool

fun keep_shallowest :: "(string \<times> flat_member) list \<Rightarrow> flat_member \<Rightarrow> (string \<times> flat_member) list" where
  "keep_shallowest by_ref m =
     (let key = format_entity_ref (member_ref m) in
      case map_of by_ref key of
        None \<Rightarrow> AList.update key m by_ref
      | Some seen \<Rightarrow>
          if member_depth m < member_depth seen
          then AList.update key \<lparr>member_ref = member_ref seen, member_depth = member_depth m\<rparr> by_ref
          else by_ref)"

definition flatten_set :: "entity_ref \<Rightarrow> string \<Rightarrow> snapshot \<Rightarrow> flattened_set option" where
  "flatten_set object relation snap =
     Option.bind (collect_members snap object relation 0 \<lparr>collected = {}, excluded = False\<rparr>) (\<lambda>(ms, c).
       Some \<lparr>flat_members = map snd (foldl keep_shallowest [] ms), flat_monotonic = \<not> excluded c\<rparr>)"

definition flatten :: "entity_ref \<Rightarrow> string \<Rightarrow> snapshot \<Rightarrow> flat_member list option" where
  "flatten object relation snap = map_option flat_members (flatten_set object relation snap)"

definition expand :: "org_id \<Rightarrow> entity_ref \<Rightarrow> string \<Rightarrow> snapshot \<Rightarrow> entity_ref list option" where
  "expand org resource relation snap =
     (if \<not> org_equals (index_org (snap_tuples snap)) org then Some []
      else map_option (map member_ref) (flatten resource relation snap))"

end
