(* ===== verification/Walks.thy ===== *)
theory Walks
  imports Evaluate
begin

text \<open>
  What the graph walks compute. Termination: over a registry of valid configurations every walk
  returns, because a recursive call either goes one hop deeper (and the depth is bounded) or
  follows a computed userset (and the configuration ranks those). Agreement: the walk that looks
  for one subject and the walk that lists the members visit the same nodes, so \<open>evaluate\<close>
  and \<open>expand\<close> answer alike wherever the depth bound was not hit.
\<close>

section \<open>Termination\<close>

definition returns :: "'a option \<Rightarrow> bool" where
  "returns m \<longleftrightarrow> m \<noteq> None"

lemma returns_Some [simp]: "returns (Some v)"
  by (simp add: returns_def)

lemma returnsE: "returns m \<Longrightarrow> (\<And>v. m = Some v \<Longrightarrow> P) \<Longrightarrow> P"
  by (auto simp: returns_def)

lemma returns_bind [intro]:
  "returns m \<Longrightarrow> (\<And>v. m = Some v \<Longrightarrow> returns (k v)) \<Longrightarrow> returns (Option.bind m k)"
  by (cases m) (auto simp: returns_def)

lemma first_grant_returns:
  "(\<And>x w. x \<in> set xs \<Longrightarrow> returns (f x w)) \<Longrightarrow> returns (first_grant f xs w)"
proof (induction xs arbitrary: w)
  case (Cons x xs)
  then have "returns (f x w)" "\<And>w. returns (first_grant f xs w)" by simp_all
  then show ?case by (auto intro!: returns_bind split: option.splits)
qed simp

lemma intersect_grants_returns:
  "(\<And>x w. x \<in> set xs \<Longrightarrow> returns (f x w)) \<Longrightarrow> returns (intersect_grants f xs p w)"
proof (induction xs arbitrary: p)
  case (Cons x xs)
  then have "returns (f x fresh)" "\<And>p. returns (intersect_grants f xs p w)" by simp_all
  then show ?case by (auto intro!: returns_bind split: option.splits)
qed simp

lemma collect_all_returns:
  "(\<And>x w. x \<in> set xs \<Longrightarrow> returns (f x w)) \<Longrightarrow> returns (collect_all f xs c)"
proof (induction xs arbitrary: c)
  case (Cons x xs)
  then have "returns (f x c)" "\<And>c. returns (collect_all f xs c)" by simp_all
  then show ?case by (auto intro!: returns_bind split: option.splits)
qed simp

lemma collect_meet_returns:
  "(\<And>x w. x \<in> set xs \<Longrightarrow> returns (f x w)) \<Longrightarrow> returns (collect_meet f xs a c)"
proof (induction xs arbitrary: a c)
  case (Cons x xs)
  then have "\<And>c. returns (f x c)" "\<And>a c. returns (collect_meet f xs a c)" by simp_all
  then show ?case by (auto intro!: returns_bind split: option.splits)
qed simp

lemma relabel_eq: "relabel code hops (g, w) =
    Some (map_option (\<lambda>g. \<lparr>grant_code = code, grant_path = hops @ grant_path g\<rparr>) g, w)"
  by (simp add: relabel_def split: option.splits)

lemma returns_relabel [intro]: "returns m \<Longrightarrow> returns (Option.bind m (relabel code hops))"
  by (intro returns_bind) (auto simp: relabel_eq)

lemma derive_this_returns:
  assumes "\<And>o' r w. returns (f o' r (depth + 1) w)"
  shows "returns (derive_this f snap target object relation depth w)"
  unfolding derive_this_def Let_def using assms
  by (auto intro!: first_grant_returns returns_relabel split: subject_ref.splits option.splits)

lemma derive_rewrite_returns:
  assumes "\<And>o' r w. returns (f o' r (depth + 1) w)"
    and "\<And>r w. r \<in> set (computed_userset_targets u) \<Longrightarrow> returns (f object r depth w)"
  shows "returns (derive_rewrite f snap target object relation depth u w)"
  using assms(2)
proof (induction u arbitrary: w)
  case This
  show ?case
    unfolding derive_rewrite.simps using assms(1) by (rule derive_this_returns)
next
  case (TupleToUserset ts cu)
  show ?case
    unfolding derive_rewrite.simps using assms(1)
    by (auto intro!: first_grant_returns returns_relabel split: subject_ref.splits)
next
  case (Union children)
  show ?case
    unfolding derive_rewrite.simps
    by (intro first_grant_returns Union.IH Union.prems) auto
next
  case (Intersection children)
  show ?case
    unfolding derive_rewrite.simps
    by (intro intersect_grants_returns Intersection.IH Intersection.prems) auto
next
  case (Exclusion base sub)
  then have "returns (derive_rewrite f snap target object relation depth base fresh)"
    "returns (derive_rewrite f snap target object relation depth sub fresh)"
    by simp_all
  then show ?case by (auto intro!: returns_bind split: option.splits)
qed auto

lemma collect_rewrite_returns:
  assumes "\<And>o' r w. returns (f o' r (depth + 1) w)"
    and "\<And>r w. r \<in> set (computed_userset_targets u) \<Longrightarrow> returns (f object r depth w)"
  shows "returns (collect_rewrite f snap object relation depth u c)"
  using assms(2)
proof (induction u arbitrary: c)
  case This
  show ?case
    unfolding collect_rewrite.simps using assms(1)
    by (intro collect_all_returns) (auto split: subject_ref.splits)
next
  case (TupleToUserset ts cu)
  show ?case
    unfolding collect_rewrite.simps using assms(1)
    by (intro collect_all_returns) (auto split: subject_ref.splits)
next
  case (Union children)
  show ?case
    unfolding collect_rewrite.simps
    by (intro collect_all_returns Union.IH Union.prems) auto
next
  case (Intersection children)
  show ?case
    unfolding collect_rewrite.simps
    by (intro collect_meet_returns Intersection.IH Intersection.prems) auto
next
  case (Exclusion base sub)
  then have "\<And>c. returns (collect_rewrite f snap object relation depth base c)"
    "\<And>c. returns (collect_rewrite f snap object relation depth sub c)"
    by simp_all
  then show ?case by (auto intro!: returns_bind)
qed simp

text \<open>The measure of a call: the hops left, then the rank of the relation.\<close>

definition call_measure :: "namespace_registry \<Rightarrow> (entity_ref \<times> string \<times> nat) \<Rightarrow> nat \<times> nat" where
  "call_measure reg = (\<lambda>(object, relation, depth).
     (Suc max_userset_depth - depth, node_rank reg (ref_type object) relation))"

lemma call_induct [consumes 1, case_names call deep]:
  fixes P :: "entity_ref \<Rightarrow> string \<Rightarrow> nat \<Rightarrow> bool"
  assumes "valid_registry reg"
    and "\<And>object relation depth. depth \<le> max_userset_depth \<Longrightarrow>
       (\<And>o' r. P o' r (depth + 1)) \<Longrightarrow>
       (\<And>r. r \<in> set (computed_userset_targets (rewrites_for reg (ref_type object) relation)) \<Longrightarrow>
         P object r depth) \<Longrightarrow> P object relation depth"
    and "\<And>object relation depth. depth > max_userset_depth \<Longrightarrow> P object relation depth"
  shows "P object relation depth"
proof -
  have wf: "wf (inv_image (less_than <*lex*> less_than) (call_measure reg))" by auto
  have "case x of (object, relation, depth) \<Rightarrow> P object relation depth" for x
  proof (induction x rule: wf_induct_rule[OF wf])
    case (1 x)
    note less = this
    obtain object relation depth where x: "x = (object, relation, depth)" by (cases x)
    have deeper: "P o' r (depth + 1)" if "depth \<le> max_userset_depth" for o' r
      using less[of "(o', r, depth + 1)"] that by (auto simp: call_measure_def x Suc_diff_le)
    have same: "P object r depth"
      if "r \<in> set (computed_userset_targets (rewrites_for reg (ref_type object) relation))" for r
      using less[of "(object, r, depth)"] node_rank_decreases[OF assms(1) that]
      by (simp add: call_measure_def x)
    show ?case
      unfolding x prod.case
      by (cases "depth \<le> max_userset_depth")
        (use assms(2)[OF _ deeper same] assms(3) in \<open>simp_all add: not_le\<close>)
  qed
  from this[of "(object, relation, depth)"] show ?thesis by simp
qed

lemma derive_returns:
  assumes "valid_registry (snap_namespaces snap)"
  shows "returns (derive snap target object relation depth w)"
  using assms
proof (induction object relation depth arbitrary: w rule: call_induct)
  case (call object relation depth)
  have "returns (derive_rewrite (derive snap target) snap target object relation depth
      (rewrites_for (snap_namespaces snap) (ref_type object) relation) v)" for v
    using call by (intro derive_rewrite_returns)
  then show ?case
    by (subst derive.simps) (simp add: Let_def)
qed (simp add: derive.simps)

lemma collect_members_returns:
  assumes "valid_registry (snap_namespaces snap)"
  shows "returns (collect_members snap object relation depth c)"
  using assms
proof (induction object relation depth arbitrary: c rule: call_induct)
  case (call object relation depth)
  have "returns (collect_rewrite (collect_members snap) snap object relation depth
      (rewrites_for (snap_namespaces snap) (ref_type object) relation) v)" for v
    using call by (intro collect_rewrite_returns)
  then show ?case
    by (subst collect_members.simps) (simp add: Let_def)
qed (simp add: collect_members.simps)

lemma derive_any_returns:
  assumes "valid_registry (snap_namespaces snap)"
  shows "returns (derive_any snap subject resource rs t)"
  by (induction rs arbitrary: t) (auto intro!: derive_returns assms split: option.splits)

lemma evaluate_returns:
  "valid_registry (snap_namespaces snap) \<Longrightarrow> returns (evaluate q snap)"
  unfolding evaluate_def Let_def
  by (auto intro!: returns_bind derive_any_returns split: option.splits)

lemma flatten_set_returns:
  "valid_registry (snap_namespaces snap) \<Longrightarrow> returns (flatten_set object relation snap)"
  unfolding flatten_set_def by (auto intro!: returns_bind collect_members_returns)

lemma expand_returns:
  "valid_registry (snap_namespaces snap) \<Longrightarrow> returns (expand org object relation snap)"
  using flatten_set_returns by (auto simp: expand_def flatten_def returns_def)

section \<open>The two walks agree\<close>

definition member_refs :: "flat_member list \<Rightarrow> entity_ref set" where
  "member_refs ms = member_ref ` set ms"

lemma member_refs_simps [simp]:
  "member_refs [] = {}" "member_refs (m # ms) = insert (member_ref m) (member_refs ms)"
  "member_refs (ms @ ns) = member_refs ms \<union> member_refs ns"
  by (auto simp: member_refs_def)

lemma member_refs_subtract:
  "member_refs (filter (\<lambda>m. \<not> list_ex (\<lambda>other. ref_equals (member_ref other) (member_ref m)) ss) bs) =
   member_refs bs - member_refs ss"
proof (induction bs)
  case (Cons b bs)
  have "list_ex (\<lambda>other. ref_equals (member_ref other) (member_ref b)) ss \<longleftrightarrow> member_ref b \<in> member_refs ss"
    unfolding list_ex_iff member_refs_def ref_equals_iff image_iff by metis
  with Cons show ?case by auto
qed simp

lemma truncate_same [simp]: "w = w\<lparr>truncated := True\<rparr> \<longleftrightarrow> truncated w"
  by (cases w) simp

lemma member_refs_meet: "member_refs (meet_members ms ns) = member_refs ms \<inter> member_refs ns"
proof (induction ms)
  case Nil
  then show ?case by (simp add: meet_members_def)
next
  case (Cons m ms)
  show ?case
  proof (cases "find (\<lambda>other. member_ref other = member_ref m) ns")
    case None
    then have "member_ref m \<notin> member_refs ns" by (force simp: find_None_iff member_refs_def)
    with None Cons show ?thesis by (auto simp: meet_members_def)
  next
    case (Some n)
    then have "n \<in> set ns \<and> member_ref n = member_ref m" by (auto simp: find_Some_iff)
    then have "member_ref m \<in> member_refs ns" by (metis image_eqI member_refs_def)
    with Some Cons show ?thesis by (auto simp: meet_members_def)
  qed
qed

text \<open>
  How a step of the search relates to the same step of the listing when both started from the
  same visited nodes: a grant names a member; without a grant both visited the same nodes, and
  the target is no member unless the depth bound cut the search.
\<close>

definition agrees :: "entity_ref \<Rightarrow> walk \<Rightarrow> grant option \<times> walk \<Rightarrow> flat_member list \<times> collect_state \<Rightarrow> bool" where
  "agrees target w = (\<lambda>(g, w') (ms, c').
     (truncated w \<longrightarrow> truncated w') \<and>
     (case g of
        Some _ \<Rightarrow> target \<in> member_refs ms
      | None \<Rightarrow> visited w' = collected c' \<and> (truncated w' \<or> target \<notin> member_refs ms)))"

lemma agrees_None [simp]:
  "agrees target w (None, w) (ms, c) \<longleftrightarrow> visited w = collected c \<and> (truncated w \<or> target \<notin> member_refs ms)"
  by (simp add: agrees_def)

lemma first_grant_agrees:
  assumes "\<And>x w c p q. x \<in> set xs \<Longrightarrow> visited w = collected c \<Longrightarrow> f x w = Some p \<Longrightarrow>
      h x c = Some q \<Longrightarrow> agrees target w p q"
    and "visited w = collected c" "first_grant f xs w = Some p" "collect_all h xs c = Some q"
  shows "agrees target w p q"
  using assms
proof (induction xs arbitrary: w c q)
  case Nil
  then show ?case by (auto simp: agrees_def)
next
  case (Cons x xs)
  from Cons.prems(3) obtain g w' where f: "f x w = Some (g, w')" by (auto simp: bind_eq_Some_conv)
  from Cons.prems(4) obtain ms c' ns c'' where
    h: "h x c = Some (ms, c')" "collect_all h xs c' = Some (ns, c'')" "q = (ms @ ns, c'')"
    by (auto simp: bind_eq_Some_conv)
  have hd: "agrees target w (g, w') (ms, c')"
    using Cons.prems(1)[OF _ Cons.prems(2) f h(1)] by simp
  show ?case
  proof (cases g)
    case (Some gr)
    with f hd h Cons.prems(3) show ?thesis by (auto simp: agrees_def)
  next
    case None
    with f hd Cons.prems(3) have "visited w' = collected c'" "first_grant f xs w' = Some p"
      by (auto simp: agrees_def)
    with h have "agrees target w' p (ns, c'')"
      by (intro Cons.IH[OF Cons.prems(1)]) auto
    with hd None h show ?thesis by (auto simp: agrees_def split: option.splits)
  qed
qed

lemma collect_meet_within:
  "collect_meet h xs (Some k) c = Some q \<Longrightarrow>
   member_refs (fst q) \<subseteq> member_refs k \<and> collected (snd q) = collected c"
proof (induction xs arbitrary: k c)
  case (Cons x xs)
  then show ?case by (fastforce simp: bind_eq_Some_conv member_refs_meet)
qed auto

lemma intersect_grants_agrees:
  assumes "\<And>x w c p q. x \<in> set xs \<Longrightarrow> visited w = collected c \<Longrightarrow> f x w = Some p \<Longrightarrow>
      h x c = Some q \<Longrightarrow> agrees target w p q"
    and "visited w = collected c" "intersect_grants f xs path w = Some p"
    and "collect_meet h xs acc c = Some q"
    and "\<And>ms. acc = Some ms \<Longrightarrow> target \<in> member_refs ms" "acc = None \<Longrightarrow> xs \<noteq> []"
  shows "agrees target w p q"
  using assms
proof (induction xs arbitrary: path acc c)
  case Nil
  then show ?case by (auto simp: agrees_def split: option.splits)
next
  case (Cons x xs)
  from Cons.prems(3) obtain g v where f: "f x fresh = Some (g, v)" by (auto simp: bind_eq_Some_conv)
  let ?acc = "\<lambda>ms. Some (case acc of None \<Rightarrow> ms | Some members \<Rightarrow> meet_members members ms)"
  from Cons.prems(4) obtain ms c' where h: "h x (c\<lparr>collected := {}\<rparr>) = Some (ms, c')"
    "collect_meet h xs (?acc ms) (c\<lparr>excluded := excluded c'\<rparr>) = Some q"
    by (auto simp: bind_eq_Some_conv)
  have hd: "agrees target fresh (g, v) (ms, c')"
    using Cons.prems(1)[OF _ _ f h(1)] by (simp add: fresh_def)
  have kept: "member_refs (fst q) \<subseteq> member_refs (the (?acc ms)) \<and> collected (snd q) = collected c"
    using collect_meet_within[OF h(2)] by simp
  show ?case
  proof (cases "truncated v \<or> g = None")
    case True
    with f hd kept Cons.prems(2,3) show ?thesis
      by (cases q) (auto simp: agrees_def member_refs_meet split: option.splits if_splits)
  next
    case False
    then obtain gr where gr: "g = Some gr" "\<not> truncated v" by auto
    with f Cons.prems(3) have rest: "intersect_grants f xs (path @ grant_path gr) w = Some p" by simp
    from hd gr Cons.prems(5) have "target \<in> member_refs (the (?acc ms))"
      by (auto simp: agrees_def member_refs_meet split: option.splits)
    with Cons.prems(2) show ?thesis
      by (intro Cons.IH[OF Cons.prems(1) _ rest h(2)]) auto
  qed
qed

lemma agrees_relabel:
  "agrees target w (g, w') q \<Longrightarrow>
   agrees target w (map_option (\<lambda>g. \<lparr>grant_code = code, grant_path = hops @ grant_path g\<rparr>) g, w') q"
  by (cases g) (auto simp: agrees_def)

lemma bind_relabel_Some:
  "Option.bind m (relabel code hops) = Some p \<Longrightarrow>
   \<exists>g w'. m = Some (g, w') \<and>
     p = (map_option (\<lambda>g. \<lparr>grant_code = code, grant_path = hops @ grant_path g\<rparr>) g, w')"
  by (cases m) (auto simp: relabel_eq)

lemma agrees_bind_relabel:
  "Option.bind m (relabel code hops) = Some p \<Longrightarrow> (\<And>g. m = Some g \<Longrightarrow> agrees target w g q) \<Longrightarrow>
   agrees target w p q"
  by (auto dest!: bind_relabel_Some intro: agrees_relabel)

lemma collect_all_member:
  "collect_all h xs c = Some (ms, c') \<Longrightarrow> x \<in> set xs \<Longrightarrow>
   (\<And>c. \<exists>ns d. h x c = Some (ns, d) \<and> target \<in> member_refs ns) \<Longrightarrow> target \<in> member_refs ms"
proof (induction xs arbitrary: c ms)
  case (Cons y ys)
  from Cons.prems(1) obtain ns d ns' d' where y: "h y c = Some (ns, d)"
    "collect_all h ys d = Some (ns', d')" "ms = ns @ ns'" "d' = c'"
    by (auto simp: bind_eq_Some_conv)
  show ?case
  proof (cases "x = y")
    case True
    with y Cons.prems(3)[of c] show ?thesis by auto
  next
    case False
    with y Cons.prems(2,3) have "target \<in> member_refs ns'"
      by (intro Cons.IH[of d ns']) auto
    with y show ?thesis by simp
  qed
qed simp

lemma derive_this_direct:
  "Subject target \<in> set (subjects_of (snap_tuples snap) object relation) \<Longrightarrow>
   derive_this f snap target object relation depth w =
     Some (Some \<lparr>grant_code = ''grant.direct'', grant_path = [tuple_key object relation (Subject target)]\<rparr>, w)"
proof -
  assume "Subject target \<in> set (subjects_of (snap_tuples snap) object relation)"
  then have "list_ex (\<lambda>s. case s of Subject r \<Rightarrow> ref_equals r target | UsersetSubject _ _ \<Rightarrow> False)
      (subjects_of (snap_tuples snap) object relation)"
    by (force simp: list_ex_iff)
  then show ?thesis unfolding derive_this_def Let_def by (simp only: if_True)
qed

lemma derive_this_search:
  "Subject target \<notin> set (subjects_of (snap_tuples snap) object relation) \<Longrightarrow>
   derive_this f snap target object relation depth w =
     first_grant (\<lambda>s w. case s of
               Subject _ \<Rightarrow> Some (None, w)
             | UsersetSubject ref rel \<Rightarrow>
                 (case indexed_depth snap ref rel target of
                    Some d \<Rightarrow>
                      if depth + 1 + d \<le> max_userset_depth
                      then Some (Some \<lparr>grant_code = ''grant.indexed_userset'',
                                       grant_path = [tuple_key object relation s]\<rparr>, w)
                      else Option.bind (f ref rel (depth + 1) w)
                             (relabel ''grant.userset'' [tuple_key object relation s])
                  | None \<Rightarrow> Option.bind (f ref rel (depth + 1) w)
                             (relabel ''grant.userset'' [tuple_key object relation s])))
             (subjects_of (snap_tuples snap) object relation) w"
proof -
  assume "Subject target \<notin> set (subjects_of (snap_tuples snap) object relation)"
  then have "\<not> list_ex (\<lambda>s. case s of Subject r \<Rightarrow> ref_equals r target | UsersetSubject _ _ \<Rightarrow> False)
      (subjects_of (snap_tuples snap) object relation)"
    by (auto simp: list_ex_iff split: subject_ref.splits)
  then show ?thesis unfolding derive_this_def Let_def by (simp only: if_False)
qed

definition walks_agree :: "entity_ref \<Rightarrow> (walk \<Rightarrow> run) \<Rightarrow> (collect_state \<Rightarrow> collect_run) \<Rightarrow> bool" where
  "walks_agree target F H \<longleftrightarrow>
     (\<forall>w c p q. visited w = collected c \<longrightarrow> F w = Some p \<longrightarrow> H c = Some q \<longrightarrow> agrees target w p q)"

lemma walks_agreeI:
  "(\<And>w c p q. visited w = collected c \<Longrightarrow> F w = Some p \<Longrightarrow> H c = Some q \<Longrightarrow> agrees target w p q) \<Longrightarrow>
   walks_agree target F H"
  by (simp add: walks_agree_def)

lemma walks_agreeD:
  "walks_agree target F H \<Longrightarrow> visited w = collected c \<Longrightarrow> F w = Some p \<Longrightarrow> H c = Some q \<Longrightarrow>
   agrees target w p q"
  unfolding walks_agree_def by blast

lemma walks_agree_first_grant:
  "(\<And>x. x \<in> set xs \<Longrightarrow> walks_agree target (f x) (h x)) \<Longrightarrow>
   walks_agree target (first_grant f xs) (collect_all h xs)"
  by (intro walks_agreeI) (blast intro: first_grant_agrees dest: walks_agreeD)

lemma walks_agree_intersect_grants:
  "(\<And>x. x \<in> set xs \<Longrightarrow> walks_agree target (f x) (h x)) \<Longrightarrow> xs \<noteq> [] \<Longrightarrow>
   walks_agree target (intersect_grants f xs path) (collect_meet h xs None)"
  by (intro walks_agreeI) (rule intersect_grants_agrees[of xs], auto dest: walks_agreeD)

lemma walks_agree_bind_relabel:
  "walks_agree target F H \<Longrightarrow> walks_agree target (\<lambda>w. Option.bind (F w) (relabel code hops)) H"
  by (intro walks_agreeI) (auto intro: agrees_bind_relabel dest: walks_agreeD)

lemma walks_agree_skip: "walks_agree target (\<lambda>w. Some (None, w)) (\<lambda>c. Some ([], c))"
  by (intro walks_agreeI) auto

lemma walks_agree_other:
  "r \<noteq> target \<Longrightarrow> walks_agree target (\<lambda>w. Some (None, w)) (\<lambda>c. Some ([\<lparr>member_ref = r, member_depth = d\<rparr>], c))"
  by (intro walks_agreeI) auto

lemma derive_this_agrees:
  assumes rec: "\<And>o' r. walks_agree target (f o' r (Suc depth)) (h o' r (Suc depth))"
    and "snap_memberships snap = None"
  shows "walks_agree target (derive_this f snap target object relation depth)
    (collect_rewrite h snap object relation depth This)"
proof (cases "Subject target \<in> set (subjects_of (snap_tuples snap) object relation)")
  case True
  show ?thesis
  proof (rule walks_agreeI)
    fix w :: walk and c p q
    assume d: "derive_this f snap target object relation depth w = Some p"
      and c: "collect_rewrite h snap object relation depth This c = Some q"
    obtain ms c' where q: "q = (ms, c')" by (cases q)
    from d have "fst p \<noteq> None \<and> snd p = w"
      unfolding derive_this_direct[OF True] by auto
    moreover from c q True have "target \<in> member_refs ms"
      by (auto elim!: collect_all_member)
    ultimately show "agrees target w p q" using q by (auto simp: agrees_def split: option.splits)
  qed
next
  case False
  show ?thesis
    unfolding derive_this_search[OF False] collect_rewrite.simps indexed_depth_def assms(2) option.case
  proof (intro walks_agree_first_grant)
    fix s
    assume "s \<in> set (subjects_of (snap_tuples snap) object relation)"
    with False show "walks_agree target
        (\<lambda>w. case s of Subject _ \<Rightarrow> Some (None, w)
          | UsersetSubject ref rel \<Rightarrow> Option.bind (f ref rel (depth + 1) w)
              (relabel ''grant.userset'' [tuple_key object relation s]))
        (\<lambda>c. case s of Subject ref \<Rightarrow> Some ([\<lparr>member_ref = ref, member_depth = depth\<rparr>], c)
          | UsersetSubject ref rel \<Rightarrow> h ref rel (depth + 1) c)"
      using rec by (cases s; simp)
        (auto intro!: walks_agree_bind_relabel walks_agree_other)
  qed
qed

lemma derive_rewrite_agrees:
  assumes deeper: "\<And>o' r. walks_agree target (f o' r (Suc depth)) (h o' r (Suc depth))"
    and same: "\<And>r. r \<in> set (computed_userset_targets u) \<Longrightarrow>
      walks_agree target (f object r depth) (h object r depth)"
    and live: "snap_memberships snap = None"
    and "validate_userset rs n u = None"
  shows "walks_agree target (derive_rewrite f snap target object relation depth u)
    (collect_rewrite h snap object relation depth u)"
  using assms(2,4)
proof (induction u arbitrary: n)
  case This
  show ?case
    unfolding derive_rewrite.simps by (rule derive_this_agrees) (auto simp: deeper live)
next
  case (ComputedUserset r)
  then show ?case
    unfolding derive_rewrite.simps collect_rewrite.simps by (intro walks_agree_bind_relabel) simp
next
  case (TupleToUserset ts cu)
  show ?case
    unfolding derive_rewrite.simps collect_rewrite.simps
  proof (intro walks_agree_first_grant)
    fix s
    show "walks_agree target
        (\<lambda>w. case s of Subject ref \<Rightarrow> Option.bind (f ref cu (depth + 1) w)
              (relabel ''grant.tuple_to_userset'' [tuple_key object ts s])
          | UsersetSubject _ _ \<Rightarrow> Some (None, w))
        (\<lambda>c. case s of Subject ref \<Rightarrow> h ref cu (depth + 1) c | UsersetSubject _ _ \<Rightarrow> Some ([], c))"
      using deeper by (cases s; simp) (auto intro!: walks_agree_bind_relabel walks_agree_skip)
  qed
next
  case (Union children)
  show ?case
    unfolding derive_rewrite.simps collect_rewrite.simps
    by (intro walks_agree_first_grant Union.IH[where n = "Suc n"] Union.prems(1))
      (use Union.prems(2) in \<open>auto split: if_splits\<close>)
next
  case (Intersection children)
  show ?case
    unfolding derive_rewrite.simps collect_rewrite.simps
    by (intro walks_agree_intersect_grants Intersection.IH[where n = "Suc n"] Intersection.prems(1))
      (use Intersection.prems(2) in \<open>auto split: if_splits\<close>)
next
  case (Exclusion base sub)
  have base: "walks_agree target (derive_rewrite f snap target object relation depth base)
      (collect_rewrite h snap object relation depth base)"
    using Exclusion.prems by (intro Exclusion.IH(1)[where n = "Suc n"]) (auto split: if_splits option.splits)
  have sub: "walks_agree target (derive_rewrite f snap target object relation depth sub)
      (collect_rewrite h snap object relation depth sub)"
    using Exclusion.prems by (intro Exclusion.IH(2)[where n = "Suc n"]) (auto split: if_splits option.splits)
  show ?case
  proof (rule walks_agreeI)
    fix w c p q
    assume v: "visited w = collected c"
      and d: "derive_rewrite f snap target object relation depth (Exclusion base sub) w = Some p"
      and "collect_rewrite h snap object relation depth (Exclusion base sub) c = Some q"
    then obtain b bw bs bc ss sc where
      b: "derive_rewrite f snap target object relation depth base fresh = Some (b, bw)"
      and bs: "collect_rewrite h snap object relation depth base \<lparr>collected = {}, excluded = True\<rparr> = Some (bs, bc)"
      and ss: "collect_rewrite h snap object relation depth sub \<lparr>collected = {}, excluded = excluded bc\<rparr> = Some (ss, sc)"
      and q: "q = (filter (\<lambda>m. \<not> list_ex (\<lambda>other. ref_equals (member_ref other) (member_ref m)) ss) bs,
               c\<lparr>excluded := excluded sc\<rparr>)"
      by (auto simp: bind_eq_Some_conv)
    have refs: "member_refs (fst q) = member_refs bs - member_refs ss"
      unfolding q fst_conv by (rule member_refs_subtract)
    have base: "agrees target fresh (b, bw) (bs, bc)"
      using walks_agreeD[OF base _ b bs] by (simp add: fresh_def)
    have sub: "agrees target fresh (s, sw) (ss, sc)"
      if "derive_rewrite f snap target object relation depth sub fresh = Some (s, sw)" for s sw
      using walks_agreeD[OF sub _ that ss] by (simp add: fresh_def)
    from v d b base sub refs q show "agrees target w p q"
      by (auto simp: bind_eq_Some_conv agrees_def split: option.splits if_splits)
  qed
qed

lemma valid_registry_rewrite:
  assumes "valid_registry reg"
  obtains rs where "validate_userset rs 0 (rewrites_for reg type relation) = None"
proof (cases "map_of reg type")
  case None
  then show ?thesis using that[of "[]"] by (simp add: rewrites_for_def direct_userset_def max_rewrite_depth_def)
next
  case (Some d)
  with assms have "valid_config (def_config d)"
    by (force simp: valid_registry_def registry_all_def list_all_iff dest: map_of_SomeD)
  then have "validate_userset (config_relations (def_config d)) 0 (config_rewrites_for (def_config d) relation) = None"
    by (force simp: valid_config_def config_rewrites_for_def list_all_iff direct_userset_def
        max_rewrite_depth_def split: option.splits dest: map_of_SomeD)
  with Some show ?thesis using that by (simp add: rewrites_for_def)
qed

lemma derive_agrees:
  assumes "valid_registry (snap_namespaces snap)" "snap_memberships snap = None"
  shows "walks_agree target (derive snap target object relation depth)
    (collect_members snap object relation depth)"
  using assms(1)
proof (induction object relation depth rule: call_induct)
  case (call object relation depth)
  obtain rs where "validate_userset rs 0 (rewrites_for (snap_namespaces snap) (ref_type object) relation) = None"
    using valid_registry_rewrite[OF assms(1)] .
  with call have "walks_agree target
      (derive_rewrite (derive snap target) snap target object relation depth
        (rewrites_for (snap_namespaces snap) (ref_type object) relation))
      (collect_rewrite (collect_members snap) snap object relation depth
        (rewrites_for (snap_namespaces snap) (ref_type object) relation))"
    by (intro derive_rewrite_agrees[OF _ _ assms(2)]) auto
  note rewrite = this
  show ?case
  proof (rule walks_agreeI)
    fix w c p q
    let ?k = "node_key object relation"
    assume v: "visited w = collected c" and d: "derive snap target object relation depth w = Some p"
      and c: "collect_members snap object relation depth c = Some q"
    show "agrees target w p q"
    proof (cases "?k \<in> visited w")
      case True
      with v d c call(1) show ?thesis
        by (auto simp: derive.simps[of _ _ object relation] collect_members.simps[of _ object relation])
    next
      case False
      with v d c call(1) have "agrees target (w\<lparr>visited := insert ?k (visited w)\<rparr>) p q"
        by (intro walks_agreeD[OF rewrite, of _ "c\<lparr>collected := insert ?k (collected c)\<rparr>"])
          (simp_all add: derive.simps[of _ _ object relation] collect_members.simps[of _ object relation] Let_def)
      then show ?thesis by (simp add: agrees_def)
    qed
  qed
next
  case (deep object relation depth)
  then show ?case
    by (auto simp: walks_agree_def derive.simps[of _ _ object relation] agrees_def
        collect_members.simps[of _ object relation])
qed

lemma derive_any_agrees:
  assumes "valid_registry (snap_namespaces snap)" "snap_memberships snap = None"
    and "derive_any snap subject resource rs t = Some (g, t')"
  shows "case g of
      Some (r, _) \<Rightarrow> r \<in> set rs \<and> (\<exists>ms c. collect_members snap resource r 0 \<lparr>collected = {}, excluded = False\<rparr> = Some (ms, c) \<and>
        subject \<in> member_refs ms)
    | None \<Rightarrow> (t \<longrightarrow> t') \<and> (t' \<or> (\<forall>r ms c. r \<in> set rs \<longrightarrow>
        collect_members snap resource r 0 \<lparr>collected = {}, excluded = False\<rparr> = Some (ms, c) \<longrightarrow>
        subject \<notin> member_refs ms))"
  using assms(3)
proof (induction rs arbitrary: t)
  case Nil
  then show ?case by simp
next
  case (Cons r rs)
  let ?w = "\<lparr>visited = {}, truncated = t\<rparr>" and ?c = "\<lparr>collected = {}, excluded = False\<rparr>"
  obtain h w where d: "derive snap subject resource r 0 ?w = Some (h, w)"
    using derive_returns[OF assms(1)] by (metis returnsE surj_pair)
  obtain ms c where c: "collect_members snap resource r 0 ?c = Some (ms, c)"
    using collect_members_returns[OF assms(1)] by (metis returnsE surj_pair)
  have ag: "agrees subject ?w (h, w) (ms, c)"
    using walks_agreeD[OF derive_agrees[OF assms(1,2)] _ d c] by simp
  show ?case
  proof (cases h)
    case None
    with Cons.prems d have "derive_any snap subject resource rs (truncated w) = Some (g, t')" by simp
    from Cons.IH[OF this] ag None c show ?thesis
      by (auto simp: agrees_def split: option.splits)
  next
    case (Some gr)
    with Cons.prems d ag c show ?thesis by (auto simp: agrees_def)
  qed
qed

text \<open>\<open>expand\<close> keeps, for every printed reference, the first member that prints so.\<close>

lemma keep_shallowest_cases:
  assumes "(k, v) \<in> set (keep_shallowest by_ref m)"
  shows "(k, v) \<in> set by_ref \<or> k = format_entity_ref (member_ref m) \<and>
    (v = m \<or> (\<exists>seen. (k, seen) \<in> set by_ref \<and> member_ref v = member_ref seen))"
  using assms
  by (auto simp: Let_def split: option.splits if_splits dest!: set_update_cases dest: map_of_SomeD)

lemma keep_shallowest_key_set:
  "fst ` set (keep_shallowest by_ref m) = insert (format_entity_ref (member_ref m)) (fst ` set by_ref)"
proof (cases "map_of by_ref (format_entity_ref (member_ref m))")
  case None
  then show ?thesis by (simp add: Let_def update_keys)
next
  case (Some seen)
  then have "format_entity_ref (member_ref m) \<in> fst ` set by_ref"
    by (metis map_of_SomeD fst_conv image_eqI)
  with Some show ?thesis by (auto simp: Let_def update_keys)
qed

lemma keep_shallowest_refs:
  "member_ref ` snd ` set (foldl keep_shallowest by_ref ms) \<subseteq>
     member_ref ` snd ` set by_ref \<union> member_refs ms"
proof (induction ms arbitrary: by_ref)
  case (Cons m ms)
  have step: "member_ref ` snd ` set (keep_shallowest by_ref m) \<subseteq>
      insert (member_ref m) (member_ref ` snd ` set by_ref)"
  proof (clarsimp simp del: keep_shallowest.simps)
    fix k v
    assume "(k, v) \<in> set (keep_shallowest by_ref m)" "member_ref v \<notin> member_ref ` snd ` set by_ref"
    then show "member_ref v = member_ref m"
      by (force dest!: keep_shallowest_cases)
  qed
  have "member_ref ` snd ` set (foldl keep_shallowest by_ref (m # ms)) \<subseteq>
      member_ref ` snd ` set (keep_shallowest by_ref m) \<union> member_refs ms"
    unfolding foldl.simps by (rule Cons.IH)
  also have "\<dots> \<subseteq> insert (member_ref m) (member_ref ` snd ` set by_ref) \<union> member_refs ms"
    by (rule Un_mono[OF step subset_refl])
  finally show ?case
    by (simp del: keep_shallowest.simps foldl.simps)
qed simp

lemma keep_shallowest_keys:
  assumes "\<forall>(k, v) \<in> set by_ref. k = format_entity_ref (member_ref v)"
  shows "(\<forall>(k, v) \<in> set (foldl keep_shallowest by_ref ms). k = format_entity_ref (member_ref v)) \<and>
    fst ` set (foldl keep_shallowest by_ref ms) = fst ` set by_ref \<union> format_entity_ref ` member_refs ms"
  using assms
proof (induction ms arbitrary: by_ref)
  case (Cons m ms)
  have "\<forall>(k, v) \<in> set (keep_shallowest by_ref m). k = format_entity_ref (member_ref v)"
  proof (clarify)
    fix k v
    assume "(k, v) \<in> set (keep_shallowest by_ref m)"
    from keep_shallowest_cases[OF this] Cons.prems show "k = format_entity_ref (member_ref v)" by auto
  qed
  from Cons.IH[OF this] show ?case
    by (simp only: foldl.simps keep_shallowest_key_set member_refs_simps image_insert
        Un_insert_left Un_insert_right) blast?
qed simp

lemma flatten_set_refs:
  assumes "flatten_set object relation snap = Some fs"
    and "collect_members snap object relation 0 \<lparr>collected = {}, excluded = False\<rparr> = Some (ms, c)"
  shows "member_refs (flat_members fs) \<subseteq> member_refs ms"
    "format_entity_ref ` member_refs ms \<subseteq> format_entity_ref ` member_refs (flat_members fs)"
proof -
  from assms have fs: "flat_members fs = map snd (foldl keep_shallowest [] ms)"
    by (auto simp: flatten_set_def)
  then show "member_refs (flat_members fs) \<subseteq> member_refs ms"
    using keep_shallowest_refs[of "[]" ms] by (simp add: member_refs_def)
  from keep_shallowest_keys[of "[]" ms]
  have "\<And>k v. (k, v) \<in> set (foldl keep_shallowest [] ms) \<Longrightarrow> k = format_entity_ref (member_ref v)"
    and keys: "format_entity_ref ` member_refs ms = fst ` set (foldl keep_shallowest [] ms)"
    by (simp_all del: keep_shallowest.simps) blast
  then have "fst p = format_entity_ref (member_ref (snd p))" if "p \<in> set (foldl keep_shallowest [] ms)" for p
    using that by (cases p) simp
  then have "fst ` set (foldl keep_shallowest [] ms) =
      (\<lambda>p. format_entity_ref (member_ref (snd p))) ` set (foldl keep_shallowest [] ms)"
    by (rule image_cong[OF refl])
  with keys show "format_entity_ref ` member_refs ms \<subseteq> format_entity_ref ` member_refs (flat_members fs)"
    by (simp add: fs member_refs_def image_image)
qed

lemma expand_lists:
  assumes "valid_registry (snap_namespaces snap)" "expand (index_org (snap_tuples snap)) resource r snap = Some refs"
    and "collect_members snap resource r 0 \<lparr>collected = {}, excluded = False\<rparr> = Some (ms, c)"
  shows "set refs \<subseteq> member_refs ms" "format_entity_ref ` member_refs ms \<subseteq> format_entity_ref ` set refs"
proof -
  from assms(2) obtain fs where fs: "flatten_set resource r snap = Some fs" "refs = map member_ref (flat_members fs)"
    by (auto simp: expand_def flatten_def)
  then show "set refs \<subseteq> member_refs ms" "format_entity_ref ` member_refs ms \<subseteq> format_entity_ref ` set refs"
    using flatten_set_refs[OF fs(1) assms(3)] by (simp_all add: member_refs_def)
qed

lemma evaluate_permit_derive_any:
  assumes "evaluate q snap = Some d" "decision_effect d = Permit"
  shows "index_org (snap_tuples snap) = query_org q \<and>
    (\<forall>n \<in> set (registry_all (snap_namespaces snap)). def_org n = query_org q) \<and>
    (\<exists>r gr t. derive_any snap (query_subject q) (query_resource q) (required_relations q snap) False =
      Some (Some (r, gr), t) \<and> reason_code (hd (decision_reasons d)) = grant_code gr)"
  using assms by (fastforce simp: evaluate_def Let_def bind_eq_Some_conv deny_def permit_def list_ex_iff
      split: if_splits option.splits)

lemma evaluate_default_deny:
  assumes "evaluate q snap = Some d" "decision_effect d = Deny"
    "map reason_code (decision_reasons d) = [''default_deny'']"
  shows "index_org (snap_tuples snap) = query_org q \<and>
    derive_any snap (query_subject q) (query_resource q) (required_relations q snap) False = Some (None, False)"
  using assms by (auto simp: evaluate_def Let_def bind_eq_Some_conv permit_def deny_def list_ex_iff plain_reason_def
      walk_truncated_reason_def split: if_splits option.splits)

section \<open>A sample registry\<close>

definition sample_config :: namespace_config where
  "sample_config = \<lparr>config_relations = [''viewer'', ''editor'', ''banned'', ''member''],
     config_actions = [(''read'', [''viewer''])],
     config_rewrites = [(''viewer'', Exclusion (Union [This, ComputedUserset ''editor'']) (ComputedUserset ''banned''))]\<rparr>"

definition sample_org :: org_id where
  "sample_org = OrgId ''acme''"

definition sample_registry :: namespace_registry where
  "sample_registry = registry_of
     [\<lparr>def_org = sample_org, def_namespace = ''doc'', def_config = sample_config,
       def_revision = Revision 1, def_created = 0\<rparr>]"

definition sample_ref :: "string \<Rightarrow> string \<Rightarrow> entity_ref" where
  "sample_ref t i = \<lparr>ref_type = t, ref_id = i\<rparr>"

definition sample_tuple :: "entity_ref \<Rightarrow> string \<Rightarrow> subject_ref \<Rightarrow> relation_tuple" where
  "sample_tuple ob r s = \<lparr>tuple_org = sample_org, tuple_object = ob, tuple_relation = r,
     tuple_subject = s, tuple_revision = Revision 1, tuple_created = 0\<rparr>"

definition sample_tuples :: "relation_tuple list" where
  "sample_tuples =
     [sample_tuple (sample_ref ''doc'' ''a'') ''editor'' (UsersetSubject (sample_ref ''team'' ''x'') ''member''),
      sample_tuple (sample_ref ''team'' ''x'') ''member'' (Subject (sample_ref ''user'' ''ann'')),
      sample_tuple (sample_ref ''team'' ''x'') ''member'' (Subject (sample_ref ''user'' ''bob'')),
      sample_tuple (sample_ref ''doc'' ''a'') ''banned'' (Subject (sample_ref ''user'' ''bob''))]"

definition sample_snapshot :: snapshot where
  "sample_snapshot = \<lparr>snap_namespaces = sample_registry,
     snap_tuples = tuple_index_of sample_org sample_tuples, snap_memberships = None\<rparr>"

definition sample_query :: "string \<Rightarrow> authorization_query" where
  "sample_query user = \<lparr>query_org = sample_org, query_subject = sample_ref ''user'' user,
     query_action = \<lparr>action_namespace = ''doc'', action_verb = ''read''\<rparr>,
     query_resource = sample_ref ''doc'' ''a''\<rparr>"

lemma sample_registry_valid: "valid_registry (snap_namespaces sample_snapshot)"
  by code_simp

lemma sample_live: "snap_memberships sample_snapshot = None"
  by (simp add: sample_snapshot_def)

lemma sample_permits: "map_option decision_effect (evaluate (sample_query ''ann'') sample_snapshot) = Some Permit"
  by code_simp

lemma sample_denies: "map_option (\<lambda>d. (decision_effect d, map reason_code (decision_reasons d)))
    (evaluate (sample_query ''bob'') sample_snapshot) = Some (Deny, [''default_deny''])"
  by code_simp

section \<open>Properties\<close>

text \<open>C8: over a registry whose configurations NamespaceConfig.create accepts, a check returns a
  decision and an expansion returns a list, whatever the tuples (cycles between groups included)
  and whatever the membership index holds: the recursion of derive and collectMembers ends.\<close>
theorem walks_terminate:
  assumes "valid_registry (snap_namespaces snap)"
  shows "(\<exists>d. evaluate q snap = Some d) \<and> (\<exists>refs. expand org resource relation snap = Some refs)"
  using evaluate_returns[OF assms] expand_returns[OF assms] unfolding returns_def by blast

theorem walks_terminate_witness:
  "(\<exists>d. evaluate (sample_query ''ann'') sample_snapshot = Some d) \<and>
   (\<exists>refs. expand sample_org (sample_ref ''doc'' ''a'') ''viewer'' sample_snapshot = Some refs)"
  by (rule walks_terminate[OF sample_registry_valid])

text \<open>C9: without the membership index, check and expand agree: a permitted subject is listed by
  the expansion of a relation the action requires, and a subject denied by default (not cut by the
  depth bound) is listed by the expansion of none of them. Exclusions and intersections included.\<close>
theorem check_agrees_with_expand:
  assumes "valid_registry (snap_namespaces snap)" "snap_memberships snap = None"
    and "evaluate q snap = Some d"
  shows "(decision_effect d = Permit \<longrightarrow>
      (\<exists>r \<in> set (required_relations q snap). \<exists>refs. expand (query_org q) (query_resource q) r snap = Some refs \<and>
        format_entity_ref (query_subject q) \<in> format_entity_ref ` set refs)) \<and>
    (map reason_code (decision_reasons d) = [''default_deny''] \<and> decision_effect d = Deny \<longrightarrow>
      (\<forall>r \<in> set (required_relations q snap). \<forall>refs. expand (query_org q) (query_resource q) r snap = Some refs \<longrightarrow>
        query_subject q \<notin> set refs))"
proof (intro conjI impI)
  assume "decision_effect d = Permit"
  from evaluate_permit_derive_any[OF assms(3) this] obtain r gr t where
    org: "index_org (snap_tuples snap) = query_org q"
    and d: "derive_any snap (query_subject q) (query_resource q) (required_relations q snap) False = Some (Some (r, gr), t)"
    by blast
  from derive_any_agrees[OF assms(1,2) d] obtain ms c where r: "r \<in> set (required_relations q snap)"
    and ms: "collect_members snap (query_resource q) r 0 \<lparr>collected = {}, excluded = False\<rparr> = Some (ms, c)"
      "query_subject q \<in> member_refs ms"
    by auto
  obtain refs where refs: "expand (query_org q) (query_resource q) r snap = Some refs"
    using expand_returns[OF assms(1)] by (rule returnsE)
  from expand_lists(2)[OF assms(1) refs[folded org] ms(1)] ms(2) r refs
  show "\<exists>r \<in> set (required_relations q snap). \<exists>refs. expand (query_org q) (query_resource q) r snap = Some refs \<and>
        format_entity_ref (query_subject q) \<in> format_entity_ref ` set refs"
    by blast
next
  assume "map reason_code (decision_reasons d) = [''default_deny''] \<and> decision_effect d = Deny"
  with evaluate_default_deny[OF assms(3)] have
    org: "index_org (snap_tuples snap) = query_org q"
    and d: "derive_any snap (query_subject q) (query_resource q) (required_relations q snap) False = Some (None, False)"
    by auto
  show "\<forall>r \<in> set (required_relations q snap). \<forall>refs. expand (query_org q) (query_resource q) r snap = Some refs \<longrightarrow>
        query_subject q \<notin> set refs"
  proof (intro ballI allI impI)
    fix r refs
    assume r: "r \<in> set (required_relations q snap)" "expand (query_org q) (query_resource q) r snap = Some refs"
    obtain ms c where c: "collect_members snap (query_resource q) r 0 \<lparr>collected = {}, excluded = False\<rparr> = Some (ms, c)"
      using collect_members_returns[OF assms(1)] by (metis returnsE surj_pair)
    from derive_any_agrees[OF assms(1,2) d] r(1) c have "query_subject q \<notin> member_refs ms" by auto
    with expand_lists(1)[OF assms(1) r(2)[folded org] c] show "query_subject q \<notin> set refs" by blast
  qed
qed

theorem check_agrees_with_expand_witness:
  "format_entity_ref (sample_ref ''user'' ''ann'') \<in>
     format_entity_ref ` set (the (expand sample_org (sample_ref ''doc'' ''a'') ''viewer'' sample_snapshot)) \<and>
   sample_ref ''user'' ''bob'' \<notin> set (the (expand sample_org (sample_ref ''doc'' ''a'') ''viewer'' sample_snapshot))"
proof
  have req: "required_relations (sample_query u) sample_snapshot = [''viewer'']" for u
    unfolding required_relations_def sample_query_def authorization_query.simps by code_simp
  obtain refs where refs: "expand sample_org (sample_ref ''doc'' ''a'') ''viewer'' sample_snapshot = Some refs"
    using expand_returns[OF sample_registry_valid] by (rule returnsE)
  obtain d where d: "evaluate (sample_query ''ann'') sample_snapshot = Some d" "decision_effect d = Permit"
    using sample_permits by auto
  from check_agrees_with_expand[OF sample_registry_valid sample_live d(1)] d(2) req refs
  show "format_entity_ref (sample_ref ''user'' ''ann'') \<in>
     format_entity_ref ` set (the (expand sample_org (sample_ref ''doc'' ''a'') ''viewer'' sample_snapshot))"
    by (simp add: sample_query_def)
  obtain e where e: "evaluate (sample_query ''bob'') sample_snapshot = Some e"
      "map reason_code (decision_reasons e) = [''default_deny'']" "decision_effect e = Deny"
    using sample_denies by auto
  from check_agrees_with_expand[OF sample_registry_valid sample_live e(1)] e(2,3) req refs
  show "sample_ref ''user'' ''bob'' \<notin> set (the (expand sample_org (sample_ref ''doc'' ''a'') ''viewer'' sample_snapshot))"
    by (simp add: sample_query_def)
qed

end
