(* ===== verification/Conditions.thy ===== *)
theory Conditions
  imports Complex_Main Kernel "HOL-Library.Multiset"
begin

unbundle bit_operations_syntax

text \<open>
  The attribute conditions of policies: the syntax and the static check of
  \<open>authz/domain/policy/condition.ts\<close>, the three-valued evaluation of
  \<open>evaluate-condition.ts\<close> with its address parsers and the CIDR test. A JavaScript number is a
  rational (every finite double is one; comparing doubles is comparing their values), a \<open>bigint\<close>
  an \<open>int\<close>, a \<open>Date\<close> its number of milliseconds.

  Functions of the platform whose result on arbitrary text rounds, is implementation-defined or
  belongs to Node's \<open>Buffer\<close> are parameters, collected in the record \<open>platform\<close>:
  \<open>Number(text)\<close> and \<open>Date.parse(text)\<close> (\<open>None\<close> is a result that is not a finite number)
  and the base64url coding of text.
\<close>

section \<open>Numbers in text\<close>

record platform =
  js_number :: "string \<Rightarrow> rat option"
  js_date_parse :: "string \<Rightarrow> int option"
  js_to_base64url :: "string \<Rightarrow> string"
  js_from_base64url :: "string \<Rightarrow> string"

definition digit_char :: "nat \<Rightarrow> char" where
  "digit_char d = ''0123456789'' ! d"

definition digit_value :: "char \<Rightarrow> nat" where
  "digit_value c = (case index_of c ''0123456789'' of Some d \<Rightarrow> d | None \<Rightarrow> 0)"

fun digits :: "nat \<Rightarrow> string" where
  "digits n = (if n < 10 then [digit_char n] else digits (n div 10) @ [digit_char (n mod 10)])"

declare digits.simps [simp del]

definition dec_value :: "string \<Rightarrow> nat" where
  "dec_value s = foldl (\<lambda>n c. 10 * n + digit_value c) 0 s"

lemma digit_char_cases: "d < 10 \<Longrightarrow> is_digit (digit_char d) \<and> digit_value (digit_char d) = d"
proof -
  assume "d < 10"
  then have "d \<in> {0, 1, 2, 3, 4, 5, 6, 7, 8, 9}" by auto
  then show ?thesis by (auto simp: digit_char_def is_digit_def digit_value_def)
qed

lemma digits_are_digits: "list_all is_digit (digits n)"
  by (induction n rule: digits.induct) (subst digits.simps, auto simp: digit_char_cases)

lemma digits_nonempty [simp]: "digits n \<noteq> []"
  by (subst digits.simps) simp

lemma dec_value_digits: "dec_value (digits n) = n"
proof (induction n rule: digits.induct)
  case (1 n)
  show ?case
  proof (cases "n < 10")
    case True
    then show ?thesis by (subst digits.simps) (simp add: dec_value_def digit_char_cases)
  next
    case False
    then have "dec_value (digits n) = 10 * dec_value (digits (n div 10)) + n mod 10"
      by (subst digits.simps) (simp add: dec_value_def digit_char_cases)
    with 1 False show ?thesis by simp
  qed
qed

text \<open>What the development assumes of \<open>Number\<close>: it reads decimal digits as their value.\<close>

definition reads_numerals :: "platform \<Rightarrow> bool" where
  "reads_numerals p \<longleftrightarrow>
     (\<forall>s. s \<noteq> [] \<longrightarrow> list_all is_digit s \<longrightarrow> dec_value s < 2 ^ 53 \<longrightarrow> js_number p s = Some (of_nat (dec_value s)))"

definition plain_platform :: platform where
  "plain_platform =
     \<lparr>js_number = (\<lambda>s. if list_all is_digit s then Some (of_nat (dec_value s)) else None),
      js_date_parse = (\<lambda>s. None), js_to_base64url = rev, js_from_base64url = rev\<rparr>"

lemma plain_platform_reads: "reads_numerals plain_platform"
  by (simp add: reads_numerals_def plain_platform_def)

section \<open>The language\<close>

datatype attr_path = PrincipalAal | EnvIp | EnvNow

datatype literal = LBool bool | LNum rat | LStr string

datatype cterm = Attr attr_path | Lit literal

datatype cmp_op = Eq | Ne | Lt | Le | Gt | Ge

datatype set_element = SStr string | SNum rat

datatype condition =
    All "condition list"
  | Any "condition list"
  | Not condition
  | Cmp cmp_op cterm cterm
  | In cterm "set_element list"
  | IpInCidr cterm "string list"

datatype condition_error =
    ConditionTooDeep
  | TooManyConditionNodes
  | EmptyChildren
  | EmptySet
  | MixedSetTypes
  | TypeMismatch
  | EmptyCidrs
  | InvalidCidr
  | InvalidTimestamp

definition max_condition_depth :: nat where
  "max_condition_depth = 16"

definition max_condition_nodes :: nat where
  "max_condition_nodes = 64"

section \<open>The static check\<close>

datatype value_type = TNumber | TString | TBoolean | TTimestamp

fun attr_type :: "attr_path \<Rightarrow> value_type" where
  "attr_type PrincipalAal = TNumber"
| "attr_type EnvIp = TString"
| "attr_type EnvNow = TTimestamp"

fun term_type :: "cterm \<Rightarrow> value_type" where
  "term_type (Attr path) = attr_type path"
| "term_type (Lit (LNum _)) = TNumber"
| "term_type (Lit (LBool _)) = TBoolean"
| "term_type (Lit (LStr _)) = TString"

definition temporal_pair :: "value_type \<Rightarrow> value_type \<Rightarrow> bool" where
  "temporal_pair a b \<longleftrightarrow>
     a = TTimestamp \<and> (b = TTimestamp \<or> b = TString) \<or>
     b = TTimestamp \<and> (a = TTimestamp \<or> a = TString)"

definition comparable :: "value_type \<Rightarrow> value_type \<Rightarrow> bool" where
  "comparable a b \<longleftrightarrow> a = b \<or> temporal_pair a b"

definition is_hex :: "char \<Rightarrow> bool" where
  "is_hex c \<longleftrightarrow> c \<in> set ''0123456789abcdefABCDEF''"

definition short_numeral :: "string \<Rightarrow> bool" where
  "short_numeral s \<longleftrightarrow> 1 \<le> length s \<and> length s \<le> 3 \<and> list_all is_digit s"

definition is_valid_cidr :: "string \<Rightarrow> bool" where
  "is_valid_cidr cidr =
     (case index_of (CHR ''/'') cidr of
        None \<Rightarrow> False
      | Some slash \<Rightarrow>
          (let addr = take slash cidr; prefix_text = drop (Suc slash) cidr in
           if \<not> short_numeral prefix_text then False
           else let len = dec_value prefix_text in
             if CHR '':'' \<in> set addr
             then len \<le> 128 \<and> 2 \<le> length addr \<and> list_all (\<lambda>c. is_hex c \<or> c = CHR '':'') addr
             else let octets = split_on (CHR ''.'') addr in
               if length octets \<noteq> 4 then False
               else if \<not> list_all (\<lambda>octet. short_numeral octet \<and> dec_value octet \<le> 255) octets then False
               else len \<le> 32))"

definition is_ordered :: "cmp_op \<Rightarrow> bool" where
  "is_ordered op \<longleftrightarrow> op \<in> {Lt, Le, Gt, Ge}"

fun bad_timestamp :: "platform \<Rightarrow> bool \<Rightarrow> cterm \<Rightarrow> bool" where
  "bad_timestamp p temporal (Lit (LStr s)) = (temporal \<and> js_date_parse p s = None)"
| "bad_timestamp p temporal _ = False"

definition check_cmp :: "platform \<Rightarrow> cmp_op \<Rightarrow> cterm \<Rightarrow> cterm \<Rightarrow> condition_error option" where
  "check_cmp p op l r =
     (let left = term_type l; right = term_type r in
      if \<not> comparable left right then Some TypeMismatch
      else if is_ordered op \<and> \<not> (left = TNumber \<and> right = TNumber) \<and> \<not> temporal_pair left right
      then Some TypeMismatch
      else let temporal = left = TTimestamp \<or> right = TTimestamp in
        first_error (\<lambda>t. if bad_timestamp p temporal t then Some InvalidTimestamp else None) [l, r])"

fun element_type :: "set_element \<Rightarrow> value_type" where
  "element_type (SNum _) = TNumber"
| "element_type (SStr _) = TString"

definition check_in :: "cterm \<Rightarrow> set_element list \<Rightarrow> condition_error option" where
  "check_in needle elements =
     (case elements of
        [] \<Rightarrow> Some EmptySet
      | e # _ \<Rightarrow>
          if \<not> list_all (\<lambda>x. element_type x = element_type e) elements then Some MixedSetTypes
          else if \<not> comparable (term_type needle) (element_type e) then Some TypeMismatch
          else None)"

definition check_ip_in_cidr :: "cterm \<Rightarrow> string list \<Rightarrow> condition_error option" where
  "check_ip_in_cidr ip cidrs =
     (if term_type ip \<noteq> TString then Some TypeMismatch
      else if cidrs = [] then Some EmptyCidrs
      else first_error (\<lambda>c. if is_valid_cidr c then None else Some InvalidCidr) cidrs)"

text \<open>The walk threads its node counter; an error ends it.\<close>

fun walk_conditions :: "(condition \<Rightarrow> nat \<Rightarrow> condition_error option \<times> nat) \<Rightarrow>
    condition list \<Rightarrow> nat \<Rightarrow> condition_error option \<times> nat" where
  "walk_conditions f [] nodes = (None, nodes)"
| "walk_conditions f (c # cs) nodes =
     (case f c nodes of
        (Some e, nodes') \<Rightarrow> (Some e, nodes')
      | (None, nodes') \<Rightarrow> walk_conditions f cs nodes')"

lemma walk_conditions_cong [fundef_cong]:
  "cs = ds \<Longrightarrow> n = m \<Longrightarrow> (\<And>c k. c \<in> set ds \<Longrightarrow> f c k = g c k) \<Longrightarrow>
   walk_conditions f cs n = walk_conditions g ds m"
  by (induction cs arbitrary: ds n m) (auto split: prod.splits option.splits)

fun condition_children :: "condition \<Rightarrow> condition list" where
  "condition_children (All cs) = cs"
| "condition_children (Any cs) = cs"
| "condition_children (Not c) = [c]"
| "condition_children _ = []"

fun walk_condition :: "platform \<Rightarrow> nat \<Rightarrow> condition \<Rightarrow> nat \<Rightarrow> condition_error option \<times> nat" where
  "walk_condition p depth (All children) nodes =
     (if depth > max_condition_depth then (Some ConditionTooDeep, nodes)
      else if nodes + 1 > max_condition_nodes then (Some TooManyConditionNodes, nodes + 1)
      else if children = [] then (Some EmptyChildren, nodes + 1)
      else walk_conditions (walk_condition p (depth + 1)) children (nodes + 1))"
| "walk_condition p depth (Any children) nodes =
     (if depth > max_condition_depth then (Some ConditionTooDeep, nodes)
      else if nodes + 1 > max_condition_nodes then (Some TooManyConditionNodes, nodes + 1)
      else if children = [] then (Some EmptyChildren, nodes + 1)
      else walk_conditions (walk_condition p (depth + 1)) children (nodes + 1))"
| "walk_condition p depth (Not child) nodes =
     (if depth > max_condition_depth then (Some ConditionTooDeep, nodes)
      else if nodes + 1 > max_condition_nodes then (Some TooManyConditionNodes, nodes + 1)
      else walk_condition p (depth + 1) child (nodes + 1))"
| "walk_condition p depth (Cmp op l r) nodes =
     (if depth > max_condition_depth then (Some ConditionTooDeep, nodes)
      else if nodes + 1 > max_condition_nodes then (Some TooManyConditionNodes, nodes + 1)
      else (check_cmp p op l r, nodes + 1))"
| "walk_condition p depth (In needle elements) nodes =
     (if depth > max_condition_depth then (Some ConditionTooDeep, nodes)
      else if nodes + 1 > max_condition_nodes then (Some TooManyConditionNodes, nodes + 1)
      else (check_in needle elements, nodes + 1))"
| "walk_condition p depth (IpInCidr ip cidrs) nodes =
     (if depth > max_condition_depth then (Some ConditionTooDeep, nodes)
      else if nodes + 1 > max_condition_nodes then (Some TooManyConditionNodes, nodes + 1)
      else (check_ip_in_cidr ip cidrs, nodes + 1))"

definition parse_condition :: "platform \<Rightarrow> condition \<Rightarrow> (condition, condition_error) result" where
  "parse_condition p c =
     (case walk_condition p 0 c 0 of
        (Some e, _) \<Rightarrow> err e
      | (None, _) \<Rightarrow> ok c)"

section \<open>Evaluation\<close>

datatype verdict = VTrue | VFalse | Indeterminate

record evaluation_context =
  ctx_aal :: rat
  ctx_auth_time :: "date option"
  ctx_ip :: string
  ctx_now :: date

datatype resolved = RNum rat | RStr string | RBool bool | RDate date

fun resolve_term :: "evaluation_context \<Rightarrow> cterm \<Rightarrow> resolved" where
  "resolve_term ctx (Lit (LNum n)) = RNum n"
| "resolve_term ctx (Lit (LStr s)) = RStr s"
| "resolve_term ctx (Lit (LBool b)) = RBool b"
| "resolve_term ctx (Attr PrincipalAal) = RNum (ctx_aal ctx)"
| "resolve_term ctx (Attr EnvIp) = RStr (ctx_ip ctx)"
| "resolve_term ctx (Attr EnvNow) = RDate (ctx_now ctx)"

fun to_epoch :: "platform \<Rightarrow> resolved \<Rightarrow> int option" where
  "to_epoch p (RDate d) = Some d"
| "to_epoch p (RStr s) = js_date_parse p s"
| "to_epoch p _ = None"

definition verdict_of :: "bool \<Rightarrow> verdict" where
  "verdict_of b = (if b then VTrue else VFalse)"

fun ordered :: "cmp_op \<Rightarrow> 'a::linorder \<Rightarrow> 'a \<Rightarrow> verdict" where
  "ordered Eq l r = verdict_of (l = r)"
| "ordered Ne l r = verdict_of (l \<noteq> r)"
| "ordered Lt l r = verdict_of (l < r)"
| "ordered Le l r = verdict_of (l \<le> r)"
| "ordered Gt l r = verdict_of (l > r)"
| "ordered Ge l r = verdict_of (l \<ge> r)"

fun equality :: "cmp_op \<Rightarrow> 'a \<Rightarrow> 'a \<Rightarrow> verdict" where
  "equality Eq l r = verdict_of (l = r)"
| "equality Ne l r = verdict_of (l \<noteq> r)"
| "equality _ l r = Indeterminate"

definition compare_epochs :: "platform \<Rightarrow> cmp_op \<Rightarrow> resolved \<Rightarrow> resolved \<Rightarrow> verdict" where
  "compare_epochs p op l r =
     (case (to_epoch p l, to_epoch p r) of
        (Some a, Some b) \<Rightarrow> ordered op a b
      | _ \<Rightarrow> Indeterminate)"

fun compare_terms :: "platform \<Rightarrow> cmp_op \<Rightarrow> resolved \<Rightarrow> resolved \<Rightarrow> verdict" where
  "compare_terms p op (RDate d) r = compare_epochs p op (RDate d) r"
| "compare_terms p op l (RDate d) = compare_epochs p op l (RDate d)"
| "compare_terms p op (RNum a) (RNum b) = ordered op a b"
| "compare_terms p op (RStr a) (RStr b) = equality op a b"
| "compare_terms p op (RBool a) (RBool b) = equality op a b"
| "compare_terms p op _ _ = Indeterminate"

subsection \<open>Addresses\<close>

text \<open>\<open>(result << 8n) | BigInt(octet)\<close>\<close>

fun parse_octets :: "string list \<Rightarrow> int \<Rightarrow> int option" where
  "parse_octets [] acc = Some acc"
| "parse_octets (part # parts) acc =
     (if \<not> short_numeral part then None
      else if dec_value part > 255 then None
      else parse_octets parts (push_bit 8 acc OR int (dec_value part)))"

definition parse_ipv4 :: "string \<Rightarrow> int option" where
  "parse_ipv4 v =
     (let parts = split_on (CHR ''.'') v in
      if length parts \<noteq> 4 then None else parse_octets parts 0)"

text \<open>\<open>value.split('::')\<close>: cuts at every occurrence, read from the left.\<close>

fun split_colons :: "string \<Rightarrow> string list" where
  "split_colons [] = [[]]"
| "split_colons [c] = [[c]]"
| "split_colons (c # d # cs) =
     (if c = CHR '':'' \<and> d = CHR '':'' then [] # split_colons cs
      else (case split_colons (d # cs) of [] \<Rightarrow> [[c]] | y # ys \<Rightarrow> (c # y) # ys))"

definition hex_value :: "char \<Rightarrow> int" where
  "hex_value c =
     (case index_of c ''0123456789abcdef'' of
        Some d \<Rightarrow> int d
      | None \<Rightarrow> (case index_of c ''0123456789ABCDEF'' of Some d \<Rightarrow> int d | None \<Rightarrow> 0))"

definition parse_hex :: "string \<Rightarrow> int" where
  "parse_hex s = foldl (\<lambda>n c. 16 * n + hex_value c) 0 s"

definition hex_group :: "string \<Rightarrow> bool" where
  "hex_group g \<longleftrightarrow> 1 \<le> length g \<and> length g \<le> 4 \<and> list_all is_hex g"

definition parse_groups :: "string \<Rightarrow> int list option" where
  "parse_groups part =
     (if part = [] then Some []
      else let groups = split_on (CHR '':'') part in
        if list_all hex_group groups then Some (map parse_hex groups) else None)"

definition join_groups :: "int list \<Rightarrow> int" where
  "join_groups gs = foldl (\<lambda>acc g. push_bit 16 acc OR g) 0 gs"

definition parse_ipv6 :: "string \<Rightarrow> int option" where
  "parse_ipv6 v =
     (case split_colons v of
        [h, t] \<Rightarrow>
          (case (parse_groups h, parse_groups t) of
             (Some head, Some tail) \<Rightarrow>
               (let fill = 8 - int (length head) - int (length tail) in
                if fill < 1 then None
                else Some (join_groups (head @ replicate (nat fill) 0 @ tail)))
           | _ \<Rightarrow> None)
      | [_] \<Rightarrow>
          (case parse_groups v of
             Some groups \<Rightarrow> if length groups \<noteq> 8 then None else Some (join_groups groups)
           | None \<Rightarrow> None)
      | _ \<Rightarrow> None)"

record parsed_ip =
  ip_bits :: nat
  ip_value :: int

definition parse_ip :: "string \<Rightarrow> parsed_ip option" where
  "parse_ip v =
     (if CHR '':'' \<in> set v
      then map_option (\<lambda>n. \<lparr>ip_bits = 128, ip_value = n\<rparr>) (parse_ipv6 v)
      else map_option (\<lambda>n. \<lparr>ip_bits = 32, ip_value = n\<rparr>) (parse_ipv4 v))"

definition network_mask :: "nat \<Rightarrow> nat \<Rightarrow> int" where
  "network_mask width len = (push_bit width 1 - 1) XOR (push_bit (width - len) 1 - 1)"

definition contained_in :: "platform \<Rightarrow> parsed_ip \<Rightarrow> string \<Rightarrow> bool" where
  "contained_in p ip cidr =
     (case index_of (CHR ''/'') cidr of
        None \<Rightarrow> False
      | Some slash \<Rightarrow>
          (case (parse_ip (take slash cidr), js_number p (drop (Suc slash) cidr)) of
             (Some base, Some len) \<Rightarrow>
               if ip_bits base \<noteq> ip_bits ip then False
               else if len \<noteq> of_int \<lfloor>len\<rfloor> \<or> len < 0 \<or> len > of_nat (ip_bits ip) then False
               else let mask = network_mask (ip_bits ip) (nat \<lfloor>len\<rfloor>) in
                 (ip_value ip AND mask) = (ip_value base AND mask)
           | _ \<Rightarrow> False))"

fun eval_ip_in_cidr :: "platform \<Rightarrow> resolved \<Rightarrow> string list \<Rightarrow> verdict" where
  "eval_ip_in_cidr p (RStr v) cidrs =
     (case parse_ip v of
        None \<Rightarrow> Indeterminate
      | Some ip \<Rightarrow> verdict_of (list_ex (contained_in p ip) cidrs))"
| "eval_ip_in_cidr p _ cidrs = Indeterminate"

fun eval_in :: "resolved \<Rightarrow> set_element list \<Rightarrow> verdict" where
  "eval_in (RStr s) elements = verdict_of (list_ex (\<lambda>e. e = SStr s) elements)"
| "eval_in (RNum n) elements = verdict_of (list_ex (\<lambda>e. e = SNum n) elements)"
| "eval_in _ elements = Indeterminate"

text \<open>The loops of \<open>and\<close> and \<open>or\<close>, with their \<open>result\<close> variable.\<close>

fun all_loop :: "('a \<Rightarrow> verdict) \<Rightarrow> 'a list \<Rightarrow> verdict \<Rightarrow> verdict" where
  "all_loop f [] result = result"
| "all_loop f (c # cs) result =
     (case f c of
        VFalse \<Rightarrow> VFalse
      | Indeterminate \<Rightarrow> all_loop f cs Indeterminate
      | VTrue \<Rightarrow> all_loop f cs result)"

fun any_loop :: "('a \<Rightarrow> verdict) \<Rightarrow> 'a list \<Rightarrow> verdict \<Rightarrow> verdict" where
  "any_loop f [] result = result"
| "any_loop f (c # cs) result =
     (case f c of
        VTrue \<Rightarrow> VTrue
      | Indeterminate \<Rightarrow> any_loop f cs Indeterminate
      | VFalse \<Rightarrow> any_loop f cs result)"

lemma all_loop_cong [fundef_cong]:
  "cs = ds \<Longrightarrow> r = q \<Longrightarrow> (\<And>c. c \<in> set ds \<Longrightarrow> f c = g c) \<Longrightarrow> all_loop f cs r = all_loop g ds q"
  by (induction cs arbitrary: ds r q) (auto split: verdict.splits)

lemma any_loop_cong [fundef_cong]:
  "cs = ds \<Longrightarrow> r = q \<Longrightarrow> (\<And>c. c \<in> set ds \<Longrightarrow> f c = g c) \<Longrightarrow> any_loop f cs r = any_loop g ds q"
  by (induction cs arbitrary: ds r q) (auto split: verdict.splits)

fun negate :: "verdict \<Rightarrow> verdict" where
  "negate Indeterminate = Indeterminate"
| "negate VTrue = VFalse"
| "negate VFalse = VTrue"

fun eval_condition :: "platform \<Rightarrow> evaluation_context \<Rightarrow> condition \<Rightarrow> verdict" where
  "eval_condition p ctx (All children) = all_loop (\<lambda>c. eval_condition p ctx c) children VTrue"
| "eval_condition p ctx (Any children) = any_loop (\<lambda>c. eval_condition p ctx c) children VFalse"
| "eval_condition p ctx (Not child) = negate (eval_condition p ctx child)"
| "eval_condition p ctx (Cmp op l r) = compare_terms p op (resolve_term ctx l) (resolve_term ctx r)"
| "eval_condition p ctx (In needle elements) = eval_in (resolve_term ctx needle) elements"
| "eval_condition p ctx (IpInCidr ip cidrs) = eval_ip_in_cidr p (resolve_term ctx ip) cidrs"

section \<open>Lemmas\<close>

lemma verdict_of_simps [simp]:
  "verdict_of b = VTrue \<longleftrightarrow> b" "verdict_of b = VFalse \<longleftrightarrow> \<not> b" "verdict_of b \<noteq> Indeterminate"
  "Indeterminate \<noteq> verdict_of b"
  by (simp_all add: verdict_of_def)

text \<open>\<open>and\<close> is the minimum and \<open>or\<close> the maximum of the order false, indeterminate, true.\<close>

lemma all_loop_eq:
  "all_loop f cs r =
     (if VFalse \<in> f ` set cs then VFalse
      else if Indeterminate \<in> f ` set cs then Indeterminate else r)"
  by (induction cs arbitrary: r) (auto split: verdict.splits)

lemma any_loop_eq:
  "any_loop f cs r =
     (if VTrue \<in> f ` set cs then VTrue
      else if Indeterminate \<in> f ` set cs then Indeterminate else r)"
  by (induction cs arbitrary: r) (auto split: verdict.splits)

lemma eval_all:
  "eval_condition p ctx (All cs) =
     (if \<exists>c \<in> set cs. eval_condition p ctx c = VFalse then VFalse
      else if \<exists>c \<in> set cs. eval_condition p ctx c = Indeterminate then Indeterminate else VTrue)"
  by (auto simp: all_loop_eq image_iff) metis+

lemma eval_any:
  "eval_condition p ctx (Any cs) =
     (if \<exists>c \<in> set cs. eval_condition p ctx c = VTrue then VTrue
      else if \<exists>c \<in> set cs. eval_condition p ctx c = Indeterminate then Indeterminate else VFalse)"
  by (auto simp: any_loop_eq image_iff) metis+

lemma negate_eq [simp]:
  "negate v = VTrue \<longleftrightarrow> v = VFalse" "negate v = VFalse \<longleftrightarrow> v = VTrue"
  "negate v = Indeterminate \<longleftrightarrow> v = Indeterminate"
  "VTrue = negate v \<longleftrightarrow> v = VFalse" "VFalse = negate v \<longleftrightarrow> v = VTrue"
  "Indeterminate = negate v \<longleftrightarrow> v = Indeterminate"
  by (cases v; simp)+

text \<open>What the static check counts: every node once, no node deeper than the bound.\<close>

fun condition_size :: "condition \<Rightarrow> nat" where
  "condition_size (All cs) = Suc (sum_list (map condition_size cs))"
| "condition_size (Any cs) = Suc (sum_list (map condition_size cs))"
| "condition_size (Not c) = Suc (condition_size c)"
| "condition_size _ = 1"

fun condition_height :: "condition \<Rightarrow> nat" where
  "condition_height (All cs) = Suc (fold max (map condition_height cs) 0)"
| "condition_height (Any cs) = Suc (fold max (map condition_height cs) 0)"
| "condition_height (Not c) = Suc (condition_height c)"
| "condition_height _ = 0"

fun node_check :: "platform \<Rightarrow> condition \<Rightarrow> condition_error option" where
  "node_check p (Cmp op l r) = check_cmp p op l r"
| "node_check p (In needle elements) = check_in needle elements"
| "node_check p (IpInCidr ip cidrs) = check_ip_in_cidr ip cidrs"
| "node_check p (Not c) = None"
| "node_check p (All cs) = (if cs = [] then Some EmptyChildren else None)"
| "node_check p (Any cs) = (if cs = [] then Some EmptyChildren else None)"

fun well_typed :: "platform \<Rightarrow> condition \<Rightarrow> bool" where
  "well_typed p (All cs) \<longleftrightarrow> cs \<noteq> [] \<and> list_all (well_typed p) cs"
| "well_typed p (Any cs) \<longleftrightarrow> cs \<noteq> [] \<and> list_all (well_typed p) cs"
| "well_typed p (Not c) \<longleftrightarrow> well_typed p c"
| "well_typed p (Cmp op l r) \<longleftrightarrow> check_cmp p op l r = None"
| "well_typed p (In needle elements) \<longleftrightarrow> check_in needle elements = None"
| "well_typed p (IpInCidr ip cidrs) \<longleftrightarrow> check_ip_in_cidr ip cidrs = None"

definition fits :: "platform \<Rightarrow> nat \<Rightarrow> condition \<Rightarrow> bool" where
  "fits p depth c \<longleftrightarrow> well_typed p c \<and> depth + condition_height c \<le> max_condition_depth"

lemma fold_max_le: "fold max xs (k :: nat) \<le> n \<longleftrightarrow> k \<le> n \<and> (\<forall>x \<in> set xs. x \<le> n)"
  by (induction xs arbitrary: k) auto

lemma walk_conditions_None:
  assumes "\<And>c n m. c \<in> set cs \<Longrightarrow> n \<le> max_condition_nodes \<Longrightarrow> f c n = (None, m) \<longleftrightarrow>
      Q c \<and> m = n + condition_size c \<and> m \<le> max_condition_nodes"
    and "n \<le> max_condition_nodes"
  shows "walk_conditions f cs n = (None, m) \<longleftrightarrow>
    (\<forall>c \<in> set cs. Q c) \<and> m = n + sum_list (map condition_size cs) \<and> m \<le> max_condition_nodes"
  using assms
proof (induction cs arbitrary: n)
  case Nil
  then show ?case by auto
next
  case (Cons c cs)
  show ?case
  proof (cases "f c n")
    case (Pair e k)
    show ?thesis
    proof (cases e)
      case None
      with Pair Cons.prems(1)[of c n k] Cons.prems(2) have k: "Q c" "k = n + condition_size c" "k \<le> max_condition_nodes"
        by auto
      have "walk_conditions f cs k = (None, m) \<longleftrightarrow>
          (\<forall>c \<in> set cs. Q c) \<and> m = k + sum_list (map condition_size cs) \<and> m \<le> max_condition_nodes"
        by (rule Cons.IH[OF Cons.prems(1) k(3)]) simp
      with Pair None k show ?thesis by auto
    next
      case (Some e')
      with Pair Cons.prems(1)[of c n] Cons.prems(2) have "\<not> (Q c \<and> n + condition_size c \<le> max_condition_nodes)"
        by auto
      with Pair Some show ?thesis by auto
    qed
  qed
qed

lemma fits_children:
  "cs \<noteq> [] \<Longrightarrow> (\<forall>c \<in> set cs. fits p (Suc depth) c) \<longleftrightarrow>
   list_all (well_typed p) cs \<and> depth + Suc (fold max (map condition_height cs) 0) \<le> max_condition_depth"
proof -
  assume "cs \<noteq> []"
  have "Suc depth + fold max (map condition_height cs) 0 \<le> max_condition_depth \<longleftrightarrow>
      Suc depth \<le> max_condition_depth \<and>
      (\<forall>c \<in> set cs. Suc depth + condition_height c \<le> max_condition_depth)"
    using fold_max_le[of "map condition_height cs" 0 "max_condition_depth - Suc depth"] by auto
  also have "\<dots> \<longleftrightarrow> (\<forall>c \<in> set cs. Suc depth + condition_height c \<le> max_condition_depth)"
    using \<open>cs \<noteq> []\<close> by (cases cs) auto
  finally show ?thesis by (auto simp: fits_def list_all_iff)
qed

lemma walk_condition_None:
  "n \<le> max_condition_nodes \<Longrightarrow> walk_condition p depth c n = (None, m) \<longleftrightarrow>
     fits p depth c \<and> m = n + condition_size c \<and> m \<le> max_condition_nodes"
proof (induction c arbitrary: depth n m)
  case (All cs)
  show ?case
  proof (cases "depth \<le> max_condition_depth \<and> n < max_condition_nodes \<and> cs \<noteq> []")
    case True
    have "walk_conditions (walk_condition p (Suc depth)) cs (Suc n) = (None, m) \<longleftrightarrow>
        (\<forall>c \<in> set cs. fits p (Suc depth) c) \<and> m = Suc n + sum_list (map condition_size cs) \<and> m \<le> max_condition_nodes"
      using True by (intro walk_conditions_None All.IH) auto
    with True fits_children[of cs p depth] show ?thesis by (auto simp: fits_def)
  next
    case False
    then show ?thesis by (auto simp: fits_def)
  qed
next
  case (Any cs)
  show ?case
  proof (cases "depth \<le> max_condition_depth \<and> n < max_condition_nodes \<and> cs \<noteq> []")
    case True
    have "walk_conditions (walk_condition p (Suc depth)) cs (Suc n) = (None, m) \<longleftrightarrow>
        (\<forall>c \<in> set cs. fits p (Suc depth) c) \<and> m = Suc n + sum_list (map condition_size cs) \<and> m \<le> max_condition_nodes"
      using True by (intro walk_conditions_None Any.IH) auto
    with True fits_children[of cs p depth] show ?thesis by (auto simp: fits_def)
  next
    case False
    then show ?thesis by (auto simp: fits_def)
  qed
qed (auto simp: fits_def)

subsection \<open>Typed conditions are decided\<close>

fun inputs_resolve :: "evaluation_context \<Rightarrow> condition \<Rightarrow> bool" where
  "inputs_resolve ctx (All cs) \<longleftrightarrow> list_all (inputs_resolve ctx) cs"
| "inputs_resolve ctx (Any cs) \<longleftrightarrow> list_all (inputs_resolve ctx) cs"
| "inputs_resolve ctx (Not c) \<longleftrightarrow> inputs_resolve ctx c"
| "inputs_resolve ctx (Cmp op l r) \<longleftrightarrow>
     TTimestamp \<notin> {term_type l, term_type r} \<or> Attr EnvIp \<notin> {l, r}"
| "inputs_resolve ctx (In needle elements) \<longleftrightarrow> term_type needle \<noteq> TTimestamp"
| "inputs_resolve ctx (IpInCidr ip cidrs) \<longleftrightarrow>
     (case resolve_term ctx ip of RStr v \<Rightarrow> parse_ip v \<noteq> None | _ \<Rightarrow> False)"

lemma ordered_decided [simp]: "ordered op a b \<noteq> Indeterminate"
  by (cases op) simp_all

lemma equality_decided: "\<not> is_ordered op \<Longrightarrow> equality op a b \<noteq> Indeterminate"
  by (cases op) (simp_all add: is_ordered_def)

lemma cterm_cases:
  obtains n where "t = Lit (LNum n)" | v where "t = Lit (LStr v)" | b where "t = Lit (LBool b)"
  | "t = Attr PrincipalAal" | "t = Attr EnvIp" | "t = Attr EnvNow"
  by (metis attr_path.exhaust cterm.exhaust literal.exhaust)

lemma cmp_decided:
  assumes "check_cmp p op l r = None" "inputs_resolve ctx (Cmp op l r)"
  shows "compare_terms p op (resolve_term ctx l) (resolve_term ctx r) \<noteq> Indeterminate"
proof -
  have decided: "compare_terms p op (resolve_term ctx l) (resolve_term ctx r) \<noteq> Indeterminate"
    if "check_cmp p op l r = None" "TTimestamp \<notin> {term_type l, term_type r} \<or> Attr EnvIp \<notin> {l, r}"
    using that
    by (cases l rule: cterm_cases; cases r rule: cterm_cases)
      (auto simp: check_cmp_def Let_def comparable_def temporal_pair_def compare_epochs_def
        equality_decided split: if_splits option.splits)
  with assms show ?thesis by simp
qed

lemma element_type_simps [simp]:
  "element_type e \<noteq> TBoolean" "TBoolean \<noteq> element_type e"
  "element_type e \<noteq> TTimestamp" "TTimestamp \<noteq> element_type e"
  by (cases e; simp)+

lemma condition_decided:
  "well_typed p c \<Longrightarrow> inputs_resolve ctx c \<Longrightarrow> eval_condition p ctx c \<noteq> Indeterminate"
proof (induction c)
  case (Cmp op l r)
  then show ?case using cmp_decided by simp
next
  case (In needle elements)
  then show ?case
    by (cases needle rule: term_type.cases; cases elements)
      (auto simp: check_in_def comparable_def temporal_pair_def split: if_splits
        elim!: attr_type.elims element_type.elims)
next
  case (IpInCidr ip cidrs)
  then show ?case by (auto split: resolved.splits)
qed (auto simp: eval_all eval_any list_all_iff simp del: eval_condition.simps(1,2))

subsection \<open>Addresses and networks\<close>

lemma shift_or: "0 \<le> d \<Longrightarrow> d < 2 ^ n \<Longrightarrow> push_bit n acc OR d = acc * 2 ^ n + (d :: int)"
proof -
  assume "0 \<le> d" "d < 2 ^ n"
  then have d: "take_bit n d = d" by (simp add: take_bit_int_eq_self)
  have "\<not> bit (push_bit n acc) m \<or> \<not> bit d m" for m
    by (subst d[symmetric]) (auto simp: bit_push_bit_iff bit_take_bit_iff)
  then have "push_bit n acc + d = push_bit n acc OR d" by (intro disjunctive_add) blast
  then show ?thesis by (simp add: push_bit_eq_mult)
qed

lemma parse_octets_bound:
  "parse_octets parts acc = Some v \<Longrightarrow> 0 \<le> acc \<Longrightarrow> acc < 2 ^ k \<Longrightarrow> 0 \<le> v \<and> v < 2 ^ (k + 8 * length parts)"
proof (induction parts arbitrary: acc k)
  case (Cons part parts)
  then have d: "dec_value part \<le> 255" "parse_octets parts (push_bit 8 acc OR int (dec_value part)) = Some v"
    by (auto split: if_splits)
  then have e: "push_bit 8 acc OR int (dec_value part) = acc * 2 ^ 8 + int (dec_value part)"
    by (intro shift_or) auto
  have "acc * 2 ^ 8 + int (dec_value part) < 2 ^ (k + 8)"
    using d(1) Cons.prems(3) by (simp add: power_add)
  with Cons.IH[of "push_bit 8 acc OR int (dec_value part)" "k + 8"] d e Cons.prems(2)
  show ?case by (simp add: ac_simps)
qed simp

lemma hex_value_bound: "0 \<le> hex_value c \<and> hex_value c < 16"
proof -
  have "index_of c ''0123456789abcdef'' = Some d \<Longrightarrow> d < 16"
    "index_of c ''0123456789ABCDEF'' = Some d \<Longrightarrow> d < 16" for d
    by (drule index_of_Some_less, simp)+
  then show ?thesis by (auto simp: hex_value_def split: option.splits simp del: index_of.simps)
qed

lemma parse_hex_bound: "0 \<le> parse_hex g \<and> parse_hex g < 16 ^ length g"
proof (induction g rule: rev_induct)
  case (snoc c g)
  with hex_value_bound[of c] show ?case by (auto simp: parse_hex_def)
qed (simp add: parse_hex_def)

lemma join_groups_bound:
  "list_all (\<lambda>g. 0 \<le> g \<and> g < 2 ^ 16) gs \<Longrightarrow> 0 \<le> join_groups gs \<and> join_groups gs < 2 ^ (16 * length gs)"
proof (induction gs rule: rev_induct)
  case (snoc g gs)
  then have "join_groups (gs @ [g]) = join_groups gs * 2 ^ 16 + g"
    using shift_or[of g 16 "join_groups gs"] by (simp add: join_groups_def)
  with snoc show ?case by (simp add: power_add)
qed (simp add: join_groups_def)

lemma parse_groups_bound: "parse_groups part = Some gs \<Longrightarrow> list_all (\<lambda>g. 0 \<le> g \<and> g < 2 ^ 16) gs"
proof -
  have "hex_group g \<Longrightarrow> 0 \<le> parse_hex g \<and> parse_hex g < 2 ^ 16" for g
  proof -
    assume "hex_group g"
    then have "(16 :: int) ^ length g \<le> 16 ^ 4" by (intro power_increasing) (auto simp: hex_group_def)
    with parse_hex_bound[of g] show ?thesis by simp
  qed
  moreover assume "parse_groups part = Some gs"
  ultimately show ?thesis by (auto simp: parse_groups_def Let_def list_all_iff split: if_splits)
qed

lemma parse_ipv6_groups:
  assumes "parse_ipv6 v = Some n"
  shows "\<exists>gs. n = join_groups gs \<and> length gs = 8 \<and> list_all (\<lambda>g. 0 \<le> g \<and> g < 2 ^ 16) gs"
proof -
  consider (two) h t head tail where "parse_groups h = Some head" "parse_groups t = Some tail"
      "length head + length tail < 8" "n = join_groups (head @ replicate (nat (8 - int (length head) - int (length tail))) 0 @ tail)"
    | (one) groups where "parse_groups v = Some groups" "length groups = 8" "n = join_groups groups"
    using assms by (auto simp: parse_ipv6_def Let_def split: list.splits option.splits if_splits)
  then show ?thesis
  proof cases
    case two
    then show ?thesis
      using parse_groups_bound[OF two(1)] parse_groups_bound[OF two(2)]
      by (intro exI[of _ "head @ replicate (nat (8 - int (length head) - int (length tail))) 0 @ tail"])
        (auto simp: list_all_iff nat_diff_distrib')
  next
    case one
    with parse_groups_bound show ?thesis by blast
  qed
qed

lemma parse_ip_bound:
  assumes "parse_ip v = Some ip"
  shows "0 \<le> ip_value ip \<and> ip_value ip < 2 ^ ip_bits ip \<and> ip_bits ip \<in> {32, 128}"
proof (cases "CHR '':'' \<in> set v")
  case False
  with assms have "parse_ipv4 v = Some (ip_value ip)" "ip_bits ip = 32" by (auto simp: parse_ip_def)
  then show ?thesis
    using parse_octets_bound[of "split_on (CHR ''.'') v" 0 "ip_value ip" 0]
    by (auto simp: parse_ipv4_def Let_def split: if_splits)
next
  case True
  with assms have v6: "parse_ipv6 v = Some (ip_value ip)" "ip_bits ip = 128" by (auto simp: parse_ip_def)
  then obtain gs where "ip_value ip = join_groups gs" "length gs = 8" "list_all (\<lambda>g. 0 \<le> g \<and> g < 2 ^ 16) gs"
    using parse_ipv6_groups by blast
  with v6 join_groups_bound[of gs] show ?thesis by simp
qed

lemma bit_network_mask: "len \<le> width \<Longrightarrow> bit (network_mask width len) n \<longleftrightarrow> width - len \<le> n \<and> n < width"
proof -
  have "push_bit k 1 - 1 = (mask k :: int)" for k by (simp add: mask_eq_exp_minus_1 push_bit_eq_mult)
  then show "len \<le> width \<Longrightarrow> ?thesis" by (auto simp: network_mask_def bit_xor_iff bit_mask_iff)
qed

lemma same_network:
  assumes "len \<le> width" "0 \<le> a" "a < 2 ^ width" "0 \<le> b" "b < 2 ^ width"
  shows "a AND network_mask width len = b AND network_mask width len \<longleftrightarrow>
    drop_bit (width - len) a = drop_bit (width - len) b"
proof -
  have high: "bit x n \<Longrightarrow> n < width" if "0 \<le> x" "x < 2 ^ width" for x :: int and n
    using that by (metis bit_take_bit_iff take_bit_int_eq_self)
  have "a AND network_mask width len = b AND network_mask width len \<longleftrightarrow>
      (\<forall>n. width - len \<le> n \<and> n < width \<longrightarrow> bit a n = bit b n)"
    by (auto simp: bit_eq_iff bit_and_iff bit_network_mask[OF assms(1)])
  also have "\<dots> \<longleftrightarrow> (\<forall>n. bit a (width - len + n) = bit b (width - len + n))"
    using high[of a] high[of b] assms(2-) by (metis le_add1 le_add_diff_inverse)
  also have "\<dots> \<longleftrightarrow> drop_bit (width - len) a = drop_bit (width - len) b"
    by (simp add: bit_eq_iff bit_drop_bit_eq)
  finally show ?thesis .
qed

section \<open>Properties\<close>

definition sample_condition :: condition where
  "sample_condition =
     All [Cmp Ge (Attr PrincipalAal) (Lit (LNum 2)),
          Not (IpInCidr (Attr EnvIp) [''10.0.0.0/8''])]"

definition sample_context :: evaluation_context where
  "sample_context = \<lparr>ctx_aal = 2, ctx_auth_time = None, ctx_ip = ''192.168.0.1'', ctx_now = 0\<rparr>"

text \<open>ParseCondition accepts exactly the conditions whose every node passes its own check, with
  at most 64 nodes and nesting at most 16 deep, and hands back the condition unchanged.\<close>
theorem parse_condition_exact:
  "parse_condition p c = ok c' \<longleftrightarrow>
     c' = c \<and> well_typed p c \<and> condition_size c \<le> max_condition_nodes \<and>
     condition_height c \<le> max_condition_depth"
proof -
  have "parse_condition p c = ok c' \<longleftrightarrow> c' = c \<and> (\<exists>m. walk_condition p 0 c 0 = (None, m))"
    by (cases "walk_condition p 0 c 0") (auto simp: parse_condition_def split: option.splits)
  then show ?thesis by (auto simp: walk_condition_None fits_def)
qed

text \<open>C10: an accepted condition never evaluates to indeterminate when the request gives it values it
  can use: no comparison of the client address with a time, no time in a set test, and an address
  that parses. So an accepted forbid fires only when its condition is true.\<close>
theorem accepted_conditions_are_decided:
  assumes "parse_condition p c = ok c'" "inputs_resolve ctx c"
  shows "eval_condition p ctx c \<in> {VTrue, VFalse}"
proof -
  have "parse_condition p c = ok c' \<Longrightarrow> well_typed p c"
    by (cases "walk_condition p 0 c 0")
      (auto simp: parse_condition_def walk_condition_None fits_def split: option.splits)
  with assms condition_decided[of p c ctx] show ?thesis by (cases "eval_condition p ctx c") auto
qed

theorem accepted_conditions_are_decided_witness:
  "eval_condition plain_platform sample_context sample_condition \<in> {VTrue, VFalse}"
proof (rule accepted_conditions_are_decided)
  show "parse_condition plain_platform sample_condition = ok sample_condition" by code_simp
  show "inputs_resolve sample_context sample_condition" by code_simp
qed

text \<open>Evaluation is Kleene's three-valued logic: the order and repetition of the children of
  and/or do not matter, although the loops stop at the first decisive child, and De Morgan holds.\<close>
theorem condition_logic:
  assumes "set cs = set ds"
  shows "eval_condition p ctx (All cs) = eval_condition p ctx (All ds) \<and>
    eval_condition p ctx (Any cs) = eval_condition p ctx (Any ds) \<and>
    eval_condition p ctx (Not (All cs)) = eval_condition p ctx (Any (map Not ds))"
  using assms by (auto simp: eval_all eval_any simp del: eval_condition.simps(1,2))

theorem condition_logic_witness:
  "eval_condition plain_platform sample_context (Not (All [sample_condition, Not sample_condition])) =
   eval_condition plain_platform sample_context (Any (map Not [Not sample_condition, sample_condition, sample_condition]))"
  by (rule condition_logic[THEN conjunct2, THEN conjunct2]) auto

lemma contained_in_prefix:
  assumes "reads_numerals p" "parse_ip a = Some ip" "parse_ip addr = Some base"
    and "CHR ''/'' \<notin> set addr" "n < 2 ^ 53"
  shows "contained_in p ip (addr @ ''/'' @ digits n) \<longleftrightarrow>
    ip_bits base = ip_bits ip \<and> n \<le> ip_bits ip \<and>
    drop_bit (ip_bits ip - n) (ip_value ip) = drop_bit (ip_bits ip - n) (ip_value base)"
proof -
  have "dec_value (digits n) < 2 ^ 53" using assms(5) by (simp add: dec_value_digits)
  then have num: "js_number p (digits n) = Some (of_nat n)"
    using assms(1) digits_are_digits[of n] by (simp add: reads_numerals_def dec_value_digits)
  have idx: "index_of (CHR ''/'') (addr @ CHR ''/'' # digits n) = Some (length addr)"
    using assms(4) by (rule index_of_append_sep)
  show ?thesis
    using same_network[of n "ip_bits ip" "ip_value ip" "ip_value base"] parse_ip_bound[OF assms(2)]
      parse_ip_bound[OF assms(3)]
    by (simp add: contained_in_def idx num assms(3) Let_def) (auto)
qed

definition in_network :: "parsed_ip \<Rightarrow> parsed_ip \<Rightarrow> nat \<Rightarrow> bool" where
  "in_network ip base n \<longleftrightarrow> ip_bits base = ip_bits ip \<and> n \<le> ip_bits ip \<and>
     (\<forall>i. ip_bits ip - n \<le> i \<longrightarrow> bit (ip_value ip) i = bit (ip_value base) i)"

lemma in_network_drop_bit:
  "in_network ip base n \<longleftrightarrow> ip_bits base = ip_bits ip \<and> n \<le> ip_bits ip \<and>
     drop_bit (ip_bits ip - n) (ip_value ip) = drop_bit (ip_bits ip - n) (ip_value base)"
  unfolding in_network_def bit_eq_iff bit_drop_bit_eq by (auto simp: le_iff_add)

text \<open>C11: A condition about networks holds for exactly the callers whose address lies in one of them. The address of the request is
  IPv4 or IPv6, and is in the network of a base address and a prefix length when both are of one family, the length is at most
  the number of bits of the family, and the two agree on the leading bits the length counts: what the code computes with masks
  and shifts on bigints. For an address that is neither, the condition is indeterminate.\<close>
theorem cidr_is_prefix_match:
  assumes "reads_numerals p"
    and "\<forall>(addr, base, n) \<in> set networks. parse_ip addr = Some base \<and> CHR ''/'' \<notin> set addr \<and> n < 2 ^ 53"
  shows "eval_condition p ctx (IpInCidr (Attr EnvIp) (map (\<lambda>(addr, base, n). addr @ ''/'' @ digits n) networks)) =
    (case parse_ip (ctx_ip ctx) of
       None \<Rightarrow> Indeterminate
     | Some ip \<Rightarrow> if \<exists>(addr, base, n) \<in> set networks. in_network ip base n then VTrue else VFalse)"
proof (cases "parse_ip (ctx_ip ctx)")
  case (Some ip)
  let ?cidr = "\<lambda>(addr, base, n). addr @ ''/'' @ digits n"
  have each: "contained_in p ip (?cidr x) \<longleftrightarrow> (case x of (addr, base, n) \<Rightarrow> in_network ip base n)" if "x \<in> set networks" for x
    using that assms(2) contained_in_prefix[OF assms(1) Some] by (cases x) (auto simp: in_network_drop_bit)
  have "list_ex (contained_in p ip) (map ?cidr networks) \<longleftrightarrow> (\<exists>x \<in> set networks. contained_in p ip (?cidr x))"
    by (simp add: list_ex_iff)
  also have "\<dots> \<longleftrightarrow> (\<exists>(addr, base, n) \<in> set networks. in_network ip base n)"
    by (intro bex_cong refl each)
  finally have "list_ex (contained_in p ip) (map ?cidr networks) \<longleftrightarrow> (\<exists>(addr, base, n) \<in> set networks. in_network ip base n)" .
  with Some show ?thesis by (simp add: verdict_of_def)
qed simp

theorem cidr_is_prefix_match_witness:
  "eval_condition plain_platform (sample_context\<lparr>ctx_ip := ''10.0.1.1''\<rparr>) (IpInCidr (Attr EnvIp) [''10.0.0.0/8'', ''::1/128'']) = VTrue \<and>
   eval_condition plain_platform (sample_context\<lparr>ctx_ip := ''11.0.1.1''\<rparr>) (IpInCidr (Attr EnvIp) [''10.0.0.0/8'', ''::1/128'']) = VFalse"
proof -
  let ?networks = "[(''10.0.0.0'', \<lparr>ip_bits = 32, ip_value = 167772160\<rparr>, 8 :: nat), (''::1'', \<lparr>ip_bits = 128, ip_value = 1\<rparr>, 128)]"
  have bases: "parse_ip ''10.0.0.0'' = Some \<lparr>ip_bits = 32, ip_value = 167772160\<rparr>" "parse_ip ''::1'' = Some \<lparr>ip_bits = 128, ip_value = 1\<rparr>"
    by code_simp+
  have ips: "parse_ip ''10.0.1.1'' = Some \<lparr>ip_bits = 32, ip_value = 167772417\<rparr>" "parse_ip ''11.0.1.1'' = Some \<lparr>ip_bits = 32, ip_value = 184549633\<rparr>"
    by code_simp+
  have texts: "map (\<lambda>(addr, base, n). addr @ ''/'' @ digits n) ?networks = [''10.0.0.0/8'', ''::1/128'']" by code_simp
  have all: "\<forall>(addr, base, n) \<in> set ?networks. parse_ip addr = Some base \<and> CHR ''/'' \<notin> set addr \<and> n < 2 ^ 53"
    by (simp add: bases)
  from cidr_is_prefix_match[OF plain_platform_reads all, unfolded texts, of "sample_context\<lparr>ctx_ip := ''10.0.1.1''\<rparr>"]
    cidr_is_prefix_match[OF plain_platform_reads all, unfolded texts, of "sample_context\<lparr>ctx_ip := ''11.0.1.1''\<rparr>"]
  show ?thesis by (simp add: ips in_network_drop_bit drop_bit_eq_div)
qed

text \<open>The static check accepts networks that the evaluator never matches: with such a CIDR
  every parsed address counts as outside, so the policy's condition is false instead of indeterminate.\<close>
theorem accepted_cidr_never_matches:
  "is_valid_cidr ''1:2/64'' \<and> \<not> contained_in p ip ''1:2/64''"
proof
  show "is_valid_cidr ''1:2/64''" by code_simp
  have "index_of (CHR ''/'') ''1:2/64'' = Some 3" "parse_ip (take 3 ''1:2/64'') = None" by code_simp+
  then show "\<not> contained_in p ip ''1:2/64''" by (simp add: contained_in_def)
qed

end
