(* ===== verification/Policies.thy ===== *)
theory Policies
  imports Conditions
begin

text \<open>
  Attribute policies over the relationship decision (\<open>policy.ts\<close>, \<open>decide.ts\<close>), the permission
  boundaries that cap it (\<open>boundary.ts\<close>), and the consistency tokens that name a revision
  (\<open>consistency-token.ts\<close>).
\<close>

section \<open>Policies\<close>

datatype policy_effect = PermitPolicy | ForbidPolicy

definition any_action :: string where
  "any_action = ''*''"

record policy =
  policy_id :: string
  policy_org :: org_id
  policy_effect :: policy_effect
  policy_resource_type :: string
  policy_action :: string
  policy_condition :: condition
  policy_revision :: revision

definition decide :: "platform \<Rightarrow> decision \<Rightarrow> policy list \<Rightarrow> evaluation_context \<Rightarrow> decision" where
  "decide p rebac policies ctx =
     (case find (\<lambda>q. policy_effect q = ForbidPolicy \<and>
         eval_condition p ctx (policy_condition q) \<noteq> VFalse) policies of
        Some q \<Rightarrow> deny [plain_reason ''forbid_matched''
          (''Denied by an explicit forbid policy ('' @ policy_id q @ '').'')]
      | None \<Rightarrow>
          if decision_effect rebac = Permit then rebac
          else (case find (\<lambda>q. policy_effect q = PermitPolicy \<and>
                   eval_condition p ctx (policy_condition q) = VTrue) policies of
                  Some q \<Rightarrow> permit [plain_reason ''grant.policy''
                    (''Permitted by policy '' @ policy_id q @ ''.'')]
                | None \<Rightarrow> rebac))"

definition forbids :: "platform \<Rightarrow> evaluation_context \<Rightarrow> policy \<Rightarrow> bool" where
  "forbids p ctx q \<longleftrightarrow> policy_effect q = ForbidPolicy \<and> eval_condition p ctx (policy_condition q) \<noteq> VFalse"

definition grants :: "platform \<Rightarrow> evaluation_context \<Rightarrow> policy \<Rightarrow> bool" where
  "grants p ctx q \<longleftrightarrow> policy_effect q = PermitPolicy \<and> eval_condition p ctx (policy_condition q) = VTrue"

lemma find_SomeD: "find P xs = Some x \<Longrightarrow> P x \<and> x \<in> set xs"
  by (induction xs) (auto split: if_splits)

lemma decide_effect:
  "decision_effect (decide p rebac ps ctx) =
     (if \<exists>q \<in> set ps. forbids p ctx q then Deny
      else if decision_effect rebac = Permit \<or> (\<exists>q \<in> set ps. grants p ctx q) then Permit else Deny)"
proof -
  have "decision_effect rebac \<noteq> Permit \<Longrightarrow> decision_effect rebac = Deny"
    by (cases "decision_effect rebac") auto
  then show ?thesis
    unfolding decide_def forbids_def[symmetric] grants_def[symmetric]
    by (auto simp: find_None_iff split: option.splits dest: find_SomeD)
qed

lemma decide_no_policies [simp]: "decide p rebac [] ctx = rebac"
  by (simp add: decide_def)

section \<open>Permission boundaries\<close>

record boundary_target =
  target_type :: string
  target_action :: string

record permission_boundary =
  boundary_subject :: entity_ref
  boundary_allow :: "boundary_target list"

record org_guardrail =
  guardrail_allow :: "boundary_target list"

record bounds =
  bound_boundaries :: "permission_boundary list"
  bound_guardrail :: "org_guardrail option"

definition unbounded :: bounds where
  "unbounded = \<lparr>bound_boundaries = [], bound_guardrail = None\<rparr>"

definition allows :: "boundary_target list \<Rightarrow> boundary_target \<Rightarrow> bool" where
  "allows allow target =
     list_ex (\<lambda>entry. target_type entry = target_type target \<and>
       (target_action entry = target_action target \<or> target_action entry = any_action)) allow"

definition outside_guardrail :: decision where
  "outside_guardrail = deny [plain_reason ''outside_org_guardrail''
     ''The permitted access lies outside the organization guardrail.'']"

definition outside_boundary :: decision where
  "outside_boundary = deny [plain_reason ''outside_permission_boundary''
     ''The permitted access lies outside the principal permission boundary.'']"

definition within_boundary :: "decision \<Rightarrow> boundary_target \<Rightarrow> entity_ref \<Rightarrow> bounds \<Rightarrow> decision" where
  "within_boundary d target subject b =
     (case find (\<lambda>c. ref_equals (boundary_subject c) subject) (bound_boundaries b) of
        Some c \<Rightarrow> if allows (boundary_allow c) target then d else outside_boundary
      | None \<Rightarrow> d)"

definition apply_bounds :: "decision \<Rightarrow> boundary_target \<Rightarrow> entity_ref \<Rightarrow> bounds \<Rightarrow> decision" where
  "apply_bounds d target subject b =
     (if decision_effect d \<noteq> Permit then d
      else (case bound_guardrail b of
              Some g \<Rightarrow> if allows (guardrail_allow g) target then within_boundary d target subject b
                        else outside_guardrail
            | None \<Rightarrow> within_boundary d target subject b))"

lemma apply_unbounded [simp]: "apply_bounds d target subject unbounded = d"
  by (simp add: apply_bounds_def unbounded_def within_boundary_def)

section \<open>Consistency tokens\<close>

definition token_prefix :: string where
  "token_prefix = ''v1''"

datatype consistency_token = ConsistencyToken (token_revision: revision)

definition max_safe_integer :: int where
  "max_safe_integer = 2 ^ 53 - 1"

definition is_safe_integer :: "rat \<Rightarrow> bool" where
  "is_safe_integer x \<longleftrightarrow> x = of_int \<lfloor>x\<rfloor> \<and> \<bar>x\<bar> \<le> of_int max_safe_integer"

definition invalid_token :: js_error where
  "invalid_token = Error ''invalid consistency token''"

definition token_decode :: "platform \<Rightarrow> string \<Rightarrow> consistency_token throws" where
  "token_decode p v =
     (let decoded = js_from_base64url p v in
      case index_of (CHR '':'') decoded of
        None \<Rightarrow> Inl invalid_token
      | Some i \<Rightarrow>
          if take i decoded \<noteq> token_prefix then Inl invalid_token
          else (case js_number p (drop (Suc i) decoded) of
                  None \<Rightarrow> Inl invalid_token
                | Some n \<Rightarrow>
                    if \<not> is_safe_integer n \<or> n < 0 then Inl invalid_token
                    else Inr (ConsistencyToken (Revision (nat \<lfloor>n\<rfloor>)))))"

definition token_encode :: "platform \<Rightarrow> consistency_token \<Rightarrow> string" where
  "token_encode p t = js_to_base64url p (token_prefix @ '':'' @ digits (rev_value (token_revision t)))"

text \<open>What the tokens rely on: base64url text decodes to what was encoded (of ASCII text).\<close>

definition ascii :: "string \<Rightarrow> bool" where
  "ascii s \<longleftrightarrow> list_all (\<lambda>c. of_char c < (128 :: nat)) s"

definition codes_base64url :: "platform \<Rightarrow> bool" where
  "codes_base64url p \<longleftrightarrow> (\<forall>s. ascii s \<longrightarrow> js_from_base64url p (js_to_base64url p s) = s)"

lemma plain_platform_codes: "codes_base64url plain_platform"
  by (simp add: codes_base64url_def plain_platform_def)

lemma digits_ascii: "ascii (digits n)"
proof -
  have "is_digit c \<Longrightarrow> of_char c < (128 :: nat)" for c
    by (auto simp: is_digit_def)
  with digits_are_digits[of n] show ?thesis by (simp add: ascii_def list_all_iff)
qed

lemma token_text_ascii: "ascii (token_prefix @ '':'' @ digits n)"
  using digits_ascii[of n] by (simp add: ascii_def token_prefix_def)

lemma token_decode_bound:
  "token_decode p v = Inr t \<Longrightarrow> int (rev_value (token_revision t)) \<le> max_safe_integer"
proof -
  assume "token_decode p v = Inr t"
  then obtain n where n: "is_safe_integer n" "0 \<le> n" "t = ConsistencyToken (Revision (nat \<lfloor>n\<rfloor>))"
    by (auto simp: token_decode_def Let_def split: option.splits if_splits)
  then have "\<lfloor>n\<rfloor> \<le> max_safe_integer"
    by (metis abs_of_nonneg is_safe_integer_def of_int_le_iff)
  with n show ?thesis by (simp add: max_safe_integer_def)
qed

section \<open>Properties\<close>

definition sample_policy :: "string \<Rightarrow> policy_effect \<Rightarrow> policy" where
  "sample_policy i e = \<lparr>policy_id = i, policy_org = OrgId ''acme'', policy_effect = e,
     policy_resource_type = ''doc'', policy_action = ''read'',
     policy_condition = Cmp Ge (Attr PrincipalAal) (Lit (LNum 2)), policy_revision = Revision 1\<rparr>"

text \<open>C12: forbid overrides permit, whatever the order: the combined effect is a deny when a forbid
  policy's condition is true or indeterminate, otherwise a permit when the relationships permit or
  a permit policy's condition is true (indeterminate is not enough), otherwise the deny. Only the
  set of policies matters.\<close>
theorem forbid_overrides:
  assumes "set ps = set qs"
  shows "decision_effect (decide p rebac ps ctx) =
      (if \<exists>q \<in> set qs. forbids p ctx q then Deny
       else if decision_effect rebac = Permit \<or> (\<exists>q \<in> set qs. grants p ctx q) then Permit else Deny)"
  using assms by (simp add: decide_effect)

theorem forbid_overrides_witness:
  "decision_effect (decide plain_platform (permit [])
     [sample_policy ''a'' PermitPolicy, sample_policy ''b'' ForbidPolicy] sample_context) = Deny"
  by (subst forbid_overrides[where qs = "[sample_policy ''b'' ForbidPolicy, sample_policy ''a'' PermitPolicy]"])
    (auto simp: forbids_def sample_policy_def sample_context_def)

text \<open>Bounds only restrict. They keep a denied decision as it is, turn a permit into a deny or
  keep it unchanged, and keep it exactly when the guardrail (if there is one) and the first boundary
  of the subject (if there is one) allow the resource type with this action or with any action.\<close>
theorem bounds_only_restrict:
  "(apply_bounds d target subject b = d \<or> decision_effect (apply_bounds d target subject b) = Deny) \<and>
   (decision_effect (apply_bounds d target subject b) = Permit \<longleftrightarrow>
      decision_effect d = Permit \<and>
      (case bound_guardrail b of None \<Rightarrow> True | Some g \<Rightarrow> allows (guardrail_allow g) target) \<and>
      (case find (\<lambda>c. boundary_subject c = subject) (bound_boundaries b) of
         None \<Rightarrow> True | Some c \<Rightarrow> allows (boundary_allow c) target))"
  by (auto simp: apply_bounds_def within_boundary_def outside_guardrail_def outside_boundary_def
      split: option.splits)

lemma token_decode_encode:
  assumes "reads_numerals p" "codes_base64url p" "int (rev_value (token_revision t)) \<le> max_safe_integer"
  shows "token_decode p (token_encode p t) = Inr t"
proof -
  let ?n = "rev_value (token_revision t)"
  have "?n < 2 ^ 53" using assms(3) by (simp add: max_safe_integer_def)
  then have "js_number p (digits ?n) = Some (of_nat ?n)"
    using assms(1) digits_are_digits[of ?n] by (simp add: reads_numerals_def dec_value_digits)
  moreover have "js_from_base64url p (token_encode p t) = token_prefix @ '':'' @ digits ?n"
    using assms(2) token_text_ascii[of ?n] by (simp add: codes_base64url_def token_encode_def)
  moreover have "index_of (CHR '':'') (token_prefix @ '':'' @ digits ?n) = Some 2"
    by (simp add: token_prefix_def)
  moreover have "is_safe_integer (of_nat ?n)"
    using assms(3) by (simp add: is_safe_integer_def max_safe_integer_def)
  ultimately show ?thesis by (cases t) (simp add: token_decode_def token_prefix_def)
qed

text \<open>A consistency token survives its trip: encode then decode gives back the revision, for
  every revision that is a safe integer, and whatever text decodes names a safe integer.\<close>
theorem token_round_trip:
  assumes "reads_numerals p" "codes_base64url p" "int (rev_value (token_revision t)) \<le> max_safe_integer"
  shows "token_decode p (token_encode p t) = Inr t"
  by (rule token_decode_encode[OF assms])

theorem token_round_trip_witness:
  "token_decode plain_platform (token_encode plain_platform (ConsistencyToken (Revision 42))) =
   Inr (ConsistencyToken (Revision 42))"
  by (rule token_round_trip[OF plain_platform_reads plain_platform_codes]) (simp add: max_safe_integer_def)

end
