(* ===== verification/Store.thy ===== *)
theory Store
  imports Policies Namespaces "HOL-Library.Product_Lexorder" "HOL-Library.List_Lexorder" "HOL-Library.Char_ord"
begin

text \<open>
  The tables of the authorization store (\<open>authz/infrastructure/persistence/schema.ts\<close>,
  \<open>db/schema.ts\<close>) and the repositories over them. A table is the list of its rows, in the order
  of insertion; a repository method is the query its code builds, read as SQL: \<open>where\<close> a filter,
  \<open>onConflictDoUpdate\<close> an update of the row with the same key or else an insertion,
  \<open>orderBy\<close> a stable sort (text columns in byte order), \<open>limit\<close> and \<open>offset\<close> a slice.
  Everything one transaction does is one step; a transaction that throws leaves the tables as they
  were, except that the sequence of revisions does not go back.
\<close>

section \<open>Tables\<close>

record tuple_row =
  tr_org :: string
  tr_namespace :: string
  tr_object_id :: string
  tr_relation :: string
  tr_subject :: string
  tr_revision :: nat
  tr_created :: date

datatype change_op = UpsertOp | DeleteOp

record change_row =
  cr_org :: string
  cr_revision :: nat
  cr_op :: change_op
  cr_namespace :: string
  cr_object_id :: string
  cr_relation :: string
  cr_subject :: string
  cr_recorded :: date

record namespace_row =
  nr_org :: string
  nr_namespace :: string
  nr_config :: config_data
  nr_revision :: nat
  nr_created :: date

record policy_row =
  pr_id :: string
  pr_org :: string
  pr_effect :: policy_effect
  pr_resource_type :: string
  pr_action :: string
  pr_condition :: condition
  pr_revision :: nat

record set_row =
  sr_org :: string
  sr_type :: string
  sr_id :: string
  sr_relation :: string
  sr_valid_at :: nat

record member_row =
  mr_org :: string
  mr_set_type :: string
  mr_set_id :: string
  mr_set_relation :: string
  mr_member_type :: string
  mr_member_id :: string
  mr_depth :: nat

record decision_row =
  dl_id :: string
  dl_org :: "string option"
  dl_subject :: string
  dl_action :: string
  dl_resource :: string
  dl_effect :: effect
  dl_reasons :: "reason list"
  dl_revision_used :: nat
  dl_latency :: int
  dl_created :: date

record database =
  db_tuples :: "tuple_row list"
  db_changelog :: "change_row list"
  db_namespaces :: "namespace_row list"
  db_policies :: "policy_row list"
  db_sequence :: nat
  db_revisions :: "nat list"
  db_sets :: "set_row list"
  db_members :: "member_row list"
  db_cursors :: "(string \<times> nat) list"
  db_decisions :: "decision_row list"

definition empty_database :: database where
  "empty_database = \<lparr>db_tuples = [], db_changelog = [], db_namespaces = [], db_policies = [],
     db_sequence = 0, db_revisions = [], db_sets = [], db_members = [], db_cursors = [],
     db_decisions = []\<rparr>"

text \<open>\<open>insert ... on conflict (key) do update\<close>\<close>

fun upsert_row :: "('r \<Rightarrow> 'k) \<Rightarrow> ('r \<Rightarrow> 'r) \<Rightarrow> 'r \<Rightarrow> 'r list \<Rightarrow> 'r list" where
  "upsert_row key change row [] = [row]"
| "upsert_row key change row (r # rs) =
     (if key r = key row then change r # rs else r # upsert_row key change row rs)"

lemma upsert_row_keys:
  "(\<And>r. key (change r) = key r) \<Longrightarrow>
   map key (upsert_row key change row rs) =
     (if key row \<in> key ` set rs then map key rs else map key rs @ [key row])"
  by (induction rs) auto

lemma upsert_row_distinct [store_simps]:
  "(\<And>r. key (change r) = key r) \<Longrightarrow> distinct (map key rs) \<Longrightarrow>
   distinct (map key (upsert_row key change row rs))"
  by (simp add: upsert_row_keys)

lemma upsert_row_set:
  "distinct (map key rs) \<Longrightarrow> x \<in> set (upsert_row key change row rs) \<longleftrightarrow>
     (x \<in> set rs \<and> key x \<noteq> key row) \<or>
     (if key row \<in> key ` set rs then \<exists>r \<in> set rs. key r = key row \<and> x = change r else x = row)"
  by (induction rs) (auto simp: image_iff)

text \<open>A slice: \<open>limit\<close> rows after the first \<open>offset\<close>.\<close>

definition slice :: "nat \<Rightarrow> nat \<Rightarrow> 'r list \<Rightarrow> 'r list" where
  "slice limit offset rows = take limit (drop offset rows)"

section \<open>Transactions and revisions\<close>

definition with_transaction :: "(database \<Rightarrow> 'a throws \<times> database) \<Rightarrow> database \<Rightarrow> 'a throws \<times> database" where
  "with_transaction work db =
     (case work db of
        (Inr v, db') \<Rightarrow> (Inr v, db')
      | (Inl e, db') \<Rightarrow> (Inl e, db\<lparr>db_sequence := db_sequence db'\<rparr>))"

definition allocate :: "database \<Rightarrow> revision \<times> database" where
  "allocate db =
     (let r = db_sequence db + 1 in
      (Revision r, db\<lparr>db_sequence := r, db_revisions := db_revisions db @ [r]\<rparr>))"

definition current_revision :: "database \<Rightarrow> revision" where
  "current_revision db = Revision (fold max (db_revisions db) 0)"

section \<open>The relation-tuple store\<close>

type_synonym tuple_key = "string \<times> string \<times> string \<times> string \<times> string"

definition tuple_row_key :: "tuple_row \<Rightarrow> tuple_key" where
  "tuple_row_key r = (tr_org r, tr_namespace r, tr_object_id r, tr_relation r, tr_subject r)"

definition tuple_row_of :: "relation_tuple \<Rightarrow> tuple_row" where
  "tuple_row_of t = \<lparr>tr_org = org_value (tuple_org t), tr_namespace = ref_type (tuple_object t),
     tr_object_id = ref_id (tuple_object t), tr_relation = tuple_relation t,
     tr_subject = encode_subject (tuple_subject t), tr_revision = rev_value (tuple_revision t),
     tr_created = tuple_created t\<rparr>"

definition tuple_to_domain :: "tuple_row \<Rightarrow> relation_tuple throws" where
  "tuple_to_domain r =
     map_sum id (\<lambda>s. \<lparr>tuple_org = OrgId (tr_org r),
       tuple_object = \<lparr>ref_type = tr_namespace r, ref_id = tr_object_id r\<rparr>,
       tuple_relation = tr_relation r, tuple_subject = s, tuple_revision = Revision (tr_revision r),
       tuple_created = tr_created r\<rparr>) (parse_subject (tr_subject r))"

text \<open>\<open>rows.map(f)\<close> for a function that may throw.\<close>

fun map_throws :: "('a \<Rightarrow> 'b throws) \<Rightarrow> 'a list \<Rightarrow> 'b list throws" where
  "map_throws f [] = Inr []"
| "map_throws f (x # xs) =
     (case f x of Inl e \<Rightarrow> Inl e
      | Inr y \<Rightarrow> (case map_throws f xs of Inl e \<Rightarrow> Inl e | Inr ys \<Rightarrow> Inr (y # ys)))"

lemma map_throws_ok_iff: "map_throws f xs = Inr ys \<longleftrightarrow> list_all2 (\<lambda>x y. f x = Inr y) xs ys"
proof (induction xs arbitrary: ys)
  case (Cons x xs)
  show ?case
  proof (cases "f x")
    case (Inr y)
    then show ?thesis
      by (cases "map_throws f xs") (auto simp: list_all2_Cons1 Cons.IH[symmetric])
  qed (auto simp: list_all2_Cons1)
qed auto

record tuple_command =
  cmd_org :: org_id
  cmd_object :: entity_ref
  cmd_relation :: string
  cmd_subject :: subject_ref

definition command_key :: "tuple_command \<Rightarrow> tuple_key" where
  "command_key c = (org_value (cmd_org c), ref_type (cmd_object c), ref_id (cmd_object c),
     cmd_relation c, encode_subject (cmd_subject c))"

definition store_upsert :: "relation_tuple \<Rightarrow> database \<Rightarrow> database" where
  "store_upsert t db = db\<lparr>db_tuples :=
     upsert_row tuple_row_key (\<lambda>r. r\<lparr>tr_revision := rev_value (tuple_revision t)\<rparr>) (tuple_row_of t)
       (db_tuples db)\<rparr>"

definition store_delete :: "tuple_command \<Rightarrow> database \<Rightarrow> nat \<times> database" where
  "store_delete key db =
     (let gone = filter (\<lambda>r. tuple_row_key r = command_key key) (db_tuples db) in
      (length gone, db\<lparr>db_tuples := filter (\<lambda>r. tuple_row_key r \<noteq> command_key key) (db_tuples db)\<rparr>))"

definition list_by_object :: "org_id \<Rightarrow> entity_ref \<Rightarrow> string \<Rightarrow> database \<Rightarrow> relation_tuple list throws" where
  "list_by_object org object relation db =
     map_throws tuple_to_domain (filter (\<lambda>r. tr_org r = org_value org \<and> tr_namespace r = ref_type object \<and>
       tr_object_id r = ref_id object \<and> tr_relation r = relation) (db_tuples db))"

record tuple_filter =
  filter_org :: org_id
  filter_namespace :: "string option"
  filter_object_id :: "string option"
  filter_relation :: "string option"
  filter_subject :: "subject_ref option"
  filter_limit :: nat
  filter_offset :: nat

definition given :: "'a option \<Rightarrow> 'a \<Rightarrow> bool" where
  "given wanted actual = (case wanted of None \<Rightarrow> True | Some v \<Rightarrow> actual = v)"

definition matches_filter :: "tuple_filter \<Rightarrow> tuple_row \<Rightarrow> bool" where
  "matches_filter f r \<longleftrightarrow> tr_org r = org_value (filter_org f) \<and>
     given (filter_namespace f) (tr_namespace r) \<and> given (filter_object_id f) (tr_object_id r) \<and>
     given (filter_relation f) (tr_relation r) \<and>
     given (map_option encode_subject (filter_subject f)) (tr_subject r)"

definition list_tuples :: "tuple_filter \<Rightarrow> database \<Rightarrow> relation_tuple list throws" where
  "list_tuples f db =
     map_throws tuple_to_domain (slice (filter_limit f) (filter_offset f)
       (sort_key (\<lambda>r. (tr_namespace r, tr_object_id r, tr_relation r, tr_subject r))
         (filter (matches_filter f) (db_tuples db))))"

definition list_referenced_usersets :: "org_id \<Rightarrow> database \<Rightarrow> (entity_ref \<times> string) list throws" where
  "list_referenced_usersets org db =
     map_sum id (\<lambda>ss. concat (map (\<lambda>s. case s of Subject _ \<Rightarrow> [] | UsersetSubject r rel \<Rightarrow> [(r, rel)]) ss))
       (map_throws parse_subject (sort (dedup (map tr_subject
         (filter (\<lambda>r. tr_org r = org_value org \<and> CHR ''#'' \<in> set (tr_subject r)) (db_tuples db))))))"

section \<open>The changelog\<close>

record tuple_change =
  change_org :: org_id
  change_revision :: revision
  change_op :: change_op
  change_object :: entity_ref
  change_relation :: string
  change_subject :: subject_ref
  change_recorded :: date

definition change_row_key :: "change_row \<Rightarrow> nat \<times> tuple_key" where
  "change_row_key r = (cr_revision r, cr_org r, cr_namespace r, cr_object_id r, cr_relation r, cr_subject r)"

definition change_row_of :: "tuple_change \<Rightarrow> change_row" where
  "change_row_of c = \<lparr>cr_org = org_value (change_org c), cr_revision = rev_value (change_revision c),
     cr_op = change_op c, cr_namespace = ref_type (change_object c), cr_object_id = ref_id (change_object c),
     cr_relation = change_relation c, cr_subject = encode_subject (change_subject c),
     cr_recorded = change_recorded c\<rparr>"

definition change_to_domain :: "change_row \<Rightarrow> tuple_change throws" where
  "change_to_domain r =
     map_sum id (\<lambda>s. \<lparr>change_org = OrgId (cr_org r), change_revision = Revision (cr_revision r),
       change_op = cr_op r, change_object = \<lparr>ref_type = cr_namespace r, ref_id = cr_object_id r\<rparr>,
       change_relation = cr_relation r, change_subject = s, change_recorded = cr_recorded r\<rparr>)
       (parse_subject (cr_subject r))"

text \<open>A plain insertion fails when the primary key is taken.\<close>

definition changelog_append :: "tuple_change \<Rightarrow> database \<Rightarrow> unit throws \<times> database" where
  "changelog_append c db =
     (if change_row_key (change_row_of c) \<in> change_row_key ` set (db_changelog db)
      then (Inl (Error ''duplicate key''), db)
      else (Inr (), db\<lparr>db_changelog := db_changelog db @ [change_row_of c]\<rparr>))"

definition changelog_since :: "org_id \<Rightarrow> revision \<Rightarrow> nat \<Rightarrow> database \<Rightarrow> tuple_change list throws" where
  "changelog_since org after limit db =
     map_throws change_to_domain (take limit
       (sort_key (\<lambda>r. (cr_revision r, cr_namespace r, cr_object_id r, cr_relation r, cr_subject r))
         (filter (\<lambda>r. cr_org r = org_value org \<and> cr_revision r > rev_value after) (db_changelog db))))"

definition changelog_since_all :: "revision \<Rightarrow> nat \<Rightarrow> database \<Rightarrow> tuple_change list throws" where
  "changelog_since_all after limit db =
     map_throws change_to_domain (take limit
       (sort_key (\<lambda>r. (cr_revision r, cr_org r, cr_namespace r, cr_object_id r, cr_relation r, cr_subject r))
         (filter (\<lambda>r. cr_revision r > rev_value after) (db_changelog db))))"

section \<open>Namespace definitions\<close>

definition namespace_row_key :: "namespace_row \<Rightarrow> string \<times> string" where
  "namespace_row_key r = (nr_org r, nr_namespace r)"

definition namespace_row_of :: "namespace_definition \<Rightarrow> namespace_row" where
  "namespace_row_of d = \<lparr>nr_org = org_value (def_org d), nr_namespace = def_namespace d,
     nr_config = config_to_data (def_config d), nr_revision = rev_value (def_revision d),
     nr_created = def_created d\<rparr>"

definition namespace_to_domain :: "namespace_row \<Rightarrow> namespace_definition" where
  "namespace_to_domain r = \<lparr>def_org = OrgId (nr_org r), def_namespace = nr_namespace r,
     def_config = config_from_data (nr_config r), def_revision = Revision (nr_revision r),
     def_created = nr_created r\<rparr>"

definition namespace_save :: "namespace_definition \<Rightarrow> database \<Rightarrow> database" where
  "namespace_save d db = db\<lparr>db_namespaces :=
     upsert_row namespace_row_key
       (\<lambda>r. r\<lparr>nr_config := config_to_data (def_config d), nr_revision := rev_value (def_revision d)\<rparr>)
       (namespace_row_of d) (db_namespaces db)\<rparr>"

definition find_by_namespace :: "org_id \<Rightarrow> string \<Rightarrow> database \<Rightarrow> namespace_definition option" where
  "find_by_namespace org namespace db =
     map_option namespace_to_domain
       (find (\<lambda>r. nr_org r = org_value org \<and> nr_namespace r = namespace) (db_namespaces db))"

definition list_namespaces_by_org :: "org_id \<Rightarrow> database \<Rightarrow> namespace_definition list" where
  "list_namespaces_by_org org db =
     map namespace_to_domain
       (sort_key nr_namespace (filter (\<lambda>r. nr_org r = org_value org) (db_namespaces db)))"

section \<open>Policies\<close>

definition policy_row_of :: "policy \<Rightarrow> policy_row" where
  "policy_row_of q = \<lparr>pr_id = policy_id q, pr_org = org_value (policy_org q), pr_effect = policy_effect q,
     pr_resource_type = policy_resource_type q, pr_action = policy_action q,
     pr_condition = policy_condition q, pr_revision = rev_value (policy_revision q)\<rparr>"

definition policy_to_domain :: "policy_row \<Rightarrow> policy" where
  "policy_to_domain r = \<lparr>policy_id = pr_id r, policy_org = OrgId (pr_org r), policy_effect = pr_effect r,
     policy_resource_type = pr_resource_type r, policy_action = pr_action r,
     policy_condition = pr_condition r, policy_revision = Revision (pr_revision r)\<rparr>"

definition policy_upsert :: "policy \<Rightarrow> database \<Rightarrow> database" where
  "policy_upsert q db = db\<lparr>db_policies :=
     upsert_row pr_id (\<lambda>r. r\<lparr>pr_org := org_value (policy_org q), pr_effect := policy_effect q,
         pr_resource_type := policy_resource_type q, pr_action := policy_action q,
         pr_condition := policy_condition q, pr_revision := rev_value (policy_revision q)\<rparr>)
       (policy_row_of q) (db_policies db)\<rparr>"

definition policy_delete :: "org_id \<Rightarrow> string \<Rightarrow> database \<Rightarrow> bool \<times> database" where
  "policy_delete org i db =
     (list_ex (\<lambda>r. pr_org r = org_value org \<and> pr_id r = i) (db_policies db),
      db\<lparr>db_policies := filter (\<lambda>r. \<not> (pr_org r = org_value org \<and> pr_id r = i)) (db_policies db)\<rparr>)"

definition list_by_target :: "org_id \<Rightarrow> string \<Rightarrow> string \<Rightarrow> database \<Rightarrow> policy list" where
  "list_by_target org resource_type action db =
     map policy_to_domain (filter (\<lambda>r. pr_org r = org_value org \<and> pr_resource_type r = resource_type \<and>
       pr_action r \<in> {action, any_action}) (db_policies db))"

definition list_policies_by_org :: "org_id \<Rightarrow> database \<Rightarrow> policy list" where
  "list_policies_by_org org db =
     map policy_to_domain (sort_key (\<lambda>r. (pr_resource_type r, pr_action r, pr_id r))
       (filter (\<lambda>r. pr_org r = org_value org) (db_policies db)))"

section \<open>The writers\<close>

text \<open>\<open>relation-tuple-writer.ts\<close>: the tuple written and the change recorded, the body of each
  transaction, and the two operations.\<close>

definition written_tuple :: "date \<Rightarrow> tuple_command \<Rightarrow> revision \<Rightarrow> relation_tuple" where
  "written_tuple recorded_at c allocated = \<lparr>tuple_org = cmd_org c, tuple_object = cmd_object c,
     tuple_relation = cmd_relation c, tuple_subject = cmd_subject c, tuple_revision = allocated,
     tuple_created = recorded_at\<rparr>"

definition recorded_change :: "change_op \<Rightarrow> date \<Rightarrow> tuple_command \<Rightarrow> revision \<Rightarrow> tuple_change" where
  "recorded_change op recorded_at c allocated = \<lparr>change_org = cmd_org c, change_revision = allocated,
     change_op = op, change_object = cmd_object c, change_relation = cmd_relation c,
     change_subject = cmd_subject c, change_recorded = recorded_at\<rparr>"

definition write_work :: "date \<Rightarrow> tuple_command \<Rightarrow> database \<Rightarrow> revision throws \<times> database" where
  "write_work recorded_at c db =
     (let (allocated, db1) = allocate db in
      case relation_tuple_write (written_tuple recorded_at c allocated) of
        Inl e \<Rightarrow> (Inl e, db1)
      | Inr t \<Rightarrow>
          (case changelog_append (recorded_change UpsertOp recorded_at c allocated) (store_upsert t db1) of
             (Inl e, db2) \<Rightarrow> (Inl e, db2)
           | (Inr _, db2) \<Rightarrow> (Inr allocated, db2)))"

definition revoke_work :: "date \<Rightarrow> tuple_command \<Rightarrow> database \<Rightarrow> revision throws \<times> database" where
  "revoke_work recorded_at c db =
     (let (allocated, db1) = allocate db; (removed, db2) = store_delete c db1 in
      if removed > 0
      then (case changelog_append (recorded_change DeleteOp recorded_at c allocated) db2 of
              (Inl e, db3) \<Rightarrow> (Inl e, db3)
            | (Inr _, db3) \<Rightarrow> (Inr allocated, db3))
      else (Inr allocated, db2))"

definition writer_write :: "date \<Rightarrow> tuple_command \<Rightarrow> database \<Rightarrow> consistency_token throws \<times> database" where
  "writer_write recorded_at c db =
     (let (result, db') = with_transaction (write_work recorded_at c) db
      in (map_sum id ConsistencyToken result, db'))"

definition writer_revoke :: "date \<Rightarrow> tuple_command \<Rightarrow> database \<Rightarrow> consistency_token throws \<times> database" where
  "writer_revoke recorded_at c db =
     (let (result, db') = with_transaction (revoke_work recorded_at c) db
      in (map_sum id ConsistencyToken result, db'))"

text \<open>\<open>namespace-config-writer.ts\<close>\<close>

datatype define_error = ConfigError config_error | InvalidNamespace

record define_command =
  define_org :: org_id
  define_namespace :: string
  define_config :: config_data

definition writer_define :: "date \<Rightarrow> define_command \<Rightarrow> database \<Rightarrow>
    (consistency_token, define_error) result throws \<times> database" where
  "writer_define created_at c db =
     (if \<not> is_identifier (define_namespace c) then (Inr (err InvalidNamespace), db)
      else case config_create (define_config c) of
        Inl e \<Rightarrow> (Inr (err (ConfigError e)), db)
      | Inr config \<Rightarrow>
          (let (result, db') = with_transaction (\<lambda>db.
             let (allocated, db1) = allocate db in
             (Inr allocated, namespace_save \<lparr>def_org = define_org c, def_namespace = define_namespace c,
                def_config = config, def_revision = allocated, def_created = created_at\<rparr> db1)) db
           in (map_sum id (\<lambda>r. ok (ConsistencyToken r)) result, db')))"

text \<open>\<open>policy-writer.ts\<close>\<close>

datatype policy_writer_error = ConditionError condition_error | InvalidPolicy

record write_policy_command =
  wp_org :: org_id
  wp_id :: string
  wp_effect :: policy_effect
  wp_resource_type :: string
  wp_action :: string
  wp_condition :: condition

definition writer_policy :: "platform \<Rightarrow> write_policy_command \<Rightarrow> database \<Rightarrow>
    (consistency_token, policy_writer_error) result throws \<times> database" where
  "writer_policy p c db =
     (if \<not> is_identifier (wp_id c) \<or> \<not> is_identifier (wp_resource_type c) then (Inr (err InvalidPolicy), db)
      else if wp_action c \<noteq> any_action \<and> \<not> is_identifier (wp_action c) then (Inr (err InvalidPolicy), db)
      else case parse_condition p (wp_condition c) of
        Inl e \<Rightarrow> (Inr (err (ConditionError e)), db)
      | Inr cond \<Rightarrow>
          (let (result, db') = with_transaction (\<lambda>db.
             let (allocated, db1) = allocate db in
             (Inr allocated, policy_upsert \<lparr>policy_id = wp_id c, policy_org = wp_org c,
                policy_effect = wp_effect c, policy_resource_type = wp_resource_type c,
                policy_action = wp_action c, policy_condition = cond, policy_revision = allocated\<rparr> db1)) db
           in (map_sum id (\<lambda>r. ok (ConsistencyToken r)) result, db')))"

definition writer_policy_delete :: "org_id \<Rightarrow> string \<Rightarrow> database \<Rightarrow> consistency_token throws \<times> database" where
  "writer_policy_delete org i db =
     (let (result, db') = with_transaction (\<lambda>db.
        let (allocated, db1) = allocate db; (_, db2) = policy_delete org i db1 in
        (Inr allocated, db2)) db
      in (map_sum id ConsistencyToken result, db'))"

end
