(* ===== verification/Writers.thy ===== *)
theory Writers
  imports Store Walks
begin

text \<open>
  What the write side of the authorization store keeps. Two interfaces are stated as locales: the
  tuple store the writer calls, and the store together with its changelog. The facts proved there
  are read off for the model of the Drizzle repositories. The step relation \<open>store_step\<close> is one
  administrative transaction; \<open>store_inv\<close> holds in every reachable database. \<open>later\<close> relates a database to those the
  writers make of it, \<open>follows\<close> to those writers and indexer make of it, and a database is \<open>in_service\<close> when it follows an
  empty one.
\<close>

section \<open>The tuple store as its clients see it\<close>

definition contents :: "database \<Rightarrow> tuple_key \<Rightarrow> nat option" where
  "contents db = map_of (map (\<lambda>r. (tuple_row_key r, tr_revision r)) (db_tuples db))"

definition tuple_key_of :: "relation_tuple \<Rightarrow> tuple_key" where
  "tuple_key_of t = tuple_row_key (tuple_row_of t)"

definition keyed :: "database \<Rightarrow> bool" where
  "keyed db \<longleftrightarrow> distinct (map tuple_row_key (db_tuples db))"

locale relation_store =
  fixes upsert :: "relation_tuple \<Rightarrow> 'db \<Rightarrow> 'db"
    and remove :: "tuple_command \<Rightarrow> 'db \<Rightarrow> nat \<times> 'db"
    and stored :: "'db \<Rightarrow> tuple_key \<Rightarrow> nat option"
    and sane :: "'db \<Rightarrow> bool"
  assumes stored_upsert: "stored (upsert t db) = (stored db)(tuple_key_of t \<mapsto> rev_value (tuple_revision t))"
    and stored_remove: "stored (snd (remove c db)) = (stored db)(command_key c := None)"
    and removed_iff: "0 < fst (remove c db) \<longleftrightarrow> stored db (command_key c) \<noteq> None"
    and sane_upsert: "sane db \<Longrightarrow> sane (upsert t db)"
    and sane_remove: "sane db \<Longrightarrow> sane (snd (remove c db))"
begin

lemma remove_after_upsert:
  "command_key c = tuple_key_of t \<Longrightarrow> 0 < fst (remove c (upsert t db)) \<and>
     stored (snd (remove c (upsert t db))) = (stored db)(command_key c := None)"
  by (simp add: removed_iff stored_remove stored_upsert)

lemma remove_twice: "fst (remove c (snd (remove c db))) = 0"
  using removed_iff[of c "snd (remove c db)"] by (simp add: stored_remove)

lemma remove_absent: "stored db (command_key c) = None \<Longrightarrow> stored (snd (remove c db)) = stored db"
  by (simp add: stored_remove fun_upd_idem)

end

lemma map_of_upsert_row:
  "(\<And>r. key (change r) = key r) \<Longrightarrow>
   map_of (map (\<lambda>r. (key r, val r)) (upsert_row key change row rs)) =
     (map_of (map (\<lambda>r. (key r, val r)) rs))(key row \<mapsto>
        (case find (\<lambda>r. key r = key row) rs of Some r \<Rightarrow> val (change r) | None \<Rightarrow> val row))"
  by (induction rs) (auto simp: fun_eq_iff)

lemma map_of_filter_key:
  "map_of (map (\<lambda>r. (key r, val r)) (filter (\<lambda>r. key r \<noteq> k) rs)) =
     (map_of (map (\<lambda>r. (key r, val r)) rs))(k := None)"
  by (induction rs) (auto simp: fun_eq_iff)

lemma tuple_row_key_change [simp]: "tuple_row_key (r\<lparr>tr_revision := n\<rparr>) = tuple_row_key r"
  by (simp add: tuple_row_key_def)

interpretation drizzle_store: relation_store store_upsert store_delete contents keyed
proof unfold_locales
  fix t db
  show "contents (store_upsert t db) = (contents db)(tuple_key_of t \<mapsto> rev_value (tuple_revision t))"
    by (simp add: contents_def store_upsert_def map_of_upsert_row tuple_key_of_def tuple_row_of_def
        split: option.splits)
  show "keyed db \<Longrightarrow> keyed (store_upsert t db)"
    by (simp add: keyed_def store_upsert_def upsert_row_distinct)
next
  fix c db
  show "contents (snd (store_delete c db)) = (contents db)(command_key c := None)"
    by (simp add: contents_def store_delete_def Let_def map_of_filter_key)
  show "0 < fst (store_delete c db) \<longleftrightarrow> contents db (command_key c) \<noteq> None"
    by (force simp: contents_def store_delete_def Let_def map_of_eq_None_iff filter_empty_conv image_iff)
  show "keyed db \<Longrightarrow> keyed (snd (store_delete c db))"
    by (simp add: keyed_def store_delete_def Let_def distinct_map_filter)
qed

section \<open>The changelog as a replica of the store\<close>

definition change_tuple_key :: "change_row \<Rightarrow> tuple_key" where
  "change_tuple_key r = (cr_org r, cr_namespace r, cr_object_id r, cr_relation r, cr_subject r)"

text \<open>What a consumer of the changelog rebuilds from it.\<close>

definition apply_change :: "(tuple_key \<Rightarrow> nat option) \<Rightarrow> change_row \<Rightarrow> tuple_key \<Rightarrow> nat option" where
  "apply_change m r = (case cr_op r of
     UpsertOp \<Rightarrow> m(change_tuple_key r \<mapsto> cr_revision r) | DeleteOp \<Rightarrow> m(change_tuple_key r := None))"

definition replay :: "change_row list \<Rightarrow> tuple_key \<Rightarrow> nat option" where
  "replay rows = foldl apply_change Map.empty rows"

lemma replay_append [simp]: "replay (rows @ [r]) = apply_change (replay rows) r"
  by (simp add: replay_def)

locale logged_store = relation_store upsert remove stored sane
  for upsert :: "relation_tuple \<Rightarrow> 'db \<Rightarrow> 'db"
    and remove :: "tuple_command \<Rightarrow> 'db \<Rightarrow> nat \<times> 'db"
    and stored :: "'db \<Rightarrow> tuple_key \<Rightarrow> nat option"
    and sane :: "'db \<Rightarrow> bool" +
  fixes log :: "'db \<Rightarrow> change_row list"
    and append :: "tuple_change \<Rightarrow> 'db \<Rightarrow> unit throws \<times> 'db"
  assumes log_append: "append c db = (Inr (), db') \<Longrightarrow> log db' = log db @ [change_row_of c] \<and> stored db' = stored db"
    and log_upsert: "log (upsert t db) = log db"
    and log_remove: "log (snd (remove k db)) = log db"
begin

lemma upsert_logged:
  assumes "stored db = replay (log db)" "append c (upsert t db) = (Inr (), db')"
    and "change_tuple_key (change_row_of c) = tuple_key_of t" "change_op c = UpsertOp"
    and "change_revision c = tuple_revision t"
  shows "stored db' = replay (log db')"
  using log_append[OF assms(2)] assms
  by (simp add: log_upsert stored_upsert apply_change_def change_row_of_def)

lemma remove_logged:
  assumes "stored db = replay (log db)" "append c (snd (remove k db)) = (Inr (), db')"
    and "change_tuple_key (change_row_of c) = command_key k" "change_op c = DeleteOp"
  shows "stored db' = replay (log db')"
  using log_append[OF assms(2)] assms
  by (simp add: log_remove stored_remove apply_change_def change_row_of_def)

lemma remove_unlogged:
  "stored db = replay (log db) \<Longrightarrow> fst (remove k db) = 0 \<Longrightarrow>
   stored (snd (remove k db)) = replay (log (snd (remove k db)))"
  using removed_iff[of k db] by (simp add: remove_absent log_remove)

end

interpretation drizzle_log: logged_store store_upsert store_delete contents keyed db_changelog changelog_append
  by unfold_locales
    (auto simp: changelog_append_def contents_def store_upsert_def store_delete_def Let_def
      split: if_splits)

section \<open>Administrative steps\<close>

inductive store_step :: "platform \<Rightarrow> database \<Rightarrow> database \<Rightarrow> bool" for p where
  write_tuple: "store_step p db (snd (writer_write now c db))"
| revoke_tuple: "store_step p db (snd (writer_revoke now c db))"
| define_ns: "store_step p db (snd (writer_define now d db))"
| write_policy: "store_step p db (snd (writer_policy p w db))"
| delete_policy: "store_step p db (snd (writer_policy_delete org i db))"

inductive reachable :: "platform \<Rightarrow> database \<Rightarrow> bool" for p where
  start: "reachable p empty_database"
| step: "reachable p db \<Longrightarrow> store_step p db db' \<Longrightarrow> reachable p db'"

definition revisions_inv :: "database \<Rightarrow> bool" where
  "revisions_inv db \<longleftrightarrow>
     sorted_wrt (<) (db_revisions db) \<and> (\<forall>r \<in> set (db_revisions db). r \<le> db_sequence db) \<and>
     sorted_wrt (<) (map cr_revision (db_changelog db)) \<and>
     cr_revision ` set (db_changelog db) \<subseteq> set (db_revisions db) \<and>
     nr_revision ` set (db_namespaces db) \<subseteq> set (db_revisions db) \<and>
     pr_revision ` set (db_policies db) \<subseteq> set (db_revisions db) \<and>
     tr_revision ` set (db_tuples db) \<subseteq> set (db_revisions db)"

definition rows_inv :: "platform \<Rightarrow> database \<Rightarrow> bool" where
  "rows_inv p db \<longleftrightarrow>
     keyed db \<and> distinct (map namespace_row_key (db_namespaces db)) \<and> distinct (map pr_id (db_policies db)) \<and>
     (\<forall>r \<in> set (db_tuples db). \<exists>t. tuple_to_domain r = Inr t \<and> writable_tuple t) \<and>
     (\<forall>r \<in> set (db_changelog db). \<exists>c. change_to_domain r = Inr c) \<and>
     (\<forall>r \<in> set (db_namespaces db). is_identifier (nr_namespace r) \<and>
        (\<exists>c. valid_config c \<and> nr_config r = config_to_data c)) \<and>
     (\<forall>r \<in> set (db_policies db). parse_condition p (pr_condition r) = ok (pr_condition r))"

definition store_inv :: "platform \<Rightarrow> database \<Rightarrow> bool" where
  "store_inv p db \<longleftrightarrow> revisions_inv db \<and> rows_inv p db \<and> contents db = replay (db_changelog db)"

lemma allocate_eq: "allocate db = (Revision (db_sequence db + 1),
    db\<lparr>db_sequence := db_sequence db + 1, db_revisions := db_revisions db @ [db_sequence db + 1]\<rparr>)"
  by (simp add: allocate_def Let_def)

lemma revisions_inv_sequence [simp]:
  "revisions_inv db \<Longrightarrow> db_sequence db \<le> n \<Longrightarrow> revisions_inv (db\<lparr>db_sequence := n\<rparr>)"
  by (auto simp: revisions_inv_def)

lemma rows_inv_sequence [simp]: "rows_inv p (db\<lparr>db_sequence := n\<rparr>) = rows_inv p db"
  by (simp add: rows_inv_def keyed_def)

lemma contents_sequence [simp]: "contents (db\<lparr>db_sequence := n\<rparr>) = contents db"
  by (simp add: contents_def)

text \<open>The changelog never collides: its key holds the freshly allocated revision.\<close>

lemma append_fresh:
  "cr_revision ` set (db_changelog db) \<subseteq> {..n} \<Longrightarrow> rev_value (change_revision c) = Suc n \<Longrightarrow>
   changelog_append c db = (Inr (), db\<lparr>db_changelog := db_changelog db @ [change_row_of c]\<rparr>)"
  by (auto simp: changelog_append_def change_row_key_def change_row_of_def)

lemma changelog_bound: "revisions_inv db \<Longrightarrow> cr_revision ` set (db_changelog db) \<subseteq> {..db_sequence db}"
  by (auto simp: revisions_inv_def)

text \<open>The effect of every writer on the tables.\<close>

definition allocated_db :: "database \<Rightarrow> database" where
  "allocated_db db = db\<lparr>db_sequence := db_sequence db + 1, db_revisions := db_revisions db @ [db_sequence db + 1]\<rparr>"

definition next_revision :: "database \<Rightarrow> revision" where
  "next_revision db = Revision (db_sequence db + 1)"

definition logged :: "change_op \<Rightarrow> date \<Rightarrow> tuple_command \<Rightarrow> revision \<Rightarrow> database \<Rightarrow> database" where
  "logged op now c r db = db\<lparr>db_changelog := db_changelog db @ [change_row_of (recorded_change op now c r)]\<rparr>"

definition command_writable :: "tuple_command \<Rightarrow> bool" where
  "command_writable c \<longleftrightarrow> assert_writable_entity_ref (cmd_object c) = None \<and>
     is_identifier (cmd_relation c) \<and> assert_writable_subject (cmd_subject c) = None"

lemma allocate_alt: "allocate db = (next_revision db, allocated_db db)"
  by (simp add: allocate_eq next_revision_def allocated_db_def)

lemma append_allocated:
  "revisions_inv db \<Longrightarrow> db_changelog db' = db_changelog db \<Longrightarrow>
   changelog_append (recorded_change op now c (next_revision db)) db' =
     (Inr (), logged op now c (next_revision db) db')"
  unfolding logged_def
  by (rule append_fresh[where n = "db_sequence db"])
    (auto simp: recorded_change_def next_revision_def dest: changelog_bound)

lemma relation_tuple_write_written:
  "command_writable c \<Longrightarrow> relation_tuple_write (written_tuple now c r) = Inr (written_tuple now c r)"
  by (simp add: relation_tuple_write_ok_iff writable_tuple_def written_tuple_def command_writable_def)

lemma relation_tuple_write_rejected:
  "\<not> command_writable c \<Longrightarrow> \<exists>e. relation_tuple_write (written_tuple now c r) = Inl e"
  using relation_tuple_write_ok_iff[of "written_tuple now c r"]
  by (cases "relation_tuple_write (written_tuple now c r)")
    (auto simp: writable_tuple_def written_tuple_def command_writable_def)

lemma db_changelog_simps [simp]:
  "db_changelog (store_upsert t db) = db_changelog db"
  "db_changelog (allocated_db db) = db_changelog db"
  "db_changelog (snd (store_delete k db)) = db_changelog db"
  by (simp_all add: store_upsert_def allocated_db_def store_delete_def Let_def)

lemma writer_write_ok:
  "revisions_inv db \<Longrightarrow> command_writable c \<Longrightarrow> writer_write now c db =
     (Inr (ConsistencyToken (next_revision db)),
      logged UpsertOp now c (next_revision db)
        (store_upsert (written_tuple now c (next_revision db)) (allocated_db db)))"
  by (simp add: writer_write_def with_transaction_def write_work_def allocate_alt
      relation_tuple_write_written append_allocated)

lemma writer_write_rejected:
  "\<not> command_writable c \<Longrightarrow>
   \<exists>e. writer_write now c db = (Inl e, db\<lparr>db_sequence := db_sequence db + 1\<rparr>)"
  using relation_tuple_write_rejected[of c now "next_revision db"]
  by (auto simp: writer_write_def with_transaction_def write_work_def allocate_alt allocated_db_def)

lemma writer_revoke_eq:
  "revisions_inv db \<Longrightarrow> writer_revoke now c db =
     (Inr (ConsistencyToken (next_revision db)),
      let (removed, db2) = store_delete c (allocated_db db) in
      if removed > 0 then logged DeleteOp now c (next_revision db) db2 else db2)"
  using append_allocated[of db "snd (store_delete c (allocated_db db))" DeleteOp now c]
    db_changelog_simps(3)[of c "allocated_db db"]
  by (cases "store_delete c (allocated_db db)")
    (simp add: writer_revoke_def with_transaction_def revoke_work_def allocate_alt Let_def)

lemma writer_define_cases:
  obtains (rejected) e where "writer_define now c db = (Inr (err e), db)"
  | (defined) config where "config_create (define_config c) = ok config" "is_identifier (define_namespace c)"
      "writer_define now c db = (Inr (ok (ConsistencyToken (next_revision db))),
         namespace_save \<lparr>def_org = define_org c, def_namespace = define_namespace c, def_config = config,
           def_revision = next_revision db, def_created = now\<rparr> (allocated_db db))"
  by (cases "is_identifier (define_namespace c)"; cases "config_create (define_config c)")
    (auto simp: writer_define_def with_transaction_def allocate_alt)

lemma writer_policy_cases:
  obtains (rejected) e where "writer_policy p c db = (Inr (err e), db)"
  | (written) "parse_condition p (wp_condition c) = ok (wp_condition c)"
      "writer_policy p c db = (Inr (ok (ConsistencyToken (next_revision db))),
         policy_upsert \<lparr>policy_id = wp_id c, policy_org = wp_org c, policy_effect = wp_effect c,
           policy_resource_type = wp_resource_type c, policy_action = wp_action c,
           policy_condition = wp_condition c, policy_revision = next_revision db\<rparr> (allocated_db db))"
proof (cases "parse_condition p (wp_condition c)")
  case (Inl e)
  then have "\<exists>e. writer_policy p c db = (Inr (err e), db)" by (auto simp: writer_policy_def)
  then show thesis using rejected by blast
next
  case (Inr cond)
  then have "cond = wp_condition c"
    by (auto simp: parse_condition_def split: prod.splits option.splits)
  with Inr have "(\<exists>e. writer_policy p c db = (Inr (err e), db)) \<or>
      writer_policy p c db = (Inr (ok (ConsistencyToken (next_revision db))),
         policy_upsert \<lparr>policy_id = wp_id c, policy_org = wp_org c, policy_effect = wp_effect c,
           policy_resource_type = wp_resource_type c, policy_action = wp_action c,
           policy_condition = wp_condition c, policy_revision = next_revision db\<rparr> (allocated_db db))"
    by (auto simp: writer_policy_def with_transaction_def allocate_alt)
  with Inr \<open>cond = _\<close> show thesis using rejected written by blast
qed

lemma writer_policy_delete_eq:
  "writer_policy_delete org i db =
     (Inr (ConsistencyToken (next_revision db)), snd (policy_delete org i (allocated_db db)))"
  by (simp add: writer_policy_delete_def with_transaction_def allocate_alt case_prod_unfold Let_def)

section \<open>Every step keeps the invariant\<close>

lemma revisions_inv_allocated:
  "revisions_inv db \<Longrightarrow> revisions_inv (allocated_db db)"
  by (auto simp: revisions_inv_def allocated_db_def sorted_wrt_append)

lemma next_in_allocated: "rev_value (next_revision db) \<in> set (db_revisions (allocated_db db))"
  by (simp add: next_revision_def allocated_db_def)

lemma upsert_row_all:
  "x \<in> set (upsert_row key change row rs) \<Longrightarrow> x \<in> set rs \<or> x = row \<or> (\<exists>r \<in> set rs. key r = key row \<and> x = change r)"
  by (induction rs) (auto split: if_splits)

lemma upsert_row_allI:
  "x \<in> set (upsert_row key change row rs) \<Longrightarrow> P row \<Longrightarrow> (\<And>r. r \<in> set rs \<Longrightarrow> P r) \<Longrightarrow>
   (\<And>r. r \<in> set rs \<Longrightarrow> P (change r)) \<Longrightarrow> P x"
  by (blast dest: upsert_row_all)

lemma upsert_row_image:
  assumes "f ` set rs \<subseteq> S" "f row \<in> S" "\<And>r. f (change r) \<in> S"
  shows "f ` set (upsert_row key change row rs) \<subseteq> S"
  using assms by (auto elim!: upsert_row_allI)

lemma revisions_inv_frame:
  "revisions_inv db \<Longrightarrow> db_revisions db' = db_revisions db \<Longrightarrow> db_sequence db' = db_sequence db \<Longrightarrow>
   db_changelog db' = db_changelog db \<Longrightarrow> nr_revision ` set (db_namespaces db') \<subseteq> set (db_revisions db) \<Longrightarrow>
   pr_revision ` set (db_policies db') \<subseteq> set (db_revisions db) \<Longrightarrow>
   tr_revision ` set (db_tuples db') \<subseteq> set (db_revisions db) \<Longrightarrow> revisions_inv db'"
  by (simp add: revisions_inv_def)

lemma revisions_inv_images:
  assumes "revisions_inv db"
  shows "nr_revision ` set (db_namespaces db) \<subseteq> set (db_revisions db)"
    "pr_revision ` set (db_policies db) \<subseteq> set (db_revisions db)"
    "tr_revision ` set (db_tuples db) \<subseteq> set (db_revisions db)"
  using assms by (auto simp: revisions_inv_def)

lemma revisions_inv_upsert:
  assumes "revisions_inv db" "rev_value (tuple_revision t) \<in> set (db_revisions db)"
  shows "revisions_inv (store_upsert t db)"
proof -
  have "tr_revision ` set (db_tuples (store_upsert t db)) \<subseteq> set (db_revisions db)"
    unfolding store_upsert_def
    using assms(2) by (simp, intro upsert_row_image revisions_inv_images assms(1)) (simp_all add: tuple_row_of_def)
  with revisions_inv_images[OF assms(1)] show ?thesis
    by (intro revisions_inv_frame[OF assms(1)]) (simp_all add: store_upsert_def)
qed

lemma revisions_inv_delete: "revisions_inv db \<Longrightarrow> revisions_inv (snd (store_delete c db))"
  by (auto simp: revisions_inv_def store_delete_def Let_def)

lemma revisions_inv_logged:
  "revisions_inv db \<Longrightarrow> (\<forall>r \<in> set (db_changelog db). cr_revision r < rev_value n) \<Longrightarrow>
   rev_value n \<in> set (db_revisions db) \<Longrightarrow> revisions_inv (logged op now c n db)"
  by (auto simp: revisions_inv_def logged_def change_row_of_def recorded_change_def sorted_wrt_append)

lemma revisions_inv_namespace:
  assumes "revisions_inv db" "rev_value (def_revision d) \<in> set (db_revisions db)"
  shows "revisions_inv (namespace_save d db)"
proof -
  have "nr_revision ` set (db_namespaces (namespace_save d db)) \<subseteq> set (db_revisions db)"
    unfolding namespace_save_def
    using assms(2) by (simp, intro upsert_row_image revisions_inv_images assms(1)) (simp_all add: namespace_row_of_def)
  with revisions_inv_images[OF assms(1)] show ?thesis
    by (intro revisions_inv_frame[OF assms(1)]) (simp_all add: namespace_save_def)
qed

lemma revisions_inv_policy:
  assumes "revisions_inv db" "rev_value (policy_revision q) \<in> set (db_revisions db)"
  shows "revisions_inv (policy_upsert q db)"
proof -
  have "pr_revision ` set (db_policies (policy_upsert q db)) \<subseteq> set (db_revisions db)"
    unfolding policy_upsert_def
    using assms(2) by (simp, intro upsert_row_image revisions_inv_images assms(1)) (simp_all add: policy_row_of_def)
  with revisions_inv_images[OF assms(1)] show ?thesis
    by (intro revisions_inv_frame[OF assms(1)]) (simp_all add: policy_upsert_def)
qed

lemma revisions_inv_policy_delete: "revisions_inv db \<Longrightarrow> revisions_inv (snd (policy_delete org i db))"
  by (auto simp: revisions_inv_def policy_delete_def)

lemma rows_inv_allocated [simp]: "rows_inv p (allocated_db db) = rows_inv p db"
  by (simp add: rows_inv_def keyed_def allocated_db_def)

lemma tuple_to_domain_of: "writable_tuple t \<Longrightarrow> tuple_to_domain (tuple_row_of t) = Inr t"
  by (cases t) (simp add: tuple_to_domain_def tuple_row_of_def writable_tuple_def parse_encode_subject)

lemma tuple_to_domain_revision:
  "tuple_to_domain r = Inr t \<Longrightarrow> tuple_to_domain (r\<lparr>tr_revision := n\<rparr>) = Inr (t\<lparr>tuple_revision := Revision n\<rparr>)"
  by (cases "parse_subject (tr_subject r)") (auto simp: tuple_to_domain_def)

lemma rows_inv_upsert:
  assumes "rows_inv p db" "writable_tuple t"
  shows "rows_inv p (store_upsert t db)"
proof -
  have "\<exists>t'. tuple_to_domain r = Inr t' \<and> writable_tuple t'" if "r \<in> set (db_tuples (store_upsert t db))" for r
  proof -
    from that upsert_row_all[of r tuple_row_key _ "tuple_row_of t" "db_tuples db"]
    consider "r \<in> set (db_tuples db)" | "r = tuple_row_of t"
      | r' where "r' \<in> set (db_tuples db)" "r = r'\<lparr>tr_revision := rev_value (tuple_revision t)\<rparr>"
      by (auto simp: store_upsert_def)
    then show ?thesis
    proof cases
      case 3
      with assms(1) obtain t' where "tuple_to_domain r' = Inr t'" "writable_tuple t'"
        by (auto simp: rows_inv_def)
      with 3 tuple_to_domain_revision[of r' t'] show ?thesis by (auto simp: writable_tuple_def)
    qed (use assms tuple_to_domain_of in \<open>auto simp: rows_inv_def\<close>)
  qed
  moreover have "keyed (store_upsert t db)"
    using assms(1) by (intro drizzle_store.sane_upsert) (simp add: rows_inv_def)
  ultimately show ?thesis
    using assms(1) by (simp add: rows_inv_def) (simp add: store_upsert_def)
qed

lemma rows_inv_delete: "rows_inv p db \<Longrightarrow> rows_inv p (snd (store_delete c db))"
  using drizzle_store.sane_remove[of db c] by (auto simp: rows_inv_def store_delete_def Let_def)

lemma rows_inv_logged:
  "rows_inv p db \<Longrightarrow> parse_subject (encode_subject (cmd_subject c)) = Inr s \<Longrightarrow>
   rows_inv p (logged op now c n db)"
  by (auto simp: rows_inv_def logged_def keyed_def change_to_domain_def change_row_of_def recorded_change_def)

lemma rows_inv_namespace:
  assumes "rows_inv p db" "valid_config (def_config d)" "is_identifier (def_namespace d)"
  shows "rows_inv p (namespace_save d db)"
proof -
  have "is_identifier (nr_namespace r) \<and> (\<exists>c. valid_config c \<and> nr_config r = config_to_data c)"
    if "r \<in> set (db_namespaces (namespace_save d db))" for r
    using that unfolding namespace_save_def
    by simp (erule upsert_row_allI; use assms in \<open>auto simp: rows_inv_def namespace_row_of_def\<close>)
  moreover have "distinct (map namespace_row_key (db_namespaces (namespace_save d db)))"
    using assms(1) by (simp add: namespace_save_def rows_inv_def upsert_row_distinct namespace_row_key_def)
  ultimately show ?thesis
    using assms(1) by (simp add: rows_inv_def) (simp add: namespace_save_def keyed_def)
qed

lemma rows_inv_policy:
  assumes "rows_inv p db" "parse_condition p (policy_condition q) = ok (policy_condition q)"
  shows "rows_inv p (policy_upsert q db)"
proof -
  have "parse_condition p (pr_condition r) = ok (pr_condition r)"
    if "r \<in> set (db_policies (policy_upsert q db))" for r
    using that unfolding policy_upsert_def
    by simp (erule upsert_row_allI; use assms in \<open>auto simp: rows_inv_def policy_row_of_def\<close>)
  moreover have "distinct (map pr_id (db_policies (policy_upsert q db)))"
  proof -
    have "distinct (map pr_id (upsert_row pr_id (\<lambda>r. r\<lparr>pr_org := a, pr_effect := b, pr_resource_type := e,
         pr_action := f, pr_condition := g, pr_revision := n\<rparr>) row (db_policies db)))" for a b e f g n row
      using assms(1) by (intro upsert_row_distinct) (simp_all add: rows_inv_def)
    then show ?thesis by (simp add: policy_upsert_def)
  qed
  ultimately show ?thesis
    using assms(1) by (simp add: rows_inv_def) (simp add: policy_upsert_def keyed_def)
qed

lemma rows_inv_policy_delete: "rows_inv p db \<Longrightarrow> rows_inv p (snd (policy_delete org i db))"
  by (auto simp: rows_inv_def policy_delete_def keyed_def distinct_map_filter)

lemma contents_allocated [simp]: "contents (allocated_db db) = contents db"
  by (simp add: contents_def allocated_db_def)

lemma contents_other [simp]:
  "contents (namespace_save d db) = contents db" "contents (policy_upsert q db) = contents db"
  "db_changelog (logged op now c n db) = db_changelog db @ [change_row_of (recorded_change op now c n)]"
  "contents (snd (policy_delete org i db)) = contents db" "contents (logged op now c n db) = contents db"
  "db_changelog (namespace_save d db) = db_changelog db" "db_changelog (policy_upsert q db) = db_changelog db"
  "db_changelog (snd (policy_delete org i db)) = db_changelog db"
  "db_changelog (db\<lparr>db_sequence := k\<rparr>) = db_changelog db"
  by (simp_all add: contents_def namespace_save_def policy_upsert_def policy_delete_def logged_def)

lemma changelog_below_next:
  "revisions_inv db \<Longrightarrow> \<forall>r \<in> set (db_changelog db). cr_revision r < rev_value (next_revision db)"
  using changelog_bound[of db] by (auto simp: next_revision_def less_Suc_eq_le)

lemma store_inv_write:
  assumes "store_inv p db"
  shows "store_inv p (snd (writer_write now c db))"
proof (cases "command_writable c")
  case False
  with writer_write_rejected[of c now db] assms show ?thesis by (auto simp: store_inv_def)
next
  case True
  let ?n = "next_revision db" and ?t = "written_tuple now c (next_revision db)"
  let ?db = "store_upsert ?t (allocated_db db)"
  have inv: "revisions_inv db" "rows_inv p db" "contents db = replay (db_changelog db)"
    using assms by (auto simp: store_inv_def)
  have w: "writable_tuple ?t" using True by (simp add: writable_tuple_def written_tuple_def command_writable_def)
  have "revisions_inv ?db"
    by (intro revisions_inv_upsert revisions_inv_allocated inv) (simp add: written_tuple_def next_in_allocated)
  then have "revisions_inv (logged UpsertOp now c ?n ?db)"
    using changelog_below_next[OF inv(1)] next_in_allocated[of db]
    by (intro revisions_inv_logged) (auto simp: store_upsert_def)
  moreover have "rows_inv p (logged UpsertOp now c ?n ?db)"
    using True w inv(2) parse_encode_subject[of "cmd_subject c"]
    by (intro rows_inv_logged rows_inv_upsert) (simp_all add: command_writable_def)
  moreover have "contents (logged UpsertOp now c ?n ?db) = replay (db_changelog (logged UpsertOp now c ?n ?db))"
    using inv(3) by (simp add: drizzle_store.stored_upsert apply_change_def
        change_row_of_def recorded_change_def change_tuple_key_def tuple_key_of_def tuple_row_of_def
        tuple_row_key_def written_tuple_def)
  ultimately show ?thesis
    using True by (simp add: writer_write_ok[OF inv(1)] store_inv_def)
qed

lemma store_inv_revoke:
  assumes "store_inv p db"
  shows "store_inv p (snd (writer_revoke now c db))"
proof -
  let ?n = "next_revision db" and ?db = "snd (store_delete c (allocated_db db))"
  have inv: "revisions_inv db" "rows_inv p db" "contents db = replay (db_changelog db)"
    using assms by (auto simp: store_inv_def)
  have rev: "revisions_inv ?db" and rows: "rows_inv p ?db"
    using inv by (simp_all add: revisions_inv_delete revisions_inv_allocated rows_inv_delete)
  show ?thesis
  proof (cases "0 < fst (store_delete c (allocated_db db))")
    case True
    then have "contents db (command_key c) \<noteq> None"
      using drizzle_store.removed_iff[of c "allocated_db db"] by simp
    then obtain r where "r \<in> set (db_tuples db)" "tuple_row_key r = command_key c"
      by (auto simp: contents_def dest!: map_of_SomeD)
    moreover from this(1) inv(2) obtain t where "tuple_to_domain r = Inr t" by (auto simp: rows_inv_def)
    ultimately obtain s where s: "parse_subject (encode_subject (cmd_subject c)) = Inr s"
      by (cases "parse_subject (tr_subject r)") (auto simp: tuple_to_domain_def tuple_row_key_def command_key_def)
    have "revisions_inv (logged DeleteOp now c ?n ?db)"
      using changelog_below_next[OF inv(1)] next_in_allocated[of db] rev
      by (intro revisions_inv_logged) (auto simp: store_delete_def Let_def)
    moreover have "contents (logged DeleteOp now c ?n ?db) = replay (db_changelog (logged DeleteOp now c ?n ?db))"
      using inv(3) by (simp add: drizzle_store.stored_remove apply_change_def change_row_of_def
          recorded_change_def change_tuple_key_def command_key_def)
    ultimately show ?thesis
      using True rows rows_inv_logged[OF _ s]
      by (simp add: writer_revoke_eq[OF inv(1)] store_inv_def case_prod_unfold Let_def)
  next
    case False
    then have "contents ?db = replay (db_changelog ?db)"
      using drizzle_log.remove_unlogged[of "allocated_db db" c] inv(3) by simp
    with False rev rows show ?thesis
      by (simp add: writer_revoke_eq[OF inv(1)] store_inv_def case_prod_unfold Let_def)
  qed
qed

lemma store_inv_define:
  assumes "store_inv p db"
  shows "store_inv p (snd (writer_define now c db))"
proof (cases rule: writer_define_cases[of now c db])
  case (rejected e)
  with assms show ?thesis by simp
next
  case (defined config)
  with assms config_create_valid[of "define_config c" config] next_in_allocated[of db] show ?thesis
    by (auto simp: store_inv_def intro!: revisions_inv_namespace rows_inv_namespace revisions_inv_allocated)
qed

lemma store_inv_policy:
  assumes "store_inv p db"
  shows "store_inv p (snd (writer_policy p c db))"
proof (cases rule: writer_policy_cases[of p c db])
  case (rejected e)
  with assms show ?thesis by simp
next
  case written
  with assms next_in_allocated[of db] show ?thesis
    by (auto simp: store_inv_def intro!: revisions_inv_policy rows_inv_policy revisions_inv_allocated)
qed

lemma store_inv_policy_delete:
  "store_inv p db \<Longrightarrow> store_inv p (snd (writer_policy_delete org i db))"
  by (auto simp: store_inv_def writer_policy_delete_eq intro!: revisions_inv_policy_delete
      rows_inv_policy_delete revisions_inv_allocated)

lemma contents_empty [simp]: "contents empty_database = Map.empty"
  by (simp add: contents_def empty_database_def)

lemma store_inv_step: "store_inv p db \<Longrightarrow> store_step p db db' \<Longrightarrow> store_inv p db'"
  by (cases rule: store_step.cases)
    (auto intro: store_inv_write store_inv_revoke store_inv_define store_inv_policy store_inv_policy_delete)

lemma store_inv_empty: "store_inv p empty_database"
  by (simp add: store_inv_def revisions_inv_def rows_inv_def keyed_def replay_def)
    (simp add: empty_database_def)

lemma store_inv_reachable: "reachable p db \<Longrightarrow> store_inv p db"
  by (induction rule: reachable.induct) (auto intro: store_inv_empty store_inv_step)

lemma fold_max_greatest: "fold max xs (k :: nat) = Max (insert k (set xs))"
  using Max.set_eq_fold[of k xs] by simp

lemma current_revision_bound: "revisions_inv db \<Longrightarrow> rev_value (current_revision db) \<le> db_sequence db"
  by (auto simp: current_revision_def fold_max_greatest revisions_inv_def)

lemma current_revision_allocated:
  assumes "revisions_inv db" "db_revisions db' = db_revisions (allocated_db db)"
  shows "current_revision db' = next_revision db"
  using current_revision_bound[OF assms(1)] assms(2)
  by (simp add: current_revision_def next_revision_def allocated_db_def)

lemma current_revision_less: "revisions_inv db \<Longrightarrow> current_revision db < next_revision db"
  using current_revision_bound[of db] by (simp add: revision_less_iff next_revision_def)

section \<open>The changelog over time\<close>

inductive later :: "platform \<Rightarrow> database \<Rightarrow> database \<Rightarrow> bool" for p where
  now: "later p db db"
| then_step: "later p db db' \<Longrightarrow> store_step p db' db'' \<Longrightarrow> later p db db''"

lemma store_step_changelog:
  assumes "store_inv p db" "store_step p db db'"
  shows "\<exists>new. db_changelog db' = db_changelog db @ new \<and> (\<forall>r \<in> set new. db_sequence db < cr_revision r) \<and>
    db_sequence db \<le> db_sequence db'"
proof -
  have inv: "revisions_inv db" using assms(1) by (simp add: store_inv_def)
  show ?thesis
    using assms(2)
  proof cases
    case (write_tuple now c)
    show ?thesis
    proof (cases "command_writable c")
      case True
      with write_tuple show ?thesis
        by (simp add: writer_write_ok[OF inv])
          (simp add: logged_def change_row_of_def recorded_change_def next_revision_def store_upsert_def allocated_db_def)
    next
      case False
      with writer_write_rejected[of c now db] write_tuple show ?thesis by auto
    qed
  next
    case (revoke_tuple now c)
    then show ?thesis
      by (simp add: writer_revoke_eq[OF inv] case_prod_unfold Let_def)
        (simp add: logged_def change_row_of_def recorded_change_def next_revision_def store_delete_def allocated_db_def Let_def)
  next
    case (define_ns now d)
    then show ?thesis
      by (cases rule: writer_define_cases[of now d db])
        (simp_all add: namespace_save_def allocated_db_def)
  next
    case (write_policy w)
    then show ?thesis
      by (cases rule: writer_policy_cases[of p w db])
        (simp_all add: policy_upsert_def allocated_db_def)
  next
    case (delete_policy org i)
    then show ?thesis by (simp add: writer_policy_delete_eq policy_delete_def allocated_db_def)
  qed
qed

lemma later_changelog:
  "later p db db' \<Longrightarrow> store_inv p db \<Longrightarrow> store_inv p db' \<and>
   (\<exists>new. db_changelog db' = db_changelog db @ new \<and> (\<forall>r \<in> set new. db_sequence db < cr_revision r)) \<and>
   db_sequence db \<le> db_sequence db'"
proof (induction rule: later.induct)
  case (then_step db db' db'')
  from then_step.IH[OF then_step.prems] have inv: "store_inv p db'" and seq: "db_sequence db \<le> db_sequence db'"
    and "\<exists>new. db_changelog db' = db_changelog db @ new \<and> (\<forall>r \<in> set new. db_sequence db < cr_revision r)" by auto
  then obtain new where new: "db_changelog db' = db_changelog db @ new" "\<forall>r \<in> set new. db_sequence db < cr_revision r" by blast
  from store_step_changelog[OF inv then_step.hyps(2)] obtain more where more:
    "db_changelog db'' = db_changelog db' @ more" "\<forall>r \<in> set more. db_sequence db' < cr_revision r"
    "db_sequence db' \<le> db_sequence db''" by blast
  have "\<forall>r \<in> set (new @ more). db_sequence db < cr_revision r"
    using new(2) more(2) seq by (auto intro: le_less_trans)
  with store_inv_step[OF inv then_step.hyps(2)] new(1) more seq show ?case by auto
qed auto

lemma later_trans: "later p b c \<Longrightarrow> later p a b \<Longrightarrow> later p a c"
  by (induction rule: later.induct) (auto intro: later.then_step)

section \<open>The tables of the membership index\<close>

text \<open>
  The membership indexer writes three tables that no writer touches. \<open>core\<close> is what they leave of a
  database; a step of the indexer, whatever it does to them, keeps it.
\<close>

definition core :: "database \<Rightarrow> database" where
  "core db = db\<lparr>db_sets := [], db_members := [], db_cursors := []\<rparr>"

lemma core_fields:
  assumes "core db = core db'"
  shows "db_tuples db = db_tuples db'" "db_changelog db = db_changelog db'" "db_namespaces db = db_namespaces db'"
    "db_policies db = db_policies db'" "db_sequence db = db_sequence db'" "db_revisions db = db_revisions db'"
  using assms unfolding core_def by (cases db; cases db'; simp)+

lemma core_store_inv: "core db = core db' \<Longrightarrow> store_inv p db = store_inv p db'"
  by (simp add: store_inv_def revisions_inv_def rows_inv_def keyed_def contents_def core_fields[of db db'])


text \<open>The database as the service runs: administrative steps and steps of the indexer, in any order.\<close>

inductive follows :: "platform \<Rightarrow> database \<Rightarrow> database \<Rightarrow> bool" for p where
  follows_refl: "follows p db db"
| administered: "follows p a b \<Longrightarrow> store_step p b c \<Longrightarrow> follows p a c"
| reindexed: "follows p a b \<Longrightarrow> core c = core b \<Longrightarrow> follows p a c"

definition in_service :: "platform \<Rightarrow> database \<Rightarrow> bool" where
  "in_service p db \<longleftrightarrow> follows p empty_database db"

lemma later_follows: "later p a b \<Longrightarrow> follows p a b"
  by (induction rule: later.induct) (auto intro: follows.intros)

lemma reachable_in_service: "reachable p db \<Longrightarrow> in_service p db"
  unfolding in_service_def by (induction rule: reachable.induct) (auto intro: follows.intros)

lemma core_revision: "core a = core b \<Longrightarrow> current_revision a = current_revision b"
  by (simp add: current_revision_def core_fields[of a b])

lemma follows_changelog:
  "follows p a b \<Longrightarrow> store_inv p a \<Longrightarrow> store_inv p b \<and>
   (\<exists>new. db_changelog b = db_changelog a @ new \<and> (\<forall>r \<in> set new. db_sequence a < cr_revision r)) \<and>
   db_sequence a \<le> db_sequence b"
proof (induction rule: follows.induct)
  case (administered a b c)
  then have inv: "store_inv p b" by blast
  from later_changelog[OF later.then_step[OF later.now administered.hyps(2)] inv] administered
  obtain new more where "db_changelog b = db_changelog a @ new" "\<forall>r \<in> set new. db_sequence a < cr_revision r"
    "db_changelog c = db_changelog b @ more" "\<forall>r \<in> set more. db_sequence b < cr_revision r"
    "store_inv p c" "db_sequence a \<le> db_sequence b" "db_sequence b \<le> db_sequence c" by blast
  then show ?case by (auto intro: le_less_trans)
next
  case (reindexed a b c)
  with core_store_inv[OF reindexed.hyps(2), of p] core_fields(2,5)[OF reindexed.hyps(2)] show ?case by simp
qed simp

lemma in_service_inv: "in_service p db \<Longrightarrow> store_inv p db"
  unfolding in_service_def using follows_changelog store_inv_empty by blast

lemma in_service_follows: "in_service p a \<Longrightarrow> follows p a b \<Longrightarrow> in_service p b"
  unfolding in_service_def by (rotate_tac, induction rule: follows.induct) (auto intro: follows.intros)

text \<open>A tuple stays in the store until a later entry of the changelog deletes it.\<close>

lemma apply_changes_keep:
  "m k \<noteq> None \<Longrightarrow> (\<forall>r \<in> set rows. \<not> (change_tuple_key r = k \<and> cr_op r = DeleteOp)) \<Longrightarrow> foldl apply_change m rows k \<noteq> None"
proof (induction rows arbitrary: m)
  case (Cons r rows)
  from Cons.prems have "apply_change m r k \<noteq> None"
    by (cases "cr_op r") (auto simp: apply_change_def)
  from Cons.IH[of "apply_change m r", OF this] Cons.prems(2) show ?case by simp
qed simp

lemma stored_until_deleted:
  assumes "store_inv p a" "follows p a b" "contents a k \<noteq> None"
  shows "contents b k \<noteq> None \<or>
    (\<exists>r \<in> set (db_changelog b). change_tuple_key r = k \<and> cr_op r = DeleteOp \<and> db_sequence a < cr_revision r)"
proof -
  from follows_changelog[OF assms(2,1)] obtain new where new: "db_changelog b = db_changelog a @ new"
    "\<forall>r \<in> set new. db_sequence a < cr_revision r" and inv: "store_inv p b" by blast
  have "contents a = replay (db_changelog a)" "contents b = replay (db_changelog b)"
    using assms(1) inv by (simp_all add: store_inv_def)
  then have "contents b = foldl apply_change (contents a) new" by (simp add: new(1) replay_def)
  with apply_changes_keep[of "contents a" k new, OF assms(3)] new show ?thesis by auto
qed

section \<open>What a reader finds\<close>

lemma map_throws_total:
  "(\<And>x. x \<in> set xs \<Longrightarrow> \<exists>y. f x = Inr y) \<Longrightarrow> \<exists>ys. map_throws f xs = Inr ys"
  by (induction xs) (force split: sum.splits)+

lemma map_throws_set: "map_throws f xs = Inr ys \<Longrightarrow> y \<in> set ys \<longleftrightarrow> (\<exists>x \<in> set xs. f x = Inr y)"
proof (induction xs arbitrary: ys)
  case (Cons x xs)
  then show ?case by (cases "f x"; cases "map_throws f xs") auto
qed auto

lemma tuple_to_domain_ok:
  "tuple_to_domain r = Inr t \<Longrightarrow> tuple_row_of t = r \<and> tuple_org t = OrgId (tr_org r) \<and>
     tuple_object t = \<lparr>ref_type = tr_namespace r, ref_id = tr_object_id r\<rparr> \<and> tuple_relation t = tr_relation r"
  by (cases "parse_subject (tr_subject r)")
    (auto simp: tuple_to_domain_def tuple_row_of_def encode_parse_subject)

lemma list_by_object_contents:
  assumes "rows_inv p db"
  shows "\<exists>ts. list_by_object org ob rel db = Inr ts \<and> (\<forall>t \<in> set ts. writable_tuple t \<and> tuple_org t = org \<and>
      tuple_object t = ob \<and> tuple_relation t = rel) \<and>
    (\<forall>s. assert_writable_subject s = None \<longrightarrow>
      (s \<in> tuple_subject ` set ts \<longleftrightarrow>
       contents db (org_value org, ref_type ob, ref_id ob, rel, encode_subject s) \<noteq> None))"
proof -
  let ?rows = "filter (\<lambda>r. tr_org r = org_value org \<and> tr_namespace r = ref_type ob \<and>
       tr_object_id r = ref_id ob \<and> tr_relation r = rel) (db_tuples db)"
  have dom: "\<exists>t. tuple_to_domain r = Inr t \<and> writable_tuple t" if "r \<in> set ?rows" for r
    using that assms by (auto simp: rows_inv_def)
  then obtain ts where ts: "map_throws tuple_to_domain ?rows = Inr ts"
    using map_throws_total[of ?rows tuple_to_domain] by blast
  have mem: "t \<in> set ts \<longleftrightarrow> (\<exists>r \<in> set ?rows. tuple_to_domain r = Inr t)" for t
    by (rule map_throws_set[OF ts])
  have "\<forall>t \<in> set ts. writable_tuple t \<and> tuple_org t = org \<and> tuple_object t = ob \<and> tuple_relation t = rel"
  proof
    fix t
    assume "t \<in> set ts"
    then obtain r where r: "r \<in> set ?rows" "tuple_to_domain r = Inr t" using mem by blast
    from dom[OF r(1)] r tuple_to_domain_ok[OF r(2)]
    show "writable_tuple t \<and> tuple_org t = org \<and> tuple_object t = ob \<and> tuple_relation t = rel" by auto
  qed
  moreover have "s \<in> tuple_subject ` set ts \<longleftrightarrow>
      contents db (org_value org, ref_type ob, ref_id ob, rel, encode_subject s) \<noteq> None"
    if s: "assert_writable_subject s = None" for s
  proof -
    have "s \<in> tuple_subject ` set ts \<longleftrightarrow> (\<exists>r \<in> set ?rows. tr_subject r = encode_subject s)"
    proof
      assume "s \<in> tuple_subject ` set ts"
      then obtain r t where r: "r \<in> set ?rows" "tuple_to_domain r = Inr t" "s = tuple_subject t"
        using mem by blast
      from tuple_to_domain_ok[OF r(2)] have "tr_subject r = encode_subject s"
        by (metis r(3) tuple_row.select_convs(5) tuple_row_of_def)
      with r(1) show "\<exists>r \<in> set ?rows. tr_subject r = encode_subject s" by blast
    next
      assume "\<exists>r \<in> set ?rows. tr_subject r = encode_subject s"
      then obtain r where r: "r \<in> set ?rows" "tr_subject r = encode_subject s" by blast
      with dom[OF r(1)] parse_encode_subject[OF s] obtain t where "tuple_to_domain r = Inr t" "tuple_subject t = s"
        by (auto simp: tuple_to_domain_def)
      with r(1) mem show "s \<in> tuple_subject ` set ts" by blast
    qed
    also have "\<dots> \<longleftrightarrow> contents db (org_value org, ref_type ob, ref_id ob, rel, encode_subject s) \<noteq> None"
      by (force simp: contents_def map_of_eq_None_iff tuple_row_key_def image_iff)
    finally show ?thesis .
  qed
  ultimately show ?thesis using ts by (auto simp: list_by_object_def)
qed

lemma registry_of_valid:
  "(\<And>d. d \<in> set ds \<Longrightarrow> valid_config (def_config d)) \<Longrightarrow> valid_registry (registry_of ds)"
proof -
  have "snd ` set (foldl (\<lambda>m d. AList.update (def_namespace d) d m) m ds) \<subseteq> snd ` set m \<union> set ds" for m
    by (induction ds arbitrary: m) (auto dest!: update_values subsetD)
  from this[of "[]"] show "(\<And>d. d \<in> set ds \<Longrightarrow> valid_config (def_config d)) \<Longrightarrow> ?thesis"
    by (auto simp: valid_registry_def registry_all_def registry_of_def list_all_iff)
qed

lemma stored_config_valid:
  "rows_inv p db \<Longrightarrow> r \<in> set (db_namespaces db) \<Longrightarrow> valid_config (def_config (namespace_to_domain r))"
  by (auto simp: rows_inv_def namespace_to_domain_def config_from_to_data)

section \<open>Properties\<close>

definition sample_command :: tuple_command where
  "sample_command = \<lparr>cmd_org = sample_org, cmd_object = sample_ref ''doc'' ''a'',
     cmd_relation = ''viewer'', cmd_subject = Subject (sample_ref ''user'' ''ann'')\<rparr>"

lemma sample_command_writable: "command_writable sample_command"
  by code_simp

lemma reachable_write: "reachable p (snd (writer_write now c empty_database))"
  by (rule reachable.step[OF reachable.start store_step.write_tuple])

text \<open>C16: in every database the administrative operations can reach (tuple writes and revocations,
  namespace definitions, policy writes and deletions, in any order, failed ones included), replaying
  the changelog gives exactly the stored tuples with their revisions, and the changelog holds at most
  one entry per revision, in increasing order, none above the current revision.\<close>
theorem changelog_replays_store:
  assumes "reachable p db"
  shows "contents db = replay (db_changelog db) \<and> sorted_wrt (<) (map cr_revision (db_changelog db)) \<and>
    (\<forall>r \<in> set (db_changelog db). cr_revision r \<le> rev_value (current_revision db))"
  using store_inv_reachable[OF assms]
  by (auto simp: store_inv_def revisions_inv_def current_revision_def fold_max_greatest)

theorem changelog_replays_store_witness:
  "contents (snd (writer_write 0 sample_command empty_database)) =
   replay (db_changelog (snd (writer_write 0 sample_command empty_database)))"
  using changelog_replays_store[OF reachable_write[of plain_platform]] by blast

text \<open>A tuple write either throws, on a command that is not writable, and then changes nothing but
  the sequence, or returns a token newer than every revision so far, which is the current revision
  from then on, and the tuple is found by the reader of its object and relation.\<close>
theorem write_takes_effect:
  assumes "reachable p db" "writer_write now c db = (result, db')"
  shows "(case result of
      Inl e \<Rightarrow> \<not> command_writable c \<and> db' = db\<lparr>db_sequence := db_sequence db + 1\<rparr>
    | Inr token \<Rightarrow> command_writable c \<and> current_revision db < token_revision token \<and>
        current_revision db' = token_revision token \<and>
        (\<exists>ts. list_by_object (cmd_org c) (cmd_object c) (cmd_relation c) db' = Inr ts \<and>
           cmd_subject c \<in> tuple_subject ` set ts))"
proof (cases "command_writable c")
  case False
  with writer_write_rejected[OF this, of now db] assms(2) show ?thesis by auto
next
  case True
  have inv: "store_inv p db" by (rule store_inv_reachable[OF assms(1)])
  then have rev: "revisions_inv db" by (simp add: store_inv_def)
  let ?t = "written_tuple now c (next_revision db)"
  from assms(2) True have r: "result = Inr (ConsistencyToken (next_revision db))"
    and db': "db' = logged UpsertOp now c (next_revision db) (store_upsert ?t (allocated_db db))"
    by (simp_all add: writer_write_ok[OF rev])
  have "current_revision db' = next_revision db"
    by (rule current_revision_allocated[OF rev]) (simp add: db' logged_def store_upsert_def)
  moreover have "store_inv p db'"
    using store_inv_write[OF inv, of now c] assms(2) by simp
  moreover have "contents db' (org_value (cmd_org c), ref_type (cmd_object c), ref_id (cmd_object c),
      cmd_relation c, encode_subject (cmd_subject c)) \<noteq> None"
    by (simp add: db' drizzle_store.stored_upsert tuple_key_of_def tuple_row_of_def tuple_row_key_def written_tuple_def)
  ultimately show ?thesis
    using True current_revision_less[OF rev] list_by_object_contents[of p db' "cmd_org c" "cmd_object c" "cmd_relation c"]
    by (auto simp: r store_inv_def command_writable_def)
qed

theorem write_takes_effect_witness:
  "\<exists>token. fst (writer_write 0 sample_command empty_database) = Inr token \<and>
     current_revision empty_database < token_revision token"
proof -
  have "fst (writer_write 0 sample_command empty_database) = Inr (ConsistencyToken (Revision 1))"
    by code_simp
  then obtain db' where w: "writer_write 0 sample_command empty_database = (Inr (ConsistencyToken (Revision 1)), db')"
    by (cases "writer_write 0 sample_command empty_database") auto
  from write_takes_effect[OF reachable.start w] w show ?thesis by auto
qed

text \<open>Every namespace that a reachable database holds reads back as a configuration create
  accepts, so the registry of an organization is valid and the walks over it return.\<close>
theorem stored_namespaces_valid:
  assumes "reachable p db"
  shows "valid_registry (registry_of (list_namespaces_by_org org db)) \<and>
    (\<forall>d. find_by_namespace org namespace db = Some d \<longrightarrow>
       valid_config (def_config d) \<and> def_org d = org \<and> def_namespace d = namespace)"
proof -
  have inv: "rows_inv p db" using store_inv_reachable[OF assms] by (simp add: store_inv_def)
  have "valid_registry (registry_of (list_namespaces_by_org org db))"
    by (intro registry_of_valid) (auto simp: list_namespaces_by_org_def stored_config_valid[OF inv])
  moreover have "valid_config (def_config d) \<and> def_org d = org \<and> def_namespace d = namespace"
    if "find_by_namespace org namespace db = Some d" for d
    using that stored_config_valid[OF inv]
    by (auto simp: find_by_namespace_def namespace_to_domain_def dest!: find_SomeD)
  ultimately show ?thesis by blast
qed

theorem stored_namespaces_valid_witness:
  "valid_registry (registry_of (list_namespaces_by_org sample_org (snd (writer_write 0 sample_command empty_database))))"
  using stored_namespaces_valid[OF reachable_write[of plain_platform]] by blast

text \<open>The primary key of a policy is its id alone, so a policy write of one organization under
  an id that another organization uses takes the other's policy over: afterwards the other
  organization has no policy of that id, whatever it forbade, although the id is documented as
  unique within the organization.\<close>
theorem policy_write_takes_over:
  assumes "reachable p db" "wp_org c \<noteq> other"
    and "writer_policy p c db = (Inr (ok token), db')"
  shows "policy_id q = wp_id c \<longrightarrow> q \<notin> set (list_policies_by_org other db')"
proof -
  have "rows_inv p db" using store_inv_reachable[OF assms(1)] by (simp add: store_inv_def)
  then have dist: "distinct (map pr_id (db_policies (allocated_db db)))"
    by (simp add: rows_inv_def allocated_db_def)
  show ?thesis
  proof (cases rule: writer_policy_cases[of p c db])
    case (rejected e)
    with assms(3) show ?thesis by simp
  next
    case written
    define rs where "rs = db_policies (allocated_db db)"
    have "pr_org r \<noteq> org_value other"
      if "r \<in> set (db_policies db')" "pr_id r = wp_id c" for r
    proof -
      from written assms(3) have "db_policies db' = upsert_row pr_id
          (\<lambda>r. r\<lparr>pr_org := org_value (wp_org c), pr_effect := wp_effect c, pr_resource_type := wp_resource_type c,
            pr_action := wp_action c, pr_condition := wp_condition c, pr_revision := rev_value (next_revision db)\<rparr>)
          (policy_row_of \<lparr>policy_id = wp_id c, policy_org = wp_org c, policy_effect = wp_effect c,
            policy_resource_type = wp_resource_type c, policy_action = wp_action c,
            policy_condition = wp_condition c, policy_revision = next_revision db\<rparr>) rs"
        by (auto simp: policy_upsert_def rs_def)
      with that dist[folded rs_def] assms(2) show ?thesis
        by (auto simp: upsert_row_set policy_row_of_def org_id.expand split: if_splits)
    qed
    then show ?thesis by (auto simp: list_policies_by_org_def policy_to_domain_def)
  qed
qed

definition sample_policy_command :: "org_id \<Rightarrow> policy_effect \<Rightarrow> write_policy_command" where
  "sample_policy_command org e = \<lparr>wp_org = org, wp_id = ''p1'', wp_effect = e, wp_resource_type = ''doc'',
     wp_action = ''read'', wp_condition = Cmp Ge (Attr PrincipalAal) (Lit (LNum 0))\<rparr>"

definition sample_policy_db :: database where
  "sample_policy_db = snd (writer_policy plain_platform (sample_policy_command sample_org ForbidPolicy) empty_database)"

theorem policy_write_takes_over_witness:
  "list_policies_by_org sample_org sample_policy_db \<noteq> [] \<and>
   (\<exists>token db'. writer_policy plain_platform (sample_policy_command (OrgId ''rival'') PermitPolicy) sample_policy_db =
      (Inr (ok token), db') \<and>
      filter (\<lambda>q. policy_id q = ''p1'') (list_policies_by_org sample_org db') = [])"
proof -
  have r: "reachable plain_platform sample_policy_db"
    unfolding sample_policy_db_def by (rule reachable.step[OF reachable.start store_step.write_policy])
  have "fst (writer_policy plain_platform (sample_policy_command (OrgId ''rival'') PermitPolicy) sample_policy_db) =
      Inr (ok (ConsistencyToken (Revision 2)))"
    by code_simp
  then obtain db' where w: "writer_policy plain_platform (sample_policy_command (OrgId ''rival'') PermitPolicy)
      sample_policy_db = (Inr (ok (ConsistencyToken (Revision 2))), db')"
    by (metis prod.collapse)
  have ne: "wp_org (sample_policy_command (OrgId ''rival'') PermitPolicy) \<noteq> sample_org"
    by (simp add: sample_policy_command_def sample_org_def)
  have "filter (\<lambda>q. policy_id q = ''p1'') (list_policies_by_org sample_org db') = []"
    using policy_write_takes_over[OF r ne w] by (auto simp: sample_policy_command_def filter_empty_conv)
  moreover have "list_policies_by_org sample_org sample_policy_db \<noteq> []" by code_simp
  ultimately show ?thesis using w by blast
qed

end
