(* ===== verification/Pdp.thy ===== *)
theory Pdp
  imports Writers
begin

text \<open>
  The policy decision point, \<open>authz/application/pdp-service.ts\<close>, over the store of theory Store,
  with the readers of the membership index (\<open>drizzle-membership-index.ts\<close>) and the decision cache
  (\<open>redis-decision-cache.ts\<close>). A read-only repeatable-read transaction sees one database. The
  closures inside \<open>loadClosure\<close> become the record \<open>closure_env\<close>, the variables they share the
  record \<open>closure\<close>. \<open>None\<close> is a call that returns nothing: it throws or does not end.
\<close>

section \<open>Requests\<close>

record principal =
  principal_subject :: entity_ref
  principal_org :: "string option"
  assurance_level :: rat
  session_id :: string
  authenticated_at :: "date option"

datatype consistency = FullConsistency | AtLeast string

record request_context =
  request_ip :: string
  request_id :: string
  requested_at :: date
  request_consistency :: consistency

text \<open>\<open>principal.orgId ? ... : null\<close>: the empty string counts as absent.\<close>

definition org_of :: "principal \<Rightarrow> org_id option" where
  "org_of pr = (case principal_org pr of
     None \<Rightarrow> None | Some s \<Rightarrow> if s = [] then None else Some (OrgId s))"

section \<open>Readers of the membership index\<close>

record membership_set_ref =
  set_object :: entity_ref
  set_relation :: string

record membership_hit =
  hit_set :: membership_set_ref
  hit_depth :: nat
  hit_valid_at :: revision

record membership_reader =
  reader_memberships_of :: "org_id \<Rightarrow> entity_ref \<Rightarrow> database \<Rightarrow> membership_hit list"
  reader_organization_version :: "org_id \<Rightarrow> database \<Rightarrow> revision"

text \<open>\<open>NoopMembershipIndexReader\<close>: no hits, \<open>Revision.fromValue(Number.MAX_SAFE_INTEGER)\<close>.\<close>

definition no_hits :: "org_id \<Rightarrow> entity_ref \<Rightarrow> database \<Rightarrow> membership_hit list" where
  "no_hits org member db = []"

definition newest_version :: "org_id \<Rightarrow> database \<Rightarrow> revision" where
  "newest_version org db = Revision (nat max_safe_integer)"

definition noop_reader :: membership_reader where
  "noop_reader = \<lparr>reader_memberships_of = no_hits, reader_organization_version = newest_version\<rparr>"

definition same_set :: "member_row \<Rightarrow> set_row \<Rightarrow> bool" where
  "same_set m s \<longleftrightarrow> sr_org s = mr_org m \<and> sr_type s = mr_set_type m \<and> sr_id s = mr_set_id m \<and>
     sr_relation s = mr_set_relation m"

definition memberships_of :: "org_id \<Rightarrow> entity_ref \<Rightarrow> database \<Rightarrow> membership_hit list" where
  "memberships_of org member db =
     concat (map (\<lambda>m. map (\<lambda>s. \<lparr>hit_set = \<lparr>set_object = \<lparr>ref_type = mr_set_type m, ref_id = mr_set_id m\<rparr>,
           set_relation = mr_set_relation m\<rparr>, hit_depth = mr_depth m, hit_valid_at = Revision (sr_valid_at s)\<rparr>)
         (filter (same_set m) (db_sets db)))
       (filter (\<lambda>m. mr_org m = org_value org \<and> mr_member_type m = ref_type member \<and>
          mr_member_id m = ref_id member) (db_members db)))"

definition organization_version :: "org_id \<Rightarrow> database \<Rightarrow> revision" where
  "organization_version org db = Revision (max
     (fold max (map cr_revision (filter (\<lambda>r. cr_org r = org_value org) (db_changelog db))) 0)
     (fold max (map nr_revision (filter (\<lambda>r. nr_org r = org_value org) (db_namespaces db))) 0))"

definition drizzle_reader :: membership_reader where
  "drizzle_reader = \<lparr>reader_memberships_of = memberships_of,
     reader_organization_version = organization_version\<rparr>"

section \<open>The closure of a query\<close>

record evaluation_caches =
  cached_namespaces :: "(string \<times> namespace_definition option) list"
  cached_tuples :: "(string \<times> relation_tuple list) list"
  cached_memberships :: "(string \<times> indexed_memberships) list"

text \<open>\<open>openContext\<close>: the revision read first in the transaction, and empty caches.\<close>

definition open_context :: "database \<Rightarrow> revision \<times> evaluation_caches" where
  "open_context db = (current_revision db,
     \<lparr>cached_namespaces = [], cached_tuples = [], cached_memberships = []\<rparr>)"

text \<open>The repositories as one organization's transaction sees them.\<close>

record closure_env =
  env_org :: org_id
  env_member :: "entity_ref option"
  env_find_namespace :: "string \<Rightarrow> namespace_definition option"
  env_list_by_object :: "entity_ref \<Rightarrow> string \<Rightarrow> relation_tuple list throws"
  env_memberships_of :: "entity_ref \<Rightarrow> membership_hit list"
  env_organization_version :: "unit \<Rightarrow> revision"

definition namespace_in :: "database \<Rightarrow> org_id \<Rightarrow> string \<Rightarrow> namespace_definition option" where
  "namespace_in db org type = find_by_namespace org type db"

definition tuples_in :: "database \<Rightarrow> org_id \<Rightarrow> entity_ref \<Rightarrow> string \<Rightarrow> relation_tuple list throws" where
  "tuples_in db org object relation = list_by_object org object relation db"

definition memberships_in :: "membership_reader \<Rightarrow> database \<Rightarrow> org_id \<Rightarrow> entity_ref \<Rightarrow> membership_hit list" where
  "memberships_in reader db org member = reader_memberships_of reader org member db"

definition version_in :: "membership_reader \<Rightarrow> database \<Rightarrow> org_id \<Rightarrow> unit \<Rightarrow> revision" where
  "version_in reader db org u = reader_organization_version reader org db"

definition env_of :: "membership_reader \<Rightarrow> database \<Rightarrow> org_id \<Rightarrow> entity_ref option \<Rightarrow> closure_env" where
  "env_of reader db org member = \<lparr>env_org = org, env_member = member,
     env_find_namespace = namespace_in db org, env_list_by_object = tuples_in db org,
     env_memberships_of = memberships_in reader db org,
     env_organization_version = version_in reader db org\<rparr>"

record closure =
  cl_caches :: evaluation_caches
  cl_local :: "(string \<times> relation_tuple list) list"
  cl_walked :: "string set"
  cl_reached :: "(string \<times> namespace_definition) list"
  cl_memberships :: "indexed_memberships option"

definition cached_namespace :: "closure_env \<Rightarrow> string \<Rightarrow> evaluation_caches \<Rightarrow>
    namespace_definition option \<times> evaluation_caches" where
  "cached_namespace env type caches =
     (let key = org_value (env_org env) @ '':'' @ type in
      case map_of (cached_namespaces caches) key of
        Some cached \<Rightarrow> (cached, caches)
      | None \<Rightarrow>
          (let namespace = env_find_namespace env type in
           (namespace, caches\<lparr>cached_namespaces := AList.update key namespace (cached_namespaces caches)\<rparr>)))"

definition indexed_memberships_for :: "closure_env \<Rightarrow> entity_ref \<Rightarrow> evaluation_caches \<Rightarrow>
    indexed_memberships \<times> evaluation_caches" where
  "indexed_memberships_for env member caches =
     (let key = org_value (env_org env) @ '':'' @ format_entity_ref member in
      case map_of (cached_memberships caches) key of
        Some cached \<Rightarrow> (cached, caches)
      | None \<Rightarrow>
          (let hits = env_memberships_of env member;
               view = (if hits \<noteq> []
                 then indexed_memberships_of member
                   (map (\<lambda>h. \<lparr>im_object = set_object (hit_set h), im_relation = set_relation (hit_set h),
                        im_depth = hit_depth h\<rparr>)
                     (filter (\<lambda>h. is_at_least (hit_valid_at h) (env_organization_version env ())) hits))
                 else no_memberships) in
           (view, caches\<lparr>cached_memberships := AList.update key view (cached_memberships caches)\<rparr>)))"

definition indexed_grant :: "closure_env \<Rightarrow> entity_ref \<Rightarrow> string \<Rightarrow> nat \<Rightarrow> closure \<Rightarrow> bool \<times> closure" where
  "indexed_grant env userset_object relation depth cl =
     (case env_member env of
        None \<Rightarrow> (False, cl)
      | Some member \<Rightarrow>
          (let (memberships, cl') =
             (case cl_memberships cl of
                Some ms \<Rightarrow> (ms, cl)
              | None \<Rightarrow>
                  (let (ms, caches) = indexed_memberships_for env member (cl_caches cl) in
                   (ms, cl\<lparr>cl_caches := caches, cl_memberships := Some ms\<rparr>))) in
           (case depth_of memberships userset_object relation member of
              None \<Rightarrow> False | Some indexed \<Rightarrow> depth + indexed \<le> max_userset_depth, cl')))"

definition namespace_of :: "closure_env \<Rightarrow> string \<Rightarrow> closure \<Rightarrow> namespace_definition option \<times> closure" where
  "namespace_of env type cl =
     (let (namespace, caches) = cached_namespace env type (cl_caches cl); cl' = cl\<lparr>cl_caches := caches\<rparr> in
      case namespace of
        Some d \<Rightarrow> (Some d, cl'\<lparr>cl_reached := AList.update type d (cl_reached cl')\<rparr>)
      | None \<Rightarrow> (None, cl'))"

definition rows_of :: "closure_env \<Rightarrow> entity_ref \<Rightarrow> string \<Rightarrow> closure \<Rightarrow> (relation_tuple list \<times> closure) option" where
  "rows_of env object relation cl =
     (let node = node_key object relation in
      case map_of (cl_local cl) node of
        Some hit \<Rightarrow> Some (hit, cl)
      | None \<Rightarrow>
          (let key = org_value (env_org env) @ '':'' @ node in
           case map_of (cached_tuples (cl_caches cl)) key of
             Some loaded \<Rightarrow> Some (loaded, cl\<lparr>cl_local := AList.update node loaded (cl_local cl)\<rparr>)
           | None \<Rightarrow>
               (case env_list_by_object env object relation of
                  Inl e \<Rightarrow> None
                | Inr loaded \<Rightarrow> Some (loaded, cl\<lparr>
                    cl_caches := (cl_caches cl)\<lparr>cached_tuples :=
                      AList.update key loaded (cached_tuples (cl_caches cl))\<rparr>,
                    cl_local := AList.update node loaded (cl_local cl)\<rparr>))))"

text \<open>\<open>for (const x of xs) await f(x)\<close>\<close>

fun each :: "('a \<Rightarrow> 's \<Rightarrow> 's option) \<Rightarrow> 'a list \<Rightarrow> 's \<Rightarrow> 's option" where
  "each f [] s = Some s"
| "each f (x # xs) s = Option.bind (f x s) (\<lambda>s'. each f xs s')"

lemma each_cong [fundef_cong]:
  "xs = ys \<Longrightarrow> s = t \<Longrightarrow> (\<And>x v. x \<in> set ys \<Longrightarrow> f x v = g x v) \<Longrightarrow> each f xs s = each g ys t"
proof (induction xs arbitrary: ys s t)
  case (Cons x xs)
  then show ?case by (cases "g x t") auto
qed simp

fun walk_rewrite :: "(entity_ref \<Rightarrow> string \<Rightarrow> nat \<Rightarrow> closure \<Rightarrow> closure option) \<Rightarrow> closure_env \<Rightarrow>
    entity_ref \<Rightarrow> userset \<Rightarrow> relation_tuple list \<Rightarrow> nat \<Rightarrow> closure \<Rightarrow> closure option" where
  "walk_rewrite walk env object This node depth cl =
     each (\<lambda>t cl. case tuple_subject t of
         Subject _ \<Rightarrow> Some cl
       | UsersetSubject ref relation \<Rightarrow>
           (let (granted, cl') = indexed_grant env ref relation (depth + 1) cl in
            if granted then Some cl' else walk ref relation (depth + 1) cl')) node cl"
| "walk_rewrite walk env object (ComputedUserset relation) node depth cl = walk object relation depth cl"
| "walk_rewrite walk env object (TupleToUserset tupleset computed) node depth cl =
     Option.bind (rows_of env object tupleset cl) (\<lambda>(rows, cl').
       each (\<lambda>t cl. case tuple_subject t of
           Subject ref \<Rightarrow> walk ref computed (depth + 1) cl
         | UsersetSubject _ _ \<Rightarrow> Some cl) rows cl')"
| "walk_rewrite walk env object (Union children) node depth cl =
     each (\<lambda>child cl. walk_rewrite walk env object child node depth cl) children cl"
| "walk_rewrite walk env object (Intersection children) node depth cl =
     each (\<lambda>child cl. walk_rewrite walk env object child node depth cl) children cl"
| "walk_rewrite walk env object (Exclusion base sub) node depth cl =
     Option.bind (walk_rewrite walk env object base node depth cl)
       (\<lambda>cl'. walk_rewrite walk env object sub node depth cl')"

lemma each_mono_on:
  "(\<And>x s. x \<in> set xs \<Longrightarrow> mono_option (\<lambda>f. B f x s)) \<Longrightarrow> mono_option (\<lambda>f. each (\<lambda>x s. B f x s) xs s)"
proof (induction xs arbitrary: s)
  case Nil
  show ?case by (simp add: option.const_mono)
next
  case (Cons x xs)
  have "mono_option (\<lambda>f. B f x s)" "\<And>s. mono_option (\<lambda>f. each (\<lambda>x s. B f x s) xs s)"
    using Cons by simp_all
  then show ?case
    unfolding each.simps by (intro run_mono)
qed

lemma walk_rewrite_mono [partial_function_mono]:
  assumes "\<And>object relation depth cl. mono_option (\<lambda>f. D f object relation depth cl)"
  shows "mono_option (\<lambda>f. walk_rewrite (D f) env object u node depth cl)"
proof (induction u arbitrary: cl)
  case This
  show ?case unfolding walk_rewrite.simps case_prod_unfold by (intro each_mono_on run_mono assms)
next
  case (ComputedUserset r)
  show ?case by (simp add: assms)
next
  case (TupleToUserset ts cu)
  show ?case unfolding walk_rewrite.simps case_prod_unfold by (intro each_mono_on run_mono assms)
next
  case (Union children)
  then show ?case by (simp, intro each_mono_on)
next
  case (Intersection children)
  then show ?case by (simp, intro each_mono_on)
next
  case (Exclusion base sub)
  show ?case unfolding walk_rewrite.simps by (intro run_mono Exclusion.IH)
qed

partial_function (option) closure_walk ::
  "closure_env \<Rightarrow> entity_ref \<Rightarrow> string \<Rightarrow> nat \<Rightarrow> closure \<Rightarrow> closure option" where
  "closure_walk env object relation depth cl =
     (let key = node_key object relation in
      if key \<in> cl_walked cl \<or> depth > max_userset_depth then Some cl
      else Option.bind (rows_of env object relation (cl\<lparr>cl_walked := insert key (cl_walked cl)\<rparr>)) (\<lambda>p.
        let n = namespace_of env (ref_type object) (snd p);
            rewrite = (case fst n of
              Some d \<Rightarrow> config_rewrites_for (def_config d) relation | None \<Rightarrow> direct_userset) in
        walk_rewrite (closure_walk env) env object rewrite (fst p) depth (snd n)))"

declare closure_walk.simps [code]

definition load_closure :: "closure_env \<Rightarrow> entity_ref \<Rightarrow> string list \<Rightarrow> evaluation_caches \<Rightarrow>
    (snapshot \<times> evaluation_caches) option" where
  "load_closure env resource relations caches =
     (let cl = snd (namespace_of env (ref_type resource)
        \<lparr>cl_caches = caches, cl_local = [], cl_walked = {}, cl_reached = [], cl_memberships = None\<rparr>) in
      Option.bind (each (\<lambda>relation cl. closure_walk env resource relation 0 cl) relations cl) (\<lambda>cl.
        Some (\<lparr>snap_namespaces = registry_of (map snd (cl_reached cl)),
               snap_tuples = tuple_index_of (env_org env) (concat (map snd (cl_local cl))),
               snap_memberships = cl_memberships cl\<rparr>, cl_caches cl)))"

section \<open>Preparing and evaluating a request\<close>

record prepared_ok =
  prep_rebac :: decision
  prep_applicable :: "policy list"
  prep_policy_context :: evaluation_context
  prep_target :: boundary_target
  prep_subject :: entity_ref
  prep_revision :: revision

datatype prepared = PreparedDeny decision revision | PreparedOk prepared_ok

definition no_org_context :: decision where
  "no_org_context = deny [plain_reason ''no_org_context'' ''The principal is not scoped to an organization.'']"

definition consistency_unavailable :: decision where
  "consistency_unavailable = deny [plain_reason ''consistency_unavailable''
     ''The store has not caught up to the requested consistency token.'']"

definition required_revision :: "platform \<Rightarrow> consistency \<Rightarrow> revision option throws" where
  "required_revision p c =
     (case c of FullConsistency \<Rightarrow> Inr None
      | AtLeast token \<Rightarrow> map_sum id (\<lambda>t. Some (token_revision t)) (token_decode p token))"

definition prepare :: "platform \<Rightarrow> membership_reader \<Rightarrow> database \<Rightarrow> date \<Rightarrow> principal \<Rightarrow> action \<Rightarrow>
    entity_ref \<Rightarrow> request_context \<Rightarrow> revision \<times> evaluation_caches \<Rightarrow> (prepared \<times> evaluation_caches) option" where
  "prepare p reader db now pr act resource request context =
     (let (revision_used, caches) = context in
      case org_of pr of
        None \<Rightarrow> Some (PreparedDeny no_org_context (Revision 0), caches)
      | Some org \<Rightarrow>
          (case required_revision p (request_consistency request) of
             Inl e \<Rightarrow> None
           | Inr required \<Rightarrow>
               if (case required of None \<Rightarrow> False | Some r \<Rightarrow> \<not> is_at_least revision_used r)
               then Some (PreparedDeny consistency_unavailable revision_used, caches)
               else
                 (let env = env_of reader db org (Some (principal_subject pr));
                      (namespace, caches1) = cached_namespace env (ref_type resource) caches;
                      relations = (case namespace of
                        Some d \<Rightarrow> required_relations_for d act | None \<Rightarrow> []) in
                  Option.bind (load_closure env resource relations caches1) (\<lambda>(snap, caches2).
                    Option.bind (evaluate \<lparr>query_org = org, query_subject = principal_subject pr,
                        query_action = act, query_resource = resource\<rparr> snap) (\<lambda>rebac.
                      Some (PreparedOk \<lparr>prep_rebac = rebac,
                        prep_applicable = list_by_target org (ref_type resource) (action_verb act) db,
                        prep_policy_context = \<lparr>ctx_aal = assurance_level pr, ctx_auth_time = authenticated_at pr, ctx_ip = request_ip request, ctx_now = now\<rparr>,
                        prep_target = \<lparr>target_type = ref_type resource, target_action = action_verb act\<rparr>,
                        prep_subject = principal_subject pr,
                        prep_revision = revision_used\<rparr>, caches2))))))"

record evaluation_result =
  result_decision :: decision
  result_revision :: revision
  result_cacheable :: bool

definition evaluate_within :: "platform \<Rightarrow> membership_reader \<Rightarrow> database \<Rightarrow> date \<Rightarrow> principal \<Rightarrow> action \<Rightarrow>
    entity_ref \<Rightarrow> request_context \<Rightarrow> revision \<times> evaluation_caches \<Rightarrow> (evaluation_result \<times> evaluation_caches) option" where
  "evaluate_within p reader db now pr act resource request context =
     Option.bind (prepare p reader db now pr act resource request context) (\<lambda>(prepared, caches').
       case prepared of
         PreparedDeny d r \<Rightarrow> Some (\<lparr>result_decision = d, result_revision = r, result_cacheable = False\<rparr>, caches')
       | PreparedOk prep \<Rightarrow>
           (let decided = decide p (prep_rebac prep) (prep_applicable prep) (prep_policy_context prep) in
            Some (\<lparr>result_decision = apply_bounds decided (prep_target prep) (prep_subject prep) unbounded,
                   result_revision = prep_revision prep,
                   result_cacheable = (prep_applicable prep = [])\<rparr>, caches')))"

section \<open>The decision cache\<close>

record decision_cache_key =
  key_org :: org_id
  key_subject :: string
  key_action :: string
  key_resource :: string
  key_revision :: revision

record cached_value =
  cv_effect :: effect
  cv_reasons :: "reason list"
  cv_revision :: nat

text \<open>
  The Redis keyspace as far as the cache uses it. The digest (SHA-256, base64url) is a parameter; a
  failing Redis reads as a miss and drops a write, and expiry only removes entries.
\<close>

type_synonym redis_cache = "string \<Rightarrow> cached_value option"

definition redis_key :: "(string \<Rightarrow> string) \<Rightarrow> string \<Rightarrow> decision_cache_key \<Rightarrow> string" where
  "redis_key digest pre key =
     pre @ '':'' @ org_value (key_org key) @ '':'' @ digits (rev_value (key_revision key)) @ '':'' @
     digest (key_subject key @ [CHR 0x1F] @ key_action key @ [CHR 0x1F] @ key_resource key)"

definition redis_get :: "(string \<Rightarrow> string) \<Rightarrow> string \<Rightarrow> bool \<Rightarrow> decision_cache_key \<Rightarrow> redis_cache \<Rightarrow> decision option" where
  "redis_get digest pre available key redis =
     (if \<not> available then None
      else case redis (redis_key digest pre key) of
        None \<Rightarrow> None
      | Some v \<Rightarrow>
          if cv_revision v \<noteq> rev_value (key_revision key) then None
          else Some \<lparr>decision_effect = cv_effect v, decision_reasons = cv_reasons v\<rparr>)"

definition redis_set :: "(string \<Rightarrow> string) \<Rightarrow> string \<Rightarrow> bool \<Rightarrow> decision_cache_key \<Rightarrow> decision \<Rightarrow> redis_cache \<Rightarrow> redis_cache" where
  "redis_set digest pre available key d redis =
     (if \<not> available then redis
      else redis(redis_key digest pre key \<mapsto>
        \<lparr>cv_effect = decision_effect d, cv_reasons = decision_reasons d, cv_revision = rev_value (key_revision key)\<rparr>))"

record 'c decision_cache =
  cache_get :: "decision_cache_key \<Rightarrow> 'c \<Rightarrow> decision option"
  cache_set :: "decision_cache_key \<Rightarrow> decision \<Rightarrow> 'c \<Rightarrow> 'c"

definition redis_decision_cache :: "(string \<Rightarrow> string) \<Rightarrow> string \<Rightarrow> bool \<Rightarrow> redis_cache decision_cache" where
  "redis_decision_cache digest pre available =
     \<lparr>cache_get = redis_get digest pre available, cache_set = redis_set digest pre available\<rparr>"

definition noop_decision_cache :: "unit decision_cache" where
  "noop_decision_cache = \<lparr>cache_get = (\<lambda>key c. None), cache_set = (\<lambda>key d c. c)\<rparr>"

definition cache_key_for :: "org_id \<Rightarrow> principal \<Rightarrow> action \<Rightarrow> entity_ref \<Rightarrow> request_context \<Rightarrow> revision \<Rightarrow>
    decision_cache_key option" where
  "cache_key_for org pr act resource request revision =
     (if request_consistency request \<noteq> FullConsistency then None
      else Some \<lparr>key_org = org, key_subject = format_entity_ref (principal_subject pr),
        key_action = action_name act, key_resource = format_entity_ref resource, key_revision = revision\<rparr>)"

section \<open>The operations\<close>

record decision_log_record =
  rec_id :: string
  rec_org :: "org_id option"
  rec_subject :: string
  rec_action :: string
  rec_resource :: string
  rec_effect :: effect
  rec_reasons :: "reason list"
  rec_revision_used :: revision
  rec_latency :: int
  rec_created :: date

text \<open>The record of \<open>log\<close>; the id is a fresh random UUID.\<close>

definition log_record_of :: "string \<Rightarrow> date \<Rightarrow> date \<Rightarrow> org_id option \<Rightarrow> principal \<Rightarrow> action \<Rightarrow> entity_ref \<Rightarrow>
    evaluation_result \<Rightarrow> decision_log_record" where
  "log_record_of uuid started_at finished_at org pr act resource result =
     \<lparr>rec_id = uuid, rec_org = org, rec_subject = format_entity_ref (principal_subject pr),
      rec_action = action_name act, rec_resource = format_entity_ref resource,
      rec_effect = decision_effect (result_decision result), rec_reasons = decision_reasons (result_decision result),
      rec_revision_used = result_revision result, rec_latency = max 0 (finished_at - started_at),
      rec_created = finished_at\<rparr>"

text \<open>
  \<open>check\<close>: \<open>before\<close> is the database when the current revision is read for the cache key,
  \<open>db\<close> the one the transaction sees. The record of the result is written in theory DecisionLog.
\<close>

definition check :: "platform \<Rightarrow> membership_reader \<Rightarrow> 'c decision_cache \<Rightarrow> database \<Rightarrow> database \<Rightarrow> date \<Rightarrow>
    principal \<Rightarrow> action \<Rightarrow> entity_ref \<Rightarrow> request_context \<Rightarrow> 'c \<Rightarrow> (evaluation_result \<times> 'c) option" where
  "check p reader cache before db now pr act resource request c =
     (let key = Option.bind (org_of pr) (\<lambda>org.
            cache_key_for org pr act resource request (current_revision before)) in
      case Option.bind key (\<lambda>k. cache_get cache k c) of
        Some cached \<Rightarrow> Some (\<lparr>result_decision = cached, result_revision = key_revision (the key),
                               result_cacheable = True\<rparr>, c)
      | None \<Rightarrow>
          Option.bind (evaluate_within p reader db now pr act resource request (open_context db)) (\<lambda>(result, _).
            Some (result,
              case key of
                Some k \<Rightarrow> if result_cacheable result
                  then cache_set cache (k\<lparr>key_revision := result_revision result\<rparr>) (result_decision result) c
                  else c
              | None \<Rightarrow> c)))"

record batch_request =
  br_principal :: principal
  br_action :: action
  br_resource :: entity_ref
  br_context :: request_context

definition batch_key :: "database \<Rightarrow> batch_request \<Rightarrow> decision_cache_key option" where
  "batch_key before r = Option.bind (org_of (br_principal r)) (\<lambda>org.
     cache_key_for org (br_principal r) (br_action r) (br_resource r) (br_context r) (current_revision before))"

definition batch_lookup :: "'c decision_cache \<Rightarrow> database \<Rightarrow> 'c \<Rightarrow> batch_request \<Rightarrow> evaluation_result option" where
  "batch_lookup cache before c r =
     (case batch_key before r of
        None \<Rightarrow> None
      | Some k \<Rightarrow> map_option (\<lambda>d. \<lparr>result_decision = d, result_revision = key_revision k, result_cacheable = True\<rparr>)
          (cache_get cache k c))"

text \<open>The loop over the misses threads the shared caches of the transaction.\<close>

fun batch_evaluate :: "platform \<Rightarrow> membership_reader \<Rightarrow> database \<Rightarrow> date \<Rightarrow>
    (batch_request \<times> evaluation_result option) list \<Rightarrow> revision \<times> evaluation_caches \<Rightarrow>
    (batch_request \<times> evaluation_result) list option" where
  "batch_evaluate p reader db now [] context = Some []"
| "batch_evaluate p reader db now ((r, Some hit) # slots) context =
     Option.bind (batch_evaluate p reader db now slots context) (\<lambda>rest. Some ((r, hit) # rest))"
| "batch_evaluate p reader db now ((r, None) # slots) context =
     Option.bind (evaluate_within p reader db now (br_principal r) (br_action r) (br_resource r)
         (br_context r) context) (\<lambda>(result, caches').
       Option.bind (batch_evaluate p reader db now slots (fst context, caches')) (\<lambda>rest. Some ((r, result) # rest)))"

definition batch_store :: "'c decision_cache \<Rightarrow> database \<Rightarrow>
    (batch_request \<times> evaluation_result option) list \<Rightarrow> (batch_request \<times> evaluation_result) list \<Rightarrow> 'c \<Rightarrow> 'c" where
  "batch_store cache before slots results c =
     foldl (\<lambda>c ((r, hit), (_, result)).
       case (hit, batch_key before r) of
         (None, Some k) \<Rightarrow> if result_cacheable result
           then cache_set cache (k\<lparr>key_revision := result_revision result\<rparr>) (result_decision result) c else c
       | _ \<Rightarrow> c) c (zip slots results)"

definition batch_check :: "platform \<Rightarrow> membership_reader \<Rightarrow> 'c decision_cache \<Rightarrow> database \<Rightarrow> database \<Rightarrow>
    date \<Rightarrow> batch_request list \<Rightarrow> 'c \<Rightarrow> (evaluation_result list \<times> 'c) option" where
  "batch_check p reader cache before db now requests c =
     (if requests = [] then Some ([], c)
      else let slots = map (\<lambda>r. (r, batch_lookup cache before c r)) requests in
        Option.bind (batch_evaluate p reader db now slots (open_context db)) (\<lambda>results.
          Some (map snd results, batch_store cache before slots results c)))"

definition pdp_expand :: "membership_reader \<Rightarrow> database \<Rightarrow> principal \<Rightarrow> entity_ref \<Rightarrow> string \<Rightarrow> entity_ref list option" where
  "pdp_expand reader db pr resource relation =
     (case org_of pr of
        None \<Rightarrow> Some []
      | Some org \<Rightarrow>
          Option.bind (load_closure (env_of reader db org None) resource [relation] (snd (open_context db)))
            (\<lambda>(snap, _). expand org resource relation snap))"

record simulation_result =
  sim_decision :: decision
  sim_live :: decision
  sim_changed :: bool

definition simulate :: "platform \<Rightarrow> membership_reader \<Rightarrow> database \<Rightarrow> date \<Rightarrow> principal \<Rightarrow> action \<Rightarrow> entity_ref \<Rightarrow>
    request_context \<Rightarrow> policy list option \<Rightarrow> simulation_result option" where
  "simulate p reader db now pr act resource request overlay =
     Option.bind (prepare p reader db now pr act resource request (open_context db)) (\<lambda>(prepared, _).
       case prepared of
         PreparedDeny d r \<Rightarrow> Some \<lparr>sim_decision = d, sim_live = d, sim_changed = False\<rparr>
       | PreparedOk prep \<Rightarrow>
           (let resolve = (\<lambda>policies. apply_bounds
                  (decide p (prep_rebac prep) policies (prep_policy_context prep))
                  (prep_target prep) (prep_subject prep) unbounded);
                live = resolve (prep_applicable prep);
                overlay_policies = (case overlay of
                  Some ps \<Rightarrow> filter (\<lambda>q. policy_resource_type q = target_type (prep_target prep) \<and>
                    (policy_action q = target_action (prep_target prep) \<or> policy_action q = any_action)) ps
                | None \<Rightarrow> prep_applicable prep);
                proposed = resolve overlay_policies in
            Some \<lparr>sim_decision = proposed, sim_live = live,
                  sim_changed = (decision_effect proposed \<noteq> decision_effect live)\<rparr>))"

end
