(* ===== verification/Decisions.thy ===== *)
theory Decisions
  imports Pdp
begin

text \<open>
  What the decision point guarantees: which rows a decision reads, what a consistency token buys,
  what a simulation without an overlay returns, what the decision cache may answer, and where the
  loaded closure is too small for the evaluation that follows. Histories have steps of the writers and
  of the membership indexer; of the latter only that it leaves the other tables alone (\<open>core\<close>).
\<close>

section \<open>One organization's rows\<close>

definition org_rows :: "org_id \<Rightarrow> database \<Rightarrow>
    tuple_row list \<times> namespace_row list \<times> policy_row list \<times> set_row list \<times> member_row list \<times> change_row list" where
  "org_rows org db =
     (filter (\<lambda>r. tr_org r = org_value org) (db_tuples db),
      filter (\<lambda>r. nr_org r = org_value org) (db_namespaces db),
      filter (\<lambda>r. pr_org r = org_value org) (db_policies db),
      filter (\<lambda>r. sr_org r = org_value org) (db_sets db),
      filter (\<lambda>r. mr_org r = org_value org) (db_members db),
      filter (\<lambda>r. cr_org r = org_value org) (db_changelog db))"

lemma filter_through:
  "filter P xs = filter P ys \<Longrightarrow> (\<And>x. Q x \<Longrightarrow> P x) \<Longrightarrow> filter Q xs = filter Q ys"
proof -
  assume eq: "filter P xs = filter P ys" and QP: "\<And>x. Q x \<Longrightarrow> P x"
  have "filter Q zs = filter Q (filter P zs)" for zs
    using QP by (induction zs) auto
  with eq show "filter Q xs = filter Q ys" by metis
qed

lemma find_filter: "find Q xs = (case filter Q xs of [] \<Rightarrow> None | x # _ \<Rightarrow> Some x)"
  by (induction xs) auto

lemma list_by_object_org:
  assumes "org_rows org db = org_rows org db'"
  shows "list_by_object org object relation db = list_by_object org object relation db'"
proof -
  from assms have "filter (\<lambda>r. tr_org r = org_value org) (db_tuples db) = filter (\<lambda>r. tr_org r = org_value org) (db_tuples db')"
    by (simp add: org_rows_def)
  from filter_through[OF this, of "\<lambda>r. tr_org r = org_value org \<and> tr_namespace r = ref_type object \<and>
       tr_object_id r = ref_id object \<and> tr_relation r = relation"]
  show ?thesis by (simp add: list_by_object_def)
qed

lemma find_by_namespace_org:
  assumes "org_rows org db = org_rows org db'"
  shows "find_by_namespace org n db = find_by_namespace org n db'"
proof -
  from assms have "filter (\<lambda>r. nr_org r = org_value org) (db_namespaces db) = filter (\<lambda>r. nr_org r = org_value org) (db_namespaces db')"
    by (simp add: org_rows_def)
  from filter_through[OF this, of "\<lambda>r. nr_org r = org_value org \<and> nr_namespace r = n"]
  show ?thesis by (simp add: find_by_namespace_def find_filter)
qed

lemma list_by_target_org:
  assumes "org_rows org db = org_rows org db'"
  shows "list_by_target org t a db = list_by_target org t a db'"
proof -
  from assms have "filter (\<lambda>r. pr_org r = org_value org) (db_policies db) = filter (\<lambda>r. pr_org r = org_value org) (db_policies db')"
    by (simp add: org_rows_def)
  from filter_through[OF this, of "\<lambda>r. pr_org r = org_value org \<and> pr_resource_type r = t \<and>
       pr_action r \<in> {a, any_action}"]
  show ?thesis by (simp add: list_by_target_def)
qed

lemma drizzle_reader_org:
  assumes "org_rows org db = org_rows org db'"
  shows "memberships_of org m db = memberships_of org m db'"
    "organization_version org db = organization_version org db'"
proof -
  from assms have s: "filter (\<lambda>r. sr_org r = org_value org) (db_sets db) = filter (\<lambda>r. sr_org r = org_value org) (db_sets db')"
    and m: "filter (\<lambda>r. mr_org r = org_value org) (db_members db) = filter (\<lambda>r. mr_org r = org_value org) (db_members db')"
    by (simp_all add: org_rows_def)
  have sets: "filter (same_set r) (db_sets db) = filter (same_set r) (db_sets db')" if "mr_org r = org_value org" for r
    by (rule filter_through[OF s]) (simp add: same_set_def that)
  have members: "filter (\<lambda>r. mr_org r = org_value org \<and> mr_member_type r = ref_type m \<and> mr_member_id r = ref_id m) (db_members db) =
      filter (\<lambda>r. mr_org r = org_value org \<and> mr_member_type r = ref_type m \<and> mr_member_id r = ref_id m) (db_members db')"
    by (rule filter_through[OF m]) simp
  show "memberships_of org m db = memberships_of org m db'"
    unfolding memberships_of_def members
    by (intro arg_cong[where f = concat] map_cong refl) (simp add: sets)
  show "organization_version org db = organization_version org db'"
    using assms by (simp add: organization_version_def org_rows_def)
qed

definition reads_own_rows :: "membership_reader \<Rightarrow> bool" where
  "reads_own_rows reader \<longleftrightarrow> (\<forall>org db db'. org_rows org db = org_rows org db' \<longrightarrow>
     (\<forall>m. reader_memberships_of reader org m db = reader_memberships_of reader org m db') \<and>
     reader_organization_version reader org db = reader_organization_version reader org db')"

lemma readers_read_own_rows: "reads_own_rows drizzle_reader" "reads_own_rows noop_reader"
  unfolding reads_own_rows_def drizzle_reader_def noop_reader_def membership_reader.simps no_hits_def newest_version_def
  by (blast dest: drizzle_reader_org, blast)

lemma env_of_org:
  assumes "reads_own_rows reader" "org_rows org db = org_rows org db'"
  shows "env_of reader db org member = env_of reader db' org member"
proof -
  have "reader_memberships_of reader org m db = reader_memberships_of reader org m db'"
    "reader_organization_version reader org db = reader_organization_version reader org db'" for m
    using assms unfolding reads_own_rows_def by blast+
  then have "namespace_in db org = namespace_in db' org" "tuples_in db org = tuples_in db' org"
    "memberships_in reader db org = memberships_in reader db' org"
    "version_in reader db org = version_in reader db' org"
    by (simp_all only: fun_eq_iff version_in_def namespace_in_def tuples_in_def memberships_in_def simp_thms
        list_by_object_org[OF assms(2)] find_by_namespace_org[OF assms(2)])
  then show ?thesis unfolding env_of_def by simp
qed

lemma org_rows_other_write:
  assumes "store_inv p db" "cmd_org c \<noteq> org"
  shows "org_rows org (snd (writer_write now c db)) = org_rows org db"
proof -
  have ne: "org_value (cmd_org c) \<noteq> org_value org" using assms(2) by (metis org_id.expand)
  have up: "filter (\<lambda>r. tr_org r = org_value org) (upsert_row tuple_row_key ch row rs) =
      filter (\<lambda>r. tr_org r = org_value org) rs"
    if "tr_org row \<noteq> org_value org" "\<And>r. tr_org (ch r) = tr_org r" for ch row rs
    using that by (induction rs) (auto simp: tuple_row_key_def)
  show ?thesis
  proof (cases "command_writable c")
    case True
    have "revisions_inv db" using assms(1) by (simp add: store_inv_def)
    with True ne show ?thesis
      by (simp add: writer_write_ok org_rows_def logged_def store_upsert_def allocated_db_def up
          tuple_row_of_def written_tuple_def change_row_of_def recorded_change_def)
  next
    case False
    with writer_write_rejected[of c now db] show ?thesis by (auto simp: org_rows_def)
  qed
qed

lemma upsert_row_filtered:
  "\<not> P row \<Longrightarrow> (\<And>r. P (ch r) = P r) \<Longrightarrow> (\<And>r. key r = key row \<Longrightarrow> \<not> P r) \<Longrightarrow>
   filter P (upsert_row key ch row rs) = filter P rs"
  by (induction rs) auto

lemma org_rows_other_revoke:
  assumes "store_inv p db" "cmd_org c \<noteq> org"
  shows "org_rows org (snd (writer_revoke now c db)) = org_rows org db"
proof -
  have ne: "org_value (cmd_org c) \<noteq> org_value org" using assms(2) by (metis org_id.expand)
  have "filter (\<lambda>r. tr_org r = org_value org) (filter (\<lambda>r. tuple_row_key r \<noteq> command_key c) rs) =
      filter (\<lambda>r. tr_org r = org_value org) rs" for rs
    using ne by (induction rs) (auto simp: tuple_row_key_def command_key_def)
  moreover have "revisions_inv db" using assms(1) by (simp add: store_inv_def)
  ultimately show ?thesis using ne
    by (simp add: writer_revoke_eq org_rows_def logged_def store_delete_def allocated_db_def Let_def
        change_row_of_def recorded_change_def)
qed

lemma org_rows_other_define:
  assumes "store_inv p db" "define_org d \<noteq> org"
  shows "org_rows org (snd (writer_define now d db)) = org_rows org db"
proof -
  have ne: "org_value (define_org d) \<noteq> org_value org" using assms(2) by (metis org_id.expand)
  show ?thesis
  proof (cases rule: writer_define_cases[of now d db])
    case (defined config)
    have "filter (\<lambda>r. nr_org r = org_value org) (db_namespaces (snd (writer_define now d db))) =
        filter (\<lambda>r. nr_org r = org_value org) (db_namespaces db)"
      using ne unfolding defined(3)
      by (simp add: namespace_save_def allocated_db_def)
        (subst upsert_row_filtered, auto simp: namespace_row_of_def namespace_row_key_def)
    then show ?thesis
      by (simp add: defined(3) org_rows_def) (simp add: namespace_save_def allocated_db_def)
  qed simp
qed

lemma org_rows_other_policy:
  "org_rows org ((snd (writer_policy p c db))\<lparr>db_policies := filter (\<lambda>r. pr_id r \<noteq> wp_id c) (db_policies (snd (writer_policy p c db)))\<rparr>) =
   org_rows org (db\<lparr>db_policies := filter (\<lambda>r. pr_id r \<noteq> wp_id c) (db_policies db)\<rparr>)"
proof (cases rule: writer_policy_cases[of p c db])
  case written
  have kept: "filter (\<lambda>r. pr_id r \<noteq> wp_id c) (db_policies (snd (writer_policy p c db))) =
      filter (\<lambda>r. pr_id r \<noteq> wp_id c) (db_policies db)"
    by (simp add: written(2) policy_upsert_def allocated_db_def) (rule upsert_row_filtered, simp_all add: policy_row_of_def)
  show ?thesis unfolding kept unfolding written(2) by (simp add: org_rows_def policy_upsert_def allocated_db_def)
qed simp

lemma org_rows_other_policy_delete:
  "other \<noteq> org \<Longrightarrow> org_rows other (snd (writer_policy_delete org i db)) = org_rows other db"
  by (auto simp: writer_policy_delete_eq policy_delete_def org_rows_def allocated_db_def org_id.expand intro!: filter_cong)

text \<open>A policy write of another organization under an id that the organization does not use.\<close>

lemma org_rows_foreign_policy:
  assumes "wp_org w \<noteq> org" "\<forall>r \<in> set (db_policies db). pr_id r = wp_id w \<longrightarrow> pr_org r \<noteq> org_value org"
  shows "org_rows org (snd (writer_policy p w db)) = org_rows org db"
proof (cases rule: writer_policy_cases[of p w db])
  case written
  have ne: "org_value (wp_org w) \<noteq> org_value org" using assms(1) by (metis org_id.expand)
  have up: "filter (\<lambda>r. pr_org r = org_value org) (upsert_row key ch row rs) = filter (\<lambda>r. pr_org r = org_value org) rs"
    if "pr_org row \<noteq> org_value org" "\<forall>r. pr_org (ch r) \<noteq> org_value org"
      "\<forall>r \<in> set rs. key r = key row \<longrightarrow> pr_org r \<noteq> org_value org" for key :: "policy_row \<Rightarrow> string" and ch row rs
    using that by (induction rs) auto
  have "filter (\<lambda>r. pr_org r = org_value org) (db_policies (snd (writer_policy p w db))) =
      filter (\<lambda>r. pr_org r = org_value org) (db_policies db)"
    unfolding written(2) snd_conv policy_upsert_def
    by (simp add: allocated_db_def) (rule up, insert ne assms(2), simp_all add: policy_row_of_def)
  then show ?thesis by (simp add: org_rows_def written(2)) (simp add: policy_upsert_def allocated_db_def)
qed simp

text \<open>
  A step that is none of the organization's own: another organization writes or revokes a relation
  tuple, defines a namespace, or writes or deletes a policy (a policy write must not name an id of the
  organization's policies: the id alone is the key of a policy), or the indexer leaves the
  organization's rows of its tables alone.
\<close>

inductive foreign_step :: "platform \<Rightarrow> org_id \<Rightarrow> database \<Rightarrow> database \<Rightarrow> bool" for q org db where
  foreign_write: "cmd_org c \<noteq> org \<Longrightarrow> foreign_step q org db (snd (writer_write t c db))"
| foreign_revoke: "cmd_org c \<noteq> org \<Longrightarrow> foreign_step q org db (snd (writer_revoke t c db))"
| foreign_define: "define_org d \<noteq> org \<Longrightarrow> foreign_step q org db (snd (writer_define t d db))"
| foreign_policy: "wp_org w \<noteq> org \<Longrightarrow> \<forall>r \<in> set (db_policies db). pr_id r = wp_id w \<longrightarrow> pr_org r \<noteq> org_value org \<Longrightarrow>
    foreign_step q org db (snd (writer_policy q w db))"
| foreign_delete: "other \<noteq> org \<Longrightarrow> foreign_step q org db (snd (writer_policy_delete other i db))"
| foreign_index: "core db' = core db \<Longrightarrow> org_rows org db' = org_rows org db \<Longrightarrow> foreign_step q org db db'"

lemma foreign_step_rows: "foreign_step q org db db' \<Longrightarrow> store_inv q db \<Longrightarrow> org_rows org db' = org_rows org db"
  by (cases rule: foreign_step.cases)
    (auto intro: org_rows_other_write org_rows_other_revoke org_rows_other_define org_rows_foreign_policy
      org_rows_other_policy_delete)

lemma foreign_step_follows: "foreign_step q org db db' \<Longrightarrow> follows q db db'"
  by (cases rule: foreign_step.cases)
    (auto intro: follows.intros store_step.intros)

section \<open>The decision, without and with the cache\<close>

definition decided :: "platform \<Rightarrow> membership_reader \<Rightarrow> database \<Rightarrow> date \<Rightarrow> principal \<Rightarrow> action \<Rightarrow> entity_ref \<Rightarrow>
    request_context \<Rightarrow> evaluation_result option" where
  "decided p reader db now pr act resource request =
     map_option fst (evaluate_within p reader db now pr act resource request (open_context db))"

lemma prepare_full:
  assumes "org_of pr = Some org" "request_consistency request = FullConsistency"
  shows "prepare p reader db now pr act resource request (open_context db) =
    (let env = env_of reader db org (Some (principal_subject pr));
         (namespace, caches1) = cached_namespace env (ref_type resource) (snd (open_context db));
         relations = (case namespace of Some d \<Rightarrow> required_relations_for d act | None \<Rightarrow> []) in
     Option.bind (load_closure env resource relations caches1) (\<lambda>(snap, caches2).
       Option.bind (evaluate \<lparr>query_org = org, query_subject = principal_subject pr,
           query_action = act, query_resource = resource\<rparr> snap) (\<lambda>rebac.
         Some (PreparedOk \<lparr>prep_rebac = rebac,
           prep_applicable = list_by_target org (ref_type resource) (action_verb act) db,
           prep_policy_context = \<lparr>ctx_aal = assurance_level pr, ctx_auth_time = authenticated_at pr, ctx_ip = request_ip request, ctx_now = now\<rparr>,
           prep_target = \<lparr>target_type = ref_type resource, target_action = action_verb act\<rparr>,
           prep_subject = principal_subject pr,
           prep_revision = current_revision db\<rparr>, caches2))))"
  using assms by (simp add: prepare_def required_revision_def open_context_def)

text \<open>The relationship part of a decision, as a function of the organization and the query.\<close>

definition rebac_of :: "membership_reader \<Rightarrow> database \<Rightarrow> org_id \<Rightarrow> entity_ref \<Rightarrow> action \<Rightarrow> entity_ref \<Rightarrow> decision option" where
  "rebac_of reader db org subject act resource =
    (let env = env_of reader db org (Some subject);
         (namespace, caches1) = cached_namespace env (ref_type resource) (snd (open_context db));
         relations = (case namespace of Some d \<Rightarrow> required_relations_for d act | None \<Rightarrow> []) in
     Option.bind (load_closure env resource relations caches1) (\<lambda>(snap, caches2).
       evaluate \<lparr>query_org = org, query_subject = subject, query_action = act, query_resource = resource\<rparr> snap))"

lemma decided_full:
  assumes "org_of pr = Some org" "request_consistency request = FullConsistency"
  shows "decided p reader db now pr act resource request =
    map_option (\<lambda>rebac. \<lparr>result_decision = decide p rebac (list_by_target org (ref_type resource) (action_verb act) db)
        \<lparr>ctx_aal = assurance_level pr, ctx_auth_time = authenticated_at pr, ctx_ip = request_ip request, ctx_now = now\<rparr>,
      result_revision = current_revision db,
      result_cacheable = (list_by_target org (ref_type resource) (action_verb act) db = [])\<rparr>)
     (rebac_of reader db org (principal_subject pr) act resource)"
  by (auto simp: decided_def evaluate_within_def prepare_full[OF assms] rebac_of_def Let_def case_prod_unfold
      bind_map_option split: bind_splits option.splits)

lemma rebac_of_org:
  assumes "reads_own_rows reader" "org_rows org db = org_rows org db'"
  shows "rebac_of reader db org subject act resource = rebac_of reader db' org subject act resource"
  unfolding rebac_of_def env_of_org[OF assms] by (simp add: open_context_def)

section \<open>The interface of the decision cache\<close>

text \<open>
  What a client may rely on: a value read is one that some earlier write stored under a key with the
  same identity, where the identity is what the cache distinguishes. Entries may vanish.
\<close>

locale decision_cache_laws =
  fixes cache :: "'c decision_cache" and ident :: "decision_cache_key \<Rightarrow> 'i"
  assumes get_set: "cache_get cache k (cache_set cache k' d c) = Some e \<Longrightarrow>
    (ident k = ident k' \<and> e = d) \<or> cache_get cache k c = Some e"
begin

definition holds_only :: "('i \<Rightarrow> decision \<Rightarrow> bool) \<Rightarrow> 'c \<Rightarrow> bool" where
  "holds_only P c \<longleftrightarrow> (\<forall>k d. cache_get cache k c = Some d \<longrightarrow> P (ident k) d)"

lemma holds_only_set: "holds_only P c \<Longrightarrow> P (ident k) d \<Longrightarrow> holds_only P (cache_set cache k d c)"
  unfolding holds_only_def by (metis get_set)

lemma holds_only_get: "holds_only P c \<Longrightarrow> cache_get cache k c = Some d \<Longrightarrow> P (ident k) d"
  unfolding holds_only_def by blast

end

interpretation noop_cache: decision_cache_laws noop_decision_cache "\<lambda>k. k"
  by unfold_locales (simp add: noop_decision_cache_def)

interpretation redis_cache: decision_cache_laws "redis_decision_cache digest pre available" "redis_key digest pre"
  for digest pre available
  by unfold_locales
    (auto simp: redis_decision_cache_def redis_get_def redis_set_def split: if_splits option.splits)

text \<open>A key that the request itself determines: no separator inside a part.\<close>

definition clean_request :: "principal \<Rightarrow> action \<Rightarrow> entity_ref \<Rightarrow> bool" where
  "clean_request pr act resource \<longleftrightarrow>
     CHR '':'' \<notin> set (ref_type (principal_subject pr)) \<and> CHR '':'' \<notin> set (ref_type resource) \<and>
     is_identifier (action_namespace act) \<and> is_identifier (action_verb act) \<and>
     CHR 0x1F \<notin> set (format_entity_ref (principal_subject pr)) \<and>
     CHR '':'' \<notin> set (the (principal_org pr))"

lemma format_entity_ref_inj:
  assumes "CHR '':'' \<notin> set (ref_type a)" "CHR '':'' \<notin> set (ref_type b)"
    and "format_entity_ref a = format_entity_ref b"
  shows "a = b"
proof -
  have "ref_type a = ref_type b \<and> ref_id a = ref_id b"
    by (rule sep_append_eq[OF assms(1,2)]) (use assms(3) in \<open>simp add: format_entity_ref_def\<close>)
  then show ?thesis by simp
qed

lemma action_name_inj:
  assumes "is_identifier (action_namespace a)" "is_identifier (action_verb a)"
    "is_identifier (action_namespace b)" "is_identifier (action_verb b)" "action_name a = action_name b"
  shows "a = b"
proof -
  from action_create_name[OF assms(1,2)] action_create_name[OF assms(3,4)] assms(5)
  have "Inr a = (Inr b :: (action, action_error) result)" by metis
  then show ?thesis by simp
qed

lemma action_name_clean:
  assumes "is_identifier (action_namespace a)" "is_identifier (action_verb a)"
  shows "CHR 0x1F \<notin> set (action_name a)"
proof -
  have "\<not> is_identifier_char (CHR 0x1F)"
    by (simp add: is_identifier_char_def is_letter_def is_digit_def)
  then show ?thesis using assms by (auto simp: action_name_def dest: is_identifier_chars)
qed

lemma digits_clean: "CHR '':'' \<notin> set (digits n)"
proof -
  have "\<not> is_digit (CHR '':'')" by (simp add: is_digit_def)
  with digits_are_digits[of n] show ?thesis by (auto simp: list_all_iff)
qed

definition key_of_request :: "org_id \<Rightarrow> principal \<Rightarrow> action \<Rightarrow> entity_ref \<Rightarrow> revision \<Rightarrow> decision_cache_key" where
  "key_of_request org pr act resource r = \<lparr>key_org = org, key_subject = format_entity_ref (principal_subject pr),
     key_action = action_name act, key_resource = format_entity_ref resource, key_revision = r\<rparr>"

text \<open>The text the key's digest is taken of.\<close>

definition request_text :: "principal \<times> action \<times> entity_ref \<Rightarrow> string" where
  "request_text q = (case q of (pr, act, resource) \<Rightarrow>
     format_entity_ref (principal_subject pr) @ [CHR 0x1F] @ action_name act @ [CHR 0x1F] @ format_entity_ref resource)"

lemma request_text_inj:
  assumes "clean_request pr act resource" "clean_request pr' act' resource'"
    and "request_text (pr, act, resource) = request_text (pr', act', resource')"
  shows "principal_subject pr = principal_subject pr' \<and> act = act' \<and> resource = resource'"
proof -
  have whole: "format_entity_ref (principal_subject pr) @ CHR 0x1F # action_name act @ CHR 0x1F # format_entity_ref resource =
      format_entity_ref (principal_subject pr') @ CHR 0x1F # action_name act' @ CHR 0x1F # format_entity_ref resource'"
    using assms(3) by (simp add: request_text_def)
  have subject: "format_entity_ref (principal_subject pr) = format_entity_ref (principal_subject pr')"
    and rest: "action_name act @ CHR 0x1F # format_entity_ref resource = action_name act' @ CHR 0x1F # format_entity_ref resource'"
    using sep_append_eq[OF _ _ whole] assms(1,2) by (simp_all add: clean_request_def)
  have "action_name act = action_name act' \<and> format_entity_ref resource = format_entity_ref resource'"
    using sep_append_eq[OF _ _ rest] assms(1,2) by (simp add: clean_request_def action_name_clean)
  with subject assms(1,2) format_entity_ref_inj action_name_inj show ?thesis
    unfolding clean_request_def by metis
qed

definition identifies :: "(decision_cache_key \<Rightarrow> 'i) \<Rightarrow> (principal \<times> action \<times> entity_ref) set \<Rightarrow> bool" where
  "identifies ident asked \<longleftrightarrow> (\<forall>pr act resource pr' act' resource' org org' r r'.
     (pr, act, resource) \<in> asked \<longrightarrow> (pr', act', resource') \<in> asked \<longrightarrow>
     org_of pr = Some org \<longrightarrow> org_of pr' = Some org' \<longrightarrow>
     ident (key_of_request org pr act resource r) = ident (key_of_request org' pr' act' resource' r') \<longrightarrow>
     org = org' \<and> r = r' \<and> principal_subject pr = principal_subject pr' \<and> act = act' \<and> resource = resource')"

lemma org_of_clean:
  "clean_request pr act resource \<Longrightarrow> org_of pr = Some org \<Longrightarrow> CHR '':'' \<notin> set (org_value org)"
  by (auto simp: clean_request_def org_of_def split: option.splits if_splits)

lemma redis_key_identifies:
  assumes "\<And>pr act resource. (pr, act, resource) \<in> asked \<Longrightarrow> clean_request pr act resource"
    and "inj_on digest (request_text ` asked)"
  shows "identifies (redis_key digest pre) asked"
  unfolding identifies_def
proof (intro allI impI)
  fix pr act resource pr' act' resource' org org' r r'
  assume asked: "(pr, act, resource) \<in> asked" "(pr', act', resource') \<in> asked"
    and orgs: "org_of pr = Some org" "org_of pr' = Some org'"
    and "redis_key digest pre (key_of_request org pr act resource r) =
      redis_key digest pre (key_of_request org' pr' act' resource' r')"
  then have key: "org_value org @ CHR '':'' # digits (rev_value r) @ CHR '':'' # digest (request_text (pr, act, resource)) =
      org_value org' @ CHR '':'' # digits (rev_value r') @ CHR '':'' # digest (request_text (pr', act', resource'))"
    by (simp add: redis_key_def key_of_request_def request_text_def)
  note clean = assms(1)[OF asked(1)] assms(1)[OF asked(2)]
  note parts = sep_append_eq[OF org_of_clean[OF clean(1) orgs(1)] org_of_clean[OF clean(2) orgs(2)] key]
  note rest = sep_append_eq[OF digits_clean digits_clean parts[THEN conjunct2]]
  have "rev_value r = rev_value r'" using rest by (metis dec_value_digits)
  moreover have "request_text (pr, act, resource) = request_text (pr', act', resource')"
    using inj_onD[OF assms(2) rest[THEN conjunct2]] asked by blast
  ultimately show "org = org' \<and> r = r' \<and> principal_subject pr = principal_subject pr' \<and> act = act' \<and> resource = resource'"
    using parts request_text_inj[OF clean] by (metis org_id.expand revision.expand)
qed

section \<open>Runs of writes and cached checks\<close>

text \<open>
  A history of databases, newest first, and the cache. Between two checks the writers write and the
  membership indexer replaces its tables; whatever it stores there is a step of the history. A check
  may read the cache key's revision from another database than the one its transaction sees.
\<close>

inductive cached_run :: "platform \<Rightarrow> membership_reader \<Rightarrow> 'c decision_cache \<Rightarrow>
    (principal \<times> action \<times> entity_ref) set \<Rightarrow> 'c \<Rightarrow> database list \<Rightarrow> 'c \<Rightarrow> bool"
  for p reader cache asked c0 where
  begins: "in_service p db \<Longrightarrow> cached_run p reader cache asked c0 [db] c0"
| written: "cached_run p reader cache asked c0 (db # hist) c \<Longrightarrow> store_step p db db' \<Longrightarrow>
    cached_run p reader cache asked c0 (db' # db # hist) c"
| indexed: "cached_run p reader cache asked c0 (db # hist) c \<Longrightarrow> core db' = core db \<Longrightarrow>
    cached_run p reader cache asked c0 (db' # db # hist) c"
| checked: "cached_run p reader cache asked c0 hist c \<Longrightarrow> before \<in> set hist \<Longrightarrow> db \<in> set hist \<Longrightarrow>
    (pr, act, resource) \<in> asked \<Longrightarrow>
    check p reader cache before db now pr act resource request c = Some (r, c') \<Longrightarrow>
    cached_run p reader cache asked c0 hist c'"

text \<open>
  The same contents, up to the tables of the membership index and the sequence: a rejected write still
  draws a number of it.
\<close>

definition same_tables :: "database \<Rightarrow> database \<Rightarrow> bool" where
  "same_tables a b \<longleftrightarrow> (core a)\<lparr>db_sequence := 0\<rparr> = (core b)\<lparr>db_sequence := 0\<rparr>"

definition newer :: "database \<Rightarrow> database \<Rightarrow> bool" where
  "newer a b \<longleftrightarrow> same_tables a b \<or> current_revision b < current_revision a"

lemma same_tables_refl [simp]: "same_tables a a" "same_tables (a\<lparr>db_sequence := n\<rparr>) a"
  by (simp_all add: same_tables_def core_def)

lemma same_tables_core: "core a = core b \<Longrightarrow> same_tables a b"
  by (simp add: same_tables_def)

lemma same_tables_sym: "same_tables a b \<Longrightarrow> same_tables b a"
  by (simp add: same_tables_def)

lemma same_tables_fields:
  assumes "same_tables a b"
  shows "db_tuples a = db_tuples b" "db_changelog a = db_changelog b" "db_namespaces a = db_namespaces b"
    "db_policies a = db_policies b" "db_revisions a = db_revisions b"
  using assms unfolding same_tables_def core_def by (cases a; cases b; simp)+

lemma same_tables_revision: "same_tables a b \<Longrightarrow> current_revision a = current_revision b"
  by (simp add: current_revision_def same_tables_fields)

lemma same_tables_policies: "same_tables a b \<Longrightarrow> list_by_target org t act a = list_by_target org t act b"
  by (simp add: list_by_target_def same_tables_fields)

lemma newer_trans:
  assumes "newer a b" "newer b c"
  shows "newer a c"
  using assms same_tables_revision[of a b] same_tables_revision[of b c]
  unfolding newer_def same_tables_def by auto

lemma newer_fresh:
  assumes "revisions_inv db" "db_revisions db' = db_revisions (allocated_db db)"
  shows "newer db' db"
  using current_revision_allocated[OF assms] current_revision_less[OF assms(1)] by (simp add: newer_def)

lemma db_revisions_simps [simp]:
  "db_revisions (logged op now c r db) = db_revisions db"
  "db_revisions (store_upsert t db) = db_revisions db"
  "db_revisions (snd (store_delete c db)) = db_revisions db"
  "db_revisions (namespace_save d db) = db_revisions db"
  "db_revisions (policy_upsert q db) = db_revisions db"
  "db_revisions (snd (policy_delete org i db)) = db_revisions db"
  by (simp_all add: logged_def store_upsert_def store_delete_def namespace_save_def policy_upsert_def
      policy_delete_def Let_def)

lemma store_step_newer:
  assumes "store_inv p db" "store_step p db db'"
  shows "newer db' db"
proof -
  have inv: "revisions_inv db" using assms(1) by (simp add: store_inv_def)
  have unchanged: "newer db db" "newer (db\<lparr>db_sequence := n\<rparr>) db" for n by (simp_all add: newer_def)
  note fresh = newer_fresh[OF inv]
  show ?thesis
    using assms(2)
  proof cases
    case (write_tuple now c)
    show ?thesis
    proof (cases "command_writable c")
      case True
      with write_tuple show ?thesis by (simp add: writer_write_ok[OF inv] fresh)
    next
      case False
      with writer_write_rejected[of c now db] write_tuple unchanged(2) show ?thesis by auto
    qed
  next
    case (revoke_tuple now c)
    then show ?thesis
      by (simp add: writer_revoke_eq[OF inv] case_prod_unfold Let_def fresh)
  next
    case (define_ns now d)
    then show ?thesis
      by (cases rule: writer_define_cases[of now d db]) (simp_all add: unchanged fresh)
  next
    case (write_policy w)
    then show ?thesis
      by (cases rule: writer_policy_cases[of p w db]) (simp_all add: unchanged fresh)
  next
    case (delete_policy org i)
    then show ?thesis by (simp add: writer_policy_delete_eq fresh)
  qed
qed

lemma follows_newer: "follows p a b \<Longrightarrow> store_inv p a \<Longrightarrow> newer b a"
proof (induction rule: follows.induct)
  case (administered a b c)
  then have "store_inv p b" using follows_changelog by blast
  from store_step_newer[OF this administered.hyps(2)] administered show ?case by (blast intro: newer_trans)
next
  case (reindexed a b c)
  from reindexed.hyps(2) have "newer c b" by (simp add: newer_def same_tables_core)
  with reindexed show ?case by (blast intro: newer_trans)
qed (simp add: newer_def)

lemma follows_revision: "follows p a b \<Longrightarrow> store_inv p a \<Longrightarrow> current_revision a \<le> current_revision b"
  using follows_newer[of p a b] by (auto simp: newer_def same_tables_revision)

lemma sorted_wrt_either:
  "sorted_wrt P xs \<Longrightarrow> a \<in> set xs \<Longrightarrow> b \<in> set xs \<Longrightarrow> a = b \<or> P a b \<or> P b a"
  by (induction xs) auto

lemma cached_run_history:
  "cached_run p reader cache asked c0 hist c \<Longrightarrow>
   (\<exists>db rest. hist = db # rest \<and> store_inv p db) \<and> sorted_wrt newer hist"
proof (induction rule: cached_run.induct)
  case (begins db)
  then show ?case by (simp add: in_service_inv)
next
  case (written db hist c db')
  then have inv: "store_inv p db" "store_inv p db'" and newer: "newer db' db"
    by (auto intro: store_inv_step store_step_newer)
  with written show ?case by (auto intro: newer_trans)
next
  case (indexed db hist c db')
  from indexed.hyps(2) have "newer db' db" by (simp add: newer_def same_tables_core)
  moreover have "store_inv p db'" using core_store_inv[OF indexed.hyps(2)] indexed.IH by auto
  ultimately show ?case using indexed.IH by (auto intro: newer_trans)
qed simp

lemma same_revision_same_tables:
  assumes "sorted_wrt newer hist" "a \<in> set hist" "b \<in> set hist" "current_revision a = current_revision b"
  shows "same_tables a b"
proof -
  have "newer a b \<or> newer b a"
    using sorted_wrt_either[OF assms(1-3)] by (auto simp: newer_def)
  with assms(4) show ?thesis by (auto simp: newer_def same_tables_sym)
qed

text \<open>What a check does, case by case.\<close>

definition no_policy_applies :: "database \<Rightarrow> org_id \<Rightarrow> action \<Rightarrow> entity_ref \<Rightarrow> bool" where
  "no_policy_applies db org act resource \<longleftrightarrow> list_by_target org (ref_type resource) (action_verb act) db = []"

lemma check_cases:
  assumes "check p reader cache before db now pr act resource request c = Some (r, c')"
  obtains
    (hit) org d where "org_of pr = Some org" "request_consistency request = FullConsistency" "c' = c"
      "cache_get cache (key_of_request org pr act resource (current_revision before)) c = Some d"
      "r = \<lparr>result_decision = d, result_revision = current_revision before, result_cacheable = True\<rparr>"
  | (miss) "decided p reader db now pr act resource request = Some r" "c' = c"
  | (stored) org where "org_of pr = Some org" "request_consistency request = FullConsistency"
      "decided p reader db now pr act resource request = Some r" "result_cacheable r"
      "c' = cache_set cache (key_of_request org pr act resource (result_revision r)) (result_decision r) c"
proof -
  let ?key = "Option.bind (org_of pr) (\<lambda>org. cache_key_for org pr act resource request (current_revision before))"
  have key: "?key = Some k \<Longrightarrow> \<exists>org. org_of pr = Some org \<and> request_consistency request = FullConsistency \<and>
      k = key_of_request org pr act resource (current_revision before)" for k
    by (auto simp: cache_key_for_def key_of_request_def bind_eq_Some_conv split: if_splits)
  show thesis
  proof (cases "Option.bind ?key (\<lambda>k. cache_get cache k c)")
    case (Some d)
    then obtain k where k: "?key = Some k" "cache_get cache k c = Some d" by (auto simp: bind_eq_Some_conv)
    from key[OF k(1)] obtain org where org: "org_of pr = Some org" "request_consistency request = FullConsistency"
      "k = key_of_request org pr act resource (current_revision before)" by blast
    show thesis
    proof (rule hit[OF org(1,2)])
      show "c' = c" "r = \<lparr>result_decision = d, result_revision = current_revision before, result_cacheable = True\<rparr>"
        using assms Some k org by (simp_all add: check_def Let_def key_of_request_def)
      show "cache_get cache (key_of_request org pr act resource (current_revision before)) c = Some d"
        using k(2) org(3) by simp
    qed
  next
    case None
    then obtain caches where ev: "evaluate_within p reader db now pr act resource request (open_context db) = Some (r, caches)"
      and c': "c' = (case ?key of Some k \<Rightarrow> if result_cacheable r
         then cache_set cache (k\<lparr>key_revision := result_revision r\<rparr>) (result_decision r) c else c | None \<Rightarrow> c)"
      using assms by (auto simp: check_def Let_def bind_eq_Some_conv)
    have decided: "decided p reader db now pr act resource request = Some r" using ev by (simp add: decided_def)
    show thesis
    proof (cases "\<exists>k. ?key = Some k \<and> result_cacheable r")
      case True
      then obtain k where k: "?key = Some k" "result_cacheable r" by blast
      from key[OF k(1)] obtain org where org: "org_of pr = Some org" "request_consistency request = FullConsistency"
        "k = key_of_request org pr act resource (current_revision before)" by blast
      show thesis
        by (rule stored[OF org(1,2) decided k(2)]) (use c' k org in \<open>simp add: key_of_request_def\<close>)
    next
      case False
      with c' have "c' = c" by (auto split: option.splits if_splits)
      with decided show thesis by (rule miss)
    qed
  qed
qed

lemma decided_cacheable:
  assumes "org_of pr = Some org" "request_consistency request = FullConsistency"
    and "decided p reader db now pr act resource request = Some r" "result_cacheable r"
  shows "rebac_of reader db org (principal_subject pr) act resource = Some (result_decision r)"
    "list_by_target org (ref_type resource) (action_verb act) db = []" "result_revision r = current_revision db"
  using assms(3,4) unfolding decided_full[OF assms(1,2)] by (auto simp: map_option_case split: option.splits)

lemma decided_without_policies:
  assumes "org_of pr = Some org" "request_consistency request = FullConsistency"
    and "rebac_of reader db org (principal_subject pr) act resource = Some d"
    "list_by_target org (ref_type resource) (action_verb act) db = []"
  shows "decided p reader db now pr act resource request =
    Some \<lparr>result_decision = d, result_revision = current_revision db, result_cacheable = True\<rparr>"
  using assms(3,4) unfolding decided_full[OF assms(1,2)] by simp

text \<open>
  What a sound entry is: the decision of an asked request on a database of the history to which no
  policy applies, under the identity of its key.
\<close>

definition sound_entry :: "membership_reader \<Rightarrow> database list \<Rightarrow> (principal \<times> action \<times> entity_ref) set \<Rightarrow>
    (decision_cache_key \<Rightarrow> 'i) \<Rightarrow> 'i \<Rightarrow> decision \<Rightarrow> bool" where
  "sound_entry reader hist asked ident i d \<longleftrightarrow> (\<exists>pr act resource org db.
     (pr, act, resource) \<in> asked \<and> org_of pr = Some org \<and> db \<in> set hist \<and>
     ident (key_of_request org pr act resource (current_revision db)) = i \<and>
     rebac_of reader db org (principal_subject pr) act resource = Some d \<and>
     list_by_target org (ref_type resource) (action_verb act) db = [])"

lemma sound_entry_older:
  "sound_entry reader hist asked ident i d \<Longrightarrow> sound_entry reader (db # hist) asked ident i d"
  unfolding sound_entry_def by (metis list.set_intros(2))

lemma sound_entry_hit:
  assumes sound: "sound_entry reader hist asked ident (ident (key_of_request org pr act resource (current_revision before))) d"
    and "identifies ident asked" "(pr, act, resource) \<in> asked" "org_of pr = Some org"
    and "before \<in> set hist" "sorted_wrt newer hist"
  obtains seen where "seen \<in> set hist" "same_tables seen before"
    "rebac_of reader seen org (principal_subject pr) act resource = Some d"
    "list_by_target org (ref_type resource) (action_verb act) seen = []"
proof -
  from sound obtain pr' act' resource' org' db where e: "(pr', act', resource') \<in> asked" "org_of pr' = Some org'"
      "db \<in> set hist" "ident (key_of_request org' pr' act' resource' (current_revision db)) =
        ident (key_of_request org pr act resource (current_revision before))"
      "rebac_of reader db org' (principal_subject pr') act' resource' = Some d"
      "list_by_target org' (ref_type resource') (action_verb act') db = []"
    unfolding sound_entry_def by blast
  from assms(2)[unfolded identifies_def, rule_format, OF e(1) assms(3) e(2) assms(4) e(4)]
  have same: "org' = org" "current_revision db = current_revision before"
    "principal_subject pr' = principal_subject pr" "act' = act" "resource' = resource" by simp_all
  from that[OF e(3) same_revision_same_tables[OF assms(6) e(3) assms(5) same(2)]] e(5,6) same show thesis by simp
qed

context decision_cache_laws begin

lemma cached_run_sound:
  "cached_run p reader cache asked c0 hist c \<Longrightarrow> (\<forall>k. cache_get cache k c0 = None) \<Longrightarrow>
   holds_only (sound_entry reader hist asked ident) c"
proof (induction rule: cached_run.induct)
  case (begins db)
  then show ?case by (simp add: holds_only_def)
next
  case (written db hist c db')
  then show ?case unfolding holds_only_def by (metis sound_entry_older)
next
  case (indexed db hist c db')
  then show ?case unfolding holds_only_def by (metis sound_entry_older)
next
  case (checked hist c before db pr act resource now request r c')
  then have sound: "holds_only (sound_entry reader hist asked ident) c" by blast
  from checked.hyps(5) show ?case
  proof (cases rule: check_cases)
    case (stored org)
    note from_db = decided_cacheable[OF stored(1-4)]
    have "sound_entry reader hist asked ident (ident (key_of_request org pr act resource (result_revision r))) (result_decision r)"
      unfolding sound_entry_def using checked.hyps(3,4) stored(1) from_db by metis
    from holds_only_set[OF sound this] stored(5) show ?thesis by simp
  qed (use sound in simp_all)
qed

lemma cached_check_exact:
  assumes "cached_run p reader cache asked c0 hist c" "\<forall>k. cache_get cache k c0 = None"
    and "identifies ident asked"
    and "(pr, act, resource) \<in> asked" "before \<in> set hist" "db \<in> set hist"
    and "check p reader cache before db now pr act resource request c = Some (r, c')"
  shows "\<exists>seen \<in> set hist. (seen = db \<or> same_tables seen before) \<and>
    decided p reader seen now pr act resource request = Some r"
  using assms(7)
proof (cases rule: check_cases)
  case (hit org d)
  have "sound_entry reader hist asked ident (ident (key_of_request org pr act resource (current_revision before))) d"
    by (rule holds_only_get[OF cached_run_sound[OF assms(1,2)] hit(4)])
  moreover have "sorted_wrt newer hist" using cached_run_history[OF assms(1)] by blast
  ultimately obtain seen where seen: "seen \<in> set hist" "same_tables seen before"
    "rebac_of reader seen org (principal_subject pr) act resource = Some d"
    "list_by_target org (ref_type resource) (action_verb act) seen = []"
    by (rule sound_entry_hit[OF _ assms(3,4) hit(1) assms(5)])
  have "decided p reader seen now pr act resource request = Some r"
    using decided_without_policies[OF hit(1,2) seen(3,4)] hit(5) same_tables_revision[OF seen(2)] by simp
  with seen(1,2) show ?thesis by blast
qed (use assms(6) in auto)

end

text \<open>Without the index a decision depends on the other tables alone.\<close>

lemma decided_same_tables:
  assumes "same_tables a b"
  shows "decided p noop_reader a now pr act resource request = decided p noop_reader b now pr act resource request"
proof -
  note same = same_tables_fields[OF assms]
  have env: "env_of noop_reader a org member = env_of noop_reader b org member" for org member
    by (simp add: env_of_def namespace_in_def tuples_in_def memberships_in_def version_in_def fun_eq_iff
        find_by_namespace_def list_by_object_def noop_reader_def no_hits_def newest_version_def same)
  show ?thesis
    unfolding decided_def evaluate_within_def prepare_def env open_context_def
      same_tables_revision[OF assms] same_tables_policies[OF assms] by (rule refl)
qed

section \<open>Samples\<close>

definition sample_principal :: principal where
  "sample_principal = \<lparr>principal_subject = sample_ref ''user'' ''ann'', principal_org = Some ''acme'',
     assurance_level = 1, session_id = ''s1'', authenticated_at = None\<rparr>"

definition sample_request :: "consistency \<Rightarrow> request_context" where
  "sample_request c = \<lparr>request_ip = ''10.0.0.1'', request_id = ''r1'', requested_at = 0, request_consistency = c\<rparr>"

definition read_doc :: action where
  "read_doc = \<lparr>action_namespace = ''doc'', action_verb = ''read''\<rparr>"

definition apply_commands :: "define_command \<Rightarrow> tuple_command list \<Rightarrow> database" where
  "apply_commands d cs =
     foldl (\<lambda>db c. snd (writer_write 0 c db)) (snd (writer_define 0 d empty_database)) cs"

lemma reachable_commands: "reachable p (apply_commands d cs)"
  unfolding apply_commands_def
proof (induction cs rule: rev_induct)
  case Nil
  show ?case by (simp add: reachable.step[OF reachable.start store_step.define_ns])
next
  case (snoc c cs)
  then show ?case by (simp add: reachable.step[OF _ store_step.write_tuple])
qed

definition sample_define :: define_command where
  "sample_define = \<lparr>define_org = sample_org, define_namespace = ''doc'',
     define_config = \<lparr>data_relations = [''viewer'', ''banned''],
       data_actions = [(''read'', [''viewer''])],
       data_rewrites = Some [(''viewer'', Exclusion This (ComputedUserset ''banned''))]\<rparr>\<rparr>"

definition add_tuple :: "entity_ref \<Rightarrow> string \<Rightarrow> subject_ref \<Rightarrow> tuple_command" where
  "add_tuple object relation subject =
     \<lparr>cmd_org = sample_org, cmd_object = object, cmd_relation = relation, cmd_subject = subject\<rparr>"

definition team_members :: "string \<Rightarrow> subject_ref" where
  "team_members t = UsersetSubject (sample_ref ''team'' t) ''member''"

definition add_team :: "string \<Rightarrow> string \<Rightarrow> tuple_command" where
  "add_team inner outer = add_tuple (sample_ref ''team'' outer) ''member'' (team_members inner)"

definition hiding_db :: database where
  "hiding_db = apply_commands sample_define
     [add_tuple (sample_ref ''doc'' ''a'') ''viewer'' (Subject (sample_ref ''user'' ''ann'')),
      add_tuple (sample_ref ''doc'' ''a'') ''viewer'' (team_members ''g1''),
      add_team ''g2'' ''g1'', add_team ''g3'' ''g2'', add_team ''g4'' ''g3'', add_team ''g5'' ''g4'',
      add_team ''g6'' ''g5'', add_team ''g7'' ''g6'', add_team ''g8'' ''g7'', add_team ''g9'' ''g8'',
      add_team ''n'' ''g9'', add_team ''m'' ''n'',
      add_tuple (sample_ref ''doc'' ''a'') ''banned'' (team_members ''n''),
      add_tuple (sample_ref ''team'' ''m'') ''member'' (Subject (sample_ref ''user'' ''ann''))]"

text \<open>Evaluation over a snapshot that holds every tuple and namespace of the organization.\<close>

definition readable_tuple :: "tuple_row \<Rightarrow> relation_tuple list" where
  "readable_tuple r = (case tuple_to_domain r of Inl e \<Rightarrow> [] | Inr t \<Rightarrow> [t])"

definition full_snapshot :: "org_id \<Rightarrow> database \<Rightarrow> snapshot" where
  "full_snapshot org db =
     \<lparr>snap_namespaces = registry_of (map namespace_to_domain (filter (\<lambda>r. nr_org r = org_value org) (db_namespaces db))),
      snap_tuples = tuple_index_of org (concat (map readable_tuple
        (filter (\<lambda>r. tr_org r = org_value org) (db_tuples db)))),
      snap_memberships = None\<rparr>"

definition hiding_query :: authorization_query where
  "hiding_query = \<lparr>query_org = sample_org, query_subject = sample_ref ''user'' ''ann'', query_action = read_doc,
     query_resource = sample_ref ''doc'' ''a''\<rparr>"

definition sample_asked :: "(principal \<times> action \<times> entity_ref) set" where
  "sample_asked = {(sample_principal, read_doc, sample_ref ''doc'' ''a'')}"

lemma sample_clean: "clean_request sample_principal read_doc (sample_ref ''doc'' ''a'')"
  by code_simp

text \<open>A history with one check, whose answer the cache then holds.\<close>

definition sample_redis :: "(string \<Rightarrow> cached_value option) decision_cache" where
  "sample_redis = redis_decision_cache id ''d'' True"

definition sample_first :: "evaluation_result \<times> (string \<Rightarrow> cached_value option)" where
  "sample_first = the (check plain_platform noop_reader sample_redis hiding_db hiding_db 0 sample_principal read_doc
     (sample_ref ''doc'' ''a'') (sample_request FullConsistency) Map.empty)"

definition sample_cache :: "string \<Rightarrow> cached_value option" where
  "sample_cache = snd sample_first"

lemma required_full: "required_revision p FullConsistency = Inr None"
  by (simp add: required_revision_def)

lemma decided_unscoped:
  "org_of pr = None \<Longrightarrow> decided p reader db now pr act resource request =
     Some \<lparr>result_decision = no_org_context, result_revision = Revision 0, result_cacheable = False\<rparr>"
  by (simp add: decided_def evaluate_within_def prepare_def open_context_def)

text \<open>A request whose token names a revision that the database has not reached is refused, and one
  whose token it has reached is evaluated like one without a token.\<close>

definition awaits :: "platform \<Rightarrow> request_context \<Rightarrow> database \<Rightarrow> bool" where
  "awaits p request db \<longleftrightarrow> (case required_revision p (request_consistency request) of
     Inr (Some required) \<Rightarrow> \<not> is_at_least (current_revision db) required | _ \<Rightarrow> False)"

lemma decided_awaits:
  assumes "org_of pr = Some org" "awaits p request db"
  shows "decided p reader db now pr act resource request = Some \<lparr>result_decision = consistency_unavailable,
    result_revision = current_revision db, result_cacheable = False\<rparr>"
  using assms by (auto simp: awaits_def decided_def evaluate_within_def prepare_def open_context_def
      split: sum.splits option.splits)

lemma decided_reached:
  assumes "\<not> awaits p request db" "required_revision p (request_consistency request) = Inr required"
  shows "decided p reader db now pr act resource request =
    decided p reader db now pr act resource (request\<lparr>request_consistency := FullConsistency\<rparr>)"
proof (cases "org_of pr")
  case (Some org)
  have "prepare p reader db now pr act resource request (open_context db) =
      prepare p reader db now pr act resource (request\<lparr>request_consistency := FullConsistency\<rparr>) (open_context db)"
    using assms by (auto simp: awaits_def prepare_def open_context_def Some required_full split: option.splits)
  then show ?thesis by (simp add: decided_def evaluate_within_def)
qed (simp add: decided_unscoped)

lemma decided_bad_token:
  "org_of pr = Some org \<Longrightarrow> required_revision p (request_consistency request) = Inl e \<Longrightarrow>
   decided p reader db now pr act resource request = None"
  by (simp add: decided_def evaluate_within_def prepare_def open_context_def)

lemma decided_org:
  assumes "org_of pr = Some org" "request_consistency request = FullConsistency"
    and "reads_own_rows reader" "org_rows org db' = org_rows org db"
  shows "map_option result_decision (decided p reader db' now pr act resource request) =
    map_option result_decision (decided p reader db now pr act resource request)"
  unfolding decided_full[OF assms(1,2)] rebac_of_org[OF assms(3,4)] list_by_target_org[OF assms(4)]
  by (simp add: option.map_comp comp_def)

text \<open>A write of a tuple, its token and its changelog.\<close>

lemma write_accepted:
  assumes "store_inv q db0" "writer_write t c db0 = (Inr token, db1)"
  shows "token = ConsistencyToken (next_revision db0)" "current_revision db1 = next_revision db0" "store_inv q db1"
    "contents db1 (command_key c) \<noteq> None" "assert_writable_subject (cmd_subject c) = None"
    "rev_value (next_revision db0) = db_sequence db1"
proof -
  have inv: "revisions_inv db0" using assms(1) by (simp add: store_inv_def)
  have ok: "command_writable c"
    using writer_write_rejected[of c t db0] assms(2) by (cases "command_writable c") auto
  with assms(2) have db1: "token = ConsistencyToken (next_revision db0)"
      "db1 = logged UpsertOp t c (next_revision db0) (store_upsert (written_tuple t c (next_revision db0)) (allocated_db db0))"
    by (auto simp: writer_write_ok[OF inv])
  show "token = ConsistencyToken (next_revision db0)" by (rule db1(1))
  show "current_revision db1 = next_revision db0"
    by (rule current_revision_allocated[OF inv]) (simp add: db1(2))
  show "store_inv q db1" using store_inv_write[OF assms(1), of t c] assms(2) by simp
  show "contents db1 (command_key c) \<noteq> None"
    by (simp add: db1(2) drizzle_store.stored_upsert tuple_key_of_def tuple_row_of_def tuple_row_key_def
        written_tuple_def command_key_def)
  show "assert_writable_subject (cmd_subject c) = None" using ok by (simp add: command_writable_def)
  show "rev_value (next_revision db0) = db_sequence db1"
    by (simp add: db1(2) next_revision_def logged_def store_upsert_def allocated_db_def)
qed

definition tuple_found :: "tuple_command \<Rightarrow> database \<Rightarrow> bool" where
  "tuple_found c db \<longleftrightarrow> (\<exists>ts. list_by_object (cmd_org c) (cmd_object c) (cmd_relation c) db = Inr ts \<and>
     cmd_subject c \<in> tuple_subject ` set ts)"

lemma written_tuple_found:
  assumes "store_inv q db0" "writer_write t c db0 = (Inr token, db1)" "follows q db1 db"
  shows "tuple_found c db \<or> (\<exists>r \<in> set (db_changelog db). change_tuple_key r = command_key c \<and> cr_op r = DeleteOp \<and>
    rev_value (token_revision token) < cr_revision r)"
proof -
  note written = write_accepted[OF assms(1,2)]
  have "store_inv q db" using follows_changelog[OF assms(3) written(3)] by blast
  then have "rows_inv q db" by (simp add: store_inv_def)
  from list_by_object_contents[OF this, of "cmd_org c" "cmd_object c" "cmd_relation c"] written(5)
  have "contents db (command_key c) \<noteq> None \<Longrightarrow> tuple_found c db"
    unfolding tuple_found_def command_key_def by blast
  with stored_until_deleted[OF written(3) assms(3) written(4)] written(1,6) show ?thesis by auto
qed

text \<open>Every decision comes from the relationships and the organization's policies, or is a denial.\<close>

lemma decided_scoped:
  assumes "org_of pr = Some org" "decided p reader db now pr act resource request = Some r"
  shows "r = \<lparr>result_decision = consistency_unavailable, result_revision = current_revision db,
      result_cacheable = False\<rparr> \<or>
    decided p reader db now pr act resource (request\<lparr>request_consistency := FullConsistency\<rparr>) = Some r"
proof (cases "required_revision p (request_consistency request)")
  case (Inl e)
  with assms show ?thesis by (simp add: decided_def evaluate_within_def prepare_def open_context_def)
next
  case (Inr required)
  let ?late = "case required of None \<Rightarrow> False | Some rv \<Rightarrow> \<not> is_at_least (current_revision db) rv"
  have "prepare p reader db now pr act resource request (open_context db) =
      (if ?late then Some (PreparedDeny consistency_unavailable (current_revision db), snd (open_context db))
       else prepare p reader db now pr act resource (request\<lparr>request_consistency := FullConsistency\<rparr>) (open_context db))"
    using Inr by (simp add: prepare_def open_context_def assms(1) required_full)
  with assms(2) show ?thesis by (cases ?late) (auto simp: decided_def evaluate_within_def)
qed

definition policy_context :: "principal \<Rightarrow> request_context \<Rightarrow> date \<Rightarrow> evaluation_context" where
  "policy_context pr request now = \<lparr>ctx_aal = assurance_level pr, ctx_auth_time = authenticated_at pr, ctx_ip = request_ip request, ctx_now = now\<rparr>"

lemma hiding_db_reachable: "reachable p hiding_db"
  unfolding hiding_db_def by (rule reachable_commands)

lemma sample_cache_filled:
  "cache_get sample_redis (key_of_request sample_org sample_principal read_doc (sample_ref ''doc'' ''a'') (current_revision hiding_db))
      sample_cache \<noteq> None"
  by code_simp

lemma sample_first_check:
  "check plain_platform noop_reader sample_redis hiding_db hiding_db 0 sample_principal read_doc (sample_ref ''doc'' ''a'')
     (sample_request FullConsistency) Map.empty = Some (fst sample_first, sample_cache)"
proof -
  have "check plain_platform noop_reader sample_redis hiding_db hiding_db 0 sample_principal read_doc (sample_ref ''doc'' ''a'')
     (sample_request FullConsistency) Map.empty \<noteq> None" by code_simp
  then obtain y where "check plain_platform noop_reader sample_redis hiding_db hiding_db 0 sample_principal read_doc
     (sample_ref ''doc'' ''a'') (sample_request FullConsistency) Map.empty = Some y" by blast
  then show ?thesis unfolding sample_cache_def sample_first_def by (simp only: option.sel prod.collapse)
qed

lemma sample_cached_run: "cached_run plain_platform noop_reader sample_redis sample_asked Map.empty [hiding_db] sample_cache"
  by (rule cached_run.checked[OF cached_run.begins[OF reachable_in_service[OF hiding_db_reachable]] _ _ _ sample_first_check])
    (simp_all add: sample_asked_def)

lemma sample_hit:
  "\<exists>r. check plain_platform noop_reader sample_redis hiding_db hiding_db 1 sample_principal read_doc (sample_ref ''doc'' ''a'')
     (sample_request FullConsistency) sample_cache = Some (r, sample_cache)"
proof -
  obtain d where d: "cache_get sample_redis (key_of_request sample_org sample_principal read_doc (sample_ref ''doc'' ''a'')
      (current_revision hiding_db)) sample_cache = Some d" using sample_cache_filled by blast
  have "org_of sample_principal = Some sample_org" by (simp add: org_of_def sample_principal_def sample_org_def)
  with d show ?thesis
    by (simp add: check_def cache_key_for_def sample_request_def key_of_request_def)
qed

lemma hiding_db_permits:
  "map_option (decision_effect \<circ> result_decision) (decided plain_platform noop_reader hiding_db 0
     sample_principal read_doc (sample_ref ''doc'' ''a'') (sample_request FullConsistency)) = Some Permit"
  by code_simp

lemma hiding_db_denies:
  "map_option decision_effect (evaluate hiding_query (full_snapshot sample_org hiding_db)) = Some Deny"
  by code_simp

lemma permit_justified:
  assumes "decided p reader db now pr act resource request = Some r"
    and "decision_effect (result_decision r) = Permit"
  shows "\<exists>org rebac. org_of pr = Some org \<and>
    rebac_of reader db org (principal_subject pr) act resource = Some rebac \<and>
    filter (forbids p (policy_context pr request now)) (list_by_target org (ref_type resource) (action_verb act) db) = [] \<and>
    (decision_effect rebac = Permit \<or>
     filter (grants p (policy_context pr request now)) (list_by_target org (ref_type resource) (action_verb act) db) \<noteq> [])"
proof -
  have "org_of pr \<noteq> None"
  proof
    assume "org_of pr = None"
    from decided_unscoped[OF this] assms show False by (auto simp: no_org_context_def deny_def)
  qed
  then obtain org where org: "org_of pr = Some org" by blast
  let ?full = "request\<lparr>request_consistency := FullConsistency\<rparr>"
  let ?ctx = "policy_context pr request now"
  let ?policies = "list_by_target org (ref_type resource) (action_verb act) db"
  have "decided p reader db now pr act resource ?full = Some r"
    using decided_scoped[OF org assms(1)] assms(2) by (auto simp: consistency_unavailable_def deny_def)
  then obtain rebac where rebac: "rebac_of reader db org (principal_subject pr) act resource = Some rebac"
    and "result_decision r = decide p rebac ?policies ?ctx"
    using decided_full[OF org, of ?full p reader db now act resource] by (auto simp: policy_context_def)
  with assms(2) have "decision_effect (decide p rebac ?policies ?ctx) = Permit" by simp
  then have "filter (forbids p ?ctx) ?policies = []"
    "decision_effect rebac = Permit \<or> filter (grants p ?ctx) ?policies \<noteq> []"
    by (auto simp: decide_effect filter_empty_conv split: if_splits)
  with org rebac show ?thesis by blast
qed

lemma cached_check_decided:
  assumes "cached_run p reader (redis_decision_cache digest pre available) asked Map.empty hist c"
    and "\<And>pr act resource. (pr, act, resource) \<in> asked \<Longrightarrow> clean_request pr act resource"
    and "inj_on digest (request_text ` asked)"
    and "(pr, act, resource) \<in> asked" "before \<in> set hist" "db \<in> set hist"
    and "check p reader (redis_decision_cache digest pre available) before db now pr act resource request c =
      Some (r, c')"
  shows "\<exists>seen \<in> set hist. (seen = db \<or> same_tables seen before) \<and>
    decided p reader seen now pr act resource request = Some r"
  by (rule redis_cache.cached_check_exact[OF assms(1) _ redis_key_identifies[OF assms(2,3)] assms(4-7)])
    (auto simp: redis_decision_cache_def redis_get_def)

section \<open>Properties\<close>



text \<open>C7: read your writes: a request that carries the token of a tuple write is refused with the reason
  consistency_unavailable on every database before the write. On every database after it, however writers and
  indexer went on, it is evaluated like a request without a token, and there the lookup of the tuple's object
  and relation finds the written tuple, unless a later entry of the changelog deletes it.\<close>
theorem token_reads_own_write:
  assumes "in_service q db0" "writer_write t c db0 = (Inr token, db1)" "org_of pr = Some org"
    and "request_consistency request = AtLeast (token_encode p token)"
    and "reads_numerals p" "codes_base64url p" "int (rev_value (token_revision token)) \<le> max_safe_integer"
  shows "(in_service q db \<and> follows q db db0 \<longrightarrow> decided p reader db now pr act resource request =
      Some \<lparr>result_decision = consistency_unavailable, result_revision = current_revision db, result_cacheable = False\<rparr>) \<and>
    (follows q db1 db \<longrightarrow> decided p reader db now pr act resource request =
        decided p reader db now pr act resource (request\<lparr>request_consistency := FullConsistency\<rparr>) \<and>
      (tuple_found c db \<or> (\<exists>r \<in> set (db_changelog db). change_tuple_key r = command_key c \<and> cr_op r = DeleteOp \<and>
         rev_value (token_revision token) < cr_revision r)))"
proof -
  have inv: "store_inv q db0" by (rule in_service_inv[OF assms(1)])
  note written = write_accepted[OF inv assms(2)]
  have required: "required_revision p (request_consistency request) = Inr (Some (next_revision db0))"
    using token_decode_encode[OF assms(5-7)] by (simp add: required_revision_def assms(4) written(1))
  then have awaits: "awaits p request d \<longleftrightarrow> current_revision d < next_revision db0" for d
    by (simp add: awaits_def is_at_least_def revision_less_iff not_le)
  have "revisions_inv db0" using inv by (simp add: store_inv_def)
  then have older: "in_service q db \<Longrightarrow> follows q db db0 \<Longrightarrow> awaits p request db"
    using follows_revision[OF _ in_service_inv, of q db db0] current_revision_less[of db0] by (simp add: awaits)
  have newer: "follows q db1 db \<Longrightarrow> \<not> awaits p request db"
    using follows_revision[OF _ written(3), of db] written(2) by (simp add: awaits not_less)
  show ?thesis
    using older newer decided_awaits[OF assms(3)] decided_reached[OF _ required] written_tuple_found[OF inv assms(2)] by blast
qed

theorem token_reads_own_write_witness:
  "decided plain_platform noop_reader empty_database 0 sample_principal read_doc (sample_ref ''doc'' ''a'')
       (sample_request (AtLeast (token_encode plain_platform (ConsistencyToken (Revision 1))))) =
     Some \<lparr>result_decision = consistency_unavailable, result_revision = Revision 0, result_cacheable = False\<rparr> \<and>
   decided plain_platform noop_reader (snd (writer_write 0 sample_command empty_database)) 0 sample_principal read_doc
       (sample_ref ''doc'' ''a'') (sample_request (AtLeast (token_encode plain_platform (ConsistencyToken (Revision 1))))) =
     decided plain_platform noop_reader (snd (writer_write 0 sample_command empty_database)) 0 sample_principal read_doc
       (sample_ref ''doc'' ''a'') (sample_request FullConsistency) \<and>
   tuple_found sample_command (snd (writer_write 0 sample_command empty_database))"
proof -
  let ?db1 = "snd (writer_write 0 sample_command empty_database)"
  have sent: "writer_write 0 sample_command empty_database = (Inr (ConsistencyToken (Revision 1)), ?db1)"
    by code_simp
  have start: "in_service plain_platform empty_database" by (rule reachable_in_service[OF reachable.start])
  have upsert: "list_all (\<lambda>r. cr_op r = UpsertOp) (db_changelog ?db1)" by code_simp
  have current: "current_revision empty_database = Revision 0" by code_simp
  let ?request = "sample_request (AtLeast (token_encode plain_platform (ConsistencyToken (Revision 1))))"
  have scoped: "org_of sample_principal = Some sample_org" "request_consistency ?request =
      AtLeast (token_encode plain_platform (ConsistencyToken (Revision 1)))"
      "int (rev_value (token_revision (ConsistencyToken (Revision 1)))) \<le> max_safe_integer"
    by (simp_all add: org_of_def sample_principal_def sample_org_def sample_request_def max_safe_integer_def)
  note reads = token_reads_own_write[OF start sent scoped(1,2) plain_platform_reads plain_platform_codes scoped(3)]
  from reads[of empty_database] start follows_refl
  have "decided plain_platform noop_reader empty_database 0 sample_principal read_doc (sample_ref ''doc'' ''a'') ?request =
     Some \<lparr>result_decision = consistency_unavailable, result_revision = Revision 0, result_cacheable = False\<rparr>"
    unfolding current by blast
  moreover have "?request\<lparr>request_consistency := FullConsistency\<rparr> = sample_request FullConsistency"
    by (simp add: sample_request_def)
  moreover have "\<not> (\<exists>r \<in> set (db_changelog ?db1). cr_op r = DeleteOp)" using upsert by (auto simp: list_all_iff)
  ultimately show ?thesis
    using reads[of ?db1 noop_reader 0 read_doc "sample_ref ''doc'' ''a''"] follows_refl by metis
qed

text \<open>A permit is justified: whoever is permitted is scoped to an organization, none of the
  organization's policies for the target forbids it, and the relationships permit it or one of those
  policies grants it; a failed lookup never permits.\<close>
theorem permit_is_justified:
  assumes "decided p reader db now pr act resource request = Some r"
    and "decision_effect (result_decision r) = Permit"
  shows "\<exists>org rebac. org_of pr = Some org \<and>
    rebac_of reader db org (principal_subject pr) act resource = Some rebac \<and>
    filter (forbids p (policy_context pr request now)) (list_by_target org (ref_type resource) (action_verb act) db) = [] \<and>
    (decision_effect rebac = Permit \<or>
     filter (grants p (policy_context pr request now)) (list_by_target org (ref_type resource) (action_verb act) db) \<noteq> [])"
  using assms by (rule permit_justified)

theorem permit_is_justified_witness:
  "decided plain_platform noop_reader hiding_db 0 sample_principal read_doc (sample_ref ''doc'' ''a'')
      (sample_request FullConsistency) \<noteq> None \<and>
   (\<exists>org rebac. org_of sample_principal = Some org \<and>
    rebac_of noop_reader hiding_db org (principal_subject sample_principal) read_doc (sample_ref ''doc'' ''a'') = Some rebac \<and>
    filter (forbids plain_platform (policy_context sample_principal (sample_request FullConsistency) 0))
      (list_by_target org (ref_type (sample_ref ''doc'' ''a'')) (action_verb read_doc) hiding_db) = [] \<and>
    (decision_effect rebac = Permit \<or>
     filter (grants plain_platform (policy_context sample_principal (sample_request FullConsistency) 0))
      (list_by_target org (ref_type (sample_ref ''doc'' ''a'')) (action_verb read_doc) hiding_db) \<noteq> []))"
proof -
  obtain r where r: "decided plain_platform noop_reader hiding_db 0 sample_principal read_doc
      (sample_ref ''doc'' ''a'') (sample_request FullConsistency) = Some r" "decision_effect (result_decision r) = Permit"
    using hiding_db_permits by (auto simp: comp_def)
  have "decided plain_platform noop_reader hiding_db 0 sample_principal read_doc
      (sample_ref ''doc'' ''a'') (sample_request FullConsistency) \<noteq> None" unfolding r(1) by (rule option.distinct)
  then show ?thesis using permit_is_justified[OF r] by (rule conjI)
qed

text \<open>A simulation changes nothing but the policies: it returns whenever the decision does, its
  live half is the decision, and without an overlay its proposed half is the decision as well.\<close>
theorem simulation_matches_decision:
  "map_option sim_live (simulate p reader db now pr act resource request overlay) =
     map_option result_decision (decided p reader db now pr act resource request) \<and>
   map_option sim_decision (simulate p reader db now pr act resource request None) =
     map_option result_decision (decided p reader db now pr act resource request) \<and>
   map_option sim_changed (simulate p reader db now pr act resource request None) =
     map_option (\<lambda>r. False) (decided p reader db now pr act resource request)"
proof (cases "prepare p reader db now pr act resource request (open_context db)")
  case None
  then show ?thesis by (simp add: simulate_def decided_def evaluate_within_def)
next
  case (Some x)
  then show ?thesis
    by (cases x; cases "fst x") (auto simp: simulate_def decided_def evaluate_within_def Let_def)
qed



text \<open>The loaded closure can be too small: a database that the writers reach, and a request that the
  decision point permits although the same evaluation over all stored tuples denies it. The exclusion's
  second operand is cut at the depth where its first operand had already walked the same set.\<close>
theorem closure_hides_exclusion:
  "reachable plain_platform hiding_db \<and>
   map_option (decision_effect \<circ> result_decision) (decided plain_platform noop_reader hiding_db 0
     sample_principal read_doc (sample_ref ''doc'' ''a'') (sample_request FullConsistency)) = Some Permit \<and>
   map_option decision_effect (evaluate hiding_query (full_snapshot sample_org hiding_db)) = Some Deny"
  using hiding_db_permits hiding_db_denies hiding_db_reachable by (intro conjI)

end
