(* ===== verification/Indexer.thy ===== *)
theory Indexer
  imports Pdp Walks
begin

text \<open>
  The membership index: the tables \<open>flattened_membership_sets\<close> and \<open>flattened_memberships\<close> with the
  operations of \<open>drizzle-membership-index.ts\<close>, and the background job of \<open>membership-indexer.ts\<close>
  that rebuilds the rows of every organization that changed. As in theory Pdp, \<open>None\<close> is a call
  that throws or does not return. The transaction around \<open>runOnce\<close> is one of isolation level read
  committed: every query of another table sees what the writers have committed by then, so each is
  given the database it reads. The advisory lock keeps other runs away, and the tables of the index
  are written, for everyone else, when the transaction commits.
\<close>

section \<open>The tables of the index\<close>

type_synonym set_key = "string \<times> string \<times> string \<times> string"

definition set_row_key :: "set_row \<Rightarrow> set_key" where
  "set_row_key r = (sr_org r, sr_type r, sr_id r, sr_relation r)"

definition member_set_key :: "member_row \<Rightarrow> set_key" where
  "member_set_key m = (mr_org m, mr_set_type m, mr_set_id m, mr_set_relation m)"

definition set_key_of :: "org_id \<Rightarrow> membership_set_ref \<Rightarrow> set_key" where
  "set_key_of org s = (org_value org, ref_type (set_object s), ref_id (set_object s), set_relation s)"

definition member_rows_of :: "org_id \<Rightarrow> membership_set_ref \<Rightarrow> flat_member list \<Rightarrow> member_row list" where
  "member_rows_of org s members =
     map (\<lambda>m. \<lparr>mr_org = org_value org, mr_set_type = ref_type (set_object s), mr_set_id = ref_id (set_object s),
        mr_set_relation = set_relation s, mr_member_type = ref_type (member_ref m),
        mr_member_id = ref_id (member_ref m), mr_depth = member_depth m\<rparr>) members"

definition delete_members :: "org_id \<Rightarrow> membership_set_ref \<Rightarrow> database \<Rightarrow> database" where
  "delete_members org s db = db\<lparr>db_members := filter (\<lambda>m. member_set_key m \<noteq> set_key_of org s) (db_members db)\<rparr>"

definition set_row_of :: "org_id \<Rightarrow> membership_set_ref \<Rightarrow> revision \<Rightarrow> set_row" where
  "set_row_of org s valid_at = \<lparr>sr_org = org_value org, sr_type = ref_type (set_object s),
     sr_id = ref_id (set_object s), sr_relation = set_relation s, sr_valid_at = rev_value valid_at\<rparr>"

text \<open>The primary key of the members makes the insertion fail on a repeated member.\<close>

definition index_replace :: "org_id \<Rightarrow> membership_set_ref \<Rightarrow> flat_member list \<Rightarrow> revision \<Rightarrow> database \<Rightarrow> database option" where
  "index_replace org s members valid_at db =
     (if \<not> distinct (map member_ref members) then None
      else let db1 = delete_members org s db in
        Some (db1\<lparr>db_members := db_members db1 @ member_rows_of org s members,
          db_sets := upsert_row set_row_key (\<lambda>r. r\<lparr>sr_valid_at := rev_value valid_at\<rparr>)
            (set_row_of org s valid_at) (db_sets db1)\<rparr>))"

definition index_remove :: "org_id \<Rightarrow> membership_set_ref \<Rightarrow> database \<Rightarrow> database" where
  "index_remove org s db =
     (let db1 = delete_members org s db in
      db1\<lparr>db_sets := filter (\<lambda>r. set_row_key r \<noteq> set_key_of org s) (db_sets db1)\<rparr>)"

definition list_sets :: "org_id \<Rightarrow> database \<Rightarrow> membership_set_ref list" where
  "list_sets org db =
     map (\<lambda>r. \<lparr>set_object = \<lparr>ref_type = sr_type r, ref_id = sr_id r\<rparr>, set_relation = sr_relation r\<rparr>)
       (filter (\<lambda>r. sr_org r = org_value org) (db_sets db))"

definition list_orgs_with_namespace_changes :: "revision \<Rightarrow> revision \<Rightarrow> database \<Rightarrow> org_id list" where
  "list_orgs_with_namespace_changes after up_to db =
     map OrgId (dedup (map nr_org (filter (\<lambda>r. nr_revision r > rev_value after \<and> nr_revision r \<le> rev_value up_to)
       (db_namespaces db))))"

definition cursor_name :: string where
  "cursor_name = ''flattened_memberships''"

definition read_cursor :: "database \<Rightarrow> revision" where
  "read_cursor db = Revision (case map_of (db_cursors db) cursor_name of Some n \<Rightarrow> n | None \<Rightarrow> 0)"

definition write_cursor :: "revision \<Rightarrow> database \<Rightarrow> database" where
  "write_cursor r db = db\<lparr>db_cursors := AList.update cursor_name (rev_value r) (db_cursors db)\<rparr>"

section \<open>The indexer\<close>

record indexer_options =
  change_page_size :: nat
  max_tuples_per_org :: nat

record indexer_run =
  run_indexed :: nat
  run_removed :: nat
  run_skipped_orgs :: nat
  run_cursor :: revision

definition idle_run :: "revision \<Rightarrow> indexer_run" where
  "idle_run cursor = \<lparr>run_indexed = 0, run_removed = 0, run_skipped_orgs = 0, run_cursor = cursor\<rparr>"

definition set_key_text :: "membership_set_ref \<Rightarrow> string" where
  "set_key_text s = node_key (set_object s) (set_relation s)"

type_synonym wanted_sets = "(string \<times> membership_set_ref \<times> flat_member list) list"

fun collect_wanted :: "snapshot \<Rightarrow> (entity_ref \<times> string) list \<Rightarrow> wanted_sets \<Rightarrow> wanted_sets option" where
  "collect_wanted snap [] wanted = Some wanted"
| "collect_wanted snap ((object, relation) # usersets) wanted =
     Option.bind (flatten_set object relation snap) (\<lambda>flattened.
       let s = \<lparr>set_object = object, set_relation = relation\<rparr> in
       collect_wanted snap usersets
         (if flat_monotonic flattened
          then AList.update (set_key_text s) (s, flat_members flattened) wanted else wanted))"

definition all_tuples_of :: "org_id \<Rightarrow> nat \<Rightarrow> tuple_filter" where
  "all_tuples_of org limit = \<lparr>filter_org = org, filter_namespace = None, filter_object_id = None,
     filter_relation = None, filter_subject = None, filter_limit = limit, filter_offset = 0\<rparr>"

definition replace_all :: "org_id \<Rightarrow> revision \<Rightarrow> wanted_sets \<Rightarrow> database \<Rightarrow> database option" where
  "replace_all org valid_at wanted db =
     each (\<lambda>(key, s, members) db. index_replace org s members valid_at db) wanted db"

definition stale_sets :: "org_id \<Rightarrow> wanted_sets \<Rightarrow> database \<Rightarrow> membership_set_ref list" where
  "stale_sets org wanted db = filter (\<lambda>s. map_of wanted (set_key_text s) = None) (list_sets org db)"

text \<open>The databases that the queries of one \<open>reindexOrg\<close> see, and those of a whole run.\<close>

record org_reads =
  reads_tuples :: database
  reads_namespaces :: database
  reads_usersets :: database

record run_reads =
  reads_cursor :: database
  reads_high :: database
  reads_changes :: database
  reads_orgs :: database
  reads_org :: "org_id \<Rightarrow> org_reads"

text \<open>
  \<open>reindexOrg\<close>: the database \<open>db\<close> is the one the rows are written to; of it only the tables of the index
  are read. The inner \<open>None\<close> is the code's \<open>null\<close>, an organization that is skipped.
\<close>

definition reindex_org :: "indexer_options \<Rightarrow> org_id \<Rightarrow> revision \<Rightarrow> org_reads \<Rightarrow> database \<Rightarrow>
    ((nat \<times> nat) option \<times> database) option" where
  "reindex_org opts org valid_at reads db =
     (case list_tuples (all_tuples_of org (max_tuples_per_org opts + 1)) (reads_tuples reads) of
        Inl e \<Rightarrow> None
      | Inr ts \<Rightarrow>
          if length ts > max_tuples_per_org opts then Some (None, db)
          else (case list_referenced_usersets org (reads_usersets reads) of
              Inl e \<Rightarrow> None
            | Inr usersets \<Rightarrow>
                Option.bind (collect_wanted \<lparr>snap_namespaces = registry_of (list_namespaces_by_org org (reads_namespaces reads)),
                    snap_tuples = tuple_index_of org ts, snap_memberships = None\<rparr> usersets []) (\<lambda>wanted.
                  let stale = stale_sets org wanted db;
                      db1 = foldl (\<lambda>db s. index_remove org s db) db stale in
                  Option.bind (replace_all org valid_at wanted db1) (\<lambda>db2.
                    Some (Some (length wanted, length stale), db2)))))"

fun reindex_orgs :: "indexer_options \<Rightarrow> revision \<Rightarrow> (org_id \<Rightarrow> org_reads) \<Rightarrow> org_id list \<Rightarrow> indexer_run \<Rightarrow> database \<Rightarrow>
    (indexer_run \<times> database) option" where
  "reindex_orgs opts up_to reads [] run db = Some (run, db)"
| "reindex_orgs opts up_to reads (org # orgs) run db =
     Option.bind (reindex_org opts org up_to (reads org) db) (\<lambda>(result, db').
       reindex_orgs opts up_to reads orgs
         (case result of
            None \<Rightarrow> run\<lparr>run_skipped_orgs := run_skipped_orgs run + 1\<rparr>
          | Some (indexed, removed) \<Rightarrow> run\<lparr>run_indexed := run_indexed run + indexed,
              run_removed := run_removed run + removed\<rparr>) db')"

text \<open>The revision a run reaches: the last of a full page of changes, else everything seen.\<close>

definition index_up_to :: "indexer_options \<Rightarrow> revision \<Rightarrow> revision \<Rightarrow> tuple_change list \<Rightarrow> revision" where
  "index_up_to opts cursor high changes =
     (let last_seen = (if changes = [] then cursor else change_revision (last changes)) in
      if length changes = change_page_size opts then last_seen
      else Revision (max (rev_value high) (rev_value last_seen)))"

definition changed_orgs :: "revision \<Rightarrow> revision \<Rightarrow> tuple_change list \<Rightarrow> database \<Rightarrow> org_id list" where
  "changed_orgs cursor up_to changes db =
     dedup (map change_org changes @ list_orgs_with_namespace_changes cursor up_to db)"

definition index_run :: "indexer_options \<Rightarrow> bool \<Rightarrow> run_reads \<Rightarrow> database \<Rightarrow> (indexer_run \<times> database) option" where
  "index_run opts locked reads db =
     (let cursor = read_cursor (reads_cursor reads) in
      if \<not> locked then Some (idle_run cursor, db)
      else case changelog_since_all cursor (change_page_size opts) (reads_changes reads) of
        Inl e \<Rightarrow> None
      | Inr changes \<Rightarrow>
          (let up_to = index_up_to opts cursor (current_revision (reads_high reads)) changes in
           if rev_value up_to \<le> rev_value cursor then Some (idle_run cursor, db)
           else Option.bind (reindex_orgs opts up_to (reads_org reads)
               (changed_orgs cursor up_to changes (reads_orgs reads)) (idle_run up_to) db)
             (\<lambda>(run, db'). Some (run, write_cursor up_to db'))))"

text \<open>A run during which nobody writes.\<close>

definition undisturbed :: "database \<Rightarrow> run_reads" where
  "undisturbed db = \<lparr>reads_cursor = db, reads_high = db, reads_changes = db, reads_orgs = db,
     reads_org = (\<lambda>org. \<lparr>reads_tuples = db, reads_namespaces = db, reads_usersets = db\<rparr>)\<rparr>"

definition index_run_once :: "indexer_options \<Rightarrow> bool \<Rightarrow> database \<Rightarrow> (indexer_run \<times> database) option" where
  "index_run_once opts locked db = index_run opts locked (undisturbed db) db"

text \<open>
  The databases a run reads when writers go on meanwhile: the ones it sees from the lock to the commit
  follow each other. (The cursor is read before the lock, from whatever database.)
\<close>

definition overlaps :: "platform \<Rightarrow> run_reads \<Rightarrow> database \<Rightarrow> bool" where
  "overlaps p reads db \<longleftrightarrow> later p (reads_high reads) (reads_changes reads) \<and>
     later p (reads_changes reads) (reads_orgs reads) \<and>
     (\<forall>org. later p (reads_orgs reads) (reads_tuples (reads_org reads org)) \<and>
        later p (reads_tuples (reads_org reads org)) (reads_namespaces (reads_org reads org)) \<and>
        later p (reads_namespaces (reads_org reads org)) (reads_usersets (reads_org reads org)) \<and>
        later p (reads_usersets (reads_org reads org)) db)"

lemma overlaps_undisturbed: "overlaps p (undisturbed db) db"
  by (simp add: overlaps_def undisturbed_def later.now)

section \<open>The interface of the index store\<close>

text \<open>
  What the indexer relies on: every set has the revision it is valid at and its members; replacing
  and removing one set leaves the others alone.
\<close>

locale set_index =
  fixes replace :: "'k \<Rightarrow> 'm list \<Rightarrow> nat \<Rightarrow> 's \<Rightarrow> 's option" and remove :: "'k \<Rightarrow> 's \<Rightarrow> 's"
    and valid :: "'s \<Rightarrow> 'k \<Rightarrow> nat option" and members :: "'s \<Rightarrow> 'k \<Rightarrow> 'm list" and sane :: "'s \<Rightarrow> bool"
  assumes replaced: "replace k ms v s = Some s' \<Longrightarrow> sane s \<Longrightarrow>
      sane s' \<and> valid s' = (valid s)(k \<mapsto> v) \<and> members s' = (members s)(k := ms)"
    and removed: "sane s \<Longrightarrow>
      sane (remove k s) \<and> valid (remove k s) = (valid s)(k := None) \<and> members (remove k s) = (members s)(k := [])"
begin

lemma removed_all:
  "sane s \<Longrightarrow> sane (foldl (\<lambda>s k. remove k s) s ks) \<and>
     valid (foldl (\<lambda>s k. remove k s) s ks) = (\<lambda>k. if k \<in> set ks then None else valid s k) \<and>
     (\<forall>k. k \<notin> set ks \<longrightarrow> members (foldl (\<lambda>s k. remove k s) s ks) k = members s k)"
proof (induction ks arbitrary: s)
  case (Cons k ks)
  from Cons.IH[of "remove k s"] removed[OF Cons.prems, of k] show ?case by (auto simp: fun_eq_iff)
qed simp

lemma replaced_all:
  "each (\<lambda>(k, ms) s. replace k ms v s) kms s = Some s' \<Longrightarrow> sane s \<Longrightarrow> distinct (map fst kms) \<Longrightarrow>
   sane s' \<and> valid s' = (\<lambda>k. if k \<in> fst ` set kms then Some v else valid s k) \<and>
   members s' = (\<lambda>k. case map_of kms k of Some ms \<Rightarrow> ms | None \<Rightarrow> members s k)"
proof (induction kms arbitrary: s)
  case (Cons p kms)
  obtain k ms where p: "p = (k, ms)" by (cases p)
  with Cons.prems obtain s1 where s1: "replace k ms v s = Some s1"
    "each (\<lambda>(k, ms) s. replace k ms v s) kms s1 = Some s'"
    by (auto simp: bind_eq_Some_conv)
  note first = replaced[OF s1(1) Cons.prems(2)]
  from Cons.IH[OF s1(2)] first Cons.prems(3) p
  have rest: "sane s'" "valid s' = (\<lambda>k. if k \<in> fst ` set kms then Some v else valid s1 k)"
    "members s' = (\<lambda>k. case map_of kms k of Some ms \<Rightarrow> ms | None \<Rightarrow> members s1 k)" by auto
  have "map_of kms k = None" using Cons.prems(3) p by (auto simp: map_of_eq_None_iff)
  with rest first p show ?case by (auto simp: fun_eq_iff split: option.splits)
qed simp

end

definition valid_revision :: "database \<Rightarrow> org_id \<times> membership_set_ref \<Rightarrow> nat option" where
  "valid_revision db k = map_of (map (\<lambda>r. (set_row_key r, sr_valid_at r)) (db_sets db)) (set_key_of (fst k) (snd k))"

definition row_member :: "member_row \<Rightarrow> flat_member" where
  "row_member m = \<lparr>member_ref = \<lparr>ref_type = mr_member_type m, ref_id = mr_member_id m\<rparr>, member_depth = mr_depth m\<rparr>"

definition index_members :: "database \<Rightarrow> org_id \<times> membership_set_ref \<Rightarrow> flat_member list" where
  "index_members db k =
     map row_member (filter (\<lambda>m. member_set_key m = set_key_of (fst k) (snd k)) (db_members db))"

definition sets_keyed :: "database \<Rightarrow> bool" where
  "sets_keyed db \<longleftrightarrow> distinct (map set_row_key (db_sets db))"

lemma set_key_of_inj: "set_key_of o1 s1 = set_key_of o2 s2 \<longleftrightarrow> o1 = o2 \<and> s1 = s2"
proof
  assume "set_key_of o1 s1 = set_key_of o2 s2"
  then have "org_value o1 = org_value o2" "ref_type (set_object s1) = ref_type (set_object s2)"
    "ref_id (set_object s1) = ref_id (set_object s2)" "set_relation s1 = set_relation s2"
    by (simp_all add: set_key_of_def)
  then show "o1 = o2 \<and> s1 = s2" by (metis entity_ref.equality membership_set_ref.equality org_id.expand unit.exhaust)
qed simp

lemma set_row_keys [simp]:
  "set_row_key (r\<lparr>sr_valid_at := n\<rparr>) = set_row_key r" "set_row_key (set_row_of org s v) = set_key_of org s"
  "sr_valid_at (set_row_of org s v) = rev_value v"
  by (simp_all add: set_row_key_def set_row_of_def set_key_of_def)

lemma member_rows_of_key:
  "m \<in> set (member_rows_of org s ms) \<Longrightarrow> member_set_key m = set_key_of org s"
  by (auto simp: member_rows_of_def member_set_key_def set_key_of_def)

lemma row_members_of: "map row_member (member_rows_of org s ms) = ms"
  by (induction ms) (simp_all add: member_rows_of_def row_member_def)

interpretation drizzle_index: set_index
  "\<lambda>k ms v db. index_replace (fst k) (snd k) ms (Revision v) db" "\<lambda>k db. index_remove (fst k) (snd k) db"
  valid_revision index_members sets_keyed
proof unfold_locales
  fix k ms v db db'
  assume "index_replace (fst k) (snd k) ms (Revision v) db = Some db'" "sets_keyed db"
  then have db': "db' = (let db1 = delete_members (fst k) (snd k) db in
      db1\<lparr>db_members := db_members db1 @ member_rows_of (fst k) (snd k) ms,
        db_sets := upsert_row set_row_key (\<lambda>r. r\<lparr>sr_valid_at := v\<rparr>)
          (set_row_of (fst k) (snd k) (Revision v)) (db_sets db1)\<rparr>)" and keyed: "sets_keyed db"
    by (auto simp: index_replace_def Let_def split: if_splits)
  have "filter (\<lambda>m. member_set_key m = set_key_of o1 s1) (member_rows_of (fst k) (snd k) ms) =
      (if (o1, s1) = k then member_rows_of (fst k) (snd k) ms else [])" for o1 s1
    by (auto simp: filter_empty_conv filter_id_conv set_key_of_inj dest!: member_rows_of_key)
  then have "index_members db' = (index_members db)(k := ms)"
    by (auto simp: db' index_members_def fun_eq_iff delete_members_def Let_def row_members_of set_key_of_inj
        intro!: arg_cong[where f = "map row_member"] filter_cong)
  moreover have "valid_revision db' = (valid_revision db)(k \<mapsto> v)"
    by (auto simp: db' valid_revision_def fun_eq_iff delete_members_def Let_def map_of_upsert_row
        set_key_of_inj split: option.splits)
  ultimately show "sets_keyed db' \<and> valid_revision db' = (valid_revision db)(k \<mapsto> v) \<and>
      index_members db' = (index_members db)(k := ms)"
    using keyed by (simp add: db' sets_keyed_def delete_members_def Let_def upsert_row_distinct)
next
  fix k db
  assume keyed: "sets_keyed db"
  have "index_members (index_remove (fst k) (snd k) db) = (index_members db)(k := [])"
    by (auto simp: index_remove_def index_members_def fun_eq_iff delete_members_def Let_def set_key_of_inj
        filter_empty_conv intro!: arg_cong[where f = "map row_member"] filter_cong)
  moreover have "valid_revision (index_remove (fst k) (snd k) db) = (valid_revision db)(k := None)"
    by (auto simp: index_remove_def valid_revision_def fun_eq_iff delete_members_def Let_def map_of_filter_key
        set_key_of_inj)
  ultimately show "sets_keyed (index_remove (fst k) (snd k) db) \<and>
      valid_revision (index_remove (fst k) (snd k) db) = (valid_revision db)(k := None) \<and>
      index_members (index_remove (fst k) (snd k) db) = (index_members db)(k := [])"
    using keyed by (simp add: index_remove_def sets_keyed_def delete_members_def Let_def distinct_map_filter)
qed

end
