(* ===== verification/IndexFresh.thy ===== *)
theory IndexFresh
  imports Indexer Decisions
begin

text \<open>
  What a reader may rely on: an entry of the membership index that is valid at or after the version
  of its organization is exactly the flattened set over the organization's current tuples. The proof
  follows the store's writers and the indexer's runs, in any order, with writes between the queries of
  a run.
\<close>

section \<open>What an organization's index is built from\<close>

definition org_view :: "org_id \<Rightarrow> database \<Rightarrow> tuple_row list \<times> namespace_row list \<times> change_row list" where
  "org_view org db =
     (filter (\<lambda>r. tr_org r = org_value org) (db_tuples db),
      filter (\<lambda>r. nr_org r = org_value org) (db_namespaces db),
      filter (\<lambda>r. cr_org r = org_value org) (db_changelog db))"

definition org_snapshot :: "org_id \<Rightarrow> database \<Rightarrow> snapshot" where
  "org_snapshot org db = \<lparr>snap_namespaces = registry_of (list_namespaces_by_org org db),
     snap_tuples = tuple_index_of org
       (case map_throws tuple_to_domain
          (sort_key (\<lambda>r. (tr_namespace r, tr_object_id r, tr_relation r, tr_subject r))
            (filter (\<lambda>r. tr_org r = org_value org) (db_tuples db))) of
          Inl e \<Rightarrow> [] | Inr ts \<Rightarrow> ts),
     snap_memberships = None\<rparr>"

lemma org_snapshot_view: "org_view org db = org_view org db' \<Longrightarrow> org_snapshot org db = org_snapshot org db'"
  by (simp add: org_view_def org_snapshot_def list_namespaces_by_org_def)

lemma organization_version_view:
  "org_view org db = org_view org db' \<Longrightarrow> organization_version org db = organization_version org db'"
  by (simp add: org_view_def organization_version_def)

lemma org_rows_view: "org_rows org db = org_rows org db' \<Longrightarrow> org_view org db = org_view org db'"
  by (simp add: org_rows_def org_view_def)

lemma fold_max_above: "x \<in> set xs \<Longrightarrow> x \<le> fold max xs (k :: nat)"
  by (simp add: fold_max_greatest)

lemma version_above_changes:
  "r \<in> set (db_changelog db) \<Longrightarrow> cr_org r = org_value org \<Longrightarrow>
   cr_revision r \<le> rev_value (organization_version org db)"
  unfolding organization_version_def revision.sel by (rule max.coboundedI1, rule fold_max_above) auto

lemma version_above_namespaces:
  "r \<in> set (db_namespaces db) \<Longrightarrow> nr_org r = org_value org \<Longrightarrow>
   nr_revision r \<le> rev_value (organization_version org db)"
  unfolding organization_version_def revision.sel by (rule max.coboundedI2, rule fold_max_above) auto

lemma upsert_row_has:
  "P row \<Longrightarrow> (\<And>r. key r = key row \<Longrightarrow> P (ch r)) \<Longrightarrow> \<exists>r \<in> set (upsert_row key ch row rs). P r"
  by (induction rs) auto

text \<open>An administrative step leaves an organization's view alone or moves its version past every revision.\<close>

lemma store_step_view:
  assumes "store_inv p db" "store_step p db db'"
  shows "org_view org db' = org_view org db \<or> db_sequence db < rev_value (organization_version org db')"
  using assms(2)
proof cases
  case (write_tuple now c)
  show ?thesis
  proof (cases "cmd_org c = org \<and> command_writable c")
    case True
    have "revisions_inv db" using assms(1) by (simp add: store_inv_def)
    with True write_tuple have "change_row_of (recorded_change UpsertOp now c (next_revision db)) \<in> set (db_changelog db')"
      by (simp add: writer_write_ok logged_def)
    from version_above_changes[OF this, of org] True show ?thesis
      by (simp add: change_row_of_def recorded_change_def next_revision_def)
  next
    case False
    then consider "cmd_org c \<noteq> org" | "\<not> command_writable c" by blast
    then show ?thesis
    proof cases
      case 1
      with org_rows_view[OF org_rows_other_write[OF assms(1), of c org now]] write_tuple show ?thesis by simp
    next
      case 2
      with writer_write_rejected[of c now db] write_tuple show ?thesis by (auto simp: org_view_def)
    qed
  qed
next
  case (revoke_tuple now c)
  have inv: "revisions_inv db" using assms(1) by (simp add: store_inv_def)
  consider "cmd_org c \<noteq> org" | "cmd_org c = org" "0 < fst (store_delete c (allocated_db db))"
    | "fst (store_delete c (allocated_db db)) = 0" by auto
  then show ?thesis
  proof cases
    case 1
    with org_rows_view[OF org_rows_other_revoke[OF assms(1), of c org now]] revoke_tuple show ?thesis by simp
  next
    case 2
    with revoke_tuple have "change_row_of (recorded_change DeleteOp now c (next_revision db)) \<in> set (db_changelog db')"
      by (simp add: writer_revoke_eq[OF inv] case_prod_unfold Let_def logged_def)
    from version_above_changes[OF this, of org] 2 show ?thesis
      by (simp add: change_row_of_def recorded_change_def next_revision_def)
  next
    case 3
    then have "filter (\<lambda>r. tuple_row_key r \<noteq> command_key c) (db_tuples db) = db_tuples db"
      by (auto simp: store_delete_def allocated_db_def Let_def filter_empty_conv filter_id_conv)
    with 3 revoke_tuple have "org_view org db' = org_view org db"
      by (simp add: writer_revoke_eq[OF inv] case_prod_unfold Let_def org_view_def)
        (simp add: store_delete_def allocated_db_def)
    then show ?thesis ..
  qed
next
  case (define_ns now d)
  show ?thesis
  proof (cases rule: writer_define_cases[of now d db])
    case (rejected e)
    with define_ns show ?thesis by simp
  next
    case (defined config)
    show ?thesis
    proof (cases "define_org d = org")
      case True
      have "\<exists>r \<in> set (db_namespaces db'). nr_org r = org_value org \<and> nr_revision r = db_sequence db + 1"
        unfolding define_ns defined(3)
        by (simp add: namespace_save_def, rule upsert_row_has)
          (auto simp: next_revision_def namespace_row_of_def namespace_row_key_def True)
      then obtain r where r: "r \<in> set (db_namespaces db')" "nr_org r = org_value org"
        "nr_revision r = db_sequence db + 1" by blast
      from version_above_namespaces[OF r(1,2)] r(3) show ?thesis by simp
    next
      case False
      with org_rows_view[OF org_rows_other_define[OF assms(1), of d org now]] define_ns show ?thesis by simp
    qed
  qed
next
  case (write_policy w)
  then show ?thesis
    by (cases rule: writer_policy_cases[of p w db])
      (simp_all add: org_view_def policy_upsert_def allocated_db_def)
next
  case (delete_policy org' i)
  then show ?thesis by (simp add: writer_policy_delete_eq policy_delete_def allocated_db_def org_view_def)
qed

lemma later_view:
  "later p a b \<Longrightarrow> store_inv p a \<Longrightarrow> org_view org b = org_view org a \<or> db_sequence a < rev_value (organization_version org b)"
proof (induction rule: later.induct)
  case (then_step a b c)
  from later_changelog[OF then_step.hyps(1) then_step.prems] have b: "store_inv p b" "db_sequence a \<le> db_sequence b" by blast+
  from store_step_view[OF b(1) then_step.hyps(2), of org] then_step.IH[OF then_step.prems] b(2) show ?case
    using organization_version_view[of org c b] by auto
qed simp

section \<open>One organization rebuilt\<close>

lemma core_view: "core db = core db' \<Longrightarrow> org_view org db = org_view org db'"
  by (simp add: org_view_def core_fields[of db db'])

lemma core_remove [simp]: "core (index_remove org s db) = core db"
  by (simp add: core_def index_remove_def delete_members_def Let_def)

lemma core_replace: "index_replace org s ms v db = Some db' \<Longrightarrow> core db' = core db"
  by (auto simp: core_def index_replace_def delete_members_def Let_def split: if_splits)

lemma core_removes [simp]: "core (foldl (\<lambda>db s. index_remove org s db) db ss) = core db"
  by (induction ss arbitrary: db) simp_all

lemma each_invariant:
  "each f xs s = Some s' \<Longrightarrow> (\<And>x s s'. f x s = Some s' \<Longrightarrow> g s' = g s) \<Longrightarrow> g s' = g s"
  by (induction xs arbitrary: s) (auto simp: bind_eq_Some_conv)

lemma core_replaces: "replace_all org v wanted db = Some db' \<Longrightarrow> core db' = core db"
  unfolding replace_all_def by (erule each_invariant) (auto dest: core_replace)

lemma each_map: "each f (map g xs) = each (\<lambda>x. f (g x)) xs"
proof (induction xs)
  case (Cons x xs)
  then have "each f (map g xs) = each (\<lambda>x. f (g x)) xs" by simp
  then show ?case by (intro ext) simp
qed (simp add: fun_eq_iff)

text \<open>The wanted sets: each is the flattened set of its reference, under its own key.\<close>

definition flattens :: "snapshot \<Rightarrow> membership_set_ref \<Rightarrow> flat_member list \<Rightarrow> bool" where
  "flattens snap s ms \<longleftrightarrow> flatten_set (set_object s) (set_relation s) snap = Some \<lparr>flat_members = ms, flat_monotonic = True\<rparr>"

definition wanted_ok :: "snapshot \<Rightarrow> (entity_ref \<times> string) set \<Rightarrow> wanted_sets \<Rightarrow> bool" where
  "wanted_ok snap usersets wanted \<longleftrightarrow> distinct (map fst wanted) \<and>
     (\<forall>(key, s, ms) \<in> set wanted. key = set_key_text s \<and> (set_object s, set_relation s) \<in> usersets \<and> flattens snap s ms)"

lemma wanted_ok_update:
  assumes "wanted_ok snap us wanted" "(set_object s, set_relation s) \<in> us" "flattens snap s ms"
  shows "wanted_ok snap us (AList.update (set_key_text s) (s, ms) wanted)"
proof -
  have "set (AList.update (set_key_text s) (s, ms) wanted) \<subseteq> insert (set_key_text s, s, ms) (set wanted)"
    by (induction wanted) auto
  then show ?thesis
    using assms unfolding wanted_ok_def by (auto intro: distinct_update)
qed

lemma collect_wanted_ok:
  "collect_wanted snap usersets wanted = Some wanted' \<Longrightarrow> set usersets \<subseteq> us \<Longrightarrow>
   wanted_ok snap us wanted \<Longrightarrow> wanted_ok snap us wanted'"
proof (induction snap usersets wanted rule: collect_wanted.induct)
  case (2 snap object relation usersets wanted)
  then obtain fl where fl: "flatten_set object relation snap = Some fl"
    "collect_wanted snap usersets (if flat_monotonic fl
       then AList.update (set_key_text \<lparr>set_object = object, set_relation = relation\<rparr>)
         (\<lparr>set_object = object, set_relation = relation\<rparr>, flat_members fl) wanted else wanted) = Some wanted'"
    by (auto simp: bind_eq_Some_conv Let_def)
  from fl(1) have "flat_monotonic fl \<Longrightarrow> flattens snap \<lparr>set_object = object, set_relation = relation\<rparr> (flat_members fl)"
    by (cases fl) (simp add: flattens_def)
  with "2.prems"(2,3) have "wanted_ok snap us (if flat_monotonic fl
       then AList.update (set_key_text \<lparr>set_object = object, set_relation = relation\<rparr>)
         (\<lparr>set_object = object, set_relation = relation\<rparr>, flat_members fl) wanted else wanted)"
    by (auto intro!: wanted_ok_update)
  from "2.IH"[OF fl(1) refl fl(2) _ this] "2.prems"(2) show ?case by simp
qed simp

lemma wanted_sets_distinct:
  assumes "wanted_ok snap us wanted"
  shows "distinct (map (\<lambda>(key, s, ms). (org, s)) wanted)"
proof -
  have "map fst wanted = map set_key_text (map (\<lambda>(key, s, ms). s) wanted)"
    using assms by (auto simp: wanted_ok_def)
  moreover have "distinct (map fst wanted)" using assms by (simp add: wanted_ok_def)
  ultimately have "distinct (map set_key_text (map (\<lambda>(key, s, ms). s) wanted))" by (simp only:)
  then have "distinct (map (\<lambda>(key, s, ms). s) wanted)" by (rule distinct_map[THEN iffD1, THEN conjunct1])
  then have "distinct (map (Pair org) (map (\<lambda>(key, s, ms). s) wanted))" by (simp add: distinct_map inj_on_def)
  then show ?thesis by (simp add: comp_def case_prod_unfold)
qed

lemma list_sets_valid: "s \<in> set (list_sets org db) \<longleftrightarrow> valid_revision db (org, s) \<noteq> None"
proof -
  have "s \<in> set (list_sets org db) \<longleftrightarrow> set_key_of org s \<in> set_row_key ` set (db_sets db)"
  proof -
    have "(sr_org r = org_value org \<and> s = \<lparr>set_object = \<lparr>ref_type = sr_type r, ref_id = sr_id r\<rparr>, set_relation = sr_relation r\<rparr>) \<longleftrightarrow>
        set_row_key r = set_key_of org s" for r
      by (cases s; cases "set_object s") (auto simp: set_key_of_def set_row_key_def)
    then show ?thesis unfolding list_sets_def by (auto simp: image_iff) metis+
  qed
  also have "\<dots> \<longleftrightarrow> valid_revision db (org, s) \<noteq> None"
    by (auto simp: valid_revision_def map_of_eq_None_iff image_iff)
  finally show ?thesis .
qed

definition plain_set :: "membership_set_ref \<Rightarrow> bool" where
  "plain_set s \<longleftrightarrow> plain_node (set_object s) (set_relation s)"

lemma set_key_text_inj: "plain_set s \<Longrightarrow> plain_set t \<Longrightarrow> set_key_text s = set_key_text t \<Longrightarrow> s = t"
  using node_key_inj[of "set_object s" "set_relation s" "set_object t" "set_relation t"]
  by (auto simp: plain_set_def set_key_text_def)

lemma referenced_usersets_plain:
  assumes "rows_inv p db" "list_referenced_usersets org db = Inr usersets" "(object, relation) \<in> set usersets"
  shows "plain_node object relation"
proof -
  from assms(2,3) obtain ss where ss: "map_throws parse_subject (sort (dedup (map tr_subject
         (filter (\<lambda>r. tr_org r = org_value org \<and> CHR ''#'' \<in> set (tr_subject r)) (db_tuples db))))) = Inr ss"
    and mem: "UsersetSubject object relation \<in> set ss"
    by (auto simp: list_referenced_usersets_def map_sum_def split: sum.splits subject_ref.splits)
  from mem map_throws_set[OF ss] obtain r where r: "r \<in> set (db_tuples db)"
    "parse_subject (tr_subject r) = Inr (UsersetSubject object relation)" by auto
  from assms(1) r(1) obtain t where "tuple_to_domain r = Inr t" "writable_tuple t"
    unfolding rows_inv_def by blast
  with r(2) have "assert_writable_subject (UsersetSubject object relation) = None"
    by (auto simp: tuple_to_domain_def writable_tuple_def simp del: assert_writable_subject.simps)
  then show ?thesis
    using is_identifier_plain[of "ref_type object"] is_identifier_plain[of relation]
    by (auto simp: plain_node_def assert_writable_entity_ref_def split: option.splits if_splits)
qed

text \<open>The rows of one organization after its rebuild, and those of every other.\<close>

definition exact_set :: "org_id \<Rightarrow> membership_set_ref \<Rightarrow> database \<Rightarrow> bool" where
  "exact_set org s db \<longleftrightarrow> plain_set s \<and> flattens (org_snapshot org db) s (index_members db (org, s))"

lemma reindex_snapshot:
  assumes "list_tuples (all_tuples_of org (n + 1)) tdb = Inr ts" "length ts \<le> n"
    and "org_view org tdb = org_view org db" "org_view org ndb = org_view org db"
  shows "\<lparr>snap_namespaces = registry_of (list_namespaces_by_org org ndb),
     snap_tuples = tuple_index_of org ts, snap_memberships = None\<rparr> = org_snapshot org db"
proof -
  let ?rows = "\<lambda>db. sort_key (\<lambda>r. (tr_namespace r, tr_object_id r, tr_relation r, tr_subject r))
      (filter (\<lambda>r. tr_org r = org_value org) (db_tuples db))"
  have "matches_filter (all_tuples_of org (n + 1)) = (\<lambda>r. tr_org r = org_value org)"
    by (simp add: fun_eq_iff matches_filter_def all_tuples_of_def given_def)
  then have ts: "map_throws tuple_to_domain (take (n + 1) (?rows tdb)) = Inr ts"
    using assms(1) by (simp add: list_tuples_def slice_def all_tuples_of_def)
  from ts[unfolded map_throws_ok_iff] have "length (take (n + 1) (?rows tdb)) = length ts" by (rule list_all2_lengthD)
  with assms(2) have "length (?rows tdb) \<le> n + 1" by simp
  with ts have "map_throws tuple_to_domain (?rows tdb) = Inr ts" by simp
  moreover have "?rows tdb = ?rows db" "list_namespaces_by_org org ndb = list_namespaces_by_org org db"
    using assms(3,4) by (simp_all add: org_view_def list_namespaces_by_org_def)
  ultimately show ?thesis by (simp add: org_snapshot_def)
qed

lemma replace_all_view:
  assumes "replace_all org v wanted db = Some db'" "sets_keyed db" "wanted_ok snap us wanted"
  shows "sets_keyed db'"
    "valid_revision db' = (\<lambda>k. if k \<in> (\<lambda>(key, s, ms). (org, s)) ` set wanted then Some (rev_value v) else valid_revision db k)"
    "index_members db' = (\<lambda>k. case map_of (map (\<lambda>(key, s, ms). ((org, s), ms)) wanted) k of
       Some ms \<Rightarrow> ms | None \<Rightarrow> index_members db k)"
proof -
  let ?kms = "map (\<lambda>(key, s, ms). ((org, s), ms)) wanted"
  have "each (\<lambda>(k, ms) db. index_replace (fst k) (snd k) ms (Revision (rev_value v)) db) ?kms db = Some db'"
    using assms(1) unfolding replace_all_def each_map by (simp add: case_prod_unfold)
  moreover have "distinct (map fst ?kms)"
    using wanted_sets_distinct[OF assms(3), of org] by (simp add: comp_def case_prod_unfold)
  moreover have "fst ` set ?kms = (\<lambda>(key, s, ms). (org, s)) ` set wanted" by force
  ultimately show "sets_keyed db'"
    "valid_revision db' = (\<lambda>k. if k \<in> (\<lambda>(key, s, ms). (org, s)) ` set wanted then Some (rev_value v) else valid_revision db k)"
    "index_members db' = (\<lambda>k. case map_of ?kms k of Some ms \<Rightarrow> ms | None \<Rightarrow> index_members db k)"
    using drizzle_index.replaced_all[of "rev_value v" ?kms db db'] assms(2) by auto
qed

definition sets_plain :: "database \<Rightarrow> bool" where
  "sets_plain db \<longleftrightarrow> (\<forall>org s. valid_revision db (org, s) \<noteq> None \<longrightarrow> plain_set s)"

lemma reindex_org_view:
  assumes "reindex_org opts org v reads db = Some (Some counts, db')" "rows_inv p (reads_usersets reads)"
    and "sets_keyed db" "sets_plain db"
  shows "core db' = core db" "sets_keyed db'"
    "org' \<noteq> org \<Longrightarrow> valid_revision db' (org', s) = valid_revision db (org', s) \<and>
       index_members db' (org', s) = index_members db (org', s)"
    "valid_revision db' (org, s) = Some n \<Longrightarrow> n = rev_value v \<and> plain_set s \<and>
       (org_view org (reads_tuples reads) = org_view org db \<longrightarrow> org_view org (reads_namespaces reads) = org_view org db \<longrightarrow>
        exact_set org s db')"
proof -
  from assms(1) obtain ts usersets wanted where
    ts: "list_tuples (all_tuples_of org (max_tuples_per_org opts + 1)) (reads_tuples reads) = Inr ts" "length ts \<le> max_tuples_per_org opts"
    and us: "list_referenced_usersets org (reads_usersets reads) = Inr usersets"
    and w: "collect_wanted \<lparr>snap_namespaces = registry_of (list_namespaces_by_org org (reads_namespaces reads)),
        snap_tuples = tuple_index_of org ts, snap_memberships = None\<rparr> usersets [] = Some wanted"
    and r: "replace_all org v wanted (foldl (\<lambda>db s. index_remove org s db) db (stale_sets org wanted db)) = Some db'"
    by (auto simp: reindex_org_def Let_def bind_eq_Some_conv split: sum.splits if_splits)
  let ?snap = "\<lparr>snap_namespaces = registry_of (list_namespaces_by_org org (reads_namespaces reads)),
      snap_tuples = tuple_index_of org ts, snap_memberships = None\<rparr>"
  let ?db1 = "foldl (\<lambda>db s. index_remove org s db) db (stale_sets org wanted db)"
  have ok: "wanted_ok ?snap (set usersets) wanted"
    using collect_wanted_ok[OF w order_refl] by (simp add: wanted_ok_def)
  have plain: "plain_set s" if "(key, s, ms) \<in> set wanted" for key s ms
    using ok that referenced_usersets_plain[OF assms(2) us] unfolding wanted_ok_def plain_set_def by blast
  have fold: "?db1 = foldl (\<lambda>db k. index_remove (fst k) (snd k) db) db (map (Pair org) (stale_sets org wanted db))"
    by (simp add: foldl_map)
  note removed = drizzle_index.removed_all[OF assms(3), of "map (Pair org) (stale_sets org wanted db)", folded fold]
  from removed have keyed1: "sets_keyed ?db1" by blast
  note view = replace_all_view[OF r keyed1 ok]
  show core: "core db' = core db" using core_replaces[OF r] by simp
  show "sets_keyed db'" by (rule view(1))
  {
    assume ne: "org' \<noteq> org"
    have m: "map_of (map (\<lambda>(key, s, ms). ((org, s), ms)) wanted) (org', s) = None"
      using ne by (auto simp: map_of_eq_None_iff)
    have "(org', s) \<notin> set (map (Pair org) (stale_sets org wanted db))" using ne by auto
    moreover have "(org', s) \<notin> (\<lambda>(key, s, ms). (org, s)) ` set wanted" using ne by auto
    ultimately show "valid_revision db' (org', s) = valid_revision db (org', s) \<and>
       index_members db' (org', s) = index_members db (org', s)"
      using view removed m by simp
  next
    assume some: "valid_revision db' (org, s) = Some n"
    have "\<exists>key ms. (key, s, ms) \<in> set wanted"
    proof (rule ccontr)
      assume none: "\<nexists>key ms. (key, s, ms) \<in> set wanted"
      then have "(org, s) \<notin> (\<lambda>(key, s, ms). (org, s)) ` set wanted" by auto
      with some view(2) have "valid_revision ?db1 (org, s) = Some n" by simp
      with removed have in_db: "valid_revision db (org, s) \<noteq> None" and "s \<notin> set (stale_sets org wanted db)"
        by (auto split: if_splits)
      then have "map_of wanted (set_key_text s) \<noteq> None"
        by (auto simp: stale_sets_def list_sets_valid)
      then obtain t ms where "(set_key_text s, t, ms) \<in> set wanted" by (auto dest: map_of_SomeD)
      moreover from this ok have "set_key_text t = set_key_text s" unfolding wanted_ok_def by force
      ultimately show False
        using set_key_text_inj[of t s] plain assms(4) in_db none unfolding sets_plain_def by metis
    qed
    then obtain key ms where mem: "(key, s, ms) \<in> set wanted" by blast
    then have "(org, s) \<in> (\<lambda>(key, s, ms). (org, s)) ` set wanted" by force
    then have n: "n = rev_value v" using some unfolding view(2) by simp
    have "map_of (map (\<lambda>(key, s, ms). ((org, s), ms)) wanted) (org, s) = Some ms"
      using mem wanted_sets_distinct[OF ok, of org] by (intro map_of_is_SomeI) (force simp: comp_def case_prod_unfold)+
    then have "index_members db' (org, s) = ms" using view(3) by simp
    moreover have "flattens ?snap s ms" using ok mem unfolding wanted_ok_def by blast
    moreover have "org_snapshot org db' = org_snapshot org db" by (rule org_snapshot_view[OF core_view[OF core]])
    moreover have "?snap = org_snapshot org db"
      if "org_view org (reads_tuples reads) = org_view org db" "org_view org (reads_namespaces reads) = org_view org db"
      by (rule reindex_snapshot[OF ts that])
    ultimately have "exact_set org s db'"
      if "org_view org (reads_tuples reads) = org_view org db" "org_view org (reads_namespaces reads) = org_view org db"
      using that plain[OF mem] unfolding exact_set_def by metis
    then show "n = rev_value v \<and> plain_set s \<and>
       (org_view org (reads_tuples reads) = org_view org db \<longrightarrow> org_view org (reads_namespaces reads) = org_view org db \<longrightarrow>
        exact_set org s db')"
      using n plain[OF mem] by blast
  }
qed

section \<open>The invariant of the index\<close>

definition index_inv :: "platform \<Rightarrow> database \<Rightarrow> bool" where
  "index_inv p db \<longleftrightarrow> store_inv p db \<and> sets_keyed db \<and> sets_plain db \<and>
     (\<forall>org s n. valid_revision db (org, s) = Some n \<longrightarrow> n \<le> db_sequence db \<and>
        (rev_value (organization_version org db) \<le> n \<longrightarrow> exact_set org s db))"

lemma index_tables_simps [simp]:
  "db_sets (logged op now c r db) = db_sets db" "db_members (logged op now c r db) = db_members db"
  "db_sets (store_upsert t db) = db_sets db" "db_members (store_upsert t db) = db_members db"
  "db_sets (snd (store_delete c db)) = db_sets db" "db_members (snd (store_delete c db)) = db_members db"
  "db_sets (allocated_db db) = db_sets db" "db_members (allocated_db db) = db_members db"
  "db_sets (namespace_save d db) = db_sets db" "db_members (namespace_save d db) = db_members db"
  "db_sets (policy_upsert q db) = db_sets db" "db_members (policy_upsert q db) = db_members db"
  "db_sets (snd (policy_delete org i db)) = db_sets db" "db_members (snd (policy_delete org i db)) = db_members db"
  "db_sequence (logged op now c r db) = db_sequence db" "db_sequence (store_upsert t db) = db_sequence db"
  "db_sequence (snd (store_delete c db)) = db_sequence db" "db_sequence (allocated_db db) = db_sequence db + 1"
  "db_sequence (namespace_save d db) = db_sequence db" "db_sequence (policy_upsert q db) = db_sequence db"
  "db_sequence (snd (policy_delete org i db)) = db_sequence db"
  by (simp_all add: logged_def store_upsert_def store_delete_def allocated_db_def namespace_save_def
      policy_upsert_def policy_delete_def Let_def)

lemma store_step_tables:
  assumes "store_inv p db" "store_step p db db'"
  shows "db_sets db' = db_sets db \<and> db_members db' = db_members db \<and> db_sequence db \<le> db_sequence db'"
proof -
  have inv: "revisions_inv db" using assms(1) by (simp add: store_inv_def)
  show ?thesis
    using assms(2)
  proof cases
    case (write_tuple now c)
    show ?thesis
    proof (cases "command_writable c")
      case True
      with write_tuple show ?thesis by (simp add: writer_write_ok[OF inv])
    next
      case False
      with writer_write_rejected[of c now db] write_tuple show ?thesis by auto
    qed
  next
    case (revoke_tuple now c)
    then show ?thesis by (simp add: writer_revoke_eq[OF inv] case_prod_unfold Let_def)
  next
    case (define_ns now d)
    then show ?thesis by (cases rule: writer_define_cases[of now d db]) simp_all
  next
    case (write_policy w)
    then show ?thesis by (cases rule: writer_policy_cases[of p w db]) simp_all
  next
    case (delete_policy org i)
    then show ?thesis by (simp add: writer_policy_delete_eq)
  qed
qed

lemma index_inv_store_step:
  assumes "index_inv p db" "store_step p db db'"
  shows "index_inv p db'"
proof -
  have inv: "store_inv p db" using assms(1) by (simp add: index_inv_def)
  note tables = store_step_tables[OF inv assms(2)]
  then have valid: "valid_revision db' = valid_revision db" and mem: "index_members db' = index_members db"
    by (simp_all add: valid_revision_def index_members_def fun_eq_iff)
  have "n \<le> db_sequence db' \<and> (rev_value (organization_version org db') \<le> n \<longrightarrow> exact_set org s db')"
    if n: "valid_revision db' (org, s) = Some n" for org s n
  proof -
    have old: "n \<le> db_sequence db" "rev_value (organization_version org db) \<le> n \<Longrightarrow> exact_set org s db"
      using assms(1) n unfolding valid index_inv_def by blast+
    from store_step_view[OF inv assms(2), of org]
    show ?thesis
    proof
      assume view: "org_view org db' = org_view org db"
      show ?thesis
        using old tables organization_version_view[OF view] org_snapshot_view[OF view] mem
        by (simp add: exact_set_def)
    qed (use old tables in simp)
  qed
  then show ?thesis
    using assms(1) store_inv_step[OF inv assms(2)] tables valid
    unfolding index_inv_def by (simp add: sets_keyed_def sets_plain_def)
qed

text \<open>
  What the queries of one \<open>reindexOrg\<close> have seen: unless the organization has changed since the revision
  of the run, its rows as they are when the run commits.
\<close>

definition settled :: "platform \<Rightarrow> org_id \<Rightarrow> revision \<Rightarrow> org_reads \<Rightarrow> database \<Rightarrow> bool" where
  "settled p org v reads db \<longleftrightarrow> rows_inv p (reads_usersets reads) \<and> rev_value v \<le> db_sequence db \<and>
     (rev_value (organization_version org db) \<le> rev_value v \<longrightarrow>
        org_view org (reads_tuples reads) = org_view org db \<and> org_view org (reads_namespaces reads) = org_view org db)"

lemma settled_core: "core db' = core db \<Longrightarrow> settled p org v reads db' = settled p org v reads db"
  using core_view[of db' db org] organization_version_view[OF core_view[of db' db org]]
  by (simp add: settled_def core_fields(5)[of db' db])

lemma index_inv_reindex:
  assumes "index_inv p db" "reindex_org opts org v reads db = Some (counts, db')" "settled p org v reads db"
  shows "index_inv p db' \<and> core db' = core db"
proof (cases counts)
  case None
  with assms show ?thesis
    by (auto simp: reindex_org_def Let_def bind_eq_Some_conv split: sum.splits if_splits)
next
  case (Some c)
  have inv: "store_inv p db" "sets_keyed db" "sets_plain db" "rows_inv p (reads_usersets reads)"
    using assms(1,3) by (simp_all add: index_inv_def settled_def)
  note view = reindex_org_view[OF assms(2)[unfolded Some] inv(4,2,3)]
  have seq: "db_sequence db' = db_sequence db" by (rule core_fields(5)[OF view(1)])
  have each: "plain_set s \<and> n \<le> db_sequence db' \<and> (rev_value (organization_version org' db') \<le> n \<longrightarrow> exact_set org' s db')"
    if n: "valid_revision db' (org', s) = Some n" for org' s n
  proof (cases "org' = org")
    case True
    with view(4)[of s n] n assms(3) seq organization_version_view[OF core_view[OF view(1)], of org]
    show ?thesis by (auto simp: settled_def)
  next
    case False
    from core_view[OF view(1), of org'] have same: "org_view org' db' = org_view org' db" .
    from view(3)[OF False, of s] have "valid_revision db' (org', s) = valid_revision db (org', s)"
      "index_members db' (org', s) = index_members db (org', s)" by blast+
    moreover from this(1) n have "plain_set s" using inv(3) unfolding sets_plain_def by (metis option.distinct(1))
    moreover have "n \<le> db_sequence db \<and> (rev_value (organization_version org' db) \<le> n \<longrightarrow> exact_set org' s db)"
      using assms(1) n calculation(1) unfolding index_inv_def by metis
    ultimately show ?thesis
      using organization_version_view[OF same] org_snapshot_view[OF same] seq by (simp add: exact_set_def)
  qed
  have "store_inv p db'" using core_store_inv[OF view(1)] inv(1) by simp
  with view(1,2) each show ?thesis
    unfolding index_inv_def sets_plain_def by blast
qed

lemma index_inv_reindex_orgs:
  "reindex_orgs opts v reads orgs run db = Some (run', db') \<Longrightarrow> index_inv p db \<Longrightarrow>
   (\<And>org. settled p org v (reads org) db) \<Longrightarrow> index_inv p db'"
proof (induction orgs arbitrary: run db)
  case (Cons org orgs)
  from Cons.prems(1) obtain c db1 run1 where step: "reindex_org opts org v (reads org) db = Some (c, db1)"
    "reindex_orgs opts v reads orgs run1 db1 = Some (run', db')"
    by (auto simp: bind_eq_Some_conv)
  from index_inv_reindex[OF Cons.prems(2) step(1) Cons.prems(3)] have next_inv: "index_inv p db1" and "core db1 = core db" by blast+
  from Cons.IH[OF step(2) next_inv] settled_core[OF \<open>core db1 = core db\<close>] Cons.prems(3) show ?case by blast
qed simp

lemma index_inv_cursor: "index_inv p (write_cursor r db) = index_inv p db"
proof -
  have "core (write_cursor r db) = core db" by (simp add: core_def write_cursor_def)
  note store = core_store_inv[OF this] and view = core_view[OF this]
  have "organization_version org (write_cursor r db) = organization_version org db"
    "org_snapshot org (write_cursor r db) = org_snapshot org db" for org
    by (rule organization_version_view[OF view], rule org_snapshot_view[OF view])
  moreover have "valid_revision (write_cursor r db) = valid_revision db" "index_members (write_cursor r db) = index_members db"
    by (simp_all add: valid_revision_def index_members_def write_cursor_def fun_eq_iff)
  moreover have "sets_keyed (write_cursor r db) = sets_keyed db" "db_sequence (write_cursor r db) = db_sequence db"
    by (simp_all add: sets_keyed_def write_cursor_def)
  ultimately show ?thesis by (simp add: index_inv_def sets_plain_def exact_set_def store)
qed

lemma changes_bound:
  assumes "store_inv p db" "changelog_since_all after limit db = Inr changes" "c \<in> set changes"
  shows "rev_value (change_revision c) \<le> db_sequence db"
proof -
  from map_throws_set[OF assms(2)[unfolded changelog_since_all_def]] assms(3)
  obtain r where t: "r \<in> set (take limit (sort_key (\<lambda>r. (cr_revision r, cr_org r, cr_namespace r, cr_object_id r,
      cr_relation r, cr_subject r)) (filter (\<lambda>r. cr_revision r > rev_value after) (db_changelog db))))"
    and d: "change_to_domain r = Inr c" by blast
  from in_set_takeD[OF t] have "r \<in> set (db_changelog db)" by simp
  note r = this d
  have "cr_revision r \<le> db_sequence db"
    using changelog_bound[of db] assms(1) r(1) by (auto simp: store_inv_def)
  then show ?thesis
    using r(2) by (cases "parse_subject (cr_subject r)") (auto simp: change_to_domain_def)
qed

lemma index_inv_later: "later p a b \<Longrightarrow> index_inv p a \<Longrightarrow> index_inv p b"
  by (induction rule: later.induct) (auto intro: index_inv_store_step)

lemma overlaps_later:
  assumes "overlaps p reads db"
  shows "later p (reads_tuples (reads_org reads org)) db" "later p (reads_namespaces (reads_org reads org)) db"
    "later p (reads_high reads) db"
proof -
  let ?o = "reads_org reads org"
  from assms have o: "later p (reads_orgs reads) (reads_tuples ?o)" "later p (reads_tuples ?o) (reads_namespaces ?o)"
      "later p (reads_namespaces ?o) (reads_usersets ?o)" "later p (reads_usersets ?o) db"
    and c: "later p (reads_high reads) (reads_changes reads)" "later p (reads_changes reads) (reads_orgs reads)"
    by (simp_all add: overlaps_def)
  show n: "later p (reads_namespaces ?o) db" by (rule later_trans[OF o(4) o(3)])
  show t: "later p (reads_tuples ?o) db" by (rule later_trans[OF n o(2)])
  show "later p (reads_high reads) db"
    by (rule later_trans[OF later_trans[OF later_trans[OF t o(1)] c(2)] c(1)])
qed

lemma overlaps_settled:
  assumes "overlaps p reads db" "store_inv p (reads_high reads)" "rev_value v \<le> db_sequence (reads_orgs reads)"
  shows "settled p org v (reads_org reads org) db"
proof -
  let ?o = "reads_org reads org"
  note follow = assms(1)[unfolded overlaps_def]
  have a: "store_inv p (reads_orgs reads)"
    using follow later_changelog[of p "reads_high reads" "reads_changes reads"]
      later_changelog[of p "reads_changes reads" "reads_orgs reads"] assms(2) by blast
  have t: "store_inv p (reads_tuples ?o)" "db_sequence (reads_orgs reads) \<le> db_sequence (reads_tuples ?o)"
    using follow later_changelog[OF _ a] by blast+
  have n: "store_inv p (reads_namespaces ?o)" "db_sequence (reads_tuples ?o) \<le> db_sequence (reads_namespaces ?o)"
    using follow later_changelog[OF _ t(1)] by blast+
  have u: "store_inv p (reads_usersets ?o)" "db_sequence (reads_namespaces ?o) \<le> db_sequence (reads_usersets ?o)"
    using follow later_changelog[OF _ n(1)] by blast+
  have commit: "db_sequence (reads_usersets ?o) \<le> db_sequence db"
    using follow later_changelog[OF _ u(1)] by blast
  have "org_view org (reads_tuples ?o) = org_view org db" "org_view org (reads_namespaces ?o) = org_view org db"
    if "rev_value (organization_version org db) \<le> rev_value v"
    using later_view[OF overlaps_later(1)[OF assms(1), of org] t(1), of org]
      later_view[OF overlaps_later(2)[OF assms(1), of org] n(1), of org] that assms(3) t(2) n(2) by auto
  moreover have "rows_inv p (reads_usersets ?o)" using u(1) by (simp add: store_inv_def)
  moreover have "rev_value v \<le> db_sequence db" using assms(3) t(2) n(2) u(2) commit by simp
  ultimately show ?thesis by (simp add: settled_def)
qed

lemma index_inv_run:
  assumes "index_inv p (reads_high reads)" "overlaps p reads db" "index_run opts locked reads db = Some (run, db')"
  shows "index_inv p db'"
proof -
  let ?cursor = "read_cursor (reads_cursor reads)" and ?high = "current_revision (reads_high reads)"
  note follow = assms(2)[unfolded overlaps_def]
  have high: "store_inv p (reads_high reads)" using assms(1) by (simp add: index_inv_def)
  then have changes: "store_inv p (reads_changes reads)" "db_sequence (reads_high reads) \<le> db_sequence (reads_changes reads)"
    and orgs: "db_sequence (reads_changes reads) \<le> db_sequence (reads_orgs reads)"
    using follow later_changelog by blast+
  have db: "index_inv p db" by (rule index_inv_later[OF overlaps_later(3)[OF assms(2)] assms(1)])
  show ?thesis
  proof (cases "db' = db")
    case False
    with assms(3) obtain cs db1 where ch: "changelog_since_all ?cursor (change_page_size opts) (reads_changes reads) = Inr cs"
      and moves: "rev_value ?cursor < rev_value (index_up_to opts ?cursor ?high cs)"
      and rebuilt: "reindex_orgs opts (index_up_to opts ?cursor ?high cs) (reads_org reads)
         (changed_orgs ?cursor (index_up_to opts ?cursor ?high cs) cs (reads_orgs reads))
         (idle_run (index_up_to opts ?cursor ?high cs)) db = Some (run, db1)"
      and db': "db' = write_cursor (index_up_to opts ?cursor ?high cs) db1"
      by (auto simp: index_run_def Let_def bind_eq_Some_conv split: sum.splits if_splits)
    have "rev_value ?high \<le> db_sequence (reads_orgs reads)"
      using high changes(2) orgs current_revision_bound[of "reads_high reads"] by (simp add: store_inv_def)
    moreover have "cs \<noteq> [] \<Longrightarrow> rev_value (change_revision (last cs)) \<le> db_sequence (reads_orgs reads)"
      using order_trans[OF changes_bound[OF changes(1) ch] orgs] by simp
    ultimately have "rev_value (index_up_to opts ?cursor ?high cs) \<le> db_sequence (reads_orgs reads)"
      using moves by (auto simp: index_up_to_def Let_def max_def split: if_splits)
    from index_inv_reindex_orgs[OF rebuilt db overlaps_settled[OF assms(2) high this]] show ?thesis
      by (simp add: db' index_inv_cursor)
  qed (use db in simp)
qed

text \<open>
  Administrative steps and indexer runs, in any order. A run starts on a database of the history and
  commits on a later one, so the writers may have changed any table but the index's between its queries.
\<close>

inductive indexed_reachable :: "platform \<Rightarrow> indexer_options \<Rightarrow> database \<Rightarrow> bool" for p opts where
  empty_index: "indexed_reachable p opts empty_database"
| admin: "indexed_reachable p opts db \<Longrightarrow> store_step p db db' \<Longrightarrow> indexed_reachable p opts db'"
| indexed: "indexed_reachable p opts (reads_high reads) \<Longrightarrow> overlaps p reads db \<Longrightarrow>
    index_run opts locked reads db = Some (run, db') \<Longrightarrow> indexed_reachable p opts db'"

lemma index_inv_reachable: "indexed_reachable p opts db \<Longrightarrow> index_inv p db"
proof (induction rule: indexed_reachable.induct)
  case empty_index
  show ?case
    using store_inv_empty[of p]
    by (simp add: index_inv_def sets_keyed_def sets_plain_def valid_revision_def) (simp add: empty_database_def)
qed (auto intro: index_inv_store_step index_inv_run)

lemma indexed_once:
  assumes "indexed_reachable p opts db" "index_run_once opts locked db = Some (run, db')"
  shows "indexed_reachable p opts db'"
  by (rule indexed_reachable.indexed[OF _ overlaps_undisturbed assms(2)[unfolded index_run_once_def]])
    (use assms(1) in \<open>simp add: undisturbed_def\<close>)

section \<open>Every run returns\<close>

lemma parse_ok_of_rows:
  assumes "rows_inv p db" "r \<in> set (db_tuples db)"
  shows "\<exists>t. tuple_to_domain r = Inr t" "\<exists>s. parse_subject (tr_subject r) = Inr s"
proof -
  from assms obtain t where t: "tuple_to_domain r = Inr t" unfolding rows_inv_def by blast
  then show "\<exists>t. tuple_to_domain r = Inr t" ..
  from t show "\<exists>s. parse_subject (tr_subject r) = Inr s"
    by (cases "parse_subject (tr_subject r)") (auto simp: tuple_to_domain_def)
qed

lemma list_tuples_total:
  assumes "rows_inv p db"
  shows "\<exists>ts. list_tuples f db = Inr ts"
  unfolding list_tuples_def slice_def
proof (rule map_throws_total)
  fix r
  assume r: "r \<in> set (take (filter_limit f) (drop (filter_offset f)
      (sort_key (\<lambda>r. (tr_namespace r, tr_object_id r, tr_relation r, tr_subject r))
        (filter (matches_filter f) (db_tuples db)))))"
  from in_set_dropD[OF in_set_takeD[OF r]] have "r \<in> set (db_tuples db)" by simp
  from parse_ok_of_rows(1)[OF assms this] show "\<exists>t. tuple_to_domain r = Inr t" .
qed

lemma list_referenced_usersets_total:
  assumes "rows_inv p db"
  shows "\<exists>us. list_referenced_usersets org db = Inr us"
proof -
  have "\<exists>ss. map_throws parse_subject (sort (dedup (map tr_subject
         (filter (\<lambda>r. tr_org r = org_value org \<and> CHR ''#'' \<in> set (tr_subject r)) (db_tuples db))))) = Inr ss"
    using parse_ok_of_rows(2)[OF assms] by (intro map_throws_total) auto
  then show ?thesis by (auto simp: list_referenced_usersets_def)
qed

lemma changelog_since_all_total:
  assumes "rows_inv p db"
  shows "\<exists>cs. changelog_since_all after limit db = Inr cs"
  unfolding changelog_since_all_def
proof (rule map_throws_total)
  fix r
  assume r: "r \<in> set (take limit (sort_key (\<lambda>r. (cr_revision r, cr_org r, cr_namespace r, cr_object_id r,
      cr_relation r, cr_subject r)) (filter (\<lambda>r. cr_revision r > rev_value after) (db_changelog db))))"
  from in_set_takeD[OF r] have "r \<in> set (db_changelog db)" by simp
  with assms show "\<exists>c. change_to_domain r = Inr c" unfolding rows_inv_def by blast
qed

lemma org_registry_valid: "rows_inv p db \<Longrightarrow> valid_registry (registry_of (list_namespaces_by_org org db))"
  by (rule registry_of_valid) (auto simp: list_namespaces_by_org_def dest: stored_config_valid)

lemma keep_shallowest_distinct: "distinct (map fst by_ref) \<Longrightarrow> distinct (map fst (foldl keep_shallowest by_ref ms))"
  by (induction ms arbitrary: by_ref) (auto simp: Let_def intro: distinct_update split: option.splits)

lemma flatten_set_distinct:
  assumes "flatten_set object relation snap = Some fl"
  shows "distinct (map member_ref (flat_members fl))"
proof -
  from assms obtain ms where fl: "flat_members fl = map snd (foldl keep_shallowest [] ms)"
    by (auto simp: flatten_set_def bind_eq_Some_conv)
  let ?kept = "foldl keep_shallowest [] ms"
  have "fst p = format_entity_ref (member_ref (snd p))" if "p \<in> set ?kept" for p
    using keep_shallowest_keys[of "[]" ms] that by (simp add: case_prod_unfold)
  then have "map fst ?kept = map format_entity_ref (map (member_ref \<circ> snd) ?kept)" by simp
  moreover have "distinct (map fst ?kept)" by (rule keep_shallowest_distinct) simp
  ultimately have "distinct (map format_entity_ref (map (member_ref \<circ> snd) ?kept))" by (simp only:)
  then have "distinct (map (member_ref \<circ> snd) ?kept)" by (rule distinct_map[THEN iffD1, THEN conjunct1])
  then show ?thesis by (simp add: fl)
qed

lemma collect_wanted_returns:
  "valid_registry (snap_namespaces snap) \<Longrightarrow> returns (collect_wanted snap usersets wanted)"
proof (induction snap usersets wanted rule: collect_wanted.induct)
  case (2 snap object relation usersets wanted)
  then show ?case
    unfolding collect_wanted.simps by (intro returns_bind flatten_set_returns) (simp_all add: Let_def)
qed simp

lemma replace_all_returns:
  "(\<forall>(key, s, ms) \<in> set wanted. distinct (map member_ref ms)) \<Longrightarrow> returns (replace_all org v wanted db)"
proof (induction wanted arbitrary: db)
  case (Cons w wanted)
  obtain key s ms where w: "w = (key, s, ms)" by (cases w)
  with Cons.prems obtain db1 where "index_replace org s ms v db = Some db1"
    by (auto simp: index_replace_def Let_def)
  with Cons w show ?case by (simp add: replace_all_def)
qed (simp add: replace_all_def)

lemma reindex_org_returns:
  assumes "rows_inv p (reads_tuples reads)" "rows_inv p (reads_namespaces reads)" "rows_inv p (reads_usersets reads)"
  shows "returns (reindex_org opts org v reads db)"
proof -
  obtain ts where ts: "list_tuples (all_tuples_of org (max_tuples_per_org opts + 1)) (reads_tuples reads) = Inr ts"
    using list_tuples_total[OF assms(1)] by blast
  obtain us where us: "list_referenced_usersets org (reads_usersets reads) = Inr us"
    using list_referenced_usersets_total[OF assms(3)] by blast
  let ?snap = "\<lparr>snap_namespaces = registry_of (list_namespaces_by_org org (reads_namespaces reads)),
      snap_tuples = tuple_index_of org ts, snap_memberships = None\<rparr>"
  have "returns (collect_wanted ?snap us [])"
    by (rule collect_wanted_returns) (simp add: org_registry_valid[OF assms(2)])
  moreover have "returns (replace_all org v wanted db1)" if "collect_wanted ?snap us [] = Some wanted" for wanted db1
  proof (rule replace_all_returns)
    have "wanted_ok ?snap (set us) wanted"
      using collect_wanted_ok[OF that order_refl] by (simp add: wanted_ok_def)
    then show "\<forall>(key, s, ms) \<in> set wanted. distinct (map member_ref ms)"
      unfolding wanted_ok_def flattens_def by (fastforce dest: flatten_set_distinct)
  qed
  ultimately show ?thesis
    unfolding reindex_org_def ts us by (auto simp: Let_def intro!: returns_bind)
qed

lemma reindex_org_core: "reindex_org opts org v reads db = Some (c, db') \<Longrightarrow> core db' = core db"
  by (auto simp: reindex_org_def Let_def bind_eq_Some_conv dest!: core_replaces split: sum.splits if_splits)

lemma reindex_orgs_core: "reindex_orgs opts v reads orgs run db = Some (run', db') \<Longrightarrow> core db' = core db"
  by (induction orgs arbitrary: run db) (auto simp: bind_eq_Some_conv dest: reindex_org_core)

text \<open>Whatever a run reads, it writes only the tables of the index.\<close>

lemma index_run_core: "index_run opts locked reads db = Some (run, db') \<Longrightarrow> core db' = core db"
  by (auto simp: index_run_def Let_def bind_eq_Some_conv core_def write_cursor_def dest!: reindex_orgs_core
      split: sum.splits if_splits)

lemma reindex_orgs_returns:
  assumes "\<And>org. rows_inv p (reads_tuples (reads org)) \<and> rows_inv p (reads_namespaces (reads org)) \<and>
    rows_inv p (reads_usersets (reads org))"
  shows "returns (reindex_orgs opts v reads orgs run db)"
proof (induction orgs arbitrary: run db)
  case (Cons org orgs)
  have "returns (reindex_org opts org v (reads org) db)"
    using assms[of org] by (intro reindex_org_returns[where p = p]) simp_all
  then show ?case
    using Cons.IH by (auto intro!: returns_bind)
qed simp

lemma reindex_orgs_cursor:
  "reindex_orgs opts v reads orgs run db = Some (run', db') \<Longrightarrow> run_cursor run' = run_cursor run"
  by (induction orgs arbitrary: run db) (auto simp: bind_eq_Some_conv split: option.splits prod.splits)

lemma changelog_after:
  assumes "changelog_since_all after limit db = Inr changes" "c \<in> set changes"
  shows "\<exists>r \<in> set (db_changelog db). change_to_domain r = Inr c \<and> rev_value after < rev_value (change_revision c) \<and>
    cr_revision r = rev_value (change_revision c)"
proof -
  from map_throws_set[OF assms(1)[unfolded changelog_since_all_def]] assms(2)
  obtain r where t: "r \<in> set (take limit (sort_key (\<lambda>r. (cr_revision r, cr_org r, cr_namespace r, cr_object_id r,
      cr_relation r, cr_subject r)) (filter (\<lambda>r. cr_revision r > rev_value after) (db_changelog db))))"
    and d: "change_to_domain r = Inr c" by blast
  from in_set_takeD[OF t] have "r \<in> set (db_changelog db)" "rev_value after < cr_revision r" by simp_all
  moreover have "change_revision c = Revision (cr_revision r)"
    using d by (cases "parse_subject (cr_subject r)") (auto simp: change_to_domain_def)
  ultimately show ?thesis using d by auto
qed

lemma changelog_below_current:
  "store_inv p db \<Longrightarrow> r \<in> set (db_changelog db) \<Longrightarrow> cr_revision r \<le> rev_value (current_revision db)"
  by (auto simp: store_inv_def revisions_inv_def current_revision_def intro!: fold_max_above)

lemma read_write_cursor [simp]: "read_cursor (write_cursor r db) = r"
  by (cases r) (simp add: read_cursor_def write_cursor_def update_conv)

text \<open>Where a locked run that returns leaves the cursor.\<close>

lemma run_moves_cursor:
  assumes "store_inv p db" "0 < change_page_size opts"
  shows "\<exists>run db'. index_run_once opts True db = Some (run, db') \<and> run_cursor run = read_cursor db' \<and>
    (if read_cursor db < current_revision db
     then read_cursor db < read_cursor db' \<and> read_cursor db' \<le> current_revision db else db' = db)"
proof -
  have rows: "rows_inv p db" using assms(1) by (simp add: store_inv_def)
  let ?cursor = "read_cursor db"
  obtain changes where ch: "changelog_since_all ?cursor (change_page_size opts) db = Inr changes"
    using changelog_since_all_total[OF rows] by blast
  let ?up_to = "index_up_to opts ?cursor (current_revision db) changes"
  have below: "rev_value ?cursor < rev_value (change_revision c) \<and> rev_value (change_revision c) \<le> rev_value (current_revision db)"
    if "c \<in> set changes" for c
    using changelog_after[OF ch that] changelog_below_current[OF assms(1)] by force
  then have last: "changes \<noteq> [] \<Longrightarrow> rev_value ?cursor < rev_value (change_revision (last changes)) \<and>
      rev_value (change_revision (last changes)) \<le> rev_value (current_revision db)" by simp
  have moves: "if ?cursor < current_revision db then ?cursor < ?up_to \<and> ?up_to \<le> current_revision db
      else rev_value ?up_to \<le> rev_value ?cursor"
  proof (cases "changes = []")
    case True
    then show ?thesis
      using assms(2) by (simp add: index_up_to_def revision_less_iff revision_le_iff)
  next
    case False
    with last have "rev_value ?cursor < rev_value (change_revision (last changes))"
      "rev_value (change_revision (last changes)) \<le> rev_value (current_revision db)" by blast+
    moreover have "rev_value ?up_to = (if length changes = change_page_size opts
        then rev_value (change_revision (last changes)) else rev_value (current_revision db))"
      using False calculation(2) by (simp add: index_up_to_def Let_def)
    ultimately show ?thesis by (simp add: revision_less_iff revision_le_iff)
  qed
  show ?thesis
  proof (cases "?cursor < current_revision db")
    case True
    have "returns (reindex_orgs opts ?up_to (reads_org (undisturbed db)) (changed_orgs ?cursor ?up_to changes db) (idle_run ?up_to) db)"
      by (rule reindex_orgs_returns[where p = p]) (simp add: undisturbed_def rows)
    then obtain run db1 where
      orgs: "reindex_orgs opts ?up_to (reads_org (undisturbed db)) (changed_orgs ?cursor ?up_to changes db) (idle_run ?up_to) db = Some (run, db1)"
      by (auto elim: returnsE)
    from reindex_orgs_cursor[OF orgs] have "run_cursor run = ?up_to" by (simp add: idle_run_def)
    moreover have "index_run_once opts True db = Some (run, write_cursor ?up_to db1)"
      using ch orgs moves True by (simp add: index_run_once_def index_run_def undisturbed_def revision_less_iff)
    ultimately show ?thesis using moves True by auto
  next
    case False
    with moves ch show ?thesis by (simp add: index_run_once_def index_run_def undisturbed_def idle_run_def)
  qed
qed

definition sample_options :: indexer_options where
  "sample_options = \<lparr>change_page_size = 10, max_tuples_per_org = 10\<rparr>"

definition team_db :: database where
  "team_db = apply_commands sample_define
     [add_tuple (sample_ref ''doc'' ''a'') ''viewer'' (team_members ''x''),
      add_tuple (sample_ref ''team'' ''x'') ''member'' (Subject (sample_ref ''user'' ''ann''))]"

definition indexed_team_db :: database where
  "indexed_team_db = snd (the (index_run_once sample_options True team_db))"

lemma team_db_indexed: "index_run_once sample_options True team_db = Some (fst (the (index_run_once sample_options True team_db)), indexed_team_db)"
proof -
  have "index_run_once sample_options True team_db \<noteq> None" by code_simp
  then show ?thesis by (auto simp: indexed_team_db_def)
qed

lemma indexed_commands: "indexed_reachable p opts (apply_commands d cs)"
  unfolding apply_commands_def
proof (induction cs rule: rev_induct)
  case Nil
  show ?case by (simp add: indexed_reachable.admin[OF indexed_reachable.empty_index store_step.define_ns])
next
  case (snoc c cs)
  then show ?case by (simp add: indexed_reachable.admin[OF _ store_step.write_tuple])
qed

lemma indexed_team_db_reachable: "indexed_reachable plain_platform sample_options indexed_team_db"
  by (rule indexed_once[OF _ team_db_indexed]) (simp add: team_db_def indexed_commands)

definition team_hit :: membership_hit where
  "team_hit = \<lparr>hit_set = \<lparr>set_object = sample_ref ''team'' ''x'', set_relation = ''member''\<rparr>, hit_depth = 0,
     hit_valid_at = Revision 3\<rparr>"

lemma team_hits: "memberships_of sample_org (sample_ref ''user'' ''ann'') indexed_team_db = [team_hit]"
  by code_simp

lemma team_hit_fresh: "is_at_least (hit_valid_at team_hit) (organization_version sample_org indexed_team_db)"
  by code_simp

section \<open>A cached decision outlives a run of the indexer\<close>

text \<open>
  The key of a cached decision holds the revision, and a run of the indexer moves none: the evaluation
  of the same request at the same revision may answer otherwise after the run, because the index adds to
  the closure what the walk had cut, and the cache goes on answering as before.
\<close>

definition wide_options :: indexer_options where
  "wide_options = \<lparr>change_page_size = 100, max_tuples_per_org = 100\<rparr>"

definition team_depths :: "(string \<times> nat) list" where
  "team_depths = [(''g1'', 10), (''g2'', 9), (''g3'', 8), (''g4'', 7), (''g5'', 6), (''g6'', 5), (''g7'', 4),
     (''g8'', 3), (''g9'', 2), (''m'', 0), (''n'', 1)]"

definition indexed_hiding_db :: database where
  "indexed_hiding_db = hiding_db\<lparr>
     db_sets := map (\<lambda>(t, d). \<lparr>sr_org = ''acme'', sr_type = ''team'', sr_id = t, sr_relation = ''member'',
       sr_valid_at = 15\<rparr>) team_depths,
     db_members := map (\<lambda>(t, d). \<lparr>mr_org = ''acme'', mr_set_type = ''team'', mr_set_id = t, mr_set_relation = ''member'',
       mr_member_type = ''user'', mr_member_id = ''ann'', mr_depth = d\<rparr>) team_depths,
     db_cursors := [(cursor_name, 15)]\<rparr>"

lemma hiding_db_indexed:
  "index_run_once wide_options True hiding_db =
     Some (\<lparr>run_indexed = 11, run_removed = 0, run_skipped_orgs = 0, run_cursor = Revision 15\<rparr>, indexed_hiding_db)"
  by code_simp

lemma indexed_hiding_db_denies:
  "map_option (decision_effect \<circ> result_decision) (decided plain_platform drizzle_reader indexed_hiding_db 0
     sample_principal read_doc (sample_ref ''doc'' ''a'') (sample_request FullConsistency)) = Some Deny"
  by code_simp

lemma cached_decision_outlives_run:
  "map_option (decision_effect \<circ> result_decision \<circ> fst) (check plain_platform drizzle_reader sample_redis
     indexed_hiding_db indexed_hiding_db 0 sample_principal read_doc (sample_ref ''doc'' ''a'') (sample_request FullConsistency)
     (snd (the (check plain_platform drizzle_reader sample_redis hiding_db hiding_db 0 sample_principal read_doc
       (sample_ref ''doc'' ''a'') (sample_request FullConsistency) Map.empty)))) = Some Permit"
  by code_simp

section \<open>Properties\<close>

definition row_set :: "set_row \<Rightarrow> membership_set_ref" where
  "row_set s = \<lparr>set_object = \<lparr>ref_type = sr_type s, ref_id = sr_id s\<rparr>, set_relation = sr_relation s\<rparr>"

definition row_hit :: "set_row \<Rightarrow> nat \<Rightarrow> membership_hit" where
  "row_hit s d = \<lparr>hit_set = row_set s, hit_depth = d, hit_valid_at = Revision (sr_valid_at s)\<rparr>"

lemma row_set_key: "sr_org s = org_value org \<Longrightarrow> set_row_key s = set_key_of org (row_set s)"
  by (simp add: set_row_key_def set_key_of_def row_set_def)

lemma row_valid:
  assumes "index_inv p db" "s \<in> set (db_sets db)" "sr_org s = org_value org"
  shows "valid_revision db (org, row_set s) = Some (sr_valid_at s)"
proof -
  have "distinct (map set_row_key (db_sets db))" using assms(1) by (simp add: index_inv_def sets_keyed_def)
  then have "map_of (map (\<lambda>r. (set_row_key r, sr_valid_at r)) (db_sets db)) (set_row_key s) = Some (sr_valid_at s)"
    using assms(2) by (intro map_of_is_SomeI) (auto simp: comp_def)
  then show ?thesis using row_set_key[OF assms(3)] by (simp add: valid_revision_def)
qed

text \<open>The hits of a member are the rows of the index that hold it, each with the revision of its set.\<close>

lemma row_hit_iff:
  assumes "s \<in> set (db_sets db)" "sr_org s = org_value org"
  shows "\<lparr>member_ref = m, member_depth = d\<rparr> \<in> set (index_members db (org, row_set s)) \<Longrightarrow>
      row_hit s d \<in> set (memberships_of org m db)"
proof -
  assume "\<lparr>member_ref = m, member_depth = d\<rparr> \<in> set (index_members db (org, row_set s))"
  then obtain r where r: "r \<in> set (db_members db)" "member_set_key r = set_key_of org (row_set s)"
    "row_member r = \<lparr>member_ref = m, member_depth = d\<rparr>" by (auto simp: index_members_def)
  then have fields: "mr_org r = org_value org" "mr_set_type r = sr_type s" "mr_set_id r = sr_id s"
      "mr_set_relation r = sr_relation s" "mr_member_type r = ref_type m" "mr_member_id r = ref_id m" "mr_depth r = d"
    by (auto simp: member_set_key_def set_key_of_def row_set_def row_member_def)
  then have "same_set r s" using assms(2) by (simp add: same_set_def)
  with r(1) fields assms(1) show "row_hit s d \<in> set (memberships_of org m db)"
    unfolding memberships_of_def row_hit_def row_set_def by force
qed

lemma hit_row:
  assumes "h \<in> set (memberships_of org m db)"
  obtains s where "s \<in> set (db_sets db)" "sr_org s = org_value org" "h = row_hit s (hit_depth h)"
  using assms by (auto simp: memberships_of_def same_set_def row_hit_def row_set_def)

lemma hit_member:
  assumes "row_hit s d \<in> set (memberships_of org m db)"
  shows "\<lparr>member_ref = m, member_depth = d\<rparr> \<in> set (index_members db (org, row_set s))"
proof -
  from assms obtain r where r: "r \<in> set (db_members db)" "mr_org r = org_value org"
      "mr_member_type r = ref_type m" "mr_member_id r = ref_id m" "mr_depth r = d"
      "mr_set_type r = sr_type s" "mr_set_id r = sr_id s" "mr_set_relation r = sr_relation s"
    by (auto simp: memberships_of_def row_hit_def row_set_def)
  then have "member_set_key r = set_key_of org (row_set s)" "row_member r = \<lparr>member_ref = m, member_depth = d\<rparr>"
    by (simp_all add: member_set_key_def set_key_of_def row_set_def row_member_def)
  with r(1) show ?thesis unfolding index_members_def by force
qed

lemma sample_set_row: "db_sets indexed_team_db = [\<lparr>sr_org = ''acme'', sr_type = ''team'', sr_id = ''x'', sr_relation = ''member'',
   sr_valid_at = 3\<rparr>]"
  by code_simp

text \<open>C17: the membership index never lies to a reader and keeps nothing from it: in every database that writers and
  indexer runs reach, in any order and with writes between the queries of a run, a set of the index whose revision is at
  least its organization's version lists exactly the flattened set over the organization's current tuples and namespaces:
  the flattening is free of exclusions, and the reader of a subject finds the set at a depth if and only if the
  flattening holds the subject at that depth. Whatever the reader of a subject finds is an entry of such a set row.\<close>
theorem fresh_index_is_exact:
  assumes "indexed_reachable p opts db"
  shows "(\<forall>s \<in> set (db_sets db). sr_org s = org_value org \<and>
        is_at_least (Revision (sr_valid_at s)) (organization_version org db) \<longrightarrow>
      (\<exists>ms. flatten_set (set_object (row_set s)) (set_relation (row_set s)) (org_snapshot org db) =
          Some \<lparr>flat_members = ms, flat_monotonic = True\<rparr> \<and>
        (\<forall>m d. row_hit s d \<in> set (memberships_of org m db) \<longleftrightarrow> \<lparr>member_ref = m, member_depth = d\<rparr> \<in> set ms))) \<and>
    (\<forall>m. \<forall>h \<in> set (memberships_of org m db). \<exists>s \<in> set (db_sets db). sr_org s = org_value org \<and> h = row_hit s (hit_depth h))"
proof (intro conjI ballI allI impI)
  fix s
  assume s: "s \<in> set (db_sets db)" "sr_org s = org_value org \<and>
      is_at_least (Revision (sr_valid_at s)) (organization_version org db)"
  have inv: "index_inv p db" by (rule index_inv_reachable[OF assms])
  have "valid_revision db (org, row_set s) = Some (sr_valid_at s)" using row_valid[OF inv s(1)] s(2) by blast
  moreover have "rev_value (organization_version org db) \<le> sr_valid_at s" using s(2) unfolding is_at_least_def revision.sel by blast
  ultimately have "exact_set org (row_set s) db"
    using inv unfolding index_inv_def by blast
  then have "flatten_set (set_object (row_set s)) (set_relation (row_set s)) (org_snapshot org db) =
      Some \<lparr>flat_members = index_members db (org, row_set s), flat_monotonic = True\<rparr>"
    by (simp add: exact_set_def flattens_def)
  then show "\<exists>ms. flatten_set (set_object (row_set s)) (set_relation (row_set s)) (org_snapshot org db) =
        Some \<lparr>flat_members = ms, flat_monotonic = True\<rparr> \<and>
      (\<forall>m d. row_hit s d \<in> set (memberships_of org m db) \<longleftrightarrow> \<lparr>member_ref = m, member_depth = d\<rparr> \<in> set ms)"
    using row_hit_iff[OF s(1)] hit_member s(2) by blast
next
  fix m h
  assume "h \<in> set (memberships_of org m db)"
  then show "\<exists>s \<in> set (db_sets db). sr_org s = org_value org \<and> h = row_hit s (hit_depth h)"
    by (rule hit_row) blast
qed

theorem fresh_index_is_exact_witness:
  "\<exists>ms. flatten_set (sample_ref ''team'' ''x'') ''member'' (org_snapshot sample_org indexed_team_db) =
      Some \<lparr>flat_members = ms, flat_monotonic = True\<rparr> \<and>
    \<lparr>member_ref = sample_ref ''user'' ''ann'', member_depth = 0\<rparr> \<in> set ms \<and>
    \<lparr>member_ref = sample_ref ''user'' ''bob'', member_depth = 0\<rparr> \<notin> set ms"
proof -
  let ?s = "\<lparr>sr_org = ''acme'', sr_type = ''team'', sr_id = ''x'', sr_relation = ''member'', sr_valid_at = 3\<rparr>"
  have hit: "row_hit ?s 0 = team_hit" by (simp add: row_hit_def row_set_def team_hit_def sample_ref_def)
  have set: "row_set ?s = \<lparr>set_object = sample_ref ''team'' ''x'', set_relation = ''member''\<rparr>"
    by (simp add: row_set_def sample_ref_def)
  have "memberships_of sample_org (sample_ref ''user'' ''bob'') indexed_team_db = []" by code_simp
  moreover have "is_at_least (Revision 3) (organization_version sample_org indexed_team_db)"
    using team_hit_fresh by (simp add: team_hit_def)
  moreover have "?s \<in> set (db_sets indexed_team_db)" "sr_org ?s = org_value sample_org"
    by (simp_all add: sample_set_row sample_org_def)
  ultimately obtain ms where ms: "flatten_set (set_object (row_set ?s)) (set_relation (row_set ?s)) (org_snapshot sample_org indexed_team_db) =
      Some \<lparr>flat_members = ms, flat_monotonic = True\<rparr>"
    "\<And>m d. row_hit ?s d \<in> set (memberships_of sample_org m indexed_team_db) \<longleftrightarrow> \<lparr>member_ref = m, member_depth = d\<rparr> \<in> set ms"
    using fresh_index_is_exact[OF indexed_team_db_reachable, of sample_org, THEN conjunct1, rule_format, of ?s] by auto
  from ms(2)[of 0 "sample_ref ''user'' ''ann''"] ms(2)[of 0 "sample_ref ''user'' ''bob''"] ms(1) show ?thesis
    unfolding hit set by (simp add: team_hits \<open>memberships_of sample_org (sample_ref ''user'' ''bob'') indexed_team_db = []\<close>)
qed



end
