(* ===== verification/Watch.thy ===== *)
theory Watch
  imports Decisions
begin

text \<open>
  The watch stream of \<open>tuple-change-stream.ts\<close>: a loop that polls the changelog of one organization
  and yields changes and heartbeats. What the loop reads in one iteration (the clock, the flag, the
  database of each query) is a \<open>tick\<close>; the sleep between two iterations is not modelled.
\<close>

section \<open>The stream\<close>

datatype watch_event = ChangeEvent revision tuple_change | Heartbeat revision

record watch_options =
  poll_interval_ms :: int
  page_size :: nat
  heartbeat_seconds :: int
  max_stream_seconds :: int

record watch_state =
  watch_cursor :: revision
  beat_at :: date

record tick =
  tick_closing :: bool
  tick_started :: date
  tick_high_db :: database
  tick_page_db :: database
  tick_polled :: date

definition start_cursor :: "revision option \<Rightarrow> database \<Rightarrow> revision" where
  "start_cursor from_revision db = (case from_revision of Some r \<Rightarrow> r | None \<Rightarrow> current_revision db)"

definition stream_deadline :: "watch_options \<Rightarrow> date \<Rightarrow> date" where
  "stream_deadline opts started_at = started_at + max_stream_seconds opts * 1000"

definition change_event :: "tuple_change \<Rightarrow> watch_event" where
  "change_event c = ChangeEvent (change_revision c) c"

text \<open>One iteration of the loop, from the query for the current revision to the sleep.\<close>

definition poll_once :: "watch_options \<Rightarrow> org_id \<Rightarrow> tick \<Rightarrow> watch_state \<Rightarrow> (watch_event list \<times> watch_state) option" where
  "poll_once opts org t st =
     (let high = current_revision (tick_high_db t) in
      case changelog_since org (watch_cursor st) (page_size opts) (tick_page_db t) of
        Inl e \<Rightarrow> None
      | Inr page \<Rightarrow>
          (let changes = map change_event page;
               cursor = (if page = [] then watch_cursor st else change_revision (last page)) in
           if length page = page_size opts then Some (changes, st\<lparr>watch_cursor := cursor\<rparr>)
           else if tick_polled t - beat_at st \<ge> heartbeat_seconds opts * 1000
           then (let cursor' = (if is_at_least high cursor then high else cursor) in
                 Some (changes @ [Heartbeat cursor'], \<lparr>watch_cursor = cursor', beat_at = tick_polled t\<rparr>))
           else Some (changes, st\<lparr>watch_cursor := cursor\<rparr>)))"

fun watch_loop :: "watch_options \<Rightarrow> org_id \<Rightarrow> date \<Rightarrow> tick list \<Rightarrow> watch_state \<Rightarrow>
    (watch_event list \<times> watch_state) option" where
  "watch_loop opts org deadline [] st = Some ([], st)"
| "watch_loop opts org deadline (t # ts) st =
     (if tick_closing t \<or> tick_started t \<ge> deadline then Some ([], st)
      else Option.bind (poll_once opts org t st) (\<lambda>(events, st').
        Option.bind (watch_loop opts org deadline ts st') (\<lambda>(rest, st''). Some (events @ rest, st''))))"

definition watch_stream :: "watch_options \<Rightarrow> org_id \<Rightarrow> revision option \<Rightarrow> date \<Rightarrow> database \<Rightarrow> tick list \<Rightarrow>
    (watch_event list \<times> watch_state) option" where
  "watch_stream opts org from_revision started_at db ticks =
     watch_loop opts org (stream_deadline opts started_at) ticks
       \<lparr>watch_cursor = start_cursor from_revision db, beat_at = started_at\<rparr>"

section \<open>The changelog of one organization\<close>

text \<open>One organization's changes after one revision and up to another.\<close>

definition changes_in :: "org_id \<Rightarrow> revision \<Rightarrow> revision \<Rightarrow> database \<Rightarrow> change_row list" where
  "changes_in org a b db = filter (\<lambda>r. cr_org r = org_value org \<and> rev_value a < cr_revision r \<and>
     cr_revision r \<le> rev_value b) (db_changelog db)"

lemma filter_sorted_split:
  "sorted_wrt (<) (map f xs) \<Longrightarrow> a \<le> b \<Longrightarrow> b \<le> c \<Longrightarrow>
   filter (\<lambda>x. P x \<and> a < f x \<and> f x \<le> b) xs @ filter (\<lambda>x. P x \<and> b < f x \<and> f x \<le> c) xs =
   filter (\<lambda>x. P x \<and> a < f x \<and> f x \<le> (c :: nat)) xs"
proof (induction xs)
  case (Cons x xs)
  show ?case
  proof (cases "f x \<le> b")
    case True
    with Cons show ?thesis by auto
  next
    case False
    with Cons.prems have "\<forall>y \<in> set xs. b < f y" by auto
    then have "filter (\<lambda>x. P x \<and> a < f x \<and> f x \<le> b) xs = []" by (auto simp: filter_empty_conv)
    with Cons False show ?thesis by auto
  qed
qed simp

lemma changes_in_split:
  assumes "store_inv p db" "a \<le> b" "b \<le> c"
  shows "changes_in org a b db @ changes_in org b c db = changes_in org a c db"
  using filter_sorted_split[of cr_revision "db_changelog db" "rev_value a" "rev_value b" "rev_value c"
      "\<lambda>r. cr_org r = org_value org"] assms
  by (simp add: changes_in_def store_inv_def revisions_inv_def revision_le_iff)

lemma changes_in_later:
  assumes "store_inv p db" "later p db db'" "rev_value b \<le> db_sequence db \<or> b \<le> a"
  shows "changes_in org a b db' = changes_in org a b db"
proof -
  from later_changelog[OF assms(2,1)] obtain new where
    "db_changelog db' = db_changelog db @ new" "\<forall>r \<in> set new. db_sequence db < cr_revision r" by blast
  with assms(3) show ?thesis
    by (auto simp: changes_in_def filter_empty_conv revision_le_iff)
qed

section \<open>What the events of a stream tell\<close>

fun event_revision :: "watch_event \<Rightarrow> revision" where
  "event_revision (ChangeEvent r c) = r"
| "event_revision (Heartbeat r) = r"

fun event_change :: "watch_event \<Rightarrow> change_row list" where
  "event_change (ChangeEvent r c) = [change_row_of c]"
| "event_change (Heartbeat r) = []"

definition seen :: "watch_event list \<Rightarrow> change_row list" where
  "seen events = concat (map event_change events)"

text \<open>
  From revision \<open>a\<close> on, the events tell exactly the organization's changes, and whoever stops
  after any of them has seen all changes up to that event's revision.
\<close>

definition tells :: "org_id \<Rightarrow> database \<Rightarrow> revision \<Rightarrow> watch_event list \<Rightarrow> revision \<Rightarrow> bool" where
  "tells org db a events b \<longleftrightarrow> a \<le> b \<and> seen events = changes_in org a b db \<and>
     (\<forall>before e after. events = before @ e # after \<longrightarrow> a \<le> event_revision e \<and> event_revision e \<le> b \<and>
        seen (before @ [e]) = changes_in org a (event_revision e) db)"

lemma seen_simps [simp]: "seen [] = []" "seen (e # es) = event_change e @ seen es" "seen (es @ fs) = seen es @ seen fs"
  by (simp_all add: seen_def)

lemma tells_nothing: "tells org db a [] a"
  by (simp add: tells_def changes_in_def filter_empty_conv)

lemma tells_one:
  "a \<le> event_revision e \<Longrightarrow> event_change e = changes_in org a (event_revision e) db \<Longrightarrow>
   tells org db a [e] (event_revision e)"
  by (auto simp: tells_def Cons_eq_append_conv)

lemma tells_event:
  "tells org db a es b \<Longrightarrow> es = before @ e # after \<Longrightarrow> a \<le> event_revision e \<and> event_revision e \<le> b \<and>
     seen (before @ [e]) = changes_in org a (event_revision e) db"
  unfolding tells_def by blast

lemma tells_append:
  assumes "store_inv p db" "tells org db a es b" "tells org db b fs c"
  shows "tells org db a (es @ fs) c"
proof -
  have ab: "a \<le> b" "seen es = changes_in org a b db" and bc: "b \<le> c" "seen fs = changes_in org b c db"
    using assms(2,3) by (simp_all add: tells_def)
  have "a \<le> event_revision e \<and> event_revision e \<le> c \<and> seen (before @ [e]) = changes_in org a (event_revision e) db"
    if split: "es @ fs = before @ e # after" for before e after
  proof -
    from split consider rest where "es = before @ e # rest" | front where "before = es @ front" "fs = front @ e # after"
      by (auto simp: append_eq_append_conv2 Cons_eq_append_conv append_eq_Cons_conv)
    then show ?thesis
    proof cases
      case 1
      from tells_event[OF assms(2) this] bc(1) show ?thesis by auto
    next
      case 2
      with assms(3) have e: "b \<le> event_revision e" "event_revision e \<le> c" "seen (front @ [e]) = changes_in org b (event_revision e) db"
        unfolding tells_def by blast+
      from changes_in_split[OF assms(1) ab(1) e(1), of org] ab e 2 show ?thesis by simp
    qed
  qed
  then show ?thesis
    using changes_in_split[OF assms(1) ab(1) bc(1), of org] ab bc by (auto simp: tells_def)
qed

lemma changes_in_upper: "c \<le> b \<Longrightarrow> changes_in org a c db = filter (\<lambda>r. cr_revision r \<le> rev_value c) (changes_in org a b db)"
  by (auto simp: changes_in_def revision_le_iff intro!: filter_cong)

lemma changes_in_lower: "a \<le> c \<Longrightarrow> changes_in org c b db = filter (\<lambda>r. rev_value c < cr_revision r) (changes_in org a b db)"
  by (auto simp: changes_in_def revision_le_iff intro!: filter_cong)

lemma changes_in_sorted: "store_inv p db \<Longrightarrow> sorted_wrt (<) (map cr_revision (changes_in org a b db))"
  by (auto simp: store_inv_def revisions_inv_def changes_in_def sorted_wrt_map intro: sorted_wrt_filter)

text \<open>A page of changes is told one after the other.\<close>

lemma tells_page:
  assumes "store_inv p db"
  shows "map change_row_of page = changes_in org a b db \<Longrightarrow> a \<le> b \<Longrightarrow>
    page \<noteq> [] \<longrightarrow> b = change_revision (last page) \<Longrightarrow> page = [] \<longrightarrow> b = a \<Longrightarrow>
    tells org db a (map change_event page) b"
proof (induction page arbitrary: a)
  case Nil
  then show ?case by (simp add: tells_nothing)
next
  case (Cons c page)
  let ?r = "change_row_of c" and ?m = "change_revision c"
  have rev: "cr_revision ?r = rev_value ?m" by (simp add: change_row_of_def)
  from Cons.prems(1) have whole: "changes_in org a b db = ?r # map change_row_of page" by simp
  then have "?r \<in> set (changes_in org a b db)" by simp
  then have bounds: "a \<le> ?m" "?m \<le> b"
    unfolding changes_in_def by (simp_all add: rev revision_le_iff)
  have above: "\<forall>r \<in> set (map change_row_of page). cr_revision ?r < cr_revision r"
    using changes_in_sorted[OF assms, of org a b] by (simp add: whole sorted_wrt_map)
  have "changes_in org a ?m db = [?r]"
    using changes_in_upper[OF bounds(2), of org a db] above
    by (simp add: whole rev filter_empty_conv) force
  then have first: "tells org db a [change_event c] ?m"
    using tells_one[of a "change_event c" org db] bounds(1) by (simp add: change_event_def)
  have "changes_in org ?m b db = map change_row_of page"
    using changes_in_lower[OF bounds(1), of org b db] above by (simp add: whole rev filter_id_conv)
  then have "tells org db ?m (map change_event page) b"
    using Cons.IH[of ?m] Cons.prems(3) bounds(2) by (cases page) auto
  from tells_append[OF assms first this] show ?case by simp
qed

lemma change_to_domain_row: "change_to_domain r = Inr c \<Longrightarrow> change_row_of c = r"
  by (cases "parse_subject (cr_subject r)") (auto simp: change_to_domain_def change_row_of_def encode_parse_subject)

lemma map_throws_inverse:
  "map_throws f xs = Inr ys \<Longrightarrow> (\<And>x y. f x = Inr y \<Longrightarrow> g y = x) \<Longrightarrow> map g ys = xs"
proof (induction xs arbitrary: ys)
  case (Cons x xs)
  then show ?case by (cases "f x"; cases "map_throws f xs") auto
qed simp

definition changes_after :: "org_id \<Rightarrow> revision \<Rightarrow> database \<Rightarrow> change_row list" where
  "changes_after org a db = filter (\<lambda>r. cr_org r = org_value org \<and> cr_revision r > rev_value a) (db_changelog db)"

lemma changelog_since_page:
  assumes "store_inv p db" "changelog_since org a n db = Inr page"
  shows "map change_row_of page = take n (changes_after org a db)"
    and "sorted_wrt (<) (map cr_revision (changes_after org a db))"
proof -
  let ?key = "\<lambda>r. (cr_revision r, cr_namespace r, cr_object_id r, cr_relation r, cr_subject r)"
  show sorted: "sorted_wrt (<) (map cr_revision (changes_after org a db))"
    using assms(1) by (auto simp: store_inv_def revisions_inv_def changes_after_def sorted_wrt_map intro: sorted_wrt_filter)
  then have "sorted (map ?key (changes_after org a db))"
    by (auto simp: sorted_wrt_map less_eq_prod_def intro: sorted_wrt_mono_rel[rotated])
  then have "sort_key ?key (changes_after org a db) = changes_after org a db" by (rule sort_key_id_if_sorted)
  then have "map_throws change_to_domain (take n (changes_after org a db)) = Inr page"
    using assms(2) by (simp add: changelog_since_def changes_after_def)
  from map_throws_inverse[OF this change_to_domain_row]
  show "map change_row_of page = take n (changes_after org a db)" .
qed

lemma take_is_prefix_of_revisions:
  assumes "sorted_wrt (<) (map f xs)" "take n xs \<noteq> []"
  shows "filter (\<lambda>x. f x \<le> (f (last (take n xs)) :: nat)) xs = take n xs"
proof -
  have xs: "xs = take n xs @ drop n xs" by simp
  have sorted: "sorted_wrt (<) (map f (take n xs) @ map f (drop n xs))"
    using assms(1) by (metis append_take_drop_id map_append)
  then have "\<forall>x \<in> set (drop n xs). f (last (take n xs)) < f x"
    using assms(2) by (auto simp: sorted_wrt_append)
  then have drop: "filter (\<lambda>x. f x \<le> f (last (take n xs))) (drop n xs) = []"
    by (auto simp: filter_empty_conv)
  have "\<forall>x \<in> set (take n xs). f x \<le> f (last (take n xs))"
  proof
    fix x
    assume x: "x \<in> set (take n xs)"
    have split: "take n xs = butlast (take n xs) @ [last (take n xs)]" using assms(2) by simp
    have "sorted_wrt (<) (map f (butlast (take n xs)) @ [f (last (take n xs))])"
      using sorted split by (metis list.simps(8,9) map_append sorted_wrt_append)
    then have "\<forall>y \<in> set (butlast (take n xs)). f y < f (last (take n xs))" by (auto simp: sorted_wrt_append)
    moreover have "x \<in> set (butlast (take n xs)) \<or> x = last (take n xs)"
      using x split by (metis Un_iff list.set(1,2) set_append singletonD)
    ultimately show "f x \<le> f (last (take n xs))" by auto
  qed
  then have "filter (\<lambda>x. f x \<le> f (last (take n xs))) (take n xs) = take n xs" by (simp add: filter_id_conv)
  with drop xs show ?thesis by (metis append.right_neutral filter_append)
qed

lemma changes_in_after: "changes_in org a b db = filter (\<lambda>r. cr_revision r \<le> rev_value b) (changes_after org a db)"
  by (auto simp: changes_in_def changes_after_def intro: filter_cong)

lemma page_told:
  assumes "store_inv p db" "changelog_since org a n db = Inr page"
    and "b = (if page = [] then a else change_revision (last page))"
  shows "tells org db a (map change_event page) b" "rev_value b \<le> db_sequence db \<or> b = a"
    "length page \<noteq> n \<Longrightarrow> b \<le> c \<Longrightarrow> changes_in org b c db = []"
proof -
  note page = changelog_since_page[OF assms(1,2)]
  have "page \<noteq> [] \<Longrightarrow> rev_value b = cr_revision (last (take n (changes_after org a db)))"
    using assms(3) by (simp add: page(1)[symmetric] last_map) (simp add: change_row_of_def)
  note last = this
  have member: "page \<noteq> [] \<Longrightarrow> last (take n (changes_after org a db)) \<in> set (changes_after org a db)"
    using page(1) by (metis in_set_takeD last_in_set list.map_disc_iff)
  have rows: "map change_row_of page = changes_in org a b db"
  proof (cases "page = []")
    case True
    with assms(3) show ?thesis by (simp add: changes_in_def filter_empty_conv)
  next
    case False
    then have "map change_row_of page \<noteq> []" by simp
    then have "take n (changes_after org a db) \<noteq> []" unfolding page(1) .
    from take_is_prefix_of_revisions[OF page(2) this] last[OF False] page(1) show ?thesis
      by (simp add: changes_in_after)
  qed
  have "a \<le> b"
    using assms(3) last member by (cases "page = []") (auto simp: changes_after_def revision_le_iff)
  then show told: "tells org db a (map change_event page) b"
    using tells_page[OF assms(1) rows] assms(3) by simp
  have "r \<in> set (db_changelog db) \<Longrightarrow> cr_revision r \<le> db_sequence db" for r
    using changelog_bound[of db] assms(1) by (auto simp: store_inv_def)
  then show "rev_value b \<le> db_sequence db \<or> b = a"
    using assms(3) last member by (cases "page = []") (auto simp: changes_after_def)
  assume short: "length page \<noteq> n" and "b \<le> c"
  have "length page = length (take n (changes_after org a db))" using page(1) by (metis length_map)
  with short have "take n (changes_after org a db) = changes_after org a db" by simp
  with rows page(1) have "changes_after org a db = changes_in org a b db" by simp
  then have "filter (\<lambda>r. cr_revision r \<le> rev_value b) (changes_after org a db) = changes_after org a db"
    by (simp only: changes_in_after)
  then have "\<forall>r \<in> set (changes_after org a db). cr_revision r \<le> rev_value b" by (simp add: filter_id_conv)
  then show "changes_in org b c db = []"
    using \<open>a \<le> b\<close> by (auto simp: changes_in_def changes_after_def filter_empty_conv revision_le_iff)
qed

lemma poll_told:
  assumes "store_inv p (tick_page_db t)" "store_inv p (tick_high_db t)" "later p (tick_high_db t) (tick_page_db t)"
    and "poll_once opts org t st = Some (events, st')"
  shows "tells org (tick_page_db t) (watch_cursor st) events (watch_cursor st') \<and>
    (rev_value (watch_cursor st') \<le> db_sequence (tick_page_db t) \<or> watch_cursor st' = watch_cursor st)"
proof -
  let ?db = "tick_page_db t" and ?high = "current_revision (tick_high_db t)"
  from assms(4) obtain page where page: "changelog_since org (watch_cursor st) (page_size opts) ?db = Inr page"
    by (auto simp: poll_once_def Let_def split: sum.splits)
  define b where "b = (if page = [] then watch_cursor st else change_revision (last page))"
  note told = page_told[OF assms(1) page b_def]
  have "rev_value ?high \<le> db_sequence (tick_high_db t)"
    using assms(2) by (simp add: store_inv_def current_revision_bound)
  with later_changelog[OF assms(3,2)] have high: "rev_value ?high \<le> db_sequence ?db" by simp
  consider (plain) "events = map change_event page" "watch_cursor st' = b"
    | (beat) "length page \<noteq> page_size opts" "watch_cursor st' = (if b \<le> ?high then ?high else b)"
      "events = map change_event page @ [Heartbeat (watch_cursor st')]"
    using assms(4) page by (auto simp: poll_once_def Let_def b_def split: if_splits)
  then show ?thesis
  proof cases
    case plain
    with told show ?thesis by simp
  next
    case beat
    let ?c = "watch_cursor st'"
    have "b \<le> ?c" using beat(2) by simp
    with told(3)[OF beat(1), of ?c] have "tells org ?db b [Heartbeat ?c] ?c"
      using tells_one[of b "Heartbeat ?c" org ?db] by simp
    from tells_append[OF assms(1) told(1) this] beat told(2) high show ?thesis by (auto split: if_splits)
  qed
qed

lemma tells_later:
  assumes "store_inv p db" "later p db db'" "tells org db a es b" "rev_value b \<le> db_sequence db \<or> b = a"
  shows "tells org db' a es b"
proof -
  have same: "changes_in org a c db' = changes_in org a c db" if "c \<le> b" for c
  proof (rule changes_in_later[OF assms(1,2)])
    from assms(4) that show "rev_value c \<le> db_sequence db \<or> c \<le> a" by (auto simp: revision_le_iff)
  qed
  show ?thesis
    unfolding tells_def
  proof (intro conjI allI impI)
    show "a \<le> b" "seen es = changes_in org a b db'" using assms(3) same[of b] by (simp_all add: tells_def)
    fix before e after
    assume "es = before @ e # after"
    from tells_event[OF assms(3) this] same[of "event_revision e"]
    show "a \<le> event_revision e" "event_revision e \<le> b"
      "seen (before @ [e]) = changes_in org a (event_revision e) db'" by simp_all
  qed
qed

text \<open>The databases the iterations read, in the order of time, up to a last one.\<close>

fun ticks_ordered :: "platform \<Rightarrow> database \<Rightarrow> tick list \<Rightarrow> database \<Rightarrow> bool" where
  "ticks_ordered p db [] final \<longleftrightarrow> later p db final"
| "ticks_ordered p db (t # ts) final \<longleftrightarrow> later p db (tick_high_db t) \<and>
     later p (tick_high_db t) (tick_page_db t) \<and> ticks_ordered p (tick_page_db t) ts final"

lemma ticks_reach_final: "ticks_ordered p db ts final \<Longrightarrow> later p db final"
  by (induction ts arbitrary: db) (auto intro: later_trans)

lemma watch_loop_tells:
  "watch_loop opts org deadline ticks st = Some (events, st') \<Longrightarrow> store_inv p db \<Longrightarrow>
   ticks_ordered p db ticks final \<Longrightarrow> tells org final (watch_cursor st) events (watch_cursor st')"
proof (induction ticks arbitrary: db st events)
  case Nil
  then show ?case by (simp add: tells_nothing)
next
  case (Cons t ticks)
  show ?case
  proof (cases "tick_closing t \<or> tick_started t \<ge> deadline")
    case True
    with Cons.prems(1) show ?thesis by (simp add: tells_nothing)
  next
    case False
    with Cons.prems(1) obtain es st1 rest where poll: "poll_once opts org t st = Some (es, st1)"
      and loop: "watch_loop opts org deadline ticks st1 = Some (rest, st')" and events: "events = es @ rest"
      by (auto simp: bind_eq_Some_conv)
    have order: "later p db (tick_high_db t)" "later p (tick_high_db t) (tick_page_db t)"
      "ticks_ordered p (tick_page_db t) ticks final" using Cons.prems(3) by simp_all
    have inv: "store_inv p (tick_high_db t)" "store_inv p (tick_page_db t)" "store_inv p final"
      using later_changelog[OF order(1) Cons.prems(2)] later_changelog[OF order(2)]
        later_changelog[OF ticks_reach_final[OF order(3)]] by blast+
    from poll_told[OF inv(2,1) order(2) poll]
    have "tells org final (watch_cursor st) es (watch_cursor st1)"
      using tells_later[OF inv(2) ticks_reach_final[OF order(3)]] by blast
    from tells_append[OF inv(3) this Cons.IH[OF loop inv(2) order(3)]] events show ?thesis by simp
  qed
qed

section \<open>Properties\<close>

text \<open>C19: the watch stream delivers every change exactly once, in order, and every event is a resume
  point: with the databases of its iterations in the order of time and writes going on between all of
  them, the changes it has yielded are the organization's changes after the starting revision and up to
  the cursor, and whoever reconnects with the revision of any event has seen all changes up to it and none
  after it.\<close>
theorem watch_delivers_exactly_once:
  assumes "reachable p db" "ticks_ordered p db ticks final"
    and "watch_stream opts org from_revision started_at db ticks = Some (events, st)"
  shows "seen events = changes_in org (start_cursor from_revision db) (watch_cursor st) final \<and>
    sorted_wrt (<) (map cr_revision (seen events)) \<and>
    (\<forall>before e after. events = before @ e # after \<longrightarrow>
       seen (before @ [e]) = changes_in org (start_cursor from_revision db) (event_revision e) final)"
proof -
  have inv: "store_inv p db" by (rule store_inv_reachable[OF assms(1)])
  have told: "tells org final (start_cursor from_revision db) events (watch_cursor st)"
    using watch_loop_tells[OF assms(3)[unfolded watch_stream_def] inv assms(2)] by simp
  have "store_inv p final" using later_changelog[OF ticks_reach_final[OF assms(2)] inv] by blast
  from changes_in_sorted[OF this] told show ?thesis unfolding tells_def by auto
qed

definition watched_db :: database where
  "watched_db = apply_commands sample_define
     [add_tuple (sample_ref ''doc'' ''a'') ''viewer'' (team_members ''x''),
      add_tuple (sample_ref ''team'' ''x'') ''member'' (Subject (sample_ref ''user'' ''ann''))]"

definition sample_ticks :: "tick list" where
  "sample_ticks = [\<lparr>tick_closing = False, tick_started = 0, tick_high_db = watched_db, tick_page_db = watched_db,
       tick_polled = 0\<rparr>,
     \<lparr>tick_closing = False, tick_started = 10, tick_high_db = watched_db, tick_page_db = watched_db,
       tick_polled = 5000\<rparr>]"

definition sample_watch :: watch_options where
  "sample_watch = \<lparr>poll_interval_ms = 100, page_size = 1, heartbeat_seconds = 1, max_stream_seconds = 60\<rparr>"

lemma sample_stream:
  "map_option (\<lambda>r. (length (fst r), length (seen (fst r)), watch_cursor (snd r)))
     (watch_stream sample_watch sample_org (Some (Revision 0)) 0 watched_db sample_ticks) = Some (2, 2, Revision 3)"
  by code_simp

theorem watch_delivers_exactly_once_witness:
  "\<exists>events st. watch_stream sample_watch sample_org (Some (Revision 0)) 0 watched_db sample_ticks = Some (events, st) \<and>
     length (seen events) = 2 \<and> seen events = changes_in sample_org (Revision 0) (watch_cursor st) watched_db \<and>
     sorted_wrt (<) (map cr_revision (seen events))"
proof -
  from sample_stream obtain events st where run:
    "watch_stream sample_watch sample_org (Some (Revision 0)) 0 watched_db sample_ticks = Some (events, st)"
    "length (seen events) = 2" by auto
  have r: "reachable plain_platform watched_db" unfolding watched_db_def by (rule reachable_commands)
  have t: "ticks_ordered plain_platform watched_db sample_ticks watched_db"
    by (simp add: sample_ticks_def later.now)
  from watch_delivers_exactly_once[OF r t run(1)]
  have "seen events = changes_in sample_org (Revision 0) (watch_cursor st) watched_db"
    "sorted_wrt (<) (map cr_revision (seen events))"
    unfolding start_cursor_def option.case by blast+
  with run show ?thesis by blast
qed

end
