(* ===== verification/DecisionLog.thy ===== *)
theory DecisionLog
  imports Decisions "HOL-Library.Multiset"
begin

text \<open>
  The decision log: the sink of \<open>drizzle-decision-log.ts\<close>, the buffer of \<open>buffered-decision-log.ts\<close>
  and the operations of the decision point that record what they return. The buffer is a state
  machine: every call runs to its next suspension point, and the answers of the sink are events.
\<close>

section \<open>The sink\<close>

definition decision_row_of :: "decision_log_record \<Rightarrow> decision_row" where
  "decision_row_of e = \<lparr>dl_id = rec_id e, dl_org = map_option org_value (rec_org e), dl_subject = rec_subject e,
     dl_action = rec_action e, dl_resource = rec_resource e, dl_effect = rec_effect e, dl_reasons = rec_reasons e,
     dl_revision_used = rev_value (rec_revision_used e), dl_latency = rec_latency e, dl_created = rec_created e\<rparr>"

text \<open>One insertion of all rows; it fails as a whole, also when a primary key is taken.\<close>

definition sink_record_batch :: "bool \<Rightarrow> decision_log_record list \<Rightarrow> database \<Rightarrow> unit throws \<times> database" where
  "sink_record_batch available entries db =
     (if entries = [] then (Inr (), db)
      else if \<not> available then (Inl (Error ''connection''), db)
      else let rows = map decision_row_of entries in
        if \<not> distinct (map dl_id rows) \<or> \<not> set (map dl_id rows) \<inter> set (map dl_id (db_decisions db)) = {}
        then (Inl (Error ''duplicate key''), db)
        else (Inr (), db\<lparr>db_decisions := db_decisions db @ rows\<rparr>))"

section \<open>The buffer\<close>

record log_options =
  max_buffer_size :: nat
  flush_batch_size :: nat
  flush_interval_ms :: int

text \<open>\<open>Settling\<close>: the drain has ended and \<open>flushing\<close> is not yet reset.\<close>

datatype flush_phase = NotFlushing | Writing "decision_log_record list" | Settling

record log_metrics =
  buffer_depth :: nat
  records_degraded :: nat
  records_flushed :: nat
  records_dropped :: nat
  flush_lag :: "rat option"

record log_state =
  log_buffer :: "decision_log_record list"
  log_phase :: flush_phase
  log_db :: database
  log_metrics :: log_metrics

definition lag_seconds_of :: "date \<Rightarrow> decision_log_record list \<Rightarrow> rat" where
  "lag_seconds_of now batch =
     of_int (now - foldl (\<lambda>m e. min m (rec_created e)) now batch) / 1000"

text \<open>The head of the drain's loop.\<close>

definition next_batch :: "log_options \<Rightarrow> date \<Rightarrow> log_state \<Rightarrow> log_state" where
  "next_batch opts now st =
     (if log_buffer st = [] then st\<lparr>log_phase := Settling\<rparr>
      else let batch = take (flush_batch_size opts) (log_buffer st);
               rest = drop (flush_batch_size opts) (log_buffer st) in
        st\<lparr>log_buffer := rest, log_phase := Writing batch,
           log_metrics := (log_metrics st)\<lparr>buffer_depth := length rest, flush_lag := Some (lag_seconds_of now batch)\<rparr>\<rparr>)"

definition flush_log :: "log_options \<Rightarrow> date \<Rightarrow> log_state \<Rightarrow> log_state" where
  "flush_log opts now st = (if log_phase st = NotFlushing then next_batch opts now st else st)"

definition record_decision :: "log_options \<Rightarrow> bool \<Rightarrow> date \<Rightarrow> decision_log_record \<Rightarrow> log_state \<Rightarrow> unit throws \<times> log_state" where
  "record_decision opts available now entry st =
     (if length (log_buffer st) \<ge> max_buffer_size opts
      then (let (result, db') = sink_record_batch available [entry] (log_db st);
                metrics = (log_metrics st)\<lparr>records_degraded := records_degraded (log_metrics st) + 1\<rparr> in
            (result, st\<lparr>log_db := db', log_metrics := metrics\<rparr>))
      else (let buffer = log_buffer st @ [entry];
                st' = st\<lparr>log_buffer := buffer, log_metrics := (log_metrics st)\<lparr>buffer_depth := length buffer\<rparr>\<rparr> in
            (Inr (), if length buffer \<ge> flush_batch_size opts then flush_log opts now st' else st')))"

text \<open>The sink has answered for the batch being written; the drain goes on.\<close>

definition batch_answered :: "log_options \<Rightarrow> bool \<Rightarrow> date \<Rightarrow> log_state \<Rightarrow> log_state" where
  "batch_answered opts available now st =
     (case log_phase st of
        Writing batch \<Rightarrow>
          (let m = log_metrics st in
           case sink_record_batch available batch (log_db st) of
             (Inr _, db') \<Rightarrow> next_batch opts now (st\<lparr>log_db := db',
               log_metrics := m\<lparr>records_flushed := records_flushed m + length batch\<rparr>\<rparr>)
           | (Inl _, db') \<Rightarrow> next_batch opts now (st\<lparr>log_db := db',
               log_metrics := m\<lparr>records_dropped := records_dropped m + length batch\<rparr>\<rparr>))
      | _ \<Rightarrow> st)"

definition flush_settled :: "log_state \<Rightarrow> log_state" where
  "flush_settled st = (if log_phase st = Settling then st\<lparr>log_phase := NotFlushing\<rparr> else st)"

text \<open>\<open>close\<close> starts a flush and waits for the answers of the sink.\<close>

fun answers :: "log_options \<Rightarrow> date \<Rightarrow> bool list \<Rightarrow> log_state \<Rightarrow> log_state" where
  "answers opts now [] st = st"
| "answers opts now (a # as) st = answers opts now as (batch_answered opts a now st)"

definition close_log :: "log_options \<Rightarrow> date \<Rightarrow> bool list \<Rightarrow> log_state \<Rightarrow> log_state" where
  "close_log opts now sink_answers st =
     flush_settled (answers opts now sink_answers (flush_log opts now (flush_settled st)))"

definition immediate_record :: "bool \<Rightarrow> decision_log_record \<Rightarrow> database \<Rightarrow> unit throws \<times> database" where
  "immediate_record available entry db = sink_record_batch available [entry] db"

definition open_log :: "database \<Rightarrow> log_state" where
  "open_log db = \<lparr>log_buffer = [], log_phase = NotFlushing, log_db = db,
     log_metrics = \<lparr>buffer_depth = 0, records_degraded = 0, records_flushed = 0, records_dropped = 0, flush_lag = None\<rparr>\<rparr>"

section \<open>The decision point with its log\<close>

text \<open>
  \<open>PdpService.check\<close>: what theory Pdp computes, then \<open>log\<close>. A record that the log rejects
  makes the whole call throw, so no decision is returned.
\<close>

definition pdp_check :: "platform \<Rightarrow> membership_reader \<Rightarrow> 'c decision_cache \<Rightarrow> log_options \<Rightarrow> bool \<Rightarrow> string \<Rightarrow>
    date \<Rightarrow> date \<Rightarrow> date \<Rightarrow> database \<Rightarrow> database \<Rightarrow> principal \<Rightarrow> action \<Rightarrow> entity_ref \<Rightarrow> request_context \<Rightarrow>
    'c \<times> log_state \<Rightarrow> (decision option \<times> 'c \<times> log_state)" where
  "pdp_check p reader cache opts available uuid started_at now finished_at before db pr act resource request state =
     (let (c, st) = state in
      case check p reader cache before db now pr act resource request c of
        None \<Rightarrow> (None, c, st)
      | Some (result, c') \<Rightarrow>
          (let entry = log_record_of uuid started_at finished_at (org_of pr) pr act resource result;
               (written, st') = record_decision opts available finished_at entry st in
           case written of
             Inl e \<Rightarrow> (None, c', st')
           | Inr _ \<Rightarrow> (Some (result_decision result), c', st')))"

text \<open>\<open>Promise.all\<close> over the slots: every record is attempted, one failure rejects the batch.\<close>

fun log_all :: "log_options \<Rightarrow> bool \<Rightarrow> date \<Rightarrow> decision_log_record list \<Rightarrow> log_state \<Rightarrow> bool \<times> log_state" where
  "log_all opts available now [] st = (True, st)"
| "log_all opts available now (e # es) st =
     (let (written, st') = record_decision opts available now e st;
          (all_written, st'') = log_all opts available now es st' in
      (is_ok written \<and> all_written, st''))"

definition pdp_batch_check :: "platform \<Rightarrow> membership_reader \<Rightarrow> 'c decision_cache \<Rightarrow> log_options \<Rightarrow> bool \<Rightarrow>
    string list \<Rightarrow> date \<Rightarrow> date \<Rightarrow> date \<Rightarrow> database \<Rightarrow> database \<Rightarrow> batch_request list \<Rightarrow>
    'c \<times> log_state \<Rightarrow> (decision list option \<times> 'c \<times> log_state)" where
  "pdp_batch_check p reader cache opts available uuids started_at now finished_at before db requests state =
     (let (c, st) = state in
      if requests = [] then (Some [], c, st)
      else case batch_check p reader cache before db now requests c of
        None \<Rightarrow> (None, c, st)
      | Some (results, c') \<Rightarrow>
          (let entries = map (\<lambda>(uuid, r, result). log_record_of uuid started_at finished_at (org_of (br_principal r))
                 (br_principal r) (br_action r) (br_resource r) result) (zip uuids (zip requests results));
               (written, st') = log_all opts available finished_at entries st in
           (if written then Some (map result_decision results) else None, c', st')))"

section \<open>The invariant of the buffer\<close>

definition in_flight :: "log_state \<Rightarrow> decision_log_record list" where
  "in_flight st = (case log_phase st of Writing batch \<Rightarrow> batch | _ \<Rightarrow> [])"

text \<open>The steps of a running log, with the records it has accepted so far.\<close>

inductive log_run :: "log_options \<Rightarrow> database \<Rightarrow> decision_log_record list \<Rightarrow> log_state \<Rightarrow> bool" for opts db0 where
  opened: "log_run opts db0 [] (open_log db0)"
| recorded: "log_run opts db0 accepted st \<Longrightarrow> record_decision opts available now entry st = (Inr (), st') \<Longrightarrow>
    log_run opts db0 (accepted @ [entry]) st'"
| refused: "log_run opts db0 accepted st \<Longrightarrow> record_decision opts available now entry st = (Inl e, st') \<Longrightarrow>
    log_run opts db0 accepted st'"
| timer: "log_run opts db0 accepted st \<Longrightarrow> log_run opts db0 accepted (flush_log opts now st)"
| answered: "log_run opts db0 accepted st \<Longrightarrow> log_run opts db0 accepted (batch_answered opts available now st)"
| settled: "log_run opts db0 accepted st \<Longrightarrow> log_run opts db0 accepted (flush_settled st)"

text \<open>Every accepted record is stored, dropped by a failed flush, in flight or in the buffer.\<close>

definition accounts :: "log_options \<Rightarrow> database \<Rightarrow> decision_log_record list \<Rightarrow> log_state \<Rightarrow> bool" where
  "accounts opts db0 accepted st \<longleftrightarrow> length (log_buffer st) \<le> max_buffer_size opts \<and>
     buffer_depth (log_metrics st) = length (log_buffer st) \<and>
     (\<exists>stored gone. db_decisions (log_db st) = db_decisions db0 @ map decision_row_of stored \<and>
        length gone = records_dropped (log_metrics st) \<and>
        records_flushed (log_metrics st) \<le> length stored \<and>
        length stored \<le> records_flushed (log_metrics st) + records_degraded (log_metrics st) \<and>
        mset accepted = mset stored + mset gone + mset (in_flight st) + mset (log_buffer st))"

lemma sink_cases:
  "sink_record_batch available entries db = (r, db') \<Longrightarrow>
   (is_ok r \<and> db_decisions db' = db_decisions db @ map decision_row_of entries) \<or> (\<not> is_ok r \<and> db' = db)"
  by (auto simp: sink_record_batch_def Let_def split: if_splits)

lemma next_batch_accounts:
  assumes "accounts opts db0 accepted st" "in_flight st = []"
  shows "accounts opts db0 accepted (next_batch opts now st)"
proof (cases "log_buffer st = []")
  case True
  with assms show ?thesis by (simp add: accounts_def next_batch_def in_flight_def)
next
  case False
  have "mset (log_buffer st) = mset (take (flush_batch_size opts) (log_buffer st)) + mset (drop (flush_batch_size opts) (log_buffer st))"
    by (metis append_take_drop_id mset_append)
  with assms False show ?thesis
    by (auto simp: accounts_def next_batch_def Let_def in_flight_def add_ac)
qed

lemma flush_accounts: "accounts opts db0 accepted st \<Longrightarrow> accounts opts db0 accepted (flush_log opts now st)"
  unfolding flush_log_def using next_batch_accounts by (auto simp: in_flight_def)

lemma settled_accounts: "accounts opts db0 accepted st \<Longrightarrow> accounts opts db0 accepted (flush_settled st)"
  by (cases "log_phase st") (simp_all add: accounts_def flush_settled_def in_flight_def)

lemma answered_accounts:
  assumes "accounts opts db0 accepted st"
  shows "accounts opts db0 accepted (batch_answered opts available now st)"
proof (cases "log_phase st")
  case (Writing batch)
  obtain r db' where sink: "sink_record_batch available batch (log_db st) = (r, db')"
    by (cases "sink_record_batch available batch (log_db st)")
  from assms obtain stored gone where
    bounds: "length (log_buffer st) \<le> max_buffer_size opts" "buffer_depth (log_metrics st) = length (log_buffer st)"
    and rows: "db_decisions (log_db st) = db_decisions db0 @ map decision_row_of stored"
    and gone: "length gone = records_dropped (log_metrics st)"
    and flushed: "records_flushed (log_metrics st) \<le> length stored"
      "length stored \<le> records_flushed (log_metrics st) + records_degraded (log_metrics st)"
    and all: "mset accepted = mset stored + mset gone + mset batch + mset (log_buffer st)"
    using Writing by (auto simp: accounts_def in_flight_def)
  let ?m = "log_metrics st"
  show ?thesis
  proof (cases "is_ok r")
    case True
    let ?st = "st\<lparr>log_phase := Settling, log_db := db', log_metrics := ?m\<lparr>records_flushed := records_flushed ?m + length batch\<rparr>\<rparr>"
    have "db_decisions db' = db_decisions db0 @ map decision_row_of (stored @ batch)"
      using sink_cases[OF sink] True rows by simp
    moreover have "mset accepted = mset (stored @ batch) + mset gone + mset (log_buffer st)" using all by (simp add: add_ac)
    ultimately have "accounts opts db0 accepted ?st"
      using bounds gone flushed unfolding accounts_def in_flight_def
      by simp (rule exI[of _ "stored @ batch"], simp, rule exI[of _ gone], simp)
    then have "accounts opts db0 accepted (next_batch opts now ?st)" by (rule next_batch_accounts) (simp add: in_flight_def)
    moreover have "batch_answered opts available now st = next_batch opts now ?st"
      using Writing sink True by (auto simp: batch_answered_def Let_def next_batch_def elim!: is_okE)
    ultimately show ?thesis by simp
  next
    case False
    let ?st = "st\<lparr>log_phase := Settling, log_db := db', log_metrics := ?m\<lparr>records_dropped := records_dropped ?m + length batch\<rparr>\<rparr>"
    have "db' = log_db st" using sink_cases[OF sink] False by simp
    moreover have "mset accepted = mset stored + mset (gone @ batch) + mset (log_buffer st)" using all by (simp add: add_ac)
    ultimately have "accounts opts db0 accepted ?st"
      using bounds gone flushed rows unfolding accounts_def in_flight_def
      by simp (rule exI[of _ stored], simp, rule exI[of _ "gone @ batch"], simp)
    then have "accounts opts db0 accepted (next_batch opts now ?st)" by (rule next_batch_accounts) (simp add: in_flight_def)
    moreover have "batch_answered opts available now st = next_batch opts now ?st"
      using Writing sink False by (cases r) (auto simp: batch_answered_def Let_def next_batch_def)
    ultimately show ?thesis by simp
  qed
qed (use assms in \<open>simp_all add: batch_answered_def\<close>)

lemma record_accounts:
  assumes "accounts opts db0 accepted st" "record_decision opts available now entry st = (r, st')"
  shows "accounts opts db0 (if is_ok r then accepted @ [entry] else accepted) st'"
proof (cases "length (log_buffer st) \<ge> max_buffer_size opts")
  case True
  obtain r' db' where sink: "sink_record_batch available [entry] (log_db st) = (r', db')"
    by (cases "sink_record_batch available [entry] (log_db st)")
  with True assms(2) have st': "r = r'" "st' = st\<lparr>log_db := db',
      log_metrics := (log_metrics st)\<lparr>records_degraded := records_degraded (log_metrics st) + 1\<rparr>\<rparr>"
    by (simp_all add: record_decision_def)
  from assms(1) obtain stored gone where stored:
    "length (log_buffer st) \<le> max_buffer_size opts" "buffer_depth (log_metrics st) = length (log_buffer st)"
    "db_decisions (log_db st) = db_decisions db0 @ map decision_row_of stored"
    "length gone = records_dropped (log_metrics st)" "records_flushed (log_metrics st) \<le> length stored"
    "length stored \<le> records_flushed (log_metrics st) + records_degraded (log_metrics st)"
    "mset accepted = mset stored + mset gone + mset (in_flight st) + mset (log_buffer st)"
    by (auto simp: accounts_def)
  show ?thesis
  proof (cases "is_ok r")
    case ok: True
    have "db_decisions db' = db_decisions db0 @ map decision_row_of (stored @ [entry])"
      using sink_cases[OF sink] ok st'(1) stored(3) by simp
    then show ?thesis
      using ok stored unfolding accounts_def st'(2) in_flight_def
      by simp (rule exI[of _ "stored @ [entry]"], simp, rule exI[of _ gone], simp)
  next
    case False
    then have "db' = log_db st" using sink_cases[OF sink] st'(1) by simp
    with False stored show ?thesis unfolding accounts_def st'(2) in_flight_def by fastforce
  qed
next
  case False
  let ?st = "st\<lparr>log_buffer := log_buffer st @ [entry],
      log_metrics := (log_metrics st)\<lparr>buffer_depth := length (log_buffer st @ [entry])\<rparr>\<rparr>"
  have "accounts opts db0 (accepted @ [entry]) ?st"
    using assms(1) False unfolding accounts_def in_flight_def by fastforce
  moreover have "r = Inr ()" "st' = ?st \<or> st' = flush_log opts now ?st"
    using assms(2) False by (auto simp: record_decision_def Let_def)
  ultimately show ?thesis using flush_accounts by auto
qed

lemma log_run_accounts: "log_run opts db0 accepted st \<Longrightarrow> accounts opts db0 accepted st"
proof (induction rule: log_run.induct)
  case opened
  show ?case by (simp add: accounts_def open_log_def in_flight_def)
next
  case (recorded accepted st available now entry st')
  from record_accounts[OF recorded.IH recorded.hyps(2)] show ?case by simp
next
  case (refused accepted st available now entry e st')
  from record_accounts[OF refused.IH refused.hyps(2)] show ?case by simp
qed (auto intro: flush_accounts answered_accounts settled_accounts)

section \<open>Draining\<close>

text \<open>With enough answers of the sink the drain ends, whatever the answers are.\<close>

definition to_write :: "log_state \<Rightarrow> nat" where
  "to_write st = length (log_buffer st) + (case log_phase st of Writing _ \<Rightarrow> 1 | _ \<Rightarrow> 0)"

lemma next_batch_to_write:
  "0 < flush_batch_size opts \<Longrightarrow> to_write (next_batch opts now st) \<le> length (log_buffer st) \<and>
   log_phase (next_batch opts now st) \<noteq> NotFlushing \<and>
   (log_phase (next_batch opts now st) = Settling \<longrightarrow> log_buffer (next_batch opts now st) = [])"
  by (cases "log_buffer st") (auto simp: next_batch_def to_write_def Let_def)

lemma batch_answered_to_write:
  assumes "0 < flush_batch_size opts" "log_phase st = Writing batch"
  shows "to_write (batch_answered opts available now st) < to_write st"
    "log_phase (batch_answered opts available now st) \<noteq> NotFlushing"
    "log_phase (batch_answered opts available now st) = Settling \<Longrightarrow> log_buffer (batch_answered opts available now st) = []"
proof -
  obtain st' where st': "batch_answered opts available now st = next_batch opts now st'" "log_buffer st' = log_buffer st"
  proof -
    obtain r db' where sink: "sink_record_batch available batch (log_db st) = (r, db')"
      by (cases "sink_record_batch available batch (log_db st)")
    then show thesis
      by (cases r) (simp_all add: batch_answered_def assms(2) Let_def that)
  qed
  with next_batch_to_write[OF assms(1), of now st'] assms(2)
  show "to_write (batch_answered opts available now st) < to_write st"
    "log_phase (batch_answered opts available now st) \<noteq> NotFlushing"
    "log_phase (batch_answered opts available now st) = Settling \<Longrightarrow> log_buffer (batch_answered opts available now st) = []"
    by (auto simp: to_write_def)
qed

lemma answers_settle:
  "0 < flush_batch_size opts \<Longrightarrow> log_phase st \<noteq> NotFlushing \<Longrightarrow>
   (log_phase st = Settling \<longrightarrow> log_buffer st = []) \<Longrightarrow> to_write st \<le> length as \<Longrightarrow>
   log_phase (answers opts now as st) = Settling \<and> log_buffer (answers opts now as st) = []"
proof (induction as arbitrary: st)
  case Nil
  then show ?case by (cases "log_phase st") (auto simp: to_write_def)
next
  case (Cons a as)
  show ?case
  proof (cases "log_phase st")
    case (Writing batch)
    note step = batch_answered_to_write[OF Cons.prems(1) Writing, of a now]
    have "to_write (batch_answered opts a now st) \<le> length as" using step(1) Cons.prems(4) by simp
    then show ?thesis using Cons.IH[OF Cons.prems(1) step(2)] step(3) by simp
  next
    case Settling
    then have "batch_answered opts a now st = st" by (simp add: batch_answered_def)
    moreover have "to_write st = 0" using Settling Cons.prems(3) by (simp add: to_write_def)
    ultimately show ?thesis using Cons.IH[OF Cons.prems(1-3)] by simp
  qed (use Cons.prems in simp)
qed

definition sample_log_options :: log_options where
  "sample_log_options = \<lparr>max_buffer_size = 2, flush_batch_size = 2, flush_interval_ms = 1000\<rparr>"

definition sample_entry :: "string \<Rightarrow> decision_log_record" where
  "sample_entry i = log_record_of i 0 5 (Some sample_org) sample_principal read_doc (sample_ref ''doc'' ''a'')
     \<lparr>result_decision = no_org_context, result_revision = Revision 1, result_cacheable = False\<rparr>"

definition sample_log :: log_state where
  "sample_log = snd (record_decision sample_log_options True 5 (sample_entry ''b'')
     (snd (record_decision sample_log_options True 5 (sample_entry ''a'') (open_log empty_database))))"

lemma sample_log_run: "log_run sample_log_options empty_database [sample_entry ''a'', sample_entry ''b''] sample_log"
proof -
  let ?st = "snd (record_decision sample_log_options True 5 (sample_entry ''a'') (open_log empty_database))"
  have "record_decision sample_log_options True 5 (sample_entry ''a'') (open_log empty_database) = (Inr (), ?st)"
    by code_simp
  from log_run.recorded[OF log_run.opened this] have "log_run sample_log_options empty_database [sample_entry ''a''] ?st" by simp
  moreover have "record_decision sample_log_options True 5 (sample_entry ''b'') ?st = (Inr (), sample_log)"
    by code_simp
  ultimately show ?thesis using log_run.recorded by fastforce
qed

section \<open>Properties\<close>

text \<open>C21: the decision log loses nothing silently and never grows past its bound: along every
  interleaving of records, timer ticks and sink answers, the buffer holds at most the configured number of
  records, and the records accepted so far are, as a multiset, exactly those stored, those counted as
  dropped, those in flight and those in the buffer.\<close>
theorem log_accounts_for_everything:
  assumes "log_run opts db0 accepted st"
  shows "length (log_buffer st) \<le> max_buffer_size opts \<and> buffer_depth (log_metrics st) = length (log_buffer st) \<and>
    (\<exists>stored gone. db_decisions (log_db st) = db_decisions db0 @ map decision_row_of stored \<and>
       length gone = records_dropped (log_metrics st) \<and>
       mset accepted = mset stored + mset gone + mset (in_flight st) + mset (log_buffer st))"
  using log_run_accounts[OF assms] unfolding accounts_def by blast

theorem log_accounts_for_everything_witness:
  "length (log_buffer sample_log) \<le> 2 \<and> buffer_depth (log_metrics sample_log) = length (log_buffer sample_log) \<and>
    (\<exists>stored gone. db_decisions (log_db sample_log) = db_decisions empty_database @ map decision_row_of stored \<and>
       length gone = records_dropped (log_metrics sample_log) \<and>
       mset [sample_entry ''a'', sample_entry ''b''] =
         mset stored + mset gone + mset (in_flight sample_log) + mset (log_buffer sample_log))"
  using log_accounts_for_everything[OF sample_log_run] by (simp only: sample_log_options_def log_options.simps)

text \<open>Closing drains the log: with a positive batch size, whatever the buffer holds and however the sink
  answers, after at most one answer per buffered record and one for a batch in flight nothing is buffered,
  nothing is in flight and no flush is running.\<close>
theorem close_drains:
  assumes "0 < flush_batch_size opts" "log_run opts db0 accepted st"
    and "length (log_buffer st) < length sink_answers"
  shows "log_buffer (close_log opts now sink_answers st) = [] \<and>
    log_phase (close_log opts now sink_answers st) = NotFlushing"
proof -
  let ?st = "flush_log opts now (flush_settled st)"
  have buffer: "log_buffer (flush_settled st) = log_buffer st" by (simp add: flush_settled_def)
  have "log_phase ?st \<noteq> NotFlushing \<and> (log_phase ?st = Settling \<longrightarrow> log_buffer ?st = []) \<and>
      to_write ?st \<le> length sink_answers"
  proof (cases "log_phase (flush_settled st) = NotFlushing")
    case True
    with next_batch_to_write[OF assms(1), of now "flush_settled st"] assms(3) buffer show ?thesis
      by (simp add: flush_log_def)
  next
    case False
    then obtain batch where "log_phase (flush_settled st) = Writing batch"
      by (cases "log_phase st") (auto simp: flush_settled_def)
    with assms(3) buffer show ?thesis by (simp add: flush_log_def to_write_def)
  qed
  with answers_settle[OF assms(1), of ?st sink_answers now] show ?thesis
    by (simp add: close_log_def flush_settled_def)
qed

theorem close_drains_witness:
  "log_buffer (close_log sample_log_options 9 [False] sample_log) = [] \<and>
   log_phase (close_log sample_log_options 9 [False] sample_log) = NotFlushing"
proof -
  have "0 < flush_batch_size sample_log_options" "length (log_buffer sample_log) < length [False]" by code_simp+
  from close_drains[OF this(1) sample_log_run this(2)] show ?thesis .
qed

text \<open>No decision without a record: when a check returns a decision, the decision is the one the decision
  point computed, and exactly one record of it, with its effect, reasons and revision, has been accepted by
  the log; when the log refuses the record, no decision is returned.\<close>
theorem returned_decisions_are_recorded:
  assumes "pdp_check p reader cache opts available uuid started_at now finished_at before db pr act resource request (c, st) =
    (Some d, c', st')"
  shows "\<exists>result entry. check p reader cache before db now pr act resource request c = Some (result, c') \<and>
    d = result_decision result \<and> entry = log_record_of uuid started_at finished_at (org_of pr) pr act resource result \<and>
    rec_effect entry = decision_effect d \<and> rec_reasons entry = decision_reasons d \<and>
    rec_revision_used entry = result_revision result \<and> 0 \<le> rec_latency entry \<and>
    record_decision opts available finished_at entry st = (Inr (), st')"
proof (cases "check p reader cache before db now pr act resource request c")
  case None
  with assms show ?thesis by (simp add: pdp_check_def)
next
  case (Some r)
  obtain result c1 where r: "r = (result, c1)" by (cases r)
  let ?entry = "log_record_of uuid started_at finished_at (org_of pr) pr act resource result"
  obtain w st1 where w: "record_decision opts available finished_at ?entry st = (w, st1)"
    by (cases "record_decision opts available finished_at ?entry st")
  with assms Some r have "d = result_decision result" "c' = c1" "st' = st1" "w = Inr ()"
    by (cases w; simp add: pdp_check_def)+
  with Some r w show ?thesis by (auto simp: log_record_of_def)
qed

theorem returned_decisions_are_recorded_witness:
  "\<exists>d c' st' result entry. check plain_platform noop_reader noop_decision_cache empty_database empty_database 0
      sample_principal read_doc (sample_ref ''doc'' ''a'') (sample_request FullConsistency) () = Some (result, c') \<and>
    d = result_decision result \<and> entry = log_record_of ''u1'' 0 5 (org_of sample_principal) sample_principal read_doc
      (sample_ref ''doc'' ''a'') result \<and>
    rec_effect entry = decision_effect d \<and> rec_reasons entry = decision_reasons d \<and>
    rec_revision_used entry = result_revision result \<and> 0 \<le> rec_latency entry \<and>
    record_decision sample_log_options True 5 entry (open_log empty_database) = (Inr (), st')"
proof -
  let ?call = "pdp_check plain_platform noop_reader noop_decision_cache sample_log_options True ''u1'' 0 0 5
      empty_database empty_database sample_principal read_doc (sample_ref ''doc'' ''a'')
      (sample_request FullConsistency) ((), open_log empty_database)"
  have "fst ?call \<noteq> None" by code_simp
  then obtain d c' st' where "?call = (Some d, c', st')" by (metis not_None_eq prod.collapse)
  from returned_decisions_are_recorded[OF this] show ?thesis by blast
qed

end
