(* ===== verification/Directory.thy ===== *)
theory Directory
  imports IndexFresh
begin

text \<open>
  The directory of the administration console (authz/application/directory-service.ts): read-only
  views of the namespaces, the tuples, page by page, and the policies of an organization.
\<close>

section \<open>Views\<close>

record namespace_summary_view =
  nsv_namespace :: string
  nsv_relations :: "string list"
  nsv_actions :: "string list"
  nsv_revision :: nat

record namespace_detail_view =
  ndv_namespace :: string
  ndv_relations :: "string list"
  ndv_actions :: "(string \<times> string list) list"
  ndv_rewrites :: "(string \<times> userset) list"
  ndv_revision :: nat

record subject_view =
  sv_type :: string
  sv_id :: string
  sv_relation :: "string option"

record tuple_view =
  tv_object :: entity_ref
  tv_relation :: string
  tv_subject :: subject_view
  tv_revision :: nat

record policy_view =
  pv_id :: string
  pv_effect :: policy_effect
  pv_resource_type :: string
  pv_action :: string
  pv_condition :: condition
  pv_revision :: nat

record tuple_query =
  tq_namespace :: "string option"
  tq_object_id :: "string option"
  tq_relation :: "string option"
  tq_subject :: "subject_view option"
  tq_limit :: nat
  tq_offset :: nat

definition to_subject_ref :: "subject_view \<Rightarrow> subject_ref" where
  "to_subject_ref s =
     (case sv_relation s of
        Some relation \<Rightarrow> UsersetSubject \<lparr>ref_type = sv_type s, ref_id = sv_id s\<rparr> relation
      | None \<Rightarrow> Subject \<lparr>ref_type = sv_type s, ref_id = sv_id s\<rparr>)"

definition from_subject_ref :: "subject_ref \<Rightarrow> subject_view" where
  "from_subject_ref s =
     (case s of
        UsersetSubject r relation \<Rightarrow> \<lparr>sv_type = ref_type r, sv_id = ref_id r, sv_relation = Some relation\<rparr>
      | Subject r \<Rightarrow> \<lparr>sv_type = ref_type r, sv_id = ref_id r, sv_relation = None\<rparr>)"

section \<open>The operations\<close>

definition directory_list_namespaces :: "org_id \<Rightarrow> database \<Rightarrow> namespace_summary_view list" where
  "directory_list_namespaces org db =
     map (\<lambda>d. let data = config_to_data (def_config d) in
       \<lparr>nsv_namespace = def_namespace d, nsv_relations = data_relations data,
        nsv_actions = map fst (data_actions data), nsv_revision = rev_value (def_revision d)\<rparr>)
       (list_namespaces_by_org org db)"

definition directory_get_namespace :: "org_id \<Rightarrow> string \<Rightarrow> database \<Rightarrow> namespace_detail_view option" where
  "directory_get_namespace org namespace db =
     map_option (\<lambda>d. let data = config_to_data (def_config d) in
       \<lparr>ndv_namespace = def_namespace d, ndv_relations = data_relations data, ndv_actions = data_actions data,
        ndv_rewrites = (case data_rewrites data of Some rs \<Rightarrow> rs | None \<Rightarrow> []),
        ndv_revision = rev_value (def_revision d)\<rparr>)
       (find_by_namespace org namespace db)"

definition tuple_filter_of :: "org_id \<Rightarrow> tuple_query \<Rightarrow> tuple_filter" where
  "tuple_filter_of org q = \<lparr>filter_org = org, filter_namespace = tq_namespace q, filter_object_id = tq_object_id q,
     filter_relation = tq_relation q, filter_subject = map_option to_subject_ref (tq_subject q),
     filter_limit = tq_limit q, filter_offset = tq_offset q\<rparr>"

definition tuple_view_of :: "relation_tuple \<Rightarrow> tuple_view" where
  "tuple_view_of t = \<lparr>tv_object = tuple_object t, tv_relation = tuple_relation t,
     tv_subject = from_subject_ref (tuple_subject t), tv_revision = rev_value (tuple_revision t)\<rparr>"

definition directory_list_tuples :: "org_id \<Rightarrow> tuple_query \<Rightarrow> database \<Rightarrow> tuple_view list throws" where
  "directory_list_tuples org q db = map_sum id (map tuple_view_of) (list_tuples (tuple_filter_of org q) db)"

definition directory_list_policies :: "org_id \<Rightarrow> database \<Rightarrow> policy_view list" where
  "directory_list_policies org db =
     map (\<lambda>q. \<lparr>pv_id = policy_id q, pv_effect = policy_effect q, pv_resource_type = policy_resource_type q,
       pv_action = policy_action q, pv_condition = policy_condition q, pv_revision = rev_value (policy_revision q)\<rparr>)
       (list_policies_by_org org db)"

lemma to_from_subject_ref: "to_subject_ref (from_subject_ref s) = s"
  by (cases s) (simp_all add: to_subject_ref_def from_subject_ref_def)

lemma from_to_subject_ref: "from_subject_ref (to_subject_ref v) = v"
  by (simp add: to_subject_ref_def from_subject_ref_def split: option.splits)

section \<open>Paging\<close>

lemma map_throws_slice:
  "map_throws f xs = Inr ys \<Longrightarrow> map_throws f (slice n k xs) = Inr (slice n k ys)"
  unfolding map_throws_ok_iff slice_def by (intro list_all2_takeI list_all2_dropI)

lemma slices_cover: "concat (map (\<lambda>k. slice n (k * n) xs) [0..<m]) = take (m * n) xs"
  by (induction m) (simp_all add: slice_def add.commute flip: take_add)

definition matching_rows :: "org_id \<Rightarrow> tuple_query \<Rightarrow> database \<Rightarrow> tuple_row list" where
  "matching_rows org q db = filter (matches_filter (tuple_filter_of org q)) (db_tuples db)"

lemma matching_page: "matching_rows org (q\<lparr>tq_limit := n, tq_offset := k\<rparr>) db = matching_rows org q db"
proof -
  have "matches_filter (tuple_filter_of org (q\<lparr>tq_limit := n, tq_offset := k\<rparr>)) =
      matches_filter (tuple_filter_of org q)"
    by (simp add: fun_eq_iff matches_filter_def tuple_filter_of_def)
  then show ?thesis by (simp add: matching_rows_def)
qed

definition paged_db :: database where
  "paged_db = apply_commands sample_define
     [add_tuple (sample_ref ''doc'' ''a'') ''viewer'' (team_members ''x''),
      add_tuple (sample_ref ''team'' ''x'') ''member'' (Subject (sample_ref ''user'' ''ann''))]"

definition every_tuple :: tuple_query where
  "every_tuple = \<lparr>tq_namespace = None, tq_object_id = None, tq_relation = None, tq_subject = None,
     tq_limit = 50, tq_offset = 0\<rparr>"

lemma paged_rows: "length (matching_rows sample_org every_tuple paged_db) = 2"
  by code_simp

text \<open>Paging through the directory loses and repeats nothing: in every reachable database and for
  every page size, the pages of a query at consecutive offsets all succeed, and put together they hold
  one view for each stored tuple of the organization that matches the query.\<close>
theorem directory_pages_cover:
  assumes "reachable p db" "length (matching_rows org q db) \<le> m * n"
  shows "\<exists>pages. map (\<lambda>k. directory_list_tuples org (q\<lparr>tq_limit := n, tq_offset := k * n\<rparr>) db) [0..<m] = map Inr pages \<and>
    mset (map Inr (concat pages)) = mset (map (\<lambda>r. map_sum id tuple_view_of (tuple_to_domain r)) (matching_rows org q db))"
proof -
  have inv: "rows_inv p db" using store_inv_reachable[OF assms(1)] by (simp add: store_inv_def)
  define rows where "rows = sort_key (\<lambda>r. (tr_namespace r, tr_object_id r, tr_relation r, tr_subject r)) (matching_rows org q db)"
  have "set rows \<subseteq> set (db_tuples db)" by (auto simp: rows_def matching_rows_def)
  then obtain ts where ts: "map_throws tuple_to_domain rows = Inr ts"
    using map_throws_total[of rows tuple_to_domain] parse_ok_of_rows(1)[OF inv] by blast
  have page: "directory_list_tuples org (q\<lparr>tq_limit := n, tq_offset := k * n\<rparr>) db =
      Inr (map tuple_view_of (slice n (k * n) ts))" for k
  proof -
    have "list_tuples (tuple_filter_of org (q\<lparr>tq_limit := n, tq_offset := k * n\<rparr>)) db =
        map_throws tuple_to_domain (slice n (k * n) rows)"
      using matching_page[where org = org and q = q and n = n and k = "k * n" and db = db]
      by (simp add: list_tuples_def rows_def matching_rows_def) (simp add: tuple_filter_of_def)
    with map_throws_slice[OF ts] show ?thesis by (simp add: directory_list_tuples_def)
  qed
  let ?pages = "map (\<lambda>k. map tuple_view_of (slice n (k * n) ts)) [0..<m]"
  have len: "length ts = length (matching_rows org q db)"
    using ts by (simp add: rows_def map_throws_ok_iff list_all2_lengthD[symmetric])
  have "concat ?pages = map tuple_view_of (concat (map (\<lambda>k. slice n (k * n) ts) [0..<m]))"
    by (simp add: map_concat comp_def)
  then have "concat ?pages = map tuple_view_of ts" using assms(2) len by (simp add: slices_cover)
  moreover have "map Inr ts = map tuple_to_domain rows"
    using ts by (simp add: map_throws_ok_iff list_all2_conv_all_nth list_eq_iff_nth_eq)
  then have "map (Inr \<circ> tuple_view_of) ts = map (\<lambda>r. map_sum id tuple_view_of (tuple_to_domain r)) rows"
    by (metis (no_types, lifting) comp_def list.map_comp list.map_cong0 map_sum.simps(2))
  ultimately have "mset (map Inr (concat ?pages)) =
      mset (map (\<lambda>r. map_sum id tuple_view_of (tuple_to_domain r)) (matching_rows org q db))"
    by (simp add: comp_def rows_def)
  with page show ?thesis by (intro exI[of _ ?pages]) (simp add: comp_def)
qed

theorem directory_pages_cover_witness:
  "\<exists>pages. map (\<lambda>k. directory_list_tuples sample_org (every_tuple\<lparr>tq_limit := 1, tq_offset := k * 1\<rparr>) paged_db) [0..<2] =
      map Inr pages \<and>
    mset (map Inr (concat pages)) =
      mset (map (\<lambda>r. map_sum id tuple_view_of (tuple_to_domain r)) (matching_rows sample_org every_tuple paged_db))"
proof -
  have "reachable plain_platform paged_db" unfolding paged_db_def by (rule reachable_commands)
  then show ?thesis by (rule directory_pages_cover) (simp add: paged_rows)
qed

end
