(* ===== verification/Json.thy ===== *)
theory Json
  imports Conditions "HOL-Library.List_Lexorder" "HOL-Library.Char_ord"
begin

text \<open>
  JSON values and their canonical text (\<open>canonicalize\<close> of security/domain/audit-chain.ts). The
  lemmas show that the text is unambiguous: it determines the value up to the order of object keys
  (and \<open>undefined\<close>, which is written as \<open>null\<close>). Numbers are integers, the ones the code records.
\<close>

section \<open>Values and their text\<close>

datatype json = JNull | JUndefined | JBool bool | JNumber int | JString string
  | JArray "json list" | JObject "(string \<times> json) list"

text \<open>\<open>JSON.stringify\<close> of a string.\<close>

definition escape_hex :: "nat \<Rightarrow> char" where
  "escape_hex n = ''0123456789abcdef'' ! n"

definition json_escape :: "char \<Rightarrow> string" where
  "json_escape c =
     (if c = CHR 0x22 then [CHR 0x5C, CHR 0x22]
      else if c = CHR 0x5C then [CHR 0x5C, CHR 0x5C]
      else if c = CHR 0x08 then [CHR 0x5C, CHR ''b'']
      else if c = CHR 0x0C then [CHR 0x5C, CHR ''f'']
      else if c = CHR 0x0A then [CHR 0x5C, CHR ''n'']
      else if c = CHR 0x0D then [CHR 0x5C, CHR ''r'']
      else if c = CHR 0x09 then [CHR 0x5C, CHR ''t'']
      else if of_char c < (32 :: nat)
      then [CHR 0x5C, CHR ''u'', CHR ''0'', CHR ''0'', escape_hex (of_char c div 16), escape_hex (of_char c mod 16)]
      else [c])"

definition json_string :: "string \<Rightarrow> string" where
  "json_string s = CHR 0x22 # concat (map json_escape s) @ [CHR 0x22]"

definition json_number :: "int \<Rightarrow> string" where
  "json_number n = (if n < 0 then CHR ''-'' # digits (nat (- n)) else digits (nat n))"

fun join_comma :: "string list \<Rightarrow> string" where
  "join_comma [] = []"
| "join_comma [s] = s"
| "join_comma (s # t # ts) = s @ CHR '','' # join_comma (t # ts)"

function canonicalize :: "json \<Rightarrow> string" where
  "canonicalize JNull = ''null''"
| "canonicalize JUndefined = ''null''"
| "canonicalize (JBool b) = (if b then ''true'' else ''false'')"
| "canonicalize (JNumber n) = json_number n"
| "canonicalize (JString s) = json_string s"
| "canonicalize (JArray vs) = ''['' @ join_comma (map canonicalize vs) @ '']''"
| "canonicalize (JObject es) =
     ''{'' @ join_comma (map (\<lambda>e. json_string (fst e) @ '':'' @ canonicalize (snd e)) (sort_key fst es)) @ ''}''"
  by pat_completeness auto

lemma entry_size: "e \<in> set es \<Longrightarrow> size (snd e) < size (JObject es)"
  by (induction es) auto

termination canonicalize
proof (relation "measure size")
  fix es :: "(string \<times> json) list" and e
  assume "e \<in> set (sort_key fst es)"
  then show "(snd e, JObject es) \<in> measure size" using entry_size[of e es] by (simp del: json.size)
qed (auto simp: less_Suc_eq_le size_list_estimation')

section \<open>The value a text stands for\<close>

text \<open>Keys in order, \<open>undefined\<close> as \<open>null\<close>.\<close>

function canonical_form :: "json \<Rightarrow> json" where
  "canonical_form JNull = JNull"
| "canonical_form JUndefined = JNull"
| "canonical_form (JBool b) = JBool b"
| "canonical_form (JNumber n) = JNumber n"
| "canonical_form (JString s) = JString s"
| "canonical_form (JArray vs) = JArray (map canonical_form vs)"
| "canonical_form (JObject es) = JObject (map (\<lambda>e. (fst e, canonical_form (snd e))) (sort_key fst es))"
  by pat_completeness auto

termination canonical_form
proof (relation "measure size")
  fix es :: "(string \<times> json) list" and e
  assume "e \<in> set (sort_key fst es)"
  then show "(snd e, JObject es) \<in> measure size" using entry_size[of e es] by (simp del: json.size)
qed (auto simp: less_Suc_eq_le size_list_estimation')

lemma canonicalize_form: "canonicalize (canonical_form v) = canonicalize v"
proof (induction v rule: canonicalize.induct)
  case (6 vs)
  then have "map (canonicalize \<circ> canonical_form) vs = map canonicalize vs" by simp
  then show ?case by (simp only: canonicalize.simps canonical_form.simps list.map_comp)
next
  case (7 es)
  let ?es = "map (\<lambda>e. (fst e, canonical_form (snd e))) (sort_key fst es)"
  have "sort_key fst ?es = ?es" by (rule sort_key_id_if_sorted) (simp add: comp_def)
  moreover have "map (\<lambda>e. json_string (fst e) @ '':'' @ canonicalize (snd e)) ?es =
      map (\<lambda>e. json_string (fst e) @ '':'' @ canonicalize (snd e)) (sort_key fst es)"
    using 7 by simp
  ultimately show ?case by (simp only: canonicalize.simps canonical_form.simps)
qed simp_all

section \<open>The text is unambiguous\<close>

definition escape_letter :: "char \<Rightarrow> char" where
  "escape_letter y = (if y = CHR ''b'' then CHR 0x08 else if y = CHR ''f'' then CHR 0x0C else if y = CHR ''n'' then CHR 0x0A
     else if y = CHR ''r'' then CHR 0x0D else if y = CHR ''t'' then CHR 0x09 else y)"

definition escape_code :: "char \<Rightarrow> char \<Rightarrow> char" where
  "escape_code c d =
     char_of (16 * the (index_of c ''0123456789abcdef'') + the (index_of d ''0123456789abcdef''))"

definition unescape :: "string \<Rightarrow> char \<times> string" where
  "unescape xs =
     (if hd xs \<noteq> CHR 0x5C then (hd xs, tl xs)
      else if xs ! 1 = CHR ''u'' then (escape_code (xs ! 4) (xs ! 5), drop 6 xs)
      else (escape_letter (xs ! 1), drop 2 xs))"

lemma escape_hex_value: "n < 16 \<Longrightarrow> index_of (escape_hex n) ''0123456789abcdef'' = Some n"
proof -
  assume "n < 16"
  then have "n \<in> set [0..<16]" by simp
  then show ?thesis unfolding escape_hex_def by (simp add: upt_rec) auto
qed

definition short_escapes :: string where
  "short_escapes = [CHR 0x22, CHR 0x5C, CHR 0x08, CHR 0x0C, CHR 0x0A, CHR 0x0D, CHR 0x09]"

lemma unescape_short: "c \<in> set short_escapes \<Longrightarrow> unescape (json_escape c @ rest) = (c, rest)"
  unfolding short_escapes_def list.set insert_iff empty_iff
  by (elim disjE FalseE; hypsubst; simp add: json_escape_def unescape_def escape_letter_def)

lemma json_escape_long:
  "c \<notin> set short_escapes \<Longrightarrow> json_escape c =
     (if of_char c < (32 :: nat)
      then [CHR 0x5C, CHR ''u'', CHR ''0'', CHR ''0'', escape_hex (of_char c div 16), escape_hex (of_char c mod 16)]
      else [c])"
  unfolding short_escapes_def json_escape_def by (simp only: list.set insert_iff empty_iff de_Morgan_disj if_False simp_thms)

lemma escape_code_hex:
  assumes "of_char c < (32 :: nat)"
  shows "escape_code (escape_hex (of_char c div 16)) (escape_hex (of_char c mod 16)) = c"
proof -
  define n :: nat where "n = of_char c"
  have "n div 16 < 16" "n mod 16 < 16" using assms by (simp_all add: n_def[symmetric])
  then have "escape_code (escape_hex (n div 16)) (escape_hex (n mod 16)) = char_of (16 * (n div 16) + n mod 16)"
    by (simp only: escape_code_def escape_hex_value option.sel)
  also have "\<dots> = char_of n" by (simp only: mult_div_mod_eq)
  finally show ?thesis by (simp only: n_def char_of_char)
qed

lemma unescape_escape: "unescape (json_escape c @ rest) = (c, rest)"
proof (cases "c \<in> set short_escapes")
  case False
  then have "c \<noteq> CHR 0x5C" by (auto simp: short_escapes_def)
  then show ?thesis
    using escape_code_hex[of c] by (simp add: json_escape_long[OF False] unescape_def)
qed (rule unescape_short)

lemma json_escape_start: "json_escape c \<noteq> []" "hd (json_escape c) \<noteq> CHR 0x22"
proof -
  have "json_escape c \<noteq> [] \<and> hd (json_escape c) \<noteq> CHR 0x22"
  proof (cases "c \<in> set short_escapes")
    case True
    then show ?thesis
      unfolding short_escapes_def list.set insert_iff empty_iff
      by (elim disjE FalseE; hypsubst; simp add: json_escape_def)
  next
    case False
    then have "c \<noteq> CHR 0x22" by (auto simp: short_escapes_def)
    then show ?thesis by (simp add: json_escape_long[OF False])
  qed
  then show "json_escape c \<noteq> []" "hd (json_escape c) \<noteq> CHR 0x22" by simp_all
qed

lemma json_escape_head: "CHR 0x22 # x \<noteq> json_escape c @ z"
  using json_escape_start[of c] by (cases "json_escape c") auto

lemma escaped_prefix:
  "concat (map json_escape s) @ CHR 0x22 # x = concat (map json_escape t) @ CHR 0x22 # y \<Longrightarrow> s = t \<and> x = y"
proof (induction s arbitrary: t)
  case Nil
  show ?case
  proof (cases t)
    case (Cons c cs)
    with Nil have "CHR 0x22 # x = json_escape c @ (concat (map json_escape cs) @ CHR 0x22 # y)" by simp
    then show ?thesis using json_escape_head by blast
  qed (use Nil in simp)
next
  case (Cons a s)
  show ?case
  proof (cases t)
    case Nil
    with Cons.prems have "CHR 0x22 # y = json_escape a @ (concat (map json_escape s) @ CHR 0x22 # x)" by simp
    then show ?thesis using json_escape_head by blast
  next
    case t: (Cons c cs)
    from Cons.prems have
      "unescape (json_escape a @ (concat (map json_escape s) @ CHR 0x22 # x)) =
       unescape (json_escape c @ (concat (map json_escape cs) @ CHR 0x22 # y))" by (simp add: t)
    then show ?thesis using Cons.IH[of cs] unfolding unescape_escape by (simp add: t)
  qed
qed

lemma json_string_prefix: "json_string s @ x = json_string t @ y \<Longrightarrow> s = t \<and> x = y"
  using escaped_prefix[of s x t y] by (simp add: json_string_def)

text \<open>What may follow a value.\<close>

definition ends_value :: "string \<Rightarrow> bool" where
  "ends_value x \<longleftrightarrow> x = [] \<or> hd x \<in> {CHR '','', CHR '']'', CHR ''}''}"

lemma digits_prefix:
  assumes "digits n @ x = digits m @ y" "ends_value x" "ends_value y"
  shows "n = m \<and> x = y"
proof -
  have own: "takeWhile is_digit (digits k @ z) = digits k" if "ends_value z" for k z
    using that digits_are_digits[of k]
    by (cases z) (auto simp: ends_value_def takeWhile_append2 list_all_iff is_digit_def)
  from own[OF assms(2), of n] own[OF assms(3), of m] assms(1) have "digits n = digits m" by simp
  then show ?thesis using assms(1) by (metis dec_value_digits same_append_eq)
qed

lemma json_number_prefix:
  assumes "json_number n @ x = json_number m @ y" "ends_value x" "ends_value y"
  shows "n = m \<and> x = y"
proof -
  have plain: "CHR ''-'' # u \<noteq> digits k @ z" for u k z
    using digits_are_digits[of k] digits_nonempty[of k] by (cases "digits k") (auto simp: is_digit_def)
  have same: "n < 0 \<longleftrightarrow> m < 0"
    using assms(1) plain[of _ _ x] plain[of _ _ y] by (cases "n < 0"; cases "m < 0") (simp_all add: json_number_def, metis+)
  show ?thesis
  proof (cases "n < 0")
    case True
    with same assms(1) have "digits (nat (- n)) @ x = digits (nat (- m)) @ y" by (simp add: json_number_def)
    from digits_prefix[OF this assms(2,3)] True same show ?thesis by (simp add: eq_nat_nat_iff)
  next
    case False
    with same assms(1) have "digits (nat n) @ x = digits (nat m) @ y" by (simp add: json_number_def)
    from digits_prefix[OF this assms(2,3)] False same show ?thesis by (simp add: eq_nat_nat_iff)
  qed
qed

text \<open>The first character of a value tells its kind.\<close>

definition starts_with_kind :: "char \<Rightarrow> nat" where
  "starts_with_kind c = (if c = CHR ''n'' then 0 else if c = CHR ''t'' then 1 else if c = CHR ''f'' then 2
     else if c = CHR 0x22 then 3 else if c = CHR ''['' then 4 else if c = CHR ''{'' then 5
     else if c = CHR ''-'' \<or> is_digit c then 6 else 7)"

fun value_kind :: "json \<Rightarrow> nat" where
  "value_kind JNull = 0"
| "value_kind JUndefined = 0"
| "value_kind (JBool b) = (if b then 1 else 2)"
| "value_kind (JString s) = 3"
| "value_kind (JArray vs) = 4"
| "value_kind (JObject es) = 5"
| "value_kind (JNumber n) = 6"

lemma canonicalize_start:
  "canonicalize v \<noteq> [] \<and> starts_with_kind (hd (canonicalize v)) = value_kind v"
proof (cases v)
  case (JNumber n)
  have "starts_with_kind (hd (digits k)) = 6" for k
    using digits_are_digits[of k] by (cases "digits k") (auto simp: is_digit_def starts_with_kind_def)
  moreover have "starts_with_kind (CHR ''-'') = 6" by (simp add: starts_with_kind_def)
  ultimately show ?thesis by (cases "n < 0") (simp_all add: JNumber json_number_def)
qed (auto simp: starts_with_kind_def json_string_def)

lemma same_kind: "canonicalize a @ x = canonicalize b @ y \<Longrightarrow> value_kind a = value_kind b"
  using canonicalize_start[of a] canonicalize_start[of b] by (metis hd_append2)

lemma joined_prefix:
  assumes "\<And>a b x y. a \<in> set as \<Longrightarrow> enc a @ x = enc b @ y \<Longrightarrow> ends_value x \<Longrightarrow> ends_value y \<Longrightarrow>
      form a = form b \<and> x = y"
    and "\<And>a. enc a \<noteq> [] \<and> \<not> ends_value (enc a)" and "c \<in> {CHR '']'', CHR ''}''}"
    and "join_comma (map enc as) @ c # x = join_comma (map enc bs) @ c # y"
  shows "map form as = map form bs \<and> x = y"
  using assms(1,4)
proof (induction as arbitrary: bs)
  have enc: "\<not> ends_value (enc a @ z)" for a z using assms(2)[of a] by (auto simp: ends_value_def)
  have c: "ends_value (c # z)" "ends_value (CHR '','' # z)" for z using assms(3) by (auto simp: ends_value_def)
  {
    case Nil
    show ?case
    proof (cases bs)
      case (Cons b bs')
      then obtain z where "join_comma (map enc bs) @ c # y = enc b @ z" by (cases bs') auto
      with Nil.prems(2) enc[of b z] c(1)[of x] show ?thesis by simp
    qed (use Nil in simp)
  next
    case (Cons a as)
    note same = Cons.prems(1)[of a]
    show ?case
    proof (cases bs)
      case Nil
      obtain z where "join_comma (map enc (a # as)) @ c # x = enc a @ z" by (cases as) auto
      with Cons.prems(2) enc[of a z] c(1)[of y] Nil show ?thesis by simp
    next
      case bs: (Cons b bs')
      show ?thesis
      proof (cases "as = [] \<or> bs' = []")
        case True
        have tail: "join_comma (map enc (e # es)) @ c # z = enc e @ (if es = [] then c # z
            else CHR '','' # join_comma (map enc es) @ c # z)" for e es z
          by (cases es) auto
        have ends: "ends_value (if es = [] then c # z else CHR '','' # u)" for es :: "'a list" and z u
          using c by simp
        from Cons.prems(2) have "enc a @ (if as = [] then c # x else CHR '','' # join_comma (map enc as) @ c # x) =
            enc b @ (if bs' = [] then c # y else CHR '','' # join_comma (map enc bs') @ c # y)"
          by (simp only: bs tail)
        from same[OF _ this ends ends] have eq: "form a = form b"
          "(if as = [] then c # x else CHR '','' # join_comma (map enc as) @ c # x) =
           (if bs' = [] then c # y else CHR '','' # join_comma (map enc bs') @ c # y)" by simp_all
        have "c \<noteq> CHR '',''" using assms(3) by auto
        with arg_cong[OF eq(2), of hd] have "as = [] \<longleftrightarrow> bs' = []" by (simp split: if_splits)
        with True have "as = []" "bs' = []" by simp_all
        with eq show ?thesis by (simp add: bs)
      next
        case False
        then obtain a' as' b' bs'' where parts: "as = a' # as'" "bs' = b' # bs''" by (meson list.exhaust)
        from Cons.prems(2) have "enc a @ CHR '','' # join_comma (map enc as) @ c # x =
            enc b @ CHR '','' # join_comma (map enc bs') @ c # y" by (simp add: bs parts)
        from same[OF _ this c(2) c(2)] have eq: "form a = form b"
          "join_comma (map enc as) @ c # x = join_comma (map enc bs') @ c # y" by simp_all
        have "map form as = map form bs' \<and> x = y"
          by (rule Cons.IH[OF Cons.prems(1) eq(2)]) (rule list.set_intros(2))
        with eq(1) show ?thesis by (simp add: bs)
      qed
    qed
  }
qed

lemma canonicalize_not_end: "canonicalize v \<noteq> [] \<and> \<not> ends_value (canonicalize v)"
proof -
  have "value_kind v \<noteq> 7" by (cases v) auto
  then have "starts_with_kind (hd (canonicalize v)) \<noteq> 7" using canonicalize_start[of v] by simp
  then show ?thesis using canonicalize_start[of v] by (auto simp: ends_value_def starts_with_kind_def is_digit_def)
qed

lemma canonicalize_prefix:
  "canonicalize a @ x = canonicalize b @ y \<Longrightarrow> ends_value x \<Longrightarrow> ends_value y \<Longrightarrow>
   canonical_form a = canonical_form b \<and> x = y"
proof (induction a arbitrary: b x y rule: canonicalize.induct)
  case (4 n)
  from same_kind[OF "4.prems"(1)] obtain m where "b = JNumber m" by (cases b) (auto split: if_splits)
  then show ?case using json_number_prefix[of n x m y] "4.prems" by simp
next
  case (5 s)
  from same_kind[OF "5.prems"(1)] obtain t where "b = JString t" by (cases b) (auto split: if_splits)
  then show ?case using json_string_prefix[of s x t y] "5.prems" by simp
next
  case (6 vs)
  from same_kind[OF "6.prems"(1)] obtain ws where b: "b = JArray ws" by (cases b) (auto split: if_splits)
  with "6.prems"(1) have "join_comma (map canonicalize vs) @ CHR '']'' # x = join_comma (map canonicalize ws) @ CHR '']'' # y"
    by simp
  from joined_prefix[OF "6.IH" canonicalize_not_end _ this] show ?case by (simp add: b)
next
  case (7 es)
  let ?enc = "\<lambda>e. json_string (fst e) @ '':'' @ canonicalize (snd e)"
  from same_kind[OF "7.prems"(1)] obtain fs where b: "b = JObject fs" by (cases b) (auto split: if_splits)
  have entry: "(fst e, canonical_form (snd e)) = (fst f, canonical_form (snd f)) \<and> x = y"
    if "e \<in> set (sort_key fst es)" "?enc e @ x = ?enc f @ y" "ends_value x" "ends_value y" for e f x y
    using json_string_prefix[of "fst e" _ "fst f"] "7.IH"[OF that(1) _ that(3,4)] that(2) by fastforce
  have start: "?enc e \<noteq> [] \<and> \<not> ends_value (?enc e)" for e by (simp add: json_string_def ends_value_def)
  from "7.prems"(1) have "join_comma (map ?enc (sort_key fst es)) @ CHR ''}'' # x =
      join_comma (map ?enc (sort_key fst fs)) @ CHR ''}'' # y" by (simp add: b)
  from joined_prefix[of "sort_key fst es" ?enc "\<lambda>e. (fst e, canonical_form (snd e))", OF entry start _ this]
  show ?case by (simp add: b)
next
  case 1
  from same_kind[OF "1.prems"(1)] have "b = JNull \<or> b = JUndefined" by (cases b) (auto split: if_splits)
  with "1.prems" show ?case by auto
next
  case 2
  from same_kind[OF "2.prems"(1)] have "b = JNull \<or> b = JUndefined" by (cases b) (auto split: if_splits)
  with "2.prems" show ?case by auto
next
  case (3 v)
  from same_kind[OF "3.prems"(1)] have "b = JBool v" by (cases b) (auto split: if_splits)
  with "3.prems" show ?case by auto
qed

text \<open>The canonical text determines the value.\<close>

lemma canonicalize_eq_iff: "canonicalize a = canonicalize b \<longleftrightarrow> canonical_form a = canonical_form b"
proof
  show "canonical_form a = canonical_form b" if "canonicalize a = canonicalize b"
    using canonicalize_prefix[of a "[]" b "[]"] that by (simp add: ends_value_def)
  show "canonicalize a = canonicalize b" if "canonical_form a = canonical_form b"
    using canonicalize_form[of a] canonicalize_form[of b] that by simp
qed

text \<open>No control character survives in the text.\<close>

lemma escape_hex_plain: "n < 16 \<Longrightarrow> escape_hex n \<noteq> CHR 0x0A"
proof -
  assume "n < 16"
  then have "escape_hex n \<in> set ''0123456789abcdef''" unfolding escape_hex_def by (intro nth_mem) simp
  then show ?thesis by auto
qed

lemma json_escape_one_line: "CHR 0x0A \<notin> set (json_escape c)"
proof (cases "c \<in> set short_escapes")
  case True
  then show ?thesis
    unfolding short_escapes_def list.set insert_iff empty_iff
    by (elim disjE FalseE; hypsubst; simp add: json_escape_def)
next
  case False
  then have "CHR 0x0A \<noteq> c" by (auto simp: short_escapes_def)
  moreover have "CHR 0x0A \<noteq> escape_hex (of_char c mod 16)" by (rule not_sym, rule escape_hex_plain) simp
  moreover have "CHR 0x0A \<noteq> escape_hex (of_char c div 16)" if "of_char c < (32 :: nat)"
    using that by (intro not_sym[OF escape_hex_plain]) simp
  ultimately show ?thesis
    unfolding json_escape_long[OF False] by (cases "of_char c < (32 :: nat)") simp_all
qed

lemma join_comma_set: "set (join_comma ss) \<subseteq> {CHR '',''} \<union> \<Union> (set ` set ss)"
  by (induction ss rule: join_comma.induct) auto

lemma json_string_one_line: "CHR 0x0A \<notin> set (json_string s)"
  using json_escape_one_line by (auto simp: json_string_def)

lemma digits_one_line: "CHR 0x0A \<notin> set (digits n)"
proof -
  have "\<not> is_digit (CHR 0x0A)" by (simp add: is_digit_def)
  with digits_are_digits[of n] show ?thesis unfolding list_all_iff by blast
qed

lemma canonicalize_one_line: "CHR 0x0A \<notin> set (canonicalize v)"
proof (induction v rule: canonicalize.induct)
  case (6 vs)
  then have "CHR 0x0A \<notin> \<Union> (set ` set (map canonicalize vs))" by auto
  with join_comma_set[of "map canonicalize vs"] show ?case by auto
next
  case (7 es)
  let ?ss = "map (\<lambda>e. json_string (fst e) @ '':'' @ canonicalize (snd e)) (sort_key fst es)"
  have "CHR 0x0A \<notin> \<Union> (set ` set ?ss)" using 7 json_string_one_line by auto
  with join_comma_set[of ?ss] show ?case by (auto simp del: join_comma.simps)
qed (auto simp: json_string_one_line json_number_def digits_one_line)

end
