(* ===== verification/Dates.thy ===== *)
theory Dates
  imports Conditions Kernel
begin

text \<open>
  \<open>Date.toISOString\<close>: the calendar of ECMA-262 and the decimal fields of the text, for instants in
  milliseconds since the epoch. The text determines the instant.
\<close>

definition day_from_year :: "int \<Rightarrow> int" where
  "day_from_year y = 365 * (y - 1970) + (y - 1969) div 4 - (y - 1901) div 100 + (y - 1601) div 400"

definition year_from_day :: "int \<Rightarrow> int" where
  "year_from_day d =
     (let y = 1970 + 400 * d div 146097 in
      if day_from_year (y + 1) \<le> d then y + 1 else if day_from_year y \<le> d then y else y - 1)"

definition month_lengths :: "int \<Rightarrow> int list" where
  "month_lengths y = [31, if day_from_year (y + 1) - day_from_year y = 366 then 29 else 28, 31, 30, 31, 30, 31, 31, 30, 31, 30, 31]"

fun month_and_day :: "int \<Rightarrow> int list \<Rightarrow> int \<Rightarrow> int \<times> int" where
  "month_and_day m [] n = (m, n + 1)"
| "month_and_day m (l # ls) n = (if n < l then (m, n + 1) else month_and_day (m + 1) ls (n - l))"

definition pad :: "nat \<Rightarrow> int \<Rightarrow> string" where
  "pad width n = (let s = digits (nat n) in replicate (width - length s) (CHR ''0'') @ s)"

definition iso_year :: "int \<Rightarrow> string" where
  "iso_year y = (if 0 \<le> y \<and> y \<le> 9999 then pad 4 y else if y < 0 then CHR ''-'' # pad 6 (- y) else CHR ''+'' # pad 6 y)"

definition to_iso_string :: "date \<Rightarrow> string" where
  "to_iso_string t =
     (let day = t div 86400000; tm = t mod 86400000; y = year_from_day day;
          (m, d) = month_and_day 1 (month_lengths y) (day - day_from_year y) in
      iso_year y @ ''-'' @ pad 2 m @ ''-'' @ pad 2 d @ ''T'' @ pad 2 (tm div 3600000) @ '':'' @ pad 2 (tm div 60000 mod 60) @
      '':'' @ pad 2 (tm div 1000 mod 60) @ ''.'' @ pad 3 (tm mod 1000) @ ''Z'')"

lemma iso_examples:
  "to_iso_string 0 = ''1970-01-01T00:00:00.000Z''"
  "to_iso_string 1784419200000 = ''2026-07-19T00:00:00.000Z''"
  "to_iso_string 951868799999 = ''2000-02-29T23:59:59.999Z''"
  "to_iso_string (-62198755200001) = ''-000002-12-31T23:59:59.999Z''"
  by code_simp+

lemma year_from_day_bounds:
  "day_from_year (year_from_day d) \<le> d \<and> d < day_from_year (year_from_day d + 1)"
proof -
  define k where "k = 400 * d div 146097"
  have bound: "146097 * (y - 1970) - 507 \<le> 400 * (365 * (y - 1970) + a - b + c) \<and>
      400 * (365 * (y - 1970) + a - b + c) \<le> 146097 * (y - 1970) + 589"
    if "4 * a \<le> y - 1969" "y - 1972 \<le> 4 * a" "100 * b \<le> y - 1901" "y - 2000 \<le> 100 * b"
      "400 * c \<le> y - 1601" "y - 2000 \<le> 400 * c" for y a b c :: int
    using that by (simp add: algebra_simps)
  have near: "146097 * (y - 1970) - 507 \<le> 400 * day_from_year y \<and> 400 * day_from_year y \<le> 146097 * (y - 1970) + 589" for y
    unfolding day_from_year_def by (rule bound) linarith+
  have k: "146097 * k \<le> 400 * d" "400 * d < 146097 * k + 146097" unfolding k_def by linarith+
  have "day_from_year (1970 + k - 1) \<le> d" using near[of "1970 + k - 1"] k by (simp add: algebra_simps)
  moreover have "d < day_from_year (1970 + k + 2)" using near[of "1970 + k + 2"] k by (simp add: algebra_simps)
  ultimately show ?thesis unfolding year_from_day_def Let_def k_def[symmetric] by (auto simp: add.assoc)
qed

lemma month_and_day_ge:
  "0 \<le> n \<Longrightarrow> m \<le> fst (month_and_day m ls n) \<and> 1 \<le> snd (month_and_day m ls n)"
proof (induction ls arbitrary: m n)
  case (Cons l ls)
  from Cons.IH[of "n - l" "m + 1"] Cons.prems show ?case by auto
qed simp

lemma month_and_day_inj:
  "0 \<le> n \<Longrightarrow> 0 \<le> n' \<Longrightarrow> month_and_day m ls n = month_and_day m ls n' \<Longrightarrow> n = n'"
proof (induction ls arbitrary: m n n')
  case (Cons l ls)
  have after: "m + 1 \<le> fst (month_and_day (m + 1) ls (k - l))" if "l \<le> k" for k
    using month_and_day_ge[of "k - l" "m + 1" ls] that by simp
  have "\<not> (n < l \<and> l \<le> n')" "\<not> (n' < l \<and> l \<le> n)"
    using arg_cong[OF Cons.prems(3), of fst] after[of n] after[of n'] by (auto simp del: split_paired_All)
  then show ?case using Cons.IH[of "n - l" "n' - l" "m + 1"] Cons.prems by (auto split: if_splits)
qed simp

lemma pad_digits: "list_all is_digit (pad w n)" "pad w n \<noteq> []"
proof -
  have "is_digit (CHR ''0'')" by (simp add: is_digit_def)
  then show "list_all is_digit (pad w n)" "pad w n \<noteq> []"
    using digits_are_digits[of "nat n"] by (auto simp: pad_def Let_def list_all_iff simp del: digits.simps)
qed

lemma pad_inj: "0 \<le> n \<Longrightarrow> 0 \<le> m \<Longrightarrow> pad w n = pad w m \<Longrightarrow> n = m"
proof -
  have zeros: "dec_value (replicate k (CHR ''0'') @ s) = dec_value s" for k s
    by (induction k) (simp_all add: dec_value_def digit_value_def)
  assume "0 \<le> n" "0 \<le> m" "pad w n = pad w m"
  then have "dec_value (pad w n) = dec_value (pad w m)" by simp
  then have "nat n = nat m" unfolding pad_def Let_def zeros dec_value_digits .
  with \<open>0 \<le> n\<close> \<open>0 \<le> m\<close> show "n = m" by simp
qed

lemma pad_sep: "\<not> is_digit c \<Longrightarrow> pad w n @ c # x = pad w m @ c # y \<Longrightarrow> pad w n = pad w m \<and> x = y"
  using pad_digits(1)[of w n] pad_digits(1)[of w m] by (intro sep_append_eq) (auto simp: list_all_iff)

lemma iso_year_sep: "iso_year y @ CHR ''-'' # u = iso_year z @ CHR ''-'' # v \<Longrightarrow> y = z \<and> u = v"
proof -
  have head: "is_digit (hd (pad w n @ s))" for w n s
    using pad_digits[of w n] by (cases "pad w n") auto
  have sep: "\<not> is_digit (CHR ''-'')" by (simp add: is_digit_def)
  have minus: "hd (iso_year k @ s) = CHR ''-'' \<longleftrightarrow> k < 0" for k s
    using head[of 4 k s] by (auto simp: iso_year_def is_digit_def)
  have plus: "hd (iso_year k @ s) = CHR ''+'' \<longleftrightarrow> 9999 < k" for k s
    using head[of 4 k s] by (auto simp: iso_year_def is_digit_def)
  assume eq: "iso_year y @ CHR ''-'' # u = iso_year z @ CHR ''-'' # v"
  have same: "y < 0 \<longleftrightarrow> z < 0" "9999 < y \<longleftrightarrow> 9999 < z"
    using arg_cong[OF eq, of hd] minus[of y] minus[of z] plus[of y] plus[of z] by metis+
  consider "y < 0" | "0 \<le> y" "y \<le> 9999" | "9999 < y" by linarith
  then show "y = z \<and> u = v"
  proof cases
    case 1
    with eq same have "pad 6 (- y) @ CHR ''-'' # u = pad 6 (- z) @ CHR ''-'' # v" by (simp add: iso_year_def)
    from pad_sep[OF sep this] pad_inj[of "- y" "- z" 6] 1 same show ?thesis by simp
  next
    case 2
    with eq same have "pad 4 y @ CHR ''-'' # u = pad 4 z @ CHR ''-'' # v" by (simp add: iso_year_def)
    from pad_sep[OF sep this] pad_inj[of y z 4] 2 same show ?thesis by simp
  next
    case 3
    with eq same have "pad 6 y @ CHR ''-'' # u = pad 6 z @ CHR ''-'' # v" by (simp add: iso_year_def)
    from pad_sep[OF sep this] pad_inj[of y z 6] 3 same show ?thesis by simp
  qed
qed

lemma time_fields:
  fixes s t :: int
  assumes "s div 3600000 = t div 3600000" "s div 60000 mod 60 = t div 60000 mod 60"
    "s div 1000 mod 60 = t div 1000 mod 60" "s mod 1000 = t mod 1000"
  shows "s = t"
proof -
  have hour: "u div 60000 div 60 = u div 3600000" and minute: "u div 1000 div 60 = u div 60000" for u :: int
    using zdiv_zmult2_eq[of 60 u 60000] zdiv_zmult2_eq[of 60 u 1000] by simp_all
  have "s div 60000 div 60 = t div 60000 div 60" using assms(1) by (simp only: hour)
  then have "s div 60000 = t div 60000" using assms(2) by (metis mult_div_mod_eq)
  then have "s div 1000 div 60 = t div 1000 div 60" by (simp only: minute)
  then have "s div 1000 = t div 1000" using assms(3) by (metis mult_div_mod_eq)
  then show ?thesis using assms(4) by (metis mult_div_mod_eq)
qed

lemma to_iso_string_inj: "to_iso_string s = to_iso_string t \<Longrightarrow> s = t"
proof -
  assume eq: "to_iso_string s = to_iso_string t"
  define f where "f u = month_and_day 1 (month_lengths (year_from_day (u div 86400000)))
    (u div 86400000 - day_from_year (year_from_day (u div 86400000)))" for u :: int
  have start: "0 \<le> u div 86400000 - day_from_year (year_from_day (u div 86400000))" for u
    using year_from_day_bounds[of "u div 86400000"] by simp
  have f: "1 \<le> fst (f u)" "1 \<le> snd (f u)" for u
    using month_and_day_ge[OF start[of u]] unfolding f_def by auto
  have shape: "to_iso_string u = iso_year (year_from_day (u div 86400000)) @ CHR ''-'' # pad 2 (fst (f u)) @ CHR ''-'' #
      pad 2 (snd (f u)) @ CHR ''T'' # pad 2 (u mod 86400000 div 3600000) @ CHR '':'' #
      pad 2 (u mod 86400000 div 60000 mod 60) @ CHR '':'' # pad 2 (u mod 86400000 div 1000 mod 60) @ CHR ''.'' #
      pad 3 (u mod 86400000 mod 1000) @ CHR ''Z'' # []" for u
    by (simp add: to_iso_string_def Let_def f_def split_beta)
  have sep: "\<not> is_digit (CHR ''-'')" "\<not> is_digit (CHR ''T'')" "\<not> is_digit (CHR '':'')" "\<not> is_digit (CHR ''.'')" "\<not> is_digit (CHR ''Z'')"
    by (simp_all add: is_digit_def)
  note y = iso_year_sep[OF eq[unfolded shape]]
  note m = pad_sep[OF sep(1) y[THEN conjunct2]]
  note d = pad_sep[OF sep(2) m[THEN conjunct2]]
  note h = pad_sep[OF sep(3) d[THEN conjunct2]]
  note mi = pad_sep[OF sep(3) h[THEN conjunct2]]
  note se = pad_sep[OF sep(4) mi[THEN conjunct2]]
  note ms = pad_sep[OF sep(5) se[THEN conjunct2]]
  have nonneg: "0 \<le> fst (f u)" "0 \<le> snd (f u)" for u using f[of u] by simp_all
  have "f s = f t"
    using pad_inj[OF nonneg(1) nonneg(1) m[THEN conjunct1]] pad_inj[OF nonneg(2) nonneg(2) d[THEN conjunct1]]
    by (simp add: prod_eq_iff)
  then have "s div 86400000 - day_from_year (year_from_day (t div 86400000)) =
      t div 86400000 - day_from_year (year_from_day (t div 86400000))"
    using month_and_day_inj[OF start[of s] start[of t]] y unfolding f_def by simp
  then have day: "s div 86400000 = t div 86400000" by simp
  have "s mod 86400000 = t mod 86400000"
    by (rule time_fields; rule pad_inj[OF _ _ h[THEN conjunct1]] pad_inj[OF _ _ mi[THEN conjunct1]]
        pad_inj[OF _ _ se[THEN conjunct1]] pad_inj[OF _ _ ms[THEN conjunct1]]) (simp_all add: pos_imp_zdiv_nonneg_iff)
  with day show "s = t" by (metis mult_div_mod_eq)
qed

end
