(* ===== verification/AuditChain.thy ===== *)
theory AuditChain
  imports Json Dates "HOL-Library.Product_Lexorder"
begin

text \<open>
  The security audit log: the hash chain of security/domain/audit-chain.ts over the table
  \<open>security_audit\<close> (security/infrastructure/drizzle-audit-log.ts).

  Two things are parameters: \<open>digest\<close>, the SHA-256 of a text in hexadecimal, and \<open>jsonb\<close>, what PostgreSQL
  returns for an object it has stored in a \<open>jsonb\<close> column (the same object, its keys in an order of
  its own). Nothing is assumed of \<open>digest\<close>: where two texts would have to collide, the theorem names them.
\<close>

section \<open>The chain\<close>

record audit_event =
  ev_type :: string
  ev_org :: "string option"
  ev_subject :: "string option"
  ev_payload :: "(string \<times> json) list"

record hashable_record =
  hr_type :: string
  hr_org :: "string option"
  hr_subject :: "string option"
  hr_payload :: "(string \<times> json) list"
  hr_recorded_at :: date

definition genesis_hash :: string where
  "genesis_hash = replicate 64 (CHR ''0'')"

definition nullable :: "string option \<Rightarrow> json" where
  "nullable s = (case s of None \<Rightarrow> JNull | Some t \<Rightarrow> JString t)"

definition record_json :: "hashable_record \<Rightarrow> json" where
  "record_json r = JObject [(''type'', JString (hr_type r)), (''orgId'', nullable (hr_org r)),
     (''subject'', nullable (hr_subject r)), (''payload'', JObject (hr_payload r)),
     (''recordedAt'', JString (to_iso_string (hr_recorded_at r)))]"

definition hash_input :: "string \<Rightarrow> hashable_record \<Rightarrow> string" where
  "hash_input prev r = prev @ [CHR 0x0A] @ canonicalize (record_json r)"

definition hash_record :: "(string \<Rightarrow> string) \<Rightarrow> string \<Rightarrow> hashable_record \<Rightarrow> string" where
  "hash_record digest prev r = digest (hash_input prev r)"

record chain_verification =
  cv_ok :: bool
  cv_length :: nat
  cv_broken_at :: "nat option"

text \<open>The loop of \<open>verifyChain\<close>, from an index and the hash before it.\<close>

fun verify_from :: "(string \<Rightarrow> string) \<Rightarrow> nat \<Rightarrow> string \<Rightarrow> (hashable_record \<times> string) list \<Rightarrow> nat option" where
  "verify_from digest i previous [] = None"
| "verify_from digest i previous ((r, h) # rest) =
     (if hash_record digest previous r \<noteq> h then Some i else verify_from digest (i + 1) h rest)"

definition verify_chain :: "(string \<Rightarrow> string) \<Rightarrow> (hashable_record \<times> string) list \<Rightarrow> chain_verification" where
  "verify_chain digest rs =
     (case verify_from digest 0 genesis_hash rs of
        Some i \<Rightarrow> \<lparr>cv_ok = False, cv_length = length rs, cv_broken_at = Some i\<rparr>
      | None \<Rightarrow> \<lparr>cv_ok = True, cv_length = length rs, cv_broken_at = None\<rparr>)"

section \<open>The table\<close>

record audit_row =
  ar_seq :: nat
  ar_type :: string
  ar_org :: "string option"
  ar_subject :: "string option"
  ar_payload :: "(string \<times> json) list"
  ar_prev_hash :: string
  ar_hash :: string
  ar_recorded_at :: date

text \<open>\<open>seq\<close> is a \<open>bigserial\<close>: an insertion draws the next number, also when it fails.\<close>

record audit_log =
  al_rows :: "audit_row list"
  al_sequence :: nat

text \<open>What \<open>JSON.stringify\<close> sends to the database.\<close>

function json_written :: "json \<Rightarrow> json" where
  "json_written JNull = JNull"
| "json_written JUndefined = JNull"
| "json_written (JBool b) = JBool b"
| "json_written (JNumber n) = JNumber n"
| "json_written (JString s) = JString s"
| "json_written (JArray vs) = JArray (map json_written vs)"
| "json_written (JObject es) = JObject (map (\<lambda>e. (fst e, json_written (snd e))) (filter (\<lambda>e. snd e \<noteq> JUndefined) es))"
  by pat_completeness auto

termination json_written
proof (relation "measure size")
  fix es :: "(string \<times> json) list" and e
  assume "e \<in> set (filter (\<lambda>e. snd e \<noteq> JUndefined) es)"
  then show "(snd e, JObject es) \<in> measure size" using entry_size[of e es] by (simp del: json.size)
qed (auto simp: less_Suc_eq_le size_list_estimation')

definition payload_written :: "(string \<times> json) list \<Rightarrow> (string \<times> json) list" where
  "payload_written es = (case json_written (JObject es) of JObject fs \<Rightarrow> fs | _ \<Rightarrow> [])"

definition by_seq :: "audit_log \<Rightarrow> audit_row list" where
  "by_seq al = sort_key ar_seq (al_rows al)"

definition event_record :: "audit_event \<Rightarrow> date \<Rightarrow> hashable_record" where
  "event_record ev now = \<lparr>hr_type = ev_type ev, hr_org = ev_org ev, hr_subject = ev_subject ev,
     hr_payload = ev_payload ev, hr_recorded_at = now\<rparr>"

definition row_record :: "audit_row \<Rightarrow> hashable_record" where
  "row_record r = \<lparr>hr_type = ar_type r, hr_org = ar_org r, hr_subject = ar_subject r,
     hr_payload = ar_payload r, hr_recorded_at = ar_recorded_at r\<rparr>"

record appended_record =
  app_seq :: nat
  app_hash :: string

definition tail_hash :: "audit_log \<Rightarrow> string" where
  "tail_hash al = (case by_seq al of [] \<Rightarrow> genesis_hash | rows \<Rightarrow> ar_hash (last rows))"

definition audit_append :: "(string \<Rightarrow> string) \<Rightarrow> ((string \<times> json) list \<Rightarrow> (string \<times> json) list) \<Rightarrow> date \<Rightarrow>
    audit_event \<Rightarrow> audit_log \<Rightarrow> appended_record throws \<times> audit_log" where
  "audit_append digest jsonb now ev al =
     (let prev = tail_hash al;
          hash = hash_record digest prev (event_record ev now);
          seq = al_sequence al + 1;
          al' = al\<lparr>al_sequence := seq\<rparr> in
      if hash \<in> ar_hash ` set (al_rows al) then (Inl (Error ''duplicate key''), al')
      else (Inr \<lparr>app_seq = seq, app_hash = hash\<rparr>,
        al'\<lparr>al_rows := al_rows al @ [\<lparr>ar_seq = seq, ar_type = ev_type ev, ar_org = ev_org ev,
          ar_subject = ev_subject ev, ar_payload = jsonb (payload_written (ev_payload ev)),
          ar_prev_hash = prev, ar_hash = hash, ar_recorded_at = now\<rparr>]\<rparr>))"

definition audit_verify :: "(string \<Rightarrow> string) \<Rightarrow> audit_log \<Rightarrow> chain_verification" where
  "audit_verify digest al = verify_chain digest (map (\<lambda>r. (row_record r, ar_hash r)) (by_seq al))"

definition empty_audit_log :: audit_log where
  "empty_audit_log = \<lparr>al_rows = [], al_sequence = 0\<rparr>"

section \<open>What a hash commits to\<close>

text \<open>A record up to the order of the keys in its payload.\<close>

definition content :: "hashable_record \<Rightarrow> string \<times> string option \<times> string option \<times> json \<times> date" where
  "content r = (hr_type r, hr_org r, hr_subject r, canonical_form (JObject (hr_payload r)), hr_recorded_at r)"

lemma canonical_record:
  "canonical_form (record_json r) = JObject [(''orgId'', nullable (hr_org r)),
     (''payload'', canonical_form (JObject (hr_payload r))), (''recordedAt'', JString (to_iso_string (hr_recorded_at r))),
     (''subject'', nullable (hr_subject r)), (''type'', JString (hr_type r))]"
proof -
  have "canonical_form (nullable s) = nullable s" for s by (cases s) (simp_all add: nullable_def)
  moreover have "sort_key fst [(''type'', a), (''orgId'', b), (''subject'', c), (''payload'', d), (''recordedAt'', e)] =
      [(''orgId'', b), (''payload'', d), (''recordedAt'', e), (''subject'', c), (''type'', a)]" for a b c d e :: json
    by (simp add: less_eq_char_def)
  ultimately show ?thesis by (simp add: record_json_def)
qed

lemma nullable_inj: "nullable s = nullable t \<longleftrightarrow> s = t"
  by (cases s; cases t) (simp_all add: nullable_def)

lemma hash_input_eq_iff: "hash_input p r = hash_input q s \<longleftrightarrow> p = q \<and> content r = content s"
proof -
  have "canonicalize (record_json r) = canonicalize (record_json s) \<longleftrightarrow> content r = content s"
    using to_iso_string_inj by (auto simp: canonicalize_eq_iff canonical_record content_def nullable_inj)
  moreover have "hash_input p r = hash_input q s \<longleftrightarrow>
      p = q \<and> canonicalize (record_json r) = canonicalize (record_json s)"
    using sep_append_eq_right[OF canonicalize_one_line canonicalize_one_line] by (auto simp: hash_input_def)
  ultimately show ?thesis by simp
qed

section \<open>Walking a chain\<close>

definition last_hash :: "string \<Rightarrow> (hashable_record \<times> string) list \<Rightarrow> string" where
  "last_hash p rs = (if rs = [] then p else snd (last rs))"

lemma last_hash_simps [simp]: "last_hash p [] = p" "last_hash p (rs @ [e]) = snd e" "last_hash p (e # rs) = last_hash (snd e) rs"
  by (simp_all add: last_hash_def)

lemma verify_from_append:
  "verify_from d i p (rs @ ss) =
     (case verify_from d i p rs of Some k \<Rightarrow> Some k | None \<Rightarrow> verify_from d (i + length rs) (last_hash p rs) ss)"
  by (induction rs arbitrary: i p) (auto split: option.splits)

lemma verify_from_shift: "verify_from d i p rs = None \<Longrightarrow> verify_from d k p rs = None"
proof (induction rs arbitrary: i k p)
  case (Cons e rs)
  obtain r h where e: "e = (r, h)" by fastforce
  from Cons.prems have "hash_record d p r = h" "verify_from d (i + 1) h rs = None"
    by (simp_all add: e split: if_splits)
  with Cons.IH[OF this(2)] show ?case by (simp add: e)
qed simp

lemma verify_chain_simps:
  "cv_ok (verify_chain d rs) \<longleftrightarrow> verify_from d 0 genesis_hash rs = None"
  "cv_length (verify_chain d rs) = length rs"
  "cv_broken_at (verify_chain d rs) = verify_from d 0 genesis_hash rs"
  by (simp_all add: verify_chain_def split: option.splits)

text \<open>The texts a chain hashes.\<close>

fun hash_inputs :: "string \<Rightarrow> (hashable_record \<times> string) list \<Rightarrow> string list" where
  "hash_inputs p [] = []"
| "hash_inputs p ((r, h) # rest) = hash_input p r # hash_inputs h rest"

lemma hash_inputs_append: "hash_inputs p (rs @ [e]) = hash_inputs p rs @ [hash_input (last_hash p rs) (fst e)]"
  by (induction rs arbitrary: p) (auto, cases e, auto)

lemma verified_last:
  "verify_from d i p (rs @ [e]) = None \<longleftrightarrow>
     verify_from d i p rs = None \<and> d (hash_input (last_hash p rs) (fst e)) = snd e"
  by (cases e) (auto simp: verify_from_append hash_record_def split: option.splits)

lemma last_hash_digest:
  "verify_from d i p rs = None \<Longrightarrow> rs \<noteq> [] \<Longrightarrow> \<exists>x \<in> set (hash_inputs p rs). d x = last_hash p rs"
  by (cases rs rule: rev_cases) (auto simp: verified_last hash_inputs_append)

definition collision :: "(string \<Rightarrow> string) \<Rightarrow> string set \<Rightarrow> bool" where
  "collision d xs \<longleftrightarrow> (\<exists>x \<in> xs. d x = genesis_hash \<or> (\<exists>y \<in> xs. x \<noteq> y \<and> d x = d y))"

lemma collision_mono: "collision d xs \<Longrightarrow> xs \<subseteq> ys \<Longrightarrow> collision d ys"
  unfolding collision_def by blast

lemma chain_determined:
  assumes "verify_from d 0 genesis_hash rs = None" "verify_from d 0 genesis_hash ss = None"
    and "last_hash genesis_hash rs = last_hash genesis_hash ss"
  shows "map (\<lambda>e. (content (fst e), snd e)) rs = map (\<lambda>e. (content (fst e), snd e)) ss \<or>
    collision d (set (hash_inputs genesis_hash rs) \<union> set (hash_inputs genesis_hash ss))"
  using assms
proof (induction rs arbitrary: ss rule: rev_induct)
  case Nil
  then show ?case
    using last_hash_digest[OF Nil.prems(2)] by (cases "ss = []") (auto simp: collision_def)
next
  case (snoc e rs)
  show ?case
  proof (cases ss rule: rev_cases)
    case Nil
    then show ?thesis using last_hash_digest[OF snoc.prems(1)] snoc.prems(3) by (auto simp: collision_def)
  next
    case ss: (snoc ss' f)
    let ?x = "hash_input (last_hash genesis_hash rs) (fst e)" and ?y = "hash_input (last_hash genesis_hash ss') (fst f)"
    have hashed: "d ?x = snd e" "d ?y = snd f" "snd e = snd f"
      using snoc.prems by (simp_all add: ss verified_last)
    show ?thesis
    proof (cases "?x = ?y")
      case False
      with hashed show ?thesis by (auto simp: collision_def ss hash_inputs_append)
    next
      case True
      then have same: "last_hash genesis_hash rs = last_hash genesis_hash ss'" "content (fst e) = content (fst f)"
        by (simp_all add: hash_input_eq_iff)
      have "verify_from d 0 genesis_hash rs = None" "verify_from d 0 genesis_hash ss' = None"
        using snoc.prems(1,2) by (simp_all add: ss verified_last)
      from snoc.IH[OF this same(1)] consider "map (\<lambda>e. (content (fst e), snd e)) rs = map (\<lambda>e. (content (fst e), snd e)) ss'"
        | "collision d (set (hash_inputs genesis_hash rs) \<union> set (hash_inputs genesis_hash ss'))"
        by blast
      then show ?thesis
      proof cases
        case 1
        with same(2) hashed(3) show ?thesis by (simp add: ss)
      next
        case 2
        then have "collision d (set (hash_inputs genesis_hash (rs @ [e])) \<union> set (hash_inputs genesis_hash ss))"
          by (rule collision_mono) (auto simp: ss hash_inputs_append)
        then show ?thesis ..
      qed
    qed
  qed
qed

section \<open>The log over time\<close>

text \<open>An object with nothing \<open>undefined\<close> in it; the keys of an object differ.\<close>

definition plain_object :: "(string \<times> json) list \<Rightarrow> bool" where
  "plain_object es \<longleftrightarrow> payload_written es = es \<and> distinct (map fst es)"

text \<open>What is assumed of \<open>jsonb\<close>: it keeps an object up to the order of its keys.\<close>

definition keeps_objects :: "((string \<times> json) list \<Rightarrow> (string \<times> json) list) \<Rightarrow> bool" where
  "keeps_objects jsonb \<longleftrightarrow>
     (\<forall>es. plain_object es \<longrightarrow> canonical_form (JObject (jsonb es)) = canonical_form (JObject es))"

text \<open>Appends of events whose payload holds no \<open>undefined\<close>, some of which may fail.\<close>

inductive audit_run :: "(string \<Rightarrow> string) \<Rightarrow> ((string \<times> json) list \<Rightarrow> (string \<times> json) list) \<Rightarrow> audit_log \<Rightarrow> bool"
  for digest jsonb where
  no_events: "audit_run digest jsonb empty_audit_log"
| appended: "audit_run digest jsonb al \<Longrightarrow> plain_object (ev_payload ev) \<Longrightarrow>
    audit_append digest jsonb now ev al = (answer, al') \<Longrightarrow> audit_run digest jsonb al'"

definition chained :: "audit_row list \<Rightarrow> (hashable_record \<times> string) list" where
  "chained rows = map (\<lambda>r. (row_record r, ar_hash r)) rows"

lemma chained_length: "length (chained rows) = length rows"
  by (simp add: chained_def)

lemma audit_run_step:
  "audit_run digest jsonb al \<Longrightarrow> plain_object (ev_payload ev) \<Longrightarrow>
   audit_run digest jsonb (snd (audit_append digest jsonb now ev al))"
  by (rule audit_run.appended[OF _ _ surjective_pairing])

definition chain_inv :: "(string \<Rightarrow> string) \<Rightarrow> audit_log \<Rightarrow> bool" where
  "chain_inv digest al \<longleftrightarrow> sorted_wrt (<) (map ar_seq (al_rows al)) \<and>
     (\<forall>r \<in> set (al_rows al). ar_seq r \<le> al_sequence al) \<and>
     verify_from digest 0 genesis_hash (chained (al_rows al)) = None"

lemma by_seq_sorted: "sorted_wrt (<) (map ar_seq (al_rows al)) \<Longrightarrow> by_seq al = al_rows al"
  unfolding by_seq_def by (rule sort_key_id_if_sorted) (rule strict_sorted_imp_sorted)

lemma tail_hash_last:
  "sorted_wrt (<) (map ar_seq (al_rows al)) \<Longrightarrow> tail_hash al = last_hash genesis_hash (chained (al_rows al))"
  by (auto simp: tail_hash_def by_seq_sorted last_hash_def chained_def last_map split: list.splits)

lemma chain_inv_append:
  assumes "chain_inv digest al" "keeps_objects jsonb" "plain_object (ev_payload ev)"
    and "audit_append digest jsonb now ev al = (answer, al')"
  shows "chain_inv digest al'"
proof (cases "al_rows al' = al_rows al")
  case True
  with assms(1,4) show ?thesis by (auto simp: chain_inv_def audit_append_def Let_def split: if_splits)
next
  case False
  let ?h = "hash_record digest (tail_hash al) (event_record ev now)"
  let ?r = "\<lparr>ar_seq = al_sequence al + 1, ar_type = ev_type ev, ar_org = ev_org ev, ar_subject = ev_subject ev,
    ar_payload = jsonb (ev_payload ev), ar_prev_hash = tail_hash al, ar_hash = ?h, ar_recorded_at = now\<rparr>"
  have al': "al' = al\<lparr>al_sequence := al_sequence al + 1, al_rows := al_rows al @ [?r]\<rparr>"
    using False assms(3,4) by (auto simp: plain_object_def audit_append_def Let_def split: if_splits)
  have "content (row_record ?r) = content (event_record ev now)"
    using assms(2,3) by (simp add: content_def row_record_def event_record_def keeps_objects_def)
  then have "hash_input (tail_hash al) (row_record ?r) = hash_input (tail_hash al) (event_record ev now)"
    by (simp add: hash_input_eq_iff)
  moreover have "tail_hash al = last_hash genesis_hash (chained (al_rows al))"
    using assms(1) by (intro tail_hash_last) (simp add: chain_inv_def)
  ultimately have "verify_from digest 0 genesis_hash (chained (al_rows al) @ [(row_record ?r, ?h)]) = None"
    using assms(1) by (simp add: verified_last chain_inv_def hash_record_def)
  moreover have "\<forall>r \<in> set (al_rows al). ar_seq r \<le> al_sequence al" "sorted_wrt (<) (map ar_seq (al_rows al))"
    using assms(1) by (simp_all add: chain_inv_def)
  ultimately show ?thesis by (auto simp: chain_inv_def al' chained_def sorted_wrt_append less_Suc_eq_le)
qed

lemma chain_inv_run: "audit_run digest jsonb al \<Longrightarrow> keeps_objects jsonb \<Longrightarrow> chain_inv digest al"
proof (induction rule: audit_run.induct)
  case (appended al ev now answer al')
  then show ?case using chain_inv_append by blast
qed (simp add: chain_inv_def empty_audit_log_def chained_def)

definition hash_before :: "audit_log \<Rightarrow> nat \<Rightarrow> string" where
  "hash_before al i = (if i = 0 then genesis_hash else ar_hash (al_rows al ! (i - 1)))"

lemma chain_at:
  assumes "chain_inv digest al" "i < length (al_rows al)"
  defines "before \<equiv> chained (take i (al_rows al))" and "after \<equiv> chained (drop (Suc i) (al_rows al))"
  shows "verify_from digest 0 genesis_hash before = None" "last_hash genesis_hash before = hash_before al i"
    and "length before = i" "verify_from digest k (ar_hash (al_rows al ! i)) after = None"
    and "hash_record digest (hash_before al i) (row_record (al_rows al ! i)) = ar_hash (al_rows al ! i)"
proof -
  let ?e = "(row_record (al_rows al ! i), ar_hash (al_rows al ! i))"
  have "chained (al_rows al) = before @ ?e # after"
    using arg_cong[OF id_take_nth_drop[OF assms(2)], of chained]
    by (simp only: chained_def before_def after_def map_append list.map)
  then have whole: "verify_from digest 0 genesis_hash (before @ ?e # after) = None"
    using assms(1) by (simp add: chain_inv_def)
  then show "verify_from digest 0 genesis_hash before = None" by (simp add: verify_from_append split: option.splits)
  show len: "length before = i" using assms(2) by (simp add: before_def chained_def)
  show last: "last_hash genesis_hash before = hash_before al i"
    using assms(2) by (cases i) (simp_all add: before_def chained_def last_hash_def hash_before_def take_Suc_conv_app_nth)
  from whole show "hash_record digest (hash_before al i) (row_record (al_rows al ! i)) = ar_hash (al_rows al ! i)"
    by (simp add: verify_from_append last split: option.splits if_splits)
  from whole have "verify_from digest (i + 1) (ar_hash (al_rows al ! i)) after = None"
    by (simp add: verify_from_append len split: option.splits if_splits)
  then show "verify_from digest k (ar_hash (al_rows al ! i)) after = None" by (rule verify_from_shift)
qed

lemma verify_rows:
  "sorted_wrt (<) (map ar_seq rows) \<Longrightarrow>
   audit_verify digest (al\<lparr>al_rows := rows\<rparr>) = verify_chain digest (chained rows)"
  by (simp add: audit_verify_def chained_def by_seq_sorted)

lemma sorted_update:
  "i < length xs \<Longrightarrow> f y = f (xs ! i) \<Longrightarrow> map f (xs[i := y]) = map f xs"
  by (simp add: map_update list_update_same_conv)

section \<open>A sample log\<close>

text \<open>PostgreSQL orders the keys of an object by length first.\<close>

definition by_length :: "(string \<times> json) list \<Rightarrow> (string \<times> json) list" where
  "by_length es = sort_key (\<lambda>e. (length (fst e), fst e)) es"

lemma by_length_keeps: "keeps_objects by_length"
proof -
  have "sort_key fst (by_length es) = sort_key fst es" if "distinct (map fst es)" for es
  proof (rule map_inj_on)
    have "mset (map fst (by_length es)) = mset (map fst es)" by (simp add: by_length_def)
    then have "sort (map fst (by_length es)) = sort (map fst es)" by (metis properties_for_sort mset_sort sorted_sort)
    moreover have "map fst (sort_key fst zs) = sort (map fst zs)" for zs :: "(string \<times> json) list"
      by (rule properties_for_sort[symmetric]) simp_all
    ultimately show "map fst (sort_key fst (by_length es)) = map fst (sort_key fst es)" by simp
    show "inj_on fst (set (sort_key fst (by_length es)) \<union> set (sort_key fst es))"
      using that by (simp add: by_length_def distinct_map)
  qed
  then show ?thesis by (simp add: keeps_objects_def plain_object_def)
qed

definition sample_event :: "string \<Rightarrow> audit_event" where
  "sample_event type = \<lparr>ev_type = type, ev_org = None, ev_subject = Some ''u1'',
     ev_payload = [(''factor'', JString ''totp''), (''aal'', JNumber 2)]\<rparr>"

definition sample_audit :: audit_log where
  "sample_audit = snd (audit_append id by_length 1000 (sample_event ''mfa.step_up'')
     (snd (audit_append id by_length 0 (sample_event ''mfa.step_up_failed'') empty_audit_log)))"

lemma sample_audit_run: "audit_run id by_length sample_audit"
proof -
  have "plain_object (ev_payload (sample_event t))" for t
    by (simp add: plain_object_def payload_written_def sample_event_def)
  then show ?thesis
    unfolding sample_audit_def by (intro audit_run_step audit_run.no_events)
qed

lemma sample_audit_rows:
  "length (al_rows sample_audit) = 2 \<and> map ar_type (al_rows sample_audit) = [''mfa.step_up_failed'', ''mfa.step_up'']"
  by code_simp

definition forged_row :: audit_row where
  "forged_row = (al_rows sample_audit ! 0)\<lparr>ar_subject := Some ''mallory''\<rparr>"

definition recomputed_row :: audit_row where
  "recomputed_row = forged_row\<lparr>ar_hash := hash_record id genesis_hash (row_record forged_row)\<rparr>"

section \<open>Properties\<close>

text \<open>The log the application writes always verifies: after any sequence of appends, failed ones
  included, the chain is intact, whatever order of keys the database returns the payloads in.\<close>
theorem audit_log_verifies:
  assumes "audit_run digest jsonb al" "keeps_objects jsonb"
  shows "audit_verify digest al = \<lparr>cv_ok = True, cv_length = length (al_rows al), cv_broken_at = None\<rparr>"
proof -
  have inv: "chain_inv digest al" by (rule chain_inv_run[OF assms])
  then show ?thesis
    by (simp add: audit_verify_def chain_inv_def by_seq_sorted verify_chain_def chained_def)
qed

theorem audit_log_verifies_witness:
  "audit_verify id sample_audit = \<lparr>cv_ok = True, cv_length = 2, cv_broken_at = None\<rparr>"
  using audit_log_verifies[OF sample_audit_run by_length_keeps] sample_audit_rows by simp

lemma chained_update:
  assumes "i + 1 < length rows"
  shows "chained (rows[i := row]) = chained (take i rows) @ (row_record row, ar_hash row) #
    (row_record (rows ! (i + 1)), ar_hash (rows ! (i + 1))) # chained (drop (Suc (i + 1)) rows)"
  using assms by (simp add: chained_def upd_conv_take_nth_drop Cons_nth_drop_Suc[symmetric])

lemma chained_update_last:
  assumes "i + 1 = length rows"
  shows "chained (rows[i := row]) = chained (take i rows) @ [(row_record row, ar_hash row)]"
  using assms by (simp add: chained_def upd_conv_take_nth_drop)

lemma row_changed:
  assumes "broken = (if d own \<noteq> h then Some i else if d linked \<noteq> g then Some (i + 1) else None)"
    and "d link = g" "d was = h0" "c \<Longrightarrow> own \<noteq> was" "h \<noteq> h0 \<Longrightarrow> linked \<noteq> link" "inner"
  shows "broken = (if d own \<noteq> h then Some i else if inner \<and> d linked \<noteq> g then Some (i + 1 :: nat) else None) \<and>
    (broken = None \<and> inner \<and> (c \<or> h \<noteq> h0) \<longrightarrow> own \<noteq> was \<and> d own = d was \<or> linked \<noteq> link \<and> d linked = d link)"
  using assms by auto

text \<open>C22: what a change of one row that keeps its number costs, whatever columns it changes: the verification
  fails at that row when the digest of its content with the hash before it is not its hash, else at the next row
  when that row's hash is not the digest of its content with the changed hash, and else not at all. So a changed
  content or hash of any row but the last is found, or the digest collides on two different texts; of the last
  row it is found unless the hash was recomputed. (The column prev_hash plays no part: a change of it alone is never found.)\<close>
theorem altered_row_is_located:
  assumes "audit_run digest jsonb al" "keeps_objects jsonb" "i < length (al_rows al)"
    and "ar_seq row = ar_seq (al_rows al ! i)"
  shows "let old = al_rows al ! i; after = al_rows al ! (i + 1);
      broken_at = cv_broken_at (audit_verify digest (al\<lparr>al_rows := (al_rows al)[i := row]\<rparr>));
      own = hash_input (hash_before al i) (row_record row); was = hash_input (hash_before al i) (row_record old);
      linked = hash_input (ar_hash row) (row_record after); link = hash_input (ar_hash old) (row_record after) in
    broken_at =
      (if digest own \<noteq> ar_hash row then Some i
       else if i + 1 < length (al_rows al) \<and> digest linked \<noteq> ar_hash after then Some (i + 1) else None) \<and>
    (broken_at = None \<and> i + 1 < length (al_rows al) \<and>
       (content (row_record row) \<noteq> content (row_record old) \<or> ar_hash row \<noteq> ar_hash old) \<longrightarrow>
     own \<noteq> was \<and> digest own = digest was \<or> linked \<noteq> link \<and> digest linked = digest link)"
proof -
  have inv: "chain_inv digest al" by (rule chain_inv_run[OF assms(1,2)])
  note at = chain_at[OF inv assms(3)]
  have "sorted_wrt (<) (map ar_seq ((al_rows al)[i := row]))"
    using inv by (simp only: sorted_update[OF assms(3), of ar_seq, OF assms(4)] chain_inv_def)
  note verify = verify_rows[OF this]
  show ?thesis
  proof (cases "i + 1 < length (al_rows al)")
    case True
    let ?old = "al_rows al ! i" and ?after = "al_rows al ! (i + 1)"
    have "hash_before al (i + 1) = ar_hash ?old" by (simp add: hash_before_def)
    with chain_at(5)[OF inv True] at(5) have intact: "digest (hash_input (ar_hash ?old) (row_record ?after)) = ar_hash ?after"
      "digest (hash_input (hash_before al i) (row_record ?old)) = ar_hash ?old" by (simp_all only: hash_record_def)
    have rest: "verify_from digest k (ar_hash ?after) (chained (drop (Suc (i + 1)) (al_rows al))) = None" for k
      by (rule chain_at(4)[OF inv True])
    have "verify_from digest 0 genesis_hash (chained ((al_rows al)[i := row])) =
        (if digest (hash_input (hash_before al i) (row_record row)) \<noteq> ar_hash row then Some i
         else if digest (hash_input (ar_hash row) (row_record ?after)) \<noteq> ar_hash ?after then Some (i + 1) else None)"
      unfolding chained_update[OF True] verify_from_append at(1-3) verify_from.simps rest hash_record_def by simp
    moreover have "hash_input (hash_before al i) (row_record row) \<noteq> hash_input (hash_before al i) (row_record ?old)"
      if "content (row_record row) \<noteq> content (row_record ?old)" using that by (simp add: hash_input_eq_iff)
    moreover have "hash_input (ar_hash row) (row_record ?after) \<noteq> hash_input (ar_hash ?old) (row_record ?after)"
      if "ar_hash row \<noteq> ar_hash ?old" using that by (simp add: hash_input_eq_iff)
    ultimately show ?thesis
      unfolding Let_def verify verify_chain_simps using intact True by (intro row_changed) assumption+
  next
    case False
    with assms(3) have "i + 1 = length (al_rows al)" by simp
    from chained_update_last[OF this] False show ?thesis
      unfolding Let_def verify verify_chain_simps by (simp add: verify_from_append at(1-3) hash_record_def)
  qed
qed

theorem altered_row_is_located_witness:
  "cv_broken_at (audit_verify id (sample_audit\<lparr>al_rows := (al_rows sample_audit)[0 := forged_row]\<rparr>)) = Some 0 \<and>
   cv_broken_at (audit_verify id (sample_audit\<lparr>al_rows := (al_rows sample_audit)[0 := recomputed_row]\<rparr>)) = Some 1"
proof -
  have seqs: "ar_seq forged_row = ar_seq (al_rows sample_audit ! 0)" "ar_seq recomputed_row = ar_seq (al_rows sample_audit ! 0)"
    by (simp_all add: forged_row_def recomputed_row_def)
  have len: "0 < length (al_rows sample_audit)" "0 + 1 < length (al_rows sample_audit)" using sample_audit_rows by simp_all
  have inv: "chain_inv id sample_audit" by (rule chain_inv_run[OF sample_audit_run by_length_keeps])
  have subject: "ar_subject (al_rows sample_audit ! 0) = Some ''u1''" by code_simp
  have content: "content (row_record forged_row) \<noteq> content (row_record (al_rows sample_audit ! 0))"
    by (simp add: content_def row_record_def forged_row_def subject)
  have first: "ar_hash (al_rows sample_audit ! 0) = hash_input genesis_hash (row_record (al_rows sample_audit ! 0))"
    using chain_at(5)[OF inv len(1)] by (simp add: hash_record_def hash_before_def)
  have second: "ar_hash (al_rows sample_audit ! (0 + 1)) =
      hash_input (ar_hash (al_rows sample_audit ! 0)) (row_record (al_rows sample_audit ! (0 + 1)))"
    using chain_at(5)[OF inv len(2)] by (simp add: hash_record_def hash_before_def)
  have recomputed: "ar_hash recomputed_row = hash_input genesis_hash (row_record forged_row)"
    by (simp add: recomputed_row_def hash_record_def)
  have "ar_hash recomputed_row \<noteq> ar_hash (al_rows sample_audit ! 0)"
    unfolding recomputed first using content by (simp add: hash_input_eq_iff)
  then have texts: "id (hash_input (hash_before sample_audit 0) (row_record forged_row)) \<noteq> ar_hash forged_row"
    "id (hash_input (hash_before sample_audit 0) (row_record recomputed_row)) = ar_hash recomputed_row"
    "id (hash_input (ar_hash recomputed_row) (row_record (al_rows sample_audit ! (0 + 1)))) \<noteq> ar_hash (al_rows sample_audit ! (0 + 1))"
    using content first unfolding second
    by (simp_all add: hash_input_eq_iff hash_before_def recomputed_row_def hash_record_def row_record_def)
      (simp add: forged_row_def hash_input_eq_iff content_def row_record_def subject)
  note located = altered_row_is_located[OF sample_audit_run by_length_keeps len(1), unfolded Let_def, THEN conjunct1]
  have "cv_broken_at (audit_verify id (sample_audit\<lparr>al_rows := (al_rows sample_audit)[0 := forged_row]\<rparr>)) = Some 0"
    "cv_broken_at (audit_verify id (sample_audit\<lparr>al_rows := (al_rows sample_audit)[0 := recomputed_row]\<rparr>)) = Some (0 + 1)"
    by (simp_all only: located[OF seqs(1)] located[OF seqs(2)] texts len simp_thms if_True if_False)
  then show ?thesis by (simp only: add_0 simp_thms)
qed

text \<open>C23: a deleted row is reported at its place, unless it was the last one: removing the last row leaves
  a log that verifies, so the newest events can be dropped without a trace.\<close>
theorem removed_row_is_located_unless_last:
  assumes "audit_run digest jsonb al" "keeps_objects jsonb" "i < length (al_rows al)"
  shows "audit_verify digest (al\<lparr>al_rows := take i (al_rows al) @ drop (i + 1) (al_rows al)\<rparr>) =
      (if i + 1 = length (al_rows al) \<or>
          digest (hash_input (hash_before al i) (row_record (al_rows al ! (i + 1)))) = ar_hash (al_rows al ! (i + 1))
       then \<lparr>cv_ok = True, cv_length = length (al_rows al) - 1, cv_broken_at = None\<rparr>
       else \<lparr>cv_ok = False, cv_length = length (al_rows al) - 1, cv_broken_at = Some i\<rparr>)"
proof -
  let ?rows = "take i (al_rows al) @ drop (i + 1) (al_rows al)"
  have inv: "chain_inv digest al" by (rule chain_inv_run[OF assms(1,2)])
  note at = chain_at[OF inv assms(3)]
  have "sorted_wrt (<) (map ar_seq (take i (al_rows al) @ al_rows al ! i # drop (i + 1) (al_rows al)))"
    using inv assms(3) by (simp add: chain_inv_def id_take_nth_drop[symmetric])
  then have "sorted_wrt (<) (map ar_seq ?rows)" by (auto simp: sorted_wrt_append)
  note verify = verify_rows[OF this]
  have len: "length ?rows = length (al_rows al) - 1" using assms(3) by simp
  have "verify_from digest 0 genesis_hash (chained ?rows) =
      (if i + 1 = length (al_rows al) \<or>
          digest (hash_input (hash_before al i) (row_record (al_rows al ! (i + 1)))) = ar_hash (al_rows al ! (i + 1))
       then None else Some i)"
  proof (cases "i + 1 < length (al_rows al)")
    case True
    have split: "chained ?rows = chained (take i (al_rows al)) @
        (row_record (al_rows al ! (i + 1)), ar_hash (al_rows al ! (i + 1))) # chained (drop (Suc (i + 1)) (al_rows al))"
      unfolding chained_def Cons_nth_drop_Suc[OF True, symmetric] by simp
    show ?thesis
      using True chain_at(4)[OF inv True] unfolding split by (simp add: verify_from_append at(1-3) hash_record_def)
  next
    case False
    with assms(3) have "i + 1 = length (al_rows al)" by simp
    then show ?thesis using at(1) by (simp add: chained_def)
  qed
  then show ?thesis by (simp only: verify verify_chain_def chained_length len) simp
qed

theorem removed_row_is_located_unless_last_witness:
  "audit_verify id (sample_audit\<lparr>al_rows := take 1 (al_rows sample_audit)\<rparr>) =
     \<lparr>cv_ok = True, cv_length = 1, cv_broken_at = None\<rparr>"
  using removed_row_is_located_unless_last[OF sample_audit_run by_length_keeps, of 1] sample_audit_rows by simp

text \<open>The last hash commits to the whole history: two intact chains that end in the same hash hold the
  same records and the same hashes, unless two different texts among those they hash collide, or one
  hashes to the genesis value.\<close>
theorem chain_commits_to_history:
  assumes "cv_ok (verify_chain digest rs)" "cv_ok (verify_chain digest ss)"
    and "last_hash genesis_hash rs = last_hash genesis_hash ss"
  shows "map (\<lambda>e. (content (fst e), snd e)) rs = map (\<lambda>e. (content (fst e), snd e)) ss \<or>
    collision digest (set (hash_inputs genesis_hash rs) \<union> set (hash_inputs genesis_hash ss))"
  using chain_determined[OF _ _ assms(3)] assms(1,2) by (simp add: verify_chain_simps)

theorem chain_commits_to_history_witness:
  "map (\<lambda>e. (content (fst e), snd e)) (chained (al_rows sample_audit)) =
     map (\<lambda>e. (content (fst e), snd e)) (chained (al_rows sample_audit)) \<or>
   collision id (set (hash_inputs genesis_hash (chained (al_rows sample_audit))) \<union>
     set (hash_inputs genesis_hash (chained (al_rows sample_audit))))"
proof -
  have "cv_ok (verify_chain id (chained (al_rows sample_audit)))"
    using chain_inv_run[OF sample_audit_run by_length_keeps] by (simp add: chain_inv_def verify_chain_simps)
  from chain_commits_to_history[OF this this refl] show ?thesis .
qed

section \<open>A payload with nothing in a field\<close>

text \<open>
  A field that is \<open>undefined\<close> is hashed as \<open>null\<close> but not stored, so the row fails its verification
  as long as the digest tells the two texts apart.
\<close>

lemma undefined_field_breaks_chain:
  assumes "digest (hash_input genesis_hash (event_record \<lparr>ev_type = t, ev_org = g, ev_subject = s, ev_payload = [(k, JUndefined)]\<rparr> now)) \<noteq>
      digest (hash_input genesis_hash (event_record \<lparr>ev_type = t, ev_org = g, ev_subject = s, ev_payload = []\<rparr> now))"
  shows "audit_verify digest (snd (audit_append digest id now
      \<lparr>ev_type = t, ev_org = g, ev_subject = s, ev_payload = [(k, JUndefined)]\<rparr> empty_audit_log)) =
    \<lparr>cv_ok = False, cv_length = 1, cv_broken_at = Some 0\<rparr>"
  using assms
  by (simp add: audit_append_def empty_audit_log_def tail_hash_def by_seq_def audit_verify_def verify_chain_def
      hash_record_def event_record_def row_record_def payload_written_def Let_def)

end
