(* ===== verification/Jwt.thy ===== *)
theory Jwt
  imports Json Kernel
begin

text \<open>
  Access tokens: \<open>JwtAccessTokenIssuer\<close>, \<open>JwksProvider\<close> and \<open>JwtVerifier\<close> of apps/api/src/authn.

  The encoding of a segment (base64url over JSON) and Ed25519 come from Node and are parameters; what
  is assumed of them is \<open>sound_platform\<close>: a segment decodes to the value it encodes and holds no dot,
  nor does a signature, and a signature made with a key verifies with its public key.
\<close>

record jwt_platform =
  segment_of :: "json \<Rightarrow> string"
  segment_value :: "string \<Rightarrow> json option"
  ed_verify :: "string \<Rightarrow> string \<Rightarrow> string \<Rightarrow> bool"

section \<open>Issuing\<close>

record access_token_claims =
  claim_sub :: string
  claim_sid :: string
  claim_org :: "string option"
  claim_aal :: nat
  claim_auth_time :: date

record access_token_config =
  at_issuer :: string
  at_audience :: string
  at_ttl_seconds :: int

record active_key =
  key_version :: nat
  key_kid :: string

record signature =
  sig_kid :: string
  sig_value :: string

record issued_access_token =
  iss_token :: string
  iss_jti :: string
  iss_expires_at :: date
  iss_expires_in :: int

text \<open>\<open>...(claims.org ? { org: claims.org } : {})\<close>; the empty string is not written.\<close>

definition org_claim :: "string option \<Rightarrow> (string \<times> json) list" where
  "org_claim org = (case org of Some s \<Rightarrow> if s = [] then [] else [(''org'', JString s)] | None \<Rightarrow> [])"

definition token_payload :: "access_token_config \<Rightarrow> string \<Rightarrow> date \<Rightarrow> access_token_claims \<Rightarrow> (string \<times> json) list" where
  "token_payload cfg jti now claims =
     (let iat = now div 1000 in
      [(''iss'', JString (at_issuer cfg)), (''aud'', JString (at_audience cfg)),
       (''sub'', JString (claim_sub claims)), (''sid'', JString (claim_sid claims))] @
      org_claim (claim_org claims) @
      [(''jti'', JString jti), (''aal'', JNumber (int (claim_aal claims))),
       (''auth_time'', JNumber (claim_auth_time claims div 1000)),
       (''iat'', JNumber iat), (''nbf'', JNumber iat), (''exp'', JNumber (iat + at_ttl_seconds cfg))])"

definition token_header :: "string \<Rightarrow> json" where
  "token_header kid = JObject [(''alg'', JString ''EdDSA''), (''typ'', JString ''JWT''), (''kid'', JString kid)]"

definition signing_input :: "jwt_platform \<Rightarrow> access_token_config \<Rightarrow> string \<Rightarrow> string \<Rightarrow> date \<Rightarrow> access_token_claims \<Rightarrow> string" where
  "signing_input p cfg kid jti now claims =
     segment_of p (token_header kid) @ ''.'' @ segment_of p (JObject (token_payload cfg jti now claims))"

definition issue_token :: "jwt_platform \<Rightarrow> access_token_config \<Rightarrow> active_key \<Rightarrow> (string \<Rightarrow> nat \<Rightarrow> signature) \<Rightarrow>
    string \<Rightarrow> date \<Rightarrow> access_token_claims \<Rightarrow> issued_access_token throws" where
  "issue_token p cfg active sign jti now claims =
     (let exp = now div 1000 + at_ttl_seconds cfg;
          text_to_sign = signing_input p cfg (key_kid active) jti now claims;
          signature = sign text_to_sign (key_version active) in
      if sig_kid signature \<noteq> key_kid active then Inl (Error ''signing key rotated during issuance'')
      else Inr \<lparr>iss_token = text_to_sign @ ''.'' @ sig_value signature, iss_jti = jti,
        iss_expires_at = exp * 1000, iss_expires_in = at_ttl_seconds cfg\<rparr>)"

section \<open>The key set\<close>

record public_key =
  pub_kid :: string
  pub_alg :: string
  pub_key :: string
  pub_version :: nat

record jwk =
  jwk_kid :: string
  jwk_alg :: string
  jwk_x :: string

record jwks_cache =
  jwks_keys :: "jwk list"
  jwks_cached_at :: date

definition min_refresh_ms :: int where
  "min_refresh_ms = 5000"

definition jwk_of :: "public_key \<Rightarrow> jwk" where
  "jwk_of k = \<lparr>jwk_kid = pub_kid k, jwk_alg = pub_alg k, jwk_x = pub_key k\<rparr>"

definition jwks_load :: "public_key list \<Rightarrow> date \<Rightarrow> jwks_cache" where
  "jwks_load keys now = \<lparr>jwks_keys = map jwk_of keys, jwks_cached_at = now\<rparr>"

definition jwks_get :: "int \<Rightarrow> public_key list \<Rightarrow> date \<Rightarrow> jwks_cache option \<Rightarrow> jwks_cache" where
  "jwks_get ttl_seconds keys now cache =
     (case cache of
        Some c \<Rightarrow> if now - jwks_cached_at c < ttl_seconds * 1000 then c else jwks_load keys now
      | None \<Rightarrow> jwks_load keys now)"

definition jwks_refresh :: "public_key list \<Rightarrow> date \<Rightarrow> jwks_cache option \<Rightarrow> jwks_cache" where
  "jwks_refresh keys now cache =
     (case cache of
        Some c \<Rightarrow> if now - jwks_cached_at c < min_refresh_ms then c else jwks_load keys now
      | None \<Rightarrow> jwks_load keys now)"

section \<open>Verifying\<close>

datatype verify_error = Malformed | UnknownKid | AlgMismatch | BadSignature | UntrustedIssuer | WrongAudience
  | Expired | NotYetValid

record verifier_config =
  vc_issuer :: string
  vc_audience :: string
  vc_clock_skew :: int
  vc_jwks_ttl :: int

text \<open>\<open>value.name\<close>: a property of \<open>null\<close> or \<open>undefined\<close> throws, one of another value may be absent.\<close>

definition js_property :: "string \<Rightarrow> json \<Rightarrow> json throws" where
  "js_property name v =
     (case v of
        JNull \<Rightarrow> Inl (Error ''TypeError'')
      | JUndefined \<Rightarrow> Inl (Error ''TypeError'')
      | JObject es \<Rightarrow> Inr (case map_of es name of Some w \<Rightarrow> w | None \<Rightarrow> JUndefined)
      | _ \<Rightarrow> Inr JUndefined)"

definition audience_matches :: "string \<Rightarrow> json \<Rightarrow> bool" where
  "audience_matches audience aud =
     (case aud of JString s \<Rightarrow> s = audience | JArray vs \<Rightarrow> JString audience \<in> set vs | _ \<Rightarrow> False)"

text \<open>The checks after the signature, on the claims.\<close>

definition check_claims :: "verifier_config \<Rightarrow> date \<Rightarrow> json \<Rightarrow> (json, verify_error) result throws" where
  "check_claims cfg now payload =
     (case js_property ''iss'' payload of
        Inl e \<Rightarrow> Inl e
      | Inr iss \<Rightarrow>
          (let claim = (\<lambda>name. case js_property name payload of Inr v \<Rightarrow> v | Inl _ \<Rightarrow> JUndefined);
               now_seconds = now div 1000; skew = vc_clock_skew cfg in
           if iss \<noteq> JString (vc_issuer cfg) then Inr (err UntrustedIssuer)
           else if \<not> audience_matches (vc_audience cfg) (claim ''aud'') then Inr (err WrongAudience)
           else if (case claim ''exp'' of JNumber e \<Rightarrow> e + skew \<le> now_seconds | _ \<Rightarrow> True) then Inr (err Expired)
           else if (case claim ''nbf'' of JNumber n \<Rightarrow> n - skew > now_seconds | _ \<Rightarrow> False) then Inr (err NotYetValid)
           else Inr (ok payload)))"

definition find_kid :: "string \<Rightarrow> jwks_cache \<Rightarrow> jwk option" where
  "find_kid kid c = find (\<lambda>k. jwk_kid k = kid) (jwks_keys c)"

text \<open>The key for a \<open>kid\<close>, with one refresh when the cached set does not have it.\<close>

definition resolve_kid :: "verifier_config \<Rightarrow> public_key list \<Rightarrow> date \<Rightarrow> string \<Rightarrow> jwks_cache option \<Rightarrow>
    jwk option \<times> jwks_cache option" where
  "resolve_kid cfg keys now kid cache =
     (let c1 = jwks_get (vc_jwks_ttl cfg) keys now cache in
      case find_kid kid c1 of
        Some k \<Rightarrow> (Some k, Some c1)
      | None \<Rightarrow> (let c2 = jwks_refresh keys now (Some c1) in (find_kid kid c2, Some c2)))"

definition verify_token :: "jwt_platform \<Rightarrow> verifier_config \<Rightarrow> public_key list \<Rightarrow> date \<Rightarrow> string \<Rightarrow> jwks_cache option \<Rightarrow>
    (json, verify_error) result throws \<times> jwks_cache option" where
  "verify_token p cfg keys now token cache =
     (case split_on (CHR ''.'') token of
        [header_part, payload_part, signature_part] \<Rightarrow>
          (case (segment_value p header_part, segment_value p payload_part) of
             (Some header, Some payload) \<Rightarrow>
               (case (js_property ''typ'' header, js_property ''kid'' header, js_property ''alg'' header) of
                  (Inr (JString typ), Inr (JString kid), Inr alg) \<Rightarrow>
                    (if typ \<noteq> ''JWT'' then (Inr (err Malformed), cache)
                     else case resolve_kid cfg keys now kid cache of
                       (None, cache') \<Rightarrow> (Inr (err UnknownKid), cache')
                     | (Some k, cache') \<Rightarrow>
                         if jwk_alg k \<noteq> ''EdDSA'' \<or> alg \<noteq> JString (jwk_alg k) then (Inr (err AlgMismatch), cache')
                         else if \<not> ed_verify p (jwk_x k) (header_part @ ''.'' @ payload_part) signature_part
                         then (Inr (err BadSignature), cache')
                         else (check_claims cfg now payload, cache'))
                | (Inl e, _, _) \<Rightarrow> (Inl e, cache)
                | _ \<Rightarrow> (Inr (err Malformed), cache))
           | _ \<Rightarrow> (Inr (err Malformed), cache))
      | _ \<Rightarrow> (Inr (err Malformed), cache))"

section \<open>The claims of a token\<close>

definition claim :: "string \<Rightarrow> json \<Rightarrow> json" where
  "claim name payload = (case js_property name payload of Inr v \<Rightarrow> v | Inl _ \<Rightarrow> JUndefined)"

lemma claim_object: "claim name (JObject es) = (case map_of es name of Some w \<Rightarrow> w | None \<Rightarrow> JUndefined)"
  by (simp add: claim_def js_property_def)

lemma check_claims_ok_iff:
  "check_claims cfg now payload = Inr (ok accepted) \<longleftrightarrow> accepted = payload \<and>
     (\<exists>e. claim ''iss'' payload = JString (vc_issuer cfg) \<and> audience_matches (vc_audience cfg) (claim ''aud'' payload) \<and>
       claim ''exp'' payload = JNumber e \<and> now div 1000 < e + vc_clock_skew cfg \<and>
       (\<forall>n. claim ''nbf'' payload = JNumber n \<longrightarrow> n - vc_clock_skew cfg \<le> now div 1000))"
proof (cases "js_property ''iss'' payload")
  case (Inl e)
  then show ?thesis by (auto simp: check_claims_def claim_def)
next
  case (Inr iss)
  have "check_claims cfg now payload =
      (if claim ''iss'' payload \<noteq> JString (vc_issuer cfg) then Inr (err UntrustedIssuer)
       else if \<not> audience_matches (vc_audience cfg) (claim ''aud'' payload) then Inr (err WrongAudience)
       else if (case claim ''exp'' payload of JNumber e \<Rightarrow> e + vc_clock_skew cfg \<le> now div 1000 | _ \<Rightarrow> True) then Inr (err Expired)
       else if (case claim ''nbf'' payload of JNumber n \<Rightarrow> n - vc_clock_skew cfg > now div 1000 | _ \<Rightarrow> False) then Inr (err NotYetValid)
       else Inr (ok payload))"
    by (simp add: check_claims_def Inr claim_def Let_def)
  then show ?thesis
    by (cases "claim ''exp'' payload"; cases "claim ''nbf'' payload") auto
qed

lemma split_on_join: "split_on c xs = ys \<Longrightarrow> xs = concat (map (\<lambda>y. y @ [c]) (butlast ys)) @ last ys"
proof (induction xs arbitrary: ys)
  case (Cons x xs)
  obtain z zs where z: "split_on c xs = z # zs" by (cases "split_on c xs") auto
  from Cons.IH[OF z] have "xs = concat (map (\<lambda>y. y @ [c]) (butlast (z # zs))) @ last (z # zs)" .
  with Cons.prems z show ?case by (cases "zs = []") (auto split: if_splits)
qed auto

lemma split_on_three: "split_on c xs = [a, b, d] \<Longrightarrow> xs = a @ c # b @ c # d"
  using split_on_join[of c xs "[a, b, d]"] by simp

text \<open>The keys a verification may use: the published ones and those still cached.\<close>

definition known_keys :: "public_key list \<Rightarrow> jwks_cache option \<Rightarrow> jwk set" where
  "known_keys keys cache = set (map jwk_of keys) \<union> (case cache of Some c \<Rightarrow> set (jwks_keys c) | None \<Rightarrow> {})"

lemma jwks_get_known: "set (jwks_keys (jwks_get ttl keys now cache)) \<subseteq> known_keys keys cache"
  by (auto simp: jwks_get_def jwks_load_def known_keys_def split: option.splits)

lemma jwks_refresh_known: "set (jwks_keys (jwks_refresh keys now cache)) \<subseteq> known_keys keys cache"
  by (auto simp: jwks_refresh_def jwks_load_def known_keys_def split: option.splits)

lemma resolve_kid_known:
  assumes "resolve_kid cfg keys now kid cache = (found, Some c)"
  shows "set (jwks_keys c) \<subseteq> known_keys keys cache"
proof -
  let ?c1 = "jwks_get (vc_jwks_ttl cfg) keys now cache"
  have "known_keys keys (Some ?c1) \<subseteq> known_keys keys cache"
    using jwks_get_known[of "vc_jwks_ttl cfg" keys now cache] by (auto simp: known_keys_def)
  then show ?thesis
    using assms jwks_get_known[of "vc_jwks_ttl cfg" keys now cache] jwks_refresh_known[of keys now "Some ?c1"]
    by (auto simp: resolve_kid_def Let_def split: option.splits)
qed

text \<open>What acceptance means, step by step.\<close>

lemma verify_token_okD:
  assumes "verify_token p cfg keys now token cache = (Inr (ok payload), cache')"
  shows "\<exists>hp pp sp k header. token = hp @ ''.'' @ pp @ ''.'' @ sp \<and> CHR ''.'' \<notin> set hp \<and> segment_value p hp = Some header \<and>
     claim ''kid'' header = JString (jwk_kid k) \<and> claim ''alg'' header = JString ''EdDSA'' \<and> claim ''typ'' header = JString ''JWT'' \<and>
     k \<in> known_keys keys cache \<and> jwk_alg k = ''EdDSA'' \<and>
     ed_verify p (jwk_x k) (hp @ ''.'' @ pp) sp \<and> segment_value p pp = Some payload \<and>
     check_claims cfg now payload = Inr (ok payload)"
proof -
  obtain hp pp sp where parts: "split_on (CHR ''.'') token = [hp, pp, sp]"
    using assms by (auto simp: verify_token_def split: list.splits)
  obtain header body where decoded: "segment_value p hp = Some header" "segment_value p pp = Some body"
    using assms by (auto simp: verify_token_def parts split: option.splits)
  obtain ty kid alg where head: "js_property ''typ'' header = Inr (JString ty)" "js_property ''kid'' header = Inr (JString kid)"
    "js_property ''alg'' header = Inr alg"
    using assms by (auto simp: verify_token_def parts decoded split: sum.splits json.splits)
  obtain k cache1 where found: "resolve_kid cfg keys now kid cache = (Some k, cache1)" and ty: "ty = ''JWT''"
    using assms by (auto simp: verify_token_def parts decoded head split: prod.splits option.splits if_splits)
  have rest: "jwk_alg k = ''EdDSA''" "alg = JString ''EdDSA''" "ed_verify p (jwk_x k) (hp @ ''.'' @ pp) sp" "cache' = cache1"
    and claims: "check_claims cfg now body = Inr (ok payload)"
    using assms by (auto simp: verify_token_def parts decoded head found ty split: if_splits)
  obtain c where "cache1 = Some c" "k \<in> set (jwks_keys c)" "jwk_kid k = kid"
    using found by (auto simp: resolve_kid_def Let_def find_kid_def find_Some_iff split: option.splits)
  then have "k \<in> known_keys keys cache \<and> jwk_kid k = kid"
    using resolve_kid_known[of cfg keys now kid cache "Some k" c] found by auto
  moreover have "token = hp @ ''.'' @ pp @ ''.'' @ sp" using split_on_three[OF parts] by simp
  moreover have "CHR ''.'' \<notin> set hp" using split_on_parts[of hp "CHR ''.''" token] parts by simp
  moreover have "body = payload" using claims by (simp add: check_claims_ok_iff)
  ultimately show ?thesis
    using decoded head rest claims ty by (intro exI[of _ hp] exI[of _ pp] exI[of _ sp] exI[of _ k] exI[of _ header])
      (simp add: claim_def)
qed

section \<open>Tokens that were issued\<close>

record issuance =
  is_kid :: string
  is_jti :: string
  is_at :: date
  is_claims :: access_token_claims

definition issued_payload :: "access_token_config \<Rightarrow> issuance \<Rightarrow> json" where
  "issued_payload cfg i = JObject (token_payload cfg (is_jti i) (is_at i) (is_claims i))"

definition issued_input :: "jwt_platform \<Rightarrow> access_token_config \<Rightarrow> issuance \<Rightarrow> string" where
  "issued_input p cfg i = signing_input p cfg (is_kid i) (is_jti i) (is_at i) (is_claims i)"

text \<open>The two segments of a token decode to what they encode and hold no dot.\<close>

definition decodable :: "jwt_platform \<Rightarrow> json \<Rightarrow> bool" where
  "decodable p v \<longleftrightarrow> segment_value p (segment_of p v) = Some v \<and> CHR ''.'' \<notin> set (segment_of p v)"

definition decodable_token :: "jwt_platform \<Rightarrow> access_token_config \<Rightarrow> issuance \<Rightarrow> bool" where
  "decodable_token p cfg i \<longleftrightarrow> decodable p (token_header (is_kid i)) \<and> decodable p (issued_payload cfg i)"

text \<open>Ed25519: no text verifies under one of the keys that the holder of the keys did not sign.\<close>

definition unforgeable :: "jwt_platform \<Rightarrow> access_token_config \<Rightarrow> issuance list \<Rightarrow> jwk set \<Rightarrow> bool" where
  "unforgeable p cfg issued ks \<longleftrightarrow>
     (\<forall>k \<in> ks. \<forall>t s. ed_verify p (jwk_x k) t s \<longrightarrow> t \<in> issued_input p cfg ` set issued)"

lemma token_payload_claims:
  fixes cfg jti now claims
  defines "payload \<equiv> JObject (token_payload cfg jti now claims)"
  shows "claim ''iss'' payload = JString (at_issuer cfg)" "claim ''aud'' payload = JString (at_audience cfg)"
    "claim ''exp'' payload = JNumber (now div 1000 + at_ttl_seconds cfg)" "claim ''nbf'' payload = JNumber (now div 1000)"
    "claim ''sub'' payload = JString (claim_sub claims)" "claim ''sid'' payload = JString (claim_sid claims)"
    "claim ''aal'' payload = JNumber (int (claim_aal claims))" "claim ''jti'' payload = JString jti"
  by (auto simp: payload_def claim_object token_payload_def org_claim_def Let_def split: option.splits)

definition kid_resolvable :: "public_key list \<Rightarrow> date \<Rightarrow> string \<Rightarrow> jwks_cache option \<Rightarrow> jwk \<Rightarrow> bool" where
  "kid_resolvable keys now kid cache k \<longleftrightarrow> find (\<lambda>k. jwk_kid k = kid) (map jwk_of keys) = Some k \<and>
     (case cache of Some c \<Rightarrow> find_kid kid c = Some k \<or> (find_kid kid c = None \<and> min_refresh_ms \<le> now - jwks_cached_at c)
      | None \<Rightarrow> True)"

lemma resolve_kid_finds:
  "kid_resolvable keys now kid cache k \<Longrightarrow> fst (resolve_kid cfg keys now kid cache) = Some k"
  by (cases cache)
     (auto simp: kid_resolvable_def resolve_kid_def Let_def jwks_get_def jwks_refresh_def jwks_load_def find_kid_def
       split: option.splits if_splits)

section \<open>A sample token\<close>

definition sample_at_config :: access_token_config where
  "sample_at_config = \<lparr>at_issuer = ''accesscore'', at_audience = ''api'', at_ttl_seconds = 900\<rparr>"

definition sample_vc_config :: verifier_config where
  "sample_vc_config = \<lparr>vc_issuer = ''accesscore'', vc_audience = ''api'', vc_clock_skew = 30, vc_jwks_ttl = 300\<rparr>"

definition sample_claims :: access_token_claims where
  "sample_claims = \<lparr>claim_sub = ''ann'', claim_sid = ''s1'', claim_org = None, claim_aal = 1, claim_auth_time = 0\<rparr>"

definition sample_issuance :: issuance where
  "sample_issuance = \<lparr>is_kid = ''k1'', is_jti = ''j1'', is_at = 1000, is_claims = sample_claims\<rparr>"

definition mask_dots :: "string \<Rightarrow> string" where
  "mask_dots t = map (\<lambda>c. if c = CHR ''.'' then CHR '','' else c) t"

definition sample_jwt :: "(string \<Rightarrow> bool) \<Rightarrow> jwt_platform" where
  "sample_jwt signed = \<lparr>segment_of = (\<lambda>v. if v = token_header ''k1'' then ''h'' else ''p''),
     segment_value = (\<lambda>s. if s = ''h'' then Some (token_header ''k1'')
       else if s = ''p'' then Some (issued_payload sample_at_config sample_issuance) else None),
     ed_verify = (\<lambda>k t s. s = mask_dots t \<and> signed t)\<rparr>"

definition sample_keys :: "public_key list" where
  "sample_keys = [\<lparr>pub_kid = ''k1'', pub_alg = ''EdDSA'', pub_key = ''x'', pub_version = 1\<rparr>]"

definition sample_token :: string where
  "sample_token = ''h.p.h,p''"

lemma sample_decodable: "decodable_token (sample_jwt signed) sample_at_config sample_issuance"
  by (simp add: decodable_token_def decodable_def sample_jwt_def sample_issuance_def issued_payload_def token_header_def
      token_payload_def Let_def)

lemma sample_input: "issued_input (sample_jwt signed) sample_at_config sample_issuance = ''h.p''"
  by (simp add: issued_input_def signing_input_def sample_jwt_def sample_issuance_def token_header_def token_payload_def Let_def)

lemma sample_accepted:
  "verify_token (sample_jwt (\<lambda>t. t = ''h.p'')) sample_vc_config sample_keys 60000 sample_token None =
     (Inr (ok (issued_payload sample_at_config sample_issuance)), Some (jwks_load sample_keys 60000))"
  by code_simp

lemma issued_token_answer:
  assumes "issue_token p cfg active sign jti now claims = Inr t"
    and "vc_issuer vcfg = at_issuer cfg" "vc_audience vcfg = at_audience cfg"
    and "decodable_token p cfg \<lparr>is_kid = key_kid active, is_jti = jti, is_at = now, is_claims = claims\<rparr>"
    and "kid_resolvable keys later (key_kid active) cache k" "jwk_alg k = ''EdDSA''"
    and "\<forall>text_to_sign. ed_verify p (jwk_x k) text_to_sign (sig_value (sign text_to_sign (key_version active))) \<and>
      CHR ''.'' \<notin> set (sig_value (sign text_to_sign (key_version active)))"
    and "now div 1000 - vc_clock_skew vcfg \<le> later div 1000"
  shows "fst (verify_token p vcfg keys later (iss_token t) cache) =
    (if later div 1000 < now div 1000 + at_ttl_seconds cfg + vc_clock_skew vcfg
     then Inr (ok (JObject (token_payload cfg jti now claims))) else Inr (err Expired))"
proof -
  let ?h = "token_header (key_kid active)" and ?b = "JObject (token_payload cfg jti now claims)"
  let ?input = "signing_input p cfg (key_kid active) jti now claims"
  let ?s = "sig_value (sign ?input (key_version active))"
  have dec: "segment_value p (segment_of p ?h) = Some ?h" "segment_value p (segment_of p ?b) = Some ?b"
    "CHR ''.'' \<notin> set (segment_of p ?h)" "CHR ''.'' \<notin> set (segment_of p ?b)"
    using assms(4) by (simp_all add: decodable_token_def decodable_def issued_payload_def)
  have token: "iss_token t = segment_of p ?h @ CHR ''.'' # segment_of p ?b @ CHR ''.'' # ?s"
    using assms(1) by (auto simp: issue_token_def Let_def signing_input_def split: if_splits)
  have parts: "split_on (CHR ''.'') (iss_token t) = [segment_of p ?h, segment_of p ?b, ?s]"
    using dec(3,4) assms(7) by (simp add: token split_on_append_sep split_on_absent)
  obtain cache1 where found: "resolve_kid vcfg keys later (key_kid active) cache = (Some k, cache1)"
    using resolve_kid_finds[OF assms(5), of vcfg] by (metis prod.collapse)
  have head: "js_property ''typ'' ?h = Inr (JString ''JWT'')" "js_property ''kid'' ?h = Inr (JString (key_kid active))"
    "js_property ''alg'' ?h = Inr (JString ''EdDSA'')"
    by (simp_all add: token_header_def js_property_def)
  have valid: "ed_verify p (jwk_x k) (segment_of p ?h @ CHR ''.'' # segment_of p ?b) ?s"
    using assms(7) by (simp add: signing_input_def)
  have "fst (verify_token p vcfg keys later (iss_token t) cache) = check_claims vcfg later ?b"
    using assms(6) valid by (simp add: verify_token_def parts dec(1,2) head found)
  moreover have "js_property name ?b = Inr (claim name ?b)" for name by (simp add: claim_def js_property_def)
  ultimately show ?thesis
    using assms(8) by (simp add: check_claims_def token_payload_claims assms(2,3) audience_matches_def Let_def)
qed

lemma accepted_token_issued:
  assumes "verify_token p vcfg keys now token cache = (Inr (ok payload), cache')"
    and "unforgeable p cfg issued (known_keys keys cache)" "\<forall>i \<in> set issued. decodable_token p cfg i"
  shows "\<exists>i \<in> set issued. payload = issued_payload cfg i \<and>
    is_at i div 1000 - vc_clock_skew vcfg \<le> now div 1000 \<and>
    now div 1000 < is_at i div 1000 + at_ttl_seconds cfg + vc_clock_skew vcfg"
proof -
  from verify_token_okD[OF assms(1)] obtain hp pp sp k where
    token: "token = hp @ ''.'' @ pp @ ''.'' @ sp" and k: "k \<in> known_keys keys cache"
    and signed: "ed_verify p (jwk_x k) (hp @ ''.'' @ pp) sp" and decoded: "segment_value p pp = Some payload"
    and claims: "check_claims vcfg now payload = Inr (ok payload)" and dot: "CHR ''.'' \<notin> set hp"
    by blast
  from assms(2) k signed obtain i where i: "i \<in> set issued" "hp @ ''.'' @ pp = issued_input p cfg i"
    unfolding unforgeable_def by blast
  with assms(3) have sound: "decodable p (token_header (is_kid i))" "decodable p (issued_payload cfg i)"
    by (auto simp: decodable_token_def)
  have "hp @ CHR ''.'' # pp = segment_of p (token_header (is_kid i)) @ CHR ''.'' # segment_of p (issued_payload cfg i)"
    using i(2) by (simp add: issued_input_def signing_input_def issued_payload_def)
  from sep_append_eq[OF dot _ this] sound(1) have "pp = segment_of p (issued_payload cfg i)"
    by (simp add: decodable_def)
  with sound(2) decoded have payload: "payload = issued_payload cfg i" by (simp add: decodable_def)
  with claims i(1) show ?thesis
    by (intro bexI[of _ i]) (auto simp: check_claims_ok_iff issued_payload_def token_payload_claims)
qed

section \<open>Properties\<close>

text \<open>C29: an accepted token was issued: if no text verifies under a known key that the service did not sign,
  then a token the verifier accepts carries exactly the claims of one that was issued, its lifetime and
  the clock skew have not passed, and it is not used before its time.\<close>
theorem accepted_tokens_were_issued:
  assumes "verify_token p vcfg keys now token cache = (Inr (ok payload), cache')"
    and "unforgeable p cfg issued (known_keys keys cache)" "\<forall>i \<in> set issued. decodable_token p cfg i"
  shows "\<exists>i \<in> set issued. payload = issued_payload cfg i \<and>
    is_at i div 1000 - vc_clock_skew vcfg \<le> now div 1000 \<and>
    now div 1000 < is_at i div 1000 + at_ttl_seconds cfg + vc_clock_skew vcfg"
  using assms by (rule accepted_token_issued)

theorem accepted_tokens_were_issued_witness:
  "\<exists>i \<in> {sample_issuance}. issued_payload sample_at_config sample_issuance = issued_payload sample_at_config i \<and>
    is_at i div 1000 - 30 \<le> (60000 :: int) div 1000 \<and> (60000 :: int) div 1000 < is_at i div 1000 + 900 + 30"
proof -
  have "unforgeable (sample_jwt (\<lambda>t. t = ''h.p'')) sample_at_config [sample_issuance] (known_keys sample_keys None)"
    by (simp add: unforgeable_def sample_input) (simp add: sample_jwt_def)
  moreover have "\<forall>i \<in> set [sample_issuance]. decodable_token (sample_jwt (\<lambda>t. t = ''h.p'')) sample_at_config i"
    by (simp add: sample_decodable)
  ultimately show ?thesis
    using accepted_tokens_were_issued[OF sample_accepted] by (force simp: sample_vc_config_def sample_at_config_def)
qed

text \<open>An issued token verifies until it expires: whoever asks between its start and the end of its lifetime,
  plus the clock skew, gets the claims it was issued with, and afterwards the error expired, as long as its
  key is published and the verifier's cached key set either has the key or may be refreshed.\<close>
theorem issued_tokens_verify:
  assumes "issue_token p cfg active sign jti now claims = Inr t"
    and "vc_issuer vcfg = at_issuer cfg" "vc_audience vcfg = at_audience cfg"
    and "decodable_token p cfg \<lparr>is_kid = key_kid active, is_jti = jti, is_at = now, is_claims = claims\<rparr>"
    and "kid_resolvable keys later (key_kid active) cache k" "jwk_alg k = ''EdDSA''"
    and "\<forall>text_to_sign. ed_verify p (jwk_x k) text_to_sign (sig_value (sign text_to_sign (key_version active))) \<and>
      CHR ''.'' \<notin> set (sig_value (sign text_to_sign (key_version active)))"
    and "now div 1000 - vc_clock_skew vcfg \<le> later div 1000"
  shows "fst (verify_token p vcfg keys later (iss_token t) cache) =
    (if later div 1000 < now div 1000 + at_ttl_seconds cfg + vc_clock_skew vcfg
     then Inr (ok (JObject (token_payload cfg jti now claims))) else Inr (err Expired))"
  using assms by (rule issued_token_answer)

theorem issued_tokens_verify_witness:
  "fst (verify_token (sample_jwt (\<lambda>t. True)) sample_vc_config sample_keys 931000 sample_token None) = Inr (err Expired)"
proof -
  let ?p = "sample_jwt (\<lambda>t. True)" and ?sign = "\<lambda>t v. \<lparr>sig_kid = ''k1'', sig_value = mask_dots t\<rparr>"
  let ?active = "\<lparr>key_version = 1, key_kid = ''k1''\<rparr>"
  let ?t = "\<lparr>iss_token = sample_token, iss_jti = ''j1'', iss_expires_at = 901000, iss_expires_in = 900\<rparr>"
  have issue: "issue_token ?p sample_at_config ?active ?sign ''j1'' 1000 sample_claims = Inr ?t"
    using sample_input[of "\<lambda>t. True"]
    by (simp add: issue_token_def issued_input_def sample_issuance_def sample_token_def mask_dots_def)
       (simp add: sample_at_config_def)
  have "fst (verify_token ?p sample_vc_config sample_keys 931000 (iss_token ?t) None) =
      (if 931000 div 1000 < 1000 div 1000 + at_ttl_seconds sample_at_config + vc_clock_skew sample_vc_config
       then Inr (ok (JObject (token_payload sample_at_config ''j1'' 1000 sample_claims))) else Inr (err Expired))"
  proof (rule issued_tokens_verify[OF issue, where k = "jwk_of (hd sample_keys)"])
    show "decodable_token ?p sample_at_config
        \<lparr>is_kid = key_kid ?active, is_jti = ''j1'', is_at = 1000, is_claims = sample_claims\<rparr>"
      using sample_decodable by (simp add: sample_issuance_def)
  qed (auto simp: sample_vc_config_def sample_at_config_def sample_keys_def kid_resolvable_def jwk_of_def sample_jwt_def mask_dots_def)
  then show ?thesis by (simp add: sample_at_config_def sample_vc_config_def)
qed

end
