(* ===== verification/Sessions.thy ===== *)
theory Sessions
  imports Jwt
begin

text \<open>
  The state of authentication (apps/api/src/authn): the tables \<open>sessions\<close>, \<open>token_families\<close>,
  \<open>refresh_tokens\<close> and \<open>outbox\<close> with their Drizzle repositories, the Redis stores of revoked sessions,
  failed attempts and replayable refreshes, and the guard of every authenticated request.

  A row is kept as the domain object \<open>toDomain\<close> makes of it. Redis may be unreachable: every operation
  on it takes \<open>up\<close>. An entry with a time to live is read until its expiry.
\<close>

section \<open>Domain objects\<close>

datatype session_id = SessionId (sid_value: string)
datatype token_family_id = TokenFamilyId (tfid_value: string)

datatype session_status = SessionActive | SessionRevoked

record session =
  ses_id :: session_id
  ses_user :: user_id
  ses_org :: "org_id option"
  ses_aal :: nat
  ses_auth_time :: date
  ses_status :: session_status
  ses_device_label :: "string option"
  ses_user_agent :: "string option"
  ses_ip :: "string option"
  ses_created :: date
  ses_last_seen :: date
  ses_expires :: date
  ses_revoked_at :: "date option"

datatype family_status = FamilyActive | FamilyRevoked

record token_family =
  fam_id :: token_family_id
  fam_user :: user_id
  fam_session :: session_id
  fam_status :: family_status
  fam_created :: date
  fam_revoked_at :: "date option"
  fam_revoked_reason :: "string option"

datatype refresh_status = TokenActive | TokenRotated | TokenRevoked

record refresh_token =
  rt_id :: string
  rt_family :: token_family_id
  rt_hash :: string
  rt_generation :: nat
  rt_status :: refresh_status
  rt_created :: date
  rt_expires :: date
  rt_consumed :: "date option"

record reuse_event =
  reuse_user :: string
  reuse_session :: string
  reuse_generation :: nat

record outbox_event =
  out_aggregate :: string
  out_type :: string
  out_payload :: reuse_event
  out_occurred :: date

record grace_pair =
  gp_access_token :: string
  gp_refresh_token :: string
  gp_expires_in :: int
  gp_successor_generation :: nat

record authn_state =
  st_sessions :: "session list"
  st_families :: "token_family list"
  st_refresh :: "refresh_token list"
  st_outbox :: "outbox_event list"
  st_denied :: "string \<Rightarrow> date option"
  st_lockouts :: "string \<Rightarrow> (nat \<times> date) option"
  st_grace :: "string \<Rightarrow> (grace_pair \<times> date) option"

definition empty_authn :: authn_state where
  "empty_authn = \<lparr>st_sessions = [], st_families = [], st_refresh = [], st_outbox = [],
     st_denied = (\<lambda>_. None), st_lockouts = (\<lambda>_. None), st_grace = (\<lambda>_. None)\<rparr>"

text \<open>\<open>update ... set change where pred\<close>\<close>

definition update_where :: "('r \<Rightarrow> bool) \<Rightarrow> ('r \<Rightarrow> 'r) \<Rightarrow> 'r list \<Rightarrow> 'r list" where
  "update_where pred change rs = map (\<lambda>r. if pred r then change r else r) rs"

lemma in_update_where: "r \<in> set (update_where pred change rs) \<longleftrightarrow>
    (\<exists>r' \<in> set rs. r = (if pred r' then change r' else r'))"
  by (auto simp: update_where_def)

lemma update_where_keys: "(\<And>r. key (change r) = key r) \<Longrightarrow> map key (update_where pred change rs) = map key rs"
  by (auto simp: update_where_def)

section \<open>Sessions\<close>

definition create_session :: "session \<Rightarrow> authn_state \<Rightarrow> unit throws \<times> authn_state" where
  "create_session s st =
     (if ses_id s \<in> ses_id ` set (st_sessions st) then (Inl (Error ''duplicate key''), st)
      else (Inr (), st\<lparr>st_sessions := st_sessions st @ [s]\<rparr>))"

definition find_session :: "session_id \<Rightarrow> authn_state \<Rightarrow> session option" where
  "find_session i st = find (\<lambda>s. ses_id s = i) (st_sessions st)"

definition list_active_sessions :: "user_id \<Rightarrow> authn_state \<Rightarrow> session list" where
  "list_active_sessions u st =
     rev (sort_key ses_created (filter (\<lambda>s. ses_user s = u \<and> ses_status s = SessionActive) (st_sessions st)))"

definition touch_session :: "session_id \<Rightarrow> date \<Rightarrow> authn_state \<Rightarrow> authn_state" where
  "touch_session i tm st = st\<lparr>st_sessions :=
     update_where (\<lambda>s. ses_id s = i) (\<lambda>s. s\<lparr>ses_last_seen := tm\<rparr>) (st_sessions st)\<rparr>"

definition elevate_session :: "session_id \<Rightarrow> nat \<Rightarrow> date \<Rightarrow> authn_state \<Rightarrow> bool \<times> authn_state" where
  "elevate_session i aal auth_time st =
     (let hit = (\<lambda>s. ses_id s = i \<and> ses_status s = SessionActive) in
      (list_ex hit (st_sessions st), st\<lparr>st_sessions :=
         update_where hit (\<lambda>s. s\<lparr>ses_aal := aal, ses_auth_time := auth_time\<rparr>) (st_sessions st)\<rparr>))"

definition revoked_session :: "date \<Rightarrow> session \<Rightarrow> session" where
  "revoked_session tm s = s\<lparr>ses_status := SessionRevoked, ses_revoked_at := Some tm\<rparr>"

definition revoke_session :: "session_id \<Rightarrow> date \<Rightarrow> authn_state \<Rightarrow> authn_state" where
  "revoke_session i tm st = st\<lparr>st_sessions := update_where (\<lambda>s. ses_id s = i) (revoked_session tm) (st_sessions st)\<rparr>"

definition revoke_all_sessions :: "user_id \<Rightarrow> date \<Rightarrow> authn_state \<Rightarrow> string list \<times> authn_state" where
  "revoke_all_sessions u tm st =
     (let hit = (\<lambda>s. ses_user s = u \<and> ses_status s = SessionActive) in
      (map (sid_value \<circ> ses_id) (filter hit (st_sessions st)),
       st\<lparr>st_sessions := update_where hit (revoked_session tm) (st_sessions st)\<rparr>))"

section \<open>Token families\<close>

definition create_family :: "token_family \<Rightarrow> authn_state \<Rightarrow> unit throws \<times> authn_state" where
  "create_family f st =
     (if fam_id f \<in> fam_id ` set (st_families st) then (Inl (Error ''duplicate key''), st)
      else (Inr (), st\<lparr>st_families := st_families st @ [f]\<rparr>))"

definition find_family :: "token_family_id \<Rightarrow> authn_state \<Rightarrow> token_family option" where
  "find_family i st = find (\<lambda>f. fam_id f = i) (st_families st)"

definition revoked_family :: "string \<Rightarrow> date \<Rightarrow> token_family \<Rightarrow> token_family" where
  "revoked_family reason tm f = f\<lparr>fam_status := FamilyRevoked, fam_revoked_at := Some tm, fam_revoked_reason := Some reason\<rparr>"

definition revoke_family :: "token_family_id \<Rightarrow> string \<Rightarrow> date \<Rightarrow> authn_state \<Rightarrow> authn_state" where
  "revoke_family i reason tm st = st\<lparr>st_families :=
     update_where (\<lambda>f. fam_id f = i) (revoked_family reason tm) (st_families st)\<rparr>"

definition revoke_by_session :: "session_id \<Rightarrow> string \<Rightarrow> date \<Rightarrow> authn_state \<Rightarrow> authn_state" where
  "revoke_by_session i reason tm st = st\<lparr>st_families :=
     update_where (\<lambda>f. fam_session f = i \<and> fam_status f = FamilyActive) (revoked_family reason tm) (st_families st)\<rparr>"

definition revoke_all_families :: "user_id \<Rightarrow> string \<Rightarrow> date \<Rightarrow> authn_state \<Rightarrow> authn_state" where
  "revoke_all_families u reason tm st = st\<lparr>st_families :=
     update_where (\<lambda>f. fam_user f = u \<and> fam_status f = FamilyActive) (revoked_family reason tm) (st_families st)\<rparr>"

definition revoke_for_reuse :: "token_family_id \<Rightarrow> date \<Rightarrow> reuse_event \<Rightarrow> authn_state \<Rightarrow> authn_state" where
  "revoke_for_reuse i tm event st =
     (let st1 = revoke_family i ''reuse_detected'' tm st in
      st1\<lparr>st_refresh := update_where (\<lambda>t. rt_family t = i) (\<lambda>t. t\<lparr>rt_status := TokenRevoked\<rparr>) (st_refresh st1),
          st_outbox := st_outbox st1 @ [\<lparr>out_aggregate = tfid_value i, out_type = ''authn.refresh_token_reused'',
            out_payload = event, out_occurred = tm\<rparr>]\<rparr>)"

section \<open>Refresh tokens\<close>

definition add_refresh :: "refresh_token \<Rightarrow> authn_state \<Rightarrow> unit throws \<times> authn_state" where
  "add_refresh t st =
     (if rt_id t \<in> rt_id ` set (st_refresh st) \<or> rt_hash t \<in> rt_hash ` set (st_refresh st)
      then (Inl (Error ''duplicate key''), st)
      else (Inr (), st\<lparr>st_refresh := st_refresh st @ [t]\<rparr>))"

definition find_refresh_by_hash :: "string \<Rightarrow> authn_state \<Rightarrow> refresh_token option" where
  "find_refresh_by_hash h st = find (\<lambda>t. rt_hash t = h) (st_refresh st)"

definition find_active_by_family :: "token_family_id \<Rightarrow> authn_state \<Rightarrow> refresh_token option" where
  "find_active_by_family i st = find (\<lambda>t. rt_family t = i \<and> rt_status t = TokenActive) (st_refresh st)"

text \<open>One transaction: an insertion that fails takes the update back.\<close>

definition rotate_refresh :: "string \<Rightarrow> refresh_token \<Rightarrow> date \<Rightarrow> authn_state \<Rightarrow> bool throws \<times> authn_state" where
  "rotate_refresh presented successor tm st =
     (let hit = (\<lambda>t. rt_id t = presented \<and> rt_status t = TokenActive) in
      if \<not> list_ex hit (st_refresh st) then (Inr False, st)
      else case add_refresh successor (st\<lparr>st_refresh :=
          update_where hit (\<lambda>t. t\<lparr>rt_status := TokenRotated, rt_consumed := Some tm\<rparr>) (st_refresh st)\<rparr>) of
        (Inl e, _) \<Rightarrow> (Inl e, st)
      | (Inr _, st') \<Rightarrow> (Inr True, st'))"

section \<open>Redis\<close>

text \<open>\<open>SET key value EX seconds\<close>: present until the seconds have passed.\<close>

definition live :: "date \<Rightarrow> ('v \<times> date) option \<Rightarrow> 'v option" where
  "live now entry = (case entry of Some (v, until) \<Rightarrow> if now < until then Some v else None | None \<Rightarrow> None)"

definition revoke_subject :: "bool \<Rightarrow> date \<Rightarrow> string \<Rightarrow> int \<Rightarrow> authn_state \<Rightarrow> authn_state" where
  "revoke_subject up now subject ttl_seconds st =
     (if up then st\<lparr>st_denied := (st_denied st)(subject \<mapsto> now + max 1 ttl_seconds * 1000)\<rparr> else st)"

definition is_revoked :: "bool \<Rightarrow> date \<Rightarrow> string \<Rightarrow> authn_state \<Rightarrow> bool" where
  "is_revoked up now subject st =
     (\<not> up \<or> live now (map_option (Pair ()) (st_denied st subject)) \<noteq> None)"

record lockout_policy =
  lp_threshold :: nat
  lp_window_seconds :: int

record lockout_state =
  ls_locked :: bool
  ls_retries_left :: nat

text \<open>The script \<open>INCREMENT\<close>: a count that starts its window with the first failure.\<close>

definition failures :: "date \<Rightarrow> string \<Rightarrow> authn_state \<Rightarrow> nat" where
  "failures now key st = (case live now (st_lockouts st key) of Some n \<Rightarrow> n | None \<Rightarrow> 0)"

definition register_failure :: "bool \<Rightarrow> date \<Rightarrow> string \<Rightarrow> lockout_policy \<Rightarrow> authn_state \<Rightarrow> lockout_state \<times> authn_state" where
  "register_failure up now key policy st =
     (if \<not> up then (\<lparr>ls_locked = False, ls_retries_left = lp_threshold policy\<rparr>, st)
      else let n = failures now key st + 1;
               until = (if n = 1 then now + lp_window_seconds policy * 1000 else snd (the (st_lockouts st key))) in
        (\<lparr>ls_locked = (lp_threshold policy \<le> n), ls_retries_left = lp_threshold policy - n\<rparr>,
         st\<lparr>st_lockouts := (st_lockouts st)(key \<mapsto> (n, until))\<rparr>))"

definition is_locked :: "bool \<Rightarrow> date \<Rightarrow> string \<Rightarrow> lockout_policy \<Rightarrow> authn_state \<Rightarrow> bool" where
  "is_locked up now key policy st = (up \<and> lp_threshold policy \<le> failures now key st)"

definition reset_lockout :: "bool \<Rightarrow> string \<Rightarrow> authn_state \<Rightarrow> authn_state" where
  "reset_lockout up key st = (if up then st\<lparr>st_lockouts := (st_lockouts st)(key := None)\<rparr> else st)"

definition grace_get :: "bool \<Rightarrow> date \<Rightarrow> string \<Rightarrow> authn_state \<Rightarrow> grace_pair option" where
  "grace_get up now h st = (if up then live now (st_grace st h) else None)"

definition grace_put :: "bool \<Rightarrow> date \<Rightarrow> string \<Rightarrow> grace_pair \<Rightarrow> int \<Rightarrow> authn_state \<Rightarrow> authn_state" where
  "grace_put up now h pair ttl_seconds st =
     (if ttl_seconds \<le> 0 \<or> \<not> up then st
      else st\<lparr>st_grace := (st_grace st)(h \<mapsto> (pair, now + ttl_seconds * 1000))\<rparr>)"

end
