(* ===== verification/Refresh.thy ===== *)
theory Refresh
  imports Sessions Dates
begin

text \<open>
  The life of a session: \<open>SessionTerminator\<close>, \<open>RefreshHandler\<close>, \<open>RevokeSessionHandler\<close> and
  \<open>ListSessionsHandler\<close> (apps/api/src/authn/application), and the histories of the three tables under
  concurrent requests.

  A refresh reads first and writes later: \<open>old\<close> is the state its reads see, \<open>st\<close> the one its writes
  start from, and \<open>moments\<close> are the states at the attempts to read the grace cache. The issuer of
  access tokens, \<open>issue\<close>, and the hash of a token, \<open>digest\<close>, are arguments.
\<close>

section \<open>Terminating sessions\<close>

definition sid_subject :: "string \<Rightarrow> string" where
  "sid_subject sid = ''sid:'' @ sid"

definition terminate_one :: "string \<Rightarrow> bool \<Rightarrow> int \<Rightarrow> date \<Rightarrow> string \<Rightarrow> authn_state \<Rightarrow> authn_state" where
  "terminate_one reason up ttl now sid st =
     revoke_subject up now (sid_subject sid) ttl
       (revoke_session (SessionId sid) now (revoke_by_session (SessionId sid) reason now st))"

definition terminate_session :: "bool \<Rightarrow> int \<Rightarrow> date \<Rightarrow> string \<Rightarrow> authn_state \<Rightarrow> authn_state" where
  "terminate_session up ttl now sid st = terminate_one ''logout'' up ttl now sid st"

definition terminate_session_by_id :: "bool \<Rightarrow> int \<Rightarrow> date \<Rightarrow> string \<Rightarrow> authn_state \<Rightarrow> authn_state" where
  "terminate_session_by_id up ttl now sid st = terminate_one ''session_revoked'' up ttl now sid st"

definition terminate_all_for_user :: "bool \<Rightarrow> int \<Rightarrow> date \<Rightarrow> user_id \<Rightarrow> authn_state \<Rightarrow> authn_state" where
  "terminate_all_for_user up ttl now u st =
     (let (sids, st1) = revoke_all_sessions u now (revoke_all_families u ''logout_all'' now st) in
      foldl (\<lambda>st sid. revoke_subject up now (sid_subject sid) ttl st) st1 sids)"

section \<open>Listing and revoking the caller's sessions\<close>

record session_view =
  view_id :: string
  view_device_label :: "string option"
  view_user_agent :: "string option"
  view_ip :: "string option"
  view_created :: string
  view_last_seen :: string
  view_current :: bool

definition list_sessions :: "string \<Rightarrow> string \<Rightarrow> authn_state \<Rightarrow> session_view list" where
  "list_sessions u current st =
     map (\<lambda>s. \<lparr>view_id = sid_value (ses_id s), view_device_label = ses_device_label s, view_user_agent = ses_user_agent s,
         view_ip = ses_ip s, view_created = to_iso_string (ses_created s), view_last_seen = to_iso_string (ses_last_seen s),
         view_current = (sid_value (ses_id s) = current)\<rparr>)
       (list_active_sessions (UserId u) st)"

text \<open>The pattern \<open>UUID\<close>: hexadecimal groups of 8, 4, 4, 4 and 12.\<close>

definition is_uuid :: "string \<Rightarrow> bool" where
  "is_uuid s = (map length (split_on (CHR ''-'') s) = [8, 4, 4, 4, 12] \<and>
     list_all (list_all is_hex) (split_on (CHR ''-'') s))"

datatype revoke_session_error = SessionNotFound

definition revoke_session_handler :: "bool \<Rightarrow> int \<Rightarrow> date \<Rightarrow> string \<Rightarrow> string \<Rightarrow> authn_state \<Rightarrow>
    (unit, revoke_session_error) result \<times> authn_state" where
  "revoke_session_handler up ttl now caller sid st =
     (if \<not> is_uuid sid then (err SessionNotFound, st)
      else case find_session (SessionId sid) st of
        None \<Rightarrow> (err SessionNotFound, st)
      | Some s \<Rightarrow> if user_value (ses_user s) \<noteq> caller then (err SessionNotFound, st)
                else (ok (), terminate_session_by_id up ttl now sid st))"

section \<open>Refreshing\<close>

record refresh_config =
  grace_seconds :: int
  access_ttl_seconds :: int

record refresh_result =
  rr_access_token :: string
  rr_refresh_token :: string
  rr_expires_in :: int

datatype refresh_error = RefreshInvalid | RefreshReuse

definition race_retries :: nat where
  "race_retries = 6"

definition refresh_lookup :: "string \<Rightarrow> date \<Rightarrow> authn_state \<Rightarrow>
    (refresh_token \<times> token_family \<times> session, refresh_error) result" where
  "refresh_lookup hash now old =
     (case find_refresh_by_hash hash old of
        None \<Rightarrow> err RefreshInvalid
      | Some t \<Rightarrow>
          if rt_expires t \<le> now then err RefreshInvalid
          else case find_family (rt_family t) old of
            None \<Rightarrow> err RefreshInvalid
          | Some f \<Rightarrow>
              if fam_status f \<noteq> FamilyActive then err RefreshInvalid
              else case find_session (fam_session f) old of
                None \<Rightarrow> err RefreshInvalid
              | Some s \<Rightarrow>
                  if ses_status s \<noteq> SessionActive \<or> ses_expires s \<le> now then err RefreshInvalid
                  else ok (t, f, s))"

fun replay_from_grace :: "bool \<Rightarrow> refresh_token \<Rightarrow> string \<Rightarrow> (date \<times> authn_state) list \<Rightarrow> refresh_result option" where
  "replay_from_grace up t hash [] = None"
| "replay_from_grace up t hash ((now, st) # moments) =
     (case grace_get up now hash st of
        Some cached \<Rightarrow>
          (case find_active_by_family (rt_family t) st of
             Some active \<Rightarrow>
               if rt_generation active = gp_successor_generation cached
               then Some \<lparr>rr_access_token = gp_access_token cached, rr_refresh_token = gp_refresh_token cached,
                      rr_expires_in = gp_expires_in cached\<rparr>
               else None
           | None \<Rightarrow> None)
      | None \<Rightarrow> replay_from_grace up t hash moments)"

definition successor_of :: "refresh_token \<Rightarrow> session \<Rightarrow> string \<Rightarrow> string \<Rightarrow> date \<Rightarrow> refresh_token" where
  "successor_of t s uuid new_hash now = \<lparr>rt_id = uuid, rt_family = rt_family t, rt_hash = new_hash,
     rt_generation = rt_generation t + 1, rt_status = TokenActive, rt_created = now, rt_expires = ses_expires s,
     rt_consumed = None\<rparr>"

definition refresh_claims :: "token_family \<Rightarrow> session \<Rightarrow> access_token_claims" where
  "refresh_claims f s = \<lparr>claim_sub = user_value (fam_user f), claim_sid = sid_value (ses_id s),
     claim_org = map_option org_value (ses_org s), claim_aal = ses_aal s, claim_auth_time = ses_auth_time s\<rparr>"

definition try_rotate :: "refresh_config \<Rightarrow> bool \<Rightarrow> (access_token_claims \<Rightarrow> issued_access_token throws) \<Rightarrow>
    (string \<Rightarrow> string) \<Rightarrow> string \<Rightarrow> string \<Rightarrow> refresh_token \<Rightarrow> token_family \<Rightarrow> session \<Rightarrow> string \<Rightarrow> date \<Rightarrow>
    (date \<times> authn_state) list \<Rightarrow> authn_state \<Rightarrow> refresh_result option throws \<times> authn_state" where
  "try_rotate cfg up issue digest uuid new_raw t f s hash now moments st =
     (let successor = successor_of t s uuid (digest new_raw) now in
      case issue (refresh_claims f s) of
        Inl e \<Rightarrow> (Inl e, st)
      | Inr access \<Rightarrow>
          (case rotate_refresh (rt_id t) successor now st of
             (Inl e, st1) \<Rightarrow> (Inl e, st1)
           | (Inr False, st1) \<Rightarrow> (Inr (replay_from_grace up t hash (take race_retries moments)), st1)
           | (Inr True, st1) \<Rightarrow>
               (Inr (Some \<lparr>rr_access_token = iss_token access, rr_refresh_token = new_raw, rr_expires_in = iss_expires_in access\<rparr>),
                grace_put up now hash \<lparr>gp_access_token = iss_token access, gp_refresh_token = new_raw,
                    gp_expires_in = iss_expires_in access, gp_successor_generation = rt_generation successor\<rparr>
                  (grace_seconds cfg) (touch_session (ses_id s) now st1))))"

definition handle_reuse :: "refresh_config \<Rightarrow> bool \<Rightarrow> refresh_token \<Rightarrow> token_family \<Rightarrow> session \<Rightarrow> date \<Rightarrow> authn_state \<Rightarrow> authn_state" where
  "handle_reuse cfg up t f s now st =
     revoke_subject up now (sid_subject (sid_value (ses_id s))) (access_ttl_seconds cfg)
       (revoke_session (ses_id s) now
         (revoke_for_reuse (fam_id f) now \<lparr>reuse_user = user_value (fam_user f), reuse_session = sid_value (fam_session f),
             reuse_generation = rt_generation t\<rparr> st))"

definition refresh_execute :: "refresh_config \<Rightarrow> bool \<Rightarrow> (access_token_claims \<Rightarrow> issued_access_token throws) \<Rightarrow>
    (string \<Rightarrow> string) \<Rightarrow> string \<Rightarrow> string \<Rightarrow> date \<Rightarrow> string \<Rightarrow> authn_state \<Rightarrow> (date \<times> authn_state) list \<Rightarrow> authn_state \<Rightarrow>
    (refresh_result, refresh_error) result throws \<times> authn_state" where
  "refresh_execute cfg up issue digest uuid new_raw now raw old moments st =
     (let hash = digest raw in
      case refresh_lookup hash now old of
        Inl e \<Rightarrow> (Inr (err e), st)
      | Inr (t, f, s) \<Rightarrow>
          (let (outcome, st1) =
             (if rt_status t = TokenActive then try_rotate cfg up issue digest uuid new_raw t f s hash now moments st
              else (Inr (replay_from_grace up t hash (take 1 moments)), st)) in
           case outcome of
             Inl e \<Rightarrow> (Inl e, st1)
           | Inr (Some r) \<Rightarrow> (Inr (ok r), st1)
           | Inr None \<Rightarrow> (Inr (err RefreshReuse), handle_reuse cfg up t f s now st1)))"

end
