(* ===== verification/Guards.thy ===== *)
theory Guards
  imports Refresh
begin

text \<open>
  The guards in front of the endpoints: \<open>AccessTokenGuard\<close> and \<open>StepUpGuard\<close> of
  apps/api/src/authn/interface, with the string operations of JavaScript they and the forms use. A guard
  answers the claims it stores in the request, or the problem document of the exception it throws.
\<close>

section \<open>Strings\<close>

text \<open>White space of \<open>trim\<close> and of \<open>\s\<close>, of the characters up to 255.\<close>

definition is_space :: "char \<Rightarrow> bool" where
  "is_space c \<longleftrightarrow> c \<in> {CHR 0x09, CHR 0x0A, CHR 0x0B, CHR 0x0C, CHR 0x0D, CHR 0x20, CHR 0xA0}"

definition js_trim :: "string \<Rightarrow> string" where
  "js_trim s = rev (dropWhile is_space (rev (dropWhile is_space s)))"

definition lower_char :: "char \<Rightarrow> char" where
  "lower_char c =
     (let n = of_char c :: nat in
      if 65 \<le> n \<and> n \<le> 90 \<or> 192 \<le> n \<and> n \<le> 222 \<and> n \<noteq> 215 then char_of (n + 32) else c)"

definition to_lower :: "string \<Rightarrow> string" where
  "to_lower s = map lower_char s"

lemma js_trim_plain: "s \<noteq> [] \<Longrightarrow> \<not> is_space (hd s) \<Longrightarrow> \<not> is_space (last s) \<Longrightarrow> js_trim s = s"
proof -
  assume s: "s \<noteq> []" "\<not> is_space (hd s)" "\<not> is_space (last s)"
  have "dropWhile is_space s = s" using s by (cases s) auto
  moreover have "dropWhile is_space (rev s) = rev s" using s by (cases s rule: rev_cases) auto
  ultimately show ?thesis by (simp add: js_trim_def)
qed

section \<open>Problem documents\<close>

record problem =
  pb_title :: string
  pb_status :: nat
  pb_detail :: "string option"

definition unauthorized :: problem where
  "unauthorized = \<lparr>pb_title = ''Unauthorized'', pb_status = 401, pb_detail = None\<rparr>"

definition step_up_required :: problem where
  "step_up_required = \<lparr>pb_title = ''Step-up required'', pb_status = 403, pb_detail = Some ''step_up_required''\<rparr>"

section \<open>The access-token guard\<close>

record auth_token_claims =
  tok_sub :: string
  tok_sid :: string
  tok_org :: "string option"
  tok_jti :: string
  tok_aal :: int
  tok_exp :: int

definition bearer :: string where
  "bearer = ''Bearer ''"

definition starts_with :: "string \<Rightarrow> string \<Rightarrow> bool" where
  "starts_with p s \<longleftrightarrow> take (length p) s = p"

text \<open>The claims by their \<open>typeof\<close>; an organization or level of another type is taken as absent.\<close>

definition read_claims :: "json \<Rightarrow> auth_token_claims option" where
  "read_claims payload =
     (case (claim ''sub'' payload, claim ''sid'' payload, claim ''jti'' payload, claim ''exp'' payload) of
        (JString sub, JString sid, JString jti, JNumber expiry) \<Rightarrow>
          Some \<lparr>tok_sub = sub, tok_sid = sid,
            tok_org = (case claim ''org'' payload of JString org \<Rightarrow> Some org | _ \<Rightarrow> None), tok_jti = jti,
            tok_aal = (case claim ''aal'' payload of JNumber aal \<Rightarrow> aal | _ \<Rightarrow> 0), tok_exp = expiry\<rparr>
      | _ \<Rightarrow> None)"

definition access_token_guard :: "jwt_platform \<Rightarrow> verifier_config \<Rightarrow> public_key list \<Rightarrow> date \<Rightarrow> string option \<Rightarrow>
    jwks_cache option \<Rightarrow> bool \<Rightarrow> authn_state \<Rightarrow> (auth_token_claims, problem) result throws \<times> jwks_cache option" where
  "access_token_guard p cfg keys now header cache up st =
     (case header of
        None \<Rightarrow> (Inr (err unauthorized), cache)
      | Some h \<Rightarrow>
          if \<not> starts_with bearer h then (Inr (err unauthorized), cache)
          else case verify_token p cfg keys now (js_trim (drop (length bearer) h)) cache of
            (Inl e, cache') \<Rightarrow> (Inl e, cache')
          | (Inr (Inl _), cache') \<Rightarrow> (Inr (err unauthorized), cache')
          | (Inr (Inr payload), cache') \<Rightarrow>
              (case read_claims payload of
                 None \<Rightarrow> (Inr (err unauthorized), cache')
               | Some claims \<Rightarrow>
                   if is_revoked up now (sid_subject (tok_sid claims)) st then (Inr (err unauthorized), cache')
                   else (Inr (ok claims), cache')))"

section \<open>The step-up guard\<close>

definition min_aal :: int where
  "min_aal = 2"

definition step_up_guard :: "auth_token_claims option \<Rightarrow> problem option" where
  "step_up_guard claims =
     (if (case claims of Some c \<Rightarrow> tok_aal c | None \<Rightarrow> 0) < min_aal then Some step_up_required else None)"

section \<open>What passes\<close>

lemma access_token_guard_okD:
  assumes "access_token_guard p cfg keys now header cache up st = (Inr (ok claims), cache')"
  shows "\<exists>token payload. header = Some (bearer @ token) \<and>
     verify_token p cfg keys now (js_trim token) cache = (Inr (ok payload), cache') \<and>
     read_claims payload = Some claims \<and> up \<and> \<not> is_revoked up now (sid_subject (tok_sid claims)) st"
proof -
  obtain h where h: "header = Some h" "starts_with bearer h"
    using assms by (auto simp: access_token_guard_def split: option.splits if_splits)
  have split: "h = bearer @ drop (length bearer) h"
    using h(2) append_take_drop_id[of "length bearer" h] by (simp add: starts_with_def)
  obtain payload where v: "verify_token p cfg keys now (js_trim (drop (length bearer) h)) cache = (Inr (ok payload), cache')"
    and c: "read_claims payload = Some claims" "\<not> is_revoked up now (sid_subject (tok_sid claims)) st"
    using assms h by (auto simp: access_token_guard_def split: prod.splits sum.splits option.splits if_splits)
  then show ?thesis
    using h(1) split by (intro exI[of _ "drop (length bearer) h"] exI[of _ payload]) (auto simp: is_revoked_def)
qed

lemma issued_claims_read:
  "read_claims (JObject (token_payload cfg jti now claims)) = Some \<lparr>tok_sub = claim_sub claims, tok_sid = claim_sid claims,
     tok_org = (case claim_org claims of Some s \<Rightarrow> if s = [] then None else Some s | None \<Rightarrow> None),
     tok_jti = jti, tok_aal = int (claim_aal claims), tok_exp = now div 1000 + at_ttl_seconds cfg\<rparr>"
proof -
  have "claim ''org'' (JObject (token_payload cfg jti now claims)) =
      (case claim_org claims of Some s \<Rightarrow> if s = [] then JUndefined else JString s | None \<Rightarrow> JUndefined)"
    by (auto simp: claim_object token_payload_def org_claim_def Let_def split: option.splits)
  then show ?thesis by (simp add: read_claims_def token_payload_claims split: option.splits)
qed

text \<open>The answer to an issued token, for any state of the revocation store.\<close>

lemma issued_token_guarded:
  assumes "issue_token p cfg active sign jti now claims = Inr t"
    and "vc_issuer vcfg = at_issuer cfg" "vc_audience vcfg = at_audience cfg"
    and "decodable_token p cfg \<lparr>is_kid = key_kid active, is_jti = jti, is_at = now, is_claims = claims\<rparr>"
    and "kid_resolvable keys later (key_kid active) cache k" "jwk_alg k = ''EdDSA''"
    and "\<forall>text_to_sign. ed_verify p (jwk_x k) text_to_sign (sig_value (sign text_to_sign (key_version active))) \<and>
      CHR ''.'' \<notin> set (sig_value (sign text_to_sign (key_version active)))"
    and "now div 1000 - vc_clock_skew vcfg \<le> later div 1000" "js_trim (iss_token t) = iss_token t"
  shows "fst (access_token_guard p vcfg keys later (Some (bearer @ iss_token t)) cache up st) =
    (if later div 1000 < now div 1000 + at_ttl_seconds cfg + vc_clock_skew vcfg \<and>
        \<not> is_revoked up later (sid_subject (claim_sid claims)) st
     then Inr (ok (the (read_claims (JObject (token_payload cfg jti now claims))))) else Inr (err unauthorized))"
proof -
  have answer: "fst (verify_token p vcfg keys later (iss_token t) cache) =
    (if later div 1000 < now div 1000 + at_ttl_seconds cfg + vc_clock_skew vcfg
     then Inr (ok (JObject (token_payload cfg jti now claims))) else Inr (err Expired))"
    by (rule issued_token_answer[OF assms(1-8)])
  obtain cache' where "verify_token p vcfg keys later (iss_token t) cache =
      (fst (verify_token p vcfg keys later (iss_token t) cache), cache')" by (metis prod.collapse)
  with answer show ?thesis
    by (simp add: access_token_guard_def starts_with_def assms(9) issued_claims_read)
qed

end
