(* ===== verification/Identity.thy ===== *)
theory Identity
  imports Guards
begin

text \<open>
  The accounts of apps/api/src/identity: users, the single-use tokens for email verification and
  password reset, their Drizzle repositories, and the handlers that register an account, verify its
  email and reset its password.

  A handler reads first and writes later, so it takes the state its reads see, \<open>old\<close>, and the one its
  writes start from, \<open>st\<close>. Random identifiers and tokens, the encoded hash of a new password and the hash
  of a token come from Node and argon2 and are arguments.
\<close>

section \<open>Value objects\<close>

datatype email_error = InvalidEmail

text \<open>The pattern of an address: one \<open>@\<close>, no white space, and a dot inside the domain.\<close>

definition email_pattern :: "string \<Rightarrow> bool" where
  "email_pattern s =
     (list_all (\<lambda>c. \<not> is_space c) s \<and>
      (case split_on (CHR ''@'') s of
         [name, domain] \<Rightarrow> name \<noteq> [] \<and> CHR ''.'' \<in> set (butlast (tl domain))
       | _ \<Rightarrow> False))"

definition email_create :: "string \<Rightarrow> (string, email_error) result" where
  "email_create input =
     (let normalized = to_lower (js_trim input) in
      if length normalized > 254 \<or> \<not> email_pattern normalized then err InvalidEmail else ok normalized)"

datatype password_error = TooShort | TooLong

definition password_create :: "string \<Rightarrow> (string, password_error) result" where
  "password_create input =
     (if length input < 8 then err TooShort else if length input > 128 then err TooLong else ok input)"

section \<open>Users\<close>

datatype user_status = PendingVerification | UserActive | UserSuspended

record user =
  usr_id :: user_id
  usr_email :: string
  usr_password :: string
  usr_status :: user_status
  usr_verified_at :: "date option"
  usr_created :: date
  usr_updated :: date

record domain_event =
  de_type :: string
  de_occurred :: date
  de_aggregate :: string
  de_payload :: "(string \<times> json) list"

text \<open>An operation of \<open>User\<close> answers the changed user and the events it records.\<close>

definition user_register :: "user_id \<Rightarrow> string \<Rightarrow> string \<Rightarrow> date \<Rightarrow> user \<times> domain_event list" where
  "user_register i email encoded now =
     (\<lparr>usr_id = i, usr_email = email, usr_password = encoded, usr_status = PendingVerification, usr_verified_at = None,
        usr_created = now, usr_updated = now\<rparr>,
      [\<lparr>de_type = ''identity.user_registered'', de_occurred = now, de_aggregate = user_value i,
         de_payload = [(''email'', JString email)]\<rparr>])"

definition user_verify_email :: "date \<Rightarrow> user \<Rightarrow> user \<times> domain_event list" where
  "user_verify_email now u =
     (if usr_status u = UserActive then (u, [])
      else (u\<lparr>usr_status := UserActive, usr_verified_at := Some now, usr_updated := now\<rparr>,
        [\<lparr>de_type = ''identity.email_verified'', de_occurred = now, de_aggregate = user_value (usr_id u), de_payload = []\<rparr>]))"

definition user_change_password :: "string \<Rightarrow> date \<Rightarrow> user \<Rightarrow> user \<times> domain_event list" where
  "user_change_password encoded now u =
     (u\<lparr>usr_password := encoded, usr_updated := now\<rparr>,
      [\<lparr>de_type = ''identity.password_changed'', de_occurred = now, de_aggregate = user_value (usr_id u), de_payload = []\<rparr>])"

section \<open>Single-use tokens\<close>

text \<open>The rows of \<open>email_verification_tokens\<close> and of \<open>password_reset_tokens\<close> have the same columns.\<close>

record one_time_token =
  ot_id :: string
  ot_user :: user_id
  ot_hash :: string
  ot_expires :: date
  ot_consumed :: "date option"
  ot_created :: date

definition verification_token_issue :: "string \<Rightarrow> user_id \<Rightarrow> string \<Rightarrow> date \<Rightarrow> int \<Rightarrow> one_time_token" where
  "verification_token_issue i u h now ttl_minutes = \<lparr>ot_id = i, ot_user = u, ot_hash = h,
     ot_expires = now + ttl_minutes * 60000, ot_consumed = None, ot_created = now\<rparr>"

definition verification_token_expired :: "date \<Rightarrow> one_time_token \<Rightarrow> bool" where
  "verification_token_expired now t = (ot_expires t \<le> now)"

definition verification_token_consumed :: "one_time_token \<Rightarrow> bool" where
  "verification_token_consumed t = (ot_consumed t \<noteq> None)"

definition verification_token_consume :: "date \<Rightarrow> one_time_token \<Rightarrow> one_time_token" where
  "verification_token_consume now t = t\<lparr>ot_consumed := Some now\<rparr>"

definition reset_token_issue :: "string \<Rightarrow> user_id \<Rightarrow> string \<Rightarrow> date \<Rightarrow> int \<Rightarrow> one_time_token" where
  "reset_token_issue i u h now ttl_minutes = \<lparr>ot_id = i, ot_user = u, ot_hash = h,
     ot_expires = now + ttl_minutes * 60000, ot_consumed = None, ot_created = now\<rparr>"

definition reset_token_expired :: "date \<Rightarrow> one_time_token \<Rightarrow> bool" where
  "reset_token_expired now t = (ot_expires t \<le> now)"

definition reset_token_consumed :: "one_time_token \<Rightarrow> bool" where
  "reset_token_consumed t = (ot_consumed t \<noteq> None)"

definition reset_token_consume :: "date \<Rightarrow> one_time_token \<Rightarrow> one_time_token" where
  "reset_token_consume now t = t\<lparr>ot_consumed := Some now\<rparr>"

section \<open>Tables\<close>

datatype mail = VerificationMail string string | ResetMail string string

record identity_state =
  id_users :: "user list"
  id_outbox :: "domain_event list"
  id_verifications :: "one_time_token list"
  id_resets :: "one_time_token list"
  id_mails :: "mail list"

definition empty_identity :: identity_state where
  "empty_identity = \<lparr>id_users = [], id_outbox = [], id_verifications = [], id_resets = [], id_mails = []\<rparr>"

text \<open>One transaction: the user is inserted or, when its id is present, its mutable columns are written; an
  address in use by another user breaks the unique index. The events go to the outbox.\<close>

definition save_user :: "user \<times> domain_event list \<Rightarrow> identity_state \<Rightarrow> unit throws \<times> identity_state" where
  "save_user changed st =
     (let (u, events) = changed in
      if usr_id u \<in> usr_id ` set (id_users st)
      then (Inr (), st\<lparr>id_users := update_where (\<lambda>r. usr_id r = usr_id u)
             (\<lambda>r. r\<lparr>usr_status := usr_status u, usr_password := usr_password u, usr_verified_at := usr_verified_at u,
                usr_updated := usr_updated u\<rparr>) (id_users st),
           id_outbox := id_outbox st @ events\<rparr>)
      else if usr_email u \<in> usr_email ` set (id_users st) then (Inl (Error ''duplicate key''), st)
      else (Inr (), st\<lparr>id_users := id_users st @ [u], id_outbox := id_outbox st @ events\<rparr>))"

definition find_user_by_email :: "string \<Rightarrow> identity_state \<Rightarrow> user option" where
  "find_user_by_email email st = find (\<lambda>u. usr_email u = email) (id_users st)"

definition find_user_by_id :: "user_id \<Rightarrow> identity_state \<Rightarrow> user option" where
  "find_user_by_id i st = find (\<lambda>u. usr_id u = i) (id_users st)"

definition token_free :: "one_time_token \<Rightarrow> one_time_token list \<Rightarrow> bool" where
  "token_free t ts \<longleftrightarrow> ot_id t \<notin> ot_id ` set ts \<and> ot_hash t \<notin> ot_hash ` set ts"

definition save_verification :: "one_time_token \<Rightarrow> identity_state \<Rightarrow> unit throws \<times> identity_state" where
  "save_verification t st =
     (if token_free t (id_verifications st) then (Inr (), st\<lparr>id_verifications := id_verifications st @ [t]\<rparr>)
      else (Inl (Error ''duplicate key''), st))"

definition find_verification :: "string \<Rightarrow> identity_state \<Rightarrow> one_time_token option" where
  "find_verification h st = find (\<lambda>t. ot_hash t = h) (id_verifications st)"

definition consume_verification :: "one_time_token \<Rightarrow> identity_state \<Rightarrow> identity_state" where
  "consume_verification t st = st\<lparr>id_verifications :=
     update_where (\<lambda>r. ot_id r = ot_id t) (\<lambda>r. r\<lparr>ot_consumed := ot_consumed t\<rparr>) (id_verifications st)\<rparr>"

definition save_reset :: "one_time_token \<Rightarrow> identity_state \<Rightarrow> unit throws \<times> identity_state" where
  "save_reset t st =
     (if token_free t (id_resets st) then (Inr (), st\<lparr>id_resets := id_resets st @ [t]\<rparr>)
      else (Inl (Error ''duplicate key''), st))"

definition find_reset :: "string \<Rightarrow> identity_state \<Rightarrow> one_time_token option" where
  "find_reset h st = find (\<lambda>t. ot_hash t = h) (id_resets st)"

definition consume_reset :: "one_time_token \<Rightarrow> identity_state \<Rightarrow> identity_state" where
  "consume_reset t st = st\<lparr>id_resets :=
     update_where (\<lambda>r. ot_id r = ot_id t) (\<lambda>r. r\<lparr>ot_consumed := ot_consumed t\<rparr>) (id_resets st)\<rparr>"

definition send_mail :: "mail \<Rightarrow> identity_state \<Rightarrow> identity_state" where
  "send_mail msg st = st\<lparr>id_mails := id_mails st @ [msg]\<rparr>"

section \<open>Registering\<close>

datatype register_error = RegisterInvalidEmail | RegisterInvalidPassword

definition verification_ttl_minutes :: int where
  "verification_ttl_minutes = 60"

record generated_token =
  gen_raw :: string
  gen_hash :: string

record registration =
  reg_user_id :: user_id
  reg_encoded :: string
  reg_token_id :: string
  reg_token :: generated_token

definition register_user :: "registration \<Rightarrow> date \<Rightarrow> string \<Rightarrow> string \<Rightarrow> identity_state \<Rightarrow> identity_state \<Rightarrow>
    (unit, register_error) result throws \<times> identity_state" where
  "register_user fresh now raw_email raw_password old st =
     (case email_create raw_email of
        Inl _ \<Rightarrow> (Inr (err RegisterInvalidEmail), st)
      | Inr email \<Rightarrow>
          (case password_create raw_password of
             Inl _ \<Rightarrow> (Inr (err RegisterInvalidPassword), st)
           | Inr _ \<Rightarrow>
               (case find_user_by_email email old of
                  Some _ \<Rightarrow> (Inr (ok ()), st)
                | None \<Rightarrow>
                    (case save_user (user_register (reg_user_id fresh) email (reg_encoded fresh) now) st of
                       (Inl e, st1) \<Rightarrow> (Inl e, st1)
                     | (Inr _, st1) \<Rightarrow>
                         (case save_verification (verification_token_issue (reg_token_id fresh) (reg_user_id fresh)
                             (gen_hash (reg_token fresh)) now verification_ttl_minutes) st1 of
                            (Inl e, st2) \<Rightarrow> (Inl e, st2)
                          | (Inr _, st2) \<Rightarrow>
                              (Inr (ok ()), send_mail (VerificationMail email (gen_raw (reg_token fresh))) st2))))))"

section \<open>Verifying the address\<close>

datatype verify_email_error = VerificationInvalid

definition verify_email :: "(string \<Rightarrow> string) \<Rightarrow> date \<Rightarrow> string \<Rightarrow> identity_state \<Rightarrow> identity_state \<Rightarrow>
    (unit, verify_email_error) result throws \<times> identity_state" where
  "verify_email digest now raw old st =
     (case find_verification (digest raw) old of
        None \<Rightarrow> (Inr (err VerificationInvalid), st)
      | Some t \<Rightarrow>
          if verification_token_consumed t \<or> verification_token_expired now t then (Inr (err VerificationInvalid), st)
          else case find_user_by_id (ot_user t) old of
            None \<Rightarrow> (Inr (err VerificationInvalid), st)
          | Some u \<Rightarrow>
              (case save_user (user_verify_email now u) st of
                 (Inl e, st1) \<Rightarrow> (Inl e, st1)
               | (Inr _, st1) \<Rightarrow> (Inr (ok ()), consume_verification (verification_token_consume now t) st1)))"

section \<open>Resetting the password\<close>

definition reset_ttl_minutes :: int where
  "reset_ttl_minutes = 15"

definition request_password_reset :: "string \<Rightarrow> generated_token \<Rightarrow> date \<Rightarrow> string \<Rightarrow> identity_state \<Rightarrow> identity_state \<Rightarrow>
    unit throws \<times> identity_state" where
  "request_password_reset token_id generated now raw_email old st =
     (case email_create raw_email of
        Inl _ \<Rightarrow> (Inr (), st)
      | Inr email \<Rightarrow>
          (case find_user_by_email email old of
             None \<Rightarrow> (Inr (), st)
           | Some u \<Rightarrow>
               if usr_status u \<noteq> UserActive then (Inr (), st)
               else case save_reset (reset_token_issue token_id (usr_id u) (gen_hash generated) now reset_ttl_minutes) st of
                 (Inl e, st1) \<Rightarrow> (Inl e, st1)
               | (Inr _, st1) \<Rightarrow> (Inr (), send_mail (ResetMail email (gen_raw generated)) st1)))"

datatype reset_error = ResetInvalidPassword | ResetInvalidToken

text \<open>The sessions are ended last, by \<open>AuthnSessionRevoker\<close>, in the tables of authn.\<close>

definition reset_password :: "(string \<Rightarrow> string) \<Rightarrow> string \<Rightarrow> bool \<Rightarrow> int \<Rightarrow> date \<Rightarrow> string \<Rightarrow> string \<Rightarrow> identity_state \<Rightarrow>
    identity_state \<Rightarrow> authn_state \<Rightarrow> (unit, reset_error) result throws \<times> identity_state \<times> authn_state" where
  "reset_password digest encoded up ttl now raw raw_password old st sessions =
     (case password_create raw_password of
        Inl _ \<Rightarrow> (Inr (err ResetInvalidPassword), st, sessions)
      | Inr _ \<Rightarrow>
          (case find_reset (digest raw) old of
             None \<Rightarrow> (Inr (err ResetInvalidToken), st, sessions)
           | Some t \<Rightarrow>
               if reset_token_consumed t \<or> reset_token_expired now t then (Inr (err ResetInvalidToken), st, sessions)
               else case find_user_by_id (ot_user t) old of
                 None \<Rightarrow> (Inr (err ResetInvalidToken), st, sessions)
               | Some u \<Rightarrow>
                   (case save_user (user_change_password encoded now u) st of
                      (Inl e, st1) \<Rightarrow> (Inl e, st1, sessions)
                    | (Inr _, st1) \<Rightarrow>
                        (Inr (ok ()), consume_reset (reset_token_consume now t) st1,
                         terminate_all_for_user up ttl now (usr_id u) sessions))))"

section \<open>The demonstration account\<close>

record demo_resolution =
  demo_user :: "string option"
  demo_resolved_at :: date

definition resolution_ttl_ms :: int where
  "resolution_ttl_ms = 60000"

definition demo_user_id :: "date \<Rightarrow> string \<Rightarrow> identity_state \<Rightarrow> demo_resolution option \<Rightarrow> demo_resolution" where
  "demo_user_id now address st cached =
     (case cached of
        Some r \<Rightarrow> if now - demo_resolved_at r < resolution_ttl_ms then r
          else \<lparr>demo_user = (case email_create address of
                 Inr email \<Rightarrow> map_option (user_value \<circ> usr_id) (find_user_by_email email st) | Inl _ \<Rightarrow> None), demo_resolved_at = now\<rparr>
      | None \<Rightarrow> \<lparr>demo_user = (case email_create address of
                 Inr email \<Rightarrow> map_option (user_value \<circ> usr_id) (find_user_by_email email st) | Inl _ \<Rightarrow> None), demo_resolved_at = now\<rparr>)"

definition is_demo_account :: "string option \<Rightarrow> date \<Rightarrow> string \<Rightarrow> identity_state \<Rightarrow> demo_resolution option \<Rightarrow>
    bool \<times> demo_resolution option" where
  "is_demo_account demo_email now u st cached =
     (case demo_email of
        None \<Rightarrow> (False, cached)
      | Some address \<Rightarrow>
          if address = [] then (False, cached)
          else let r = demo_user_id now address st cached in (demo_user r = Some u, Some r))"

definition demo_restricted :: problem where
  "demo_restricted = \<lparr>pb_title = ''Not available on the shared demo account'', pb_status = 403,
     pb_detail = Some ''demo_account_restricted''\<rparr>"

definition demo_account_guard :: "string option \<Rightarrow> date \<Rightarrow> auth_token_claims option \<Rightarrow> identity_state \<Rightarrow>
    demo_resolution option \<Rightarrow> problem option \<times> demo_resolution option" where
  "demo_account_guard demo_email now claims st cached =
     (case claims of
        None \<Rightarrow> (None, cached)
      | Some c \<Rightarrow>
          if tok_sub c = [] then (None, cached)
          else let (demo, cached') = is_demo_account demo_email now (tok_sub c) st cached in
            (if demo then Some demo_restricted else None, cached'))"

end
