(* ===== verification/Totp.thy ===== *)
theory Totp
  imports Guards Dates "HOL-Library.Word"
begin

unbundle bit_operations_syntax

text \<open>
  One-time codes: \<open>Rfc6238Totp\<close> (identity/infrastructure/crypto), \<open>TotpSecret\<close> with its Base32 form and
  otpauth address (identity/domain/value-objects), and the minting of recovery codes. HMAC-SHA1 comes
  from Node and is the argument \<open>hmac\<close>.
\<close>

section \<open>Codes\<close>

text \<open>\<open>writeBigUInt64BE\<close>.\<close>

definition counter_bytes :: "int \<Rightarrow> 8 word list" where
  "counter_bytes step = map (\<lambda>i. word_of_int (step div 256 ^ i)) [7, 6, 5, 4, 3, 2, 1, 0]"

definition truncation_offset :: "8 word list \<Rightarrow> nat" where
  "truncation_offset digest = (if digest = [] then 0 else unat (last digest AND 0x0F))"

definition compute_code :: "(8 word list \<Rightarrow> 8 word list \<Rightarrow> 8 word list) \<Rightarrow> 8 word list \<Rightarrow> int \<Rightarrow> string throws" where
  "compute_code hmac secret step =
     (if step < 0 \<or> 2 ^ 64 \<le> step then Inl (Error ''RangeError'')
      else let digest = hmac secret (counter_bytes step); offset = truncation_offset digest in
        if length digest < offset + 4 then Inl (Error ''RangeError'')
        else let binary = (word_rcat (take 4 (drop offset digest)) :: 32 word) AND 0x7FFFFFFF in
          Inr (pad 6 (int (unat binary mod 10 ^ 6))))"

text \<open>\<open>Buffer.from(text)\<close> is UTF-8; \<open>timingSafeEqual\<close> throws on buffers of different lengths.\<close>

definition utf8_length :: "string \<Rightarrow> nat" where
  "utf8_length s = sum_list (map (\<lambda>c. if of_char c < (128 :: nat) then 1 else 2) s)"

definition equal_codes :: "string \<Rightarrow> string \<Rightarrow> bool throws" where
  "equal_codes a b =
     (if length a \<noteq> length b then Inr False
      else if utf8_length a \<noteq> utf8_length b then Inl (Error ''RangeError'')
      else Inr (a = b))"

record totp_verification =
  tv_valid :: bool
  tv_step :: int

fun try_steps :: "(8 word list \<Rightarrow> 8 word list \<Rightarrow> 8 word list) \<Rightarrow> 8 word list \<Rightarrow> string \<Rightarrow> int \<Rightarrow> int list \<Rightarrow>
    totp_verification throws" where
  "try_steps hmac secret code after [] = Inr \<lparr>tv_valid = False, tv_step = -1\<rparr>"
| "try_steps hmac secret code after (step # steps) =
     (if step \<le> after then try_steps hmac secret code after steps
      else case compute_code hmac secret step of
        Inl e \<Rightarrow> Inl e
      | Inr expected \<Rightarrow>
          (case equal_codes expected code of
             Inl e \<Rightarrow> Inl e
           | Inr True \<Rightarrow> Inr \<lparr>tv_valid = True, tv_step = step\<rparr>
           | Inr False \<Rightarrow> try_steps hmac secret code after steps))"

definition totp_step :: "date \<Rightarrow> int" where
  "totp_step now = now div 1000 div 30"

definition totp_verify :: "(8 word list \<Rightarrow> 8 word list \<Rightarrow> 8 word list) \<Rightarrow> 8 word list \<Rightarrow> string \<Rightarrow> date \<Rightarrow> int \<Rightarrow> int option \<Rightarrow>
    totp_verification throws" where
  "totp_verify hmac secret code now window after_step =
     try_steps hmac secret code (case after_step of Some s \<Rightarrow> s | None \<Rightarrow> -1)
       (map (\<lambda>offset. totp_step now + offset) [- window .. window])"

section \<open>What a verification means\<close>

lemma equal_codes_true: "equal_codes a b = Inr True \<longleftrightarrow> a = b"
  by (auto simp: equal_codes_def)

lemma equal_codes_refl [simp]: "equal_codes a a = Inr True"
  by (simp add: equal_codes_def)

lemma try_steps_validD:
  "try_steps hmac secret code after steps = Inr v \<Longrightarrow> tv_valid v \<Longrightarrow>
     tv_step v \<in> set steps \<and> after < tv_step v \<and> compute_code hmac secret (tv_step v) = Inr code"
  by (induction hmac secret code after steps rule: try_steps.induct)
     (auto simp: equal_codes_true split: if_splits sum.splits bool.splits)

lemma try_steps_invalidD:
  "try_steps hmac secret code after steps = Inr v \<Longrightarrow> \<not> tv_valid v \<Longrightarrow> step \<in> set steps \<Longrightarrow> after < step \<Longrightarrow>
     compute_code hmac secret step \<noteq> Inr code"
  by (induction hmac secret code after steps rule: try_steps.induct)
     (auto simp: equal_codes_true split: if_splits sum.splits bool.splits)

definition ascii :: "string \<Rightarrow> bool" where
  "ascii s \<longleftrightarrow> list_all (\<lambda>c. of_char c < (128 :: nat)) s"

lemma utf8_length_ascii: "ascii s \<Longrightarrow> utf8_length s = length s"
  by (induction s) (auto simp: ascii_def utf8_length_def)

lemma equal_codes_ascii: "ascii a \<Longrightarrow> ascii b \<Longrightarrow> equal_codes a b = Inr (a = b)"
  by (auto simp: equal_codes_def utf8_length_ascii)

lemma digit_ascii: "is_digit c \<Longrightarrow> of_char c < (128 :: nat)"
  unfolding is_digit_def by (elim rev_mp) (simp add: of_char_def)

lemma ascii_pad: "ascii (pad w n)"
  using pad_digits(1)[of w n] unfolding ascii_def list_all_iff by (metis digit_ascii)

text \<open>Codes have six digits, and with the twenty bytes of HMAC-SHA1 no step from the epoch on throws.\<close>

lemma truncation_offset_bound: "truncation_offset digest \<le> 15"
proof -
  have "(w :: 8 word) AND 0x0F \<le> 0x0F" for w by (rule word_and_le1)
  then have "unat (last digest AND 0x0F) \<le> unat (0x0F :: 8 word)" by (simp add: word_le_nat_alt)
  then show ?thesis by (simp add: truncation_offset_def)
qed

lemma compute_code_ok:
  assumes "\<And>k m. length (hmac k m) = 20" "0 \<le> step" "step < 2 ^ 64"
  shows "\<exists>code. compute_code hmac secret step = Inr code \<and> list_all is_digit code \<and> ascii code"
  using assms truncation_offset_bound[of "hmac secret (counter_bytes step)"] pad_digits(1) ascii_pad
  by (auto simp: compute_code_def Let_def)

lemma try_steps_returns:
  assumes "\<And>k m. length (hmac k m) = 20" "ascii code" "-1 \<le> after" "\<forall>step \<in> set steps. step < 2 ^ 64"
  shows "\<exists>v. try_steps hmac secret code after steps = Inr v"
  using assms(4)
proof (induction steps)
  case (Cons step steps)
  show ?case
  proof (cases "step \<le> after")
    case False
    with assms(3) Cons.prems compute_code_ok[where hmac = hmac and step = step and secret = secret, OF assms(1)] obtain expected where
      "compute_code hmac secret step = Inr expected" "ascii expected" by auto
    moreover from this(2) assms(2) have "equal_codes expected code = Inr (expected = code)" by (rule equal_codes_ascii)
    ultimately show ?thesis using Cons False by (fastforce split: bool.splits)
  qed (use Cons in simp)
qed simp

section \<open>Secrets\<close>

definition base32_alphabet :: string where
  "base32_alphabet = ''ABCDEFGHIJKLMNOPQRSTUVWXYZ234567''"

definition base32_char :: "32 word \<Rightarrow> char" where
  "base32_char w = base32_alphabet ! unat (w AND 31)"

text \<open>The inner loop: five bits a time while there are five.\<close>

fun base32_emit :: "32 word \<Rightarrow> nat \<Rightarrow> string" where
  "base32_emit val nbits = (if nbits < 5 then [] else base32_char (drop_bit (nbits - 5) val) # base32_emit val (nbits - 5))"

declare base32_emit.simps [simp del]

fun base32_loop :: "8 word list \<Rightarrow> 32 word \<Rightarrow> nat \<Rightarrow> string" where
  "base32_loop [] val nbits = (if nbits > 0 then [base32_char (push_bit (5 - nbits) val)] else [])"
| "base32_loop (byte # bytes) val nbits =
     (let val' = push_bit 8 val OR ucast byte; nbits' = nbits + 8 in
      base32_emit val' nbits' @ base32_loop bytes val' (nbits' mod 5))"

definition encode_base32 :: "8 word list \<Rightarrow> string" where
  "encode_base32 bytes = base32_loop bytes 0 0"

text \<open>The specification: the bits of the bytes in order, five to a letter, the last group filled with zeros.\<close>

definition low_bits :: "nat \<Rightarrow> 'a::len word \<Rightarrow> bool list" where
  "low_bits n w = map (bit w) (rev [0..<n])"

definition bits_value :: "bool list \<Rightarrow> nat" where
  "bits_value bs = foldl (\<lambda>n b. 2 * n + of_bool b) 0 bs"

function base32_of_bits :: "bool list \<Rightarrow> string" where
  "base32_of_bits bs = (if bs = [] then []
     else base32_alphabet ! bits_value (take 5 (bs @ replicate 4 False)) # base32_of_bits (drop 5 bs))"
  by pat_completeness auto
termination by (relation "measure length") auto

declare base32_of_bits.simps [simp del]

definition bits_of_bytes :: "8 word list \<Rightarrow> bool list" where
  "bits_of_bytes bytes = concat (map (low_bits 8) bytes)"

lemma bits_value_rev: "bits_value (rev bs) = horner_sum of_bool 2 bs"
  by (induction bs) (simp_all add: bits_value_def)

lemma base32_char_bits: "base32_char w = base32_alphabet ! bits_value (low_bits 5 w)"
proof -
  have "unat (w AND 31) = take_bit 5 (unat w)"
    using take_bit_eq_mask[of 5 w] by (simp add: unsigned_take_bit_eq[symmetric] mask_eq_exp_minus_1)
  also have "\<dots> = horner_sum of_bool 2 (map (bit (unat w)) [0..<5])" by (simp only: horner_sum_bit_eq_take_bit)
  also have "\<dots> = horner_sum of_bool 2 (map (bit w) [0..<5])"
    by (intro arg_cong[where f = "horner_sum of_bool 2"] map_cong) (simp_all add: bit_unsigned_iff)
  finally show ?thesis by (simp only: base32_char_def low_bits_def rev_map[symmetric] bits_value_rev)
qed

lemma low_bits_split: "low_bits (n + m) w = low_bits n (drop_bit m w) @ low_bits m w"
  by (rule nth_equalityI) (auto simp: low_bits_def nth_append rev_nth bit_drop_bit_eq intro!: arg_cong[where f = "bit w"])

lemma length_low_bits [simp]: "length (low_bits n w) = n"
  by (simp add: low_bits_def)

lemma base32_of_bits_five: "length five = 5 \<Longrightarrow>
    base32_of_bits (five @ bs) = base32_alphabet ! bits_value five # base32_of_bits bs"
  by (subst base32_of_bits.simps) auto

lemma base32_emit_bits:
  "base32_emit val n @ base32_of_bits (low_bits (n mod 5) val @ rest) = base32_of_bits (low_bits n val @ rest)"
proof (induction n rule: less_induct)
  case (less n)
  show ?case
  proof (cases "n < 5")
    case False
    then have n: "n = 5 + (n - 5)" "n mod 5 = (n - 5) mod 5" by (simp, simp add: mod_if)
    have "low_bits n val = low_bits 5 (drop_bit (n - 5) val) @ low_bits (n - 5) val"
      using low_bits_split[of 5 "n - 5" val] n(1) by simp
    then show ?thesis
      using less.IH[of "n - 5"] False n(2)
      by (subst base32_emit.simps) (simp add: base32_of_bits_five base32_char_bits)
  qed (subst base32_emit.simps, simp)
qed

lemma low_bits_push_byte:
  fixes val :: "32 word" and byte :: "8 word"
  assumes "n < 5"
  shows "low_bits (n + 8) (push_bit 8 val OR ucast byte) = low_bits n val @ low_bits 8 byte"
  using assms
  by (intro nth_equalityI)
     (auto simp: low_bits_def nth_append rev_nth bit_or_iff bit_push_bit_iff bit_unsigned_iff dest: bit_imp_le_length)

lemma low_bits_fill:
  fixes val :: "32 word"
  assumes "n < 5"
  shows "low_bits 5 (push_bit (5 - n) val) = low_bits n val @ replicate (5 - n) False"
  using assms by (intro nth_equalityI) (auto simp: low_bits_def nth_append rev_nth bit_push_bit_iff)

lemma base32_loop_bits:
  "n < 5 \<Longrightarrow> base32_loop bytes val n = base32_of_bits (low_bits n val @ bits_of_bytes bytes)"
proof (induction bytes arbitrary: val n)
  case Nil
  show ?case
  proof (cases "n = 0")
    case False
    have "take 5 (low_bits n val @ replicate 4 False) = low_bits 5 (push_bit (5 - n) val)"
      using Nil False by (simp add: low_bits_fill min_def)
    then show ?thesis
      using False Nil by (simp add: bits_of_bytes_def base32_char_bits)
        (subst base32_of_bits.simps, simp add: base32_of_bits.simps[of "[]"] flip: length_0_conv)
  qed (simp add: bits_of_bytes_def low_bits_def base32_of_bits.simps)
next
  case (Cons byte bytes)
  let ?val = "push_bit 8 val OR ucast byte :: 32 word"
  have "base32_loop (byte # bytes) val n =
      base32_emit ?val (n + 8) @ base32_of_bits (low_bits ((n + 8) mod 5) ?val @ bits_of_bytes bytes)"
    using Cons.IH[of "(n + 8) mod 5" ?val] by (simp add: Let_def)
  also have "\<dots> = base32_of_bits (low_bits (n + 8) ?val @ bits_of_bytes bytes)" by (rule base32_emit_bits)
  also have "\<dots> = base32_of_bits (low_bits n val @ bits_of_bytes (byte # bytes))"
    using low_bits_push_byte[OF Cons.prems, of val byte] by (simp add: bits_of_bytes_def)
  finally show ?case .
qed

section \<open>The otpauth address\<close>

definition hex_upper :: "nat \<Rightarrow> char" where
  "hex_upper n = ''0123456789ABCDEF'' ! n"

definition percent_byte :: "nat \<Rightarrow> string" where
  "percent_byte n = [CHR ''%'', hex_upper (n div 16), hex_upper (n mod 16)]"

text \<open>UTF-8, percent-encoded, of a character up to 255.\<close>

definition percent_char :: "char \<Rightarrow> string" where
  "percent_char c =
     (let n = of_char c :: nat in
      if n < 128 then percent_byte n else percent_byte (192 + n div 64) @ percent_byte (128 + n mod 64))"

definition encode_uri_component :: "string \<Rightarrow> string" where
  "encode_uri_component s =
     concat (map (\<lambda>c. if is_letter c \<or> is_digit c \<or> c \<in> set ''-_.!~*()'' \<or> c = CHR 0x27 then [c] else percent_char c) s)"

definition form_encode :: "string \<Rightarrow> string" where
  "form_encode s =
     concat (map (\<lambda>c. if is_letter c \<or> is_digit c \<or> c \<in> set ''*-._'' then [c]
        else if c = CHR '' '' then ''+'' else percent_char c) s)"

definition otpauth_uri :: "8 word list \<Rightarrow> string \<Rightarrow> string \<Rightarrow> string" where
  "otpauth_uri secret issuer account =
     ''otpauth://totp/'' @ encode_uri_component (issuer @ '':'' @ account) @ ''?secret='' @ form_encode (encode_base32 secret) @
     ''&issuer='' @ form_encode issuer @ ''&algorithm=SHA1&digits=6&period=30''"

section \<open>Recovery codes\<close>

definition recovery_alphabet :: string where
  "recovery_alphabet = ''23456789ABCDEFGHJKLMNPQRSTUVWXYZ''"

text \<open>A byte that the source of random bytes does not give counts as zero.\<close>

definition mint_code :: "8 word list \<Rightarrow> string" where
  "mint_code bytes =
     (let body = map (\<lambda>i. recovery_alphabet ! ((if i < length bytes then unat (bytes ! i) else 0) mod 32)) [0..<10] in
      take 5 body @ ''-'' @ drop 5 body)"

end
