(* ===== verification/Mfa.thy ===== *)
theory Mfa
  imports Identity Totp AuditChain
begin

text \<open>
  The second factor: TOTP credentials and recovery codes of apps/api/src/identity, their Drizzle
  repositories, the handlers that enroll, activate and disable a factor, regenerate and redeem recovery
  codes, and \<open>IdentitySecondFactor\<close> of authn, which verifies a proof.

  As in Identity, a handler reads \<open>old\<close> and writes \<open>st\<close>. The cipher of the secrets (\<open>encrypt\<close>, \<open>decrypt\<close>),
  HMAC and the hash of a code are arguments, as are the identifiers and random bytes drawn; \<open>audit\<close> is the
  append of the audit log (\<open>audit_append\<close> of AuditChain). The domain events of \<open>MfaCredential\<close> are not
  modelled: no code reads them.
\<close>

section \<open>Credentials\<close>

datatype mfa_status = MfaPending | MfaActive | MfaRevoked

record mfa_credential =
  mc_id :: string
  mc_user :: user_id
  mc_status :: mfa_status
  mc_secret :: string
  mc_algorithm :: string
  mc_digits :: nat
  mc_period :: nat
  mc_last_step :: "int option"
  mc_created :: date
  mc_activated :: "date option"
  mc_revoked :: "date option"

definition mfa_enroll :: "string \<Rightarrow> user_id \<Rightarrow> string \<Rightarrow> date \<Rightarrow> mfa_credential" where
  "mfa_enroll i u ciphertext now = \<lparr>mc_id = i, mc_user = u, mc_status = MfaPending, mc_secret = ciphertext,
     mc_algorithm = ''SHA1'', mc_digits = 6, mc_period = 30, mc_last_step = None, mc_created = now,
     mc_activated = None, mc_revoked = None\<rparr>"

definition mfa_activate :: "date \<Rightarrow> mfa_credential \<Rightarrow> mfa_credential throws" where
  "mfa_activate now c =
     (if mc_status c \<noteq> MfaPending then Inl (Error ''cannot activate an MFA credential'')
      else Inr (c\<lparr>mc_status := MfaActive, mc_activated := Some now\<rparr>))"

definition mfa_register_use :: "int \<Rightarrow> mfa_credential \<Rightarrow> mfa_credential throws" where
  "mfa_register_use step c =
     (if mc_status c \<noteq> MfaActive then Inl (Error ''cannot use an MFA credential'')
      else if (case mc_last_step c of Some l \<Rightarrow> step \<le> l | None \<Rightarrow> False) then Inl (Error ''TOTP step replay rejected'')
      else Inr (c\<lparr>mc_last_step := Some step\<rparr>))"

definition mfa_revoke :: "date \<Rightarrow> mfa_credential \<Rightarrow> mfa_credential" where
  "mfa_revoke now c = (if mc_status c = MfaRevoked then c else c\<lparr>mc_status := MfaRevoked, mc_revoked := Some now\<rparr>)"

section \<open>Recovery codes\<close>

record recovery_code =
  rc_id :: string
  rc_user :: user_id
  rc_hash :: string
  rc_consumed :: "date option"
  rc_created :: date

definition recovery_issue :: "string \<Rightarrow> user_id \<Rightarrow> string \<Rightarrow> date \<Rightarrow> recovery_code" where
  "recovery_issue i u h now = \<lparr>rc_id = i, rc_user = u, rc_hash = h, rc_consumed = None, rc_created = now\<rparr>"

definition recovery_is_consumed :: "recovery_code \<Rightarrow> bool" where
  "recovery_is_consumed c = (rc_consumed c \<noteq> None)"

definition recovery_consume :: "date \<Rightarrow> recovery_code \<Rightarrow> recovery_code throws" where
  "recovery_consume now c =
     (if rc_consumed c \<noteq> None then Inl (Error ''recovery code already consumed'') else Inr (c\<lparr>rc_consumed := Some now\<rparr>))"

section \<open>Tables\<close>

record mfa_state =
  mf_credentials :: "mfa_credential list"
  mf_codes :: "recovery_code list"

definition empty_mfa :: mfa_state where
  "empty_mfa = \<lparr>mf_credentials = [], mf_codes = []\<rparr>"

definition active_of :: "user_id \<Rightarrow> mfa_credential list \<Rightarrow> mfa_credential list" where
  "active_of u cs = filter (\<lambda>c. mc_user c = u \<and> mc_status c = MfaActive) cs"

text \<open>An upsert by id; a second active credential of a user breaks the partial unique index.\<close>

definition save_credential :: "mfa_credential \<Rightarrow> mfa_state \<Rightarrow> unit throws \<times> mfa_state" where
  "save_credential c st =
     (let cs = (if mc_id c \<in> mc_id ` set (mf_credentials st)
                then update_where (\<lambda>r. mc_id r = mc_id c)
                  (\<lambda>r. r\<lparr>mc_status := mc_status c, mc_secret := mc_secret c, mc_last_step := mc_last_step c,
                     mc_activated := mc_activated c, mc_revoked := mc_revoked c\<rparr>) (mf_credentials st)
                else mf_credentials st @ [c]) in
      if list_ex (\<lambda>r. 1 < length (active_of (mc_user r) cs)) cs then (Inl (Error ''duplicate key''), st)
      else (Inr (), st\<lparr>mf_credentials := cs\<rparr>))"

definition find_totp :: "mfa_status \<Rightarrow> user_id \<Rightarrow> mfa_state \<Rightarrow> mfa_credential option" where
  "find_totp status u st = find (\<lambda>c. mc_user c = u \<and> mc_status c = status) (mf_credentials st)"

definition find_active_totp :: "user_id \<Rightarrow> mfa_state \<Rightarrow> mfa_credential option" where
  "find_active_totp u st = find_totp MfaActive u st"

definition find_pending_totp :: "user_id \<Rightarrow> mfa_state \<Rightarrow> mfa_credential option" where
  "find_pending_totp u st = find_totp MfaPending u st"

text \<open>One transaction: unused codes go, the new ones come; a code whose id or hash is present breaks an index.\<close>

definition replace_codes :: "user_id \<Rightarrow> recovery_code list \<Rightarrow> mfa_state \<Rightarrow> unit throws \<times> mfa_state" where
  "replace_codes u codes st =
     (let rest = filter (\<lambda>c. \<not> (rc_user c = u \<and> rc_consumed c = None)) (mf_codes st); all_codes = rest @ codes in
      if distinct (map rc_id all_codes) \<and> distinct (map rc_hash all_codes) then (Inr (), st\<lparr>mf_codes := all_codes\<rparr>)
      else (Inl (Error ''duplicate key''), st))"

definition find_code :: "user_id \<Rightarrow> string \<Rightarrow> mfa_state \<Rightarrow> recovery_code option" where
  "find_code u h st = find (\<lambda>c. rc_user c = u \<and> rc_hash c = h) (mf_codes st)"

definition consume_code :: "recovery_code \<Rightarrow> mfa_state \<Rightarrow> bool \<times> mfa_state" where
  "consume_code c st =
     (let hit = (\<lambda>r. rc_id r = rc_id c \<and> rc_consumed r = None) in
      (list_ex hit (mf_codes st),
       st\<lparr>mf_codes := update_where hit (\<lambda>r. r\<lparr>rc_consumed := rc_consumed c\<rparr>) (mf_codes st)\<rparr>))"

definition count_active_codes :: "user_id \<Rightarrow> mfa_state \<Rightarrow> nat" where
  "count_active_codes u st = length (filter (\<lambda>c. rc_user c = u \<and> rc_consumed c = None) (mf_codes st))"

section \<open>Enrolling and activating\<close>

type_synonym audit_sink = "audit_event \<Rightarrow> audit_log \<Rightarrow> appended_record throws \<times> audit_log"

definition credential_event :: "string \<Rightarrow> user_id \<Rightarrow> string \<Rightarrow> audit_event" where
  "credential_event type u credential_id = \<lparr>ev_type = type, ev_org = None, ev_subject = Some (user_value u),
     ev_payload = [(''credentialId'', JString credential_id)]\<rparr>"

datatype enroll_error = EnrollUserNotFound

record enrollment =
  enr_id :: string
  enr_secret :: "8 word list"

definition enroll_mfa :: "(8 word list \<Rightarrow> string throws) \<Rightarrow> string \<Rightarrow> enrollment \<Rightarrow> date \<Rightarrow> user_id \<Rightarrow> identity_state \<Rightarrow>
    mfa_state \<Rightarrow> mfa_state \<Rightarrow> (string, enroll_error) result throws \<times> mfa_state" where
  "enroll_mfa encrypt issuer fresh now u users old st =
     (case find_user_by_id u users of
        None \<Rightarrow> (Inr (err EnrollUserNotFound), st)
      | Some account \<Rightarrow>
          (case (case find_pending_totp u old of
                   Some superseded \<Rightarrow> save_credential (mfa_revoke now superseded) st
                 | None \<Rightarrow> (Inr (), st)) of
             (Inl e, st1) \<Rightarrow> (Inl e, st1)
           | (Inr _, st1) \<Rightarrow>
               (case encrypt (enr_secret fresh) of
                  Inl e \<Rightarrow> (Inl e, st1)
                | Inr ciphertext \<Rightarrow>
                    (case save_credential (mfa_enroll (enr_id fresh) u ciphertext now) st1 of
                       (Inl e, st2) \<Rightarrow> (Inl e, st2)
                     | (Inr _, st2) \<Rightarrow> (Inr (ok (otpauth_uri (enr_secret fresh) issuer (usr_email account))), st2)))))"

definition batch_size :: nat where
  "batch_size = 10"

record minting =
  mint_id :: string
  mint_bytes :: "8 word list"

text \<open>\<open>RecoveryCodeIssuer.issue\<close>: one identifier and the random bytes for each code of the batch.\<close>

definition issue_codes :: "(string \<Rightarrow> string) \<Rightarrow> date \<Rightarrow> user_id \<Rightarrow> minting list \<Rightarrow> mfa_state \<Rightarrow>
    string list throws \<times> mfa_state" where
  "issue_codes digest now u draws st =
     (let batch = take batch_size draws; plaintext = map (mint_code \<circ> mint_bytes) batch;
          codes = map2 (\<lambda>d raw. recovery_issue (mint_id d) u (digest raw) now) batch plaintext in
      case replace_codes u codes st of
        (Inl e, st1) \<Rightarrow> (Inl e, st1)
      | (Inr _, st1) \<Rightarrow> (Inr plaintext, st1))"

datatype activate_error = NoPendingCredential | InvalidCode | ActivateStepUpRequired

definition drift_window :: int where
  "drift_window = 1"

text \<open>The writes of an activation: the active credential is revoked, the pending one becomes active.\<close>

definition switch_credential :: "date \<Rightarrow> int \<Rightarrow> mfa_credential option \<Rightarrow> mfa_credential \<Rightarrow> mfa_state \<Rightarrow> unit throws \<times> mfa_state" where
  "switch_credential now step active pending st =
     (case (case active of Some a \<Rightarrow> save_credential (mfa_revoke now a) st | None \<Rightarrow> (Inr (), st)) of
        (Inl e, st1) \<Rightarrow> (Inl e, st1)
      | (Inr _, st1) \<Rightarrow>
          (case mfa_activate now pending of
             Inl e \<Rightarrow> (Inl e, st1)
           | Inr activated \<Rightarrow>
               (case mfa_register_use step activated of
                  Inl e \<Rightarrow> (Inl e, st1)
                | Inr used \<Rightarrow> save_credential used st1)))"

definition activate_mfa :: "(8 word list \<Rightarrow> 8 word list \<Rightarrow> 8 word list) \<Rightarrow> (string \<Rightarrow> 8 word list throws) \<Rightarrow>
    (string \<Rightarrow> string) \<Rightarrow> audit_sink \<Rightarrow> minting list \<Rightarrow> date \<Rightarrow> user_id \<Rightarrow> string \<Rightarrow> bool \<Rightarrow> mfa_state \<Rightarrow> mfa_state \<Rightarrow> audit_log \<Rightarrow>
    (string list, activate_error) result throws \<times> mfa_state \<times> audit_log" where
  "activate_mfa hmac decrypt digest audit draws now u code stepped_up old st al =
     (case find_pending_totp u old of
        None \<Rightarrow> (Inr (err NoPendingCredential), st, al)
      | Some pending \<Rightarrow>
          (case decrypt (mc_secret pending) of
             Inl e \<Rightarrow> (Inl e, st, al)
           | Inr secret \<Rightarrow>
               (case totp_verify hmac secret code now drift_window None of
                  Inl e \<Rightarrow> (Inl e, st, al)
                | Inr v \<Rightarrow>
                    if \<not> tv_valid v then (Inr (err InvalidCode), st, al)
                    else let active = find_active_totp u old in
                      if active \<noteq> None \<and> \<not> stepped_up then (Inr (err ActivateStepUpRequired), st, al)
                      else case switch_credential now (tv_step v) active pending st of
                        (Inl e, st1) \<Rightarrow> (Inl e, st1, al)
                      | (Inr _, st1) \<Rightarrow>
                          (case issue_codes digest now u draws st1 of
                             (Inl e, st2) \<Rightarrow> (Inl e, st2, al)
                           | (Inr codes, st2) \<Rightarrow>
                               (case audit (credential_event ''mfa.activated'' u (mc_id pending)) al of
                                  (Inl e, al') \<Rightarrow> (Inl e, st2, al')
                                | (Inr _, al') \<Rightarrow> (Inr (ok codes), st2, al'))))))"

section \<open>Disabling, recovery codes and status\<close>

datatype not_enabled = NotEnabled

definition disable_mfa :: "audit_sink \<Rightarrow> date \<Rightarrow> user_id \<Rightarrow> mfa_state \<Rightarrow> mfa_state \<Rightarrow> audit_log \<Rightarrow>
    (unit, not_enabled) result throws \<times> mfa_state \<times> audit_log" where
  "disable_mfa audit now u old st al =
     (case find_active_totp u old of
        None \<Rightarrow> (Inr (err NotEnabled), st, al)
      | Some active \<Rightarrow>
          (case save_credential (mfa_revoke now active) st of
             (Inl e, st1) \<Rightarrow> (Inl e, st1, al)
           | (Inr _, st1) \<Rightarrow>
               (case audit (credential_event ''mfa.disabled'' u (mc_id active)) al of
                  (Inl e, al') \<Rightarrow> (Inl e, st1, al')
                | (Inr _, al') \<Rightarrow> (Inr (ok ()), st1, al'))))"

definition regenerate_codes :: "(string \<Rightarrow> string) \<Rightarrow> date \<Rightarrow> user_id \<Rightarrow> minting list \<Rightarrow> mfa_state \<Rightarrow> mfa_state \<Rightarrow>
    (string list, not_enabled) result throws \<times> mfa_state" where
  "regenerate_codes digest now u draws old st =
     (case find_active_totp u old of
        None \<Rightarrow> (Inr (err NotEnabled), st)
      | Some _ \<Rightarrow>
          (case issue_codes digest now u draws st of
             (Inl e, st1) \<Rightarrow> (Inl e, st1)
           | (Inr codes, st1) \<Rightarrow> (Inr (ok codes), st1)))"

definition redeem_code :: "(string \<Rightarrow> string) \<Rightarrow> date \<Rightarrow> user_id \<Rightarrow> string \<Rightarrow> mfa_state \<Rightarrow> mfa_state \<Rightarrow>
    bool throws \<times> mfa_state" where
  "redeem_code digest now u raw old st =
     (case find_code u (digest raw) old of
        None \<Rightarrow> (Inr False, st)
      | Some c \<Rightarrow>
          if recovery_is_consumed c then (Inr False, st)
          else case recovery_consume now c of
            Inl e \<Rightarrow> (Inl e, st)
          | Inr consumed \<Rightarrow> (let (hit, st') = consume_code consumed st in (Inr hit, st')))"

record mfa_status_view =
  msv_enabled :: bool
  msv_codes_remaining :: nat

definition mfa_status_of :: "user_id \<Rightarrow> mfa_state \<Rightarrow> mfa_status_view" where
  "mfa_status_of u st =
     (let active = find_active_totp u st in
      \<lparr>msv_enabled = (active \<noteq> None), msv_codes_remaining = (if active \<noteq> None then count_active_codes u st else 0)\<rparr>)"

section \<open>Verifying a proof\<close>

datatype second_factor_proof = TotpProof string | RecoveryProof string

definition verify_totp :: "(8 word list \<Rightarrow> 8 word list \<Rightarrow> 8 word list) \<Rightarrow> (string \<Rightarrow> 8 word list throws) \<Rightarrow> date \<Rightarrow> user_id \<Rightarrow>
    string \<Rightarrow> mfa_state \<Rightarrow> mfa_state \<Rightarrow> bool throws \<times> mfa_state" where
  "verify_totp hmac decrypt now u code old st =
     (case find_active_totp u old of
        None \<Rightarrow> (Inr False, st)
      | Some c \<Rightarrow>
          (case decrypt (mc_secret c) of
             Inl e \<Rightarrow> (Inl e, st)
           | Inr secret \<Rightarrow>
               (case totp_verify hmac secret code now drift_window (mc_last_step c) of
                  Inl e \<Rightarrow> (Inl e, st)
                | Inr v \<Rightarrow>
                    if \<not> tv_valid v then (Inr False, st)
                    else case mfa_register_use (tv_step v) c of
                      Inl e \<Rightarrow> (Inl e, st)
                    | Inr used \<Rightarrow>
                        (case save_credential used st of
                           (Inl e, st') \<Rightarrow> (Inl e, st')
                         | (Inr _, st') \<Rightarrow> (Inr True, st')))))"

definition verify_factor :: "(8 word list \<Rightarrow> 8 word list \<Rightarrow> 8 word list) \<Rightarrow> (string \<Rightarrow> 8 word list throws) \<Rightarrow>
    (string \<Rightarrow> string) \<Rightarrow> date \<Rightarrow> user_id \<Rightarrow> second_factor_proof \<Rightarrow> mfa_state \<Rightarrow> mfa_state \<Rightarrow> bool throws \<times> mfa_state" where
  "verify_factor hmac decrypt digest now u proof old st =
     (case proof of
        RecoveryProof code \<Rightarrow> redeem_code digest now u code old st
      | TotpProof code \<Rightarrow> verify_totp hmac decrypt now u code old st)"

end
