(* ===== verification/Login.thy ===== *)
theory Login
  imports Mfa
begin

text \<open>
  Logging in and stepping up: \<open>IdentityCredentials\<close>, \<open>LoginHandler\<close> and \<open>StepUpHandler\<close> of
  apps/api/src/authn, and the organizations and memberships of apps/api/src/tenancy.

  The verification of a password (argon2) is the argument \<open>matches\<close>, the issuer of access tokens is
  \<open>issue\<close>. A handler reads the accounts (\<open>identity_state\<close>, \<open>mfa_state\<close>, \<open>tenancy_state\<close>) and reads and
  writes the tables and Redis keys of authn.
\<close>

section \<open>Tenancy\<close>

record organization =
  organization_id :: org_id
  organization_name :: string
  organization_slug :: string
  organization_created :: date
  organization_updated :: date

datatype membership_status = MembershipActive | MembershipSuspended

datatype membership_role = OwnerRole | MemberRole

record org_membership =
  mem_id :: string
  mem_user :: user_id
  mem_org :: org_id
  mem_status :: membership_status
  mem_role :: membership_role
  mem_joined :: date

record tenancy_state =
  ten_orgs :: "organization list"
  ten_members :: "org_membership list"

definition organization_create :: "org_id \<Rightarrow> string \<Rightarrow> string \<Rightarrow> date \<Rightarrow> organization" where
  "organization_create i name slug now = \<lparr>organization_id = i, organization_name = name, organization_slug = slug,
     organization_created = now, organization_updated = now\<rparr>"

definition insert_organization :: "organization \<Rightarrow> tenancy_state \<Rightarrow> unit throws \<times> tenancy_state" where
  "insert_organization t st =
     (if organization_id t \<in> organization_id ` set (ten_orgs st) \<or> organization_slug t \<in> organization_slug ` set (ten_orgs st)
      then (Inl (Error ''duplicate key''), st) else (Inr (), st\<lparr>ten_orgs := ten_orgs st @ [t]\<rparr>))"

definition find_organization :: "org_id \<Rightarrow> tenancy_state \<Rightarrow> organization option" where
  "find_organization i st = find (\<lambda>t. organization_id t = i) (ten_orgs st)"

definition insert_membership :: "org_membership \<Rightarrow> tenancy_state \<Rightarrow> unit throws \<times> tenancy_state" where
  "insert_membership t st =
     (if mem_id t \<in> mem_id ` set (ten_members st) \<or> (mem_user t, mem_org t) \<in> (\<lambda>r. (mem_user r, mem_org r)) ` set (ten_members st)
      then (Inl (Error ''duplicate key''), st) else (Inr (), st\<lparr>ten_members := ten_members st @ [t]\<rparr>))"

definition active_memberships :: "user_id \<Rightarrow> tenancy_state \<Rightarrow> org_membership list" where
  "active_memberships u st = sort_key mem_joined (filter (\<lambda>t. mem_user t = u \<and> mem_status t = MembershipActive) (ten_members st))"

definition role_of :: "user_id \<Rightarrow> org_id \<Rightarrow> tenancy_state \<Rightarrow> membership_role option" where
  "role_of u i st =
     map_option mem_role (find (\<lambda>t. mem_user t = u \<and> mem_org t = i \<and> mem_status t = MembershipActive) (ten_members st))"

text \<open>One transaction: both rows or none.\<close>

definition provision_organization :: "org_id \<Rightarrow> string \<Rightarrow> date \<Rightarrow> user_id \<Rightarrow> tenancy_state \<Rightarrow> org_id throws \<times> tenancy_state" where
  "provision_organization i membership_id now u st =
     (case insert_organization (organization_create i ''Personal'' (''u-'' @ user_value u) now) st of
        (Inl e, _) \<Rightarrow> (Inl e, st)
      | (Inr _, st1) \<Rightarrow>
          (case insert_membership \<lparr>mem_id = membership_id, mem_user = u, mem_org = i, mem_status = MembershipActive,
              mem_role = OwnerRole, mem_joined = now\<rparr> st1 of
             (Inl e, _) \<Rightarrow> (Inl e, st)
           | (Inr _, st2) \<Rightarrow> (Inr i, st2)))"

definition find_active_organization :: "user_id \<Rightarrow> tenancy_state \<Rightarrow> org_id option" where
  "find_active_organization u st = (case active_memberships u st of [] \<Rightarrow> None | t # _ \<Rightarrow> Some (mem_org t))"

section \<open>Credentials\<close>

record credential_check =
  cc_user :: string
  cc_aal :: nat
  cc_mfa_required :: bool

definition verify_credentials :: "(string \<Rightarrow> string \<Rightarrow> bool) \<Rightarrow> identity_state \<Rightarrow> mfa_state \<Rightarrow> string \<Rightarrow> string \<Rightarrow>
    credential_check option" where
  "verify_credentials matches users factors raw_email password =
     (case email_create raw_email of
        Inl _ \<Rightarrow> None
      | Inr email \<Rightarrow>
          (case find_user_by_email email users of
             None \<Rightarrow> None
           | Some u \<Rightarrow>
               if \<not> matches password (usr_password u) \<or> usr_status u \<noteq> UserActive then None
               else Some \<lparr>cc_user = user_value (usr_id u), cc_aal = 1,
                 cc_mfa_required = (find_active_totp (usr_id u) factors \<noteq> None)\<rparr>))"

section \<open>Login\<close>

record login_command =
  lc_email :: string
  lc_password :: string
  lc_user_agent :: "string option"
  lc_ip :: "string option"

record login_result =
  lr_access_token :: string
  lr_refresh_token :: string
  lr_expires_in :: int
  lr_mfa_required :: bool

record login_config =
  lcfg_refresh_ttl :: int
  lcfg_account_lockout :: lockout_policy
  lcfg_ip_lockout :: lockout_policy
  lcfg_public_email :: "string option"

datatype login_error = InvalidCredentials | LoginLocked

definition account_key :: "login_config \<Rightarrow> login_command \<Rightarrow> string option" where
  "account_key cfg cmd =
     (let email = to_lower (js_trim (lc_email cmd)) in
      if Some email = lcfg_public_email cfg then None else Some (''acct:'' @ email))"

definition ip_key :: "login_command \<Rightarrow> string option" where
  "ip_key cmd = (case lc_ip cmd of Some ip \<Rightarrow> if ip = [] then None else Some (''ip:'' @ ip) | None \<Rightarrow> None)"

definition key_locked :: "bool \<Rightarrow> date \<Rightarrow> lockout_policy \<Rightarrow> string option \<Rightarrow> authn_state \<Rightarrow> bool" where
  "key_locked up now policy key st = (case key of Some k \<Rightarrow> is_locked up now k policy st | None \<Rightarrow> False)"

definition count_failure :: "bool \<Rightarrow> date \<Rightarrow> lockout_policy \<Rightarrow> string option \<Rightarrow> authn_state \<Rightarrow> authn_state" where
  "count_failure up now policy key st = (case key of Some k \<Rightarrow> snd (register_failure up now k policy st) | None \<Rightarrow> st)"

definition clear_failures :: "bool \<Rightarrow> string option \<Rightarrow> authn_state \<Rightarrow> authn_state" where
  "clear_failures up key st = (case key of Some k \<Rightarrow> reset_lockout up k st | None \<Rightarrow> st)"

record fresh_session =
  fs_session :: session_id
  fs_family :: token_family_id
  fs_token_id :: string
  fs_refresh :: generated_token

definition new_session :: "fresh_session \<Rightarrow> credential_check \<Rightarrow> org_id option \<Rightarrow> login_command \<Rightarrow> date \<Rightarrow> date \<Rightarrow> session" where
  "new_session fresh check org cmd now expires = \<lparr>ses_id = fs_session fresh, ses_user = UserId (cc_user check), ses_org = org,
     ses_aal = cc_aal check, ses_auth_time = now, ses_status = SessionActive, ses_device_label = None,
     ses_user_agent = lc_user_agent cmd, ses_ip = lc_ip cmd, ses_created = now, ses_last_seen = now, ses_expires = expires,
     ses_revoked_at = None\<rparr>"

definition new_family :: "fresh_session \<Rightarrow> credential_check \<Rightarrow> date \<Rightarrow> token_family" where
  "new_family fresh check now = \<lparr>fam_id = fs_family fresh, fam_user = UserId (cc_user check), fam_session = fs_session fresh,
     fam_status = FamilyActive, fam_created = now, fam_revoked_at = None, fam_revoked_reason = None\<rparr>"

definition new_refresh :: "fresh_session \<Rightarrow> date \<Rightarrow> date \<Rightarrow> refresh_token" where
  "new_refresh fresh now expires = \<lparr>rt_id = fs_token_id fresh, rt_family = fs_family fresh, rt_hash = gen_hash (fs_refresh fresh),
     rt_generation = 1, rt_status = TokenActive, rt_created = now, rt_expires = expires, rt_consumed = None\<rparr>"

text \<open>One transaction: a failure takes the earlier insertions back.\<close>

definition open_session :: "session \<Rightarrow> token_family \<Rightarrow> refresh_token \<Rightarrow> authn_state \<Rightarrow> unit throws \<times> authn_state" where
  "open_session s f t st =
     (case create_session s st of
        (Inl e, _) \<Rightarrow> (Inl e, st)
      | (Inr _, st1) \<Rightarrow>
          (case create_family f st1 of
             (Inl e, _) \<Rightarrow> (Inl e, st)
           | (Inr _, st2) \<Rightarrow>
               (case add_refresh t st2 of
                  (Inl e, _) \<Rightarrow> (Inl e, st)
                | (Inr _, st3) \<Rightarrow> (Inr (), st3))))"

definition login_claims :: "fresh_session \<Rightarrow> credential_check \<Rightarrow> org_id option \<Rightarrow> date \<Rightarrow> access_token_claims" where
  "login_claims fresh check org now = \<lparr>claim_sub = cc_user check, claim_sid = sid_value (fs_session fresh),
     claim_org = map_option org_value org, claim_aal = cc_aal check, claim_auth_time = now\<rparr>"

text \<open>
  The counters are read at \<open>asked_at\<close> in the state \<open>old\<close>; the password is verified after that, and what follows is
  written to the state \<open>st\<close> of then, which other requests may have changed.
\<close>

definition login_execute :: "login_config \<Rightarrow> bool \<Rightarrow> (string \<Rightarrow> string \<Rightarrow> bool) \<Rightarrow>
    (access_token_claims \<Rightarrow> issued_access_token throws) \<Rightarrow> fresh_session \<Rightarrow> date \<Rightarrow> date \<Rightarrow> login_command \<Rightarrow>
    identity_state \<Rightarrow> mfa_state \<Rightarrow> tenancy_state \<Rightarrow> authn_state \<Rightarrow> authn_state \<Rightarrow>
    (login_result, login_error) result throws \<times> authn_state" where
  "login_execute cfg up matches issue fresh asked_at now cmd users factors orgs old st =
     (if key_locked up asked_at (lcfg_account_lockout cfg) (account_key cfg cmd) old \<or>
         key_locked up asked_at (lcfg_ip_lockout cfg) (ip_key cmd) old
      then (Inr (err LoginLocked), st)
      else case verify_credentials matches users factors (lc_email cmd) (lc_password cmd) of
        None \<Rightarrow> (Inr (err InvalidCredentials), count_failure up now (lcfg_ip_lockout cfg) (ip_key cmd)
            (count_failure up now (lcfg_account_lockout cfg) (account_key cfg cmd) st))
      | Some check \<Rightarrow>
          (let st1 = clear_failures up (ip_key cmd) (clear_failures up (account_key cfg cmd) st);
               org = find_active_organization (UserId (cc_user check)) orgs;
               expires = now + lcfg_refresh_ttl cfg * 1000 in
           case issue (login_claims fresh check org now) of
             Inl e \<Rightarrow> (Inl e, st1)
           | Inr access \<Rightarrow>
               (case open_session (new_session fresh check org cmd now expires) (new_family fresh check now)
                   (new_refresh fresh now expires) st1 of
                  (Inl e, st2) \<Rightarrow> (Inl e, st2)
                | (Inr _, st2) \<Rightarrow>
                    (Inr (ok \<lparr>lr_access_token = iss_token access, lr_refresh_token = gen_raw (fs_refresh fresh),
                       lr_expires_in = iss_expires_in access, lr_mfa_required = cc_mfa_required check\<rparr>), st2))))"

section \<open>Stepping up\<close>

definition step_up_aal :: nat where
  "step_up_aal = 2"

record step_up_command =
  su_session :: string
  su_user :: string
  su_proof :: second_factor_proof

record step_up_result =
  sur_access_token :: string
  sur_expires_in :: int

datatype step_up_error = InvalidSession | InvalidFactor | StepUpLocked

definition proof_kind :: "second_factor_proof \<Rightarrow> string" where
  "proof_kind proof = (case proof of TotpProof _ \<Rightarrow> ''totp'' | RecoveryProof _ \<Rightarrow> ''recovery'')"

definition step_up_event :: "session \<Rightarrow> second_factor_proof \<Rightarrow> bool \<Rightarrow> audit_event" where
  "step_up_event s proof verified =
     \<lparr>ev_type = (if verified then ''mfa.step_up'' else ''mfa.step_up_failed''), ev_org = map_option org_value (ses_org s),
      ev_subject = Some (user_value (ses_user s)),
      ev_payload = (''factor'', JString (proof_kind proof)) # (if verified then [(''aal'', JNumber (int step_up_aal))] else [])\<rparr>"

definition step_up_claims :: "session \<Rightarrow> date \<Rightarrow> access_token_claims" where
  "step_up_claims s now = \<lparr>claim_sub = user_value (ses_user s), claim_sid = sid_value (ses_id s),
     claim_org = map_option org_value (ses_org s), claim_aal = step_up_aal, claim_auth_time = now\<rparr>"

text \<open>\<open>old\<close> is the state in which the session is read, \<open>factor\<close> the verification of the proof.\<close>

definition step_up_execute :: "lockout_policy \<Rightarrow> bool \<Rightarrow> (user_id \<Rightarrow> second_factor_proof \<Rightarrow> mfa_state \<Rightarrow> bool throws \<times> mfa_state) \<Rightarrow>
    (access_token_claims \<Rightarrow> issued_access_token throws) \<Rightarrow> audit_sink \<Rightarrow> date \<Rightarrow> step_up_command \<Rightarrow>
    authn_state \<Rightarrow> authn_state \<Rightarrow> mfa_state \<Rightarrow> audit_log \<Rightarrow>
    (step_up_result, step_up_error) result throws \<times> authn_state \<times> mfa_state \<times> audit_log" where
  "step_up_execute policy up factor issue audit now cmd old st mfa al =
     (case find_session (SessionId (su_session cmd)) old of
        None \<Rightarrow> (Inr (err InvalidSession), st, mfa, al)
      | Some s \<Rightarrow>
          if ses_status s \<noteq> SessionActive \<or> user_value (ses_user s) \<noteq> su_user cmd then (Inr (err InvalidSession), st, mfa, al)
          else let key = ''mfa:'' @ user_value (ses_user s) in
            if is_locked up now key policy st then (Inr (err StepUpLocked), st, mfa, al)
            else case factor (ses_user s) (su_proof cmd) mfa of
              (Inl e, mfa') \<Rightarrow> (Inl e, st, mfa', al)
            | (Inr False, mfa') \<Rightarrow>
                (let st1 = snd (register_failure up now key policy st) in
                 case audit (step_up_event s (su_proof cmd) False) al of
                   (Inl e, al') \<Rightarrow> (Inl e, st1, mfa', al')
                 | (Inr _, al') \<Rightarrow> (Inr (err InvalidFactor), st1, mfa', al'))
            | (Inr True, mfa') \<Rightarrow>
                (let st1 = snd (elevate_session (ses_id s) step_up_aal now (reset_lockout up key st)) in
                 case issue (step_up_claims s now) of
                   Inl e \<Rightarrow> (Inl e, st1, mfa', al)
                 | Inr token \<Rightarrow>
                     (case audit (step_up_event s (su_proof cmd) True) al of
                        (Inl e, al') \<Rightarrow> (Inl e, st1, mfa', al')
                      | (Inr _, al') \<Rightarrow>
                          (Inr (ok \<lparr>sur_access_token = iss_token token, sur_expires_in = iss_expires_in token\<rparr>), st1, mfa', al'))))"

end
