(* ===== verification/Histories.thy ===== *)
theory Histories
  imports Prelude
begin

text \<open>
  Histories of a state shared by concurrent requests. A history lists the states, newest first; a step
  may act on what a request read in any earlier state. The locale \<open>forward_history\<close> is what such a
  component promises: each step keeps an invariant and moves \<open>onward\<close> from every earlier state, so that
  both hold along a history.
\<close>

inductive history :: "('s set \<Rightarrow> 's \<Rightarrow> 's \<Rightarrow> bool) \<Rightarrow> 's \<Rightarrow> 's list \<Rightarrow> bool" for step init where
  began: "history step init [init]"
| moved: "history step init (st # past) \<Longrightarrow> step (set (st # past)) st st' \<Longrightarrow> history step init (st' # st # past)"

inductive_cases history_consE: "history step init (st' # st # past)"

lemma history_nonempty: "history step init hist \<Longrightarrow> hist \<noteq> []"
  by (induction rule: history.induct) simp_all

lemma history_suffix: "history step init (newer @ st # older) \<Longrightarrow> history step init (st # older)"
proof (induction newer)
  case (Cons s newer)
  then have "history step init (s # newer @ st # older)" by simp
  then have "history step init (newer @ st # older)" by (cases newer) (auto elim: history_consE)
  with Cons.IH show ?case .
qed simp

locale forward_history =
  fixes step :: "'s set \<Rightarrow> 's \<Rightarrow> 's \<Rightarrow> bool" and init :: 's and inv :: "'s \<Rightarrow> bool" and onward :: "'s \<Rightarrow> 's \<Rightarrow> bool"
  assumes inv_init: "inv init"
    and onward_refl: "inv st \<Longrightarrow> onward st st"
    and step_inv: "(\<And>old. old \<in> past \<Longrightarrow> inv old \<and> onward old st) \<Longrightarrow> st \<in> past \<Longrightarrow> step past st st' \<Longrightarrow> inv st'"
    and step_onward: "(\<And>old. old \<in> past \<Longrightarrow> inv old \<and> onward old st) \<Longrightarrow> st \<in> past \<Longrightarrow> step past st st' \<Longrightarrow>
      old \<in> past \<Longrightarrow> onward old st'"
begin

lemma states_before:
  assumes "history step init (st # past)" "old \<in> set (st # past)"
  shows "inv old \<and> onward old st"
proof -
  have "\<forall>old \<in> set hist. inv old \<and> onward old (hd hist)" if "history step init hist" for hist
    using that
  proof (induction rule: history.induct)
    case began
    then show ?case using inv_init onward_refl by simp
  next
    case (moved st past st')
    then have past: "inv old \<and> onward old st" if "old \<in> set (st # past)" for old using that by auto
    have "inv st'" by (rule step_inv[OF past _ moved.hyps(2)]) simp_all
    moreover have "onward old st'" if "old \<in> set (st # past)" for old
      by (rule step_onward[OF past _ moved.hyps(2) that]) simp_all
    ultimately show ?case using past onward_refl by simp
  qed
  from this[OF assms(1)] assms(2) show ?thesis by auto
qed

lemma state_inv: "history step init hist \<Longrightarrow> st \<in> set hist \<Longrightarrow> inv st"
  by (cases hist) (use states_before in \<open>auto dest: history_nonempty\<close>)

lemma later_onward:
  assumes "history step init (newer @ st # older)" "st' \<in> set (newer @ [st])" "old \<in> set (st # older)"
  shows "onward old st'"
proof -
  obtain xs ys where split: "newer @ [st] = xs @ st' # ys" using assms(2) by (meson split_list)
  then have "newer @ st # older = xs @ st' # ys @ older" by simp
  with assms(1) have "history step init (st' # ys @ older)" by (metis history_suffix)
  moreover have "old \<in> set (st' # ys @ older)"
    using assms(3) arg_cong[OF split, of last] by (cases ys rule: rev_cases) auto
  ultimately show ?thesis using states_before by blast
qed

end

text \<open>Where \<open>onward\<close> is transitive, it is enough that a step moves on from the state it changes.\<close>

locale tracked_history =
  fixes step :: "'s set \<Rightarrow> 's \<Rightarrow> 's \<Rightarrow> bool" and init :: 's and inv :: "'s \<Rightarrow> bool" and onward :: "'s \<Rightarrow> 's \<Rightarrow> bool"
  assumes init_ok: "inv init"
    and refl: "onward st st"
    and trans: "onward a b \<Longrightarrow> onward b c \<Longrightarrow> onward a c"
    and step_ok: "(\<And>old. old \<in> past \<Longrightarrow> inv old \<and> onward old st) \<Longrightarrow> st \<in> past \<Longrightarrow> step past st st' \<Longrightarrow>
      inv st' \<and> onward st st'"

sublocale tracked_history \<subseteq> forward_history
  using init_ok refl step_ok trans by unfold_locales blast+

end
