(* ===== verification/SessionHistory.thy ===== *)
theory SessionHistory
  imports Refresh
begin

text \<open>
  The tables of sessions under concurrent requests. A history lists the states of the database, newest
  first; each step is one statement or transaction of a handler, and a refresh may act on what it read in
  any earlier state. The invariant \<open>authn_inv\<close> holds in every state of every history, and states only
  evolve forward: a revoked session or family and a consumed token stay so.
\<close>

section \<open>Steps\<close>

inductive authn_step :: "authn_state set \<Rightarrow> authn_state \<Rightarrow> authn_state \<Rightarrow> bool" for past where
  logged_in: "create_session s st = (Inr (), st1) \<Longrightarrow> create_family f st1 = (Inr (), st2) \<Longrightarrow>
    add_refresh t st2 = (Inr (), st3) \<Longrightarrow> fam_session f = ses_id s \<Longrightarrow> rt_family t = fam_id f \<Longrightarrow> authn_step past st st3"
| rotated: "old \<in> past \<Longrightarrow> refresh_lookup h now old = Inr (t, f, s) \<Longrightarrow>
    rotate_refresh (rt_id t) (successor_of t s uuid new_hash now) now st = (answer, st') \<Longrightarrow> authn_step past st st'"
| reuse_seen: "authn_step past st (revoke_for_reuse i now e st)"
| session_ended: "authn_step past st (revoke_session i now st)"
| families_ended: "authn_step past st (revoke_by_session sid reason now st)"
| user_families_ended: "authn_step past st (revoke_all_families u reason now st)"
| user_sessions_ended: "authn_step past st (snd (revoke_all_sessions u now st))"
| session_touched: "authn_step past st (touch_session sid now st)"
| session_elevated: "authn_step past st (snd (elevate_session sid aal now st))"
| redis_changed: "authn_step past st (st\<lparr>st_denied := d, st_lockouts := l, st_grace := g\<rparr>)"

inductive authn_history :: "authn_state list \<Rightarrow> bool" where
  began: "authn_history [empty_authn]"
| moved: "authn_history (st # past) \<Longrightarrow> authn_step (set (st # past)) st st' \<Longrightarrow> authn_history (st' # st # past)"

section \<open>The tables keep their keys and order\<close>

definition tokens_ok :: "refresh_token list \<Rightarrow> bool" where
  "tokens_ok ts \<longleftrightarrow> distinct (map rt_id ts) \<and> distinct (map rt_hash ts) \<and>
     (\<forall>t \<in> set ts. \<forall>u \<in> set ts. rt_family t = rt_family u \<longrightarrow>
        (rt_generation t = rt_generation u \<longrightarrow> rt_id t = rt_id u) \<and>
        (rt_status t = TokenActive \<longrightarrow> rt_generation u \<le> rt_generation t))"

definition authn_inv :: "authn_state \<Rightarrow> bool" where
  "authn_inv st \<longleftrightarrow> distinct (map ses_id (st_sessions st)) \<and> distinct (map fam_id (st_families st)) \<and>
     tokens_ok (st_refresh st) \<and> rt_family ` set (st_refresh st) \<subseteq> fam_id ` set (st_families st) \<and>
     fam_session ` set (st_families st) \<subseteq> ses_id ` set (st_sessions st)"

text \<open>What never changes of a row, and what never comes back.\<close>

definition kept :: "('r \<Rightarrow> 'r \<Rightarrow> bool) \<Rightarrow> 'r list \<Rightarrow> 'r list \<Rightarrow> bool" where
  "kept same rs rs' \<longleftrightarrow> (\<forall>r \<in> set rs. \<exists>r' \<in> set rs'. same r r')"

definition same_token :: "refresh_token \<Rightarrow> refresh_token \<Rightarrow> bool" where
  "same_token t t' \<longleftrightarrow> rt_id t' = rt_id t \<and> rt_family t' = rt_family t \<and> rt_hash t' = rt_hash t \<and>
     rt_generation t' = rt_generation t \<and> (rt_status t \<noteq> TokenActive \<longrightarrow> rt_status t' \<noteq> TokenActive)"

definition same_family :: "token_family \<Rightarrow> token_family \<Rightarrow> bool" where
  "same_family f f' \<longleftrightarrow> fam_id f' = fam_id f \<and> fam_session f' = fam_session f \<and> fam_user f' = fam_user f \<and>
     (fam_status f = FamilyRevoked \<longrightarrow> fam_status f' = FamilyRevoked)"

definition same_session :: "session \<Rightarrow> session \<Rightarrow> bool" where
  "same_session s s' \<longleftrightarrow> ses_id s' = ses_id s \<and> ses_user s' = ses_user s \<and>
     (ses_status s = SessionRevoked \<longrightarrow> ses_status s' = SessionRevoked)"

definition evolves :: "authn_state \<Rightarrow> authn_state \<Rightarrow> bool" where
  "evolves st st' \<longleftrightarrow> kept same_token (st_refresh st) (st_refresh st') \<and>
     kept same_family (st_families st) (st_families st') \<and> kept same_session (st_sessions st) (st_sessions st')"

named_theorems row_simps \<open>what a step leaves of a row\<close>

lemma same_refl [row_simps]: "same_token t t" "same_family f f" "same_session s s"
  by (simp_all add: same_token_def same_family_def same_session_def)

lemma kept_refl [row_simps]: "(\<And>r. same r r) \<Longrightarrow> kept same rs rs"
  unfolding kept_def by blast

lemma kept_trans:
  "(\<And>a b c. same a b \<Longrightarrow> same b c \<Longrightarrow> same a c) \<Longrightarrow> kept same xs ys \<Longrightarrow> kept same ys zs \<Longrightarrow> kept same xs zs"
  unfolding kept_def by meson

lemma kept_append [row_simps]: "kept same rs xs \<Longrightarrow> kept same rs (xs @ ys)"
  unfolding kept_def by auto

lemma kept_update [row_simps]:
  assumes "\<And>r. same r r" "\<And>r. same r (change r)"
  shows "kept same rs (update_where pred change rs)"
  unfolding kept_def
proof
  fix r assume "r \<in> set rs"
  then have "(if pred r then change r else r) \<in> set (update_where pred change rs)" by (auto simp: update_where_def)
  then show "\<exists>r' \<in> set (update_where pred change rs). same r r'" using assms by (cases "pred r") auto
qed

lemma evolves_refl: "evolves st st"
  by (simp add: evolves_def row_simps)

lemma evolves_trans: "evolves a b \<Longrightarrow> evolves b c \<Longrightarrow> evolves a c"
  unfolding evolves_def
  by (intro conjI; elim conjE; rule kept_trans; (assumption | auto simp: same_token_def same_family_def same_session_def))

lemma evolvesD:
  assumes "evolves st st'"
  shows "t \<in> set (st_refresh st) \<Longrightarrow> \<exists>t' \<in> set (st_refresh st'). same_token t t'"
    and "f \<in> set (st_families st) \<Longrightarrow> \<exists>f' \<in> set (st_families st'). same_family f f'"
    and "s \<in> set (st_sessions st) \<Longrightarrow> \<exists>s' \<in> set (st_sessions st'). same_session s s'"
  using assms by (auto simp: evolves_def kept_def)

lemma update_where_image: "(\<And>r. key (change r) = key r) \<Longrightarrow> key ` set (update_where pred change rs) = key ` set rs"
  using arg_cong[OF update_where_keys, of key change set pred rs] by (simp only: set_map)

lemma update_where_origin:
  "r \<in> set (update_where pred change rs) \<Longrightarrow> \<exists>r' \<in> set rs. r = r' \<or> r = change r'"
  by (auto simp: in_update_where split: if_splits)

lemma tokens_okD:
  assumes "tokens_ok ts" "t \<in> set ts" "u \<in> set ts" "rt_family t = rt_family u"
  shows "rt_generation t = rt_generation u \<Longrightarrow> rt_id t = rt_id u"
    and "rt_status t = TokenActive \<Longrightarrow> rt_generation u \<le> rt_generation t"
  using assms unfolding tokens_ok_def by blast+

lemma tokens_ok_distinct: "tokens_ok ts \<Longrightarrow> distinct (map rt_id ts)" "tokens_ok ts \<Longrightarrow> distinct (map rt_hash ts)"
  unfolding tokens_ok_def by blast+

lemma tokens_okI:
  assumes "distinct (map rt_id ts)" "distinct (map rt_hash ts)"
    and "\<And>t u. t \<in> set ts \<Longrightarrow> u \<in> set ts \<Longrightarrow> rt_family t = rt_family u \<Longrightarrow> rt_generation t = rt_generation u \<Longrightarrow> rt_id t = rt_id u"
    and "\<And>t u. t \<in> set ts \<Longrightarrow> u \<in> set ts \<Longrightarrow> rt_family t = rt_family u \<Longrightarrow> rt_status t = TokenActive \<Longrightarrow> rt_generation u \<le> rt_generation t"
  shows "tokens_ok ts"
  using assms unfolding tokens_ok_def by blast

lemma tokens_ok_update:
  assumes "tokens_ok ts" "\<And>t. rt_id (change t) = rt_id t \<and> rt_hash (change t) = rt_hash t \<and> rt_family (change t) = rt_family t \<and>
      rt_generation (change t) = rt_generation t \<and> rt_status (change t) \<noteq> TokenActive"
  shows "tokens_ok (update_where pred change ts)"
proof -
  let ?us = "update_where pred change ts"
  have origin: "\<exists>t' \<in> set ts. rt_id t = rt_id t' \<and> rt_family t = rt_family t' \<and> rt_generation t = rt_generation t' \<and>
      (rt_status t = TokenActive \<longrightarrow> rt_status t' = TokenActive)" if "t \<in> set ?us" for t
    using update_where_origin[OF that] assms(2) by metis
  show ?thesis
  proof (rule tokens_okI)
    show "distinct (map rt_id ?us)" "distinct (map rt_hash ?us)"
      using tokens_ok_distinct[OF assms(1)] assms(2) by (simp_all add: update_where_keys)
  next
    fix t u assume tu: "t \<in> set ?us" "u \<in> set ?us" "rt_family t = rt_family u"
    from origin[OF tu(1)] obtain t' where t': "t' \<in> set ts" "rt_id t = rt_id t'" "rt_family t = rt_family t'"
      "rt_generation t = rt_generation t'" "rt_status t = TokenActive \<longrightarrow> rt_status t' = TokenActive" by blast
    from origin[OF tu(2)] obtain u' where u': "u' \<in> set ts" "rt_id u = rt_id u'" "rt_family u = rt_family u'"
      "rt_generation u = rt_generation u'" by blast
    note d = tokens_okD[OF assms(1) t'(1) u'(1)]
    show "rt_generation t = rt_generation u \<Longrightarrow> rt_id t = rt_id u"
      "rt_status t = TokenActive \<Longrightarrow> rt_generation u \<le> rt_generation t"
      using d t' u' tu(3) by simp_all
  qed
qed

lemma tokens_ok_append:
  assumes "tokens_ok ts" "rt_id t \<notin> rt_id ` set ts" "rt_hash t \<notin> rt_hash ` set ts"
    and "\<And>u. u \<in> set ts \<Longrightarrow> rt_family u = rt_family t \<Longrightarrow> rt_generation u < rt_generation t \<and> rt_status u \<noteq> TokenActive"
  shows "tokens_ok (ts @ [t])"
proof -
  have pair: "(rt_generation a = rt_generation b \<longrightarrow> rt_id a = rt_id b) \<and> (rt_status a = TokenActive \<longrightarrow> rt_generation b \<le> rt_generation a)"
    if ab: "a \<in> set (ts @ [t])" "b \<in> set (ts @ [t])" "rt_family a = rt_family b" for a b
  proof -
    consider "a = t" "b = t" | "a = t" "b \<in> set ts" | "a \<in> set ts" "b = t" | "a \<in> set ts" "b \<in> set ts"
      using ab(1,2) by auto
    then show ?thesis
    proof cases
      case 2
      with assms(4)[of b] ab(3) show ?thesis by simp
    next
      case 3
      with assms(4)[of a] ab(3) show ?thesis by simp
    next
      case 4
      with tokens_okD[OF assms(1), of a b] ab(3) show ?thesis by blast
    qed simp
  qed
  show ?thesis
  proof (rule tokens_okI)
    show "distinct (map rt_id (ts @ [t]))" "distinct (map rt_hash (ts @ [t]))"
      using tokens_ok_distinct[OF assms(1)] assms(2,3) by simp_all
  qed (use pair in blast)+
qed

lemma tokens_ok_active_unique:
  assumes "tokens_ok ts" "t \<in> set ts" "u \<in> set ts" "rt_family t = rt_family u" "rt_status t = TokenActive" "rt_status u = TokenActive"
  shows "t = u"
proof -
  have "rt_generation u \<le> rt_generation t" "rt_generation t \<le> rt_generation u"
    using assms unfolding tokens_ok_def by metis+
  then have "rt_id t = rt_id u" using assms(1-4) unfolding tokens_ok_def by (meson le_antisym)
  then show ?thesis
    using assms(1-3) by (metis tokens_ok_def inj_onD[OF distinct_map[THEN iffD1, THEN conjunct2]])
qed

lemma by_id_unique: "distinct (map key rs) \<Longrightarrow> r \<in> set rs \<Longrightarrow> r' \<in> set rs \<Longrightarrow> key r = key r' \<Longrightarrow> r = r'"
  by (metis distinct_map inj_onD)

section \<open>Every step keeps the invariant and moves forward\<close>

lemma rotate_refresh_cases:
  assumes "rotate_refresh presented successor now st = (answer, st')"
  obtains (lost) "st' = st" "answer \<noteq> Inr True"
    | (won) r where "answer = Inr True" "r \<in> set (st_refresh st)" "rt_id r = presented" "rt_status r = TokenActive"
        "rt_id successor \<notin> rt_id ` set (st_refresh st)" "rt_hash successor \<notin> rt_hash ` set (st_refresh st)"
        "st' = st\<lparr>st_refresh := update_where (\<lambda>t. rt_id t = presented \<and> rt_status t = TokenActive)
           (\<lambda>t. t\<lparr>rt_status := TokenRotated, rt_consumed := Some now\<rparr>) (st_refresh st) @ [successor]\<rparr>"
proof -
  let ?hit = "\<lambda>t. rt_id t = presented \<and> rt_status t = TokenActive"
  let ?ts = "update_where ?hit (\<lambda>t. t\<lparr>rt_status := TokenRotated, rt_consumed := Some now\<rparr>) (st_refresh st)"
  have keys: "rt_id ` set ?ts = rt_id ` set (st_refresh st)" "rt_hash ` set ?ts = rt_hash ` set (st_refresh st)"
    by (simp_all add: update_where_image)
  show thesis
  proof (cases "list_ex ?hit (st_refresh st)")
    case False
    with assms have "st' = st" "answer = Inr False" by (simp_all add: rotate_refresh_def)
    then show thesis by (intro lost) simp_all
  next
    case True
    then obtain r where "r \<in> set (st_refresh st)" "?hit r" by (auto simp: list_ex_iff)
    note r = this
    show thesis
    proof (cases "rt_id successor \<in> rt_id ` set (st_refresh st) \<or> rt_hash successor \<in> rt_hash ` set (st_refresh st)")
      case dup: True
      with assms True have "st' = st" "answer = Inl (Error ''duplicate key'')"
        by (simp_all add: rotate_refresh_def add_refresh_def keys Let_def)
      then show thesis by (intro lost) simp_all
    next
      case False
      with assms True have "answer = Inr True" "st' = st\<lparr>st_refresh := ?ts @ [successor]\<rparr>"
        by (simp_all add: rotate_refresh_def add_refresh_def keys Let_def)
      with r False show thesis by (intro won[of r]) simp_all
    qed
  qed
qed

lemma refresh_lookup_okD:
  "refresh_lookup h now old = Inr (t, f, s) \<Longrightarrow> t \<in> set (st_refresh old) \<and> rt_hash t = h \<and> now < rt_expires t \<and>
     f \<in> set (st_families old) \<and> fam_id f = rt_family t \<and> fam_status f = FamilyActive \<and>
     s \<in> set (st_sessions old) \<and> ses_id s = fam_session f \<and> ses_status s = SessionActive \<and> now < ses_expires s"
  by (auto simp: refresh_lookup_def find_refresh_by_hash_def find_family_def find_session_def find_Some_iff
      split: option.splits if_splits)

lemma authn_inv_tokens: "authn_inv st \<Longrightarrow> tokens_ok (st_refresh st)"
  unfolding authn_inv_def by blast

lemma authn_inv_family: "authn_inv st \<Longrightarrow> u \<in> set (st_refresh st) \<Longrightarrow> rt_family u \<in> fam_id ` set (st_families st)"
  unfolding authn_inv_def by (elim conjE) (rule subsetD, assumption, rule imageI)

lemma create_session_okD: "create_session s st = (Inr u, st') \<Longrightarrow>
    ses_id s \<notin> ses_id ` set (st_sessions st) \<and> st' = st\<lparr>st_sessions := st_sessions st @ [s]\<rparr>"
  by (auto simp: create_session_def split: if_splits)

lemma create_family_okD: "create_family f st = (Inr u, st') \<Longrightarrow>
    fam_id f \<notin> fam_id ` set (st_families st) \<and> st' = st\<lparr>st_families := st_families st @ [f]\<rparr>"
  by (auto simp: create_family_def split: if_splits)

lemma add_refresh_okD: "add_refresh t st = (Inr u, st') \<Longrightarrow> rt_id t \<notin> rt_id ` set (st_refresh st) \<and>
    rt_hash t \<notin> rt_hash ` set (st_refresh st) \<and> st' = st\<lparr>st_refresh := st_refresh st @ [t]\<rparr>"
  by (auto simp: add_refresh_def split: if_splits)

text \<open>A step that updates the rows of one table keeps the invariant when no key changes.\<close>

lemma sessions_update_ok:
  assumes "authn_inv st" "\<And>s. same_session s (change s)"
  shows "authn_inv (st\<lparr>st_sessions := update_where pred change (st_sessions st)\<rparr>) \<and>
    evolves st (st\<lparr>st_sessions := update_where pred change (st_sessions st)\<rparr>)"
proof -
  have key: "ses_id (change s) = ses_id s" for s using assms(2)[of s] by (simp add: same_session_def)
  show ?thesis
    using assms by (simp add: authn_inv_def evolves_def row_simps update_where_keys[of ses_id, OF key] update_where_image[of ses_id, OF key])
qed

lemma families_update_ok:
  assumes "authn_inv st" "\<And>f. same_family f (change f)"
  shows "authn_inv (st\<lparr>st_families := update_where pred change (st_families st)\<rparr>) \<and>
    evolves st (st\<lparr>st_families := update_where pred change (st_families st)\<rparr>)"
proof -
  have key: "fam_id (change f) = fam_id f" "fam_session (change f) = fam_session f" for f
    using assms(2)[of f] by (simp_all add: same_family_def)
  show ?thesis
    using assms by (simp add: authn_inv_def evolves_def row_simps update_where_keys[of fam_id, OF key(1)]
      update_where_image[of fam_id, OF key(1)] update_where_image[of fam_session, OF key(2)])
qed

lemma refresh_revoked_ok:
  assumes "authn_inv st"
  shows "authn_inv (st\<lparr>st_refresh := update_where pred (\<lambda>t. t\<lparr>rt_status := TokenRevoked\<rparr>) (st_refresh st), st_outbox := out\<rparr>) \<and>
    evolves st (st\<lparr>st_refresh := update_where pred (\<lambda>t. t\<lparr>rt_status := TokenRevoked\<rparr>) (st_refresh st), st_outbox := out\<rparr>)"
proof -
  have "tokens_ok (update_where pred (\<lambda>t. t\<lparr>rt_status := TokenRevoked\<rparr>) (st_refresh st))"
    using authn_inv_tokens[OF assms] by (rule tokens_ok_update) simp
  with assms show ?thesis
    by (simp add: authn_inv_def evolves_def row_simps update_where_image[of rt_family] same_token_def)
qed

lemma redis_ok:
  "authn_inv st \<Longrightarrow> authn_inv (st\<lparr>st_denied := d, st_lockouts := l, st_grace := g\<rparr>) \<and>
    evolves st (st\<lparr>st_denied := d, st_lockouts := l, st_grace := g\<rparr>)"
  by (simp add: authn_inv_def evolves_def row_simps)

lemma reuse_ok:
  assumes "authn_inv st"
  shows "authn_inv (revoke_for_reuse i now e st) \<and> evolves st (revoke_for_reuse i now e st)"
proof -
  have first: "authn_inv (revoke_family i r now st)" "evolves st (revoke_family i r now st)" for r
    using families_update_ok[OF assms, of "revoked_family r now" "\<lambda>f. fam_id f = i"]
    by (simp_all add: revoke_family_def same_family_def revoked_family_def)
  show ?thesis
    using refresh_revoked_ok[OF first(1)] evolves_trans[OF first(2)] unfolding revoke_for_reuse_def Let_def by blast
qed

lemma step_ok:
  assumes "authn_step past st st'" "authn_inv st" "\<And>old. old \<in> past \<Longrightarrow> evolves old st"
  shows "authn_inv st' \<and> evolves st st'"
  using assms
proof (cases rule: authn_step.cases)
  case (logged_in s st1 f st2 t)
  note parts = create_session_okD[OF logged_in(1)] create_family_okD[OF logged_in(2)] add_refresh_okD[OF logged_in(3)]
  have st1: "st1 = st\<lparr>st_sessions := st_sessions st @ [s]\<rparr>" using parts(1) by blast
  have st2: "st2 = st1\<lparr>st_families := st_families st1 @ [f]\<rparr>" using parts(2) by blast
  have st3: "st' = st2\<lparr>st_refresh := st_refresh st2 @ [t]\<rparr>" using parts(3) by blast
  have st': "st' = st\<lparr>st_sessions := st_sessions st @ [s], st_families := st_families st @ [f],
      st_refresh := st_refresh st @ [t]\<rparr>"
    unfolding st3 st2 st1 by simp
  have fresh: "ses_id s \<notin> ses_id ` set (st_sessions st)" "fam_id f \<notin> fam_id ` set (st_families st)"
      "rt_id t \<notin> rt_id ` set (st_refresh st)" "rt_hash t \<notin> rt_hash ` set (st_refresh st)"
    using parts(1)[THEN conjunct1] parts(2)[THEN conjunct1, unfolded st1] parts(3)[THEN conjunct1]
      parts(3)[THEN conjunct2, THEN conjunct1] unfolding st2 st1 by simp_all
  have "rt_family u \<noteq> rt_family t" if "u \<in> set (st_refresh st)" for u
    using authn_inv_family[OF assms(2) that] fresh(2) logged_in(5) by auto
  then have "tokens_ok (st_refresh st @ [t])"
    using authn_inv_tokens[OF assms(2)] fresh(3,4) by (intro tokens_ok_append) simp_all
  moreover have "distinct (map ses_id (st_sessions st @ [s]))" "distinct (map fam_id (st_families st @ [f]))"
    using assms(2) fresh(1,2) by (simp_all add: authn_inv_def)
  moreover have "rt_family ` set (st_refresh st @ [t]) \<subseteq> fam_id ` set (st_families st @ [f])"
    "fam_session ` set (st_families st @ [f]) \<subseteq> ses_id ` set (st_sessions st @ [s])"
    using assms(2) logged_in(4,5) by (auto simp: authn_inv_def)
  ultimately show ?thesis by (simp add: st' authn_inv_def evolves_def row_simps)
next
  case (rotated old h now t f s uuid new_hash answer)
  from rotated(3) show ?thesis
  proof (cases rule: rotate_refresh_cases)
    case (won r)
    let ?hit = "\<lambda>u. rt_id u = rt_id t \<and> rt_status u = TokenActive"
    let ?rotate = "\<lambda>u. u\<lparr>rt_status := TokenRotated, rt_consumed := Some now\<rparr>"
    let ?ts = "update_where ?hit ?rotate (st_refresh st)"
    define new where "new = successor_of t s uuid new_hash now"
    have st': "st' = st\<lparr>st_refresh := ?ts @ [new]\<rparr>" using won(7) by (simp add: new_def)
    have ok: "tokens_ok (st_refresh st)" using assms(2) by (simp add: authn_inv_def)
    have "t \<in> set (st_refresh old)" using refresh_lookup_okD[OF rotated(2)] by simp
    from evolvesD(1)[OF assms(3)[OF rotated(1)] this] obtain t' where t': "t' \<in> set (st_refresh st)" "same_token t t'" by blast
    have "r = t'"
      using tokens_ok_distinct[OF ok] won(2,3) t' by (intro by_id_unique[of rt_id "st_refresh st"]) (simp_all add: same_token_def)
    then have r: "rt_family r = rt_family t" "rt_generation r = rt_generation t" using t'(2) by (simp_all add: same_token_def)
    have new: "rt_family new = rt_family r" "rt_generation new = rt_generation r + 1"
      by (simp_all add: new_def successor_of_def r)
    have old: "tokens_ok ?ts" using ok by (rule tokens_ok_update) simp
    have "rt_generation u < rt_generation new \<and> rt_status u \<noteq> TokenActive"
      if u: "u \<in> set ?ts" "rt_family u = rt_family new" for u
    proof -
      from update_where_origin[OF u(1)] obtain u' where u': "u' \<in> set (st_refresh st)" "u = u' \<or> u = ?rotate u'" by blast
      then have same: "rt_family u' = rt_family r" "rt_generation u = rt_generation u'" using u(2) new by auto
      have "rt_generation u' \<le> rt_generation r" using tokens_okD(2)[OF ok won(2) u'(1)] same(1) won(4) by simp
      moreover have "rt_status u \<noteq> TokenActive"
      proof
        assume active: "rt_status u = TokenActive"
        then have "u = u'" using u'(2) by auto
        with active same(1) have "u' = r" using tokens_ok_active_unique[OF ok u'(1) won(2)] won(4) by simp
        then have "?hit u" using \<open>u = u'\<close> won(3,4) by simp
        moreover from u(1) obtain v where "u = (if ?hit v then ?rotate v else v)" by (auto simp: in_update_where)
        ultimately show False by (cases "?hit v") auto
      qed
      ultimately show ?thesis using same(2) new(2) by simp
    qed
    moreover have "rt_id ` set ?ts = rt_id ` set (st_refresh st)" "rt_hash ` set ?ts = rt_hash ` set (st_refresh st)"
      by (simp_all add: update_where_image)
    ultimately have "tokens_ok (?ts @ [new])" using won(5,6) by (intro tokens_ok_append[OF old]) (simp_all add: new_def)
    moreover have "rt_family ` set (?ts @ [new]) \<subseteq> fam_id ` set (st_families st)"
      using assms(2) won(2) new(1) by (auto simp: authn_inv_def update_where_image)
    ultimately show ?thesis
      using assms(2) by (simp add: st' authn_inv_def evolves_def row_simps same_token_def)
  next
    case lost
    then show ?thesis using assms(2) by (simp add: evolves_refl)
  qed
next
  case (reuse_seen i now e)
  with assms(2) show ?thesis by (simp add: reuse_ok)
next
  case (session_ended i now)
  with assms(2) show ?thesis
    by (simp add: revoke_session_def sessions_update_ok same_session_def revoked_session_def)
next
  case (families_ended sid reason now)
  with assms(2) show ?thesis
    by (simp add: revoke_by_session_def families_update_ok same_family_def revoked_family_def)
next
  case (user_families_ended u reason now)
  with assms(2) show ?thesis
    by (simp add: revoke_all_families_def families_update_ok same_family_def revoked_family_def)
next
  case (user_sessions_ended u now)
  with assms(2) show ?thesis
    by (simp add: revoke_all_sessions_def Let_def sessions_update_ok same_session_def revoked_session_def)
next
  case (session_touched sid now)
  with assms(2) show ?thesis by (simp add: touch_session_def sessions_update_ok same_session_def)
next
  case (session_elevated sid aal now)
  with assms(2) show ?thesis by (simp add: elevate_session_def Let_def sessions_update_ok same_session_def)
next
  case (redis_changed d l g)
  with assms(2) redis_ok show ?thesis by simp
qed

lemma history_hd: "authn_history hist \<Longrightarrow> authn_inv (hd hist) \<and> (\<forall>old \<in> set (tl hist). evolves old (hd hist))"
proof (induction rule: authn_history.induct)
  case began
  show ?case by (simp add: authn_inv_def empty_authn_def tokens_ok_def)
next
  case (moved st past st')
  then have inv: "authn_inv st" and before: "\<forall>old \<in> set past. evolves old st" by simp_all
  have all: "evolves old st" if "old \<in> set (st # past)" for old using that before evolves_refl by auto
  from step_ok[OF moved.hyps(2) inv this] have "authn_inv st'" "evolves st st'" by simp_all
  then show ?case using all evolves_trans by auto
qed

lemma history_inv: "authn_history (st # past) \<Longrightarrow> authn_inv st \<and> (\<forall>old \<in> set past. evolves old st)"
  using history_hd by fastforce

lemma history_tail: "authn_history hist \<Longrightarrow> hist = newer @ st # older \<Longrightarrow> authn_history (st # older)"
proof (induction arbitrary: newer rule: authn_history.induct)
  case began
  then show ?case by (cases newer) (auto intro: authn_history.began)
next
  case (moved st0 past st')
  show ?case
  proof (cases newer)
    case Nil
    with moved.prems moved.hyps show ?thesis by (auto intro: authn_history.moved)
  next
    case (Cons n ns)
    with moved.prems have "st0 # past = ns @ st # older" by simp
    then show ?thesis by (rule moved.IH)
  qed
qed

text \<open>Every state of a history is sane, and evolves into each later one.\<close>

lemma history_state_inv:
  assumes "authn_history hist" "st \<in> set hist"
  shows "authn_inv st"
proof -
  obtain newer older where "hist = newer @ st # older" using split_list[OF assms(2)] by blast
  from history_inv[OF history_tail[OF assms(1) this]] show ?thesis by blast
qed

lemma history_evolves:
  assumes "authn_history (newer @ st # older)" "st' \<in> set newer"
  shows "evolves st st'"
proof -
  from assms(2) obtain a b where "newer = a @ st' # b" by (meson split_list)
  with assms(1) have "authn_history (a @ st' # (b @ st # older))" by simp
  from history_inv[OF history_tail[OF this refl]] show ?thesis by simp
qed

lemma later_history: "authn_history (newer @ st # older) \<Longrightarrow> st' \<in> set (newer @ [st]) \<Longrightarrow> evolves st st'"
  using history_evolves evolves_refl by auto

section \<open>The handlers are made of these steps\<close>

lemma history_step:
  "authn_history (st # past) \<Longrightarrow> authn_step (set (st # past)) st st' \<Longrightarrow> \<exists>mid. authn_history (st' # mid @ st # past)"
  using authn_history.moved[of st past st'] by (intro exI[of _ "[]"]) simp

lemma history_redis:
  "authn_history (st # past) \<Longrightarrow> authn_history (st\<lparr>st_denied := d, st_lockouts := l, st_grace := g\<rparr> # st # past)"
  by (intro authn_history.moved authn_step.redis_changed)

lemma redis_ops:
  "revoke_subject up now x ttl st = st\<lparr>st_denied := st_denied (revoke_subject up now x ttl st), st_lockouts := st_lockouts st, st_grace := st_grace st\<rparr>"
  "grace_put up now h pair ttl st = st\<lparr>st_denied := st_denied st, st_lockouts := st_lockouts st, st_grace := st_grace (grace_put up now h pair ttl st)\<rparr>"
  by (simp_all add: revoke_subject_def grace_put_def)

lemma history_terminate:
  assumes "authn_history (st # past)"
  shows "\<exists>mid. authn_history (terminate_one reason up ttl now sid st # mid @ st # past)"
proof -
  let ?a = "revoke_by_session (SessionId sid) reason now st"
  let ?b = "revoke_session (SessionId sid) now ?a"
  have "authn_history (?b # ?a # st # past)"
    by (intro authn_history.moved authn_step.session_ended authn_step.families_ended assms)
  from history_redis[OF this, where d = "st_denied (terminate_one reason up ttl now sid st)" and l = "st_lockouts ?b" and g = "st_grace ?b"]
  have "authn_history (terminate_one reason up ttl now sid st # ?b # ?a # st # past)"
    using redis_ops(1)[of up now "sid_subject sid" ttl ?b] by (simp add: terminate_one_def)
  then show ?thesis by (intro exI[of _ "[?b, ?a]"]) simp
qed

lemma rotate_refresh_lost: "rotate_refresh presented successor now st = (answer, st') \<Longrightarrow> answer \<noteq> Inr True \<Longrightarrow> st' = st"
  by (erule rotate_refresh_cases) simp_all

lemma try_rotate_cases:
  assumes "try_rotate cfg up issue digest uuid new_raw t f s hash now moments st = (outcome, st1)"
  obtains (failed) e where "outcome = Inl e" "st1 = st"
    | (lost) "outcome = Inr (replay_from_grace up t hash (take race_retries moments))" "st1 = st"
        "fst (rotate_refresh (rt_id t) (successor_of t s uuid (digest new_raw) now) now st) = Inr False"
    | (won) access st2 where "issue (refresh_claims f s) = Inr access"
        "rotate_refresh (rt_id t) (successor_of t s uuid (digest new_raw) now) now st = (Inr True, st2)"
        "outcome = Inr (Some \<lparr>rr_access_token = iss_token access, rr_refresh_token = new_raw, rr_expires_in = iss_expires_in access\<rparr>)"
        "st1 = grace_put up now hash \<lparr>gp_access_token = iss_token access, gp_refresh_token = new_raw,
            gp_expires_in = iss_expires_in access, gp_successor_generation = rt_generation t + 1\<rparr>
          (grace_seconds cfg) (touch_session (ses_id s) now st2)"
proof (cases "issue (refresh_claims f s)")
  case (Inl e)
  with assms show thesis by (intro failed[of e]) (simp_all add: try_rotate_def)
next
  case (Inr access)
  obtain answer st2 where rot: "rotate_refresh (rt_id t) (successor_of t s uuid (digest new_raw) now) now st = (answer, st2)"
    by fastforce
  consider e where "answer = Inl e" | "answer = Inr False" | "answer = Inr True" by (cases answer) auto
  then show thesis
  proof cases
    case (1 e)
    with rotate_refresh_lost[OF rot] assms Inr rot show thesis by (intro failed[of e]) (simp_all add: try_rotate_def)
  next
    case 2
    with rotate_refresh_lost[OF rot] assms Inr rot show thesis by (intro lost) (simp_all add: try_rotate_def)
  next
    case 3
    with assms Inr rot show thesis by (intro won[of access st2]) (simp_all add: try_rotate_def successor_of_def)
  qed
qed

lemma refresh_execute_cases:
  assumes "refresh_execute cfg up issue digest uuid new_raw now raw old moments st = (answer, st')"
  obtains (invalid) e where "refresh_lookup (digest raw) now old = Inl e" "answer = Inr (err e)" "st' = st"
    | (failed) e where "answer = Inl e" "st' = st"
    | (replayed) t tries r where "set tries \<subseteq> set moments" "replay_from_grace up t (digest raw) tries = Some r"
        "answer = Inr (ok r)" "st' = st"
    | (reused) t f s where "refresh_lookup (digest raw) now old = Inr (t, f, s)" "answer = Inr (err RefreshReuse)"
        "st' = handle_reuse cfg up t f s now st"
    | (won) t f s access st2 where "refresh_lookup (digest raw) now old = Inr (t, f, s)" "rt_status t = TokenActive"
        "issue (refresh_claims f s) = Inr access"
        "rotate_refresh (rt_id t) (successor_of t s uuid (digest new_raw) now) now st = (Inr True, st2)"
        "answer = Inr (ok \<lparr>rr_access_token = iss_token access, rr_refresh_token = new_raw, rr_expires_in = iss_expires_in access\<rparr>)"
        "st' = grace_put up now (digest raw) \<lparr>gp_access_token = iss_token access, gp_refresh_token = new_raw,
            gp_expires_in = iss_expires_in access, gp_successor_generation = rt_generation t + 1\<rparr>
          (grace_seconds cfg) (touch_session (ses_id s) now st2)"
proof (cases "refresh_lookup (digest raw) now old")
  case (Inl e)
  with assms show thesis by (intro that(1)[of e]) (simp_all add: refresh_execute_def)
next
  case (Inr found)
  obtain t f s where found: "refresh_lookup (digest raw) now old = Inr (t, f, s)" using Inr by (cases found) auto
  have settle: thesis if "(answer, st') = (case replay_from_grace up t (digest raw) (take n moments) of Some r \<Rightarrow> (Inr (ok r), st)
      | None \<Rightarrow> (Inr (err RefreshReuse), handle_reuse cfg up t f s now st))" for n
    using that found replayed[OF set_take_subset] reused
    by (cases "replay_from_grace up t (digest raw) (take n moments)") auto
  show thesis
  proof (cases "rt_status t = TokenActive")
    case False
    with assms found show thesis
      by (intro settle[of 1]) (simp add: refresh_execute_def split: option.splits)
  next
    case True
    obtain outcome st1 where tried: "try_rotate cfg up issue digest uuid new_raw t f s (digest raw) now moments st = (outcome, st1)"
      by fastforce
    note run = assms[unfolded refresh_execute_def Let_def found]
    from tried show thesis
    proof (cases rule: try_rotate_cases)
      case (failed e)
      with run True tried show thesis by (intro that(2)[of e]) simp_all
    next
      case lost
      with run True tried show thesis
        by (intro settle[of race_retries]) (simp split: option.splits)
    next
      case (won access st2)
      with run True tried show thesis by (intro that(5)[OF found True won(1,2)]) simp_all
    qed
  qed
qed

lemma replay_from_graceD:
  "replay_from_grace up t h tries = Some r \<Longrightarrow> \<exists>(now, st) \<in> set tries. \<exists>c. grace_get up now h st = Some c \<and>
     r = \<lparr>rr_access_token = gp_access_token c, rr_refresh_token = gp_refresh_token c, rr_expires_in = gp_expires_in c\<rparr>"
  by (induction up t h tries rule: replay_from_grace.induct) (auto split: option.splits if_splits)

lemma history_reuse:
  assumes "authn_history (st # past)"
  shows "\<exists>mid. authn_history (handle_reuse cfg up t f s now st # mid @ st # past)"
proof -
  let ?e = "\<lparr>reuse_user = user_value (fam_user f), reuse_session = sid_value (fam_session f), reuse_generation = rt_generation t\<rparr>"
  let ?a = "revoke_for_reuse (fam_id f) now ?e st"
  let ?b = "revoke_session (ses_id s) now ?a"
  have "authn_history (?b # ?a # st # past)"
    by (intro authn_history.moved authn_step.session_ended authn_step.reuse_seen assms)
  from history_redis[OF this, where d = "st_denied (handle_reuse cfg up t f s now st)" and l = "st_lockouts ?b" and g = "st_grace ?b"]
  have "authn_history (handle_reuse cfg up t f s now st # ?b # ?a # st # past)"
    using redis_ops(1)[of up now "sid_subject (sid_value (ses_id s))" "access_ttl_seconds cfg" ?b] by (simp add: handle_reuse_def)
  then show ?thesis by (intro exI[of _ "[?b, ?a]"]) simp
qed

lemma history_refresh:
  assumes "authn_history (st # past)" "old \<in> set (st # past)"
    and "refresh_execute cfg up issue digest uuid new_raw now raw old moments st = (answer, st')"
  shows "st' = st \<or> (\<exists>mid. authn_history (st' # mid @ st # past))"
  using assms(3)
proof (cases rule: refresh_execute_cases)
  case (reused t f s)
  with history_reuse[OF assms(1)] show ?thesis by blast
next
  case (won t f s access st2)
  let ?touched = "touch_session (ses_id s) now st2"
  have "authn_history (st2 # st # past)"
    using authn_step.rotated[OF assms(2) won(1,4)] assms(1) by (intro authn_history.moved)
  then have "authn_history (?touched # st2 # st # past)"
    by (intro authn_history.moved[of st2] authn_step.session_touched)
  from history_redis[OF this, where d = "st_denied ?touched" and l = "st_lockouts ?touched" and g = "st_grace st'"]
  have "authn_history (st' # ?touched # st2 # st # past)"
    using redis_ops(2)[of up now "digest raw" _ _ ?touched] won(6) by metis
  then have "authn_history (st' # [?touched, st2] @ st # past)" by simp
  then show ?thesis by blast
qed simp_all

end
