(* ===== verification/SessionSafety.thy ===== *)
theory SessionSafety
  imports SessionHistory Guards
begin

text \<open>
  What the life of a session guarantees, over the histories of SessionHistory: one live refresh token
  per family, single use of a refresh token, and the finality of logout for refresh tokens and, while
  the revocation entry lasts, for access tokens.
\<close>

section \<open>Lookups in a sane state\<close>

lemma find_unique:
  assumes "distinct (map key rs)" "r \<in> set rs"
  shows "find (\<lambda>r'. key r' = key r) rs = Some r"
proof -
  obtain r' where r': "find (\<lambda>r'. key r' = key r) rs = Some r'"
    using assms(2) by (metis (mono_tags, lifting) find_None_iff not_None_eq)
  then have "r' \<in> set rs" "key r' = key r" by (auto simp: find_Some_iff)
  with by_id_unique[OF assms(1)] assms(2) have "r' = r" by metis
  with r' show ?thesis by simp
qed

lemma finds:
  assumes "authn_inv st"
  shows "s \<in> set (st_sessions st) \<Longrightarrow> find_session (ses_id s) st = Some s"
    and "f \<in> set (st_families st) \<Longrightarrow> find_family (fam_id f) st = Some f"
    and "t \<in> set (st_refresh st) \<Longrightarrow> find_refresh_by_hash (rt_hash t) st = Some t"
  using assms tokens_ok_distinct(2)[OF authn_inv_tokens[OF assms]]
  by (simp_all add: find_session_def find_family_def find_refresh_by_hash_def authn_inv_def find_unique)

lemma lookup_ended_session:
  assumes "authn_inv old" "t \<in> set (st_refresh old)" "f \<in> set (st_families old)" "rt_family t = fam_id f"
    and "s \<in> set (st_sessions old)" "ses_id s = fam_session f" "ses_status s = SessionRevoked \<or> fam_status f = FamilyRevoked"
  shows "refresh_lookup (rt_hash t) now old = err RefreshInvalid"
  using assms(2,4,5,7) finds(1)[OF assms(1,5)] finds(2)[OF assms(1,3)] finds(3)[OF assms(1,2)] assms(6)
  by (auto simp: refresh_lookup_def)

lemma history_lookup_sane: "authn_history hist \<Longrightarrow> st \<in> set hist \<Longrightarrow> refresh_lookup h now st = Inr (t, f, s) \<Longrightarrow>
    find_refresh_by_hash h st = Some t"
  using refresh_lookup_okD finds(3)[OF history_state_inv] by metis

lemma updated_rows:
  assumes "r \<in> set (update_where pred change rs)" "pred r" "\<And>r. pred (change r) = pred r" "\<And>r. Q (change r)"
  shows "Q r"
  using assms by (metis in_update_where)

section \<open>Ended sessions\<close>

lemma terminate_one_revokes:
  assumes "s \<in> set (st_sessions st)" "ses_id s = SessionId sid"
  shows "\<exists>s' \<in> set (st_sessions (terminate_one reason up ttl now sid st)). ses_id s' = SessionId sid \<and> ses_status s' = SessionRevoked"
proof -
  have "revoked_session now s \<in> set (st_sessions (terminate_one reason up ttl now sid st))"
    using assms
    by (auto simp: terminate_one_def revoke_subject_def revoke_session_def revoke_by_session_def in_update_where intro!: bexI[of _ s])
  with assms(2) show ?thesis by (intro bexI) (auto simp: revoked_session_def)
qed

lemma revoked_session_stays:
  assumes "evolves st st'" "s \<in> set (st_sessions st)" "ses_status s = SessionRevoked"
  shows "\<exists>s' \<in> set (st_sessions st'). ses_id s' = ses_id s \<and> ses_status s' = SessionRevoked"
  using evolvesD(3)[OF assms(1,2)] assms(3) by (auto simp: same_session_def)

lemma denied_until:
  "is_revoked True later (sid_subject sid) (terminate_one reason True ttl now sid st) \<longleftrightarrow> later < now + max 1 ttl * 1000"
  by (simp add: terminate_one_def is_revoked_def revoke_subject_def live_def)

text \<open>A token while its session is ended: the guard answers by the token's lifetime and the revocation entry.\<close>

lemma guarded_after_logout:
  assumes "issue_token p cfg active sign jti now claims = Inr t"
    and "vc_issuer vcfg = at_issuer cfg" "vc_audience vcfg = at_audience cfg"
    and "decodable_token p cfg \<lparr>is_kid = key_kid active, is_jti = jti, is_at = now, is_claims = claims\<rparr>"
    and "kid_resolvable keys later (key_kid active) cache k" "jwk_alg k = ''EdDSA''"
    and "\<forall>text_to_sign. ed_verify p (jwk_x k) text_to_sign (sig_value (sign text_to_sign (key_version active))) \<and>
      CHR ''.'' \<notin> set (sig_value (sign text_to_sign (key_version active)))"
    and "now div 1000 - vc_clock_skew vcfg \<le> later div 1000" "js_trim (iss_token t) = iss_token t"
  shows "fst (access_token_guard p vcfg keys later (Some (bearer @ iss_token t)) cache True
      (terminate_session True ttl tm (claim_sid claims) st)) =
    (if later div 1000 < now div 1000 + at_ttl_seconds cfg + vc_clock_skew vcfg \<and> tm + max 1 ttl * 1000 \<le> later
     then Inr (ok (the (read_claims (JObject (token_payload cfg jti now claims))))) else Inr (err unauthorized))"
  unfolding issued_token_guarded[OF assms] terminate_session_def denied_until by auto

section \<open>A sample history\<close>

definition sample_session :: session where
  "sample_session = \<lparr>ses_id = SessionId ''s1'', ses_user = UserId ''ann'', ses_org = None, ses_aal = 1, ses_auth_time = 0,
     ses_status = SessionActive, ses_device_label = None, ses_user_agent = None, ses_ip = None, ses_created = 0,
     ses_last_seen = 0, ses_expires = 100000000, ses_revoked_at = None\<rparr>"

definition sample_family :: token_family where
  "sample_family = \<lparr>fam_id = TokenFamilyId ''f1'', fam_user = UserId ''ann'', fam_session = SessionId ''s1'',
     fam_status = FamilyActive, fam_created = 0, fam_revoked_at = None, fam_revoked_reason = None\<rparr>"

definition sample_refresh :: refresh_token where
  "sample_refresh = \<lparr>rt_id = ''t1'', rt_family = TokenFamilyId ''f1'', rt_hash = ''r1'', rt_generation = 1,
     rt_status = TokenActive, rt_created = 0, rt_expires = 100000000, rt_consumed = None\<rparr>"

definition sample_login :: authn_state where
  "sample_login = empty_authn\<lparr>st_sessions := [sample_session], st_families := [sample_family], st_refresh := [sample_refresh]\<rparr>"

definition sample_refresh_config :: refresh_config where
  "sample_refresh_config = \<lparr>grace_seconds = 10, access_ttl_seconds = 900\<rparr>"

definition sample_issue :: "access_token_claims \<Rightarrow> issued_access_token throws" where
  "sample_issue claims = Inr \<lparr>iss_token = ''a'', iss_jti = ''j'', iss_expires_at = 900000, iss_expires_in = 900\<rparr>"

abbreviation sample_refreshed :: "date \<Rightarrow> string \<Rightarrow> authn_state \<Rightarrow> (date \<times> authn_state) list \<Rightarrow> authn_state \<Rightarrow>
    (refresh_result, refresh_error) result throws \<times> authn_state" where
  "sample_refreshed now uuid old moments st \<equiv>
     refresh_execute sample_refresh_config True sample_issue id uuid (''r-'' @ uuid) now ''r1'' old moments st"

lemmas sample_simps = sample_session_def sample_family_def sample_refresh_def sample_login_def empty_authn_def

lemma sample_login_history: "authn_history [sample_login, empty_authn]"
proof -
  let ?st1 = "empty_authn\<lparr>st_sessions := [sample_session]\<rparr>"
  let ?st2 = "?st1\<lparr>st_families := [sample_family]\<rparr>"
  have "authn_step {empty_authn} empty_authn sample_login"
  proof (rule authn_step.logged_in)
    show "create_session sample_session empty_authn = (Inr (), ?st1)" by (simp add: create_session_def empty_authn_def)
    show "create_family sample_family ?st1 = (Inr (), ?st2)" by (simp add: create_family_def empty_authn_def)
    show "add_refresh sample_refresh ?st2 = (Inr (), sample_login)"
      by (simp add: add_refresh_def sample_login_def empty_authn_def)
  qed (simp_all add: sample_session_def sample_family_def sample_refresh_def)
  then show ?thesis using authn_history.moved[OF authn_history.began] by simp
qed

text \<open>The token of the login is rotated at second 1, then the session is logged out at second 2.\<close>

definition sample_rotated :: authn_state where
  "sample_rotated = snd (rotate_refresh ''t1'' (successor_of sample_refresh sample_session ''t2'' ''r2'' 1000) 1000 sample_login)"

lemma sample_lookup: "refresh_lookup ''r1'' 1000 sample_login = Inr (sample_refresh, sample_family, sample_session)"
  by (simp add: refresh_lookup_def find_refresh_by_hash_def find_family_def find_session_def sample_simps)

lemma sample_rotation:
  "rotate_refresh (rt_id sample_refresh) (successor_of sample_refresh sample_session ''t2'' ''r2'' 1000) 1000 sample_login =
     (Inr True, sample_rotated)"
  by (simp add: sample_rotated_def rotate_refresh_def add_refresh_def successor_of_def update_where_def sample_simps)

lemma sample_rotated_history: "authn_history [sample_rotated, sample_login, empty_authn]"
  using sample_login_history
  by (rule authn_history.moved) (rule authn_step.rotated[OF _ sample_lookup sample_rotation], simp)

lemma sample_rotated_tokens:
  "st_refresh sample_rotated = [sample_refresh\<lparr>rt_status := TokenRotated, rt_consumed := Some 1000\<rparr>,
     successor_of sample_refresh sample_session ''t2'' ''r2'' 1000]"
  by (simp add: sample_rotated_def rotate_refresh_def add_refresh_def successor_of_def update_where_def sample_simps)

lemma sample_rotated_rows: "st_sessions sample_rotated = [sample_session]" "st_families sample_rotated = [sample_family]"
  "st_grace sample_rotated = (\<lambda>_. None)"
  by (simp_all add: sample_rotated_def rotate_refresh_def add_refresh_def update_where_def successor_of_def sample_simps)

definition sample_replay :: authn_state where
  "sample_replay = grace_put True 1000 ''r1'' \<lparr>gp_access_token = ''a'', gp_refresh_token = ''r2'', gp_expires_in = 900,
     gp_successor_generation = 2\<rparr> 10 sample_rotated"

lemma sample_replay_history: "authn_history [sample_replay, sample_rotated, sample_login, empty_authn]"
  using history_redis[OF sample_rotated_history, where d = "st_denied sample_replay" and l = "st_lockouts sample_replay"
      and g = "st_grace sample_replay"]
  by (simp add: sample_replay_def grace_put_def)

section \<open>Properties\<close>

text \<open>C24: a family has at most one live refresh token: in every state of every history, beside an active token
  of a family all its other tokens are consumed or revoked and of a strictly lower generation.\<close>
theorem one_active_token_per_family:
  assumes "authn_history hist" "st \<in> set hist" "t \<in> set (st_refresh st)" "u \<in> set (st_refresh st)"
    and "rt_family u = rt_family t" "rt_status t = TokenActive"
  shows "u = t \<or> rt_status u \<noteq> TokenActive \<and> rt_generation u < rt_generation t"
proof -
  have ok: "tokens_ok (st_refresh st)" using history_state_inv[OF assms(1,2)] by (rule authn_inv_tokens)
  note pair = tokens_okD[OF ok assms(3,4) assms(5)[symmetric]]
  show ?thesis
  proof (cases "u = t")
    case False
    then have "rt_id u \<noteq> rt_id t" using by_id_unique[OF tokens_ok_distinct(1)[OF ok] assms(4,3)] by blast
    with pair assms(6) have "rt_generation u < rt_generation t" by fastforce
    moreover have "rt_status u \<noteq> TokenActive"
      using tokens_ok_active_unique[OF ok assms(4,3,5) _ assms(6)] False by blast
    ultimately show ?thesis by blast
  qed simp
qed

theorem one_active_token_per_family_witness:
  "rt_status (hd (st_refresh sample_rotated)) \<noteq> TokenActive \<and>
     rt_generation (hd (st_refresh sample_rotated)) < rt_generation (last (st_refresh sample_rotated))"
  using one_active_token_per_family[OF sample_rotated_history,
      of sample_rotated "last (st_refresh sample_rotated)" "hd (st_refresh sample_rotated)"]
  by (simp add: sample_rotated_tokens successor_of_def sample_refresh_def)

lemma guard_refuses_denied:
  assumes "is_revoked reach seen_at (sid_subject (tok_sid claims)) st"
  shows "fst (access_token_guard p vcfg keys seen_at header cache reach st) \<noteq> Inr (ok claims)"
proof
  assume "fst (access_token_guard p vcfg keys seen_at header cache reach st) = Inr (ok claims)"
  then obtain cache' where "access_token_guard p vcfg keys seen_at header cache reach st = (Inr (ok claims), cache')"
    by (metis prod.collapse)
  from access_token_guard_okD[OF this] assms show False by blast
qed

lemma terminate_one_denies:
  "st_denied (terminate_one reason True ttl tm sid st) (sid_subject sid) = Some (tm + max 1 ttl * 1000)"
  by (simp add: terminate_one_def revoke_subject_def Let_def split: prod.split)

text \<open>C27: logout is final: once a session has been ended, in every later state of every history each refresh
  token of each of its families is answered as invalid without any change, and the session is listed no more. And
  within the lifetime of the revocation entry, in every such state that still holds the entry the logout wrote, the
  access-token guard lets no token of the session pass, whatever it is sent and whether or not it reaches the store.\<close>
theorem logout_is_final:
  assumes "authn_history (newer @ terminate_one reason up ttl tm sid st # past)"
    and "SessionId sid \<in> ses_id ` set (st_sessions st)"
    and "old \<in> set (newer @ [terminate_one reason up ttl tm sid st])"
    and "f \<in> set (st_families old)" "fam_session f = SessionId sid"
    and "t \<in> set (st_refresh old)" "rt_family t = fam_id f" "rt_hash t = digest raw"
  shows "refresh_execute cfg up' issue digest uuid new_raw now raw old moments cur = (Inr (err RefreshInvalid), cur) \<and>
    (\<forall>view \<in> set (list_sessions u current old). view_id view \<noteq> sid) \<and>
    (up \<and> seen_at < tm + max 1 ttl * 1000 \<and> tok_sid claims = sid \<and>
       st_denied old (sid_subject sid) = st_denied (terminate_one reason up ttl tm sid st) (sid_subject sid) \<longrightarrow>
     fst (access_token_guard p vcfg keys seen_at header cache reach old) \<noteq> Inr (ok claims))"
proof -
  let ?ended = "terminate_one reason up ttl tm sid st"
  have guard: "fst (access_token_guard p vcfg keys seen_at header cache reach old) \<noteq> Inr (ok claims)"
    if "up" "seen_at < tm + max 1 ttl * 1000" "tok_sid claims = sid" "st_denied old (sid_subject sid) = st_denied ?ended (sid_subject sid)"
  proof (rule guard_refuses_denied)
    show "is_revoked reach seen_at (sid_subject (tok_sid claims)) old"
      using that terminate_one_denies[of reason ttl tm sid st] by (simp add: is_revoked_def live_def)
  qed
  obtain s where "s \<in> set (st_sessions st)" "ses_id s = SessionId sid" using assms(2) by (metis imageE)
  from terminate_one_revokes[OF this] obtain s1 where
    s1: "s1 \<in> set (st_sessions ?ended)" "ses_id s1 = SessionId sid" "ses_status s1 = SessionRevoked" by blast
  have "evolves ?ended old" using later_history[OF assms(1,3)] .
  from revoked_session_stays[OF this s1(1,3)] s1(2) obtain s2 where
    s2: "s2 \<in> set (st_sessions old)" "ses_id s2 = SessionId sid" "ses_status s2 = SessionRevoked" by auto
  have "old \<in> set (newer @ ?ended # past)" using assms(3) by auto
  then have inv: "authn_inv old" by (rule history_state_inv[OF assms(1)])
  have "refresh_lookup (digest raw) now old = err RefreshInvalid"
    using lookup_ended_session[OF inv assms(6,4,7) s2(1)] s2 assms(5,8) by simp
  moreover have "ses_id s3 \<noteq> SessionId sid" if "s3 \<in> set (st_sessions old)" "ses_status s3 = SessionActive" for s3
    using by_id_unique[of ses_id "st_sessions old" s3 s2] inv s2 that by (auto simp: authn_inv_def)
  ultimately have "refresh_execute cfg up' issue digest uuid new_raw now raw old moments cur = (Inr (err RefreshInvalid), cur)"
    "\<forall>view \<in> set (list_sessions u current old). view_id view \<noteq> sid"
    by (auto simp: refresh_execute_def list_sessions_def list_active_sessions_def) (metis session_id.collapse)
  with guard show ?thesis by blast
qed

definition sample_ended :: authn_state where
  "sample_ended = terminate_session True 900 2000 ''s1'' sample_rotated"

theorem logout_is_final_witness:
  "fst (sample_refreshed 3000 ''t3'' sample_ended [] sample_ended) = Inr (err RefreshInvalid) \<and>
   fst (access_token_guard (sample_jwt (\<lambda>t. True)) sample_vc_config sample_keys 3000 (Some (bearer @ sample_token)) None True sample_ended) \<noteq>
     Inr (ok \<lparr>tok_sub = ''ann'', tok_sid = ''s1'', tok_org = None, tok_jti = ''j1'', tok_aal = 1, tok_exp = 901\<rparr>)"
proof -
  let ?claims = "\<lparr>tok_sub = ''ann'', tok_sid = ''s1'', tok_org = None, tok_jti = ''j1'', tok_aal = 1, tok_exp = 901\<rparr>"
  obtain mid where "authn_history (sample_ended # mid @ [sample_rotated, sample_login, empty_authn])"
    using history_terminate[OF sample_rotated_history] unfolding sample_ended_def terminate_session_def by blast
  then have hist: "authn_history ([] @ terminate_one ''logout'' True 900 2000 ''s1'' sample_rotated #
      (mid @ [sample_rotated, sample_login, empty_authn]))"
    by (simp add: sample_ended_def terminate_session_def)
  have old: "st_families sample_ended = [revoked_family ''logout'' 2000 sample_family]"
    "st_refresh sample_ended = st_refresh sample_rotated"
    by (simp_all add: sample_ended_def terminate_session_def terminate_one_def revoke_subject_def revoke_session_def
        revoke_by_session_def update_where_def sample_rotated_rows) (simp add: sample_simps)
  have "refresh_execute sample_refresh_config True sample_issue id ''t3'' ''r-t3'' 3000 ''r1'' sample_ended [] sample_ended =
      (Inr (err RefreshInvalid), sample_ended) \<and> (\<forall>view \<in> set (list_sessions ''ann'' ''s1'' sample_ended). view_id view \<noteq> ''s1'') \<and>
      (True \<and> 3000 < 2000 + max 1 (900 :: int) * 1000 \<and> tok_sid ?claims = ''s1'' \<and>
         st_denied sample_ended (sid_subject ''s1'') =
           st_denied (terminate_one ''logout'' True 900 2000 ''s1'' sample_rotated) (sid_subject ''s1'') \<longrightarrow>
       fst (access_token_guard (sample_jwt (\<lambda>t. True)) sample_vc_config sample_keys 3000 (Some (bearer @ sample_token)) None True sample_ended) \<noteq>
         Inr (ok ?claims))"
  proof (rule logout_is_final[OF hist])
    show "hd (st_refresh sample_ended) \<in> set (st_refresh sample_ended)" by (simp add: old sample_rotated_tokens)
    show "hd (st_families sample_ended) \<in> set (st_families sample_ended)" by (simp add: old)
  qed (simp_all add: old sample_rotated_tokens sample_rotated_rows, simp_all add: revoked_family_def sample_ended_def
      terminate_session_def sample_simps)
  then show ?thesis by (simp add: sample_ended_def terminate_session_def)
qed

lemma lookup_session: "refresh_lookup hash now old = Inr (t, f, s) \<Longrightarrow> fam_session f = ses_id s"
  by (auto simp: refresh_lookup_def find_session_def dest!: find_Some_iff[THEN iffD1] split: option.splits if_splits)



text \<open>C25: a refresh token is exchanged at most once: after the rotation that consumed it, a refresh with the same
  token that still succeeds, whatever it read before and however requests interleave, changes nothing and
  repeats a pair found in the replay cache under that very token.\<close>
theorem refresh_token_is_used_once:
  assumes "authn_history (cur # between)" "cur # between = newer @ st1 # st # past"
    and "old \<in> set (st # past)" "refresh_lookup (digest raw) now old = Inr (t, f, s)"
    and "rotate_refresh (rt_id t) successor now st = (Inr True, st1)"
    and "old' \<in> set (cur # between)"
    and "refresh_execute cfg up issue digest uuid new_raw now' raw old' moments cur = (Inr (ok r), cur')"
  shows "cur' = cur \<and> (\<exists>(tm, st2) \<in> set moments. \<exists>c. grace_get up tm (digest raw) st2 = Some c \<and>
    r = \<lparr>rr_access_token = gp_access_token c, rr_refresh_token = gp_refresh_token c, rr_expires_in = gp_expires_in c\<rparr>)"
  using assms(7)
proof (cases rule: refresh_execute_cases)
  case (replayed t' tries r')
  from replay_from_graceD[OF replayed(2)] obtain tm st2 c where c: "(tm, st2) \<in> set tries"
    "grace_get up tm (digest raw) st2 = Some c"
    "r' = \<lparr>rr_access_token = gp_access_token c, rr_refresh_token = gp_refresh_token c, rr_expires_in = gp_expires_in c\<rparr>"
    by blast
  from c(1) replayed(1) have "(tm, st2) \<in> set moments" by blast
  with c(2,3) replayed(3,4) show ?thesis by auto
next
  case (won t' f' s' access st2)
  have all: "authn_history (newer @ st1 # st # past)" using assms(1,2) by simp
  have sane: "authn_inv cur" using history_state_inv[OF assms(1)] by simp
  have before: "evolves x cur" if "x \<in> set (cur # between)" for x
    using history_inv[OF assms(1)] that evolves_refl by auto
  have states: "set (cur # between) = set (newer @ st1 # st # past)" by (simp only: assms(2))
  have "old \<in> set (cur # between)" unfolding states using assms(3) by auto
  with refresh_lookup_okD[OF assms(4)] obtain t1 where t1: "t1 \<in> set (st_refresh cur)" "same_token t t1"
    using evolvesD(1)[OF before] by blast
  from refresh_lookup_okD[OF won(1)] obtain t2 where t2: "t2 \<in> set (st_refresh cur)" "same_token t' t2"
    using evolvesD(1)[OF before[OF assms(6)]] by blast
  have "rt_hash t1 = digest raw" "rt_hash t2 = digest raw"
    using refresh_lookup_okD[OF assms(4)] refresh_lookup_okD[OF won(1)] t1(2) t2(2) by (simp_all add: same_token_def)
  then have "t1 = t2"
    using by_id_unique[OF tokens_ok_distinct(2)[OF authn_inv_tokens[OF sane]] t1(1) t2(1)] by simp
  then have ids: "rt_id t' = rt_id t" using t1(2) t2(2) by (simp add: same_token_def)
  from assms(5) obtain d where d: "d \<in> set (st_refresh st1)" "rt_id d = rt_id t" "rt_status d \<noteq> TokenActive"
  proof (cases rule: rotate_refresh_cases)
    case (won r0)
    let ?rotate = "\<lambda>u. u\<lparr>rt_status := TokenRotated, rt_consumed := Some now\<rparr>"
    have "?rotate r0 \<in> set (st_refresh st1)" using won(2-4,7) by (auto simp: in_update_where intro!: bexI[of _ r0])
    with won(3) show thesis by (intro that[of "?rotate r0"]) simp_all
  qed simp
  have "st1 \<in> set (cur # between)" unfolding states by simp
  from evolvesD(1)[OF before[OF this] d(1)] obtain d' where
    d': "d' \<in> set (st_refresh cur)" "rt_id d' = rt_id t" "rt_status d' \<noteq> TokenActive"
    using d(2,3) by (auto simp: same_token_def)
  from won(4) obtain a where "a \<in> set (st_refresh cur)" "rt_id a = rt_id t'" "rt_status a = TokenActive"
    by (cases rule: rotate_refresh_cases) auto
  with d' ids have False
    using by_id_unique[OF tokens_ok_distinct(1)[OF authn_inv_tokens[OF sane]], of a d'] by auto
  then show ?thesis ..
qed simp_all

theorem refresh_token_is_used_once_witness:
  "sample_refreshed 5000 ''t3'' sample_login [(5000, sample_replay)] sample_replay =
     (Inr (ok \<lparr>rr_access_token = ''a'', rr_refresh_token = ''r2'', rr_expires_in = 900\<rparr>), sample_replay)"
proof -
  obtain answer cur' where run: "sample_refreshed 5000 ''t3'' sample_login [(5000, sample_replay)] sample_replay = (answer, cur')"
    by fastforce
  have tokens: "st_refresh sample_replay = st_refresh sample_rotated" by (simp add: sample_replay_def grace_put_def)
  have cached: "grace_get True 5000 ''r1'' sample_replay = Some \<lparr>gp_access_token = ''a'', gp_refresh_token = ''r2'',
      gp_expires_in = 900, gp_successor_generation = 2\<rparr>"
    by (simp add: sample_replay_def grace_put_def grace_get_def live_def)
  have "find_active_by_family (rt_family sample_refresh) sample_replay = Some (successor_of sample_refresh sample_session ''t2'' ''r2'' 1000)"
    by (simp add: find_active_by_family_def tokens sample_rotated_tokens successor_of_def sample_refresh_def)
  then have replay: "replay_from_grace True sample_refresh ''r1'' (take race_retries [(5000, sample_replay)]) =
      Some \<lparr>rr_access_token = ''a'', rr_refresh_token = ''r2'', rr_expires_in = 900\<rparr>"
    by (simp add: race_retries_def cached) (simp add: successor_of_def sample_refresh_def)
  have look: "refresh_lookup (id ''r1'') 5000 sample_login = Inr (sample_refresh, sample_family, sample_session)"
    by (simp add: refresh_lookup_def find_refresh_by_hash_def find_family_def find_session_def sample_simps)
  have lost: "rotate_refresh ''t1'' succ 5000 sample_replay = (Inr False, sample_replay)" for succ
    by (simp add: rotate_refresh_def tokens sample_rotated_tokens) (simp add: successor_of_def)
  have active: "rt_status sample_refresh = TokenActive" "rt_id sample_refresh = ''t1''" by (simp_all add: sample_refresh_def)
  have answer: "answer = Inr (ok \<lparr>rr_access_token = ''a'', rr_refresh_token = ''r2'', rr_expires_in = 900\<rparr>)"
    using run look lost[of "successor_of sample_refresh sample_session ''t3'' ''r-t3'' 5000"] replay active
    by (simp add: refresh_execute_def try_rotate_def sample_issue_def Let_def)
  have look0: "refresh_lookup (id ''r1'') 1000 sample_login = Inr (sample_refresh, sample_family, sample_session)"
    using sample_lookup by simp
  have "cur' = sample_replay \<and> (\<exists>(tm, st2) \<in> set [(5000, sample_replay)]. \<exists>c. grace_get True tm (id ''r1'') st2 = Some c \<and>
      \<lparr>rr_access_token = ''a'', rr_refresh_token = ''r2'', rr_expires_in = 900\<rparr> =
        \<lparr>rr_access_token = gp_access_token c, rr_refresh_token = gp_refresh_token c, rr_expires_in = gp_expires_in c\<rparr>)"
    by (rule refresh_token_is_used_once[OF sample_replay_history _ _ look0 sample_rotation _ run[unfolded answer],
          where newer = "[sample_replay]"]) simp_all
  with run answer show ?thesis by simp
qed

text \<open>C28: an access token outlives the revocation of its session by at most the clock skew: after a logout at time tm
  a token of the session is refused as long as the revocation entry lives, and after that exactly
  while the verifier still accepts it, so a token no older at the logout than the clock skew is accepted again.\<close>
theorem revocation_lasts_the_token_lifetime:
  assumes "issue_token p cfg active sign jti now claims = Inr t"
    and "vc_issuer vcfg = at_issuer cfg" "vc_audience vcfg = at_audience cfg"
    and "decodable_token p cfg \<lparr>is_kid = key_kid active, is_jti = jti, is_at = now, is_claims = claims\<rparr>"
    and "kid_resolvable keys later (key_kid active) cache k" "jwk_alg k = ''EdDSA''"
    and "\<forall>text_to_sign. ed_verify p (jwk_x k) text_to_sign (sig_value (sign text_to_sign (key_version active))) \<and>
      CHR ''.'' \<notin> set (sig_value (sign text_to_sign (key_version active)))"
    and "now div 1000 - vc_clock_skew vcfg \<le> later div 1000" "js_trim (iss_token t) = iss_token t"
    and "0 < at_ttl_seconds cfg"
  shows "fst (access_token_guard p vcfg keys later (Some (bearer @ iss_token t)) cache True
      (terminate_session True (at_ttl_seconds cfg) tm (claim_sid claims) st)) =
    (if tm + at_ttl_seconds cfg * 1000 \<le> later \<and> later div 1000 < now div 1000 + at_ttl_seconds cfg + vc_clock_skew vcfg
     then Inr (ok (the (read_claims (JObject (token_payload cfg jti now claims))))) else Inr (err unauthorized))"
  unfolding guarded_after_logout[OF assms(1-9)] using assms(10) by (simp add: max_def conj_commute)

theorem revocation_lasts_the_token_lifetime_witness:
  "fst (access_token_guard (sample_jwt (\<lambda>t. True)) sample_vc_config sample_keys 910000 (Some (bearer @ sample_token)) None True
      (terminate_session True 900 5000 ''s1'' sample_login)) =
     Inr (ok \<lparr>tok_sub = ''ann'', tok_sid = ''s1'', tok_org = None, tok_jti = ''j1'', tok_aal = 1, tok_exp = 901\<rparr>)"
proof -
  let ?p = "sample_jwt (\<lambda>t. True)" and ?sign = "\<lambda>t v. \<lparr>sig_kid = ''k1'', sig_value = mask_dots t\<rparr>"
  let ?active = "\<lparr>key_version = 1, key_kid = ''k1''\<rparr>"
  let ?t = "\<lparr>iss_token = sample_token, iss_jti = ''j1'', iss_expires_at = 901000, iss_expires_in = 900\<rparr>"
  have issue: "issue_token ?p sample_at_config ?active ?sign ''j1'' 1000 sample_claims = Inr ?t"
    using sample_input[of "\<lambda>t. True"]
    by (simp add: issue_token_def issued_input_def sample_issuance_def sample_token_def mask_dots_def)
       (simp add: sample_at_config_def)
  have "fst (access_token_guard ?p sample_vc_config sample_keys 910000 (Some (bearer @ iss_token ?t)) None True
      (terminate_session True (at_ttl_seconds sample_at_config) 5000 (claim_sid sample_claims) sample_login)) =
    (if 5000 + at_ttl_seconds sample_at_config * 1000 \<le> 910000 \<and>
        910000 div 1000 < 1000 div 1000 + at_ttl_seconds sample_at_config + vc_clock_skew sample_vc_config
     then Inr (ok (the (read_claims (JObject (token_payload sample_at_config ''j1'' 1000 sample_claims)))))
     else Inr (err unauthorized))"
  proof (rule revocation_lasts_the_token_lifetime[OF issue, where k = "jwk_of (hd sample_keys)"])
    show "decodable_token ?p sample_at_config
        \<lparr>is_kid = key_kid ?active, is_jti = ''j1'', is_at = 1000, is_claims = sample_claims\<rparr>"
      using sample_decodable by (simp add: sample_issuance_def)
    show "js_trim (iss_token ?t) = iss_token ?t" by (simp add: sample_token_def js_trim_plain is_space_def)
  qed (auto simp: sample_vc_config_def sample_at_config_def sample_keys_def kid_resolvable_def jwk_of_def sample_jwt_def mask_dots_def)
  then show ?thesis
    by (simp add: sample_at_config_def sample_vc_config_def issued_claims_read sample_claims_def)
qed

end
