(* ===== verification/Accounts.thy ===== *)
theory Accounts
  imports Identity Histories SessionSafety
begin

text \<open>
  The accounts under concurrent requests. A step is one statement or transaction of a handler of Identity,
  on data the handler read in any earlier state. \<open>identity_ok\<close> is the uniqueness the tables keep,
  \<open>identity_onward\<close> says that accounts and tokens stay, and that a spent token stays spent.
\<close>

section \<open>Steps\<close>

inductive identity_step :: "identity_state set \<Rightarrow> identity_state \<Rightarrow> identity_state \<Rightarrow> bool" for past where
  user_registered: "(\<And>old. old \<in> past \<Longrightarrow> i \<notin> usr_id ` set (id_users old)) \<Longrightarrow>
    save_user (user_register i email encoded now) st = (answer, st') \<Longrightarrow> identity_step past st st'"
| email_verified: "old \<in> past \<Longrightarrow> find_user_by_id i old = Some u \<Longrightarrow>
    save_user (user_verify_email now u) st = (answer, st') \<Longrightarrow> identity_step past st st'"
| password_changed: "old \<in> past \<Longrightarrow> find_user_by_id i old = Some u \<Longrightarrow>
    save_user (user_change_password encoded now u) st = (answer, st') \<Longrightarrow> identity_step past st st'"
| verification_saved: "save_verification (verification_token_issue i u h now ttl) st = (answer, st') \<Longrightarrow> identity_step past st st'"
| verification_used: "identity_step past st (consume_verification (verification_token_consume now t) st)"
| reset_saved: "save_reset (reset_token_issue i u h now ttl) st = (answer, st') \<Longrightarrow> identity_step past st st'"
| reset_used: "identity_step past st (consume_reset (reset_token_consume now t) st)"
| mail_sent: "identity_step past st (send_mail message st)"

abbreviation identity_history :: "identity_state list \<Rightarrow> bool" where
  "identity_history \<equiv> history identity_step empty_identity"

section \<open>What the tables keep\<close>

definition once_ok :: "one_time_token list \<Rightarrow> bool" where
  "once_ok ts \<longleftrightarrow> distinct (map ot_id ts) \<and> distinct (map ot_hash ts)"

definition identity_ok :: "identity_state \<Rightarrow> bool" where
  "identity_ok st \<longleftrightarrow> distinct (map usr_id (id_users st)) \<and> distinct (map usr_email (id_users st)) \<and>
     once_ok (id_verifications st) \<and> once_ok (id_resets st)"

definition same_user :: "user \<Rightarrow> user \<Rightarrow> bool" where
  "same_user u u' \<longleftrightarrow> usr_id u' = usr_id u \<and> usr_email u' = usr_email u \<and> usr_created u' = usr_created u"

definition same_once :: "one_time_token \<Rightarrow> one_time_token \<Rightarrow> bool" where
  "same_once t t' \<longleftrightarrow> ot_id t' = ot_id t \<and> ot_hash t' = ot_hash t \<and> ot_user t' = ot_user t \<and> ot_expires t' = ot_expires t \<and>
     (ot_consumed t \<noteq> None \<longrightarrow> ot_consumed t' \<noteq> None)"

definition identity_onward :: "identity_state \<Rightarrow> identity_state \<Rightarrow> bool" where
  "identity_onward st st' \<longleftrightarrow> kept same_user (id_users st) (id_users st') \<and>
     kept same_once (id_verifications st) (id_verifications st') \<and> kept same_once (id_resets st) (id_resets st')"

lemma same_user_refl [simp]: "same_user u u"
  by (simp add: same_user_def)

lemma same_once_refl [simp]: "same_once t t"
  by (simp add: same_once_def)

lemma identity_onward_refl: "identity_onward st st"
  by (simp add: identity_onward_def kept_refl)

lemma identity_onward_trans: "identity_onward a b \<Longrightarrow> identity_onward b c \<Longrightarrow> identity_onward a c"
  unfolding identity_onward_def
  by (intro conjI; elim conjE; rule kept_trans; (assumption | auto simp: same_user_def same_once_def))

lemma once_spent:
  assumes "once_ok ts"
  shows "once_ok (update_where pred (\<lambda>r. r\<lparr>ot_consumed := Some now\<rparr>) ts)"
    and "kept same_once ts (update_where pred (\<lambda>r. r\<lparr>ot_consumed := Some now\<rparr>) ts)"
  using assms by (auto simp: once_ok_def update_where_keys same_once_def intro!: kept_update)

lemma once_added: "once_ok ts \<Longrightarrow> token_free t ts \<Longrightarrow> once_ok (ts @ [t])"
  by (simp add: once_ok_def token_free_def)

text \<open>A user is written where its id is present, and inserted when neither id nor address is.\<close>

lemma save_user_cases:
  assumes "save_user (u, events) st = (answer, st')"
  obtains (changed) "usr_id u \<in> usr_id ` set (id_users st)" "answer = Inr ()" "id_outbox st' = id_outbox st @ events"
      "id_users st' = update_where (\<lambda>r. usr_id r = usr_id u) (\<lambda>r. r\<lparr>usr_status := usr_status u, usr_password := usr_password u,
         usr_verified_at := usr_verified_at u, usr_updated := usr_updated u\<rparr>) (id_users st)"
      "id_verifications st' = id_verifications st" "id_resets st' = id_resets st"
  | (added) "usr_id u \<notin> usr_id ` set (id_users st)" "usr_email u \<notin> usr_email ` set (id_users st)" "answer = Inr ()"
      "id_users st' = id_users st @ [u]" "id_outbox st' = id_outbox st @ events"
      "id_verifications st' = id_verifications st" "id_resets st' = id_resets st"
  | (refused) "usr_id u \<notin> usr_id ` set (id_users st)" "usr_email u \<in> usr_email ` set (id_users st)"
      "answer = Inl (Error ''duplicate key'')" "st' = st"
  using assms by (auto simp: save_user_def split: if_splits)

lemma user_saved_onward:
  assumes "save_user changed st = (answer, st')" "identity_ok st"
  shows "identity_ok st' \<and> identity_onward st st'"
proof -
  obtain u events where "changed = (u, events)" by fastforce
  with assms(1) have "save_user (u, events) st = (answer, st')" by simp
  then show ?thesis
  proof (cases rule: save_user_cases)
    case changed
    then show ?thesis
      using assms(2) by (auto simp: identity_ok_def identity_onward_def update_where_keys same_user_def kept_refl intro!: kept_update)
  next
    case added
    then show ?thesis using assms(2) by (auto simp: identity_ok_def identity_onward_def kept_refl kept_append)
  qed (use assms(2) in \<open>simp add: identity_onward_refl\<close>)
qed

lemma identity_step_onward:
  assumes "\<And>old. old \<in> past \<Longrightarrow> identity_ok old \<and> identity_onward old st" "st \<in> past" "identity_step past st st'"
  shows "identity_ok st' \<and> identity_onward st st'"
proof -
  have ok: "identity_ok st" using assms(1,2) by blast
  from assms(3) show ?thesis
  proof cases
    case verification_saved
    then show ?thesis
      using ok once_added by (auto simp: save_verification_def identity_ok_def identity_onward_def kept_refl kept_append split: if_splits)
  next
    case reset_saved
    then show ?thesis
      using ok once_added by (auto simp: save_reset_def identity_ok_def identity_onward_def kept_refl kept_append split: if_splits)
  next
    case verification_used
    then show ?thesis
      using ok
      by (simp add: consume_verification_def verification_token_consume_def identity_ok_def identity_onward_def kept_refl once_spent)
  next
    case reset_used
    then show ?thesis
      using ok by (simp add: consume_reset_def reset_token_consume_def identity_ok_def identity_onward_def kept_refl once_spent)
  next
    case mail_sent
    then show ?thesis using ok by (simp add: send_mail_def identity_ok_def identity_onward_def kept_refl)
  qed (use ok user_saved_onward in blast)+
qed

interpretation accounts: tracked_history identity_step empty_identity identity_ok identity_onward
proof unfold_locales
  show "identity_ok empty_identity" by (simp add: empty_identity_def identity_ok_def once_ok_def)
qed (fact identity_onward_refl identity_onward_trans identity_step_onward)+

section \<open>Ending all sessions of a user\<close>

lemma denied_each:
  "st_denied (foldl (\<lambda>st sid. revoke_subject up now (sid_subject sid) ttl st) st sids) key =
     (if up \<and> key \<in> sid_subject ` set sids then Some (now + max 1 ttl * 1000) else st_denied st key)"
  by (induction sids arbitrary: st) (auto simp: revoke_subject_def)

lemma denying_keeps:
  "st_sessions (foldl (\<lambda>st sid. revoke_subject up now (sid_subject sid) ttl st) st sids) = st_sessions st"
  "st_families (foldl (\<lambda>st sid. revoke_subject up now (sid_subject sid) ttl st) st sids) = st_families st"
  by (induction sids arbitrary: st) (simp_all add: revoke_subject_def)

definition user_signed_out :: "bool \<Rightarrow> int \<Rightarrow> date \<Rightarrow> user_id \<Rightarrow> authn_state \<Rightarrow> authn_state \<Rightarrow> bool" where
  "user_signed_out up ttl now u before after \<longleftrightarrow>
     (\<forall>s \<in> set (st_sessions after). ses_user s = u \<longrightarrow> ses_status s = SessionRevoked) \<and>
     (\<forall>f \<in> set (st_families after). fam_user f = u \<longrightarrow> fam_status f = FamilyRevoked) \<and>
     (up \<longrightarrow> (\<forall>s \<in> set (st_sessions before). ses_user s = u \<longrightarrow> ses_status s = SessionActive \<longrightarrow>
       (\<forall>later < now + max 1 ttl * 1000. is_revoked True later (sid_subject (sid_value (ses_id s))) after)))"

lemma terminate_all_signs_out: "user_signed_out up ttl now u st (terminate_all_for_user up ttl now u st)"
proof -
  let ?hit = "\<lambda>s. ses_user s = u \<and> ses_status s = SessionActive"
  let ?families = "update_where (\<lambda>f. fam_user f = u \<and> fam_status f = FamilyActive) (revoked_family ''logout_all'' now) (st_families st)"
  have rows: "st_sessions (terminate_all_for_user up ttl now u st) = update_where ?hit (revoked_session now) (st_sessions st)"
      "st_families (terminate_all_for_user up ttl now u st) = ?families"
    by (simp_all add: terminate_all_for_user_def revoke_all_sessions_def revoke_all_families_def denying_keeps Let_def)
  let ?sids = "map (sid_value \<circ> ses_id) (filter ?hit (st_sessions st))"
  have each: "st_denied (terminate_all_for_user True ttl now u st) key =
      (if key \<in> sid_subject ` set ?sids then Some (now + max 1 ttl * 1000) else st_denied st key)" for key
    by (simp add: terminate_all_for_user_def revoke_all_sessions_def revoke_all_families_def denied_each Let_def
        del: set_map set_filter)
  have denied: "st_denied (terminate_all_for_user True ttl now u st) (sid_subject (sid_value (ses_id s))) =
      Some (now + max 1 ttl * 1000)" if "s \<in> set (st_sessions st)" "?hit s" for s
  proof -
    have "sid_value (ses_id s) \<in> set ?sids" using that by auto
    then show ?thesis unfolding each by (simp only: imageI if_True)
  qed
  show ?thesis
    unfolding user_signed_out_def rows
  proof (intro conjI ballI allI impI)
    fix s assume s: "s \<in> set (update_where ?hit (revoked_session now) (st_sessions st))" "ses_user s = u"
    from s(1) obtain r where r: "s = (if ?hit r then revoked_session now r else r)" unfolding in_update_where by blast
    then show "ses_status s = SessionRevoked"
      using s(2) by (cases "?hit r"; cases "ses_status r") (simp_all add: revoked_session_def)
  next
    fix f assume f: "f \<in> set ?families" "fam_user f = u"
    from f(1) obtain r where r: "f = (if fam_user r = u \<and> fam_status r = FamilyActive then revoked_family ''logout_all'' now r else r)"
      unfolding in_update_where by blast
    then show "fam_status f = FamilyRevoked"
      using f(2) by (cases "fam_user r = u"; cases "fam_status r") (simp_all add: revoked_family_def)
  next
    fix s later assume "up" "s \<in> set (st_sessions st)" "ses_user s = u" "ses_status s = SessionActive" "later < now + max 1 ttl * 1000"
    then show "is_revoked True later (sid_subject (sid_value (ses_id s))) (terminate_all_for_user up ttl now u st)"
      using denied by (simp add: is_revoked_def live_def)
  qed
qed

section \<open>Resetting a password\<close>

lemma reset_password_okD:
  assumes "reset_password digest encoded up ttl now raw pw old st sessions = (Inr (ok ()), st', sessions')"
  obtains t u st1 where "find_reset (digest raw) old = Some t" "ot_consumed t = None" "now < ot_expires t"
    "find_user_by_id (ot_user t) old = Some u" "save_user (user_change_password encoded now u) st = (Inr (), st1)"
    "st' = consume_reset (reset_token_consume now t) st1" "sessions' = terminate_all_for_user up ttl now (usr_id u) sessions"
  using assms
  by (auto simp: reset_password_def reset_token_consumed_def reset_token_expired_def
      split: sum.splits option.splits if_splits prod.splits)

lemma find_keyD: "find (\<lambda>r. key r = k) rs = Some r \<Longrightarrow> r \<in> set rs \<and> key r = k"
  by (auto simp: find_Some_iff)

text \<open>A token read in any state of a history is, in every later state, the token found under its hash.\<close>

lemma reset_kept:
  assumes "identity_history (newer @ st # older)" "st' \<in> set (newer @ [st])" "old \<in> set (st # older)"
    and "find_reset h old = Some t"
  shows "\<exists>t'. find_reset h st' = Some t' \<and> same_once t t'"
proof -
  have t: "t \<in> set (id_resets old)" "ot_hash t = h" using find_keyD[of ot_hash] assms(4) unfolding find_reset_def by blast+
  have onward: "identity_onward old st'" using accounts.later_onward[OF assms(1-3)] .
  then obtain t' where t': "t' \<in> set (id_resets st')" "same_once t t'"
    using t(1) by (auto simp: identity_onward_def kept_def)
  have "identity_ok st'" using accounts.state_inv[OF assms(1)] assms(2) by auto
  then have "distinct (map ot_hash (id_resets st'))" by (simp add: identity_ok_def once_ok_def)
  from find_unique[OF this t'(1)] t' t(2) show ?thesis by (auto simp: find_reset_def same_once_def)
qed

lemma same_once_spent: "same_once t t' \<Longrightarrow> ot_consumed t \<noteq> None \<Longrightarrow> ot_consumed t' \<noteq> None"
  by (simp add: same_once_def)

lemma user_kept:
  assumes "identity_onward old st" "find_user_by_id i old = Some u"
  shows "i \<in> usr_id ` set (id_users st)"
proof -
  have "u \<in> set (id_users old)" "usr_id u = i" using find_keyD[of usr_id] assms(2) unfolding find_user_by_id_def by blast+
  then show ?thesis using assms(1) by (auto simp: identity_onward_def kept_def same_user_def image_iff) metis
qed

lemma changed_password_found:
  assumes "save_user (user_change_password encoded now u) st = (Inr (), st1)" "usr_id u \<in> usr_id ` set (id_users st)" "identity_ok st"
  shows "\<exists>u'. find_user_by_id (usr_id u) st1 = Some u' \<and> usr_password u' = encoded"
proof -
  let ?f = "\<lambda>r. r\<lparr>usr_status := usr_status u, usr_password := encoded, usr_verified_at := usr_verified_at u, usr_updated := now\<rparr>"
  have users: "id_users st1 = update_where (\<lambda>r. usr_id r = usr_id u) ?f (id_users st)"
    using assms(1,2) by (auto simp: user_change_password_def save_user_def)
  obtain r where r: "r \<in> set (id_users st)" "usr_id r = usr_id u" using assms(2) by auto
  have "?f r \<in> set (id_users st1)" using r unfolding users in_update_where by (intro bexI[of _ r]) simp_all
  moreover have "distinct (map usr_id (id_users st1))" using assms(3) by (simp add: users update_where_keys identity_ok_def)
  ultimately have "find_user_by_id (usr_id (?f r)) st1 = Some (?f r)" unfolding find_user_by_id_def by (intro find_unique)
  with r(2) show ?thesis by (intro exI[of _ "?f r"]) simp
qed

lemma consumed_reset_spent:
  assumes "find_reset h (consume_reset (reset_token_consume now t) st) = Some t'" "ot_id t' = ot_id t"
  shows "ot_consumed t' = Some now"
proof -
  have "t' \<in> set (update_where (\<lambda>r. ot_id r = ot_id t) (\<lambda>r. r\<lparr>ot_consumed := Some now\<rparr>) (id_resets st))"
    using find_keyD[of ot_hash] assms(1) by (auto simp: find_reset_def consume_reset_def reset_token_consume_def)
  then obtain r where "t' = (if ot_id r = ot_id t then r\<lparr>ot_consumed := Some now\<rparr> else r)" unfolding in_update_where by blast
  with assms(2) show ?thesis by (simp split: if_splits)
qed

section \<open>A sample history\<close>

definition sample_account :: user where
  "sample_account = fst (user_register (UserId ''ann'') ''ann@x.org'' ''old-hash'' 0)"

definition sample_reset :: one_time_token where
  "sample_reset = reset_token_issue ''t1'' (UserId ''ann'') ''h1'' 1000 reset_ttl_minutes"

definition sample_registered :: identity_state where
  "sample_registered = empty_identity\<lparr>id_users := [sample_account],
     id_outbox := snd (user_register (UserId ''ann'') ''ann@x.org'' ''old-hash'' 0)\<rparr>"

definition sample_requested :: identity_state where
  "sample_requested = sample_registered\<lparr>id_resets := [sample_reset]\<rparr>"

definition sample_changed :: identity_state where
  "sample_changed = sample_requested\<lparr>id_users := [fst (user_change_password ''new-hash'' 2000 sample_account)],
     id_outbox := id_outbox sample_registered @ snd (user_change_password ''new-hash'' 2000 sample_account)\<rparr>"

definition sample_spent :: identity_state where
  "sample_spent = consume_reset (reset_token_consume 2000 sample_reset) sample_changed"

lemma sample_save: "save_user (user_change_password ''new-hash'' 2000 sample_account) sample_requested = (Inr (), sample_changed)"
  by (simp add: save_user_def user_change_password_def sample_changed_def sample_requested_def sample_registered_def
      update_where_def sample_account_def user_register_def empty_identity_def)

lemma sample_finds: "find_user_by_id (UserId ''ann'') sample_requested = Some sample_account"
    "find_reset ''h1'' sample_requested = Some sample_reset"
  by (simp_all add: find_user_by_id_def find_reset_def sample_requested_def sample_registered_def sample_account_def
      sample_reset_def user_register_def reset_token_issue_def)

lemma sample_identity_history: "identity_history [sample_spent, sample_changed, sample_requested, sample_registered, empty_identity]"
proof -
  have "save_user (user_register (UserId ''ann'') ''ann@x.org'' ''old-hash'' 0) empty_identity = (Inr (), sample_registered)"
    by (simp add: save_user_def user_register_def sample_registered_def sample_account_def empty_identity_def)
  then have "identity_step (set [empty_identity]) empty_identity sample_registered"
    by (rule identity_step.user_registered[rotated]) (simp add: empty_identity_def)
  with history.began have h1: "identity_history [sample_registered, empty_identity]" by (rule history.moved)
  have "save_reset (reset_token_issue ''t1'' (UserId ''ann'') ''h1'' 1000 reset_ttl_minutes) sample_registered = (Inr (), sample_requested)"
    by (simp add: save_reset_def token_free_def sample_requested_def sample_registered_def empty_identity_def sample_reset_def)
  from history.moved[OF h1 identity_step.reset_saved[OF this]]
  have h2: "identity_history [sample_requested, sample_registered, empty_identity]" .
  have "sample_requested \<in> set [sample_requested, sample_registered, empty_identity]" by simp
  from history.moved[OF h2 identity_step.password_changed[OF this sample_finds(1) sample_save]]
  have h3: "identity_history [sample_changed, sample_requested, sample_registered, empty_identity]" .
  from history.moved[OF h3 identity_step.reset_used] show ?thesis unfolding sample_spent_def .
qed

section \<open>Properties\<close>

text \<open>C30: an address has one account, for good: in every history of concurrent registrations, verifications and
  resets, an account that exists in some state is in each later state the only one with its address, under its
  identifier and creation date.\<close>
theorem one_account_per_address:
  assumes "identity_history (newer @ st # older)" "st' \<in> set (newer @ [st])" "u \<in> set (id_users st)"
  shows "\<exists>u'. {v \<in> set (id_users st'). usr_email v = usr_email u} = {u'} \<and> usr_id u' = usr_id u \<and> usr_created u' = usr_created u"
proof -
  have "identity_onward st st'" using accounts.later_onward[OF assms(1,2)] by simp
  then obtain u' where u': "u' \<in> set (id_users st')" "same_user u u'" using assms(3) by (auto simp: identity_onward_def kept_def)
  have "identity_ok st'" using accounts.state_inv[OF assms(1)] assms(2) by auto
  then have "distinct (map usr_email (id_users st'))" by (simp add: identity_ok_def)
  note only = by_id_unique[OF this _ u'(1)]
  have u: "usr_email u' = usr_email u" "usr_id u' = usr_id u" "usr_created u' = usr_created u"
    using u'(2) by (simp_all add: same_user_def)
  have "{v \<in> set (id_users st'). usr_email v = usr_email u} = {u'}"
  proof (intro equalityI subsetI)
    fix v assume "v \<in> {v \<in> set (id_users st'). usr_email v = usr_email u}"
    then have "v = u'" using only[of v] u(1) by simp
    then show "v \<in> {u'}" by simp
  qed (use u'(1) u(1) in simp)
  with u show ?thesis by blast
qed

theorem one_account_per_address_witness:
  "\<exists>u'. {v \<in> set (id_users sample_spent). usr_email v = ''ann@x.org''} = {u'} \<and> usr_id u' = UserId ''ann''"
  using one_account_per_address[of "[sample_spent, sample_changed, sample_requested]" sample_registered "[empty_identity]"
      sample_spent sample_account] sample_identity_history
  by (auto simp: sample_registered_def sample_account_def user_register_def)

text \<open>A completed password reset takes effect: the token was live, the account has the new password, all its
  sessions and token families are revoked and the access tokens of its sessions denied, and in every later state
  the same token is refused.\<close>
theorem password_reset_takes_effect:
  assumes "identity_history (newer @ st' # between @ st # older)" "old \<in> set (st # older)"
    and "reset_password digest encoded up ttl now raw pw old st sessions = (Inr (ok ()), st', sessions')"
  shows "\<exists>t u. find_reset (digest raw) old = Some t \<and> ot_consumed t = None \<and> now < ot_expires t \<and>
    find_user_by_id (ot_user t) st' = Some u \<and> usr_password u = encoded \<and>
    user_signed_out up ttl now (ot_user t) sessions sessions' \<and>
    (\<forall>seen \<in> set (newer @ [st']). \<forall>encoded2 up2 ttl2 now2 st2 sessions2.
      reset_password digest encoded2 up2 ttl2 now2 raw pw seen st2 sessions2 = (Inr (err ResetInvalidToken), st2, sessions2))"
proof -
  from assms(3) obtain t u st1 where t: "find_reset (digest raw) old = Some t" "ot_consumed t = None" "now < ot_expires t"
    and u: "find_user_by_id (ot_user t) old = Some u" "save_user (user_change_password encoded now u) st = (Inr (), st1)"
    and st': "st' = consume_reset (reset_token_consume now t) st1" and sessions': "sessions' = terminate_all_for_user up ttl now (usr_id u) sessions"
    by (rule reset_password_okD)
  have hist: "identity_history (st' # between @ st # older)" using assms(1) by (rule history_suffix)
  then have hist_st: "identity_history (st # older)" using history_suffix[of _ _ "st' # between"] by simp
  have uid: "usr_id u = ot_user t" using find_keyD[of usr_id] u(1) unfolding find_user_by_id_def by blast
  have "identity_onward old st" "identity_ok st"
    using accounts.states_before[OF hist_st assms(2)] accounts.states_before[OF hist_st, of st] by auto
  from changed_password_found[OF u(2) _ this(2)] user_kept[OF this(1) u(1)] obtain u' where
    u': "find_user_by_id (ot_user t) st1 = Some u'" "usr_password u' = encoded" unfolding uid by auto
  have "identity_history ([] @ st' # between @ st # older)" "old \<in> set (st' # between @ st # older)" using hist assms(2) by auto
  from reset_kept[OF this(1) _ this(2) t(1)] obtain t' where t': "find_reset (digest raw) st' = Some t'" "same_once t t'" by auto
  have "ot_consumed t' = Some now"
    using consumed_reset_spent t' unfolding st' by (simp add: same_once_def)
  then have refused: "reset_password digest encoded2 up2 ttl2 now2 raw pw seen st2 sessions2 = (Inr (err ResetInvalidToken), st2, sessions2)"
    if "seen \<in> set (newer @ [st'])" for seen encoded2 up2 ttl2 now2 st2 sessions2
    using reset_kept[OF assms(1) that _ t'(1)] assms(3) same_once_spent
    by (auto simp: reset_password_def reset_token_consumed_def split: sum.splits)
  have "find_user_by_id (ot_user t) st' = Some u'" using u'(1) by (simp add: st' consume_reset_def find_user_by_id_def)
  with t u'(2) terminate_all_signs_out[of up ttl now "usr_id u" sessions] refused show ?thesis
    unfolding sessions' uid by blast
qed


theorem password_reset_takes_effect_witness:
  "\<exists>u. find_user_by_id (UserId ''ann'') sample_spent = Some u \<and> usr_password u = ''new-hash'' \<and>
     user_signed_out True 900 2000 (UserId ''ann'') sample_login (terminate_all_for_user True 900 2000 (UserId ''ann'') sample_login)"
proof -
  have uid: "ot_user sample_reset = UserId ''ann''" by (simp add: sample_reset_def reset_token_issue_def)
  have "reset_password id ''new-hash'' True 900 2000 ''h1'' ''password1'' sample_requested sample_requested sample_login =
      (Inr (ok ()), sample_spent, terminate_all_for_user True 900 2000 (UserId ''ann'') sample_login)"
    using sample_finds sample_save
    by (simp add: reset_password_def password_create_def uid sample_spent_def)
       (simp add: sample_reset_def reset_token_issue_def reset_token_consumed_def reset_token_expired_def reset_ttl_minutes_def
         sample_account_def user_register_def)
  from password_reset_takes_effect[where newer = "[]" and between = "[sample_changed]" and older = "[sample_registered, empty_identity]",
      OF _ _ this] sample_identity_history
  show ?thesis using sample_finds(2) uid by auto
qed

section \<open>A race\<close>

text \<open>Saving a user writes every column: a verification that read the account before a password reset puts
  the old password hash back.\<close>

lemma late_verification_restores_password:
  assumes "find_verification (digest raw) old = Some t" "find_user_by_id (ot_user t) old = Some u"
    and "verify_email digest now raw old st = (Inr (ok ()), st')" "usr_id u \<in> usr_id ` set (id_users st)" "r \<in> set (id_users st')"
    and "usr_id r = usr_id u"
  shows "usr_password r = usr_password u"
proof -
  obtain st1 where st1: "save_user (user_verify_email now u) st = (Inr (), st1)"
      "st' = consume_verification (verification_token_consume now t) st1"
    using assms(1-3) by (auto simp: verify_email_def split: if_splits prod.splits sum.splits)
  obtain v events where v: "user_verify_email now u = (v, events)" "usr_id v = usr_id u" "usr_password v = usr_password u"
    by (cases "usr_status u = UserActive") (auto simp: user_verify_email_def)
  have "r \<in> set (id_users st1)" using assms(5) by (simp add: st1(2) consume_verification_def)
  moreover from st1(1) v(1) have "save_user (v, events) st = (Inr (), st1)" by simp
  then have "id_users st1 = update_where (\<lambda>r. usr_id r = usr_id v) (\<lambda>r. r\<lparr>usr_status := usr_status v, usr_password := usr_password v,
      usr_verified_at := usr_verified_at v, usr_updated := usr_updated v\<rparr>) (id_users st)"
    using assms(4) v(2) by (simp add: save_user_def split: if_splits) auto
  ultimately obtain q where "r = (if usr_id q = usr_id v then q\<lparr>usr_status := usr_status v, usr_password := usr_password v,
      usr_verified_at := usr_verified_at v, usr_updated := usr_updated v\<rparr> else q)"
    by (simp add: in_update_where) blast
  with assms(6) v show ?thesis by (simp split: if_splits)
qed

end
