(* ===== verification/MfaSafety.thy ===== *)
theory MfaSafety
  imports Mfa Accounts
begin

text \<open>
  What the second factor guarantees under concurrent requests. A step of a history is one write, of a request that
  read its state from any earlier one; a handler is a sequence of such writes (\<open>handlers_step\<close>). A credential is saved
  unconditionally, so an overtaken request does write an old one back (\<open>concurrent_code_accepted_twice\<close>): what is shown of
  TOTP credentials is about the requests that read after a success.
\<close>

section \<open>Recovery codes under concurrent requests\<close>

text \<open>Identifiers are drawn at random: a new batch has none that was used before.\<close>

inductive codes_step :: "mfa_state set \<Rightarrow> mfa_state \<Rightarrow> mfa_state \<Rightarrow> bool" for past where
  credential_saved: "save_credential c st = (answer, st') \<Longrightarrow> codes_step past st st'"
| codes_issued: "(\<And>old. old \<in> past \<Longrightarrow> mint_id ` set draws \<inter> rc_id ` set (mf_codes old) = {}) \<Longrightarrow>
    issue_codes digest now u draws st = (answer, st') \<Longrightarrow> codes_step past st st'"
| code_redeemed: "old \<in> past \<Longrightarrow> redeem_code digest now u raw old st = (answer, st') \<Longrightarrow> codes_step past st st'"

abbreviation codes_history :: "mfa_state list \<Rightarrow> bool" where
  "codes_history \<equiv> history codes_step empty_mfa"

definition codes_ok :: "mfa_state \<Rightarrow> bool" where
  "codes_ok st \<longleftrightarrow> distinct (map rc_id (mf_codes st)) \<and> distinct (map rc_hash (mf_codes st))"

definition same_code :: "recovery_code \<Rightarrow> recovery_code \<Rightarrow> bool" where
  "same_code c c' \<longleftrightarrow> rc_id c' = rc_id c \<and> rc_user c' = rc_user c \<and> rc_hash c' = rc_hash c \<and>
     (rc_consumed c \<noteq> None \<longrightarrow> rc_consumed c' \<noteq> None)"

text \<open>An identifier stands for one code, and a consumed code stays.\<close>

definition codes_onward :: "mfa_state \<Rightarrow> mfa_state \<Rightarrow> bool" where
  "codes_onward st st' \<longleftrightarrow>
     (\<forall>c \<in> set (mf_codes st). \<forall>c' \<in> set (mf_codes st'). rc_id c' = rc_id c \<longrightarrow> same_code c c') \<and>
     (\<forall>c \<in> set (mf_codes st). rc_consumed c \<noteq> None \<longrightarrow> (\<exists>c' \<in> set (mf_codes st'). rc_id c' = rc_id c))"

lemma same_code_refl [simp]: "same_code c c"
  by (simp add: same_code_def)

lemma same_code_trans: "same_code a b \<Longrightarrow> same_code b c \<Longrightarrow> same_code a c"
  by (simp add: same_code_def)

lemma save_credential_codes: "save_credential c st = (answer, st') \<Longrightarrow> mf_codes st' = mf_codes st"
  by (auto simp: save_credential_def Let_def split: if_splits)

text \<open>Issuing keeps the consumed codes and adds new ones; redeeming marks at most one row.\<close>

lemma issue_codes_rows:
  assumes "issue_codes digest now u draws st = (answer, st')"
  shows "mf_codes st' = mf_codes st \<or>
    (\<exists>added. mf_codes st' = filter (\<lambda>c. \<not> (rc_user c = u \<and> rc_consumed c = None)) (mf_codes st) @ added \<and>
      rc_id ` set added \<subseteq> mint_id ` set draws \<and> codes_ok st')"
proof -
  let ?batch = "take batch_size draws"
  define codes where "codes = map2 (\<lambda>d raw. recovery_issue (mint_id d) u (digest raw) now) ?batch (map (mint_code \<circ> mint_bytes) ?batch)"
  let ?all = "filter (\<lambda>c. \<not> (rc_user c = u \<and> rc_consumed c = None)) (mf_codes st) @ codes"
  have ids: "rc_id ` set codes \<subseteq> mint_id ` set draws"
    by (auto simp: codes_def recovery_issue_def dest!: set_zip_leftD in_set_takeD)
  have saved: "snd (replace_codes u codes st) = st'"
    using assms by (auto simp: issue_codes_def codes_def Let_def split: prod.splits sum.splits)
  show ?thesis
  proof (cases "distinct (map rc_id ?all) \<and> distinct (map rc_hash ?all)")
    case True
    then have "st' = st\<lparr>mf_codes := ?all\<rparr>" using saved unfolding replace_codes_def Let_def by (simp only: simp_thms if_True snd_conv)
    with True ids show ?thesis unfolding codes_ok_def by (intro disjI2 exI[of _ codes]) simp
  next
    case False
    then have "st' = st" using saved unfolding replace_codes_def Let_def by (simp only: simp_thms if_False snd_conv)
    then show ?thesis by simp
  qed
qed

lemma redeem_code_cases:
  assumes "redeem_code digest now u raw old st = (answer, st')"
  obtains (refused) "answer = Inr False" "st' = st" | (marked) c where "find_code u (digest raw) old = Some c" "rc_consumed c = None"
      "answer = Inr (list_ex (\<lambda>r. rc_id r = rc_id c \<and> rc_consumed r = None) (mf_codes st))"
      "mf_codes st' = update_where (\<lambda>r. rc_id r = rc_id c \<and> rc_consumed r = None) (\<lambda>r. r\<lparr>rc_consumed := Some now\<rparr>) (mf_codes st)"
      "mf_credentials st' = mf_credentials st"
  using assms
  by (auto simp: redeem_code_def recovery_is_consumed_def recovery_consume_def consume_code_def Let_def
      split: option.splits if_splits)

lemma codes_onward_added:
  assumes "codes_onward old st" "\<And>c. c \<in> set (mf_codes st') \<Longrightarrow> c \<in> set (mf_codes st) \<or> rc_id c \<notin> rc_id ` set (mf_codes old)"
    and "\<And>c. c \<in> set (mf_codes st) \<Longrightarrow> rc_consumed c \<noteq> None \<Longrightarrow> c \<in> set (mf_codes st')"
  shows "codes_onward old st'"
  unfolding codes_onward_def
proof (intro conjI ballI impI)
  fix c c' assume c: "c \<in> set (mf_codes old)" "c' \<in> set (mf_codes st')" "rc_id c' = rc_id c"
  then have "rc_id c' \<in> rc_id ` set (mf_codes old)" by simp
  with assms(2)[OF c(2)] have "c' \<in> set (mf_codes st)" by blast
  with assms(1) c show "same_code c c'" by (simp add: codes_onward_def)
next
  fix c assume c: "c \<in> set (mf_codes old)" "rc_consumed c \<noteq> None"
  with assms(1) obtain r where r: "r \<in> set (mf_codes st)" "rc_id r = rc_id c" unfolding codes_onward_def by blast
  with assms(1) c have "rc_consumed r \<noteq> None" by (simp add: codes_onward_def same_code_def)
  with assms(3) r show "\<exists>c' \<in> set (mf_codes st'). rc_id c' = rc_id c" by blast
qed

lemma codes_onward_map:
  assumes "codes_onward old st" "mf_codes st' = map f (mf_codes st)" "\<And>r. same_code r (f r)"
  shows "codes_onward old st'"
  unfolding codes_onward_def
proof (intro conjI ballI impI)
  fix c c' assume c: "c \<in> set (mf_codes old)" "c' \<in> set (mf_codes st')" "rc_id c' = rc_id c"
  then obtain r where r: "r \<in> set (mf_codes st)" "c' = f r" unfolding assms(2) by auto
  have "rc_id r = rc_id c" using assms(3)[of r] c(3) r(2) by (simp add: same_code_def)
  with assms(1) c(1) r(1) have "same_code c r" by (simp add: codes_onward_def)
  with assms(3)[of r] r(2) show "same_code c c'" using same_code_trans by blast
next
  fix c assume c: "c \<in> set (mf_codes old)" "rc_consumed c \<noteq> None"
  with assms(1) obtain r where r: "r \<in> set (mf_codes st)" "rc_id r = rc_id c" unfolding codes_onward_def by blast
  with assms(3)[of r] show "\<exists>c' \<in> set (mf_codes st'). rc_id c' = rc_id c"
    unfolding assms(2) by (intro bexI[of _ "f r"]) (simp_all add: same_code_def)
qed

lemma codes_step_ok:
  assumes "\<And>old. old \<in> past \<Longrightarrow> codes_ok old \<and> codes_onward old st" "st \<in> past" "codes_step past st st'"
  shows "codes_ok st' \<and> (\<forall>old \<in> past. codes_onward old st')"
  using assms(3)
proof cases
  case credential_saved
  then show ?thesis using assms(1,2) by (auto dest!: save_credential_codes simp: codes_ok_def codes_onward_def)
next
  case (codes_issued draws digest now u answer)
  from issue_codes_rows[OF this(2)] show ?thesis
  proof (elim disjE exE conjE)
    fix added assume rows: "mf_codes st' = filter (\<lambda>c. \<not> (rc_user c = u \<and> rc_consumed c = None)) (mf_codes st) @ added"
      and new: "rc_id ` set added \<subseteq> mint_id ` set draws" "codes_ok st'"
    have "codes_onward old st'" if "old \<in> past" for old
    proof (rule codes_onward_added)
      show "codes_onward old st" using assms(1) that by blast
      fix c assume "c \<in> set (mf_codes st')"
      then show "c \<in> set (mf_codes st) \<or> rc_id c \<notin> rc_id ` set (mf_codes old)"
        using codes_issued(1)[OF that] new(1) unfolding rows by (simp, blast)
    qed (simp add: rows)
    with new(2) show ?thesis by blast
  qed (use assms(1,2) in \<open>auto simp: codes_ok_def codes_onward_def\<close>)
next
  case (code_redeemed old digest now u raw answer)
  from this(2) show ?thesis
  proof (cases rule: redeem_code_cases)
    case (marked c)
    let ?f = "\<lambda>r. if rc_id r = rc_id c \<and> rc_consumed r = None then r\<lparr>rc_consumed := Some now\<rparr> else r"
    have rows: "mf_codes st' = map ?f (mf_codes st)" using marked(4) by (simp add: update_where_def)
    have "codes_onward before st'" if "before \<in> past" for before
      by (rule codes_onward_map[OF _ rows]) (use assms(1) that in \<open>simp_all add: same_code_def\<close>)
    moreover have "codes_ok st'" using assms(1,2) marked(4) by (auto simp: codes_ok_def update_where_keys)
    ultimately show ?thesis by blast
  qed (use assms(1,2) in blast)
qed

interpretation codes: forward_history codes_step empty_mfa codes_ok codes_onward
proof unfold_locales
  show "codes_ok empty_mfa" by (simp add: codes_ok_def empty_mfa_def)
next
  fix past st st' assume "\<And>old. old \<in> past \<Longrightarrow> codes_ok old \<and> codes_onward old st" "st \<in> past" "codes_step past st st'"
  from codes_step_ok[OF this] show "codes_ok st'" "\<And>old. old \<in> past \<Longrightarrow> codes_onward old st'" by blast+
qed (auto simp: codes_onward_def codes_ok_def dest: by_id_unique)

text \<open>A code that was redeemed is refused in every later state, whatever the request has read.\<close>

lemma redeemed_code:
  assumes "codes_history (newer @ st1 # st # older)" "old \<in> set (st # older)" "cur \<in> set (newer @ [st1])"
    and "redeem_code digest now u raw old st = (Inr True, st1)"
  shows "\<exists>k \<in> set (mf_codes cur). rc_hash k = digest raw \<and> rc_consumed k \<noteq> None"
  using assms(4)
proof (cases rule: redeem_code_cases)
  case (marked c)
  have c: "c \<in> set (mf_codes old)" "rc_hash c = digest raw" using marked(1) by (auto simp: find_code_def find_Some_iff)
  from marked(3) obtain r where r: "r \<in> set (mf_codes st)" "rc_id r = rc_id c" "rc_consumed r = None" by (auto simp: list_ex_iff)
  let ?k = "r\<lparr>rc_consumed := Some now\<rparr>"
  have k: "?k \<in> set (mf_codes st1)" using r unfolding marked(4) in_update_where by (intro bexI[of _ r]) simp_all
  have "codes_onward old st"
    using codes.states_before[OF history_suffix[of _ _ "newer @ [st1]"]] assms(1,2) by simp
  with c r have "rc_hash ?k = digest raw" by (auto simp: codes_onward_def same_code_def)
  moreover have "codes_onward st1 cur" using codes.later_onward[OF assms(1,3)] by simp
  with k obtain k' where "k' \<in> set (mf_codes cur)" "same_code ?k k'"
    unfolding codes_onward_def by (metis option.discI recovery_code.select_convs(4) recovery_code.update_convs(4) recovery_code.surjective)
  ultimately show ?thesis by (intro bexI[of _ k']) (simp_all add: same_code_def)
qed simp

lemma spent_code_refused:
  assumes "codes_ok cur" "codes_onward seen cur" "k \<in> set (mf_codes cur)" "rc_hash k = digest raw" "rc_consumed k \<noteq> None"
  shows "fst (redeem_code digest now u raw seen cur) = Inr False \<and> mf_codes (snd (redeem_code digest now u raw seen cur)) = mf_codes cur"
proof -
  obtain answer cur' where run: "redeem_code digest now u raw seen cur = (answer, cur')" by fastforce
  then show ?thesis
  proof (cases rule: redeem_code_cases)
    case (marked c)
    have c: "c \<in> set (mf_codes seen)" "rc_hash c = digest raw" using marked(1) by (auto simp: find_code_def find_Some_iff)
    have "rc_consumed r \<noteq> None" if "r \<in> set (mf_codes cur)" "rc_id r = rc_id c" for r
    proof -
      have "rc_hash r = digest raw" using assms(2) c that by (auto simp: codes_onward_def same_code_def)
      with by_id_unique[of rc_hash, OF _ that(1) assms(3)] assms(1,4) have "r = k" by (simp add: codes_ok_def)
      with assms(5) show ?thesis by simp
    qed
    then have none: "\<not> (rc_id r = rc_id c \<and> rc_consumed r = None)" if "r \<in> set (mf_codes cur)" for r using that by blast
    then have "mf_codes cur' = mf_codes cur" unfolding marked(4) update_where_def by (intro map_idI) simp
    moreover have "answer = Inr False" using none unfolding marked(3) by (simp add: list_ex_iff)
    ultimately show ?thesis using run by simp
  qed (simp add: run)
qed

section \<open>TOTP credentials and overlapping requests\<close>

text \<open>
  One write of a credential: a new one under a fresh identifier, or one that a request has read earlier, in any
  of the given states, and now saves as it was then, revoked, activated or with its code used. Requests interleave
  between their writes, so a handler is a sequence of such steps (\<open>handlers_step\<close> below).
\<close>

inductive factor_step :: "mfa_state set \<Rightarrow> mfa_state \<Rightarrow> mfa_state \<Rightarrow> bool" for past where
  enrolled: "i \<notin> mc_id ` set (mf_credentials st) \<Longrightarrow> save_credential (mfa_enroll i u ciphertext now) st = (answer, st') \<Longrightarrow>
    factor_step past st st'"
| revoked: "old \<in> past \<Longrightarrow> c \<in> set (mf_credentials old) \<Longrightarrow> save_credential (mfa_revoke now c) st = (answer, st') \<Longrightarrow>
    factor_step past st st'"
| activated: "old \<in> past \<Longrightarrow> c \<in> set (mf_credentials old) \<Longrightarrow> mfa_activate now c = Inr active \<Longrightarrow>
    mfa_register_use step active = Inr used \<Longrightarrow> save_credential used st = (answer, st') \<Longrightarrow> factor_step past st st'"
| used: "old \<in> past \<Longrightarrow> c \<in> set (mf_credentials old) \<Longrightarrow> mfa_register_use step c = Inr used \<Longrightarrow>
    save_credential used st = (answer, st') \<Longrightarrow> factor_step past st st'"
| codes_changed: "mf_credentials st' = mf_credentials st \<Longrightarrow> factor_step past st st'"

abbreviation factor_history :: "mfa_state \<Rightarrow> mfa_state list \<Rightarrow> bool" where
  "factor_history \<equiv> history factor_step"

definition credentials_ok :: "mfa_state \<Rightarrow> bool" where
  "credentials_ok st \<longleftrightarrow> distinct (map mc_id (mf_credentials st))"

text \<open>A credential keeps its identifier, its user and its secret.\<close>

definition same_credential :: "mfa_credential \<Rightarrow> mfa_credential \<Rightarrow> bool" where
  "same_credential c c' \<longleftrightarrow> mc_id c' = mc_id c \<and> mc_user c' = mc_user c \<and> mc_secret c' = mc_secret c"

definition factor_onward :: "mfa_state \<Rightarrow> mfa_state \<Rightarrow> bool" where
  "factor_onward st st' \<longleftrightarrow> kept same_credential (mf_credentials st) (mf_credentials st')"

lemma same_credential_refl [simp]: "same_credential c c"
  by (simp add: same_credential_def)

lemma same_credential_trans: "same_credential a b \<Longrightarrow> same_credential b c \<Longrightarrow> same_credential a c"
  by (simp add: same_credential_def)

lemma factor_onward_refl: "factor_onward st st"
  by (simp add: factor_onward_def kept_refl)

lemma factor_onward_trans: "factor_onward a b \<Longrightarrow> factor_onward b c \<Longrightarrow> factor_onward a c"
  unfolding factor_onward_def by (rule kept_trans; (assumption | rule same_credential_trans))

text \<open>Writing a credential back: every row under its identifier takes its fields, the others stay.\<close>

definition written_back :: "mfa_credential \<Rightarrow> mfa_credential \<Rightarrow> mfa_credential" where
  "written_back c r = r\<lparr>mc_status := mc_status c, mc_secret := mc_secret c, mc_last_step := mc_last_step c,
     mc_activated := mc_activated c, mc_revoked := mc_revoked c\<rparr>"

lemma written_back_simps [simp]: "mc_id (written_back c r) = mc_id r" "mc_user (written_back c r) = mc_user r"
  "mc_secret (written_back c r) = mc_secret c" "mc_last_step (written_back c r) = mc_last_step c"
  by (simp_all add: written_back_def)

lemma updated_row: "r \<in> set rs \<Longrightarrow> (if pred r then change r else r) \<in> set (update_where pred change rs)"
  by (auto simp: update_where_def)

lemma mfa_revoke_simps [simp]: "mc_id (mfa_revoke now c) = mc_id c" "mc_last_step (mfa_revoke now c) = mc_last_step c"
  by (simp_all add: mfa_revoke_def)

lemma mfa_activate_okD: "mfa_activate now c = Inr c' \<Longrightarrow> mc_id c' = mc_id c \<and> mc_last_step c' = mc_last_step c"
  by (auto simp: mfa_activate_def split: if_splits)

lemma mfa_register_use_okD:
  "mfa_register_use step c = Inr c' \<Longrightarrow> mc_id c' = mc_id c \<and> mc_last_step c' = Some step \<and> (\<forall>l. mc_last_step c = Some l \<longrightarrow> l < step)"
  by (auto simp: mfa_register_use_def split: if_splits option.splits)

lemma save_credential_cases:
  assumes "save_credential c st = (answer, st')"
  obtains (refused) "answer \<noteq> Inr ()" "st' = st"
  | (replaced) "answer = Inr ()" "mc_id c \<in> mc_id ` set (mf_credentials st)"
      "mf_credentials st' = update_where (\<lambda>r. mc_id r = mc_id c) (written_back c) (mf_credentials st)"
  | (inserted) "answer = Inr ()" "mc_id c \<notin> mc_id ` set (mf_credentials st)" "mf_credentials st' = mf_credentials st @ [c]"
proof -
  let ?cs = "if mc_id c \<in> mc_id ` set (mf_credentials st)
    then update_where (\<lambda>r. mc_id r = mc_id c) (written_back c) (mf_credentials st) else mf_credentials st @ [c]"
  have whole: "(\<lambda>r. r\<lparr>mc_status := mc_status c, mc_secret := mc_secret c, mc_last_step := mc_last_step c,
      mc_activated := mc_activated c, mc_revoked := mc_revoked c\<rparr>) = written_back c"
    by (rule ext) (simp add: written_back_def)
  have "(if list_ex (\<lambda>r. 1 < length (active_of (mc_user r) ?cs)) ?cs then (Inl (Error ''duplicate key''), st)
      else (Inr (), st\<lparr>mf_credentials := ?cs\<rparr>)) = (answer, st')"
    using assms unfolding save_credential_def Let_def whole .
  then consider "answer \<noteq> Inr ()" "st' = st" | "answer = Inr ()" "mf_credentials st' = ?cs"
    by (cases "list_ex (\<lambda>r. 1 < length (active_of (mc_user r) ?cs)) ?cs") auto
  then show thesis
  proof cases
    case 1
    then show thesis by (rule refused)
  next
    case 2
    then show thesis using replaced inserted by (cases "mc_id c \<in> mc_id ` set (mf_credentials st)") simp_all
  qed
qed

lemma save_rows:
  assumes "save_credential c st = (answer, st')" "r \<in> set (mf_credentials st')"
  shows "r \<in> set (mf_credentials st) \<and> (answer = Inr () \<longrightarrow> mc_id r \<noteq> mc_id c) \<or> answer \<noteq> Inr () \<and> st' = st \<or>
    mc_id r = mc_id c \<and> mc_last_step r = mc_last_step c"
  using assms(1)
proof (cases rule: save_credential_cases)
  case replaced
  with assms(2) obtain q where "q \<in> set (mf_credentials st)" "r = (if mc_id q = mc_id c then written_back c q else q)"
    by (auto simp: in_update_where)
  then show ?thesis by (cases "mc_id q = mc_id c") auto
next
  case inserted
  with assms(2) show ?thesis by (auto simp: image_iff)
qed simp

lemma save_ids: "save_credential c st = (answer, st') \<Longrightarrow> mc_id ` set (mf_credentials st) \<subseteq> mc_id ` set (mf_credentials st')"
  by (cases rule: save_credential_cases, assumption) (simp_all add: update_where_image, blast)

lemma find_totpD:
  assumes "find_totp status u st = Some c"
  shows "c \<in> set (mf_credentials st)" "mc_user c = u" "mc_status c = status"
  using assms by (auto simp: find_totp_def find_Some_iff)

lemma same_credential_ops:
  "same_credential c (mfa_revoke now c)"
  "mfa_activate now c = Inr c' \<Longrightarrow> same_credential c c'"
  "mfa_register_use step c = Inr c' \<Longrightarrow> same_credential c c'"
  by (auto simp: mfa_revoke_def mfa_activate_def mfa_register_use_def same_credential_def split: if_splits option.splits)

lemma issue_codes_credentials: "issue_codes digest now u draws st = (answer, st') \<Longrightarrow> mf_credentials st' = mf_credentials st"
  by (auto simp: issue_codes_def replace_codes_def Let_def split: if_splits)

text \<open>A save of what was read earlier moves on, because what was read is still there under its identifier.\<close>

lemma save_moves:
  assumes "save_credential c' st = (answer, st')" "credentials_ok st"
    and "mc_id c' \<notin> mc_id ` set (mf_credentials st) \<or> (\<exists>c \<in> set (mf_credentials st). same_credential c c')"
  shows "credentials_ok st' \<and> factor_onward st st'"
  using assms(1)
proof (cases rule: save_credential_cases)
  case replaced
  with assms(3) obtain c where c: "c \<in> set (mf_credentials st)" "same_credential c c'" by blast
  have "same_credential r (if mc_id r = mc_id c' then written_back c' r else r)" if "r \<in> set (mf_credentials st)" for r
  proof (cases "mc_id r = mc_id c'")
    case True
    with by_id_unique[of mc_id, OF _ that c(1)] assms(2) c(2) have "r = c" by (simp add: credentials_ok_def same_credential_def)
    with True c(2) show ?thesis by (simp add: same_credential_def)
  qed simp
  then have "kept same_credential (mf_credentials st) (mf_credentials st')"
    unfolding kept_def replaced(3) by (intro ballI bexI[OF _ updated_row])
  moreover have "credentials_ok st'" using assms(2) unfolding credentials_ok_def replaced(3) by (simp add: update_where_keys)
  ultimately show ?thesis by (simp add: factor_onward_def)
next
  case inserted
  with assms(2) show ?thesis by (simp add: credentials_ok_def factor_onward_def kept_append kept_refl)
qed (use assms(2) factor_onward_refl in simp)

lemma factor_step_moves:
  assumes "\<And>old. old \<in> past \<Longrightarrow> factor_onward old st" "factor_step past st st'" "credentials_ok st"
  shows "credentials_ok st' \<and> factor_onward st st'"
proof -
  have still: "\<exists>q \<in> set (mf_credentials st). same_credential q c'"
    if "old \<in> past" "c \<in> set (mf_credentials old)" "same_credential c c'" for old c c'
  proof -
    from assms(1)[OF that(1)] that(2) obtain q where "q \<in> set (mf_credentials st)" "same_credential c q"
      unfolding factor_onward_def kept_def by blast
    with that(3) show ?thesis by (intro bexI[of _ q]) (simp_all add: same_credential_def)
  qed
  from assms(2) show ?thesis
  proof cases
    case (enrolled i u ciphertext now answer)
    with save_moves[OF enrolled(2) assms(3)] show ?thesis by (simp add: mfa_enroll_def)
  next
    case (revoked old c now answer)
    from save_moves[OF revoked(3) assms(3) disjI2[OF still[OF revoked(1,2) same_credential_ops(1)]]] show ?thesis .
  next
    case (activated old c now active step used answer)
    have "same_credential c used"
      using same_credential_ops(2)[OF activated(3)] same_credential_ops(3)[OF activated(4)] by (rule same_credential_trans)
    from save_moves[OF activated(5) assms(3) disjI2[OF still[OF activated(1,2) this]]] show ?thesis .
  next
    case (used old c step used answer)
    from save_moves[OF used(4) assms(3) disjI2[OF still[OF used(1,2) same_credential_ops(3)[OF used(3)]]]] show ?thesis .
  next
    case codes_changed
    with assms(3) show ?thesis by (simp add: credentials_ok_def factor_onward_def kept_refl)
  qed
qed

interpretation factors: tracked_history factor_step empty_mfa credentials_ok factor_onward
proof unfold_locales
  show "credentials_ok empty_mfa" by (simp add: credentials_ok_def empty_mfa_def)
next
  fix past st st' assume "\<And>old. old \<in> past \<Longrightarrow> credentials_ok old \<and> factor_onward old st" "st \<in> past" "factor_step past st st'"
  then show "credentials_ok st' \<and> factor_onward st st'" using factor_step_moves[of past st st'] by blast
qed (fact factor_onward_refl factor_onward_trans)+

section \<open>The handlers as sequences of writes\<close>

lemma verify_totp_cases:
  assumes "verify_totp hmac decrypt now u code old st = (answer, st')"
  obtains (refused) "st' = st" "answer \<noteq> Inr True"
  | (used) c secret v used reply where "find_active_totp u old = Some c" "decrypt (mc_secret c) = Inr secret"
      "totp_verify hmac secret code now drift_window (mc_last_step c) = Inr v" "tv_valid v"
      "mfa_register_use (tv_step v) c = Inr used" "save_credential used st = (reply, st')"
      "answer = map_sum id (\<lambda>_. True) reply"
  using assms by (auto simp: verify_totp_def split: option.splits sum.splits if_splits prod.splits)

definition factor_steps :: "mfa_state set \<Rightarrow> mfa_state \<Rightarrow> mfa_state \<Rightarrow> bool" where
  "factor_steps past = (factor_step past)\<^sup>*\<^sup>*"

lemma factor_steps_simps: "factor_steps past st st" "factor_step past st st' \<Longrightarrow> factor_steps past st st'"
  "factor_steps past a b \<Longrightarrow> factor_step past b c \<Longrightarrow> factor_steps past a c"
  by (simp_all add: factor_steps_def)

lemma enroll_steps:
  assumes "enroll_mfa encrypt issuer fresh now u users old st = (answer, st')" "old \<in> past"
    and "enr_id fresh \<notin> mc_id ` set (mf_credentials st) \<union> mc_id ` set (mf_credentials old)"
  shows "factor_steps past st st'"
proof (cases "find_user_by_id u users")
  case (Some account)
  obtain reply st1 where st1: "(case find_pending_totp u old of Some superseded \<Rightarrow> save_credential (mfa_revoke now superseded) st
      | None \<Rightarrow> (Inr (), st)) = (reply, st1)" by fastforce
  have first: "factor_steps past st st1 \<and> enr_id fresh \<notin> mc_id ` set (mf_credentials st1)"
  proof (cases "find_pending_totp u old")
    case (Some c)
    with st1 have saved: "save_credential (mfa_revoke now c) st = (reply, st1)" by simp
    have c: "c \<in> set (mf_credentials old)" using Some find_totpD(1) unfolding find_pending_totp_def by blast
    have "mc_id r \<noteq> enr_id fresh" if "r \<in> set (mf_credentials st1)" for r
    proof -
      from save_rows[OF saved that] consider "r \<in> set (mf_credentials st)" | "st1 = st" | "mc_id r = mc_id c" by auto
      then have known: "mc_id r \<in> mc_id ` set (mf_credentials st) \<union> mc_id ` set (mf_credentials old)"
        by cases (use that c in simp_all)
      show ?thesis
      proof
        assume "mc_id r = enr_id fresh"
        with known assms(3) show False by (simp only:)
      qed
    qed
    then have none: "enr_id fresh \<notin> mc_id ` set (mf_credentials st1)" by (metis imageE)
    show ?thesis by (intro conjI factor_steps_simps(2) factor_step.revoked[OF assms(2) c saved] none)
  qed (use st1 assms(3) factor_steps_simps(1) in auto)
  from assms(1) Some st1 consider "st' = st1" | ciphertext reply' where "save_credential (mfa_enroll (enr_id fresh) u ciphertext now) st1 = (reply', st')"
    by (auto simp: enroll_mfa_def split: sum.splits prod.splits)
  then show ?thesis
  proof cases
    case 2
    from first have "factor_step past st1 st'" by (intro factor_step.enrolled[OF _ 2]) blast
    with first factor_steps_simps(3) show ?thesis by blast
  qed (use first in simp)
qed (use assms in \<open>simp add: enroll_mfa_def factor_steps_simps\<close>)

lemma switch_steps:
  assumes "switch_credential now step (find_active_totp u old) pending st = (answer, st')" "old \<in> past"
    and "find_pending_totp u old = Some pending"
  shows "factor_steps past st st'"
proof -
  have p: "pending \<in> set (mf_credentials old)" using find_totpD(1) assms(3) unfolding find_pending_totp_def by blast
  obtain reply st1 where st1: "(case find_active_totp u old of Some a \<Rightarrow> save_credential (mfa_revoke now a) st | None \<Rightarrow> (Inr (), st)) = (reply, st1)"
    by fastforce
  have first: "factor_steps past st st1"
  proof (cases "find_active_totp u old")
    case (Some a)
    with st1 have "save_credential (mfa_revoke now a) st = (reply, st1)" by simp
    moreover have "a \<in> set (mf_credentials old)" using find_totpD(1) Some unfolding find_active_totp_def by blast
    ultimately show ?thesis using assms(2) by (blast intro: factor_steps_simps(2) factor_step.revoked)
  qed (use st1 factor_steps_simps(1) in simp)
  from assms(1) st1 consider "st' = st1" | activated used where "mfa_activate now pending = Inr activated"
      "mfa_register_use step activated = Inr used" "save_credential used st1 = (answer, st')" | "st' = st"
    by (auto simp: switch_credential_def split: sum.splits prod.splits)
  then show ?thesis
  proof cases
    case 2
    with first assms(2) p show ?thesis by (blast intro: factor_steps_simps(3) factor_step.activated)
  qed (use first factor_steps_simps(1) in simp_all)
qed

text \<open>Every handler is a sequence of writes of what it has read.\<close>

lemma handlers_step:
  assumes "old \<in> past"
  shows "verify_factor hmac decrypt digest now u proof old st = (verified, st') \<Longrightarrow> factor_steps past st st'"
    "activate_mfa hmac decrypt digest audit draws now u code stepped_up old st al = (activated, st', al') \<Longrightarrow> factor_steps past st st'"
    "disable_mfa audit now u old st al = (disabled, st', al') \<Longrightarrow> factor_steps past st st'"
    "regenerate_codes digest now u draws old st = (regenerated, st') \<Longrightarrow> factor_steps past st st'"
proof -
  assume run: "verify_factor hmac decrypt digest now u proof old st = (verified, st')"
  show "factor_steps past st st'"
  proof (cases "proof")
    case (TotpProof code)
    with run have "verify_totp hmac decrypt now u code old st = (verified, st')" by (simp add: verify_factor_def)
    then show ?thesis
    proof (cases rule: verify_totp_cases)
      case (used c secret v used' reply)
      have "c \<in> set (mf_credentials old)" using find_totpD(1) used(1) unfolding find_active_totp_def by blast
      from factor_steps_simps(2)[OF factor_step.used[OF assms this used(5,6)]] show ?thesis .
    qed (simp add: factor_steps_simps)
  next
    case (RecoveryProof code)
    with run have "redeem_code digest now u code old st = (verified, st')" by (simp add: verify_factor_def)
    then have "mf_credentials st' = mf_credentials st" by (cases rule: redeem_code_cases) auto
    then show ?thesis by (intro factor_steps_simps(2) factor_step.codes_changed)
  qed
next
  assume "activate_mfa hmac decrypt digest audit draws now u code stepped_up old st al = (activated, st', al')"
  then consider "st' = st" | step pending st1 reply where "find_pending_totp u old = Some pending"
      "switch_credential now step (find_active_totp u old) pending st = (reply, st1)" "mf_credentials st' = mf_credentials st1"
    by (auto simp: activate_mfa_def Let_def issue_codes_credentials split: option.splits sum.splits if_splits prod.splits)
  then show "factor_steps past st st'"
  proof cases
    case 2
    from factor_steps_simps(3)[OF switch_steps[OF 2(2) assms 2(1)] factor_step.codes_changed[OF 2(3)]] show ?thesis .
  qed (simp add: factor_steps_simps)
next
  assume "disable_mfa audit now u old st al = (disabled, st', al')"
  then consider "st' = st" | active reply where "find_active_totp u old = Some active" "save_credential (mfa_revoke now active) st = (reply, st')"
    by (auto simp: disable_mfa_def split: option.splits sum.splits prod.splits)
  then show "factor_steps past st st'"
  proof cases
    case 2
    from 2(1) have "active \<in> set (mf_credentials old)" using find_totpD(1) unfolding find_active_totp_def by blast
    from factor_steps_simps(2)[OF factor_step.revoked[OF assms this 2(2)]] show ?thesis .
  qed (simp add: factor_steps_simps)
next
  assume "regenerate_codes digest now u draws old st = (regenerated, st')"
  then have "mf_credentials st' = mf_credentials st"
    by (auto simp: regenerate_codes_def issue_codes_credentials split: option.splits sum.splits prod.splits)
  then show "factor_steps past st st'" by (intro factor_steps_simps(2) factor_step.codes_changed)
qed

section \<open>Accepting a code\<close>

definition totp_accepts :: "(8 word list \<Rightarrow> 8 word list \<Rightarrow> 8 word list) \<Rightarrow> (string \<Rightarrow> 8 word list throws) \<Rightarrow> mfa_credential \<Rightarrow>
    string \<Rightarrow> date \<Rightarrow> int \<Rightarrow> bool" where
  "totp_accepts hmac decrypt c code now step \<longleftrightarrow> \<bar>step - totp_step now\<bar> \<le> drift_window \<and>
     (\<exists>secret. decrypt (mc_secret c) = Inr secret \<and> compute_code hmac secret step = Inr code)"

lemma totp_verify_validD:
  assumes "totp_verify hmac secret code now window after = Inr v" "tv_valid v"
  shows "\<bar>tv_step v - totp_step now\<bar> \<le> window \<and> (\<forall>l. after = Some l \<longrightarrow> l < tv_step v) \<and>
    compute_code hmac secret (tv_step v) = Inr code"
  using try_steps_validD[OF assms[unfolded totp_verify_def]] by auto

definition used_from :: "string \<Rightarrow> int \<Rightarrow> mfa_state \<Rightarrow> bool" where
  "used_from i n st \<longleftrightarrow> i \<in> mc_id ` set (mf_credentials st) \<and>
     (\<forall>r \<in> set (mf_credentials st). mc_id r = i \<longrightarrow> (\<exists>l \<ge> n. mc_last_step r = Some l))"

lemma verify_totp_accepts:
  assumes "verify_totp hmac decrypt now u code old st = (Inr True, st')"
  shows "\<exists>c step. find_active_totp u old = Some c \<and> totp_accepts hmac decrypt c code now step \<and>
    (\<forall>l. mc_last_step c = Some l \<longrightarrow> l < step) \<and> used_from (mc_id c) step st'"
  using assms
proof (cases rule: verify_totp_cases)
  case (used c secret v c' reply)
  note valid = totp_verify_validD[OF used(3,4)]
  have reply: "reply = Inr ()" using used(7) by (cases reply) auto
  have c': "mc_id c' = mc_id c" "mc_last_step c' = Some (tv_step v)"
    using used(5) by (auto simp: mfa_register_use_def split: if_splits option.splits)
  have "mc_id c' \<in> mc_id ` set (mf_credentials st')"
    using used(6) by (cases rule: save_credential_cases) (auto simp: reply update_where_image)
  moreover have "mc_last_step r = Some (tv_step v)" if "r \<in> set (mf_credentials st')" "mc_id r = mc_id c" for r
    using save_rows[OF used(6) that(1)] c' that(2) by (simp add: reply)
  ultimately have "used_from (mc_id c) (tv_step v) st'" using c'(1) by (auto simp: used_from_def)
  with used(1,2) valid show ?thesis
    by (intro exI[of _ c] exI[of _ "tv_step v"]) (auto simp: totp_accepts_def)
qed simp

text \<open>Once a credential has a last step, whoever reads it from then on saves no smaller one.\<close>

lemma used_from_save:
  assumes "save_credential c st = (answer, st')" "used_from i n st"
    and "mc_id c = i \<Longrightarrow> \<exists>l \<ge> n. mc_last_step c = Some l"
  shows "used_from i n st'"
proof -
  have "\<exists>l \<ge> n. mc_last_step r = Some l" if "r \<in> set (mf_credentials st')" "mc_id r = i" for r
    using save_rows[OF assms(1) that(1)] assms(2,3) that by (auto simp: used_from_def)
  with save_ids[OF assms(1)] assms(2) show ?thesis unfolding used_from_def by blast
qed

lemma used_from_read:
  assumes "used_from i n old" "c \<in> set (mf_credentials old)" "mc_id c = i"
  obtains l where "l \<ge> n" "mc_last_step c = Some l"
  using assms unfolding used_from_def by blast

lemma used_from_step:
  assumes "factor_step past st st'" "used_from i n st" "\<And>old. old \<in> past \<Longrightarrow> used_from i n old"
  shows "used_from i n st'"
  using assms(1)
proof cases
  case (enrolled j u ciphertext now answer)
  from enrolled(1) assms(2) have "j \<noteq> i" unfolding used_from_def by blast
  with used_from_save[OF enrolled(2) assms(2)] show ?thesis by (simp add: mfa_enroll_def)
next
  case (revoked old c now answer)
  show ?thesis
  proof (rule used_from_save[OF revoked(3) assms(2)])
    assume "mc_id (mfa_revoke now c) = i"
    then show "\<exists>l \<ge> n. mc_last_step (mfa_revoke now c) = Some l"
      using used_from_read[OF assms(3)[OF revoked(1)] revoked(2)] by force
  qed
next
  case (activated old c now active step used answer)
  note same = mfa_activate_okD[OF activated(3)] mfa_register_use_okD[OF activated(4)]
  show ?thesis
  proof (rule used_from_save[OF activated(5) assms(2)])
    assume "mc_id used = i"
    with same have "mc_id c = i" by simp
    then obtain l where "l \<ge> n" "mc_last_step c = Some l" by (rule used_from_read[OF assms(3)[OF activated(1)] activated(2)])
    with same show "\<exists>l \<ge> n. mc_last_step used = Some l" by auto
  qed
next
  case (used old c step used' answer)
  note same = mfa_register_use_okD[OF used(3)]
  show ?thesis
  proof (rule used_from_save[OF used(4) assms(2)])
    assume "mc_id used' = i"
    with same have "mc_id c = i" by simp
    then obtain l where "l \<ge> n" "mc_last_step c = Some l" by (rule used_from_read[OF assms(3)[OF used(1)] used(2)])
    with same show "\<exists>l \<ge> n. mc_last_step used' = Some l" by auto
  qed
next
  case codes_changed
  with assms(2) show ?thesis by (simp add: used_from_def)
qed

lemma used_from_history:
  "factor_history st1 hist \<Longrightarrow> used_from i n st1 \<Longrightarrow> seen \<in> set hist \<Longrightarrow> used_from i n seen"
proof (induction arbitrary: seen rule: history.induct)
  case (moved st past st')
  then have "used_from i n old" if "old \<in> set (st # past)" for old using that by blast
  with used_from_step[OF moved.hyps(2)] moved.prems(2) show ?case by (cases "seen = st'") auto
qed simp

section \<open>A sample history\<close>

definition sample_hmac :: "8 word list \<Rightarrow> 8 word list \<Rightarrow> 8 word list" where
  "sample_hmac key message = replicate 20 0"

definition sample_pending :: mfa_credential where
  "sample_pending = mfa_enroll ''m1'' (UserId ''ann'') ''c'' 0"

definition sample_credential :: "int \<Rightarrow> mfa_credential" where
  "sample_credential step = sample_pending\<lparr>mc_status := MfaActive, mc_activated := Some 60000, mc_last_step := Some step\<rparr>"

definition sample_draw :: minting where
  "sample_draw = \<lparr>mint_id = ''c1'', mint_bytes = []\<rparr>"

definition sample_issued :: recovery_code where
  "sample_issued = recovery_issue ''c1'' (UserId ''ann'') ''22222-22222'' 60000"

definition sample_enrolled :: mfa_state where
  "sample_enrolled = \<lparr>mf_credentials = [sample_pending], mf_codes = []\<rparr>"

definition sample_factor :: "int \<Rightarrow> mfa_state" where
  "sample_factor step = \<lparr>mf_credentials = [sample_credential step], mf_codes = [sample_issued]\<rparr>"

definition sample_sink :: audit_sink where
  "sample_sink event al = (Inr \<lparr>app_seq = 1, app_hash = ''h''\<rparr>, al)"

lemmas factor_samples = sample_pending_def sample_credential_def sample_draw_def sample_issued_def sample_enrolled_def
  sample_factor_def sample_sink_def mfa_enroll_def recovery_issue_def

lemma sample_code:
  assumes "0 \<le> step" "step < 2 ^ 64"
  shows "compute_code sample_hmac secret step = Inr ''000000''"
proof -
  have "horner_sum uint 256 (replicate 4 (0 :: 8 word)) = 0" by (simp add: eval_nat_numeral)
  moreover have "pad 6 0 = ''000000''" by (simp add: pad_def eval_nat_numeral Let_def digits.simps digit_char_def)
  ultimately show ?thesis
    using assms by (simp add: compute_code_def sample_hmac_def truncation_offset_def Let_def word_rcat_def)
qed

lemma sample_window: "map (\<lambda>offset. totp_step 60000 + offset) [- drift_window .. drift_window] = [1, 2, 3]"
  by (simp add: totp_step_def drift_window_def upto.simps)

lemma sample_mint: "mint_code [] = ''22222-22222''"
  by (simp add: mint_code_def recovery_alphabet_def upt_rec)

lemma sample_issue_codes:
  "issue_codes id 60000 (UserId ''ann'') [sample_draw] \<lparr>mf_credentials = cs, mf_codes = []\<rparr> =
     (Inr [''22222-22222''], \<lparr>mf_credentials = cs, mf_codes = [sample_issued]\<rparr>)"
  by (simp add: issue_codes_def replace_codes_def batch_size_def factor_samples sample_mint)

lemma sample_credential_saved: "save_credential (sample_credential n) \<lparr>mf_credentials = [c], mf_codes = codes\<rparr> =
    (Inr (), \<lparr>mf_credentials = [sample_credential n], mf_codes = codes\<rparr>)" if "c = sample_pending \<or> c = sample_credential l"
  using that by (auto simp: save_credential_def update_where_def active_of_def factor_samples)

lemma sample_verified:
  assumes "step \<in> {2, 3}"
  shows "verify_totp sample_hmac (\<lambda>_. Inr []) 60000 (UserId ''ann'') ''000000'' (sample_factor (step - 1)) (sample_factor (step - 1)) =
    (Inr True, sample_factor step)"
proof -
  have "find_active_totp (UserId ''ann'') (sample_factor (step - 1)) = Some (sample_credential (step - 1))"
    by (simp add: find_active_totp_def find_totp_def factor_samples)
  moreover have "mfa_register_use step (sample_credential (step - 1)) = Inr (sample_credential step)"
    by (simp add: mfa_register_use_def factor_samples)
  moreover have "totp_verify sample_hmac [] ''000000'' 60000 drift_window (Some (step - 1)) = Inr \<lparr>tv_valid = True, tv_step = step\<rparr>"
    using assms unfolding totp_verify_def sample_window by (auto simp: sample_code)
  moreover have "mc_last_step (sample_credential (step - 1)) = Some (step - 1)" by (simp add: factor_samples)
  moreover have "save_credential (sample_credential step) (sample_factor (step - 1)) = (Inr (), sample_factor step)"
    unfolding sample_factor_def by (rule sample_credential_saved[where l = "step - 1"]) simp
  ultimately show ?thesis by (simp add: verify_totp_def)
qed

lemma sample_activated:
  "activate_mfa sample_hmac (\<lambda>_. Inr []) id sample_sink [sample_draw] 60000 (UserId ''ann'') ''000000'' False sample_enrolled
     sample_enrolled al = (Inr (ok [''22222-22222'']), sample_factor 1, al)"
proof -
  have "find_pending_totp (UserId ''ann'') sample_enrolled = Some sample_pending" "find_active_totp (UserId ''ann'') sample_enrolled = None"
    by (simp_all add: find_pending_totp_def find_active_totp_def find_totp_def factor_samples)
  moreover have "totp_verify sample_hmac [] ''000000'' 60000 drift_window None = Inr \<lparr>tv_valid = True, tv_step = 1\<rparr>"
    unfolding totp_verify_def sample_window by (simp add: sample_code)
  moreover have "switch_credential 60000 1 None sample_pending sample_enrolled =
      (Inr (), \<lparr>mf_credentials = [sample_credential 1], mf_codes = []\<rparr>)"
  proof -
    have "mfa_activate 60000 sample_pending = Inr (sample_pending\<lparr>mc_status := MfaActive, mc_activated := Some 60000\<rparr>)"
      by (simp add: mfa_activate_def factor_samples)
    moreover have "mfa_register_use 1 (sample_pending\<lparr>mc_status := MfaActive, mc_activated := Some 60000\<rparr>) = Inr (sample_credential 1)"
      by (simp add: mfa_register_use_def factor_samples)
    ultimately show ?thesis by (simp add: switch_credential_def sample_enrolled_def sample_credential_saved)
  qed
  ultimately show ?thesis
    by (simp add: activate_mfa_def sample_issue_codes sample_sink_def sample_factor_def)
qed

text \<open>Two verifications after the first one, of which the second writes after the other has.\<close>

lemma sample_factor_history: "factor_history (sample_factor 2) [sample_factor 3, sample_factor 2]"
proof -
  have "mfa_register_use 3 (sample_credential 2) = Inr (sample_credential 3)"
    by (simp add: mfa_register_use_def factor_samples)
  moreover have "save_credential (sample_credential 3) (sample_factor 2) = (Inr (), sample_factor 3)"
    unfolding sample_factor_def by (rule sample_credential_saved[where l = 2]) simp
  ultimately have "factor_step (set [sample_factor 2]) (sample_factor 2) (sample_factor 3)"
    by (intro factor_step.used[of "sample_factor 2" _ "sample_credential 2"]) (auto simp: sample_factor_def)
  from history.moved[OF history.began[of factor_step "sample_factor 2"] this] show ?thesis .
qed

definition sample_active :: mfa_state where
  "sample_active = \<lparr>mf_credentials = [sample_credential 1], mf_codes = []\<rparr>"

text \<open>An enrollment, its activation and the codes of the account.\<close>

lemma sample_factor_reached: "factor_history empty_mfa [sample_factor 1, sample_active, sample_enrolled, empty_mfa]"
proof -
  have "save_credential (mfa_enroll ''m1'' (UserId ''ann'') ''c'' 0) empty_mfa = (Inr (), sample_enrolled)"
    by (simp add: save_credential_def empty_mfa_def active_of_def factor_samples)
  then have "factor_step (set [empty_mfa]) empty_mfa sample_enrolled"
    by (intro factor_step.enrolled) (simp_all add: empty_mfa_def)
  from history.moved[OF history.began[of factor_step empty_mfa] this] have h1: "factor_history empty_mfa [sample_enrolled, empty_mfa]" .
  have used: "mfa_activate 60000 sample_pending = Inr (sample_pending\<lparr>mc_status := MfaActive, mc_activated := Some 60000\<rparr>)"
    "mfa_register_use 1 (sample_pending\<lparr>mc_status := MfaActive, mc_activated := Some 60000\<rparr>) = Inr (sample_credential 1)"
    by (simp_all add: mfa_activate_def mfa_register_use_def factor_samples)
  have saved: "save_credential (sample_credential 1) sample_enrolled = (Inr (), sample_active)"
    by (simp add: sample_enrolled_def sample_active_def sample_credential_saved)
  have "factor_step (set [sample_enrolled, empty_mfa]) sample_enrolled sample_active"
    by (rule factor_step.activated[OF _ _ used saved, where old = sample_enrolled]) (simp_all add: sample_enrolled_def)
  from history.moved[OF h1 this] have h2: "factor_history empty_mfa [sample_active, sample_enrolled, empty_mfa]" .
  have "factor_step (set [sample_active, sample_enrolled, empty_mfa]) sample_active (sample_factor 1)"
    by (rule factor_step.codes_changed) (simp add: sample_active_def sample_factor_def)
  from history.moved[OF h2 this] show ?thesis .
qed

definition sample_redeemed :: mfa_state where
  "sample_redeemed = \<lparr>mf_credentials = [sample_credential 1], mf_codes = [sample_issued\<lparr>rc_consumed := Some 65000\<rparr>]\<rparr>"

lemma sample_redemption:
  "redeem_code id 65000 (UserId ''ann'') ''22222-22222'' (sample_factor 1) (sample_factor 1) = (Inr True, sample_redeemed)"
  by (simp add: redeem_code_def find_code_def recovery_is_consumed_def recovery_consume_def consume_code_def update_where_def
      sample_redeemed_def factor_samples)

lemma sample_codes_history: "codes_history [sample_redeemed, sample_factor 1, sample_active, empty_mfa]"
proof -
  have saved: "save_credential (sample_credential 1) empty_mfa = (Inr (), sample_active)"
    by (simp add: save_credential_def active_of_def empty_mfa_def sample_active_def factor_samples)
  from history.moved[OF history.began[of codes_step empty_mfa] codes_step.credential_saved[OF saved]]
  have h1: "codes_history [sample_active, empty_mfa]" .
  have issued: "issue_codes id 60000 (UserId ''ann'') [sample_draw] sample_active = (Inr [''22222-22222''], sample_factor 1)"
    by (simp add: sample_issue_codes sample_factor_def sample_active_def)
  have "codes_step (set [sample_active, empty_mfa]) sample_active (sample_factor 1)"
    by (rule codes_step.codes_issued[OF _ issued]) (auto simp: empty_mfa_def sample_active_def)
  from history.moved[OF h1 this] have h2: "codes_history [sample_factor 1, sample_active, empty_mfa]" .
  have "codes_step (set [sample_factor 1, sample_active, empty_mfa]) (sample_factor 1) sample_redeemed"
    by (rule codes_step.code_redeemed[where digest = id and raw = "''22222-22222''", OF _ sample_redemption]) simp
  from history.moved[OF h2 this] show ?thesis .
qed

section \<open>Properties\<close>

text \<open>C31: a recovery code is redeemed at most once: after a successful redemption every other one with the same
  code, for any account and whatever state it has read, is refused and changes no code.\<close>
theorem recovery_code_is_used_once:
  assumes "codes_history (cur # past)" "cur # past = newer @ st1 # st # older" "old \<in> set (st # older)" "seen \<in> set (cur # past)"
    and "redeem_code digest now u raw old st = (Inr True, st1)"
  shows "fst (redeem_code digest now' u' raw seen cur) = Inr False \<and>
    mf_codes (snd (redeem_code digest now' u' raw seen cur)) = mf_codes cur"
proof -
  have "cur \<in> set (newer @ [st1])" using assms(2) by (cases newer) auto
  from redeemed_code[OF assms(1)[unfolded assms(2)] assms(3) this assms(5)] obtain k where
    k: "k \<in> set (mf_codes cur)" "rc_hash k = digest raw" "rc_consumed k \<noteq> None" by blast
  have "codes_ok cur" "codes_onward seen cur"
    using codes.states_before[OF assms(1)] assms(4) by auto
  from spent_code_refused[where digest = digest and raw = raw, OF this k] show ?thesis .
qed

theorem recovery_code_is_used_once_witness:
  "fst (redeem_code id 70000 (UserId ''ann'') ''22222-22222'' (sample_factor 1) sample_redeemed) = Inr False"
proof -
  have "fst (redeem_code id 70000 (UserId ''ann'') ''22222-22222'' (sample_factor 1) sample_redeemed) = Inr False \<and>
      mf_codes (snd (redeem_code id 70000 (UserId ''ann'') ''22222-22222'' (sample_factor 1) sample_redeemed)) = mf_codes sample_redeemed"
  proof (rule recovery_code_is_used_once[where newer = "[]" and st = "sample_factor 1" and older = "[sample_active, empty_mfa]" and
        old = "sample_factor 1" and u = "UserId ''ann''" and now = 65000])
    show "codes_history (sample_redeemed # [sample_factor 1, sample_active, empty_mfa])" by (rule sample_codes_history)
  qed (rule sample_redemption | simp)+
  then show ?thesis by (rule conjunct1)
qed

text \<open>C32: a TOTP credential accepts strictly increasing time steps from every request that begins after a success: after
  a verification that succeeded, whatever it had read and however requests ran before it, let requests begin and overlap in
  any way, each reading some state since and writing later. Then both verifications matched a code of a step within the drift
  window of their times, and when they used the same credential the second one matched a later step; so no code is accepted
  twice for its step. (A request that was in flight at the first success is not among them: what it saves can set the step
  back, and it can itself accept the code again, see below.)\<close>
theorem totp_steps_increase:
  assumes "verify_totp hmac decrypt now u code old st = (Inr True, st1)"
    and "factor_history st1 hist" "seen \<in> set hist"
    and "verify_totp hmac decrypt now' u code' seen cur = (Inr True, cur')"
  shows "\<exists>c c' step step'. find_active_totp u old = Some c \<and> find_active_totp u seen = Some c' \<and>
    totp_accepts hmac decrypt c code now step \<and> totp_accepts hmac decrypt c' code' now' step' \<and>
    (mc_id c' = mc_id c \<longrightarrow> step < step')"
proof -
  from verify_totp_accepts[OF assms(1)] obtain c step where c: "find_active_totp u old = Some c"
    "totp_accepts hmac decrypt c code now step" "used_from (mc_id c) step st1" by blast
  from verify_totp_accepts[OF assms(4)] obtain c' step' where c': "find_active_totp u seen = Some c'"
    "totp_accepts hmac decrypt c' code' now' step'" "\<forall>l. mc_last_step c' = Some l \<longrightarrow> l < step'" by blast
  have "c' \<in> set (mf_credentials seen)" using find_totpD(1) c'(1) unfolding find_active_totp_def by blast
  moreover have "used_from (mc_id c) step seen" by (rule used_from_history[OF assms(2) c(3) assms(3)])
  ultimately have "mc_id c' = mc_id c \<Longrightarrow> \<exists>l \<ge> step. mc_last_step c' = Some l" unfolding used_from_def by blast
  with c c' show ?thesis by fastforce
qed

theorem totp_steps_increase_witness:
  "\<exists>step step'. totp_accepts sample_hmac (\<lambda>_. Inr []) (sample_credential 1) ''000000'' 60000 step \<and>
     totp_accepts sample_hmac (\<lambda>_. Inr []) (sample_credential 2) ''000000'' 60000 step' \<and> step < step'"
proof -
  have active: "find_active_totp (UserId ''ann'') (sample_factor n) = Some (sample_credential n)" for n
    by (simp add: find_active_totp_def find_totp_def factor_samples)
  have "mc_id (sample_credential 2) = mc_id (sample_credential 1)" by (simp add: sample_credential_def)
  with totp_steps_increase[OF sample_verified[of 2, simplified] sample_factor_history _ sample_verified[of 3, simplified]] active
  show ?thesis by fastforce
qed

text \<open>Disabling the second factor leaves the recovery codes usable: afterwards the status reports no factor and no
  codes, no TOTP code is accepted, and yet every recovery code is redeemed exactly as before.\<close>
theorem disabled_factor_keeps_codes:
  assumes "disable_mfa audit now u st st al = (Inr (ok ()), st', al')"
    and "length (active_of u (mf_credentials st)) \<le> 1" "credentials_ok st"
  shows "mfa_status_of u st' = \<lparr>msv_enabled = False, msv_codes_remaining = 0\<rparr> \<and>
    fst (verify_factor hmac decrypt digest later u (TotpProof code) st' st') = Inr False \<and>
    fst (verify_factor hmac decrypt digest later u (RecoveryProof raw) st' st') =
      fst (verify_factor hmac decrypt digest later u (RecoveryProof raw) st st)"
proof -
  obtain c where c: "find_active_totp u st = Some c" "save_credential (mfa_revoke now c) st = (Inr (), st')"
    using assms(1) by (auto simp: disable_mfa_def split: option.splits sum.splits prod.splits)
  have in_st: "c \<in> set (mf_credentials st)" "mc_user c = u" "mc_status c = MfaActive"
    using find_totpD c(1) unfolding find_active_totp_def by blast+
  have active: "active_of u (mf_credentials st) = [c]"
  proof -
    have "c \<in> set (active_of u (mf_credentials st))" using in_st by (simp add: active_of_def)
    with assms(2) show ?thesis by (cases "active_of u (mf_credentials st)") (auto simp: le_Suc_eq)
  qed
  let ?f = "\<lambda>r. r\<lparr>mc_status := MfaRevoked, mc_secret := mc_secret c, mc_last_step := mc_last_step c,
    mc_activated := mc_activated c, mc_revoked := Some now\<rparr>"
  have rows: "mf_credentials st' = update_where (\<lambda>r. mc_id r = mc_id c) ?f (mf_credentials st)"
    using c(2) in_st(1,3) by (auto simp: save_credential_def mfa_revoke_def Let_def split: if_splits)
  have "mc_status r \<noteq> MfaActive" if "r \<in> set (mf_credentials st')" "mc_user r = u" for r
  proof
    assume "mc_status r = MfaActive"
    from that(1) obtain q where q: "q \<in> set (mf_credentials st)" "r = (if mc_id q = mc_id c then ?f q else q)"
      unfolding rows in_update_where by blast
    with \<open>mc_status r = MfaActive\<close> have other: "mc_id q \<noteq> mc_id c" "r = q" by (cases "mc_id q = mc_id c"; simp)+
    with q(1) \<open>mc_status r = MfaActive\<close> that(2) have "q \<in> set (active_of u (mf_credentials st))" by (simp add: active_of_def)
    with active other(1) show False by simp
  qed
  then have none: "find_active_totp u st' = None" by (auto simp: find_active_totp_def find_totp_def find_None_iff)
  have "mf_codes st' = mf_codes st" using c(2) by (rule save_credential_codes)
  then have "fst (redeem_code digest later u raw st' st') = fst (redeem_code digest later u raw st st)"
    by (simp add: redeem_code_def find_code_def consume_code_def Let_def split: option.splits sum.splits)
  with none show ?thesis by (simp add: mfa_status_of_def verify_factor_def verify_totp_def)
qed


theorem disabled_factor_keeps_codes_witness:
  "let st' = fst (snd (disable_mfa sample_sink 70000 (UserId ''ann'') (sample_factor 1) (sample_factor 1) empty_audit_log));
       use = fst (verify_factor sample_hmac (\<lambda>_. Inr []) id 80000 (UserId ''ann'') (RecoveryProof ''22222-22222'') st' st') in
     mfa_status_of (UserId ''ann'') st' = \<lparr>msv_enabled = False, msv_codes_remaining = 0\<rparr> \<and> use = Inr True"
proof -
  let ?run = "disable_mfa sample_sink 70000 (UserId ''ann'') (sample_factor 1) (sample_factor 1) empty_audit_log"
  have run: "?run = (Inr (ok ()), fst (snd ?run), snd (snd ?run))"
    by (simp add: disable_mfa_def find_active_totp_def find_totp_def save_credential_def update_where_def active_of_def
        mfa_revoke_def factor_samples)
  have before: "fst (verify_factor sample_hmac (\<lambda>_. Inr []) id 80000 (UserId ''ann'') (RecoveryProof ''22222-22222'') (sample_factor 1)
      (sample_factor 1)) = Inr True"
    by (simp add: verify_factor_def redeem_code_def find_code_def recovery_is_consumed_def recovery_consume_def consume_code_def
        factor_samples)
  from disabled_factor_keeps_codes[OF run, where hmac = sample_hmac and decrypt = "\<lambda>_. Inr []" and digest = id and later = 80000
      and raw = "''22222-22222''" and code = "''000000''"]
  show ?thesis using before by (simp add: active_of_def credentials_ok_def sample_factor_def Let_def)
qed

section \<open>Races\<close>

text \<open>Two verifications that read the same state both accept the same code, the second one after the first has saved.\<close>

lemma concurrent_code_accepted_twice:
  "fst (verify_totp sample_hmac (\<lambda>_. Inr []) 60000 (UserId ''ann'') ''000000'' (sample_factor 1) (sample_factor 1)) = Inr True \<and>
   fst (verify_totp sample_hmac (\<lambda>_. Inr []) 60000 (UserId ''ann'') ''000000'' (sample_factor 1) (sample_factor 2)) = Inr True"
proof -
  have active: "find_active_totp (UserId ''ann'') (sample_factor 1) = Some (sample_credential 1)"
    by (simp add: find_active_totp_def find_totp_def factor_samples)
  have valid: "totp_verify sample_hmac [] ''000000'' 60000 drift_window (Some 1) = Inr \<lparr>tv_valid = True, tv_step = 2\<rparr>"
    unfolding totp_verify_def sample_window by (simp add: sample_code)
  have used: "mfa_register_use 2 (sample_credential 1) = Inr (sample_credential 2)" by (simp add: mfa_register_use_def factor_samples)
  have "save_credential (sample_credential 2) (sample_factor 2) = (Inr (), sample_factor 2)"
    unfolding sample_factor_def by (rule sample_credential_saved[where l = 2]) simp
  moreover have "mc_last_step (sample_credential 1) = Some 1" by (simp add: factor_samples)
  ultimately show ?thesis using sample_verified[of 2] active valid used by (simp add: verify_totp_def)
qed

text \<open>A verification that read the credential before it was disabled makes it active again.\<close>

lemma late_use_restores_disabled_credential:
  assumes "verify_totp hmac decrypt now u code old st = (Inr True, st')" "find_active_totp u old = Some c"
    and "r \<in> set (mf_credentials st')" "mc_id r = mc_id c" "mc_id c \<in> mc_id ` set (mf_credentials st)"
  shows "mc_status r = MfaActive"
  using assms(1)
proof (cases rule: verify_totp_cases)
  case (used c' secret v c2 reply)
  have c': "c' = c" using used(1) assms(2) by simp
  have reply: "reply = Inr ()" using used(7) by (cases reply) auto
  have status: "mc_status c2 = MfaActive" "mc_id c2 = mc_id c"
    using used(5) c' by (auto simp: mfa_register_use_def split: if_splits option.splits)
  let ?f = "\<lambda>r. r\<lparr>mc_status := mc_status c2, mc_secret := mc_secret c2, mc_last_step := mc_last_step c2,
                     mc_activated := mc_activated c2, mc_revoked := mc_revoked c2\<rparr>"
  have "mf_credentials st' = update_where (\<lambda>r. mc_id r = mc_id c2) ?f (mf_credentials st)"
    using used(6) reply status(2) assms(5) unfolding save_credential_def Let_def by (simp only: if_True split: if_splits) auto
  then obtain q where "r = (if mc_id q = mc_id c2 then ?f q else q)" using assms(3) in_update_where by (auto simp: in_update_where)
  with status assms(4) show ?thesis by (cases "mc_id q = mc_id c2") simp_all
qed simp

end
