(* ===== verification/LoginSafety.thy ===== *)
theory LoginSafety
  imports Login MfaSafety
begin

text \<open>
  What login and step-up guarantee: an account is locked after its threshold of wrong passwords, up to the guesses that overlap, a login
  opens one session with its family and first refresh token, and a session is only raised to the second
  level by a second factor of its own user.
\<close>

section \<open>Guessing passwords\<close>

record attempt =
  att_fresh :: fresh_session
  att_asked_at :: date
  att_now :: date
  att_overtaken :: nat
  att_command :: login_command
  att_users :: identity_state
  att_factors :: mfa_state
  att_orgs :: tenancy_state

type_synonym login_answer = "(login_result, login_error) result throws"

text \<open>
  Attempts in the order in which they write, over the states so far, newest first. An attempt that others have
  overtaken checked the counters that many writes earlier (or in the first state, when it is that old).
\<close>

definition state_before :: "nat \<Rightarrow> authn_state list \<Rightarrow> authn_state" where
  "state_before n hist = (if n < length hist then hist ! n else last hist)"

fun login_run :: "login_config \<Rightarrow> (string \<Rightarrow> string \<Rightarrow> bool) \<Rightarrow> (access_token_claims \<Rightarrow> issued_access_token throws) \<Rightarrow>
    attempt list \<Rightarrow> authn_state list \<Rightarrow> (attempt \<times> login_answer) list \<times> authn_state list" where
  "login_run cfg matches issue [] hist = ([], hist)"
| "login_run cfg matches issue (a # rest) hist =
     (let (answer, st1) = login_execute cfg True matches issue (att_fresh a) (att_asked_at a) (att_now a) (att_command a)
            (att_users a) (att_factors a) (att_orgs a) (state_before (att_overtaken a) hist) (hd hist);
          (done_later, hist') = login_run cfg matches issue rest (st1 # hist) in
      ((a, answer) # done_later, hist'))"

definition guess :: "login_config \<Rightarrow> string \<Rightarrow> attempt \<times> login_answer \<Rightarrow> bool" where
  "guess cfg email entry \<longleftrightarrow> account_key cfg (att_command (fst entry)) = Some (''acct:'' @ email) \<and>
     snd entry = Inr (err InvalidCredentials)"

definition guesses :: "login_config \<Rightarrow> string \<Rightarrow> (attempt \<times> login_answer) list \<Rightarrow> nat" where
  "guesses cfg email log_entries = length (filter (guess cfg email) log_entries)"

lemma guesses_simps [simp]: "guesses cfg email [] = 0"
  "guesses cfg email (entry # rest) = (if guess cfg email entry then 1 else 0) + guesses cfg email rest"
  by (simp_all add: guesses_def)

text \<open>The counter of a key over a period: \<open>n\<close> failures, kept until after its end.\<close>

definition counted :: "date \<Rightarrow> date \<Rightarrow> string \<Rightarrow> nat \<Rightarrow> authn_state \<Rightarrow> bool" where
  "counted start stop key n st \<longleftrightarrow> (\<forall>t. start \<le> t \<longrightarrow> t < stop \<longrightarrow> failures t key st = n) \<and>
     (0 < n \<longrightarrow> (\<exists>until \<ge> stop. st_lockouts st key = Some (n, until)))"

lemma counted_initially: "failures start key st = 0 \<Longrightarrow> counted start stop key 0 st"
  by (auto simp: counted_def failures_def live_def split: option.splits if_splits)

lemma counted_same: "st_lockouts st' key = st_lockouts st key \<Longrightarrow> counted start stop key n st' = counted start stop key n st"
  by (simp add: counted_def failures_def)

lemma counted_failure:
  assumes "counted start stop key n st" "start \<le> now" "now < stop" "stop \<le> start + lp_window_seconds policy * 1000"
  shows "counted start stop key (n + 1) (snd (register_failure True now key policy st))"
proof -
  have n: "failures now key st = n" using assms(1-3) by (simp add: counted_def)
  obtain until where until: "st_lockouts (snd (register_failure True now key policy st)) key = Some (n + 1, until)" "stop \<le> until"
  proof (cases "n = 0")
    case True
    with assms(2,4) n show ?thesis
      by (intro that[of "now + lp_window_seconds policy * 1000"]) (simp_all add: register_failure_def Let_def)
  next
    case False
    then obtain until where "st_lockouts st key = Some (n, until)" "stop \<le> until" using assms(1) by (auto simp: counted_def)
    with False n show ?thesis by (intro that) (simp_all add: register_failure_def Let_def)
  qed
  then show ?thesis by (auto simp: counted_def failures_def live_def)
qed

lemma lockouts_other:
  "key \<noteq> k \<Longrightarrow> st_lockouts (snd (register_failure up now k policy st)) key = st_lockouts st key"
  "key \<noteq> k \<Longrightarrow> st_lockouts (reset_lockout up k st) key = st_lockouts st key"
  by (simp_all add: register_failure_def reset_lockout_def Let_def)

lemma count_failure_other: "K \<noteq> Some key \<Longrightarrow> st_lockouts (count_failure up now policy K st) key = st_lockouts st key"
  by (cases K) (auto simp: count_failure_def lockouts_other)

lemma clear_failures_other: "K \<noteq> Some key \<Longrightarrow> st_lockouts (clear_failures up K st) key = st_lockouts st key"
  by (cases K) (auto simp: clear_failures_def lockouts_other)

lemma ip_key_other: "ip_key cmd \<noteq> Some (''acct:'' @ email)"
  by (auto simp: ip_key_def split: option.splits)

lemma open_session_lockouts: "open_session s f t st = (answer, st') \<Longrightarrow> st_lockouts st' = st_lockouts st"
  by (auto simp: open_session_def create_session_def create_family_def add_refresh_def split: if_splits)

text \<open>The three outcomes of a login.\<close>

lemma login_execute_cases:
  assumes "login_execute cfg up matches issue fresh asked_at now cmd users factors orgs old st = (answer, st')"
  obtains (locked) "answer = Inr (err LoginLocked)" "st' = st"
      "key_locked up asked_at (lcfg_account_lockout cfg) (account_key cfg cmd) old \<or> key_locked up asked_at (lcfg_ip_lockout cfg) (ip_key cmd) old"
  | (refused) "answer = Inr (err InvalidCredentials)" "\<not> key_locked up asked_at (lcfg_account_lockout cfg) (account_key cfg cmd) old"
      "verify_credentials matches users factors (lc_email cmd) (lc_password cmd) = None"
      "st' = count_failure up now (lcfg_ip_lockout cfg) (ip_key cmd)
        (count_failure up now (lcfg_account_lockout cfg) (account_key cfg cmd) st)"
  | (verified) check st1 where "verify_credentials matches users factors (lc_email cmd) (lc_password cmd) = Some check"
      "\<not> key_locked up asked_at (lcfg_account_lockout cfg) (account_key cfg cmd) old"
      "st1 = clear_failures up (ip_key cmd) (clear_failures up (account_key cfg cmd) st)"
      "st_lockouts st' = st_lockouts st1" "answer \<notin> {Inr (err LoginLocked), Inr (err InvalidCredentials)}"
proof (cases "key_locked up asked_at (lcfg_account_lockout cfg) (account_key cfg cmd) old \<or>
    key_locked up asked_at (lcfg_ip_lockout cfg) (ip_key cmd) old")
  case True
  with assms show ?thesis by (intro locked) (simp_all add: login_execute_def)
next
  case unlocked: False
  show ?thesis
  proof (cases "verify_credentials matches users factors (lc_email cmd) (lc_password cmd)")
    case None
    with assms unlocked show ?thesis by (intro refused) (simp_all add: login_execute_def)
  next
    case (Some check)
    let ?st1 = "clear_failures up (ip_key cmd) (clear_failures up (account_key cfg cmd) st)"
    have "st_lockouts st' = st_lockouts ?st1 \<and> answer \<notin> {Inr (err LoginLocked), Inr (err InvalidCredentials)}"
      using assms unlocked Some open_session_lockouts
      by (fastforce simp: login_execute_def Let_def split: sum.splits prod.splits)
    with Some unlocked show ?thesis by (intro verified[OF Some _ refl]) simp_all
  qed
qed

lemma login_counted:
  assumes "login_execute cfg True matches issue fresh asked_at now cmd users factors orgs old st = (answer, st')"
    and "counted start stop (''acct:'' @ email) n st" "counted start stop (''acct:'' @ email) m old"
    and "start \<le> asked_at" "asked_at < stop" "start \<le> now" "now < stop"
    and "stop \<le> start + lp_window_seconds (lcfg_account_lockout cfg) * 1000"
    and "account_key cfg cmd = Some (''acct:'' @ email) \<Longrightarrow> answer \<in> {Inr (err LoginLocked), Inr (err InvalidCredentials)}"
  shows "if account_key cfg cmd = Some (''acct:'' @ email) \<and> answer = Inr (err InvalidCredentials)
    then counted start stop (''acct:'' @ email) (n + 1) st' \<and> m + 1 \<le> lp_threshold (lcfg_account_lockout cfg)
    else counted start stop (''acct:'' @ email) n st'"
proof -
  let ?key = "''acct:'' @ email"
  from assms(1) show ?thesis
  proof (cases rule: login_execute_cases)
    case locked
    then show ?thesis using assms(2) by simp
  next
    case refused
    let ?st1 = "count_failure True now (lcfg_account_lockout cfg) (account_key cfg cmd) st"
    have ip: "counted start stop ?key k st' = counted start stop ?key k ?st1" for k
      unfolding refused(4) by (rule counted_same) (rule count_failure_other[OF ip_key_other])
    show ?thesis
    proof (cases "account_key cfg cmd = Some ?key")
      case True
      have "failures asked_at ?key old = m" using assms(3-5) by (simp add: counted_def)
      with refused(2) True have "m + 1 \<le> lp_threshold (lcfg_account_lockout cfg)"
        by (simp add: key_locked_def is_locked_def)
      moreover have "counted start stop ?key (n + 1) ?st1"
        using counted_failure[OF assms(2,6-8)] True by (simp add: count_failure_def)
      ultimately show ?thesis using True refused(1) ip by simp
    next
      case False
      then have "counted start stop ?key n ?st1" using assms(2) counted_same[OF count_failure_other] by blast
      with False ip show ?thesis by simp
    qed
  next
    case (verified check st1)
    then have other: "account_key cfg cmd \<noteq> Some ?key" using assms(9) by blast
    have "st_lockouts st1 ?key = st_lockouts (clear_failures True (account_key cfg cmd) st) ?key"
      unfolding verified(3) by (rule clear_failures_other[OF ip_key_other])
    also have "\<dots> = st_lockouts st ?key" by (rule clear_failures_other[OF other])
    finally have "st_lockouts st' ?key = st_lockouts st ?key" unfolding verified(4) .
    from counted_same[OF this] assms(2) have "counted start stop ?key n st'" by blast
    with other show ?thesis by simp
  qed
qed

text \<open>The counter along the states of a run: it is at \<open>n\<close> now, and each write has added at most one.\<close>

definition counts_up :: "date \<Rightarrow> date \<Rightarrow> string \<Rightarrow> nat \<Rightarrow> authn_state list \<Rightarrow> bool" where
  "counts_up start stop key n hist \<longleftrightarrow> hist \<noteq> [] \<and> counted start stop key n (hd hist) \<and>
     (\<forall>j < length hist. \<exists>m. counted start stop key m (hist ! j) \<and> n \<le> m + j)"

lemma counts_up_initially: "failures start key st = 0 \<Longrightarrow> counts_up start stop key 0 [st]"
  using counted_initially[of start key st stop] by (auto simp: counts_up_def)

lemma counts_up_before:
  assumes "counts_up start stop key n hist"
  obtains m where "counted start stop key m (state_before k hist)" "n \<le> m + k"
proof (cases "k < length hist")
  case True
  with assms that show thesis by (auto simp: counts_up_def state_before_def)
next
  case False
  from assms have "hist \<noteq> []" by (simp add: counts_up_def)
  then have "last hist = hist ! (length hist - 1)" "length hist - 1 < length hist" by (simp_all add: last_conv_nth)
  with assms obtain m where "counted start stop key m (last hist)" "n \<le> m + (length hist - 1)"
    unfolding counts_up_def by metis
  with False that show thesis by (simp add: state_before_def)
qed

lemma counts_up_step:
  assumes "counts_up start stop key n hist" "counted start stop key (n + d) st" "d \<le> 1"
  shows "counts_up start stop key (n + d) (st # hist)"
proof -
  have "\<exists>m. counted start stop key m ((st # hist) ! j) \<and> n + d \<le> m + j" if "j < length (st # hist)" for j
  proof (cases j)
    case 0
    with assms(2) show ?thesis by auto
  next
    case (Suc i)
    with that assms(1) obtain m where "counted start stop key m (hist ! i)" "n \<le> m + i" unfolding counts_up_def by auto
    with Suc assms(3) show ?thesis by auto
  qed
  with assms(2) show ?thesis by (simp add: counts_up_def)
qed

lemma login_run_counted:
  assumes "login_run cfg matches issue attempts hist = (entries, hist')" "counts_up start stop (''acct:'' @ email) n hist"
    and "\<forall>a \<in> set attempts. start \<le> att_asked_at a \<and> att_asked_at a < stop \<and> start \<le> att_now a \<and> att_now a < stop \<and> att_overtaken a \<le> c"
    and "stop \<le> start + lp_window_seconds (lcfg_account_lockout cfg) * 1000" "n \<le> lp_threshold (lcfg_account_lockout cfg) + c"
    and "\<forall>(a, answer) \<in> set entries. account_key cfg (att_command a) = Some (''acct:'' @ email) \<longrightarrow>
      answer \<in> {Inr (err LoginLocked), Inr (err InvalidCredentials)}"
  shows "counts_up start stop (''acct:'' @ email) (n + guesses cfg email entries) hist' \<and>
    n + guesses cfg email entries \<le> lp_threshold (lcfg_account_lockout cfg) + c"
  using assms
proof (induction attempts arbitrary: hist n entries)
  case (Cons a rest)
  let ?key = "''acct:'' @ email" and ?old = "state_before (att_overtaken a) hist"
  obtain answer st1 where one: "login_execute cfg True matches issue (att_fresh a) (att_asked_at a) (att_now a) (att_command a)
      (att_users a) (att_factors a) (att_orgs a) ?old (hd hist) = (answer, st1)" by fastforce
  obtain later where later: "login_run cfg matches issue rest (st1 # hist) = (later, hist')" "entries = (a, answer) # later"
    using Cons.prems(1) one by (auto simp: Let_def split: prod.splits)
  have answers: "account_key cfg (att_command a) = Some ?key \<Longrightarrow> answer \<in> {Inr (err LoginLocked), Inr (err InvalidCredentials)}"
    using Cons.prems(6) later(2) by simp
  have times: "start \<le> att_asked_at a" "att_asked_at a < stop" "start \<le> att_now a" "att_now a < stop" "att_overtaken a \<le> c"
    using Cons.prems(3) by simp_all
  have now: "counted start stop ?key n (hd hist)" using Cons.prems(2) by (simp add: counts_up_def)
  obtain m where m: "counted start stop ?key m ?old" "n \<le> m + att_overtaken a" by (rule counts_up_before[OF Cons.prems(2)])
  have first: "if guess cfg email (a, answer) then counted start stop ?key (n + 1) st1 \<and> m + 1 \<le> lp_threshold (lcfg_account_lockout cfg)
      else counted start stop ?key n st1"
    using login_counted[OF one now m(1) times(1-4) Cons.prems(4) answers] unfolding guess_def fst_conv snd_conv .
  let ?d = "if guess cfg email (a, answer) then 1 else 0 :: nat"
  have "counted start stop ?key (n + ?d) st1" using first by (simp split: if_splits)
  from counts_up_step[OF Cons.prems(2) this] have up: "counts_up start stop ?key (n + ?d) (st1 # hist)" by simp
  have bound: "n + ?d \<le> lp_threshold (lcfg_account_lockout cfg) + c"
    using first m(2) times(5) Cons.prems(5) by (auto split: if_splits)
  have rest: "\<forall>a \<in> set rest. start \<le> att_asked_at a \<and> att_asked_at a < stop \<and> start \<le> att_now a \<and> att_now a < stop \<and> att_overtaken a \<le> c"
    "\<forall>(a, answer) \<in> set later. account_key cfg (att_command a) = Some ?key \<longrightarrow> answer \<in> {Inr (err LoginLocked), Inr (err InvalidCredentials)}"
    using Cons.prems(3,6) later(2) by simp_all
  from Cons.IH[OF later(1) up rest(1) Cons.prems(4) bound rest(2)] later(2) show ?case by (simp add: add.assoc)
qed simp

section \<open>Opening a session\<close>

lemma history_login:
  assumes "authn_history (st # past)" "open_session (new_session fresh check org cmd now expires) (new_family fresh check now)
      (new_refresh fresh now expires) st = (Inr (), st')"
  shows "authn_history (st' # st # past)"
proof -
  let ?s = "new_session fresh check org cmd now expires" and ?f = "new_family fresh check now" and ?t = "new_refresh fresh now expires"
  from assms(2) obtain st1 st2 where "create_session ?s st = (Inr (), st1)" "create_family ?f st1 = (Inr (), st2)" "add_refresh ?t st2 = (Inr (), st')"
    by (auto simp: open_session_def split: sum.splits prod.splits)
  then have "authn_step (set (st # past)) st st'"
    by (rule authn_step.logged_in) (simp_all add: new_session_def new_family_def new_refresh_def)
  with assms(1) show ?thesis by (rule authn_history.moved)
qed

section \<open>Stepping up\<close>

lemma elevated_rows:
  assumes "s' \<in> set (st_sessions (snd (elevate_session i aal now st)))"
  shows "s' \<in> set (st_sessions st) \<or> ses_id s' = i \<and> ses_status s' = SessionActive \<and> ses_aal s' = aal"
  using assms unfolding elevate_session_def Let_def by (auto simp: in_update_where split: if_splits)

lemma elevated_session:
  assumes "s \<in> set (st_sessions st)" "ses_id s = i" "ses_status s = SessionActive"
  shows "s\<lparr>ses_aal := aal, ses_auth_time := now\<rparr> \<in> set (st_sessions (snd (elevate_session i aal now st)))"
  using assms unfolding elevate_session_def Let_def by (auto simp: update_where_def image_iff intro!: bexI[of _ s])

lemma reset_lockout_sessions [simp]: "st_sessions (reset_lockout up key st) = st_sessions st"
  by (simp add: reset_lockout_def)

lemma register_failure_sessions [simp]: "st_sessions (snd (register_failure up now key policy st)) = st_sessions st"
  by (simp add: register_failure_def Let_def)

lemma step_up_cases:
  assumes "step_up_execute policy up factor issue audit now cmd old st mfa al = (answer, st', mfa', al')"
  obtains (unchanged) "st_sessions st' = st_sessions st" "\<And>r. answer \<noteq> Inr (ok r)"
  | (elevated) s where "find_session (SessionId (su_session cmd)) old = Some s" "ses_status s = SessionActive"
      "user_value (ses_user s) = su_user cmd" "\<not> is_locked up now (''mfa:'' @ su_user cmd) policy st"
      "factor (ses_user s) (su_proof cmd) mfa = (Inr True, mfa')"
      "st' = snd (elevate_session (ses_id s) step_up_aal now (reset_lockout up (''mfa:'' @ su_user cmd) st))"
proof (cases "find_session (SessionId (su_session cmd)) old")
  case None
  with assms show ?thesis by (intro unchanged) (auto simp: step_up_execute_def)
next
  case (Some s)
  let ?key = "''mfa:'' @ user_value (ses_user s)"
  show ?thesis
  proof (cases "ses_status s \<noteq> SessionActive \<or> user_value (ses_user s) \<noteq> su_user cmd \<or> is_locked up now ?key policy st")
    case True
    with assms Some show ?thesis by (intro unchanged) (auto simp: step_up_execute_def split: if_splits)
  next
    case False
    obtain verdict mfa1 where f: "factor (ses_user s) (su_proof cmd) mfa = (verdict, mfa1)" by fastforce
    show ?thesis
    proof (cases "verdict = Inr True")
      case True
      with assms Some False f have "mfa1 = mfa'" "st' = snd (elevate_session (ses_id s) step_up_aal now (reset_lockout up ?key st))"
        by (auto simp: step_up_execute_def Let_def split: sum.splits prod.splits)
      with Some False f True show ?thesis by (intro elevated[OF Some]) auto
    next
      case no: False
      have "st_sessions st' = st_sessions st \<and> (\<forall>r. answer \<noteq> Inr (ok r))"
      proof (cases verdict)
        case (Inr b)
        with no have "verdict = Inr False" by simp
        with assms Some False f show ?thesis
          by (auto simp: step_up_execute_def Let_def split: sum.splits prod.splits)
      qed (use assms Some False f in \<open>auto simp: step_up_execute_def\<close>)
      then show ?thesis by (intro unchanged) auto
    qed
  qed
qed

text \<open>A proof that verifies: a TOTP code of the active credential, or an unused recovery code.\<close>

definition factor_proved :: "(8 word list \<Rightarrow> 8 word list \<Rightarrow> 8 word list) \<Rightarrow> (string \<Rightarrow> 8 word list throws) \<Rightarrow>
    (string \<Rightarrow> string) \<Rightarrow> date \<Rightarrow> user_id \<Rightarrow> second_factor_proof \<Rightarrow> mfa_state \<Rightarrow> bool" where
  "factor_proved hmac decrypt digest now u proof st \<longleftrightarrow>
     (case proof of
        TotpProof code \<Rightarrow> (\<exists>c step. find_active_totp u st = Some c \<and> totp_accepts hmac decrypt c code now step \<and>
          (\<forall>l. mc_last_step c = Some l \<longrightarrow> l < step))
      | RecoveryProof raw \<Rightarrow> (\<exists>c \<in> set (mf_codes st). rc_user c = u \<and> rc_hash c = digest raw \<and> rc_consumed c = None))"

lemma verify_factor_proved:
  assumes "verify_factor hmac decrypt digest now u proof old st = (Inr True, st')"
  shows "factor_proved hmac decrypt digest now u proof old"
proof (cases "proof")
  case (TotpProof code)
  with assms have "verify_totp hmac decrypt now u code old st = (Inr True, st')" by (simp add: verify_factor_def)
  from verify_totp_accepts[OF this] TotpProof show ?thesis by (auto simp: factor_proved_def)
next
  case (RecoveryProof raw)
  with assms have "redeem_code digest now u raw old st = (Inr True, st')" by (simp add: verify_factor_def)
  then obtain c where "find_code u (digest raw) old = Some c" "rc_consumed c = None"
    by (cases rule: redeem_code_cases) auto
  with RecoveryProof show ?thesis by (auto simp: factor_proved_def find_code_def find_Some_iff intro!: bexI[of _ c])
qed

section \<open>Samples\<close>

definition sample_config :: login_config where
  "sample_config = \<lparr>lcfg_refresh_ttl = 3600, lcfg_account_lockout = \<lparr>lp_threshold = 2, lp_window_seconds = 900\<rparr>,
     lcfg_ip_lockout = \<lparr>lp_threshold = 50, lp_window_seconds = 900\<rparr>, lcfg_public_email = None\<rparr>"

definition sample_command :: login_command where
  "sample_command = \<lparr>lc_email = '' Ann@x.org'', lc_password = ''guess'', lc_user_agent = None, lc_ip = None\<rparr>"

definition sample_fresh :: fresh_session where
  "sample_fresh = \<lparr>fs_session = SessionId ''s9'', fs_family = TokenFamilyId ''f9'', fs_token_id = ''t9'',
     fs_refresh = \<lparr>gen_raw = ''r9'', gen_hash = ''h9''\<rparr>\<rparr>"

definition no_orgs :: tenancy_state where
  "no_orgs = \<lparr>ten_orgs = [], ten_members = []\<rparr>"

definition sample_attempt :: "nat \<Rightarrow> date \<Rightarrow> attempt" where
  "sample_attempt overtaken now = \<lparr>att_fresh = sample_fresh, att_asked_at = now, att_now = now, att_overtaken = overtaken, att_command = sample_command, att_users = empty_identity,
     att_factors = empty_mfa, att_orgs = no_orgs\<rparr>"

lemma sample_account_key: "account_key sample_config sample_command = Some (''acct:'' @ ''ann@x.org'')"
  by (simp add: account_key_def sample_config_def sample_command_def js_trim_def is_space_def to_lower_def lower_char_def Let_def
      char_of_eq_iff)

lemma sample_wrong: "verify_credentials matches empty_identity factors email password = None"
  by (simp add: verify_credentials_def find_user_by_email_def empty_identity_def split: sum.split)

definition sample_counted :: "nat \<Rightarrow> authn_state" where
  "sample_counted n = empty_authn\<lparr>st_lockouts := [''acct:ann@x.org'' \<mapsto> (n, 901000)]\<rparr>"

text \<open>Two attempts one after the other reach the threshold; a third one that had checked before is answered as well.\<close>

lemma sample_attempts:
  "login_run sample_config matches issue [sample_attempt 0 1000, sample_attempt 0 2000, sample_attempt 2 3000] [empty_authn] =
     ([(sample_attempt 0 1000, Inr (err InvalidCredentials)), (sample_attempt 0 2000, Inr (err InvalidCredentials)),
       (sample_attempt 2 3000, Inr (err InvalidCredentials))], [sample_counted 3, sample_counted 2, sample_counted 1, empty_authn])"
proof -
  have ip: "ip_key sample_command = None" by (simp add: ip_key_def sample_command_def)
  show ?thesis
    by (simp add: sample_attempt_def login_execute_def key_locked_def count_failure_def sample_account_key ip sample_wrong is_locked_def
        failures_def live_def register_failure_def state_before_def Let_def)
       (simp add: sample_config_def sample_counted_def empty_authn_def eval_nat_numeral)
qed

definition sample_step_up :: step_up_command where
  "sample_step_up = \<lparr>su_session = ''s1'', su_user = ''ann'', su_proof = TotpProof ''000000''\<rparr>"

section \<open>Properties\<close>



text \<open>C36: only a second factor raises a session: when a step-up changes the sessions or answers with a token, the
  presented session was active and belonged to the caller, the caller was not locked out, the proof was a code of the
  user's active credential at a fresh time step or an unused recovery code of the user, and the only session it
  changed is the presented one, raised to level two.\<close>
theorem elevation_needs_second_factor:
  assumes "step_up_execute policy up (\<lambda>u proof mfa. verify_factor hmac decrypt digest now u proof seen mfa) issue audit now cmd old st mfa al =
      (answer, st', mfa', al')"
    and "st_sessions st' \<noteq> st_sessions st \<or> answer = Inr (ok r)"
  shows "\<exists>s. find_session (SessionId (su_session cmd)) old = Some s \<and> ses_status s = SessionActive \<and>
    user_value (ses_user s) = su_user cmd \<and> \<not> is_locked up now (''mfa:'' @ su_user cmd) policy st \<and>
    factor_proved hmac decrypt digest now (ses_user s) (su_proof cmd) seen \<and>
    (\<forall>s' \<in> set (st_sessions st'). s' \<in> set (st_sessions st) \<or> ses_id s' = SessionId (su_session cmd) \<and> ses_aal s' = step_up_aal)"
  using assms(1)
proof (cases rule: step_up_cases)
  case (elevated s)
  have "ses_id s = SessionId (su_session cmd)" using elevated(1) by (auto simp: find_session_def find_Some_iff)
  moreover have "factor_proved hmac decrypt digest now (ses_user s) (su_proof cmd) seen"
    using elevated(5) by (rule verify_factor_proved)
  ultimately show ?thesis using elevated elevated_rows by (intro exI[of _ s]) fastforce
qed (use assms(2) in auto)

theorem elevation_needs_second_factor_witness:
  "factor_proved sample_hmac (\<lambda>_. Inr []) id 60000 (UserId ''ann'') (TotpProof ''000000'') (sample_factor 1)"
proof -
  let ?policy = "\<lparr>lp_threshold = 5, lp_window_seconds = 900\<rparr>"
  let ?factor = "\<lambda>u proof mfa. verify_factor sample_hmac (\<lambda>_. Inr []) id 60000 u proof (sample_factor 1) mfa"
  let ?run = "step_up_execute ?policy True ?factor sample_issue sample_sink 60000 sample_step_up sample_login sample_login (sample_factor 1)
    empty_audit_log"
  have found: "find_session (SessionId ''s1'') sample_login = Some sample_session" "ses_status sample_session = SessionActive"
      "ses_user sample_session = UserId ''ann''"
    by (simp_all add: find_session_def sample_simps)
  have "fst ?run = Inr (ok \<lparr>sur_access_token = ''a'', sur_expires_in = 900\<rparr>)"
    using sample_verified[of 2] found
    by (simp add: step_up_execute_def sample_step_up_def verify_factor_def is_locked_def failures_def live_def sample_login_def
        empty_authn_def sample_issue_def sample_sink_def Let_def)
  then obtain st' mfa' al' where run: "?run = (Inr (ok \<lparr>sur_access_token = ''a'', sur_expires_in = 900\<rparr>), st', mfa', al')"
    by (metis prod.collapse)
  from elevation_needs_second_factor[OF run, where r = "\<lparr>sur_access_token = ''a'', sur_expires_in = 900\<rparr>"] found
  show ?thesis by (auto simp: sample_step_up_def)
qed

text \<open>An elevation can go unrecorded: when the audit log fails to take the event, the step-up throws without a
  token and without an entry, and yet the session stays at level two, so that the next refresh issues a token of level two.\<close>
theorem elevation_can_go_unrecorded:
  assumes "find_session (SessionId (su_session cmd)) old = Some s" "ses_status s = SessionActive" "user_value (ses_user s) = su_user cmd"
    and "\<not> is_locked up now (''mfa:'' @ su_user cmd) policy st" "factor (ses_user s) (su_proof cmd) mfa = (Inr True, mfa')"
    and "issue (step_up_claims s now) = Inr token" "audit (step_up_event s (su_proof cmd) True) al = (Inl e, al)"
    and "s0 \<in> set (st_sessions st)" "ses_id s0 = ses_id s" "ses_status s0 = SessionActive"
  shows "\<exists>st'. step_up_execute policy up factor issue audit now cmd old st mfa al = (Inl e, st', mfa', al) \<and>
    (\<exists>s' \<in> set (st_sessions st'). ses_id s' = ses_id s \<and> ses_status s' = SessionActive \<and>
      (\<forall>f. claim_aal (refresh_claims f s') = step_up_aal))"
proof -
  let ?st = "reset_lockout up (''mfa:'' @ su_user cmd) st"
  let ?s = "s0\<lparr>ses_aal := step_up_aal, ses_auth_time := now\<rparr>"
  have "step_up_execute policy up factor issue audit now cmd old st mfa al =
      (Inl e, snd (elevate_session (ses_id s) step_up_aal now ?st), mfa', al)"
    using assms(1-7) by (simp add: step_up_execute_def Let_def)
  moreover have "?s \<in> set (st_sessions (snd (elevate_session (ses_id s) step_up_aal now ?st)))"
    by (rule elevated_session) (use assms(8-10) in simp_all)
  ultimately show ?thesis using assms(9,10) by (auto simp: refresh_claims_def intro!: bexI[of _ ?s])
qed


theorem elevation_can_go_unrecorded_witness:
  "\<exists>st'. step_up_execute \<lparr>lp_threshold = 5, lp_window_seconds = 900\<rparr> True (\<lambda>u proof mfa. (Inr True, mfa)) sample_issue
      (\<lambda>event al. (Inl (Error ''down''), al)) 60000 sample_step_up sample_login sample_login empty_mfa empty_audit_log =
        (Inl (Error ''down''), st', empty_mfa, empty_audit_log) \<and>
     (\<exists>s' \<in> set (st_sessions st'). ses_id s' = SessionId ''s1'' \<and> claim_aal (refresh_claims sample_family s') = 2)"
proof -
  have found: "find_session (SessionId (su_session sample_step_up)) sample_login = Some sample_session"
      "ses_status sample_session = SessionActive" "user_value (ses_user sample_session) = su_user sample_step_up"
      "ses_id sample_session = SessionId ''s1''" "sample_session \<in> set (st_sessions sample_login)"
    by (simp_all add: find_session_def sample_simps sample_step_up_def)
  have open_key: "\<not> is_locked True 60000 (''mfa:'' @ su_user sample_step_up) \<lparr>lp_threshold = 5, lp_window_seconds = 900\<rparr> sample_login"
    by (simp add: is_locked_def failures_def live_def sample_login_def empty_authn_def)
  from elevation_can_go_unrecorded[where factor = "\<lambda>u proof mfa. (Inr True, mfa)" and audit = "\<lambda>event al. (Inl (Error ''down''), al)" and
      issue = sample_issue and mfa = empty_mfa and mfa' = empty_mfa and al = empty_audit_log and e = "Error ''down''",
      OF found(1-3) open_key refl sample_issue_def refl found(5) refl found(2)]
  show ?thesis using found(4) by (auto simp: step_up_aal_def)
qed

end
