(* ===== verification/SigningKeys.thy ===== *)
theory SigningKeys
  imports Jwt Histories
begin

text \<open>
  The signing keys: \<open>SigningKeyService\<close> (authn/application/signing-keys.ts), its document in \<open>app_meta\<close>
  and the port \<open>Signer\<close>, whose versions Vault keeps. The locale \<open>signer\<close> is what the service relies on;
  \<open>SoftwareSigner\<close> provides it in the repository, Vault is the argument of every operation.
\<close>

section \<open>The signer\<close>

record 'v signer_port =
  sp_latest :: "'v \<Rightarrow> nat"
  sp_versions :: "'v \<Rightarrow> nat set"
  sp_rotate :: "'v \<Rightarrow> unit throws \<times> 'v"
  sp_set_min :: "nat \<Rightarrow> 'v \<Rightarrow> unit throws \<times> 'v"

text \<open>The versions published as public keys: a rotation adds the next one, a minimum hides the older ones, and
  an operation that fails changes neither.\<close>

locale signer =
  fixes port :: "'v signer_port"
  assumes latest_published: "sp_latest port v \<in> sp_versions port v"
    and published_bound: "n \<in> sp_versions port v \<Longrightarrow> n \<le> sp_latest port v"
    and rotate_fails: "sp_rotate port v = (Inl e, v') \<Longrightarrow> sp_latest port v' = sp_latest port v \<and> sp_versions port v' = sp_versions port v"
    and rotate_adds: "sp_rotate port v = (Inr u, v') \<Longrightarrow> sp_latest port v' = sp_latest port v + 1 \<and>
      sp_versions port v' = insert (sp_latest port v + 1) (sp_versions port v)"
    and set_min_fails: "sp_set_min port n v = (Inl e, v') \<Longrightarrow> sp_latest port v' = sp_latest port v \<and> sp_versions port v' = sp_versions port v"
    and set_min_hides: "sp_set_min port n v = (Inr u, v') \<Longrightarrow> sp_latest port v' = sp_latest port v \<and>
      sp_versions port v' = {k \<in> sp_versions port v. n \<le> k}"

definition software_signer :: "unit signer_port" where
  "software_signer = \<lparr>sp_latest = \<lambda>v. 1, sp_versions = \<lambda>v. {1},
     sp_rotate = \<lambda>v. (Inl (Error ''rotation not supported by the software signer''), v),
     sp_set_min = \<lambda>n v. (Inl (Error ''rotation not supported by the software signer''), v)\<rparr>"

interpretation software: signer software_signer
  by unfold_locales (simp_all add: software_signer_def)

definition vault_kid :: "string \<Rightarrow> nat \<Rightarrow> string" where
  "vault_kid key_name version = key_name @ ''-'' @ digits version"

section \<open>The service\<close>

record retiring_key =
  rk_version :: nat
  rk_drain_until :: date

record key_doc =
  kd_pinned :: "nat option"
  kd_retiring :: "retiring_key list"

definition initial_doc :: key_doc where
  "initial_doc = \<lparr>kd_pinned = None, kd_retiring = []\<rparr>"

record 'v key_state =
  ks_signer :: 'v
  ks_doc :: key_doc

definition resolve_active :: "'v signer_port \<Rightarrow> 'v key_state \<Rightarrow> nat" where
  "resolve_active port st = (case kd_pinned (ks_doc st) of Some v \<Rightarrow> v | None \<Rightarrow> sp_latest port (ks_signer st))"

definition rotate_keys :: "'v signer_port \<Rightarrow> 'v key_state \<Rightarrow> unit throws \<times> 'v key_state" where
  "rotate_keys port st =
     (let active = resolve_active port st in
      case sp_rotate port (ks_signer st) of
        (Inl e, v) \<Rightarrow> (Inl e, st\<lparr>ks_signer := v\<rparr>)
      | (Inr _, v) \<Rightarrow> (Inr (), st\<lparr>ks_signer := v, ks_doc := (ks_doc st)\<lparr>kd_pinned := Some active\<rparr>\<rparr>))"

definition promote_key :: "'v signer_port \<Rightarrow> int \<Rightarrow> date \<Rightarrow> 'v key_state \<Rightarrow> 'v key_state" where
  "promote_key port ttl_seconds now st =
     (let doc = ks_doc st; latest = sp_latest port (ks_signer st);
          previous = (case kd_pinned doc of Some v \<Rightarrow> v | None \<Rightarrow> latest) in
      if latest \<le> previous then st\<lparr>ks_doc := doc\<lparr>kd_pinned := None\<rparr>\<rparr>
      else st\<lparr>ks_doc := \<lparr>kd_pinned = None,
             kd_retiring = filter (\<lambda>e. rk_version e \<noteq> previous) (kd_retiring doc) @
               [\<lparr>rk_version = previous, rk_drain_until = now + ttl_seconds * 1000\<rparr>]\<rparr>\<rparr>)"

definition retire_keys :: "'v signer_port \<Rightarrow> date \<Rightarrow> 'v key_state \<Rightarrow> nat list throws \<times> 'v key_state" where
  "retire_keys port now st =
     (let doc = ks_doc st; drained = filter (\<lambda>e. rk_drain_until e \<le> now) (kd_retiring doc) in
      if drained = [] then (Inr [], st)
      else case sp_set_min port (Max (set (map rk_version drained)) + 1) (ks_signer st) of
        (Inl e, v) \<Rightarrow> (Inl e, st\<lparr>ks_signer := v\<rparr>)
      | (Inr _, v) \<Rightarrow> (Inr (map rk_version drained), \<lparr>ks_signer = v,
             ks_doc = doc\<lparr>kd_retiring := filter (\<lambda>e. now < rk_drain_until e) (kd_retiring doc)\<rparr>\<rparr>))"

section \<open>The life of the keys\<close>

text \<open>A run: the state, the tokens issued so far, each with the version that signed it and its date, and the time.\<close>

inductive key_run :: "'v signer_port \<Rightarrow> int \<Rightarrow> 'v key_state \<Rightarrow> (nat \<times> date) list \<Rightarrow> date \<Rightarrow> bool" for port ttl where
  keys_begin: "key_run port ttl \<lparr>ks_signer = v, ks_doc = initial_doc\<rparr> [] now"
| key_used: "key_run port ttl st issued now \<Longrightarrow> now \<le> later \<Longrightarrow>
    key_run port ttl st ((resolve_active port st, later) # issued) later"
| keys_rotated: "key_run port ttl st issued now \<Longrightarrow> rotate_keys port st = (answer, st') \<Longrightarrow> key_run port ttl st' issued now"
| key_promoted: "key_run port ttl st issued now \<Longrightarrow> now \<le> later \<Longrightarrow> key_run port ttl (promote_key port ttl later st) issued later"
| keys_retired: "key_run port ttl st issued now \<Longrightarrow> now \<le> later \<Longrightarrow> retire_keys port later st = (answer, st') \<Longrightarrow>
    key_run port ttl st' issued later"

text \<open>Every issued token is signed by the active version, or by one that retires no earlier than the token expires, or
  has expired; retiring versions are in order, and below the active one, which is published.\<close>

definition keys_ok :: "'v signer_port \<Rightarrow> int \<Rightarrow> 'v key_state \<Rightarrow> (nat \<times> date) list \<Rightarrow> date \<Rightarrow> bool" where
  "keys_ok port ttl st issued now \<longleftrightarrow>
     (let active = resolve_active port st; retiring = kd_retiring (ks_doc st); published = sp_versions port (ks_signer st) in
      active \<in> published \<and>
      sorted_wrt (\<lambda>e e'. rk_version e < rk_version e' \<and> rk_drain_until e \<le> rk_drain_until e') retiring \<and>
      (\<forall>e \<in> set retiring. rk_version e < active \<and> rk_version e \<in> published \<and> rk_drain_until e \<le> now + ttl * 1000) \<and>
      (\<forall>(version, at_time) \<in> set issued. at_time \<le> now \<and>
        (version = active \<or> (\<exists>e \<in> set retiring. rk_version e = version \<and> at_time + ttl * 1000 \<le> rk_drain_until e) \<or>
         at_time + ttl * 1000 \<le> now)))"

lemma sorted_wrt_pairs: "sorted_wrt R xs \<Longrightarrow> x \<in> set xs \<Longrightarrow> y \<in> set xs \<Longrightarrow> R x y \<or> x = y \<or> R y x"
  by (induction xs) auto

context signer
begin

definition same_keys :: "'v \<Rightarrow> 'v \<Rightarrow> bool" where
  "same_keys v w \<longleftrightarrow> sp_latest port v = sp_latest port w \<and> sp_versions port v = sp_versions port w"

lemma failed_active: "same_keys v (ks_signer st) \<Longrightarrow> resolve_active port (st\<lparr>ks_signer := v\<rparr>) = resolve_active port st"
  by (simp add: same_keys_def resolve_active_def split: option.split)

lemma failed_ok: "same_keys v (ks_signer st) \<Longrightarrow> keys_ok port ttl st issued now \<Longrightarrow> keys_ok port ttl (st\<lparr>ks_signer := v\<rparr>) issued now"
  using failed_active by (simp add: same_keys_def keys_ok_def Let_def)

lemma rotate_keys_cases:
  assumes "rotate_keys port st = (answer, st')"
  obtains (failed) v where "st' = st\<lparr>ks_signer := v\<rparr>" "same_keys v (ks_signer st)" | (rotated) v u where "sp_rotate port (ks_signer st) = (Inr u, v)"
    "st' = st\<lparr>ks_signer := v, ks_doc := (ks_doc st)\<lparr>kd_pinned := Some (resolve_active port st)\<rparr>\<rparr>"
proof (cases "sp_rotate port (ks_signer st)")
  case (Pair r v)
  show ?thesis
  proof (cases r)
    case (Inl e)
    with Pair rotate_fails have "same_keys v (ks_signer st)" unfolding same_keys_def by blast
    with assms Pair Inl show ?thesis by (intro failed) (simp_all add: rotate_keys_def Let_def)
  qed (use assms Pair rotated in \<open>simp add: rotate_keys_def Let_def\<close>)
qed

lemma rotate_active: "rotate_keys port st = (answer, st') \<Longrightarrow> resolve_active port st' = resolve_active port st"
  by (erule rotate_keys_cases) (simp_all add: failed_active, simp add: resolve_active_def)

lemma rotate_ok:
  assumes "keys_ok port ttl st issued now" "rotate_keys port st = (answer, st')"
  shows "keys_ok port ttl st' issued now"
  using assms(2)
proof (cases rule: rotate_keys_cases)
  case (rotated v u)
  have "sp_versions port (ks_signer st) \<subseteq> sp_versions port (ks_signer st')" "kd_retiring (ks_doc st') = kd_retiring (ks_doc st)"
    using rotate_adds[OF rotated(1)] by (auto simp: rotated(2))
  with assms(1) rotate_active[OF assms(2)] show ?thesis unfolding keys_ok_def Let_def by auto
qed (use assms(1) failed_ok in simp)

lemma use_ok:
  assumes "keys_ok port ttl st issued now" "now \<le> later"
  shows "keys_ok port ttl st ((resolve_active port st, later) # issued) later"
  using assms unfolding keys_ok_def Let_def by fastforce

lemma promote_key_eq:
  "promote_key port ttl now st = (if sp_latest port (ks_signer st) \<le> resolve_active port st
     then st\<lparr>ks_doc := (ks_doc st)\<lparr>kd_pinned := None\<rparr>\<rparr>
     else st\<lparr>ks_doc := \<lparr>kd_pinned = None,
       kd_retiring = filter (\<lambda>e. rk_version e \<noteq> resolve_active port st) (kd_retiring (ks_doc st)) @
         [\<lparr>rk_version = resolve_active port st, rk_drain_until = now + ttl * 1000\<rparr>]\<rparr>\<rparr>)"
  unfolding promote_key_def resolve_active_def Let_def by (rule refl)

lemma promote_ok:
  assumes "keys_ok port ttl st issued now" "now \<le> later"
  shows "keys_ok port ttl (promote_key port ttl later st) issued later"
proof -
  let ?active = "resolve_active port st" and ?latest = "sp_latest port (ks_signer st)" and ?st = "promote_key port ttl later st"
  let ?retiring = "kd_retiring (ks_doc st)" and ?published = "sp_versions port (ks_signer st)"
  have bound: "?active \<le> ?latest" using assms(1) published_bound by (simp add: keys_ok_def Let_def)
  have new: "resolve_active port ?st = ?latest" "ks_signer ?st = ks_signer st"
    by (simp_all add: promote_key_def resolve_active_def Let_def)
  show ?thesis
  proof (cases "?latest \<le> ?active")
    case True
    then have "?latest = ?active" "kd_retiring (ks_doc ?st) = ?retiring"
      using bound by (simp_all add: promote_key_eq)
    with assms new show ?thesis unfolding keys_ok_def Let_def by fastforce
  next
    case False
    have "filter (\<lambda>e. rk_version e \<noteq> ?active) ?retiring = ?retiring"
      using assms(1) by (intro filter_True) (auto simp: keys_ok_def Let_def)
    then have "kd_retiring (ks_doc ?st) = ?retiring @ [\<lparr>rk_version = ?active, rk_drain_until = later + ttl * 1000\<rparr>]"
      using False by (simp add: promote_key_eq)
    with assms new False latest_published show ?thesis
      unfolding keys_ok_def Let_def by (fastforce simp: sorted_wrt_append)
  qed
qed

lemma retire_keys_cases:
  assumes "retire_keys port now st = (answer, st')"
  obtains (idle) "st' = st" | (failed) v where "st' = st\<lparr>ks_signer := v\<rparr>" "same_keys v (ks_signer st)"
  | (retired) v u where "filter (\<lambda>e. rk_drain_until e \<le> now) (kd_retiring (ks_doc st)) \<noteq> []"
      "sp_set_min port (Max (set (map rk_version (filter (\<lambda>e. rk_drain_until e \<le> now) (kd_retiring (ks_doc st))))) + 1) (ks_signer st) = (Inr u, v)"
      "st' = \<lparr>ks_signer = v, ks_doc = (ks_doc st)\<lparr>kd_retiring := filter (\<lambda>e. now < rk_drain_until e) (kd_retiring (ks_doc st))\<rparr>\<rparr>"
proof (cases "filter (\<lambda>e. rk_drain_until e \<le> now) (kd_retiring (ks_doc st)) = []")
  case True
  with assms show ?thesis by (intro idle) (simp add: retire_keys_def Let_def)
next
  case False
  let ?m = "Max (set (map rk_version (filter (\<lambda>e. rk_drain_until e \<le> now) (kd_retiring (ks_doc st))))) + 1"
  obtain r v where r: "sp_set_min port ?m (ks_signer st) = (r, v)" by fastforce
  have run: "retire_keys port now st = (case (r, v) of (Inl e, v) \<Rightarrow> (Inl e, st\<lparr>ks_signer := v\<rparr>)
      | (Inr _, v) \<Rightarrow> (Inr (map rk_version (filter (\<lambda>e. rk_drain_until e \<le> now) (kd_retiring (ks_doc st)))), \<lparr>ks_signer = v,
          ks_doc = (ks_doc st)\<lparr>kd_retiring := filter (\<lambda>e. now < rk_drain_until e) (kd_retiring (ks_doc st))\<rparr>\<rparr>))"
    using False unfolding retire_keys_def Let_def r by (simp only: if_False)
  show ?thesis
  proof (cases r)
    case (Inl e)
    with r set_min_fails have "same_keys v (ks_signer st)" unfolding same_keys_def by blast
    with assms Inl run show ?thesis by (intro failed) simp_all
  next
    case (Inr u)
    with assms run r show ?thesis by (intro retired[OF False, of u v]) simp_all
  qed
qed

lemma retire_ok:
  assumes "keys_ok port ttl st issued now" "now \<le> later" "retire_keys port later st = (answer, st')"
  shows "keys_ok port ttl st' issued later"
proof -
  let ?retiring = "kd_retiring (ks_doc st)"
  let ?drained = "filter (\<lambda>e. rk_drain_until e \<le> later) ?retiring" and ?kept = "filter (\<lambda>e. later < rk_drain_until e) ?retiring"
  let ?min = "Max (set (map rk_version ?drained)) + 1"
  have same: "keys_ok port ttl st issued later" using assms(1,2) unfolding keys_ok_def Let_def by fastforce
  from assms(3) show ?thesis
  proof (cases rule: retire_keys_cases)
    case (retired v u)
    note hidden = set_min_hides[OF retired(2)]
    have least: "Max (set (map rk_version ?drained)) \<in> rk_version ` set ?drained"
      using Max_in[of "set (map rk_version ?drained)"] retired(1) by (simp only: set_map finite_set finite_imageI image_is_empty set_empty)
        simp
    have above: "?min \<le> n" if "\<And>d. d \<in> set ?drained \<Longrightarrow> rk_version d < n" for n
      using least that by (metis Suc_eq_plus1 Suc_leI imageE)
    have order: "rk_version d < rk_version e" if "d \<in> set ?drained" "e \<in> set ?kept" for d e
      using same that sorted_wrt_pairs[of _ ?retiring d e] unfolding keys_ok_def Let_def by fastforce
    have active: "resolve_active port st' = resolve_active port st" using hidden by (simp add: retired(3) resolve_active_def split: option.split)
    have "?min \<le> resolve_active port st" by (rule above) (use same in \<open>auto simp: keys_ok_def Let_def\<close>)
    then have in_use: "resolve_active port st \<in> sp_versions port v" using same hidden by (simp add: keys_ok_def Let_def)
    have kept: "rk_version e \<in> sp_versions port v" if "e \<in> set ?kept" for e
    proof -
      have "?min \<le> rk_version e" by (rule above) (rule order[OF _ that])
      with same that hidden show ?thesis by (auto simp: keys_ok_def Let_def)
    qed
    have tokens: "version = resolve_active port st \<or> (\<exists>e \<in> set ?kept. rk_version e = version \<and> tm + ttl * 1000 \<le> rk_drain_until e) \<or>
        tm + ttl * 1000 \<le> later" if "(version, tm) \<in> set issued" for version tm
      using same that unfolding keys_ok_def Let_def by fastforce
    have "keys_ok port ttl \<lparr>ks_signer = v, ks_doc = (ks_doc st)\<lparr>kd_retiring := ?kept\<rparr>\<rparr> issued later"
      using same in_use kept tokens active[unfolded retired(3)] unfolding keys_ok_def Let_def
      by (auto intro: sorted_wrt_filter)
    then show ?thesis by (simp only: retired(3))
  qed (use same failed_ok in simp_all)
qed

lemma run_ok: "key_run port ttl st issued now \<Longrightarrow> keys_ok port ttl st issued now"
proof (induction rule: key_run.induct)
  case (keys_begin v now)
  then show ?case by (simp add: keys_ok_def resolve_active_def initial_doc_def latest_published Let_def)
qed (erule (1) use_ok rotate_ok promote_ok, (erule (2) retire_ok)?)+

end

section \<open>Properties\<close>

text \<open>C37: signing keys outlive their tokens: along every run of issuing, rotating, promoting and retiring, with any
  signer that keeps the laws of the port, the version that signed a token is published until the token expires,
  the version that signs is published, and a rotation does not change which version signs.\<close>
theorem keys_outlive_their_tokens:
  assumes "signer port" "key_run port ttl st issued now"
  shows "(\<forall>(version, at_time) \<in> set issued. now < at_time + ttl * 1000 \<longrightarrow> version \<in> sp_versions port (ks_signer st)) \<and>
    resolve_active port st \<in> sp_versions port (ks_signer st) \<and>
    resolve_active port (snd (rotate_keys port st)) = resolve_active port st"
proof -
  have ok: "keys_ok port ttl st issued now" using signer.run_ok[OF assms] .
  have "version \<in> sp_versions port (ks_signer st)" if "(version, tm) \<in> set issued" "now < tm + ttl * 1000" for version tm
    using ok that unfolding keys_ok_def Let_def by fastforce
  moreover have "resolve_active port st \<in> sp_versions port (ks_signer st)" using ok by (simp add: keys_ok_def Let_def)
  moreover have "resolve_active port (snd (rotate_keys port st)) = resolve_active port st"
    by (rule signer.rotate_active[OF assms(1) prod.collapse[symmetric]])
  ultimately show ?thesis by auto
qed

definition sample_vault :: "(nat \<times> nat) signer_port" where
  "sample_vault = \<lparr>sp_latest = fst, sp_versions = \<lambda>(l, m). {min m l .. l}, sp_rotate = \<lambda>(l, m). (Inr (), (l + 1, min m l)),
     sp_set_min = \<lambda>n (l, m). if n \<le> l then (Inr (), (l, max n (min m l))) else (Inl (Error ''min_decryption_version''), (l, m))\<rparr>"

lemma sample_vault_signer: "signer sample_vault"
  by unfold_locales (auto simp: sample_vault_def split: if_splits)

definition sample_keys_begin :: "(nat \<times> nat) key_state" where
  "sample_keys_begin = \<lparr>ks_signer = (1, 1), ks_doc = initial_doc\<rparr>"

definition sample_keys_promoted :: "(nat \<times> nat) key_state" where
  "sample_keys_promoted = \<lparr>ks_signer = (2, 1),
     ks_doc = \<lparr>kd_pinned = None, kd_retiring = [\<lparr>rk_version = 1, rk_drain_until = 901000\<rparr>]\<rparr>\<rparr>"

definition sample_keys_retired :: "(nat \<times> nat) key_state" where
  "sample_keys_retired = \<lparr>ks_signer = (2, 2), ks_doc = initial_doc\<rparr>"

lemma sample_key_steps:
  "rotate_keys sample_vault sample_keys_begin = (Inr (), sample_keys_begin\<lparr>ks_signer := (2, 1), ks_doc := \<lparr>kd_pinned = Some 1, kd_retiring = []\<rparr>\<rparr>)"
  "promote_key sample_vault 900 1000 (sample_keys_begin\<lparr>ks_signer := (2, 1), ks_doc := \<lparr>kd_pinned = Some 1, kd_retiring = []\<rparr>\<rparr>) =
     sample_keys_promoted"
  "retire_keys sample_vault 901000 sample_keys_promoted = (Inr [1], sample_keys_retired)"
  "resolve_active sample_vault sample_keys_begin = 1" "resolve_active sample_vault sample_keys_promoted = 2"
  by (simp_all add: rotate_keys_def promote_key_def retire_keys_def resolve_active_def sample_vault_def sample_keys_begin_def
      sample_keys_promoted_def sample_keys_retired_def initial_doc_def)

lemma sample_key_run: "key_run sample_vault 900 sample_keys_retired [(2, 2000), (1, 0)] 901000"
proof -
  have r0: "key_run sample_vault 900 sample_keys_begin [] 0" unfolding sample_keys_begin_def by (rule key_run.keys_begin)
  from key_run.key_used[OF r0, of 0] have r1: "key_run sample_vault 900 sample_keys_begin [(1, 0)] 0"
    by (simp add: sample_key_steps)
  have r2: "key_run sample_vault 900 sample_keys_promoted [(1, 0)] 1000"
    using key_run.key_promoted[OF key_run.keys_rotated[OF r1 sample_key_steps(1)], of 1000] unfolding sample_key_steps(2) by simp
  from key_run.key_used[OF r2, of 2000] have r3: "key_run sample_vault 900 sample_keys_promoted [(2, 2000), (1, 0)] 2000"
    by (simp add: sample_key_steps)
  from key_run.keys_retired[OF r3 _ sample_key_steps(3)] show ?thesis by simp
qed

theorem keys_outlive_their_tokens_witness:
  "2 \<in> sp_versions sample_vault (ks_signer sample_keys_retired) \<and> 1 \<notin> sp_versions sample_vault (ks_signer sample_keys_retired)"
  using keys_outlive_their_tokens[OF sample_vault_signer sample_key_run]
  by (simp add: sample_vault_def sample_keys_retired_def)

section \<open>The window of a rotation\<close>

text \<open>Between the rotation of the signer and the write of the document no version is pinned, unless one was before,
  and the new version signs at once.\<close>

lemma rotation_window:
  assumes "signer port" "kd_pinned (ks_doc st) = None" "sp_rotate port (ks_signer st) = (Inr u, v)"
  shows "resolve_active port (st\<lparr>ks_signer := v\<rparr>) = resolve_active port st + 1"
  using signer.rotate_adds[OF assms(1,3)] assms(2) by (simp add: resolve_active_def)

text \<open>A key identifier names one version.\<close>

lemma vault_kid_version: "vault_kid key_name n = vault_kid key_name m \<longleftrightarrow> n = m"
  using dec_value_digits by (auto simp: vault_kid_def) metis

end
