(* ===== verification/AuthzEndpoints.thy ===== *)
theory AuthzEndpoints
  imports DecisionLog Directory Watch Login
begin

text \<open>
  The HTTP interface of authorization (apps/api/src/authz/interface): the guards \<open>PapAdminGuard\<close> and
  \<open>PermissionGuard\<close> and the controllers. An endpoint takes the claims the access-token guard stored and
  answers its response or the problem document it throws; \<open>Inl\<close> in front of that is an exception it does
  not handle. The shape of a body is checked by zod: an endpoint takes the typed body, or None where the
  shape is wrong, and checks the refinements its schema states.
\<close>

section \<open>Schemas\<close>

definition sized :: "nat \<Rightarrow> string \<Rightarrow> bool" where
  "sized n s \<longleftrightarrow> 1 \<le> length s \<and> length s \<le> n"

definition schema_identifier :: "string \<Rightarrow> bool" where
  "schema_identifier s \<longleftrightarrow> sized 64 s \<and> is_identifier s"

definition schema_entity_id :: "string \<Rightarrow> bool" where
  "schema_entity_id s \<longleftrightarrow> sized 256 s \<and> list_all (\<lambda>c. c \<notin> set '':#@'') s"

definition optional :: "('a \<Rightarrow> bool) \<Rightarrow> 'a option \<Rightarrow> bool" where
  "optional P v = (case v of Some x \<Rightarrow> P x | None \<Rightarrow> True)"

record check_dto =
  cd_action :: string
  cd_resource :: entity_ref
  cd_token :: "string option"

definition resource_schema :: "entity_ref \<Rightarrow> bool" where
  "resource_schema r \<longleftrightarrow> sized 64 (ref_type r) \<and> sized 256 (ref_id r)"

definition check_schema :: "check_dto \<Rightarrow> bool" where
  "check_schema d \<longleftrightarrow> sized 128 (cd_action d) \<and> resource_schema (cd_resource d) \<and> optional (sized 512) (cd_token d)"

definition batch_check_schema :: "check_dto list \<Rightarrow> bool" where
  "batch_check_schema ds \<longleftrightarrow> 1 \<le> length ds \<and> length ds \<le> 50 \<and> list_all check_schema ds"

record expand_dto =
  ed_resource :: entity_ref
  ed_relation :: string

definition expand_schema :: "expand_dto \<Rightarrow> bool" where
  "expand_schema d \<longleftrightarrow> resource_schema (ed_resource d) \<and> sized 64 (ed_relation d)"

text \<open>The conditions of a policy: every list of children, set and list of networks is inhabited.\<close>

fun condition_schema :: "condition \<Rightarrow> bool" where
  "condition_schema (All cs) \<longleftrightarrow> cs \<noteq> [] \<and> list_all condition_schema cs"
| "condition_schema (Any cs) \<longleftrightarrow> cs \<noteq> [] \<and> list_all condition_schema cs"
| "condition_schema (Not c) \<longleftrightarrow> condition_schema c"
| "condition_schema (Cmp comparison left right) \<longleftrightarrow> True"
| "condition_schema (In needle elements) \<longleftrightarrow> elements \<noteq> []"
| "condition_schema (IpInCidr ip cidrs) \<longleftrightarrow> cidrs \<noteq> []"

record policy_dto =
  pd_id :: "string option"
  pd_effect :: policy_effect
  pd_resource_type :: string
  pd_action :: string
  pd_condition :: condition

definition policy_schema :: "policy_dto \<Rightarrow> bool" where
  "policy_schema d \<longleftrightarrow> schema_identifier (pd_resource_type d) \<and> (pd_action d = any_action \<or> schema_identifier (pd_action d)) \<and>
     condition_schema (pd_condition d)"

record simulate_dto = check_dto +
  sd_policies :: "policy_dto list option"

definition simulate_schema :: "simulate_dto \<Rightarrow> bool" where
  "simulate_schema d \<longleftrightarrow> check_schema (check_dto.truncate d) \<and>
     optional (\<lambda>ps. length ps \<le> 50 \<and> list_all (\<lambda>q. policy_schema q \<and> optional (sized 128) (pd_id q)) ps) (sd_policies d)"

record check_as_dto = check_dto +
  ad_subject :: entity_ref
  ad_aal :: "int option"

definition check_as_schema :: "check_as_dto \<Rightarrow> bool" where
  "check_as_schema d \<longleftrightarrow> check_schema (check_dto.truncate d) \<and> resource_schema (ad_subject d) \<and>
     optional (\<lambda>aal. 0 \<le> aal \<and> aal \<le> 4) (ad_aal d)"

record tuple_dto =
  td_object :: entity_ref
  td_relation :: string
  td_subject :: entity_ref
  td_subject_relation :: "string option"

definition tuple_schema :: "tuple_dto \<Rightarrow> bool" where
  "tuple_schema d \<longleftrightarrow> schema_identifier (ref_type (td_object d)) \<and> schema_entity_id (ref_id (td_object d)) \<and>
     schema_identifier (td_relation d) \<and> schema_identifier (ref_type (td_subject d)) \<and>
     schema_entity_id (ref_id (td_subject d)) \<and> optional schema_identifier (td_subject_relation d)"

fun userset_schema :: "userset \<Rightarrow> bool" where
  "userset_schema This \<longleftrightarrow> True"
| "userset_schema (ComputedUserset relation) \<longleftrightarrow> schema_identifier relation"
| "userset_schema (TupleToUserset tupleset computed) \<longleftrightarrow> schema_identifier tupleset \<and> schema_identifier computed"
| "userset_schema (Union children) \<longleftrightarrow> children \<noteq> [] \<and> list_all userset_schema children"
| "userset_schema (Intersection children) \<longleftrightarrow> children \<noteq> [] \<and> list_all userset_schema children"
| "userset_schema (Exclusion base subtract) \<longleftrightarrow> userset_schema base \<and> userset_schema subtract"

definition namespace_schema :: "config_data \<Rightarrow> bool" where
  "namespace_schema d \<longleftrightarrow> data_relations d \<noteq> [] \<and>
     optional (list_all (\<lambda>(relation, rewrite). userset_schema rewrite)) (data_rewrites d)"

record tuple_query_dto =
  qd_namespace :: "string option"
  qd_object_id :: "string option"
  qd_relation :: "string option"
  qd_subject_type :: "string option"
  qd_subject_id :: "string option"
  qd_subject_relation :: "string option"
  qd_limit :: nat
  qd_offset :: nat

definition tuple_query_schema :: "tuple_query_dto \<Rightarrow> bool" where
  "tuple_query_schema d \<longleftrightarrow> optional (sized 64) (qd_namespace d) \<and> optional (sized 256) (qd_object_id d) \<and>
     optional (sized 64) (qd_relation d) \<and> optional (sized 64) (qd_subject_type d) \<and> optional (sized 256) (qd_subject_id d) \<and>
     optional (sized 64) (qd_subject_relation d) \<and> 1 \<le> qd_limit d \<and> qd_limit d \<le> 200 \<and>
     (qd_subject_type d = None \<longleftrightarrow> qd_subject_id d = None)"

definition parsed :: "('d \<Rightarrow> bool) \<Rightarrow> 'd option \<Rightarrow> 'd option" where
  "parsed schema body = (case body of Some d \<Rightarrow> if schema d then Some d else None | None \<Rightarrow> None)"

section \<open>Problems\<close>

definition forbidden :: problem where
  "forbidden = \<lparr>pb_title = ''Forbidden'', pb_status = 403, pb_detail = None\<rparr>"

definition bad_query :: problem where
  "bad_query = \<lparr>pb_title = ''Invalid authorization query'', pb_status = 400, pb_detail = None\<rparr>"

definition unavailable :: problem where
  "unavailable = \<lparr>pb_title = ''Authorization service unavailable'', pb_status = 503, pb_detail = None\<rparr>"

definition bad_administration :: "string option \<Rightarrow> problem" where
  "bad_administration detail = \<lparr>pb_title = ''Invalid administration request'', pb_status = 400, pb_detail = detail\<rparr>"

definition no_active_org :: problem where
  "no_active_org = \<lparr>pb_title = ''No active organization'', pb_status = 403, pb_detail = None\<rparr>"

definition bad_directory_query :: problem where
  "bad_directory_query = \<lparr>pb_title = ''Invalid directory query'', pb_status = 400, pb_detail = None\<rparr>"

definition namespace_not_found :: problem where
  "namespace_not_found = \<lparr>pb_title = ''Namespace not found'', pb_status = 404, pb_detail = None\<rparr>"

definition bad_watch :: "string \<Rightarrow> problem" where
  "bad_watch title = \<lparr>pb_title = title, pb_status = 400, pb_detail = None\<rparr>"

section \<open>Principals and requests\<close>

definition token_org :: "auth_token_claims \<Rightarrow> string option" where
  "token_org claims = (case tok_org claims of Some s \<Rightarrow> if s = [] then None else Some s | None \<Rightarrow> None)"

definition principal_of :: "auth_token_claims \<Rightarrow> principal" where
  "principal_of claims = \<lparr>principal_subject = \<lparr>ref_type = ''user'', ref_id = tok_sub claims\<rparr>, principal_org = tok_org claims,
     assurance_level = of_int (tok_aal claims), session_id = tok_sid claims, authenticated_at = None\<rparr>"

definition context_of :: "string \<Rightarrow> string \<Rightarrow> date \<Rightarrow> consistency \<Rightarrow> request_context" where
  "context_of ip uuid now level = \<lparr>request_ip = (if ip = [] then ''unknown'' else ip), request_id = uuid, requested_at = now,
     request_consistency = level\<rparr>"

definition consistency_of :: "platform \<Rightarrow> string option \<Rightarrow> (consistency, problem) result" where
  "consistency_of p token =
     (case token of
        None \<Rightarrow> ok FullConsistency
      | Some t \<Rightarrow> (case token_decode p t of Inl _ \<Rightarrow> err bad_query | Inr _ \<Rightarrow> ok (AtLeast t)))"

definition to_request :: "platform \<Rightarrow> string \<Rightarrow> date \<Rightarrow> auth_token_claims \<Rightarrow> check_dto \<Rightarrow> string \<Rightarrow> (batch_request, problem) result" where
  "to_request p uuid now claims d ip =
     (case action_create (cd_action d) of
        Inl _ \<Rightarrow> err bad_query
      | Inr act \<Rightarrow>
          (case consistency_of p (cd_token d) of
             Inl e \<Rightarrow> err e
           | Inr level \<Rightarrow> ok \<lparr>br_principal = principal_of claims, br_action = act, br_resource = cd_resource d,
               br_context = context_of ip uuid now level\<rparr>))"

record check_response =
  cr_effect :: effect
  cr_reasons :: "(string \<times> string) list"

definition to_response :: "decision \<Rightarrow> check_response" where
  "to_response d = \<lparr>cr_effect = decision_effect d, cr_reasons = map (\<lambda>r. (reason_code r, reason_message r)) (decision_reasons d)\<rparr>"

section \<open>Guards\<close>

definition pap_admin_guard :: "auth_token_claims \<Rightarrow> tenancy_state \<Rightarrow> problem option" where
  "pap_admin_guard claims orgs =
     (case token_org claims of
        None \<Rightarrow> Some forbidden
      | Some org \<Rightarrow> if role_of (UserId (tok_sub claims)) (OrgId org) orgs = Some OwnerRole then None else Some forbidden)"

record 'r required_permission =
  rp_action :: string
  rp_resource :: "'r \<Rightarrow> entity_ref"

text \<open>\<open>decide_one\<close> is \<open>pdp.check\<close> on the state of the service, None when it rejects; a rejection denies.\<close>

definition permission_guard :: "(principal \<Rightarrow> action \<Rightarrow> entity_ref \<Rightarrow> request_context \<Rightarrow> 's \<Rightarrow> decision option \<times> 's) \<Rightarrow>
    string \<Rightarrow> date \<Rightarrow> 'r required_permission option \<Rightarrow> auth_token_claims option \<Rightarrow> string option \<Rightarrow> 'r \<Rightarrow> 's \<Rightarrow>
    problem option \<times> 's" where
  "permission_guard decide_one uuid now required claims ip request st =
     (case required of
        None \<Rightarrow> (None, st)
      | Some rp \<Rightarrow>
          (case claims of
             None \<Rightarrow> (Some forbidden, st)
           | Some c \<Rightarrow>
               (case action_create (rp_action rp) of
                  Inl _ \<Rightarrow> (Some forbidden, st)
                | Inr act \<Rightarrow>
                    (case decide_one (principal_of c) act (rp_resource rp request)
                        \<lparr>request_ip = (case ip of Some s \<Rightarrow> s | None \<Rightarrow> ''unknown''), request_id = uuid, requested_at = now,
                           request_consistency = FullConsistency\<rparr> st of
                       (None, st') \<Rightarrow> (Some forbidden, st')
                     | (Some d, st') \<Rightarrow> (if decision_effect d \<noteq> Permit then Some forbidden else None, st')))))"

section \<open>The decision endpoints\<close>

definition check_endpoint :: "platform \<Rightarrow> (principal \<Rightarrow> action \<Rightarrow> entity_ref \<Rightarrow> request_context \<Rightarrow> 's \<Rightarrow> decision option \<times> 's) \<Rightarrow>
    string \<Rightarrow> date \<Rightarrow> auth_token_claims \<Rightarrow> check_dto option \<Rightarrow> string \<Rightarrow> 's \<Rightarrow> (check_response, problem) result \<times> 's" where
  "check_endpoint p decide_one uuid now claims body ip st =
     (case parsed check_schema body of
        None \<Rightarrow> (err bad_query, st)
      | Some d \<Rightarrow>
          (case to_request p uuid now claims d ip of
             Inl e \<Rightarrow> (err e, st)
           | Inr r \<Rightarrow>
               (case decide_one (br_principal r) (br_action r) (br_resource r) (br_context r) st of
                  (None, st') \<Rightarrow> (err unavailable, st')
                | (Some decision, st') \<Rightarrow> (ok (to_response decision), st'))))"

fun to_requests :: "platform \<Rightarrow> string list \<Rightarrow> date \<Rightarrow> auth_token_claims \<Rightarrow> check_dto list \<Rightarrow> string \<Rightarrow>
    (batch_request list, problem) result" where
  "to_requests p (uuid # uuids) now claims (d # ds) ip =
     (case to_request p uuid now claims d ip of
        Inl e \<Rightarrow> err e
      | Inr r \<Rightarrow> (case to_requests p uuids now claims ds ip of Inl e \<Rightarrow> err e | Inr rs \<Rightarrow> ok (r # rs)))"
| "to_requests p uuids now claims ds ip = ok []"

definition batch_check_endpoint :: "platform \<Rightarrow> (batch_request list \<Rightarrow> 's \<Rightarrow> decision list option \<times> 's) \<Rightarrow> string list \<Rightarrow> date \<Rightarrow>
    auth_token_claims \<Rightarrow> check_dto list option \<Rightarrow> string \<Rightarrow> 's \<Rightarrow> (check_response list, problem) result \<times> 's" where
  "batch_check_endpoint p decide_all uuids now claims body ip st =
     (case parsed batch_check_schema body of
        None \<Rightarrow> (err bad_query, st)
      | Some ds \<Rightarrow>
          (case to_requests p uuids now claims ds ip of
             Inl e \<Rightarrow> (err e, st)
           | Inr rs \<Rightarrow>
               (case decide_all rs st of
                  (None, st') \<Rightarrow> (err unavailable, st')
                | (Some decisions, st') \<Rightarrow> (ok (map to_response decisions), st'))))"

definition expand_endpoint :: "membership_reader \<Rightarrow> database \<Rightarrow> auth_token_claims \<Rightarrow> expand_dto option \<Rightarrow>
    (entity_ref list, problem) result" where
  "expand_endpoint reader db claims body =
     (case parsed expand_schema body of
        None \<Rightarrow> err bad_query
      | Some d \<Rightarrow>
          (case pdp_expand reader db (principal_of claims) (ed_resource d) (ed_relation d) of
             None \<Rightarrow> err unavailable
           | Some members \<Rightarrow> ok members))"

fun overlay_policies :: "platform \<Rightarrow> string \<Rightarrow> nat \<Rightarrow> policy_dto list \<Rightarrow> (policy list, problem) result" where
  "overlay_policies p org i [] = ok []"
| "overlay_policies p org i (d # ds) =
     (case parse_condition p (pd_condition d) of
        Inl _ \<Rightarrow> err bad_query
      | Inr cond \<Rightarrow>
          (case overlay_policies p org (i + 1) ds of
             Inl e \<Rightarrow> err e
           | Inr rest \<Rightarrow> ok (\<lparr>policy_id = (case pd_id d of Some s \<Rightarrow> s | None \<Rightarrow> ''overlay-'' @ digits i), policy_org = OrgId org,
               policy_effect = pd_effect d, policy_resource_type = pd_resource_type d, policy_action = pd_action d,
               policy_condition = cond, policy_revision = Revision 0\<rparr> # rest)))"

record simulate_response =
  sr_decision :: check_response
  sr_live :: check_response
  sr_changed :: bool

definition simulate_endpoint :: "platform \<Rightarrow> membership_reader \<Rightarrow> database \<Rightarrow> string \<Rightarrow> date \<Rightarrow> auth_token_claims \<Rightarrow>
    simulate_dto option \<Rightarrow> string \<Rightarrow> (simulate_response, problem) result" where
  "simulate_endpoint p reader db uuid now claims body ip =
     (case (parsed simulate_schema body, token_org claims) of
        (Some d, Some org) \<Rightarrow>
          (case to_request p uuid now claims (check_dto.truncate d) ip of
             Inl e \<Rightarrow> err e
           | Inr r \<Rightarrow>
               (case (case sd_policies d of None \<Rightarrow> ok None | Some ps \<Rightarrow> map_sum id Some (overlay_policies p org 0 ps)) of
                  Inl e \<Rightarrow> err e
                | Inr overlay \<Rightarrow>
                    (case simulate p reader db now (br_principal r) (br_action r) (br_resource r) (br_context r) overlay of
                       None \<Rightarrow> err unavailable
                     | Some s \<Rightarrow> ok \<lparr>sr_decision = to_response (sim_decision s), sr_live = to_response (sim_live s),
                         sr_changed = sim_changed s\<rparr>)))
      | _ \<Rightarrow> err bad_query)"

definition check_as_endpoint :: "platform \<Rightarrow> membership_reader \<Rightarrow> database \<Rightarrow> string \<Rightarrow> date \<Rightarrow> auth_token_claims \<Rightarrow>
    check_as_dto option \<Rightarrow> string \<Rightarrow> (check_response, problem) result" where
  "check_as_endpoint p reader db uuid now claims body ip =
     (case (parsed check_as_schema body, token_org claims) of
        (Some d, Some org) \<Rightarrow>
          (case action_create (cd_action d) of
             Inl _ \<Rightarrow> err bad_query
           | Inr act \<Rightarrow>
               (case consistency_of p (cd_token d) of
                  Inl e \<Rightarrow> err e
                | Inr level \<Rightarrow>
                    (case simulate p reader db now \<lparr>principal_subject = ad_subject d, principal_org = Some org,
                         assurance_level = (case ad_aal d of Some aal \<Rightarrow> of_int aal | None \<Rightarrow> 1), session_id = tok_sid claims,
                         authenticated_at = None\<rparr>
                         act (cd_resource d) (context_of ip uuid now level) None of
                       None \<Rightarrow> err unavailable
                     | Some s \<Rightarrow> ok (to_response (sim_decision s)))))
      | _ \<Rightarrow> err bad_query)"

end
