(* ===== verification/AdminEndpoints.thy ===== *)
theory AdminEndpoints
  imports AuthzEndpoints
begin

text \<open>
  The administration endpoints of authorization (apps/api/src/authz/interface): \<open>pap.controller.ts\<close>,
  \<open>directory.controller.ts\<close> and \<open>watch.controller.ts\<close>. All of them run behind the access-token guard and
  \<open>PapAdminGuard\<close>; \<open>guarded\<close> composes the two with an endpoint. A body is typed, or None where its shape
  is wrong. What a rejected database call answers is \<open>Inl\<close>.
\<close>

section \<open>Writing\<close>

fun config_error_name :: "config_error \<Rightarrow> string" where
  "config_error_name EmptyRelations = ''empty_relations''"
| "config_error_name InvalidRelation = ''invalid_relation''"
| "config_error_name DuplicateRelation = ''duplicate_relation''"
| "config_error_name InvalidVerb = ''invalid_verb''"
| "config_error_name EmptyBinding = ''empty_binding''"
| "config_error_name UnknownRelation = ''unknown_relation''"
| "config_error_name UnknownRewriteRelation = ''unknown_rewrite_relation''"
| "config_error_name InvalidRewrite = ''invalid_rewrite''"
| "config_error_name RewriteTooDeep = ''rewrite_too_deep''"
| "config_error_name CyclicComputedUserset = ''cyclic_computed_userset''"

fun define_error_name :: "define_error \<Rightarrow> string" where
  "define_error_name (ConfigError e) = config_error_name e"
| "define_error_name InvalidNamespace = ''invalid_namespace''"

fun condition_error_name :: "condition_error \<Rightarrow> string" where
  "condition_error_name ConditionTooDeep = ''condition_too_deep''"
| "condition_error_name TooManyConditionNodes = ''too_many_condition_nodes''"
| "condition_error_name EmptyChildren = ''empty_children''"
| "condition_error_name EmptySet = ''empty_set''"
| "condition_error_name MixedSetTypes = ''mixed_set_types''"
| "condition_error_name TypeMismatch = ''type_mismatch''"
| "condition_error_name EmptyCidrs = ''empty_cidrs''"
| "condition_error_name InvalidCidr = ''invalid_cidr''"
| "condition_error_name InvalidTimestamp = ''invalid_timestamp''"

fun policy_error_name :: "policy_writer_error \<Rightarrow> string" where
  "policy_error_name (ConditionError e) = condition_error_name e"
| "policy_error_name InvalidPolicy = ''invalid_policy''"

definition to_command :: "auth_token_claims \<Rightarrow> tuple_dto option \<Rightarrow> (tuple_command, problem) result" where
  "to_command claims body =
     (case token_org claims of
        None \<Rightarrow> err no_active_org
      | Some org \<Rightarrow>
          (case parsed tuple_schema body of
             None \<Rightarrow> err (bad_administration None)
           | Some d \<Rightarrow> ok \<lparr>cmd_org = OrgId org, cmd_object = td_object d, cmd_relation = td_relation d,
               cmd_subject = (case td_subject_relation d of
                  Some relation \<Rightarrow> UsersetSubject (td_subject d) relation
                | None \<Rightarrow> Subject (td_subject d))\<rparr>))"

type_synonym written = "(string, problem) result throws \<times> database"

definition write_tuple_endpoint :: "platform \<Rightarrow> date \<Rightarrow> tuple_dto option \<Rightarrow> auth_token_claims \<Rightarrow> database \<Rightarrow> written" where
  "write_tuple_endpoint p now body claims db =
     (case to_command claims body of
        Inl e \<Rightarrow> (Inr (err e), db)
      | Inr c \<Rightarrow> (let (zookie, db') = writer_write now c db in (map_sum id (ok \<circ> token_encode p) zookie, db')))"

definition revoke_tuple_endpoint :: "platform \<Rightarrow> date \<Rightarrow> tuple_dto option \<Rightarrow> auth_token_claims \<Rightarrow> database \<Rightarrow> written" where
  "revoke_tuple_endpoint p now body claims db =
     (case to_command claims body of
        Inl e \<Rightarrow> (Inr (err e), db)
      | Inr c \<Rightarrow> (let (zookie, db') = writer_revoke now c db in (map_sum id (ok \<circ> token_encode p) zookie, db')))"

definition define_namespace_endpoint :: "platform \<Rightarrow> date \<Rightarrow> string \<Rightarrow> config_data option \<Rightarrow> auth_token_claims \<Rightarrow>
    database \<Rightarrow> written" where
  "define_namespace_endpoint p now namespace body claims db =
     (case token_org claims of
        None \<Rightarrow> (Inr (err no_active_org), db)
      | Some org \<Rightarrow>
          (case parsed namespace_schema body of
             None \<Rightarrow> (Inr (err (bad_administration None)), db)
           | Some d \<Rightarrow>
               (let (answer, db') = writer_define now \<lparr>define_org = OrgId org, define_namespace = namespace,
                      define_config = d\<rparr> db in
                (map_sum id (map_sum (\<lambda>e. bad_administration (Some (define_error_name e))) (token_encode p)) answer, db'))))"

definition write_policy_endpoint :: "platform \<Rightarrow> string \<Rightarrow> policy_dto option \<Rightarrow> auth_token_claims \<Rightarrow> database \<Rightarrow> written" where
  "write_policy_endpoint p i body claims db =
     (case token_org claims of
        None \<Rightarrow> (Inr (err no_active_org), db)
      | Some org \<Rightarrow>
          (case parsed policy_schema body of
             None \<Rightarrow> (Inr (err (bad_administration None)), db)
           | Some d \<Rightarrow>
               (let (answer, db') = writer_policy p \<lparr>wp_org = OrgId org, wp_id = i, wp_effect = pd_effect d,
                      wp_resource_type = pd_resource_type d, wp_action = pd_action d, wp_condition = pd_condition d\<rparr> db in
                (map_sum id (map_sum (\<lambda>e. bad_administration (Some (policy_error_name e))) (token_encode p)) answer, db'))))"

definition delete_policy_endpoint :: "platform \<Rightarrow> string \<Rightarrow> auth_token_claims \<Rightarrow> database \<Rightarrow> written" where
  "delete_policy_endpoint p i claims db =
     (case token_org claims of
        None \<Rightarrow> (Inr (err no_active_org), db)
      | Some org \<Rightarrow>
          (let (zookie, db') = writer_policy_delete (OrgId org) i db in (map_sum id (ok \<circ> token_encode p) zookie, db')))"

datatype pap_request = WriteTuple "tuple_dto option" | RevokeTuple "tuple_dto option"
  | DefineNamespace string "config_data option" | WritePolicy string "policy_dto option" | DeletePolicy string

fun pap_endpoint :: "platform \<Rightarrow> date \<Rightarrow> pap_request \<Rightarrow> auth_token_claims \<Rightarrow> database \<Rightarrow> written" where
  "pap_endpoint p now (WriteTuple body) claims db = write_tuple_endpoint p now body claims db"
| "pap_endpoint p now (RevokeTuple body) claims db = revoke_tuple_endpoint p now body claims db"
| "pap_endpoint p now (DefineNamespace namespace body) claims db = define_namespace_endpoint p now namespace body claims db"
| "pap_endpoint p now (WritePolicy i body) claims db = write_policy_endpoint p i body claims db"
| "pap_endpoint p now (DeletePolicy i) claims db = delete_policy_endpoint p i claims db"

text \<open>
  \<open>@UseGuards(AccessTokenGuard, PapAdminGuard)\<close>: what the access-token guard answered decides first,
  then the role of the caller, and only then the endpoint runs.
\<close>

definition guarded :: "(auth_token_claims, problem) result throws \<Rightarrow> tenancy_state \<Rightarrow>
    (auth_token_claims \<Rightarrow> 's \<Rightarrow> ('a, problem) result throws \<times> 's) \<Rightarrow> 's \<Rightarrow> ('a, problem) result throws \<times> 's" where
  "guarded entry orgs endpoint st =
     (case entry of
        Inl e \<Rightarrow> (Inl e, st)
      | Inr (Inl pb) \<Rightarrow> (Inr (err pb), st)
      | Inr (Inr claims) \<Rightarrow>
          (case pap_admin_guard claims orgs of
             Some pb \<Rightarrow> (Inr (err pb), st)
           | None \<Rightarrow> endpoint claims st))"

section \<open>The directory\<close>

definition directory_org :: "auth_token_claims \<Rightarrow> (org_id, problem) result" where
  "directory_org claims = (case token_org claims of None \<Rightarrow> err bad_directory_query | Some org \<Rightarrow> ok (OrgId org))"

definition audit_verify_endpoint :: "(string \<Rightarrow> string) \<Rightarrow> audit_log \<Rightarrow> chain_verification" where
  "audit_verify_endpoint digest al = audit_verify digest al"

definition namespaces_endpoint :: "auth_token_claims \<Rightarrow> database \<Rightarrow> (namespace_summary_view list, problem) result" where
  "namespaces_endpoint claims db = map_sum id (\<lambda>org. directory_list_namespaces org db) (directory_org claims)"

definition namespace_endpoint :: "string \<Rightarrow> auth_token_claims \<Rightarrow> database \<Rightarrow> (namespace_detail_view, problem) result" where
  "namespace_endpoint namespace claims db =
     (case directory_org claims of
        Inl e \<Rightarrow> err e
      | Inr org \<Rightarrow> (case directory_get_namespace org namespace db of None \<Rightarrow> err namespace_not_found | Some detail \<Rightarrow> ok detail))"

definition tuple_query_of :: "tuple_query_dto \<Rightarrow> tuple_query" where
  "tuple_query_of d = \<lparr>tq_namespace = qd_namespace d, tq_object_id = qd_object_id d, tq_relation = qd_relation d,
     tq_subject = (case (qd_subject_type d, qd_subject_id d) of
        (Some t, Some i) \<Rightarrow> Some \<lparr>sv_type = t, sv_id = i, sv_relation = qd_subject_relation d\<rparr>
      | _ \<Rightarrow> None),
     tq_limit = qd_limit d, tq_offset = qd_offset d\<rparr>"

definition tuples_endpoint :: "tuple_query_dto option \<Rightarrow> auth_token_claims \<Rightarrow> database \<Rightarrow> (tuple_view list, problem) result" where
  "tuples_endpoint query claims db =
     (case directory_org claims of
        Inl e \<Rightarrow> err e
      | Inr org \<Rightarrow>
          (case parsed tuple_query_schema query of
             None \<Rightarrow> err bad_directory_query
           | Some d \<Rightarrow>
               (case directory_list_tuples org (tuple_query_of d) db of
                  Inl _ \<Rightarrow> err unavailable
                | Inr tuples \<Rightarrow> ok tuples)))"

definition policies_endpoint :: "auth_token_claims \<Rightarrow> database \<Rightarrow> (policy_view list, problem) result" where
  "policies_endpoint claims db = map_sum id (\<lambda>org. directory_list_policies org db) (directory_org claims)"

section \<open>The change stream\<close>

definition cursor_of :: "platform \<Rightarrow> string option \<Rightarrow> (revision option, problem) result" where
  "cursor_of p token =
     (case token of
        None \<Rightarrow> ok None
      | Some t \<Rightarrow>
          if t = [] then ok None
          else (case token_decode p t of Inl _ \<Rightarrow> err (bad_watch ''Invalid watch cursor'') | Inr zookie \<Rightarrow> ok (Some (token_revision zookie))))"

record message_event =
  me_id :: string
  me_type :: string
  me_data :: json

definition op_name :: "change_op \<Rightarrow> string" where
  "op_name op = (case op of UpsertOp \<Rightarrow> ''upsert'' | DeleteOp \<Rightarrow> ''delete'')"

definition subject_json :: "subject_ref \<Rightarrow> json" where
  "subject_json s =
     (case s of
        UsersetSubject r relation \<Rightarrow> JObject [(''type'', JString (ref_type r)), (''id'', JString (ref_id r)),
          (''relation'', JString relation)]
      | Subject r \<Rightarrow> JObject [(''type'', JString (ref_type r)), (''id'', JString (ref_id r))])"

definition to_message_event :: "platform \<Rightarrow> watch_event \<Rightarrow> message_event" where
  "to_message_event p event =
     (let i = token_encode p (ConsistencyToken (event_revision event)) in
      case event of
        Heartbeat r \<Rightarrow> \<lparr>me_id = i, me_type = ''heartbeat'', me_data = JObject [(''consistency_token'', JString i)]\<rparr>
      | ChangeEvent r c \<Rightarrow> \<lparr>me_id = i, me_type = ''change'', me_data = JObject
          [(''op'', JString (op_name (change_op c))),
           (''object'', JObject [(''type'', JString (ref_type (change_object c))), (''id'', JString (ref_id (change_object c)))]),
           (''relation'', JString (change_relation c)), (''subject'', subject_json (change_subject c)),
           (''consistency_token'', JString i), (''recorded_at'', JString (to_iso_string (change_recorded c)))]\<rparr>)"

text \<open>
  \<open>watch\<close>: \<open>query\<close> is the query string, None where its shape is wrong, with its optional \<open>since\<close>. The stream
  itself may end in an exception of the store, which is None.
\<close>

definition watch_endpoint :: "platform \<Rightarrow> watch_options \<Rightarrow> date \<Rightarrow> tick list \<Rightarrow> string option option \<Rightarrow> string option \<Rightarrow>
    auth_token_claims \<Rightarrow> database \<Rightarrow> (message_event list option, problem) result" where
  "watch_endpoint p opts started_at ticks query last_event_id claims db =
     (case token_org claims of
        None \<Rightarrow> err (bad_watch ''No organization context'')
      | Some org \<Rightarrow>
          (case parsed (optional (sized 512)) query of
             None \<Rightarrow> err (bad_watch ''Invalid watch query'')
           | Some since \<Rightarrow>
               (case cursor_of p (case last_event_id of Some i \<Rightarrow> Some i | None \<Rightarrow> since) of
                  Inl e \<Rightarrow> err e
                | Inr cursor \<Rightarrow>
                    ok (map_option (\<lambda>(events, st). map (to_message_event p) events)
                      (watch_stream opts (OrgId org) cursor started_at db ticks)))))"

end
