(* ===== verification/EndpointSafety.thy ===== *)
theory EndpointSafety
  imports AdminEndpoints SessionSafety
begin

text \<open>
  The authorization endpoints from the request to the database: the guards, the controllers, the decision point
  and the writers composed the way the decorators of the controllers compose them.
\<close>

section \<open>Who is asking\<close>

text \<open>\<open>@UseGuards(AccessTokenGuard)\<close> on an endpoint that throws nothing but problems.\<close>

definition authenticated :: "(auth_token_claims, problem) result throws \<Rightarrow>
    (auth_token_claims \<Rightarrow> 's \<Rightarrow> ('a, problem) result \<times> 's) \<Rightarrow> 's \<Rightarrow> ('a, problem) result throws \<times> 's" where
  "authenticated entry endpoint st =
     (case entry of
        Inl e \<Rightarrow> (Inl e, st)
      | Inr (Inl pb) \<Rightarrow> (Inr (err pb), st)
      | Inr (Inr claims) \<Rightarrow> (let (answer, st') = endpoint claims st in (Inr answer, st')))"

text \<open>
  The claims are those of a token that was issued, is within its lifetime up to the clock skew, and whose session
  is not in the revocation store.
\<close>

definition authentic :: "access_token_config \<Rightarrow> verifier_config \<Rightarrow> issuance list \<Rightarrow> date \<Rightarrow> authn_state \<Rightarrow>
    auth_token_claims \<Rightarrow> bool" where
  "authentic cfg vcfg issued now st claims \<longleftrightarrow>
     \<not> is_revoked True now (sid_subject (tok_sid claims)) st \<and>
     (\<exists>i \<in> set issued. read_claims (issued_payload cfg i) = Some claims \<and>
        is_at i div 1000 - vc_clock_skew vcfg \<le> now div 1000 \<and>
        now div 1000 < is_at i div 1000 + at_ttl_seconds cfg + vc_clock_skew vcfg)"

lemma bearer_is_authentic:
  assumes "fst (access_token_guard jp vcfg keys now header jcache up st) = Inr (ok claims)"
    and "unforgeable jp cfg issued (known_keys keys jcache)" "\<forall>i \<in> set issued. decodable_token jp cfg i"
  shows "authentic cfg vcfg issued now st claims"
proof -
  obtain jcache' where "access_token_guard jp vcfg keys now header jcache up st = (Inr (ok claims), jcache')"
    using assms(1) by (metis prod.collapse)
  from access_token_guard_okD[OF this] obtain token payload where
    v: "verify_token jp vcfg keys now (js_trim token) jcache = (Inr (ok payload), jcache')"
      "read_claims payload = Some claims" "up" "\<not> is_revoked up now (sid_subject (tok_sid claims)) st" by blast
  from accepted_token_issued[OF v(1) assms(2,3)] v(2-) show ?thesis unfolding authentic_def by auto
qed

lemma authenticated_ok:
  assumes "authenticated entry endpoint st = (Inr (ok r), st')"
  shows "\<exists>claims. entry = Inr (ok claims) \<and> endpoint claims st = (ok r, st')"
  using assms by (auto simp: authenticated_def split: sum.splits prod.splits)

lemma guarded_runs:
  assumes "guarded entry orgs endpoint st = (answer, st')" "st' \<noteq> st \<or> answer = Inr (ok z)"
  shows "\<exists>claims org. entry = Inr (ok claims) \<and> token_org claims = Some org \<and>
    role_of (UserId (tok_sub claims)) (OrgId org) orgs = Some OwnerRole \<and> endpoint claims st = (answer, st')"
  using assms by (auto simp: guarded_def pap_admin_guard_def split: sum.splits option.splits if_splits)

section \<open>A decision\<close>

lemma check_endpoint_ok:
  assumes "check_endpoint p decide_one uuid now claims body ip st = (ok r, st')"
  shows "\<exists>d act level decision. body = Some d \<and> check_schema d \<and> action_create (cd_action d) = Inr act \<and>
    decide_one (principal_of claims) act (cd_resource d) (context_of ip uuid now level) st = (Some decision, st') \<and>
    r = to_response decision"
  using assms
  by (auto simp: check_endpoint_def parsed_def to_request_def split: option.splits sum.splits prod.splits if_splits) blast

lemma pdp_check_decision:
  assumes "pdp_check p reader cache opts available uuid started_at now finished_at before db pr act resource request (c, buf) =
    (Some decision, state')"
  shows "\<exists>result c'. check p reader cache before db now pr act resource request c = Some (result, c') \<and>
    decision = result_decision result"
  using assms by (auto simp: pdp_check_def Let_def split: option.splits prod.splits sum.splits)

lemma principal_of_simps [simp]:
  "org_of (principal_of claims) = map_option OrgId (token_org claims)"
  "principal_subject (principal_of claims) = \<lparr>ref_type = ''user'', ref_id = tok_sub claims\<rparr>"
  by (simp_all add: principal_of_def org_of_def token_org_def split: option.split)

lemma policy_context_of [simp]:
  "policy_context pr (context_of ip uuid now level) now = policy_context pr (context_of ip uuid now FullConsistency) now"
  by (simp add: policy_context_def context_of_def)

lemma permit_authentic:
  assumes "authenticated (fst (access_token_guard jp vcfg keys tm header jcache up st))
      (\<lambda>claims. check_endpoint p (pdp_check p drizzle_reader (redis_decision_cache digest pre online) opts available uuid started_at now
        finished_at before db) rid now claims body ip) (c, buf) = (Inr (ok r), state')"
    and "cr_effect r = Permit"
    and "unforgeable jp cfg issued (known_keys keys jcache)" "\<forall>i \<in> set issued. decodable_token jp cfg i"
    and "cached_run p drizzle_reader (redis_decision_cache digest pre online) asked Map.empty hist c"
    and "\<And>pr act resource. (pr, act, resource) \<in> asked \<Longrightarrow> clean_request pr act resource"
    and "inj_on digest (request_text ` asked)" "before \<in> set hist" "db \<in> set hist"
    and "\<And>claims d act. authentic cfg vcfg issued tm st claims \<Longrightarrow> body = Some d \<Longrightarrow> action_create (cd_action d) = Inr act \<Longrightarrow>
      (principal_of claims, act, cd_resource d) \<in> asked"
  shows "\<exists>claims d act org seen rebac. authentic cfg vcfg issued tm st claims \<and> body = Some d \<and>
    action_create (cd_action d) = Inr act \<and> token_org claims = Some org \<and> seen \<in> set hist \<and> (seen = db \<or> same_tables seen before) \<and>
    rebac_of drizzle_reader seen (OrgId org) \<lparr>ref_type = ''user'', ref_id = tok_sub claims\<rparr> act (cd_resource d) = Some rebac \<and>
    (let ctx = policy_context (principal_of claims) (context_of ip rid now FullConsistency) now;
         policies = list_by_target (OrgId org) (ref_type (cd_resource d)) (action_verb act) seen in
     filter (forbids p ctx) policies = [] \<and> (decision_effect rebac = Permit \<or> filter (grants p ctx) policies \<noteq> []))"
proof -
  from authenticated_ok[OF assms(1)] obtain claims where
    entry: "fst (access_token_guard jp vcfg keys tm header jcache up st) = Inr (ok claims)" and
    run: "check_endpoint p (pdp_check p drizzle_reader (redis_decision_cache digest pre online) opts available uuid started_at now
        finished_at before db) rid now claims body ip (c, buf) = (ok r, state')" by blast
  have bearer: "authentic cfg vcfg issued tm st claims" by (rule bearer_is_authentic[OF entry assms(3,4)])
  from check_endpoint_ok[OF run] obtain d act level decision where
    d: "body = Some d" "action_create (cd_action d) = Inr act" and r: "r = to_response decision" and
    checked: "pdp_check p drizzle_reader (redis_decision_cache digest pre online) opts available uuid started_at now finished_at
      before db (principal_of claims) act (cd_resource d) (context_of ip rid now level) (c, buf) = (Some decision, state')" by blast
  from pdp_check_decision[OF checked] obtain result c' where
    result: "check p drizzle_reader (redis_decision_cache digest pre online) before db now (principal_of claims) act (cd_resource d)
      (context_of ip rid now level) c = Some (result, c')" "decision = result_decision result" by blast
  have permit: "decision_effect (result_decision result) = Permit" using assms(2) r result(2) by (simp add: to_response_def)
  obtain seen where seen: "seen \<in> set hist \<and> (seen = db \<or> same_tables seen before)"
    "decided p drizzle_reader seen now (principal_of claims) act (cd_resource d) (context_of ip rid now level) = Some result"
    using cached_check_decided[OF assms(5-7) assms(10)[OF bearer d] assms(8,9) result(1)] by blast
  from permit_justified[OF seen(2) permit] obtain org rebac where
    "token_org claims = Some org"
    "rebac_of drizzle_reader seen (OrgId org) \<lparr>ref_type = ''user'', ref_id = tok_sub claims\<rparr> act (cd_resource d) = Some rebac"
    "filter (forbids p (policy_context (principal_of claims) (context_of ip rid now FullConsistency) now))
       (list_by_target (OrgId org) (ref_type (cd_resource d)) (action_verb act) seen) = []"
    "decision_effect rebac = Permit \<or> filter (grants p (policy_context (principal_of claims) (context_of ip rid now FullConsistency) now))
       (list_by_target (OrgId org) (ref_type (cd_resource d)) (action_verb act) seen) \<noteq> []"
    unfolding principal_of_simps policy_context_of[of _ ip rid now level] by (auto simp only: map_option_eq_Some)
  with bearer d seen(1) show ?thesis unfolding Let_def by blast
qed

section \<open>An administration\<close>

text \<open>
  The database up to the policy that a policy write names. (A policy is stored under its id alone, so the write of
  one organization can replace the policy of another.)
\<close>

definition besides :: "pap_request \<Rightarrow> database \<Rightarrow> database" where
  "besides req db =
     (case req of WritePolicy i body \<Rightarrow> db\<lparr>db_policies := filter (\<lambda>r. pr_id r \<noteq> i) (db_policies db)\<rparr> | _ \<Rightarrow> db)"

lemma pap_endpoint_rows:
  assumes "store_inv q db" "token_org claims = Some org" "other \<noteq> OrgId org"
  shows "org_rows other (besides req (snd (pap_endpoint p now req claims db))) = org_rows other (besides req db)"
proof (cases req)
  case (WriteTuple body)
  have "org_rows other (snd (writer_write now c db)) = org_rows other db" if "to_command claims body = ok c" for c
    using that assms by (intro org_rows_other_write[OF assms(1)]) (auto simp: to_command_def split: option.splits)
  then show ?thesis by (simp add: WriteTuple besides_def write_tuple_endpoint_def Let_def case_prod_unfold split: sum.split)
next
  case (RevokeTuple body)
  have "org_rows other (snd (writer_revoke now c db)) = org_rows other db" if "to_command claims body = ok c" for c
    using that assms by (intro org_rows_other_revoke[OF assms(1)]) (auto simp: to_command_def split: option.splits)
  then show ?thesis by (simp add: RevokeTuple besides_def revoke_tuple_endpoint_def Let_def case_prod_unfold split: sum.split)
next
  case (DefineNamespace namespace body)
  have "org_rows other (snd (writer_define now d db)) = org_rows other db" if "define_org d = OrgId org" for d
    using that assms by (intro org_rows_other_define[OF assms(1)]) simp
  then show ?thesis
    by (simp add: DefineNamespace besides_def define_namespace_endpoint_def assms(2) Let_def case_prod_unfold split: option.split)
next
  case (WritePolicy i body)
  show ?thesis
    using org_rows_other_policy[where org = other and p = p and db = db and
        c = "\<lparr>wp_org = OrgId org, wp_id = i, wp_effect = e, wp_resource_type = t, wp_action = a, wp_condition = c\<rparr>" for e t a c]
    by (simp add: WritePolicy besides_def write_policy_endpoint_def assms(2) Let_def case_prod_unfold split: option.split)
next
  case (DeletePolicy i)
  then show ?thesis
    using org_rows_other_policy_delete[OF assms(3)]
    by (simp add: besides_def delete_policy_endpoint_def assms(2) Let_def case_prod_unfold)
qed

section \<open>A resumed stream\<close>

lemma ticks_ordered_extend: "ticks_ordered p db ts mid \<Longrightarrow> later p mid final \<Longrightarrow> ticks_ordered p db ts final"
  by (induction ts arbitrary: db) (auto intro: later_trans)

lemma message_resumes:
  assumes "reads_numerals p" "codes_base64url p" "js_to_base64url p [] = []"
    and "int (rev_value (event_revision e)) \<le> max_safe_integer"
  shows "cursor_of p (Some (me_id (to_message_event p e))) = ok (Some (event_revision e))"
proof -
  let ?token = "token_encode p (ConsistencyToken (event_revision e))"
  have "token_decode p ?token = Inr (ConsistencyToken (event_revision e))"
    using token_decode_encode[OF assms(1,2)] assms(4) by simp
  moreover have "me_id (to_message_event p e) = ?token" by (cases e) (simp_all add: to_message_event_def Let_def)
  moreover have "?token \<noteq> []"
  proof
    assume "?token = []"
    moreover have "js_from_base64url p (js_to_base64url p []) = []" using assms(2) by (simp add: codes_base64url_def Policies.ascii_def)
    ultimately have "js_from_base64url p ?token = []" using assms(3) by simp
    with \<open>token_decode p ?token = _\<close> show False by (simp add: token_decode_def)
  qed
  ultimately show ?thesis by (simp add: cursor_of_def)
qed

section \<open>Samples\<close>

lemma map_sum_InrD: "map_sum f g x = Inr y \<Longrightarrow> \<exists>z. x = Inr z \<and> g z = y"
  by (cases x) auto

lemma take_one: "take (Suc 0) xs = [x] \<Longrightarrow> \<exists>ys. xs = x # ys"
  by (cases xs) auto

definition owner_issuance :: issuance where
  "owner_issuance = \<lparr>is_kid = ''k1'', is_jti = ''j1'', is_at = 1000, is_claims = sample_claims\<lparr>claim_org := Some ''acme''\<rparr>\<rparr>"

definition owner_claims :: auth_token_claims where
  "owner_claims = \<lparr>tok_sub = ''ann'', tok_sid = ''s1'', tok_org = Some ''acme'', tok_jti = ''j1'', tok_aal = 1, tok_exp = 901\<rparr>"

definition owner_jwt :: jwt_platform where
  "owner_jwt = \<lparr>segment_of = (\<lambda>v. if v = token_header ''k1'' then ''h'' else ''p''),
     segment_value = (\<lambda>s. if s = ''h'' then Some (token_header ''k1'')
       else if s = ''p'' then Some (issued_payload sample_at_config owner_issuance) else None),
     ed_verify = (\<lambda>k t s. s = mask_dots t \<and> t = ''h.p'')\<rparr>"

lemma owner_entry:
  "fst (access_token_guard owner_jwt sample_vc_config sample_keys 60000 (Some (bearer @ sample_token)) None True empty_authn) =
     Inr (ok owner_claims)"
  by code_simp

lemma owner_decodable: "\<forall>i \<in> set [owner_issuance]. decodable_token owner_jwt sample_at_config i"
  by (simp add: decodable_token_def decodable_def owner_jwt_def owner_issuance_def issued_payload_def token_header_def
      token_payload_def Let_def)

lemma owner_unforgeable: "unforgeable owner_jwt sample_at_config [owner_issuance] (known_keys sample_keys None)"
proof -
  have "issued_input owner_jwt sample_at_config owner_issuance = ''h.p''"
    by (simp add: issued_input_def signing_input_def owner_jwt_def owner_issuance_def token_header_def token_payload_def Let_def)
  then show ?thesis by (simp add: unforgeable_def) (simp add: owner_jwt_def)
qed

lemma owner_claims_read: "read_claims (issued_payload sample_at_config owner_issuance) = Some owner_claims"
  by code_simp

definition sample_check :: check_dto where
  "sample_check = \<lparr>cd_action = ''doc.read'', cd_resource = sample_ref ''doc'' ''a'', cd_token = None\<rparr>"

definition sample_pdp :: "principal \<Rightarrow> action \<Rightarrow> entity_ref \<Rightarrow> request_context \<Rightarrow>
    (string \<Rightarrow> cached_value option) \<times> log_state \<Rightarrow> decision option \<times> (string \<Rightarrow> cached_value option) \<times> log_state" where
  "sample_pdp = pdp_check plain_platform drizzle_reader (redis_decision_cache id ''d'' True) sample_log_options True ''u1'' 0 0 5
     hiding_db hiding_db"

lemma sample_permit:
  "map_sum id (map_sum id cr_effect) (fst (authenticated (Inr (ok owner_claims)) (\<lambda>claims. check_endpoint plain_platform sample_pdp
     ''r1'' 0 claims (Some sample_check) ''10.0.0.1'') (Map.empty, open_log hiding_db))) = Inr (ok Permit)"
  by code_simp

lemma sample_permit_run:
  obtains r state' where "authenticated (Inr (ok owner_claims)) (\<lambda>claims. check_endpoint plain_platform sample_pdp ''r1'' 0 claims
      (Some sample_check) ''10.0.0.1'') (Map.empty, open_log hiding_db) = (Inr (ok r), state')" "cr_effect r = Permit"
proof -
  let ?run = "authenticated (Inr (ok owner_claims)) (\<lambda>claims. check_endpoint plain_platform sample_pdp ''r1'' 0 claims
      (Some sample_check) ''10.0.0.1'') (Map.empty, open_log hiding_db)"
  from map_sum_InrD[OF sample_permit] obtain z where z: "fst ?run = Inr z" "map_sum id cr_effect z = Inr Permit" by blast
  from map_sum_InrD[OF z(2)] obtain r where r: "z = Inr r" "cr_effect r = Permit" by blast
  show thesis using that[OF surjective_pairing[of ?run, unfolded z(1) r(1)] r(2)] .
qed

lemma sample_check_asked:
  assumes "authentic sample_at_config sample_vc_config [owner_issuance] 60000 empty_authn claims" "Some sample_check = Some d"
    and "action_create (cd_action d) = Inr act"
  shows "(principal_of claims, act, cd_resource d) \<in> sample_asked"
proof -
  have "action_create (cd_action sample_check) = Inr read_doc" by code_simp
  moreover have "principal_of owner_claims = sample_principal" by code_simp
  ultimately show ?thesis
    using assms by (simp add: authentic_def owner_claims_read sample_asked_def) (auto simp: sample_check_def)
qed

definition sample_owners :: tenancy_state where
  "sample_owners = \<lparr>ten_orgs = [], ten_members = [\<lparr>mem_id = ''m1'', mem_user = UserId ''ann'', mem_org = OrgId ''acme'',
     mem_status = MembershipActive, mem_role = OwnerRole, mem_joined = 0\<rparr>]\<rparr>"

definition sample_tuple :: tuple_dto where
  "sample_tuple = \<lparr>td_object = sample_ref ''doc'' ''a'', td_relation = ''viewer'', td_subject = sample_ref ''user'' ''ann'',
     td_subject_relation = None\<rparr>"

lemma sample_administration:
  "is_ok (fst (guarded (Inr (ok owner_claims)) sample_owners (pap_endpoint plain_platform 60000 (WriteTuple (Some sample_tuple))) empty_database)) \<and>
   db_tuples (snd (guarded (Inr (ok owner_claims)) sample_owners (pap_endpoint plain_platform 60000 (WriteTuple (Some sample_tuple)))
     empty_database)) \<noteq> []"
  by code_simp

definition first_event :: watch_event where
  "first_event = ChangeEvent (Revision 2) \<lparr>change_org = sample_org, change_revision = Revision 2, change_op = UpsertOp,
     change_object = sample_ref ''doc'' ''a'', change_relation = ''viewer'', change_subject = team_members ''x'', change_recorded = 0\<rparr>"

lemma sample_stream_events:
  "map_option (take 1 \<circ> fst) (watch_stream sample_watch (OrgId ''acme'') (Some (Revision 0)) 0 watched_db sample_ticks) = Some [first_event]"
  by code_simp

lemma sample_resumed:
  "map_sum id (map_option (map me_type)) (watch_endpoint plain_platform sample_watch 0 sample_ticks (Some None)
     (Some (me_id (to_message_event plain_platform first_event))) owner_claims watched_db) = ok (Some [''change'', ''heartbeat''])"
  by code_simp

section \<open>Properties\<close>



text \<open>C2: only an owner administers, and only the own organization: whenever a request to one of the administration
  endpoints changes the database or is answered with a consistency token, its bearer is authentic, is an owner of the
  organization of the token, and no row of another organization has changed, but for the policy that a
  policy write names.\<close>
theorem administration_needs_owner:
  assumes "guarded (fst (access_token_guard jp vcfg keys now header jcache up st)) orgs (pap_endpoint p now req) db = (answer, db')"
    and "db' \<noteq> db \<or> answer = Inr (ok z)" "reachable p db"
    and "unforgeable jp cfg issued (known_keys keys jcache)" "\<forall>i \<in> set issued. decodable_token jp cfg i"
  shows "\<exists>claims org. authentic cfg vcfg issued now st claims \<and> token_org claims = Some org \<and>
    role_of (UserId (tok_sub claims)) (OrgId org) orgs = Some OwnerRole \<and>
    (\<forall>other. other \<noteq> OrgId org \<longrightarrow> org_rows other (besides req db') = org_rows other (besides req db))"
proof -
  from guarded_runs[OF assms(1,2)] obtain claims org where
    c: "fst (access_token_guard jp vcfg keys now header jcache up st) = Inr (ok claims)" "token_org claims = Some org"
      "role_of (UserId (tok_sub claims)) (OrgId org) orgs = Some OwnerRole" and "pap_endpoint p now req claims db = (answer, db')" by blast
  then have "db' = snd (pap_endpoint p now req claims db)" by simp
  with c bearer_is_authentic[OF c(1) assms(4,5)] pap_endpoint_rows[OF store_inv_reachable[OF assms(3)] c(2)] show ?thesis by blast
qed

theorem administration_needs_owner_witness:
  "\<exists>claims org. authentic sample_at_config sample_vc_config [owner_issuance] 60000 empty_authn claims \<and> token_org claims = Some org \<and>
    role_of (UserId (tok_sub claims)) (OrgId org) sample_owners = Some OwnerRole"
proof -
  let ?run = "guarded (Inr (ok owner_claims)) sample_owners (pap_endpoint plain_platform 60000 (WriteTuple (Some sample_tuple))) empty_database"
  have "?run = (fst ?run, snd ?run)" "snd ?run \<noteq> empty_database"
    using sample_administration by (simp, auto simp: empty_database_def)
  from administration_needs_owner[OF this(1)[unfolded owner_entry[symmetric]] disjI1[OF this(2)[unfolded owner_entry[symmetric]]]
      reachable.start owner_unforgeable owner_decodable]
  show ?thesis by blast
qed

text \<open>C20: a client that reconnects to the change stream misses nothing and sees nothing twice: when it has received the
  events of a stream up to some event and reconnects with the identifier of that event as Last-Event-ID, the changes it had
  seen and those of the new stream are together the organization's changes from its first start to the end of the new stream, each once and in order.\<close>
theorem resumed_stream_continues:
  assumes "reachable p db" "ticks_ordered p db ticks mid"
    and "watch_stream opts (OrgId org) from_revision started_at db ticks = Some (before @ e # missed, st)"
    and "ticks_ordered p mid ticks' final" "token_org claims = Some org"
    and "watch_endpoint p opts started_at' ticks' (Some since) (Some (me_id (to_message_event p e))) claims mid = ok (Some messages)"
    and "reads_numerals p" "codes_base64url p" "js_to_base64url p [] = []" "int (rev_value (event_revision e)) \<le> max_safe_integer"
  shows "\<exists>events upto. messages = map (to_message_event p) events \<and>
    seen (before @ e # events) = changes_in (OrgId org) (start_cursor from_revision db) upto final \<and>
    sorted_wrt (<) (map cr_revision (seen (before @ e # events)))"
proof -
  have inv: "store_inv p db" by (rule store_inv_reachable[OF assms(1)])
  have mid: "store_inv p mid" using later_changelog[OF ticks_reach_final[OF assms(2)] inv] by blast
  have fin: "store_inv p final" using later_changelog[OF ticks_reach_final[OF assms(4)] mid] by blast
  have first: "tells (OrgId org) final (start_cursor from_revision db) (before @ e # missed) (watch_cursor st)"
    using watch_loop_tells[OF assms(3)[unfolded watch_stream_def] inv ticks_ordered_extend[OF assms(2) ticks_reach_final[OF assms(4)]]] by simp
  from assms(6) message_resumes[OF assms(7-10)] obtain events st' where
    again: "watch_stream opts (OrgId org) (Some (event_revision e)) started_at' mid ticks' = Some (events, st')"
    and messages: "messages = map (to_message_event p) events"
    by (auto simp: watch_endpoint_def assms(5) split: option.splits sum.splits)
  have second: "tells (OrgId org) final (event_revision e) events (watch_cursor st')"
    using watch_loop_tells[OF again[unfolded watch_stream_def] mid assms(4)] by (simp add: start_cursor_def)
  let ?a = "start_cursor from_revision db"
  from tells_event[OF first refl] have "?a \<le> event_revision e" "seen (before @ [e]) = changes_in (OrgId org) ?a (event_revision e) final" by simp_all
  moreover from second have "event_revision e \<le> watch_cursor st'" "seen events = changes_in (OrgId org) (event_revision e) (watch_cursor st') final"
    by (simp_all add: tells_def)
  ultimately have "seen (before @ e # events) = changes_in (OrgId org) ?a (watch_cursor st') final"
    using changes_in_split[OF fin, of ?a "event_revision e" "watch_cursor st'" "OrgId org"] seen_simps(3)[of "before @ [e]" events] by simp
  with messages changes_in_sorted[OF fin, of "OrgId org" ?a "watch_cursor st'"] show ?thesis by metis
qed

theorem resumed_stream_continues_witness:
  "\<exists>messages events upto. map me_type messages = [''change'', ''heartbeat''] \<and> messages = map (to_message_event plain_platform) events \<and>
    seen (first_event # events) = changes_in (OrgId ''acme'') (Revision 0) upto watched_db"
proof -
  from sample_stream_events obtain missed st where
    first: "watch_stream sample_watch (OrgId ''acme'') (Some (Revision 0)) 0 watched_db sample_ticks = Some ([] @ first_event # missed, st)"
    by (auto dest: take_one)
  obtain messages where again:
    "watch_endpoint plain_platform sample_watch 0 sample_ticks (Some None) (Some (me_id (to_message_event plain_platform first_event)))
       owner_claims watched_db = ok (Some messages)" "map me_type messages = [''change'', ''heartbeat'']"
    using map_sum_InrD[OF sample_resumed] by auto
  have r: "reachable plain_platform watched_db" unfolding watched_db_def by (rule reachable_commands)
  have t: "ticks_ordered plain_platform watched_db sample_ticks watched_db" by (simp add: sample_ticks_def later.now)
  from resumed_stream_continues[OF r t first t _ again(1) plain_platform_reads plain_platform_codes]
  obtain events upto where "messages = map (to_message_event plain_platform) events"
    "seen ([] @ first_event # events) = changes_in (OrgId ''acme'') (start_cursor (Some (Revision 0)) watched_db) upto watched_db"
    by (auto simp: owner_claims_def token_org_def plain_platform_def first_event_def max_safe_integer_def)
  with again(2) show ?thesis unfolding start_cursor_def option.case append_Nil by (intro exI[of _ messages] exI[of _ events] exI[of _ upto] conjI)
qed

end
