(* ===== verification/AuthnEndpoints.thy ===== *)
theory AuthnEndpoints
  imports AuthzEndpoints MfaSafety
begin

text \<open>
  The HTTP interface of authentication and accounts: \<open>auth.controller.ts\<close>, \<open>mfa.controller.ts\<close> and
  \<open>authn.controller.ts\<close> with their schemas. As in AuthzEndpoints a body is typed, or None where its shape is
  wrong, and an endpoint behind the access-token guard takes the claims that guard stored. What a handler
  throws is \<open>Inl\<close>.
\<close>

section \<open>Schemas and problems\<close>

record credentials_dto =
  cr_email :: string
  cr_password :: string

definition register_schema :: "credentials_dto \<Rightarrow> bool" where
  "register_schema d \<longleftrightarrow> sized 320 (cr_email d) \<and> sized 200 (cr_password d)"

definition login_schema :: "credentials_dto \<Rightarrow> bool" where
  "login_schema d \<longleftrightarrow> sized 320 (cr_email d) \<and> sized 200 (cr_password d)"

definition verify_email_schema :: "string \<Rightarrow> bool" where
  "verify_email_schema token \<longleftrightarrow> sized 1024 token"

definition forgot_password_schema :: "string \<Rightarrow> bool" where
  "forgot_password_schema email \<longleftrightarrow> sized 320 email"

record reset_dto =
  rd_token :: string
  rd_password :: string

definition reset_password_schema :: "reset_dto \<Rightarrow> bool" where
  "reset_password_schema d \<longleftrightarrow> sized 1024 (rd_token d) \<and> sized 200 (rd_password d)"

definition refresh_schema :: "string \<Rightarrow> bool" where
  "refresh_schema token \<longleftrightarrow> sized 1024 token"

definition step_up_schema :: "string \<Rightarrow> bool" where
  "step_up_schema code \<longleftrightarrow> 6 \<le> length code \<and> length code \<le> 24"

definition six_digits :: "string \<Rightarrow> bool" where
  "six_digits code \<longleftrightarrow> length code = 6 \<and> list_all (\<lambda>c. c \<in> set ''0123456789'') code"

definition activate_mfa_schema :: "string \<Rightarrow> bool" where
  "activate_mfa_schema code \<longleftrightarrow> six_digits code"

text \<open>\<open>new ProblemException\<close> with a title and a status.\<close>

definition titled :: "string \<Rightarrow> nat \<Rightarrow> problem" where
  "titled title status = \<lparr>pb_title = title, pb_status = status, pb_detail = None\<rparr>"

definition invalid_registration :: "string option \<Rightarrow> problem" where
  "invalid_registration detail = \<lparr>pb_title = ''Invalid registration request'', pb_status = 422, pb_detail = detail\<rparr>"

definition invalid_verification :: problem where
  "invalid_verification = titled ''Invalid or expired verification token'' 400"

definition invalid_credentials :: problem where
  "invalid_credentials = titled ''Invalid credentials'' 401"

definition invalid_grant :: problem where
  "invalid_grant = titled ''Invalid refresh token'' 401"

definition too_many_attempts :: problem where
  "too_many_attempts = titled ''Too many attempts'' 429"

fun register_error_name :: "register_error \<Rightarrow> string" where
  "register_error_name RegisterInvalidEmail = ''invalid_email''"
| "register_error_name RegisterInvalidPassword = ''invalid_password''"

text \<open>The answer of a handler: its result, with a problem for each error.\<close>

definition answered :: "('e \<Rightarrow> problem) \<Rightarrow> ('v \<Rightarrow> 'a) \<Rightarrow> ('v, 'e) result throws \<Rightarrow> ('a, problem) result throws" where
  "answered problem_of value_of result = map_sum id (map_sum problem_of value_of) result"

section \<open>Accounts\<close>

definition register_endpoint :: "registration \<Rightarrow> date \<Rightarrow> credentials_dto option \<Rightarrow> identity_state \<Rightarrow> identity_state \<Rightarrow>
    (string, problem) result throws \<times> identity_state" where
  "register_endpoint drawn now body old st =
     (case parsed register_schema body of
        None \<Rightarrow> (Inr (err (invalid_registration None)), st)
      | Some d \<Rightarrow>
          (let (result, st') = register_user drawn now (cr_email d) (cr_password d) old st in
           (answered (\<lambda>e. invalid_registration (Some (register_error_name e))) (\<lambda>_. ''accepted'') result, st')))"

definition verify_email_endpoint :: "(string \<Rightarrow> string) \<Rightarrow> date \<Rightarrow> string option \<Rightarrow> identity_state \<Rightarrow> identity_state \<Rightarrow>
    (string, problem) result throws \<times> identity_state" where
  "verify_email_endpoint digest now body old st =
     (case parsed verify_email_schema body of
        None \<Rightarrow> (Inr (err invalid_verification), st)
      | Some token \<Rightarrow>
          (let (result, st') = verify_email digest now token old st in
           (answered (\<lambda>_. invalid_verification) (\<lambda>_. ''verified'') result, st')))"

definition forgot_password_endpoint :: "string \<Rightarrow> generated_token \<Rightarrow> date \<Rightarrow> string option \<Rightarrow> identity_state \<Rightarrow>
    identity_state \<Rightarrow> (string, problem) result throws \<times> identity_state" where
  "forgot_password_endpoint token_id generated now body old st =
     (case parsed forgot_password_schema body of
        None \<Rightarrow> (Inr (err (titled ''Invalid request'' 422)), st)
      | Some email \<Rightarrow>
          (let (result, st') = request_password_reset token_id generated now email old st in
           (map_sum id (\<lambda>_. ok ''accepted'') result, st')))"

definition reset_password_endpoint :: "(string \<Rightarrow> string) \<Rightarrow> string \<Rightarrow> bool \<Rightarrow> int \<Rightarrow> date \<Rightarrow> reset_dto option \<Rightarrow> identity_state \<Rightarrow>
    identity_state \<Rightarrow> authn_state \<Rightarrow> (string, problem) result throws \<times> identity_state \<times> authn_state" where
  "reset_password_endpoint digest encoded up ttl now body old st sessions =
     (case parsed reset_password_schema body of
        None \<Rightarrow> (Inr (err (titled ''Invalid reset request'' 422)), st, sessions)
      | Some d \<Rightarrow>
          (let (result, st') = reset_password digest encoded up ttl now (rd_token d) (rd_password d) old st sessions in
           (answered (\<lambda>e. if e = ResetInvalidPassword then titled ''Invalid password'' 422
              else titled ''Invalid or expired reset token'' 400) (\<lambda>_. ''reset'') result, st')))"

section \<open>Sessions\<close>

record token_response =
  tr_access_token :: string
  tr_refresh_token :: string
  tr_expires_in :: int
  tr_mfa_required :: "bool option"

definition login_endpoint :: "login_config \<Rightarrow> bool \<Rightarrow> (string \<Rightarrow> string \<Rightarrow> bool) \<Rightarrow>
    (access_token_claims \<Rightarrow> issued_access_token throws) \<Rightarrow> fresh_session \<Rightarrow> date \<Rightarrow> date \<Rightarrow> credentials_dto option \<Rightarrow> string option \<Rightarrow>
    string \<Rightarrow> identity_state \<Rightarrow> mfa_state \<Rightarrow> tenancy_state \<Rightarrow> authn_state \<Rightarrow> authn_state \<Rightarrow>
    (token_response, problem) result throws \<times> authn_state" where
  "login_endpoint cfg up matches issue drawn asked_at now body user_agent ip users factors orgs old st =
     (case parsed login_schema body of
        None \<Rightarrow> (Inr (err invalid_credentials), st)
      | Some d \<Rightarrow>
          (let (result, st') = login_execute cfg up matches issue drawn asked_at now
             \<lparr>lc_email = cr_email d, lc_password = cr_password d, lc_user_agent = user_agent,
              lc_ip = (if ip = [] then None else Some ip)\<rparr> users factors orgs old st in
           (answered (\<lambda>e. if e = LoginLocked then too_many_attempts else invalid_credentials)
              (\<lambda>r. \<lparr>tr_access_token = lr_access_token r, tr_refresh_token = lr_refresh_token r, tr_expires_in = lr_expires_in r,
                 tr_mfa_required = Some (lr_mfa_required r)\<rparr>) result, st')))"

definition step_up_endpoint :: "lockout_policy \<Rightarrow> bool \<Rightarrow> (user_id \<Rightarrow> second_factor_proof \<Rightarrow> mfa_state \<Rightarrow> bool throws \<times> mfa_state) \<Rightarrow>
    (access_token_claims \<Rightarrow> issued_access_token throws) \<Rightarrow> audit_sink \<Rightarrow> date \<Rightarrow> auth_token_claims \<Rightarrow> string option \<Rightarrow>
    authn_state \<Rightarrow> authn_state \<Rightarrow> mfa_state \<Rightarrow> audit_log \<Rightarrow>
    (step_up_result, problem) result throws \<times> authn_state \<times> mfa_state \<times> audit_log" where
  "step_up_endpoint policy up factor issue audit now claims body old st mfa al =
     (case parsed step_up_schema body of
        None \<Rightarrow> (Inr (err (titled ''Invalid step-up request'' 422)), st, mfa, al)
      | Some code \<Rightarrow>
          (let (result, rest) = step_up_execute policy up factor issue audit now
             \<lparr>su_session = tok_sid claims, su_user = tok_sub claims,
              su_proof = (if six_digits code then TotpProof code else RecoveryProof code)\<rparr> old st mfa al in
           (answered (\<lambda>e. if e = StepUpLocked then too_many_attempts else titled ''Step-up failed'' 401) id result, rest)))"

definition refresh_endpoint :: "refresh_config \<Rightarrow> bool \<Rightarrow> (access_token_claims \<Rightarrow> issued_access_token throws) \<Rightarrow>
    (string \<Rightarrow> string) \<Rightarrow> string \<Rightarrow> string \<Rightarrow> date \<Rightarrow> string option \<Rightarrow> authn_state \<Rightarrow> (date \<times> authn_state) list \<Rightarrow> authn_state \<Rightarrow>
    (token_response, problem) result throws \<times> authn_state" where
  "refresh_endpoint cfg up issue digest uuid new_raw now body old moments st =
     (case parsed refresh_schema body of
        None \<Rightarrow> (Inr (err invalid_grant), st)
      | Some raw \<Rightarrow>
          (let (result, st') = refresh_execute cfg up issue digest uuid new_raw now raw old moments st in
           (answered (\<lambda>_. invalid_grant) (\<lambda>r. \<lparr>tr_access_token = rr_access_token r, tr_refresh_token = rr_refresh_token r,
              tr_expires_in = rr_expires_in r, tr_mfa_required = None\<rparr>) result, st')))"

definition logout_endpoint :: "bool \<Rightarrow> int \<Rightarrow> date \<Rightarrow> auth_token_claims \<Rightarrow> authn_state \<Rightarrow> authn_state" where
  "logout_endpoint up ttl now claims st = terminate_session up ttl now (tok_sid claims) st"

definition logout_all_endpoint :: "bool \<Rightarrow> int \<Rightarrow> date \<Rightarrow> auth_token_claims \<Rightarrow> authn_state \<Rightarrow> authn_state" where
  "logout_all_endpoint up ttl now claims st = terminate_all_for_user up ttl now (UserId (tok_sub claims)) st"

definition sessions_endpoint :: "auth_token_claims \<Rightarrow> authn_state \<Rightarrow> session_view list" where
  "sessions_endpoint claims st = list_sessions (tok_sub claims) (tok_sid claims) st"

definition revoke_session_endpoint :: "bool \<Rightarrow> int \<Rightarrow> date \<Rightarrow> string \<Rightarrow> auth_token_claims \<Rightarrow> authn_state \<Rightarrow>
    (unit, problem) result \<times> authn_state" where
  "revoke_session_endpoint up ttl now sid claims st =
     (let (result, st') = revoke_session_handler up ttl now (tok_sub claims) sid st in
      (map_sum (\<lambda>_. titled ''Session not found'' 404) id result, st'))"

section \<open>The second factor\<close>

text \<open>\<open>@UseGuards(DemoAccountGuard, StepUpGuard)\<close>, the second only where the endpoint asks for it.\<close>

definition account_guards :: "bool \<Rightarrow> string option \<Rightarrow> date \<Rightarrow> auth_token_claims \<Rightarrow> identity_state \<Rightarrow> demo_resolution option \<Rightarrow>
    problem option" where
  "account_guards step_up demo_email now claims users cached =
     (case fst (demo_account_guard demo_email now (Some claims) users cached) of
        Some pb \<Rightarrow> Some pb
      | None \<Rightarrow> if step_up then step_up_guard (Some claims) else None)"

definition mfa_status_endpoint :: "auth_token_claims \<Rightarrow> mfa_state \<Rightarrow> mfa_status_view" where
  "mfa_status_endpoint claims st = mfa_status_of (UserId (tok_sub claims)) st"

text \<open>What the endpoints of a request share: the ports of the handlers, the moment and the values drawn at random.\<close>

record mfa_env =
  me_hmac :: "8 word list \<Rightarrow> 8 word list \<Rightarrow> 8 word list"
  me_encrypt :: "8 word list \<Rightarrow> string throws"
  me_decrypt :: "string \<Rightarrow> 8 word list throws"
  me_digest :: "string \<Rightarrow> string"
  me_audit :: audit_sink
  me_issuer :: string
  me_now :: date
  me_enrollment :: enrollment
  me_draws :: "minting list"

datatype mfa_answer = Enrolled string | Activated "string list" | Regenerated "string list" | Disabled

type_synonym mfa_outcome = "(mfa_answer, problem) result throws \<times> mfa_state \<times> audit_log"

definition enroll_endpoint :: "mfa_env \<Rightarrow> auth_token_claims \<Rightarrow> identity_state \<Rightarrow> mfa_state \<Rightarrow> mfa_state \<Rightarrow> audit_log \<Rightarrow> mfa_outcome" where
  "enroll_endpoint env claims users old st al =
     (let (result, st') = enroll_mfa (me_encrypt env) (me_issuer env) (me_enrollment env) (me_now env)
        (UserId (tok_sub claims)) users old st in
      (answered (\<lambda>_. unauthorized) Enrolled result, st', al))"

definition activate_problem :: "activate_error \<Rightarrow> problem" where
  "activate_problem e =
     (case e of
        ActivateStepUpRequired \<Rightarrow> step_up_required
      | NoPendingCredential \<Rightarrow> titled ''No pending enrollment'' 409
      | InvalidCode \<Rightarrow> titled ''Invalid code'' 400)"

definition activate_endpoint :: "mfa_env \<Rightarrow> auth_token_claims \<Rightarrow> string option \<Rightarrow> mfa_state \<Rightarrow> mfa_state \<Rightarrow> audit_log \<Rightarrow> mfa_outcome" where
  "activate_endpoint env claims body old st al =
     (case parsed activate_mfa_schema body of
        None \<Rightarrow> (Inr (err (titled ''Invalid code'' 422)), st, al)
      | Some code \<Rightarrow>
          (let (result, rest) = activate_mfa (me_hmac env) (me_decrypt env) (me_digest env) (me_audit env) (me_draws env) (me_now env)
             (UserId (tok_sub claims)) code (2 \<le> tok_aal claims) old st al in
           (answered activate_problem Activated result, rest)))"

definition regenerate_endpoint :: "mfa_env \<Rightarrow> auth_token_claims \<Rightarrow> mfa_state \<Rightarrow> mfa_state \<Rightarrow> audit_log \<Rightarrow> mfa_outcome" where
  "regenerate_endpoint env claims old st al =
     (let (result, st') = regenerate_codes (me_digest env) (me_now env) (UserId (tok_sub claims)) (me_draws env) old st in
      (answered (\<lambda>_. titled ''MFA is not enabled'' 409) Regenerated result, st', al))"

definition disable_endpoint :: "mfa_env \<Rightarrow> auth_token_claims \<Rightarrow> mfa_state \<Rightarrow> mfa_state \<Rightarrow> audit_log \<Rightarrow> mfa_outcome" where
  "disable_endpoint env claims old st al =
     (let (result, rest) = disable_mfa (me_audit env) (me_now env) (UserId (tok_sub claims)) old st al in
      (answered (\<lambda>_. titled ''MFA is not enabled'' 409) (\<lambda>_. Disabled) result, rest))"

datatype mfa_request = Enroll | Activate "string option" | Regenerate | Disable

text \<open>The controller: the guards of the endpoint, then the endpoint.\<close>

definition mfa_endpoint :: "mfa_env \<Rightarrow> string option \<Rightarrow> demo_resolution option \<Rightarrow> mfa_request \<Rightarrow> auth_token_claims \<Rightarrow>
    identity_state \<Rightarrow> mfa_state \<Rightarrow> mfa_state \<Rightarrow> audit_log \<Rightarrow> mfa_outcome" where
  "mfa_endpoint env demo_email cached req claims users old st al =
     (case account_guards (req = Regenerate \<or> req = Disable) demo_email (me_now env) claims users cached of
        Some pb \<Rightarrow> (Inr (err pb), st, al)
      | None \<Rightarrow>
          (case req of
             Enroll \<Rightarrow> enroll_endpoint env claims users old st al
           | Activate body \<Rightarrow> activate_endpoint env claims body old st al
           | Regenerate \<Rightarrow> regenerate_endpoint env claims old st al
           | Disable \<Rightarrow> disable_endpoint env claims old st al))"

end
