(* ===== verification/AuthnEndpointSafety.thy ===== *)
theory AuthnEndpointSafety
  imports AuthnEndpoints LoginSafety
begin

text \<open>
  What the account and second-factor endpoints give away and what they let through: which answers may differ
  with the accounts that exist, and whose sessions can take a second factor away, also when requests overtake each other.
\<close>

section \<open>Answers that do not depend on the accounts\<close>

text \<open>The identifiers and the token drawn for a request are not in use.\<close>

definition unused_registration :: "registration \<Rightarrow> identity_state \<Rightarrow> bool" where
  "unused_registration r st \<longleftrightarrow> reg_user_id r \<notin> usr_id ` set (id_users st) \<and>
     reg_token_id r \<notin> ot_id ` set (id_verifications st) \<and> gen_hash (reg_token r) \<notin> ot_hash ` set (id_verifications st)"

definition unused_reset :: "string \<Rightarrow> generated_token \<Rightarrow> identity_state \<Rightarrow> bool" where
  "unused_reset i t st \<longleftrightarrow> i \<notin> ot_id ` set (id_resets st) \<and> gen_hash t \<notin> ot_hash ` set (id_resets st)"

lemma find_user_by_email_None: "find_user_by_email email st = None \<longleftrightarrow> email \<notin> usr_email ` set (id_users st)"
  by (auto simp: find_user_by_email_def find_None_iff)

lemma register_user_answer:
  assumes "unused_registration r st"
  shows "fst (register_user r now raw_email raw_password st st) =
    (case email_create raw_email of Inl _ \<Rightarrow> Inr (err RegisterInvalidEmail)
     | Inr _ \<Rightarrow> (case password_create raw_password of Inl _ \<Rightarrow> Inr (err RegisterInvalidPassword) | Inr _ \<Rightarrow> Inr (ok ())))"
  using assms
  by (auto simp: register_user_def unused_registration_def save_user_def user_register_def save_verification_def token_free_def
      verification_token_issue_def find_user_by_email_None Let_def split: sum.split option.split)

lemma request_reset_answer:
  assumes "unused_reset i t st"
  shows "fst (request_password_reset i t now raw_email st st) = Inr ()"
  using assms
  by (auto simp: request_password_reset_def unused_reset_def save_reset_def token_free_def reset_token_issue_def
      split: sum.split option.split)

section \<open>What the handlers of the second factor touch\<close>

lemma save_other_kept:
  "save_credential x st = (answer, st') \<Longrightarrow> c \<in> set (mf_credentials st) \<Longrightarrow> mc_id c \<noteq> mc_id x \<Longrightarrow> c \<in> set (mf_credentials st')"
  by (auto simp: save_credential_def Let_def in_update_where split: if_splits)

lemma issue_other_kept:
  "issue_codes digest now u draws st = (answer, st') \<Longrightarrow> k \<in> set (mf_codes st) \<Longrightarrow> rc_user k \<noteq> u \<or> rc_consumed k \<noteq> None \<Longrightarrow>
   k \<in> set (mf_codes st')"
  by (drule issue_codes_rows) auto

text \<open>What a request that read \<open>old\<close> and writes to \<open>st\<close> can take from \<open>st\<close>.\<close>

lemma enroll_lost:
  assumes "enroll_mfa encrypt issuer fr now u users old st = (answer, st')" "enr_id fr \<notin> mc_id ` set (mf_credentials st)"
  shows "mf_codes st' = mf_codes st"
    and "c \<in> set (mf_credentials st) \<Longrightarrow> c \<notin> set (mf_credentials st') \<Longrightarrow> \<exists>p. find_pending_totp u old = Some p \<and> mc_id c = mc_id p"
proof -
  let ?first = "case find_pending_totp u old of Some p \<Rightarrow> save_credential (mfa_revoke now p) st | None \<Rightarrow> (Inr (), st)"
  obtain reply st1 where first: "?first = (reply, st1)" by force
  have codes1: "mf_codes st1 = mf_codes st"
    using first save_credential_codes by (cases "find_pending_totp u old") auto
  consider "st' = st" | "st' = st1" | reply2 ciphertext where "save_credential (mfa_enroll (enr_id fr) u ciphertext now) st1 = (reply2, st')"
    using assms(1) first unfolding enroll_mfa_def by (auto split: option.splits sum.splits prod.splits)
  note outcomes = this
  from outcomes show "mf_codes st' = mf_codes st" by cases (use codes1 save_credential_codes in auto)
  assume c: "c \<in> set (mf_credentials st)" "c \<notin> set (mf_credentials st')"
  have "c \<notin> set (mf_credentials st1)"
    using outcomes
  proof cases
    case 3
    have "mc_id c \<noteq> mc_id (mfa_enroll (enr_id fr) u ciphertext now)"
      using assms(2) imageI[OF c(1), of mc_id] by (auto simp: mfa_enroll_def)
    with save_other_kept[OF 3] c(2) show ?thesis by blast
  qed (use c in auto)
  with c(1) first have some: "find_pending_totp u old \<noteq> None" by (auto split: option.splits)
  then obtain p where p: "find_pending_totp u old = Some p" by blast
  with first have "save_credential (mfa_revoke now p) st = (reply, st1)" by simp
  from save_other_kept[OF this c(1)] \<open>c \<notin> set (mf_credentials st1)\<close> p show
    "\<exists>p. find_pending_totp u old = Some p \<and> mc_id c = mc_id p" by auto
qed

lemma credential_ids:
  "mfa_revoke now c = c' \<Longrightarrow> mc_id c' = mc_id c"
  "mfa_activate now c = Inr c' \<Longrightarrow> mc_id c' = mc_id c"
  "mfa_register_use step c = Inr c' \<Longrightarrow> mc_id c' = mc_id c"
  by (auto simp: mfa_revoke_def mfa_activate_def mfa_register_use_def split: if_splits option.splits)

lemma switch_rows:
  assumes "switch_credential now step active pending st = (reply, st')"
  shows "mf_codes st' = mf_codes st"
    and "c \<in> set (mf_credentials st) \<Longrightarrow> mc_id c \<noteq> mc_id pending \<Longrightarrow> (\<And>a. active = Some a \<Longrightarrow> mc_id c \<noteq> mc_id a) \<Longrightarrow>
      c \<in> set (mf_credentials st')"
proof -
  let ?first = "case active of Some a \<Rightarrow> save_credential (mfa_revoke now a) st | None \<Rightarrow> (Inr (), st)"
  obtain reply1 st1 where first: "?first = (reply1, st1)" by force
  have second: "st' = st1 \<or> (\<exists>used. mc_id used = mc_id pending \<and> save_credential used st1 = (reply, st'))"
    using assms unfolding switch_credential_def first prod.case
    by (auto split: sum.splits) (metis credential_ids(2,3))
  have "mf_codes st1 = mf_codes st" using first save_credential_codes by (cases active) auto
  with second save_credential_codes show "mf_codes st' = mf_codes st" by metis
  assume c: "c \<in> set (mf_credentials st)" "mc_id c \<noteq> mc_id pending" "\<And>a. active = Some a \<Longrightarrow> mc_id c \<noteq> mc_id a"
  have "c \<in> set (mf_credentials st1)"
  proof (cases active)
    case None
    with first c(1) show ?thesis by simp
  next
    case (Some a)
    then have "mc_id c \<noteq> mc_id (mfa_revoke now a)" using c(3) credential_ids(1) by metis
    with first Some c(1) save_other_kept show ?thesis by auto
  qed
  with second c(2) save_other_kept show "c \<in> set (mf_credentials st')" by metis
qed

lemma activate_lost:
  assumes "activate_mfa hmac decrypt digest audit draws now u code stepped_up old st al = (answer, st', al')"
  shows "c \<in> set (mf_credentials st) \<Longrightarrow> c \<notin> set (mf_credentials st') \<Longrightarrow>
      (\<exists>p. find_pending_totp u old = Some p \<and> mc_id c = mc_id p) \<or> stepped_up \<and> (\<exists>a. find_active_totp u old = Some a \<and> mc_id c = mc_id a)"
    and "k \<in> set (mf_codes st) \<Longrightarrow> k \<notin> set (mf_codes st') \<Longrightarrow> rc_user k = u \<and> (stepped_up \<or> find_active_totp u old = None)"
proof -
  consider (same) "st' = st"
    | (switched) pending step reply st1 where "find_pending_totp u old = Some pending"
        "find_active_totp u old = None \<or> stepped_up" "switch_credential now step (find_active_totp u old) pending st = (reply, st1)"
        "st' = st1 \<or> (\<exists>reply2. issue_codes digest now u draws st1 = (reply2, st'))"
    using assms(1) unfolding activate_mfa_def Let_def
    by (auto split: option.splits sum.splits prod.splits if_splits)
  note outcomes = this
  {
    assume c: "c \<in> set (mf_credentials st)" "c \<notin> set (mf_credentials st')"
    from outcomes show "(\<exists>p. find_pending_totp u old = Some p \<and> mc_id c = mc_id p) \<or>
        stepped_up \<and> (\<exists>a. find_active_totp u old = Some a \<and> mc_id c = mc_id a)"
    proof cases
      case switched
      have "mf_credentials st' = mf_credentials st1" using switched(4) issue_codes_credentials by auto
      with c switch_rows(2)[OF switched(3) c(1)] have "mc_id c = mc_id pending \<or> (\<exists>a. find_active_totp u old = Some a \<and> mc_id c = mc_id a)"
        by auto
      with switched(1,2) show ?thesis by auto
    qed (use c in simp)
  next
    assume k: "k \<in> set (mf_codes st)" "k \<notin> set (mf_codes st')"
    from outcomes show "rc_user k = u \<and> (stepped_up \<or> find_active_totp u old = None)"
    proof cases
      case switched
      with k switch_rows(1)[OF switched(3)] issue_other_kept[of digest now u draws st1 _ st' k] show ?thesis by auto
    qed (use k in simp)
  }
qed

lemma regenerate_lost:
  assumes "regenerate_codes digest now u draws old st = (answer, st')"
  shows "mf_credentials st' = mf_credentials st"
    and "k \<in> set (mf_codes st) \<Longrightarrow> k \<notin> set (mf_codes st') \<Longrightarrow> rc_user k = u"
proof -
  have issued: "st' = st \<or> (\<exists>reply. issue_codes digest now u draws st = (reply, st'))"
    using assms by (auto simp: regenerate_codes_def split: option.splits sum.splits prod.splits)
  then show "mf_credentials st' = mf_credentials st" using issue_codes_credentials by auto
  show "k \<in> set (mf_codes st) \<Longrightarrow> k \<notin> set (mf_codes st') \<Longrightarrow> rc_user k = u"
    using issued issue_other_kept[of digest now u draws st _ st' k] by blast
qed

lemma disable_lost:
  assumes "disable_mfa audit now u old st al = (answer, st', al')"
  shows "mf_codes st' = mf_codes st"
    and "c \<in> set (mf_credentials st) \<Longrightarrow> c \<notin> set (mf_credentials st') \<Longrightarrow> \<exists>a. find_active_totp u old = Some a \<and> mc_id c = mc_id a"
proof -
  have saved: "st' = st \<or> (\<exists>a reply. find_active_totp u old = Some a \<and> save_credential (mfa_revoke now a) st = (reply, st'))"
    using assms by (auto simp: disable_mfa_def split: option.splits sum.splits prod.splits)
  then show "mf_codes st' = mf_codes st" using save_credential_codes by auto
  assume c: "c \<in> set (mf_credentials st)" "c \<notin> set (mf_credentials st')"
  with saved obtain a reply where a: "find_active_totp u old = Some a" "save_credential (mfa_revoke now a) st = (reply, st')" by auto
  from save_other_kept[OF a(2) c(1)] c(2) a(1) show "\<exists>a. find_active_totp u old = Some a \<and> mc_id c = mc_id a" by auto
qed

text \<open>Whoever read a credential of a user read one of that user.\<close>

lemma read_credential:
  assumes "credentials_ok st" "factor_onward old st" "c \<in> set (mf_credentials st)" "p \<in> set (mf_credentials old)" "mc_id c = mc_id p"
  shows "mc_user c = mc_user p"
proof -
  from assms(2,4) obtain q where q: "q \<in> set (mf_credentials st)" "same_credential p q" unfolding factor_onward_def kept_def by blast
  then have "c = q" using by_id_unique[of mc_id, OF _ assms(3) q(1)] assms(1,5) by (simp add: credentials_ok_def same_credential_def)
  with q(2) show ?thesis by (simp add: same_credential_def)
qed

section \<open>Properties\<close>

text \<open>C35: accounts are not revealed: whatever accounts exist, a registration and a request for a password reset answer
  the same, and a login that fails, because there is no such account, because the password is wrong or because the account is not active,
  gives the same answer and counts the same failures.\<close>
theorem accounts_are_not_revealed:
  assumes "unused_registration r1 st1" "unused_registration r2 st2" "unused_reset i1 t1 st1" "unused_reset i2 t2 st2"
    and "verify_credentials matches st1 factors1 email password = None" "verify_credentials matches st2 factors2 email password = None"
  shows "fst (register_endpoint r1 now body st1 st1) = fst (register_endpoint r2 now2 body st2 st2) \<and>
    fst (forgot_password_endpoint i1 t1 now reset_body st1 st1) = fst (forgot_password_endpoint i2 t2 now2 reset_body st2 st2) \<and>
    login_endpoint cfg up matches issue s1 asked_at now (Some \<lparr>cr_email = email, cr_password = password\<rparr>) agent ip st1 factors1 orgs1 old auth =
    login_endpoint cfg up matches issue s2 asked_at now (Some \<lparr>cr_email = email, cr_password = password\<rparr>) agent ip st2 factors2 orgs2 old auth"
proof (intro conjI)
  show "fst (register_endpoint r1 now body st1 st1) = fst (register_endpoint r2 now2 body st2 st2)"
    by (simp add: register_endpoint_def case_prod_unfold Let_def register_user_answer[OF assms(1)] register_user_answer[OF assms(2)]
        split: option.split)
  show "fst (forgot_password_endpoint i1 t1 now reset_body st1 st1) = fst (forgot_password_endpoint i2 t2 now2 reset_body st2 st2)"
    by (simp add: forgot_password_endpoint_def case_prod_unfold Let_def request_reset_answer[OF assms(3)] request_reset_answer[OF assms(4)]
        split: option.split)
  show "login_endpoint cfg up matches issue s1 asked_at now (Some \<lparr>cr_email = email, cr_password = password\<rparr>) agent ip st1 factors1 orgs1 old auth =
    login_endpoint cfg up matches issue s2 asked_at now (Some \<lparr>cr_email = email, cr_password = password\<rparr>) agent ip st2 factors2 orgs2 old auth"
    using assms(5,6) by (simp add: login_endpoint_def parsed_def login_execute_def)
qed

theorem accounts_are_not_revealed_witness:
  "let drawn = \<lparr>reg_user_id = UserId ''bob'', reg_encoded = ''h'', reg_token_id = ''t9'', reg_token = \<lparr>gen_raw = ''r'', gen_hash = ''g''\<rparr>\<rparr>;
       body = Some \<lparr>cr_email = ''ann@x.org'', cr_password = ''a long password''\<rparr> in
   fst (register_endpoint drawn 5000 body empty_identity empty_identity) = fst (register_endpoint drawn 5000 body sample_registered sample_registered)"
proof -
  let ?t = "\<lparr>gen_raw = ''r'', gen_hash = ''g''\<rparr>"
  let ?drawn = "\<lparr>reg_user_id = UserId ''bob'', reg_encoded = ''h'', reg_token_id = ''t9'', reg_token = ?t\<rparr>"
  have empty: "unused_registration ?drawn empty_identity" "unused_reset ''t8'' ?t empty_identity"
    by (simp_all add: unused_registration_def unused_reset_def empty_identity_def)
  have known: "unused_registration ?drawn sample_registered" "unused_reset ''t8'' ?t sample_registered"
    by (simp_all add: unused_registration_def unused_reset_def sample_registered_def sample_account_def user_register_def empty_identity_def)
  have "verify_credentials (\<lambda>_ _. False) st empty_mfa ''ann@x.org'' ''guess'' = None" for st
    by (simp add: verify_credentials_def split: sum.split option.split)
  from accounts_are_not_revealed[OF empty(1) known(1) empty(2) known(2) this this] show ?thesis unfolding Let_def by (rule conjunct1)
qed

definition sample_env :: mfa_env where
  "sample_env = \<lparr>me_hmac = sample_hmac, me_encrypt = (\<lambda>_. Inr ''s2''), me_decrypt = (\<lambda>_. Inr []), me_digest = id, me_audit = sample_sink,
     me_issuer = ''AccessCore'', me_now = 70000, me_enrollment = \<lparr>enr_id = ''m9'', enr_secret = []\<rparr>, me_draws = []\<rparr>"

definition stepped_up_claims :: auth_token_claims where
  "stepped_up_claims = \<lparr>tok_sub = ''ann'', tok_sid = ''s1'', tok_org = None, tok_jti = ''j1'', tok_aal = 2, tok_exp = 900\<rparr>"



text \<open>
  The exception happens: an enrollment that read a pending credential before it was activated revokes it
  afterwards, so that a session of level one disables the second factor.
\<close>

lemma late_enrollment_removes_factor:
  defines "claims \<equiv> stepped_up_claims\<lparr>tok_aal := 1\<rparr>"
  shows "find_active_totp (UserId ''ann'') (sample_factor 1) \<noteq> None \<and>
    find_active_totp (UserId ''ann'') (fst (snd (mfa_endpoint sample_env None None Enroll claims sample_registered sample_enrolled
      (sample_factor 1) empty_audit_log))) = None"
  by (simp add: claims_def mfa_endpoint_def account_guards_def demo_account_guard_def is_demo_account_def stepped_up_claims_def
      enroll_endpoint_def enroll_mfa_def find_user_by_id_def find_pending_totp_def find_active_totp_def find_totp_def save_credential_def
      update_where_def active_of_def mfa_revoke_def sample_env_def factor_samples sample_registered_def sample_account_def user_register_def
      answered_def)

end
