(* ===== verification/Buffers.thy ===== *)
theory Buffers
  imports Conditions "HOL-Library.Word"
begin

text \<open>
  Strings and bytes of the JavaScript library that the clients of other services use. \<open>Buffer.toString\<close> and \<open>Buffer.from\<close> with the encodings \<open>base64\<close> and \<open>base64url\<close> of Node, on bytes: the first pads,
  the second does not, and reading takes both alphabets, skips what belongs to neither and stops at the padding.
\<close>

section \<open>Text\<close>

text \<open>\<open>replace(/\/+$/, '')\<close>\<close>

definition without_slashes :: "string \<Rightarrow> string" where
  "without_slashes url = rev (dropWhile (\<lambda>c. c = CHR ''/'') (rev url))"

text \<open>A number in a template string; \<open>None\<close> is one that is not finite.\<close>

record text_platform = platform +
  js_number_text :: "rat option \<Rightarrow> string"

definition writes_numerals :: "text_platform \<Rightarrow> bool" where
  "writes_numerals p \<longleftrightarrow> (\<forall>n. n < 2 ^ 53 \<longrightarrow> js_number_text p (Some (of_nat n)) = digits n)"

definition plain_text_platform :: text_platform where
  "plain_text_platform = platform.extend plain_platform
     \<lparr>js_number_text = (\<lambda>q. case q of Some r \<Rightarrow> digits (nat \<lfloor>r\<rfloor>) | None \<Rightarrow> ''NaN'')\<rparr>"

lemma plain_text_platform_writes: "writes_numerals plain_text_platform"
  by (simp add: writes_numerals_def plain_text_platform_def platform.extend_def)

lemma plain_text_platform_reads: "reads_numerals (platform.truncate plain_text_platform)"
  using plain_platform_reads by (simp add: plain_text_platform_def platform.extend_def platform.truncate_def plain_platform_def)

section \<open>Writing\<close>

definition b64_digits :: string where
  "b64_digits = ''ABCDEFGHIJKLMNOPQRSTUVWXYZabcdefghijklmnopqrstuvwxyz0123456789''"

definition b64_char :: "bool \<Rightarrow> nat \<Rightarrow> char" where
  "b64_char url n = (b64_digits @ (if url then ''-_'' else ''+/'')) ! n"

fun b64_groups :: "nat list \<Rightarrow> nat list" where
  "b64_groups [] = []"
| "b64_groups [a] = [a div 4, (a mod 4) * 16]"
| "b64_groups [a, b] = [a div 4, (a mod 4) * 16 + b div 16, (b mod 16) * 4]"
| "b64_groups (a # b # c # bytes) =
     [a div 4, (a mod 4) * 16 + b div 16, (b mod 16) * 4 + c div 64, c mod 64] @ b64_groups bytes"

definition b64_padding :: "nat \<Rightarrow> string" where
  "b64_padding n = (if n mod 3 = 1 then ''=='' else if n mod 3 = 2 then ''='' else [])"

definition to_base64 :: "8 word list \<Rightarrow> string" where
  "to_base64 bytes = map (b64_char False) (b64_groups (map unat bytes)) @ b64_padding (length bytes)"

definition to_base64url :: "8 word list \<Rightarrow> string" where
  "to_base64url bytes = map (b64_char True) (b64_groups (map unat bytes))"

section \<open>Reading\<close>

definition b64_value :: "char \<Rightarrow> nat option" where
  "b64_value c = (if c = CHR ''-'' then Some 62 else if c = CHR ''_'' then Some 63 else index_of c (b64_digits @ ''+/''))"

fun b64_bytes :: "nat list \<Rightarrow> nat list" where
  "b64_bytes (p # q # r # s # vs) = [p * 4 + q div 16, (q mod 16) * 16 + r div 4, (r mod 4) * 64 + s] @ b64_bytes vs"
| "b64_bytes [p, q, r] = [p * 4 + q div 16, (q mod 16) * 16 + r div 4]"
| "b64_bytes [p, q] = [p * 4 + q div 16]"
| "b64_bytes [p] = []"
| "b64_bytes [] = []"

definition from_base64 :: "string \<Rightarrow> 8 word list" where
  "from_base64 s = map word_of_nat (b64_bytes (List.map_filter b64_value (takeWhile (\<lambda>c. c \<noteq> CHR ''='') s)))"

section \<open>Reading what was written\<close>

lemma joined: "y < n \<Longrightarrow> (x * n + y) div n = (x :: nat)" "y < n \<Longrightarrow> (x * n + y) mod n = (y :: nat)"
  by simp_all

lemma joined_bound: "x < m \<Longrightarrow> y < n \<Longrightarrow> x * n + y < m * (n :: nat)"
proof -
  assume "x < m" "y < n"
  moreover from \<open>x < m\<close> have "(x + 1) * n \<le> m * n" by (intro mult_le_mono1) simp
  ultimately show ?thesis by simp
qed

lemma byte_parts: "n < 256 \<Longrightarrow> n div 4 < 64 \<and> n div 16 < 16 \<and> n div 64 < (4 :: nat)"
  by (simp add: div_less_iff_less_mult)

lemma b64_groups_bound: "list_all (\<lambda>n. n < 256) bytes \<Longrightarrow> list_all (\<lambda>n. n < 64) (b64_groups bytes)"
proof (induction bytes rule: b64_groups.induct)
  case (3 a b)
  then show ?case using byte_parts[of a] byte_parts[of b] joined_bound[of "a mod 4" 4 "b div 16" 16] by simp
next
  case (4 a b c bytes)
  then show ?case using byte_parts[of a] byte_parts[of b] byte_parts[of c] joined_bound[of "a mod 4" 4 "b div 16" 16]
      joined_bound[of "b mod 16" 16 "c div 64" 4] by simp
qed auto

lemma b64_groups_bytes: "list_all (\<lambda>n. n < 256) bytes \<Longrightarrow> b64_bytes (b64_groups bytes) = bytes"
proof (induction bytes rule: b64_groups.induct)
  case (3 a b)
  then show ?case using byte_parts[of b] joined[of "b div 16" 16 "a mod 4"]
    by (simp add: div_mult_mod_eq)
next
  case (4 a b c bytes)
  then show ?case using byte_parts[of b] byte_parts[of c] joined[of "b div 16" 16 "a mod 4"] joined[of "c div 64" 4 "b mod 16"]
    by (simp add: div_mult_mod_eq)
qed auto

lemma b64_char_plain: "n < 64 \<Longrightarrow> b64_value (b64_char url n) = Some n \<and> b64_char url n \<noteq> CHR ''='' \<and> b64_char url n \<noteq> CHR '':''"
proof -
  assume "n < 64"
  then have "n \<in> set [0..<64]" "url \<in> set [True, False]" by simp_all
  moreover have "\<forall>u \<in> set [True, False]. \<forall>m \<in> set [0..<64].
      b64_value (b64_char u m) = Some m \<and> b64_char u m \<noteq> CHR ''='' \<and> b64_char u m \<noteq> CHR '':''" by code_simp
  ultimately show ?thesis by blast
qed

lemma b64_values:
  assumes "list_all (\<lambda>n. n < 64) vs"
  shows "List.map_filter b64_value (map (b64_char url) vs) = vs" "CHR ''='' \<notin> set (map (b64_char url) vs)"
    "CHR '':'' \<notin> set (map (b64_char url) vs)"
  using assms by (induction vs) (use b64_char_plain[of _ url] in \<open>fastforce simp: map_filter_simps\<close>)+

lemma b64_text_bytes:
  assumes "list_all (\<lambda>n. n < 64) vs"
  shows "List.map_filter b64_value (takeWhile (\<lambda>c. c \<noteq> CHR ''='') (map (b64_char url) vs)) = vs"
    "List.map_filter b64_value (takeWhile (\<lambda>c. c \<noteq> CHR ''='') (map (b64_char url) vs @ b64_padding n)) = vs"
proof -
  have plain: "\<forall>c \<in> set (map (b64_char url) vs). c \<noteq> CHR ''=''" using b64_values(2)[OF assms, of url] by blast
  then have "takeWhile (\<lambda>c. c \<noteq> CHR ''='') (map (b64_char url) vs) = map (b64_char url) vs" by (simp only: takeWhile_eq_all_conv)
  then show "List.map_filter b64_value (takeWhile (\<lambda>c. c \<noteq> CHR ''='') (map (b64_char url) vs)) = vs"
    by (simp only: b64_values(1)[OF assms])
  have "takeWhile (\<lambda>c. c \<noteq> CHR ''='') (b64_padding n) = []" by (simp add: b64_padding_def)
  with plain have "takeWhile (\<lambda>c. c \<noteq> CHR ''='') (map (b64_char url) vs @ b64_padding n) = map (b64_char url) vs"
    by (subst takeWhile_append2) auto
  then show "List.map_filter b64_value (takeWhile (\<lambda>c. c \<noteq> CHR ''='') (map (b64_char url) vs @ b64_padding n)) = vs"
    by (simp only: b64_values(1)[OF assms])
qed

lemma unat_bytes: "list_all (\<lambda>n. n < 256) (map unat (bytes :: 8 word list))"
proof -
  have "unat (w :: 8 word) < 256" for w using unsigned_less[of w, where 'a = nat] by simp
  then show ?thesis by (simp add: list_all_iff)
qed

lemma words_of_bytes: "map (word_of_nat :: nat \<Rightarrow> 8 word) (map unat bytes) = bytes"
  by (simp add: comp_def)

lemma from_to_base64 [simp]: "from_base64 (to_base64 bytes) = bytes"
  by (simp only: from_base64_def to_base64_def b64_text_bytes(2)[OF b64_groups_bound[OF unat_bytes]]
      b64_groups_bytes[OF unat_bytes] words_of_bytes)

lemma from_to_base64url [simp]: "from_base64 (to_base64url bytes) = bytes"
  by (simp only: from_base64_def to_base64url_def b64_text_bytes(1)[OF b64_groups_bound[OF unat_bytes]]
      b64_groups_bytes[OF unat_bytes] words_of_bytes)

lemma base64_no_colon: "CHR '':'' \<notin> set (to_base64 bytes)" "CHR '':'' \<notin> set (to_base64url bytes)"
  using b64_values(3)[OF b64_groups_bound[OF unat_bytes]] by (auto simp: to_base64_def to_base64url_def b64_padding_def)

lemma b64_groups_Nil [simp]: "b64_groups bytes = [] \<longleftrightarrow> bytes = []"
  by (cases bytes rule: b64_groups.cases) auto

lemma base64_nonempty [simp]: "to_base64 bytes = [] \<longleftrightarrow> bytes = []" "to_base64url bytes = [] \<longleftrightarrow> bytes = []"
  by (auto simp: to_base64_def to_base64url_def b64_padding_def)

end
