(* ===== verification/Vault.thy ===== *)
theory Vault
  imports Buffers SigningKeys
begin

text \<open>
  The cryptography behind the ports \<open>Signer\<close> and \<open>SecretEncryptor\<close>: the HTTP clients of Vault's transit engine
  (\<open>vault-transit-signer.ts\<close>, \<open>vault-transit-secret-encryptor.ts\<close>) and the software versions of development and
  test (\<open>software-signer.ts\<close>, \<open>software-secret-encryptor.ts\<close>). Vault is a parameter that may act on a state; what is
  assumed of it are its documented answers to sign and verify requests (theory VaultSafety, \<open>documented_signatures\<close>).
  Ed25519 and AES-GCM come from Node and are parameters too.
\<close>

section \<open>Requests\<close>

text \<open>The text of a response: empty, JSON, or neither.\<close>

datatype vault_text = EmptyText | JsonText json | OtherText

record vault_request =
  vq_method :: string
  vq_url :: string
  vq_token :: string
  vq_body :: "json option"

record vault_response =
  va_status :: nat
  va_text :: vault_text

type_synonym 'v vault = "vault_request \<Rightarrow> 'v \<Rightarrow> vault_response throws \<times> 'v"

record vault_config =
  vf_addr :: string
  vf_token :: string
  vf_key_name :: string

text \<open>\<open>ready\<close> is set while a bootstrap is settled without an error.\<close>

record 'v vault_client =
  vl_server :: 'v
  vl_ready :: bool

definition is_success :: "nat \<Rightarrow> bool" where
  "is_success status \<longleftrightarrow> 200 \<le> status \<and> status \<le> 299"

definition vault_send :: "'v vault \<Rightarrow> vault_config \<Rightarrow> string \<Rightarrow> string \<Rightarrow> json option \<Rightarrow> 'v \<Rightarrow> vault_response throws \<times> 'v" where
  "vault_send vault cfg method path body =
     vault \<lparr>vq_method = method, vq_url = without_slashes (vf_addr cfg) @ ''/v1/'' @ path, vq_token = vf_token cfg, vq_body = body\<rparr>"

definition vault_call :: "'v vault \<Rightarrow> vault_config \<Rightarrow> string \<Rightarrow> string \<Rightarrow> json option \<Rightarrow> 'v \<Rightarrow> json throws \<times> 'v" where
  "vault_call vault cfg method path body server =
     (case vault_send vault cfg method path body server of
        (Inl e, s) \<Rightarrow> (Inl e, s)
      | (Inr r, s) \<Rightarrow>
          (if \<not> is_success (va_status r) then Inl (Error ''Vault request failed'')
           else case va_text r of
             EmptyText \<Rightarrow> Inr (JObject [])
           | JsonText v \<Rightarrow> Inr v
           | OtherText \<Rightarrow> Inl (Error ''SyntaxError''), s))"

definition mount_transit :: "'v vault \<Rightarrow> vault_config \<Rightarrow> 'v \<Rightarrow> unit throws \<times> 'v" where
  "mount_transit vault cfg server =
     (case vault_send vault cfg ''POST'' ''sys/mounts/transit'' (Some (JObject [(''type'', JString ''transit'')])) server of
        (Inl e, s) \<Rightarrow> (Inl e, s)
      | (Inr r, s) \<Rightarrow> (if is_success (va_status r) \<or> va_status r = 400 then Inr ()
                      else Inl (Error ''Vault mount transit failed''), s))"

definition key_path :: "vault_config \<Rightarrow> string" where
  "key_path cfg = ''transit/keys/'' @ vf_key_name cfg"

definition bootstrap :: "'v vault \<Rightarrow> vault_config \<Rightarrow> string \<Rightarrow> 'v \<Rightarrow> unit throws \<times> 'v" where
  "bootstrap vault cfg key_type server =
     (case mount_transit vault cfg server of
        (Inl e, s) \<Rightarrow> (Inl e, s)
      | (Inr _, s) \<Rightarrow> (case vault_call vault cfg ''POST'' (key_path cfg) (Some (JObject [(''type'', JString key_type)])) s of
          (Inl e, s') \<Rightarrow> (Inl e, s')
        | (Inr _, s') \<Rightarrow> (Inr (), s')))"

text \<open>Every operation but \<open>verify\<close> and \<open>decrypt\<close> waits for the bootstrap, which a failure lets the next one try again.\<close>

definition ensure_key :: "'v vault \<Rightarrow> vault_config \<Rightarrow> string \<Rightarrow> 'v vault_client \<Rightarrow> unit throws \<times> 'v vault_client" where
  "ensure_key vault cfg key_type cl =
     (if vl_ready cl then (Inr (), cl)
      else case bootstrap vault cfg key_type (vl_server cl) of
        (Inl e, s) \<Rightarrow> (Inl e, \<lparr>vl_server = s, vl_ready = False\<rparr>)
      | (Inr _, s) \<Rightarrow> (Inr (), \<lparr>vl_server = s, vl_ready = True\<rparr>))"

definition on_server :: "('v \<Rightarrow> 'a throws \<times> 'v) \<Rightarrow> 'v vault_client \<Rightarrow> 'a throws \<times> 'v vault_client" where
  "on_server f cl = (case f (vl_server cl) of (answer, s) \<Rightarrow> (answer, cl\<lparr>vl_server := s\<rparr>))"

definition with_key :: "'v vault \<Rightarrow> vault_config \<Rightarrow> string \<Rightarrow> ('v \<Rightarrow> 'a throws \<times> 'v) \<Rightarrow> 'v vault_client \<Rightarrow>
    'a throws \<times> 'v vault_client" where
  "with_key vault cfg key_type f cl =
     (case ensure_key vault cfg key_type cl of
        (Inl e, cl') \<Rightarrow> (Inl e, cl')
      | (Inr _, cl') \<Rightarrow> on_server f cl')"

text \<open>\<open>body.a.b\<close>\<close>

fun js_path :: "string list \<Rightarrow> json \<Rightarrow> json throws" where
  "js_path [] v = Inr v"
| "js_path (name # names) v = (case js_property name v of Inl e \<Rightarrow> Inl e | Inr w \<Rightarrow> js_path names w)"

text \<open>A value that is used as a string; another one throws.\<close>

definition string_at :: "string list \<Rightarrow> json \<Rightarrow> string throws" where
  "string_at names v =
     (case js_path names v of
        Inl e \<Rightarrow> Inl e
      | Inr (JString s) \<Rightarrow> Inr s
      | Inr _ \<Rightarrow> Inl (Error ''TypeError''))"

section \<open>The transit signer\<close>

record tagged_signature = signature +
  sig_alg :: string

definition kid_for :: "text_platform \<Rightarrow> vault_config \<Rightarrow> rat option \<Rightarrow> string" where
  "kid_for p cfg version = vf_key_name cfg @ ''-'' @ js_number_text p version"

definition read_signature :: "text_platform \<Rightarrow> vault_config \<Rightarrow> string \<Rightarrow> tagged_signature throws" where
  "read_signature p cfg vault_signature =
     (case split_on CHR '':'' vault_signature of
        _ # version # value_b64 # _ \<Rightarrow>
          if version = [] \<or> value_b64 = [] then Inl (Error ''unexpected Vault signature format'')
          else Inr \<lparr>sig_kid = kid_for p cfg (js_number p (tl version)), sig_value = to_base64url (from_base64 value_b64),
                 sig_alg = ''EdDSA''\<rparr>
      | _ \<Rightarrow> Inl (Error ''unexpected Vault signature format''))"

definition sign_body :: "8 word list \<Rightarrow> nat option \<Rightarrow> json" where
  "sign_body payload asked_version = JObject ((''input'', JString (to_base64 payload)) #
     (case asked_version of None \<Rightarrow> [] | Some v \<Rightarrow> [(''key_version'', JNumber (int v))]))"

definition vault_sign :: "text_platform \<Rightarrow> 'v vault \<Rightarrow> vault_config \<Rightarrow> 8 word list \<Rightarrow> nat option \<Rightarrow> 'v vault_client \<Rightarrow>
    tagged_signature throws \<times> 'v vault_client" where
  "vault_sign p vault cfg payload asked_version =
     with_key vault cfg ''ed25519'' (\<lambda>server.
       case vault_call vault cfg ''POST'' (''transit/sign/'' @ vf_key_name cfg) (Some (sign_body payload asked_version)) server of
         (Inl e, s) \<Rightarrow> (Inl e, s)
       | (Inr body, s) \<Rightarrow> (case string_at [''data'', ''signature''] body of
             Inl e \<Rightarrow> Inl e
           | Inr text \<Rightarrow> read_signature p cfg text, s))"

text \<open>\<open>/-(\d+)$/.exec(kid)\<close>: a hyphen and digits up to the end.\<close>

definition kid_version :: "string \<Rightarrow> string option" where
  "kid_version kid =
     (let digits = takeWhile is_digit (rev kid); before = dropWhile is_digit (rev kid) in
      if digits \<noteq> [] \<and> before \<noteq> [] \<and> hd before = CHR ''-'' then Some (rev digits) else None)"

definition verify_body :: "8 word list \<Rightarrow> string \<Rightarrow> json" where
  "verify_body payload vault_signature =
     JObject [(''input'', JString (to_base64 payload)), (''signature'', JString vault_signature)]"

definition vault_verify :: "'v vault \<Rightarrow> vault_config \<Rightarrow> 8 word list \<Rightarrow> tagged_signature \<Rightarrow> 'v vault_client \<Rightarrow>
    bool throws \<times> 'v vault_client" where
  "vault_verify vault cfg payload signature cl =
     (case kid_version (sig_kid signature) of
        None \<Rightarrow> (Inr False, cl)
      | Some version \<Rightarrow>
          if sig_alg signature \<noteq> ''EdDSA'' then (Inr False, cl)
          else on_server (\<lambda>server.
            case vault_call vault cfg ''POST'' (''transit/verify/'' @ vf_key_name cfg)
                (Some (verify_body payload (''vault:v'' @ version @ '':'' @ to_base64 (from_base64 (sig_value signature))))) server of
              (Inl e, s) \<Rightarrow> (Inl e, s)
            | (Inr body, s) \<Rightarrow> (case js_path [''data'', ''valid''] body of
                  Inl e \<Rightarrow> Inl e
                | Inr v \<Rightarrow> Inr (v = JBool True), s)) cl)"

section \<open>The keys of the transit signer\<close>

record vault_key =
  vk_version :: "rat option"
  vk_kid :: string
  vk_alg :: string
  vk_bytes :: "8 word list"

text \<open>\<open>Object.entries\<close>\<close>

definition object_entries :: "json \<Rightarrow> (string \<times> json) list throws" where
  "object_entries v =
     (case v of
        JNull \<Rightarrow> Inl (Error ''TypeError'')
      | JUndefined \<Rightarrow> Inl (Error ''TypeError'')
      | JObject es \<Rightarrow> Inr es
      | JArray vs \<Rightarrow> Inr (zip (map digits [0..<length vs]) vs)
      | JString s \<Rightarrow> Inr (zip (map digits [0..<length s]) (map (\<lambda>c. JString [c]) s))
      | _ \<Rightarrow> Inr [])"

definition read_vault_key :: "text_platform \<Rightarrow> vault_config \<Rightarrow> string \<times> json \<Rightarrow> vault_key throws" where
  "read_vault_key p cfg entry =
     (case string_at [''public_key''] (snd entry) of
        Inl e \<Rightarrow> Inl e
      | Inr text \<Rightarrow> (let version = js_number p (fst entry) in
          Inr \<lparr>vk_version = version, vk_kid = kid_for p cfg version, vk_alg = ''EdDSA'', vk_bytes = from_base64 text\<rparr>))"

fun read_vault_keys :: "text_platform \<Rightarrow> vault_config \<Rightarrow> (string \<times> json) list \<Rightarrow> vault_key list throws" where
  "read_vault_keys p cfg [] = Inr []"
| "read_vault_keys p cfg (e # es) =
     (case read_vault_key p cfg e of
        Inl x \<Rightarrow> Inl x
      | Inr k \<Rightarrow> (case read_vault_keys p cfg es of Inl x \<Rightarrow> Inl x | Inr ks \<Rightarrow> Inr (k # ks)))"

text \<open>\<open>sort((a, b) => b.version - a.version)\<close>; a version that is not a number has no defined place, here that of 0.\<close>

definition newest_first :: "vault_key list \<Rightarrow> vault_key list" where
  "newest_first = sort_key (\<lambda>k. - (case vk_version k of Some v \<Rightarrow> v | None \<Rightarrow> 0))"

definition read_key :: "'v vault \<Rightarrow> vault_config \<Rightarrow> 'v \<Rightarrow> json throws \<times> 'v" where
  "read_key vault cfg = vault_call vault cfg ''GET'' (key_path cfg) None"

definition vault_public_keys :: "text_platform \<Rightarrow> 'v vault \<Rightarrow> vault_config \<Rightarrow> 'v vault_client \<Rightarrow>
    vault_key list throws \<times> 'v vault_client" where
  "vault_public_keys p vault cfg =
     with_key vault cfg ''ed25519'' (\<lambda>server. case read_key vault cfg server of
         (Inl e, s) \<Rightarrow> (Inl e, s)
       | (Inr body, s) \<Rightarrow> (case js_path [''data'', ''keys''] body of
             Inl e \<Rightarrow> Inl e
           | Inr keys \<Rightarrow> (case object_entries keys of
               Inl e \<Rightarrow> Inl e
             | Inr es \<Rightarrow> map_sum id newest_first (read_vault_keys p cfg es)), s))"

definition vault_latest_version :: "'v vault \<Rightarrow> vault_config \<Rightarrow> 'v vault_client \<Rightarrow> json throws \<times> 'v vault_client" where
  "vault_latest_version vault cfg =
     with_key vault cfg ''ed25519'' (\<lambda>server. case read_key vault cfg server of
         (Inl e, s) \<Rightarrow> (Inl e, s)
       | (Inr body, s) \<Rightarrow> (js_path [''data'', ''latest_version''] body, s))"

definition forget :: "json throws \<times> 'v \<Rightarrow> unit throws \<times> 'v" where
  "forget answer = (map_sum id (\<lambda>v. ()) (fst answer), snd answer)"

definition rotate_path :: "vault_config \<Rightarrow> string" where
  "rotate_path cfg = key_path cfg @ ''/rotate''"

definition config_path :: "vault_config \<Rightarrow> string" where
  "config_path cfg = key_path cfg @ ''/config''"

definition vault_rotate :: "'v vault \<Rightarrow> vault_config \<Rightarrow> 'v vault_client \<Rightarrow> unit throws \<times> 'v vault_client" where
  "vault_rotate vault cfg =
     with_key vault cfg ''ed25519'' (\<lambda>server. forget (vault_call vault cfg ''POST'' (rotate_path cfg) None server))"

definition vault_set_min :: "'v vault \<Rightarrow> vault_config \<Rightarrow> nat \<Rightarrow> 'v vault_client \<Rightarrow> unit throws \<times> 'v vault_client" where
  "vault_set_min vault cfg version =
     with_key vault cfg ''ed25519'' (\<lambda>server. forget (vault_call vault cfg ''POST'' (config_path cfg)
       (Some (JObject [(''min_decryption_version'', JNumber (int version))])) server))"

section \<open>The transit encryptor\<close>

definition vault_encrypt :: "'v vault \<Rightarrow> vault_config \<Rightarrow> 8 word list \<Rightarrow> 'v vault_client \<Rightarrow> json throws \<times> 'v vault_client" where
  "vault_encrypt vault cfg plaintext =
     with_key vault cfg ''aes256-gcm96'' (\<lambda>server.
       case vault_call vault cfg ''POST'' (''transit/encrypt/'' @ vf_key_name cfg)
           (Some (JObject [(''plaintext'', JString (to_base64 plaintext))])) server of
         (Inl e, s) \<Rightarrow> (Inl e, s)
       | (Inr body, s) \<Rightarrow> (js_path [''data'', ''ciphertext''] body, s))"

definition vault_decrypt :: "'v vault \<Rightarrow> vault_config \<Rightarrow> string \<Rightarrow> 'v vault_client \<Rightarrow> 8 word list throws \<times> 'v vault_client" where
  "vault_decrypt vault cfg ciphertext =
     on_server (\<lambda>server.
       case vault_call vault cfg ''POST'' (''transit/decrypt/'' @ vf_key_name cfg)
           (Some (JObject [(''ciphertext'', JString ciphertext)])) server of
         (Inl e, s) \<Rightarrow> (Inl e, s)
       | (Inr body, s) \<Rightarrow> (map_sum id from_base64 (string_at [''data'', ''plaintext''] body), s))"

section \<open>The software signer and encryptor\<close>

definition software_sign :: "(8 word list \<Rightarrow> 8 word list) \<Rightarrow> string \<Rightarrow> 8 word list \<Rightarrow> tagged_signature" where
  "software_sign crypto_sign kid payload =
     \<lparr>sig_kid = kid, sig_value = to_base64url (crypto_sign payload), sig_alg = ''EdDSA''\<rparr>"

definition software_verify :: "(8 word list \<Rightarrow> 8 word list \<Rightarrow> bool) \<Rightarrow> string \<Rightarrow> 8 word list \<Rightarrow> tagged_signature \<Rightarrow> bool" where
  "software_verify crypto_verify kid payload signature =
     (if sig_kid signature \<noteq> kid \<or> sig_alg signature \<noteq> ''EdDSA'' then False
      else crypto_verify payload (from_base64 (sig_value signature)))"

definition software_public_keys :: "string \<Rightarrow> 8 word list \<Rightarrow> vault_key list" where
  "software_public_keys kid raw = [\<lparr>vk_version = Some 1, vk_kid = kid, vk_alg = ''EdDSA'', vk_bytes = raw\<rparr>]"

text \<open>AES-256-GCM: the cipher text and the tag of a plaintext, and back, which fails where the tag does not fit.\<close>

record gcm =
  gcm_seal :: "8 word list \<Rightarrow> 8 word list \<Rightarrow> 8 word list \<Rightarrow> 8 word list \<times> 8 word list"
  gcm_open :: "8 word list \<Rightarrow> 8 word list \<Rightarrow> 8 word list \<Rightarrow> 8 word list \<Rightarrow> 8 word list throws"

definition software_prefix :: string where
  "software_prefix = ''sw:v1''"

definition software_encrypt :: "gcm \<Rightarrow> 8 word list \<Rightarrow> 8 word list \<Rightarrow> 8 word list \<Rightarrow> string" where
  "software_encrypt cipher key iv plaintext =
     (let (ciphertext, tag) = gcm_seal cipher key iv plaintext in
      software_prefix @ '':'' @ to_base64url iv @ '':'' @ to_base64url tag @ '':'' @ to_base64url ciphertext)"

definition software_decrypt :: "gcm \<Rightarrow> 8 word list \<Rightarrow> string \<Rightarrow> 8 word list throws" where
  "software_decrypt cipher key ciphertext =
     (case split_on CHR '':'' ciphertext of
        part1 # part2 # iv_part # tag_part # data_part # _ \<Rightarrow>
          if part1 @ '':'' @ part2 \<noteq> software_prefix \<or> iv_part = [] \<or> tag_part = [] \<or> data_part = []
          then Inl (Error ''malformed software-encrypted secret'')
          else gcm_open cipher key (from_base64 iv_part) (from_base64 tag_part) (from_base64 data_part)
      | _ \<Rightarrow> Inl (Error ''malformed software-encrypted secret''))"

end
