(* ===== verification/VaultSafety.thy ===== *)
theory VaultSafety
  imports Vault
begin

text \<open>
  What the clients of theory Vault add to the answers of Vault: identifiers that carry the key version, and encodings that lose
  nothing. That the client is a signer as theory SigningKeys needs it is not shown: Vault does not document what a request whose
  answer is lost did to the keys.
\<close>

section \<open>Key identifiers\<close>

lemma not_digits: "\<not> is_digit CHR ''-''" "\<not> is_digit CHR '':''"
  by (simp_all add: is_digit_def)

lemma digits_digit: "c \<in> set (digits n) \<Longrightarrow> is_digit c"
  using digits_are_digits[of n] by (simp add: list_all_iff)

lemma kid_version_vault_kid [simp]: "kid_version (vault_kid key_name n) = Some (digits n)"
proof -
  have "takeWhile is_digit (rev (digits n) @ CHR ''-'' # rev key_name) = rev (digits n) @ takeWhile is_digit (CHR ''-'' # rev key_name)"
    "dropWhile is_digit (rev (digits n) @ CHR ''-'' # rev key_name) = dropWhile is_digit (CHR ''-'' # rev key_name)"
    by (rule takeWhile_append2 dropWhile_append2, simp add: digits_digit)+
  then show ?thesis by (simp add: kid_version_def vault_kid_def not_digits)
qed

lemma digits_no_colon: "CHR '':'' \<notin> set (digits n)"
  using digits_digit not_digits(2) by blast

section \<open>Signatures\<close>

text \<open>What Vault documents of its signatures: a successful answer to a sign request holds the version that made,
  the one asked for if one was, and a signature in base64; a verify request for it, then or later, answers that it is
  valid, if it is vault_answered with success at all. \<open>made n payload sig\<close> says that version \<open>n\<close> made \<open>sig\<close>.\<close>

definition documented_signatures :: "'v vault \<Rightarrow> vault_config \<Rightarrow> (nat \<Rightarrow> 8 word list \<Rightarrow> 8 word list \<Rightarrow> bool) \<Rightarrow> bool" where
  "documented_signatures vault cfg made \<longleftrightarrow>
     (\<forall>payload asked_version s r s'.
        vault_send vault cfg ''POST'' (''transit/sign/'' @ vf_key_name cfg) (Some (sign_body payload asked_version)) s = (Inr r, s') \<longrightarrow>
        is_success (va_status r) \<longrightarrow>
        (\<exists>body n signature. va_text r = JsonText body \<and> n < 2 ^ 53 \<and> signature \<noteq> [] \<and>
           (asked_version = None \<or> asked_version = Some n) \<and> made n payload signature \<and>
           string_at [''data'', ''signature''] body = Inr (''vault:v'' @ digits n @ '':'' @ to_base64 signature))) \<and>
     (\<forall>payload n signature s r s'. made n payload signature \<longrightarrow>
        vault_send vault cfg ''POST'' (''transit/verify/'' @ vf_key_name cfg)
          (Some (verify_body payload (''vault:v'' @ digits n @ '':'' @ to_base64 signature))) s = (Inr r, s') \<longrightarrow>
        is_success (va_status r) \<longrightarrow>
        (\<exists>body. va_text r = JsonText body \<and> js_path [''data'', ''valid''] body = Inr (JBool True)))"

lemma vault_call_okD:
  assumes "vault_call vault cfg method path body server = (Inr v, server')"
  obtains r where "vault_send vault cfg method path body server = (Inr r, server')" "is_success (va_status r)"
    "va_text r = JsonText v \<or> va_text r = EmptyText \<and> v = JObject []"
  using assms by (auto simp: vault_call_def split: prod.splits sum.splits if_splits vault_text.splits)

lemma with_key_okD:
  assumes "with_key vault cfg key_type f cl = (Inr v, cl')"
  obtains cl0 s where "ensure_key vault cfg key_type cl = (Inr (), cl0)" "f (vl_server cl0) = (Inr v, s)" "cl' = cl0\<lparr>vl_server := s\<rparr>"
  using assms by (auto simp: with_key_def on_server_def split: prod.splits sum.splits)

lemma read_signature_documented:
  assumes "writes_numerals p" "reads_numerals (platform.truncate p)" "n < 2 ^ 53" "signature \<noteq> []"
  shows "read_signature p cfg (''vault:v'' @ digits n @ '':'' @ to_base64 signature) =
    Inr \<lparr>sig_kid = vault_kid (vf_key_name cfg) n, sig_value = to_base64url signature, sig_alg = ''EdDSA''\<rparr>"
proof -
  have "split_on CHR '':'' (digits n @ CHR '':'' # to_base64 signature) = [digits n, to_base64 signature]"
    using split_on_append_sep[OF digits_no_colon] by (simp add: split_on_absent base64_no_colon)
  then have split: "split_on CHR '':'' (''vault:v'' @ digits n @ '':'' @ to_base64 signature) =
      [''vault'', CHR ''v'' # digits n, to_base64 signature]" by simp
  have "js_number p (digits n) = Some (of_nat n)"
    using assms(2,3) digits_are_digits[of n] by (auto simp: reads_numerals_def dec_value_digits platform.defs)
  with assms(1,3) have kid: "kid_for p cfg (js_number p (digits n)) = vault_kid (vf_key_name cfg) n"
    by (simp add: kid_for_def vault_kid_def writes_numerals_def)
  show ?thesis using assms(4) by (simp only: read_signature_def split list.case) (simp add: kid)
qed

lemma vault_sign_okD:
  assumes "documented_signatures vault cfg made" "writes_numerals p" "reads_numerals (platform.truncate p)"
    and "vault_sign p vault cfg payload asked_version cl = (Inr signature, cl')"
  obtains n bytes where "asked_version = None \<or> asked_version = Some n" "made n payload bytes" "bytes \<noteq> []"
    "signature = \<lparr>sig_kid = vault_kid (vf_key_name cfg) n, sig_value = to_base64url bytes, sig_alg = ''EdDSA''\<rparr>"
proof -
  from assms(4) obtain server s body where
    call: "vault_call vault cfg ''POST'' (''transit/sign/'' @ vf_key_name cfg) (Some (sign_body payload asked_version)) server = (Inr body, s)"
    and read: "(case string_at [''data'', ''signature''] body of Inl e \<Rightarrow> Inl e | Inr text \<Rightarrow> read_signature p cfg text) = Inr signature"
    unfolding vault_sign_def by (auto elim!: with_key_okD split: prod.splits sum.splits)
  from vault_call_okD[OF call] obtain r where
    r: "vault_send vault cfg ''POST'' (''transit/sign/'' @ vf_key_name cfg) (Some (sign_body payload asked_version)) server = (Inr r, s)"
      "is_success (va_status r)" "va_text r = JsonText body \<or> va_text r = EmptyText \<and> body = JObject []" .
  from assms(1) r(1,2) obtain body' n bytes where answer: "va_text r = JsonText body'" "n < 2 ^ 53" "bytes \<noteq> []"
      "asked_version = None \<or> asked_version = Some n" "made n payload bytes"
      "string_at [''data'', ''signature''] body' = Inr (''vault:v'' @ digits n @ '':'' @ to_base64 bytes)"
    unfolding documented_signatures_def by blast
  with r(3) have "body' = body" by simp
  with answer read read_signature_documented[OF assms(2,3) answer(2,3), of cfg] that[OF answer(4,5,3)] show thesis by simp
qed

section \<open>Secrets\<close>

text \<open>What AES-GCM documents: opening what was sealed, with the same key and vector, gives the plaintext back, and the
  cipher text is as long as the plaintext.\<close>

definition opens_sealed :: "gcm \<Rightarrow> bool" where
  "opens_sealed cipher \<longleftrightarrow> (\<forall>key iv plaintext ciphertext tag. gcm_seal cipher key iv plaintext = (ciphertext, tag) \<longrightarrow>
     gcm_open cipher key iv tag ciphertext = Inr plaintext \<and> length ciphertext = length plaintext \<and> tag \<noteq> [])"

lemma software_decrypt_encrypt:
  assumes "opens_sealed cipher" "iv \<noteq> []"
  shows "software_decrypt cipher key (software_encrypt cipher key iv plaintext) =
    (if plaintext = [] then Inl (Error ''malformed software-encrypted secret'') else Inr plaintext)"
proof -
  obtain ciphertext tag where sealed: "gcm_seal cipher key iv plaintext = (ciphertext, tag)" by fastforce
  with assms(1) have opened: "gcm_open cipher key iv tag ciphertext = Inr plaintext" "length ciphertext = length plaintext" "tag \<noteq> []"
    unfolding opens_sealed_def by blast+
  have "split_on CHR '':'' (to_base64url iv @ CHR '':'' # to_base64url tag @ CHR '':'' # to_base64url ciphertext) =
      [to_base64url iv, to_base64url tag, to_base64url ciphertext]"
    by (simp add: split_on_append_sep base64_no_colon split_on_absent)
  then have "split_on CHR '':'' (software_encrypt cipher key iv plaintext) =
      [''sw'', ''v1'', to_base64url iv, to_base64url tag, to_base64url ciphertext]"
    by (simp add: software_encrypt_def software_prefix_def sealed)
  moreover have "ciphertext = [] \<longleftrightarrow> plaintext = []" using opened(2) by (metis length_0_conv)
  ultimately show ?thesis using opened(1,3) assms(2) by (simp add: software_decrypt_def software_prefix_def)
qed

section \<open>Samples\<close>

text \<open>A transit engine: its state is the latest version and the minimum; it signs with one byte.\<close>

definition sample_vault_config :: vault_config where
  "sample_vault_config = \<lparr>vf_addr = ''http://vault/'', vf_token = ''t'', vf_key_name = ''k-1''\<rparr>"

definition vault_answered :: "json \<Rightarrow> vault_response throws" where
  "vault_answered v = Inr \<lparr>va_status = 200, va_text = JsonText v\<rparr>"

definition refused :: "vault_response throws" where
  "refused = Inr \<lparr>va_status = 400, va_text = EmptyText\<rparr>"

definition sample_transit_path :: "string \<Rightarrow> vault_request \<Rightarrow> bool" where
  "sample_transit_path path request \<longleftrightarrow> vq_method request = ''POST'' \<and> vq_url request = ''http://vault/v1/'' @ path"

definition sample_signing_version :: "nat \<Rightarrow> json option \<Rightarrow> nat option" where
  "sample_signing_version latest body =
     (case body of
        Some (JObject [_, (_, JNumber v)]) \<Rightarrow> if nat v < 2 ^ 53 then Some (nat v) else None
      | _ \<Rightarrow> if latest < 2 ^ 53 then Some latest else None)"

definition sample_transit :: "(nat \<times> nat) vault" where
  "sample_transit request st = (case st of (latest, minimum) \<Rightarrow>
     if sample_transit_path ''transit/sign/k-1'' request then
       (case sample_signing_version latest (vq_body request) of
          None \<Rightarrow> (refused, st)
        | Some v \<Rightarrow> (vault_answered (JObject [(''data'', JObject [(''signature'', JString (''vault:v'' @ digits v @ '':'' @ to_base64 [42]))])]), st))
     else if sample_transit_path ''transit/verify/k-1'' request then (vault_answered (JObject [(''data'', JObject [(''valid'', JBool True)])]), st)
     else if sample_transit_path ''transit/keys/k-1/rotate'' request then (vault_answered (JObject []), (latest + 1, min minimum latest))
     else if sample_transit_path ''transit/keys/k-1/config'' request then
       (case vq_body request of
          Some (JObject [(_, JNumber n)]) \<Rightarrow>
            if nat n \<le> latest then (vault_answered (JObject []), (latest, max (nat n) (min minimum latest))) else (refused, st)
        | _ \<Rightarrow> (refused, st))
     else (vault_answered (JObject []), st))"

lemma sample_send:
  "vault_send sample_transit sample_vault_config method path body =
     sample_transit \<lparr>vq_method = method, vq_url = ''http://vault/v1/'' @ path, vq_token = ''t'', vq_body = body\<rparr>"
  by (simp add: vault_send_def sample_vault_config_def without_slashes_def)

lemma sample_signatures: "documented_signatures sample_transit sample_vault_config (\<lambda>n payload signature. signature = [42])"
  unfolding documented_signatures_def sample_send
  by (auto simp: sample_transit_def sample_transit_path_def sample_vault_config_def sample_signing_version_def sign_body_def vault_answered_def
      refused_def is_success_def string_at_def js_property_def split: prod.splits option.splits if_splits)

definition sample_cipher :: gcm where
  "sample_cipher = \<lparr>gcm_seal = \<lambda>key iv plaintext. (rev plaintext, [7]), gcm_open = \<lambda>key iv tag ciphertext. Inr (rev ciphertext)\<rparr>"

section \<open>Properties\<close>

text \<open>C38: what the transit signer signs, it verifies: a signature it returns names in its key identifier the version that made it,
  the one asked for if one was, and a later verification of it, whatever happened in between and from a fresh client, answers
  yes whenever Vault answers it. The version survives its way through the identifier, also for key names with hyphens and
  digits, and the signature its way between the two base64 alphabets.\<close>
theorem vault_signatures_verify:
  assumes "documented_signatures vault cfg made" "writes_numerals p" "reads_numerals (platform.truncate p)"
    and "vault_sign p vault cfg payload asked_version cl = (Inr signature, cl')"
    and "vault_verify vault cfg payload signature later = (Inr answer, later')"
  shows "answer = True \<and> (\<exists>n. sig_kid signature = vault_kid (vf_key_name cfg) n \<and> (asked_version = None \<or> asked_version = Some n))"
proof -
  from vault_sign_okD[OF assms(1-4)] obtain n bytes where n: "asked_version = None \<or> asked_version = Some n" "made n payload bytes"
    "signature = \<lparr>sig_kid = vault_kid (vf_key_name cfg) n, sig_value = to_base64url bytes, sig_alg = ''EdDSA''\<rparr>" by blast
  let ?body = "Some (verify_body payload (''vault:v'' @ digits n @ '':'' @ to_base64 bytes))"
  from assms(5) obtain v s where
    call: "vault_call vault cfg ''POST'' (''transit/verify/'' @ vf_key_name cfg) ?body (vl_server later) = (Inr v, s)"
    and valid: "\<exists>w. js_path [''data'', ''valid''] v = Inr w \<and> answer = (w = JBool True)"
    unfolding vault_verify_def n(3) by (auto simp: on_server_def split: prod.splits sum.splits)
  from vault_call_okD[OF call] obtain r where
    r: "vault_send vault cfg ''POST'' (''transit/verify/'' @ vf_key_name cfg) ?body (vl_server later) = (Inr r, s)"
      "is_success (va_status r)" "va_text r = JsonText v \<or> va_text r = EmptyText \<and> v = JObject []" .
  from assms(1) n(2) r(1,2) have "\<exists>body. va_text r = JsonText body \<and> js_path [''data'', ''valid''] body = Inr (JBool True)"
    unfolding documented_signatures_def by blast
  with r(3) valid n(1,3) show ?thesis by auto
qed

definition sample_tagged :: tagged_signature where
  "sample_tagged = \<lparr>sig_kid = ''k-1-7'', sig_value = to_base64url [42], sig_alg = ''EdDSA''\<rparr>"

lemma sample_sign:
  "vault_sign plain_text_platform sample_transit sample_vault_config [1] (Some 7) \<lparr>vl_server = (7, 1), vl_ready = True\<rparr> =
     (Inr sample_tagged, \<lparr>vl_server = (7, 1), vl_ready = True\<rparr>)"
proof -
  have read: "read_signature plain_text_platform sample_vault_config (''vault:v'' @ digits 7 @ '':'' @ to_base64 [42]) = Inr sample_tagged"
    using read_signature_documented[OF plain_text_platform_writes plain_text_platform_reads, of 7 "[42]" sample_vault_config]
    by (simp add: sample_tagged_def sample_vault_config_def vault_kid_def digits.simps digit_char_def)
  have "vault_call sample_transit sample_vault_config ''POST'' ''transit/sign/k-1'' (Some (sign_body [1] (Some 7))) (7, 1) =
      (Inr (JObject [(''data'', JObject [(''signature'', JString (''vault:v'' @ digits 7 @ '':'' @ to_base64 [42]))])]), (7, 1))"
    unfolding vault_call_def sample_send
    by (simp add: sample_transit_def sample_transit_path_def sample_signing_version_def sign_body_def vault_answered_def is_success_def)
  then show ?thesis
    unfolding vault_sign_def using read
    by (simp add: with_key_def ensure_key_def on_server_def string_at_def js_property_def sample_vault_config_def)
qed

lemma sample_verify:
  "vault_verify sample_transit sample_vault_config [1] sample_tagged \<lparr>vl_server = (9, 8), vl_ready = False\<rparr> =
     (Inr True, \<lparr>vl_server = (9, 8), vl_ready = False\<rparr>)"
proof -
  have "kid_version (sig_kid sample_tagged) = Some ''7''" by (simp add: sample_tagged_def kid_version_def is_digit_def)
  moreover have "vault_call sample_transit sample_vault_config ''POST'' ''transit/verify/k-1'' (Some body) (9, 8) =
      (Inr (JObject [(''data'', JObject [(''valid'', JBool True)])]), (9, 8))" for body
    unfolding vault_call_def sample_send
    by (simp add: sample_transit_def sample_transit_path_def vault_answered_def is_success_def)
  ultimately show ?thesis
    by (simp add: vault_verify_def on_server_def js_property_def sample_vault_config_def sample_tagged_def)
qed

theorem vault_signatures_verify_witness: "\<exists>n. ''k-1-7'' = vault_kid ''k-1'' n \<and> Some 7 = Some n"
  using vault_signatures_verify[OF sample_signatures plain_text_platform_writes plain_text_platform_reads sample_sign sample_verify]
  by (simp add: sample_tagged_def sample_vault_config_def)

text \<open>The software encryptor gives back every secret but the empty one, which it encrypts to a text it then rejects as
  malformed.\<close>
theorem software_secrets_round_trip:
  assumes "opens_sealed cipher" "iv \<noteq> []"
  shows "software_decrypt cipher key (software_encrypt cipher key iv plaintext) =
    (if plaintext = [] then Inl (Error ''malformed software-encrypted secret'') else Inr plaintext)"
  by (rule software_decrypt_encrypt[OF assms])

theorem software_secrets_round_trip_witness:
  "software_decrypt sample_cipher [0] (software_encrypt sample_cipher [0] [3] [1, 2]) = Inr [1, 2]"
  by (subst software_secrets_round_trip) (simp_all add: opens_sealed_def sample_cipher_def)

end
