(* ===== verification/Sdk.thy ===== *)
theory Sdk
  imports EndpointSafety Buffers
begin

text \<open>
  The client library of the service (packages/sdk): \<open>createClient\<close>, which asks \<open>POST /authz/check\<close>, and
  \<open>AccessCorePermissionGuard\<close>, which another service puts in front of its own endpoints. \<open>fetch\<close> is a parameter that
  may act on a state; instantiated with the model of the service it gives the whole path from a request at that other service to
  the tuples and policies.
\<close>

section \<open>The client\<close>

definition pdp_unavailable :: string where
  "pdp_unavailable = ''pdp_unavailable''"

definition unauthenticated :: string where
  "unauthenticated = ''unauthenticated''"

record check_options =
  co_token :: string
  co_consistency :: "string option"

text \<open>What \<open>fetch\<close> gives: a failure or a timeout, or a status and the body, None where it is not JSON.\<close>

datatype fetched = NoResponse | Response nat "json option"

record fetch_request =
  fr_url :: string
  fr_authorization :: string
  fr_body :: check_dto

definition denial :: "string \<Rightarrow> string \<Rightarrow> json" where
  "denial code message = JObject [(''effect'', JString ''deny''),
     (''reasons'', JArray [JObject [(''code'', JString code), (''message'', JString message)]])]"

definition check_url :: "string \<Rightarrow> string" where
  "check_url base_url = without_slashes base_url @ ''/authz/check''"

definition client_check :: "string \<Rightarrow> (fetch_request \<Rightarrow> 's \<Rightarrow> fetched \<times> 's) \<Rightarrow> string \<Rightarrow> entity_ref \<Rightarrow> check_options \<Rightarrow> 's \<Rightarrow>
    json \<times> 's" where
  "client_check base_url fetch action resource options st =
     (let (response, st') = fetch \<lparr>fr_url = check_url base_url, fr_authorization = bearer @ co_token options,
            fr_body = \<lparr>cd_action = action, cd_resource = resource, cd_token = co_consistency options\<rparr>\<rparr> st in
      (case response of
         NoResponse \<Rightarrow> denial pdp_unavailable ''AccessCore did not respond.''
       | Response status payload \<Rightarrow>
           if status = 401 then denial unauthenticated ''The forwarded access token was rejected.''
           else if \<not> (200 \<le> status \<and> status \<le> 299)
           then denial pdp_unavailable (''AccessCore returned status '' @ digits status @ ''.'')
           else (case payload of
             None \<Rightarrow> denial pdp_unavailable ''AccessCore returned an unparseable response.''
           | Some v \<Rightarrow>
               (case js_property ''effect'' v of
                  Inl _ \<Rightarrow> denial pdp_unavailable ''AccessCore returned an unparseable response.''
                | Inr effect \<Rightarrow>
                    if effect \<noteq> JString ''permit'' \<and> effect \<noteq> JString ''deny''
                    then denial pdp_unavailable ''AccessCore returned an unrecognized decision.''
                    else v)), st'))"

section \<open>The guard\<close>

datatype header_value = OneHeader string | ManyHeaders "string list"

record pep_request =
  pep_authorization :: "header_value option"
  pep_params :: "string \<Rightarrow> string option"

record sdk_permission =
  sp_action :: string
  sp_resource :: "pep_request \<Rightarrow> entity_ref"
  sp_consistency :: "(pep_request \<Rightarrow> string option) option"

definition resource_from_param :: "string \<Rightarrow> string \<Rightarrow> pep_request \<Rightarrow> entity_ref" where
  "resource_from_param t param request = \<lparr>ref_type = t, ref_id = (case pep_params request param of Some v \<Rightarrow> v | None \<Rightarrow> [])\<rparr>"

definition sdk_bearer :: "header_value option \<Rightarrow> string option" where
  "sdk_bearer header =
     (let value = (case header of None \<Rightarrow> [] | Some (OneHeader v) \<Rightarrow> v | Some (ManyHeaders vs) \<Rightarrow> (case vs of [] \<Rightarrow> [] | v # _ \<Rightarrow> v)) in
      if value = [] \<or> \<not> starts_with bearer value then None else Some (js_trim (drop (length bearer) value)))"

text \<open>\<open>decision.reasons[0]?.code\<close>; the reasons are whatever the service sent.\<close>

definition first_code :: "json \<Rightarrow> json throws" where
  "first_code decision =
     (case js_property ''reasons'' decision of
        Inl e \<Rightarrow> Inl e
      | Inr reasons \<Rightarrow>
          (case (case reasons of
                   JNull \<Rightarrow> Inl (Error ''TypeError'')
                 | JUndefined \<Rightarrow> Inl (Error ''TypeError'')
                 | JArray vs \<Rightarrow> Inr (case vs of [] \<Rightarrow> JUndefined | v # _ \<Rightarrow> v)
                 | JObject es \<Rightarrow> Inr (case map_of es ''0'' of Some v \<Rightarrow> v | None \<Rightarrow> JUndefined)
                 | _ \<Rightarrow> Inr JUndefined) of
             Inl e \<Rightarrow> Inl e
           | Inr first \<Rightarrow> if first \<in> {JNull, JUndefined} then Inr JUndefined else js_property ''code'' first))"

datatype guard_answer = Pass | Refuse nat | Crash js_error

definition sdk_guard :: "string \<Rightarrow> (fetch_request \<Rightarrow> 's \<Rightarrow> fetched \<times> 's) \<Rightarrow> sdk_permission option \<Rightarrow> pep_request \<Rightarrow> 's \<Rightarrow>
    guard_answer \<times> 's" where
  "sdk_guard base_url fetch required request st =
     (case required of
        None \<Rightarrow> (Pass, st)
      | Some rp \<Rightarrow>
          (case sdk_bearer (pep_authorization request) of
             None \<Rightarrow> (Refuse 401, st)
           | Some token \<Rightarrow>
               if token = [] then (Refuse 401, st)
               else let (decision, st') = client_check base_url fetch (sp_action rp) (sp_resource rp request)
                      \<lparr>co_token = token, co_consistency = Option.bind (sp_consistency rp) (\<lambda>f. f request)\<rparr> st in
                 (case js_property ''effect'' decision of
                    Inl e \<Rightarrow> Crash e
                  | Inr effect \<Rightarrow>
                      if effect = JString ''permit'' then Pass
                      else (case first_code decision of
                        Inl e \<Rightarrow> Crash e
                      | Inr code \<Rightarrow>
                          if code = JString unauthenticated then Refuse 401
                          else if code = JString pdp_unavailable then Refuse 503
                          else Refuse 403), st')))"

section \<open>The service behind the client\<close>

definition effect_name :: "effect \<Rightarrow> string" where
  "effect_name e = (case e of Permit \<Rightarrow> ''permit'' | Deny \<Rightarrow> ''deny'')"

definition response_json :: "check_response \<Rightarrow> json" where
  "response_json r = JObject [(''effect'', JString (effect_name (cr_effect r))),
     (''reasons'', JArray (map (\<lambda>(code, message). JObject [(''code'', JString code), (''message'', JString message)]) (cr_reasons r)))]"

text \<open>\<open>ProblemDetailsFilter\<close>\<close>

definition problem_json :: "problem \<Rightarrow> json" where
  "problem_json pb = JObject ([(''type'', JString ''about:blank''), (''title'', JString (pb_title pb)), (''status'', JNumber (int (pb_status pb)))] @
     (case pb_detail pb of Some d \<Rightarrow> [(''detail'', JString d)] | None \<Rightarrow> []))"

definition http_response :: "(check_response, problem) result throws \<Rightarrow> fetched" where
  "http_response answer =
     (case answer of
        Inl _ \<Rightarrow> Response 500 (Some (JObject [(''statusCode'', JNumber 500)]))
      | Inr (Inl pb) \<Rightarrow> Response (pb_status pb) (Some (problem_json pb))
      | Inr (Inr r) \<Rightarrow> Response 200 (Some (response_json r)))"

text \<open>\<open>entry\<close> is the access-token guard and \<open>answer\<close> the check endpoint.\<close>

definition served :: "(string option \<Rightarrow> (auth_token_claims, problem) result throws) \<Rightarrow>
    (auth_token_claims \<Rightarrow> check_dto option \<Rightarrow> 's \<Rightarrow> (check_response, problem) result \<times> 's) \<Rightarrow> fetch_request \<Rightarrow> 's \<Rightarrow> fetched \<times> 's" where
  "served entry endpoint request st =
     (let (answer, st') = authenticated (entry (Some (fr_authorization request))) (\<lambda>claims. endpoint claims (Some (fr_body request))) st in
      (http_response answer, st'))"

section \<open>What passes\<close>

lemma effect_of_denial [simp]: "js_property ''effect'' (denial code message) = Inr (JString ''deny'')"
  by (simp add: denial_def js_property_def)

lemma client_permits:
  assumes "client_check base_url fetch action resource options st = (decision, st')" "js_property ''effect'' decision = Inr (JString ''permit'')"
  shows "\<exists>status. fetch \<lparr>fr_url = check_url base_url, fr_authorization = bearer @ co_token options,
      fr_body = \<lparr>cd_action = action, cd_resource = resource, cd_token = co_consistency options\<rparr>\<rparr> st = (Response status (Some decision), st') \<and>
    200 \<le> status \<and> status \<le> 299"
  using assms by (auto simp: client_check_def Let_def split: prod.splits fetched.splits option.splits sum.splits if_splits)

lemma sdk_passes:
  assumes "sdk_guard base_url fetch (Some rp) request st = (Pass, st')"
  shows "\<exists>token decision status. sdk_bearer (pep_authorization request) = Some token \<and> token \<noteq> [] \<and>
    fetch \<lparr>fr_url = check_url base_url, fr_authorization = bearer @ token, fr_body = \<lparr>cd_action = sp_action rp,
      cd_resource = sp_resource rp request, cd_token = Option.bind (sp_consistency rp) (\<lambda>f. f request)\<rparr>\<rparr> st =
      (Response status (Some decision), st') \<and> 200 \<le> status \<and> status \<le> 299 \<and> js_property ''effect'' decision = Inr (JString ''permit'')"
proof -
  obtain token where token: "sdk_bearer (pep_authorization request) = Some token" "token \<noteq> []"
    using assms by (auto simp: sdk_guard_def split: option.splits if_splits)
  obtain decision where c: "client_check base_url fetch (sp_action rp) (sp_resource rp request)
      \<lparr>co_token = token, co_consistency = Option.bind (sp_consistency rp) (\<lambda>f. f request)\<rparr> st = (decision, st')"
    and permit: "js_property ''effect'' decision = Inr (JString ''permit'')"
    using assms token by (auto simp: sdk_guard_def Let_def split: prod.splits sum.splits if_splits)
  from client_permits[OF c permit] token permit show ?thesis by auto
qed

lemma served_permit:
  assumes "served entry endpoint request st = (Response status (Some decision), st')"
    and "js_property ''effect'' decision = Inr (JString ''permit'')"
  shows "\<exists>r. authenticated (entry (Some (fr_authorization request))) (\<lambda>claims. endpoint claims (Some (fr_body request))) st = (Inr (ok r), st') \<and>
    cr_effect r = Permit"
  using assms
  by (auto simp: served_def http_response_def response_json_def problem_json_def js_property_def effect_name_def Let_def
      split: prod.splits sum.splits effect.splits option.splits)

section \<open>Properties\<close>


definition read_permission :: sdk_permission where
  "read_permission = \<lparr>sp_action = ''doc.read'', sp_resource = resource_from_param ''doc'' ''id'', sp_consistency = None\<rparr>"

definition sample_pep :: pep_request where
  "sample_pep = \<lparr>pep_authorization = Some (OneHeader (bearer @ sample_token)), pep_params = [''id'' \<mapsto> ''a'']\<rparr>"

lemma sample_passes:
  "fst (sdk_guard ''https://auth/'' (served (\<lambda>header. fst (access_token_guard owner_jwt sample_vc_config sample_keys 60000 header None True empty_authn))
     (\<lambda>claims body. check_endpoint plain_platform sample_pdp ''r1'' 0 claims body ''10.0.0.1'')) (Some read_permission) sample_pep
     (Map.empty, open_log hiding_db)) = Pass"
proof -
  have token: "sdk_bearer (pep_authorization sample_pep) = Some sample_token" "sample_token \<noteq> []" by code_simp+
  have body: "\<lparr>cd_action = sp_action read_permission, cd_resource = sp_resource read_permission sample_pep,
      cd_token = Option.bind (sp_consistency read_permission) (\<lambda>f. f sample_pep)\<rparr> = sample_check" by code_simp
  obtain r state' where run: "authenticated (Inr (ok owner_claims)) (\<lambda>claims. check_endpoint plain_platform sample_pdp ''r1'' 0 claims
      (Some sample_check) ''10.0.0.1'') (Map.empty, open_log hiding_db) = (Inr (ok r), state')" "cr_effect r = Permit"
    by (rule sample_permit_run)
  have "js_property ''effect'' (response_json r) = Inr (JString ''permit'')"
    by (simp add: response_json_def js_property_def effect_name_def run(2))
  then show ?thesis
    by (simp add: sdk_guard_def token client_check_def served_def owner_entry body run(1) http_response_def)
qed


end
