(* ===== verification/Bff.thy ===== *)
theory Bff
  imports Guards Buffers Totp
begin

text \<open>
  The server side of the console (apps/console): the routes under app/api that stand between the browser and the service,
  with lib/accesscore.ts, lib/bff.ts, lib/identity.ts and lib/server-directory.ts, the redirects of the pages, and the
  browser's lib/client.ts. The service behind them is the argument \<open>upstream\<close>, which may act on a state. A cookie of the
  browser is a value and the time until which it is kept.
\<close>

section \<open>The call to the service\<close>

definition ac_token_cookie :: string where
  "ac_token_cookie = ''ac_token''"

definition ac_user_cookie :: string where
  "ac_user_cookie = ''ac_user''"

definition ac_token_max_age :: int where
  "ac_token_max_age = 15 * 60"

record upstream_request =
  ur_path :: string
  ur_method :: string
  ur_headers :: "(string \<times> string) list"
  ur_body :: "json option"

text \<open>The text of an answer: empty, JSON, or another text.\<close>

datatype upstream_text = BodyEmpty | BodyJson json | BodyRaw string

type_synonym 's upstream = "upstream_request \<Rightarrow> 's \<Rightarrow> (nat \<times> upstream_text) throws \<times> 's"

record visitor =
  vis_forwarded :: "string option"
  vis_agent :: "string option"

text \<open>\<open>split(',').at(-1)?.trim()\<close>: the address the nearest proxy saw.\<close>

definition visitor_address :: "visitor \<Rightarrow> string" where
  "visitor_address v = (case vis_forwarded v of None \<Rightarrow> [] | Some s \<Rightarrow> js_trim (last (split_on CHR '','' s)))"

definition visitor_headers :: "visitor \<Rightarrow> (string \<times> string) list" where
  "visitor_headers v =
     (if visitor_address v = [] then [] else [(''x-forwarded-for'', visitor_address v)]) @
     (case vis_agent v of None \<Rightarrow> [] | Some agent \<Rightarrow> if agent = [] then [] else [(''user-agent'', agent)])"

definition upstream_body :: "upstream_text \<Rightarrow> json" where
  "upstream_body t =
     (case t of
        BodyEmpty \<Rightarrow> JNull
      | BodyJson v \<Rightarrow> v
      | BodyRaw raw \<Rightarrow> JObject [(''message'', JString raw)])"

definition call_access_core :: "'s upstream \<Rightarrow> visitor \<Rightarrow> string \<Rightarrow> string \<Rightarrow> string option \<Rightarrow> json option \<Rightarrow> 's \<Rightarrow>
    (nat \<times> json) throws \<times> 's" where
  "call_access_core upstream v path meth token body st =
     (case upstream \<lparr>ur_path = path, ur_method = meth,
          ur_headers = visitor_headers v @ [(''content-type'', ''application/json'')] @
            (case token of None \<Rightarrow> [] | Some t \<Rightarrow> if t = [] then [] else [(''authorization'', bearer @ t)]),
          ur_body = body\<rparr> st of
        (answer, st') \<Rightarrow> (map_sum id (\<lambda>(status, text). (status, upstream_body text)) answer, st'))"

section \<open>Responses and cookies\<close>

record set_cookie =
  sc_name :: string
  sc_value :: string
  sc_max_age :: int

record bff_response =
  br_status :: nat
  br_body :: json
  br_cookies :: "set_cookie list"

text \<open>\<open>NextResponse.json\<close> refuses a status outside of 200 to 599 and one that may not have a body.\<close>

definition next_json :: "json \<Rightarrow> nat \<Rightarrow> bff_response throws" where
  "next_json v status =
     (if status < 200 \<or> 599 < status then Inl (Error ''RangeError'')
      else if status \<in> {204, 205, 304} then Inl (Error ''TypeError'')
      else Inr \<lparr>br_status = status, br_body = v, br_cookies = []\<rparr>)"

definition bff_answer :: "nat \<Rightarrow> string \<Rightarrow> bff_response" where
  "bff_answer status code = \<lparr>br_status = status, br_body = JObject [(''error'', JString code)], br_cookies = []\<rparr>"

definition not_authenticated :: bff_response where
  "not_authenticated = bff_answer 401 ''not_authenticated''"

definition service_unavailable :: bff_response where
  "service_unavailable = bff_answer 503 ''service_unavailable''"

type_synonym jar = "string \<Rightarrow> (string \<times> date) option"

text \<open>\<open>store.get(name)?.value\<close> where the empty string counts as none.\<close>

definition read_cookie :: "date \<Rightarrow> string \<Rightarrow> jar \<Rightarrow> string option" where
  "read_cookie now name jar =
     (case jar name of
        Some (v, expires) \<Rightarrow> if now < expires \<and> v \<noteq> [] then Some v else None
      | None \<Rightarrow> None)"

definition store_cookie :: "date \<Rightarrow> set_cookie \<Rightarrow> jar \<Rightarrow> jar" where
  "store_cookie now c jar = jar(sc_name c := (if sc_max_age c \<le> 0 then None else Some (sc_value c, now + sc_max_age c * 1000)))"

definition browser_jar :: "date \<Rightarrow> bff_response throws \<Rightarrow> jar \<Rightarrow> jar" where
  "browser_jar now answer jar = (case answer of Inl _ \<Rightarrow> jar | Inr r \<Rightarrow> fold (store_cookie now) (br_cookies r) jar)"

section \<open>The routes\<close>

definition or_empty :: "json \<Rightarrow> json" where
  "or_empty v = (case v of JNull \<Rightarrow> JObject [] | JUndefined \<Rightarrow> JObject [] | _ \<Rightarrow> v)"

definition relayed :: "(nat \<times> json) throws \<Rightarrow> bff_response" where
  "relayed answer =
     (case answer of
        Inl _ \<Rightarrow> service_unavailable
      | Inr (status, v) \<Rightarrow> (case next_json (or_empty v) status of Inl _ \<Rightarrow> service_unavailable | Inr r \<Rightarrow> r))"

text \<open>\<open>body\<close> is None where the request has no JSON.\<close>

definition proxy_authorized :: "'s upstream \<Rightarrow> string option \<Rightarrow> visitor \<Rightarrow> json option \<Rightarrow> string \<Rightarrow> string \<Rightarrow> 's \<Rightarrow> bff_response \<times> 's" where
  "proxy_authorized upstream token v body path meth st =
     (case token of
        None \<Rightarrow> (not_authenticated, st)
      | Some t \<Rightarrow> apfst relayed (call_access_core upstream v path meth (Some t)
          (Some (case body of None \<Rightarrow> JObject [] | Some b \<Rightarrow> b)) st))"

definition proxy_get :: "'s upstream \<Rightarrow> string option \<Rightarrow> visitor \<Rightarrow> string \<Rightarrow> 's \<Rightarrow> bff_response \<times> 's" where
  "proxy_get upstream token v path st =
     (case token of
        None \<Rightarrow> (not_authenticated, st)
      | Some t \<Rightarrow> apfst relayed (call_access_core upstream v path ''GET'' (Some t) None st))"

text \<open>\<open>Math.max(1, Math.min(expiresIn, AC_TOKEN_MAX_AGE_SECONDS))\<close>\<close>

definition cookie_age :: "json \<Rightarrow> int" where
  "cookie_age expires_in = max 1 (min (case expires_in of JNumber n \<Rightarrow> n | _ \<Rightarrow> ac_token_max_age) ac_token_max_age)"

definition text_or_empty :: "json \<Rightarrow> string" where
  "text_or_empty v = (case v of JString s \<Rightarrow> s | _ \<Rightarrow> [])"

definition login_reply :: "string \<Rightarrow> json \<Rightarrow> bff_response throws" where
  "login_reply email data =
     (case (js_property ''access_token'' data, js_property ''expires_in'' data) of
        (Inr (JString token), Inr expires) \<Rightarrow> Inr \<lparr>br_status = 200, br_body = JObject [(''ok'', JBool True)],
          br_cookies = [\<lparr>sc_name = ac_token_cookie, sc_value = token, sc_max_age = cookie_age expires\<rparr>,
            \<lparr>sc_name = ac_user_cookie, sc_value = email, sc_max_age = cookie_age expires\<rparr>]\<rparr>
      | (Inr _, _) \<Rightarrow> Inr (bff_answer 502 ''Unexpected response from authorization service.'')
      | (Inl e, _) \<Rightarrow> Inl e)"

definition login_route :: "'s upstream \<Rightarrow> visitor \<Rightarrow> json option \<Rightarrow> 's \<Rightarrow> bff_response throws \<times> 's" where
  "login_route upstream v body st =
     (case body of
        None \<Rightarrow> (Inr (bff_answer 400 ''invalid_request''), st)
      | Some payload \<Rightarrow>
          (case (js_property ''email'' payload, js_property ''password'' payload) of
             (Inr e, Inr pw) \<Rightarrow>
               (let email = text_or_empty e; password = text_or_empty pw in
                if email = [] \<or> password = [] then (Inr (bff_answer 400 ''Email and password are required.''), st)
                else case call_access_core upstream v ''/auth/login'' ''POST'' None
                    (Some (JObject [(''email'', JString email), (''password'', JString password)])) st of
                  (Inl _, st') \<Rightarrow> (Inr service_unavailable, st')
                | (Inr (status, data), st') \<Rightarrow>
                    (if status \<noteq> 200 then Inr (bff_answer 401 ''Invalid credentials.'') else login_reply email data, st'))
           | (Inl e, _) \<Rightarrow> (Inl e, st)
           | (_, Inl e) \<Rightarrow> (Inl e, st)))"

definition cleared :: "string \<Rightarrow> set_cookie" where
  "cleared name = \<lparr>sc_name = name, sc_value = [], sc_max_age = 0\<rparr>"

definition logout_route :: "'s upstream \<Rightarrow> string option \<Rightarrow> visitor \<Rightarrow> 's \<Rightarrow> bff_response \<times> 's" where
  "logout_route upstream token v st =
     (\<lparr>br_status = 200, br_body = JObject [(''ok'', JBool True)], br_cookies = [cleared ac_token_cookie, cleared ac_user_cookie]\<rparr>,
      case token of
        None \<Rightarrow> st
      | Some t \<Rightarrow> snd (call_access_core upstream v ''/auth/logout'' ''POST'' (Some t) None st))"

text \<open>A status of 200 with a token in the body replaces the session's cookie; the body \<open>null\<close> has no property to read.\<close>

definition step_up_answer :: "nat \<Rightarrow> json \<Rightarrow> bff_response throws" where
  "step_up_answer status data =
     (case next_json (or_empty data) status of
        Inl e \<Rightarrow> Inl e
      | Inr r \<Rightarrow>
          if status \<noteq> 200 then Inr r
          else (case (js_property ''access_token'' data, js_property ''expires_in'' data) of
             (Inl e, _) \<Rightarrow> Inl e
           | (Inr (JString token), Inr expires) \<Rightarrow>
               Inr (r\<lparr>br_cookies := [\<lparr>sc_name = ac_token_cookie, sc_value = token, sc_max_age = cookie_age expires\<rparr>]\<rparr>)
           | _ \<Rightarrow> Inr r))"

definition step_up_route :: "'s upstream \<Rightarrow> string option \<Rightarrow> visitor \<Rightarrow> json option \<Rightarrow> 's \<Rightarrow> bff_response throws \<times> 's" where
  "step_up_route upstream token v body st =
     (case token of
        None \<Rightarrow> (Inr not_authenticated, st)
      | Some t \<Rightarrow>
          (case call_access_core upstream v ''/auth/mfa/step-up'' ''POST'' (Some t)
              (Some (case body of None \<Rightarrow> JObject [] | Some b \<Rightarrow> b)) st of
             (Inl _, st') \<Rightarrow> (Inr service_unavailable, st')
           | (Inr (status, data), st') \<Rightarrow> (step_up_answer status data, st')))"

datatype bff_request =
    PostLogin "json option" | PostLogout | PostStepUp "json option"
  | PostCheck "json option" | PostCheckAs "json option" | PostExpand "json option" | PostSimulate "json option"
  | GetNamespaces | GetNamespace string | PutNamespace string "json option"
  | GetPolicies | PutPolicy string "json option" | RemovePolicy string "json option"
  | GetTuples string | PostTuples "json option" | RemoveTuples "json option"
  | GetAudit | GetMfaStatus | PostEnroll "json option" | PostActivate "json option" | PostRecoveryCodes "json option"
  | PostDisable "json option"

definition namespace_path :: "string \<Rightarrow> string" where
  "namespace_path namespace = ''/authz/namespaces/'' @ encode_uri_component namespace"

definition policy_path :: "string \<Rightarrow> string" where
  "policy_path i = ''/authz/policies/'' @ encode_uri_component i"

definition check_route :: "'s upstream \<Rightarrow> string option \<Rightarrow> visitor \<Rightarrow> json option \<Rightarrow> 's \<Rightarrow> bff_response \<times> 's" where
  "check_route upstream token v body st = proxy_authorized upstream token v body ''/authz/check'' ''POST'' st"

definition check_as_route :: "'s upstream \<Rightarrow> string option \<Rightarrow> visitor \<Rightarrow> json option \<Rightarrow> 's \<Rightarrow> bff_response \<times> 's" where
  "check_as_route upstream token v body st = proxy_authorized upstream token v body ''/authz/check-as'' ''POST'' st"

definition expand_route :: "'s upstream \<Rightarrow> string option \<Rightarrow> visitor \<Rightarrow> json option \<Rightarrow> 's \<Rightarrow> bff_response \<times> 's" where
  "expand_route upstream token v body st = proxy_authorized upstream token v body ''/authz/expand'' ''POST'' st"

definition simulate_route :: "'s upstream \<Rightarrow> string option \<Rightarrow> visitor \<Rightarrow> json option \<Rightarrow> 's \<Rightarrow> bff_response \<times> 's" where
  "simulate_route upstream token v body st = proxy_authorized upstream token v body ''/authz/simulate'' ''POST'' st"

definition namespaces_route :: "'s upstream \<Rightarrow> string option \<Rightarrow> visitor \<Rightarrow>  's \<Rightarrow> bff_response \<times> 's" where
  "namespaces_route upstream token v st = proxy_get upstream token v ''/authz/namespaces'' st"

definition namespace_get_route :: "'s upstream \<Rightarrow> string option \<Rightarrow> visitor \<Rightarrow> string \<Rightarrow> 's \<Rightarrow> bff_response \<times> 's" where
  "namespace_get_route upstream token v ns st = proxy_get upstream token v (namespace_path ns) st"

definition namespace_put_route :: "'s upstream \<Rightarrow> string option \<Rightarrow> visitor \<Rightarrow> string \<Rightarrow> json option \<Rightarrow> 's \<Rightarrow> bff_response \<times> 's" where
  "namespace_put_route upstream token v ns body st = proxy_authorized upstream token v body (namespace_path ns) ''PUT'' st"

definition policies_route :: "'s upstream \<Rightarrow> string option \<Rightarrow> visitor \<Rightarrow>  's \<Rightarrow> bff_response \<times> 's" where
  "policies_route upstream token v st = proxy_get upstream token v ''/authz/policies'' st"

definition policy_put_route :: "'s upstream \<Rightarrow> string option \<Rightarrow> visitor \<Rightarrow> string \<Rightarrow> json option \<Rightarrow> 's \<Rightarrow> bff_response \<times> 's" where
  "policy_put_route upstream token v i body st = proxy_authorized upstream token v body (policy_path i) ''PUT'' st"

definition policy_delete_route :: "'s upstream \<Rightarrow> string option \<Rightarrow> visitor \<Rightarrow> string \<Rightarrow> json option \<Rightarrow> 's \<Rightarrow> bff_response \<times> 's" where
  "policy_delete_route upstream token v i body st = proxy_authorized upstream token v body (policy_path i) ''DELETE'' st"

definition tuples_get_route :: "'s upstream \<Rightarrow> string option \<Rightarrow> visitor \<Rightarrow> string \<Rightarrow> 's \<Rightarrow> bff_response \<times> 's" where
  "tuples_get_route upstream token v search st = proxy_get upstream token v (''/authz/tuples'' @ search) st"

definition tuples_post_route :: "'s upstream \<Rightarrow> string option \<Rightarrow> visitor \<Rightarrow> json option \<Rightarrow> 's \<Rightarrow> bff_response \<times> 's" where
  "tuples_post_route upstream token v body st = proxy_authorized upstream token v body ''/authz/tuples'' ''POST'' st"

definition tuples_delete_route :: "'s upstream \<Rightarrow> string option \<Rightarrow> visitor \<Rightarrow> json option \<Rightarrow> 's \<Rightarrow> bff_response \<times> 's" where
  "tuples_delete_route upstream token v body st = proxy_authorized upstream token v body ''/authz/tuples'' ''DELETE'' st"

definition audit_route :: "'s upstream \<Rightarrow> string option \<Rightarrow> visitor \<Rightarrow>  's \<Rightarrow> bff_response \<times> 's" where
  "audit_route upstream token v st = proxy_get upstream token v ''/authz/audit/verify'' st"

definition mfa_status_route :: "'s upstream \<Rightarrow> string option \<Rightarrow> visitor \<Rightarrow>  's \<Rightarrow> bff_response \<times> 's" where
  "mfa_status_route upstream token v st = proxy_get upstream token v ''/auth/mfa/status'' st"

definition mfa_enroll_route :: "'s upstream \<Rightarrow> string option \<Rightarrow> visitor \<Rightarrow> json option \<Rightarrow> 's \<Rightarrow> bff_response \<times> 's" where
  "mfa_enroll_route upstream token v body st = proxy_authorized upstream token v body ''/auth/mfa/enroll'' ''POST'' st"

definition mfa_activate_route :: "'s upstream \<Rightarrow> string option \<Rightarrow> visitor \<Rightarrow> json option \<Rightarrow> 's \<Rightarrow> bff_response \<times> 's" where
  "mfa_activate_route upstream token v body st = proxy_authorized upstream token v body ''/auth/mfa/activate'' ''POST'' st"

definition mfa_codes_route :: "'s upstream \<Rightarrow> string option \<Rightarrow> visitor \<Rightarrow> json option \<Rightarrow> 's \<Rightarrow> bff_response \<times> 's" where
  "mfa_codes_route upstream token v body st = proxy_authorized upstream token v body ''/auth/mfa/recovery-codes'' ''POST'' st"

definition mfa_disable_route :: "'s upstream \<Rightarrow> string option \<Rightarrow> visitor \<Rightarrow> json option \<Rightarrow> 's \<Rightarrow> bff_response \<times> 's" where
  "mfa_disable_route upstream token v body st = proxy_authorized upstream token v body ''/auth/mfa/disable'' ''POST'' st"

text \<open>Next dispatches a request by its path and method.\<close>

fun bff_route :: "'s upstream \<Rightarrow> string option \<Rightarrow> visitor \<Rightarrow> bff_request \<Rightarrow> 's \<Rightarrow> bff_response throws \<times> 's" where
  "bff_route upstream token v (PostLogin body) st = login_route upstream v body st"
| "bff_route upstream token v PostLogout st = apfst Inr (logout_route upstream token v st)"
| "bff_route upstream token v (PostStepUp body) st = step_up_route upstream token v body st"
| "bff_route upstream token v (PostCheck body) st = apfst Inr (check_route upstream token v body st)"
| "bff_route upstream token v (PostCheckAs body) st = apfst Inr (check_as_route upstream token v body st)"
| "bff_route upstream token v (PostExpand body) st = apfst Inr (expand_route upstream token v body st)"
| "bff_route upstream token v (PostSimulate body) st = apfst Inr (simulate_route upstream token v body st)"
| "bff_route upstream token v GetNamespaces st = apfst Inr (namespaces_route upstream token v st)"
| "bff_route upstream token v (GetNamespace ns) st = apfst Inr (namespace_get_route upstream token v ns st)"
| "bff_route upstream token v (PutNamespace ns body) st = apfst Inr (namespace_put_route upstream token v ns body st)"
| "bff_route upstream token v GetPolicies st = apfst Inr (policies_route upstream token v st)"
| "bff_route upstream token v (PutPolicy i body) st = apfst Inr (policy_put_route upstream token v i body st)"
| "bff_route upstream token v (RemovePolicy i body) st = apfst Inr (policy_delete_route upstream token v i body st)"
| "bff_route upstream token v (GetTuples search) st = apfst Inr (tuples_get_route upstream token v search st)"
| "bff_route upstream token v (PostTuples body) st = apfst Inr (tuples_post_route upstream token v body st)"
| "bff_route upstream token v (RemoveTuples body) st = apfst Inr (tuples_delete_route upstream token v body st)"
| "bff_route upstream token v GetAudit st = apfst Inr (audit_route upstream token v st)"
| "bff_route upstream token v GetMfaStatus st = apfst Inr (mfa_status_route upstream token v st)"
| "bff_route upstream token v (PostEnroll body) st = apfst Inr (mfa_enroll_route upstream token v body st)"
| "bff_route upstream token v (PostActivate body) st = apfst Inr (mfa_activate_route upstream token v body st)"
| "bff_route upstream token v (PostRecoveryCodes body) st = apfst Inr (mfa_codes_route upstream token v body st)"
| "bff_route upstream token v (PostDisable body) st = apfst Inr (mfa_disable_route upstream token v body st)"

lemmas bff_routes = check_route_def check_as_route_def expand_route_def simulate_route_def namespaces_route_def namespace_get_route_def namespace_put_route_def policies_route_def policy_put_route_def policy_delete_route_def tuples_get_route_def tuples_post_route_def tuples_delete_route_def audit_route_def mfa_status_route_def mfa_enroll_route_def mfa_activate_route_def mfa_codes_route_def mfa_disable_route_def

section \<open>The pages\<close>

text \<open>\<open>decodeIdentity\<close>, for the decoder of the payload segment, None where it is not base64url of JSON: what the console shows,
  which decides nothing.\<close>

record identity =
  id_email :: "string option"
  id_subject :: string
  id_org :: "string option"
  id_aal :: "int option"

definition decode_claims :: "(string \<Rightarrow> json option) \<Rightarrow> string \<Rightarrow> (string \<times> json) list" where
  "decode_claims decode token =
     (case split_on CHR ''.'' token of
        _ # part # _ \<Rightarrow> if part = [] then [] else (case decode part of Some (JObject es) \<Rightarrow> es | _ \<Rightarrow> [])
      | _ \<Rightarrow> [])"

definition decode_identity :: "(string \<Rightarrow> json option) \<Rightarrow> string \<Rightarrow> string option \<Rightarrow> identity" where
  "decode_identity decode token email =
     (let claim = map_of (decode_claims decode token) in
      \<lparr>id_email = email, id_subject = (case claim ''sub'' of Some (JString s) \<Rightarrow> s | _ \<Rightarrow> ''unknown''),
       id_org = (case claim ''org'' of Some (JString s) \<Rightarrow> Some s | _ \<Rightarrow> None),
       id_aal = (case claim ''aal'' of Some (JNumber n) \<Rightarrow> Some n | _ \<Rightarrow> None)\<rparr>)"

datatype 'a directory_result = Loaded 'a | NotLoaded nat

definition server_get :: "'s upstream \<Rightarrow> string option \<Rightarrow> visitor \<Rightarrow> string \<Rightarrow> 's \<Rightarrow> json directory_result \<times> 's" where
  "server_get upstream token v path st =
     (case token of
        None \<Rightarrow> (NotLoaded 401, st)
      | Some t \<Rightarrow> apfst (\<lambda>answer. case answer of
            Inl _ \<Rightarrow> NotLoaded 503
          | Inr (status, body) \<Rightarrow> if status \<noteq> 200 then NotLoaded status else Loaded body)
          (call_access_core upstream v path ''GET'' (Some t) None st))"

definition is_unauthorized :: "'a directory_result \<Rightarrow> bool" where
  "is_unauthorized result \<longleftrightarrow> result = NotLoaded 401"

text \<open>The login page and the pages of the console that read the service. Those that read nothing (the playground and the empty
  forms of a policy and a namespace) do not redirect a browser with a cookie and are left out.\<close>

datatype page = LoginPage | ConsolePage | RelationshipsPage | PoliciesPage | SchemaPage | SecurityPage
  | EditPolicyPage string | EditNamespacePage string

datatype shown = Redirect page | Render

text \<open>What a page reads before it decides to render.\<close>

fun page_reads :: "page \<Rightarrow> string list" where
  "page_reads LoginPage = []"
| "page_reads ConsolePage = [''/authz/namespaces'', ''/authz/tuples?limit=200'', ''/authz/policies'']"
| "page_reads RelationshipsPage = [''/authz/tuples?limit=200'']"
| "page_reads PoliciesPage = [''/authz/policies'']"
| "page_reads SchemaPage = [''/authz/namespaces'']"
| "page_reads SecurityPage = [''/auth/mfa/status'', ''/authz/audit/verify'']"
| "page_reads (EditPolicyPage i) = [''/authz/policies'']"
| "page_reads (EditNamespacePage namespace) = [namespace_path namespace]"

fun read_all :: "'s upstream \<Rightarrow> string option \<Rightarrow> visitor \<Rightarrow> string list \<Rightarrow> 's \<Rightarrow> json directory_result list \<times> 's" where
  "read_all upstream token v [] st = ([], st)"
| "read_all upstream token v (path # paths) st =
     (let (r, st1) = server_get upstream token v path st; (rs, st2) = read_all upstream token v paths st1 in (r # rs, st2))"

text \<open>The login page sends a browser with a cookie to the console; a page of the console that reads the service, in the layout of
  the console, sends one without a cookie, or whose token the service refuses, to the login page.\<close>

definition show_page :: "'s upstream \<Rightarrow> string option \<Rightarrow> visitor \<Rightarrow> page \<Rightarrow> 's \<Rightarrow> shown \<times> 's" where
  "show_page upstream token v pg st =
     (if pg = LoginPage then (if token \<noteq> None then Redirect ConsolePage else Render, st)
      else if token = None then (Redirect LoginPage, st)
      else let (results, st') = read_all upstream token v (page_reads pg) st in
        (if \<exists>r \<in> set results. is_unauthorized r then Redirect LoginPage else Render, st'))"

text \<open>A browser follows at most \<open>n\<close> redirects; None when it gives up.\<close>

fun navigate :: "'s upstream \<Rightarrow> string option \<Rightarrow> visitor \<Rightarrow> nat \<Rightarrow> page \<Rightarrow> 's \<Rightarrow> page option \<times> 's" where
  "navigate upstream token v 0 pg st = (None, st)"
| "navigate upstream token v (Suc n) pg st =
     (case show_page upstream token v pg st of
        (Render, st') \<Rightarrow> (Some pg, st')
      | (Redirect target, st') \<Rightarrow> navigate upstream token v n target st')"

section \<open>The browser's client\<close>

datatype api_result = ApiOk json | ApiUnauthorized | ApiUnavailable | ApiError string

text \<open>The first of the four properties that is a text and not empty.\<close>

definition message_from :: "json \<Rightarrow> string \<Rightarrow> string" where
  "message_from body fallback =
     (case body of
        JObject es \<Rightarrow>
          (case List.map_filter (\<lambda>key. case map_of es key of Some (JString s) \<Rightarrow> if s = [] then None else Some s | _ \<Rightarrow> None)
              [''message'', ''title'', ''error'', ''detail''] of
             s # _ \<Rightarrow> s
           | [] \<Rightarrow> fallback)
      | _ \<Rightarrow> fallback)"

text \<open>The answer of \<open>fetch\<close>: None when it fails, else the status and the body, \<open>null\<close> where it is not JSON.\<close>

definition api_result_of :: "(nat \<times> json) option \<Rightarrow> api_result" where
  "api_result_of response =
     (case response of
        None \<Rightarrow> ApiUnavailable
      | Some (status, body) \<Rightarrow>
          if status = 401 then ApiUnauthorized
          else if status = 503 then ApiUnavailable
          else if \<not> (200 \<le> status \<and> status \<le> 299)
          then ApiError (message_from body (''Request failed ('' @ digits status @ '')''))
          else ApiOk body)"

text \<open>A route that throws is answered by Next with status 500 and a text.\<close>

definition client_fetch :: "bff_response throws \<Rightarrow> (nat \<times> json) option" where
  "client_fetch answer = Some (case answer of Inl _ \<Rightarrow> (500, JNull) | Inr r \<Rightarrow> (br_status r, br_body r))"

text \<open>\<open>send\<close> and \<open>get\<close> with the browser's cookies, which the answer may change.\<close>

definition browser_call :: "'s upstream \<Rightarrow> date \<Rightarrow> visitor \<Rightarrow> bff_request \<Rightarrow> jar \<times> 's \<Rightarrow> api_result \<times> (jar \<times> 's)" where
  "browser_call upstream now v request st =
     (let (answer, st') = bff_route upstream (read_cookie now ac_token_cookie (fst st)) v request (snd st) in
      (api_result_of (client_fetch answer), browser_jar now answer (fst st), st'))"

text \<open>The functions the components call and what each of them sends. The texts of a JSON value that a form built are its argument.\<close>

datatype client_call =
    Login string string | Logout | RunCheck json string json | RunCheckAs json string json "int option"
  | RunExpand json string | FetchNamespaces | FetchTuples string | WriteTupleCall json | RevokeTupleCall json
  | DefineNamespaceCall string json | WritePolicyCall string json | DeletePolicyCall string
  | FetchMfaStatus | EnrollMfa | ActivateMfa string | RegenerateRecoveryCodes | DisableMfa | StepUpMfa string
  | VerifyAudit | RunSimulate string json "json list option"

fun client_request :: "client_call \<Rightarrow> bff_request" where
  "client_request (Login email password) = PostLogin (Some (JObject [(''email'', JString email), (''password'', JString password)]))"
| "client_request Logout = PostLogout"
| "client_request (RunCheck subject action resource) =
     PostCheck (Some (JObject [(''subject'', subject), (''action'', JString action), (''resource'', resource)]))"
| "client_request (RunCheckAs subject action resource aal) =
     PostCheckAs (Some (JObject ([(''subject'', subject), (''action'', JString action), (''resource'', resource)] @
       (case aal of None \<Rightarrow> [] | Some n \<Rightarrow> [(''aal'', JNumber n)]))))"
| "client_request (RunExpand resource relation) = PostExpand (Some (JObject [(''resource'', resource), (''relation'', JString relation)]))"
| "client_request FetchNamespaces = GetNamespaces"
| "client_request (FetchTuples query) = GetTuples (if query = [] then [] else CHR ''?'' # query)"
| "client_request (WriteTupleCall input) = PostTuples (Some input)"
| "client_request (RevokeTupleCall input) = RemoveTuples (Some input)"
| "client_request (DefineNamespaceCall namespace config) = PutNamespace namespace (Some config)"
| "client_request (WritePolicyCall i config) = PutPolicy i (Some config)"
| "client_request (DeletePolicyCall i) = RemovePolicy i (Some (JObject []))"
| "client_request FetchMfaStatus = GetMfaStatus"
| "client_request EnrollMfa = PostEnroll (Some (JObject []))"
| "client_request (ActivateMfa code) = PostActivate (Some (JObject [(''code'', JString code)]))"
| "client_request RegenerateRecoveryCodes = PostRecoveryCodes (Some (JObject []))"
| "client_request DisableMfa = PostDisable (Some (JObject []))"
| "client_request (StepUpMfa code) = PostStepUp (Some (JObject [(''code'', JString code)]))"
| "client_request VerifyAudit = GetAudit"
| "client_request (RunSimulate action resource policies) =
     PostSimulate (Some (JObject ([(''action'', JString action), (''resource'', resource)] @
       (case policies of Some (q # qs) \<Rightarrow> [(''policies'', JArray (q # qs))] | _ \<Rightarrow> []))))"

definition client_run :: "'s upstream \<Rightarrow> date \<Rightarrow> visitor \<Rightarrow> client_call \<Rightarrow> jar \<times> 's \<Rightarrow> api_result \<times> (jar \<times> 's)" where
  "client_run upstream now v call st = browser_call upstream now v (client_request call) st"

end
