(* ===== verification/BffSafety.thy ===== *)
theory BffSafety
  imports Bff
begin

text \<open>
  What the console's server adds to the service and what it keeps from it: whose token and which address a request carries,
  how long the session's cookie lives, and where the redirects of the pages end.
\<close>

section \<open>What is sent\<close>

text \<open>The service with a record of the requests it received.\<close>

definition recorded :: "'s upstream \<Rightarrow> ('s \<times> upstream_request list) upstream" where
  "recorded upstream r st = (case upstream r (fst st) of (answer, st') \<Rightarrow> (answer, st', snd st @ [r]))"

definition header_values :: "string \<Rightarrow> upstream_request \<Rightarrow> string list" where
  "header_values name r = map snd (filter (\<lambda>h. fst h = name) (ur_headers r))"

text \<open>The address the nearest proxy appended: what follows the last comma.\<close>

definition appended_address :: "visitor \<Rightarrow> string" where
  "appended_address v =
     (case vis_forwarded v of None \<Rightarrow> [] | Some s \<Rightarrow> js_trim (rev (takeWhile (\<lambda>c. c \<noteq> CHR '','') (rev s))))"

definition speaks_for :: "visitor \<Rightarrow> string option \<Rightarrow> upstream_request \<Rightarrow> bool" where
  "speaks_for v token r \<longleftrightarrow>
     header_values ''authorization'' r = (case token of None \<Rightarrow> [] | Some t \<Rightarrow> [bearer @ t]) \<and>
     header_values ''x-forwarded-for'' r = (if appended_address v = [] then [] else [appended_address v])"

lemma last_split_on_sep: "last (split_on c (xs @ c # ys)) = last (split_on c ys)"
proof (induction xs)
  case (Cons x xs)
  have "length (split_on c (xs @ c # ys)) \<noteq> Suc 0" by (induction xs) (auto split: list.split)
  with Cons show ?case by (cases "split_on c (xs @ c # ys)") auto
qed simp

lemma last_split_on: "last (split_on c xs) = rev (takeWhile (\<lambda>x. x \<noteq> c) (rev xs))"
proof (cases "c \<in> set xs")
  case True
  then obtain ys zs where xs: "xs = ys @ c # zs" "c \<notin> set zs" by (metis split_list_last)
  moreover have "takeWhile (\<lambda>x. x \<noteq> c) (rev zs @ c # rev ys) = rev zs" using xs(2) by (auto simp: takeWhile_append takeWhile_eq_all_conv)
  ultimately show ?thesis by (simp add: last_split_on_sep split_on_absent)
next
  case False
  then have "takeWhile (\<lambda>x. x \<noteq> c) (rev xs) = rev xs" by (intro takeWhile_eq_all_conv[THEN iffD2]) auto
  with False show ?thesis by (simp add: split_on_absent del: takeWhile_eq_all_conv)
qed

lemma visitor_address_appended: "visitor_address v = appended_address v"
  by (simp add: visitor_address_def appended_address_def last_split_on split: option.split)

lemma visitor_header_values:
  "map snd (filter (\<lambda>h. fst h = ''authorization'') (visitor_headers v)) = []"
  "map snd (filter (\<lambda>h. fst h = ''x-forwarded-for'') (visitor_headers v)) = (if appended_address v = [] then [] else [appended_address v])"
  by (auto simp: visitor_headers_def visitor_address_appended split: option.splits)

text \<open>A step on the record: nothing is sent, or one request that speaks for the token.\<close>

definition sends :: "visitor \<Rightarrow> string option \<Rightarrow> upstream_request list \<Rightarrow> upstream_request list \<Rightarrow> bool" where
  "sends v token old new \<longleftrightarrow> new = old \<or> (\<exists>r. new = old @ [r] \<and> speaks_for v token r)"

lemma snd_apfst [simp]: "snd (apfst f x) = snd x"
  by (cases x) simp

lemma sends_refl [simp]: "sends v token old old"
  by (simp add: sends_def)

lemma call_sends:
  assumes "token \<noteq> Some []"
  shows "sends v token (snd st) (snd (snd (call_access_core (recorded upstream) v path meth token body st)))"
  using assms visitor_header_values[of v] unfolding sends_def
  by (auto simp: call_access_core_def recorded_def speaks_for_def header_values_def split: prod.splits option.splits)

lemma call_sends_to: "call_access_core (recorded upstream) v path meth token body st = (answer, st') \<Longrightarrow> token \<noteq> Some [] \<Longrightarrow>
    sends v token (snd st) (snd st')"
  using call_sends[of token v st upstream path meth body] by simp

lemma proxy_sends:
  assumes "token \<noteq> Some []"
  shows "sends v token (snd st) (snd (snd (proxy_authorized (recorded upstream) token v body path meth st)))"
    "sends v token (snd st) (snd (snd (proxy_get (recorded upstream) token v path st)))"
  using assms by (cases token; simp add: proxy_authorized_def proxy_get_def call_sends)+

lemma login_sends: "sends v None (snd st) (snd (snd (login_route (recorded upstream) v body st)))"
  by (auto simp: login_route_def Let_def split: option.split sum.split prod.split dest!: call_sends_to)

lemma logout_sends: "token \<noteq> Some [] \<Longrightarrow> sends v token (snd st) (snd (snd (logout_route (recorded upstream) token v st)))"
  by (cases token) (simp_all add: logout_route_def call_sends)

lemma step_up_sends: "token \<noteq> Some [] \<Longrightarrow> sends v token (snd st) (snd (snd (step_up_route (recorded upstream) token v body st)))"
  by (auto simp: step_up_route_def split: option.split sum.split prod.split dest!: call_sends_to)

lemma bff_sends:
  assumes "token \<noteq> Some []"
  shows "sends v (case request of PostLogin body \<Rightarrow> None | _ \<Rightarrow> token) (snd st) (snd (snd (bff_route (recorded upstream) token v request st)))"
  by (cases request) (simp_all add: bff_routes assms proxy_sends login_sends logout_sends step_up_sends)

lemma nothing_without_cookie:
  "request \<noteq> PostLogout \<Longrightarrow> \<forall>body. request \<noteq> PostLogin body \<Longrightarrow> bff_route upstream None v request st = (Inr not_authenticated, st)"
  by (cases request) (simp_all add: bff_routes proxy_authorized_def proxy_get_def step_up_route_def)

section \<open>How long the cookie lives\<close>

definition cookie_within :: "set_cookie \<Rightarrow> bool" where
  "cookie_within c \<longleftrightarrow> sc_max_age c \<le> ac_token_max_age"

lemma cookie_age_bounds: "1 \<le> cookie_age v \<and> cookie_age v \<le> ac_token_max_age"
  by (simp add: cookie_age_def ac_token_max_age_def)

lemma cookie_age_expiry: "1 \<le> n \<Longrightarrow> cookie_age (JNumber n) \<le> n"
  by (simp add: cookie_age_def)

lemma relayed_cookies [simp]: "br_cookies (relayed answer) = []"
  by (simp add: relayed_def next_json_def service_unavailable_def bff_answer_def split: sum.split prod.split)

lemma proxy_cookies [simp]:
  "br_cookies (fst (proxy_authorized upstream token v body path meth st)) = []" "br_cookies (fst (proxy_get upstream token v path st)) = []"
  by (simp_all add: proxy_authorized_def proxy_get_def not_authenticated_def bff_answer_def fst_apfst split: option.split)

lemma login_reply_cookies:
  "login_reply email data = Inr r \<Longrightarrow> c \<in> set (br_cookies r) \<Longrightarrow> 1 \<le> sc_max_age c \<and> sc_max_age c \<le> ac_token_max_age"
  using cookie_age_bounds by (auto simp: login_reply_def bff_answer_def split: sum.splits json.splits)

lemma login_cookies:
  "fst (login_route upstream v body st) = Inr r \<Longrightarrow> c \<in> set (br_cookies r) \<Longrightarrow> 1 \<le> sc_max_age c \<and> sc_max_age c \<le> ac_token_max_age"
  using login_reply_cookies
  by (auto simp: login_route_def bff_answer_def service_unavailable_def Let_def split: option.splits sum.splits prod.splits if_splits)

lemma step_up_cookies:
  "fst (step_up_route upstream token v body st) = Inr r \<Longrightarrow> c \<in> set (br_cookies r) \<Longrightarrow> 1 \<le> sc_max_age c \<and> sc_max_age c \<le> ac_token_max_age"
  using cookie_age_bounds
  by (auto simp: step_up_route_def step_up_answer_def next_json_def not_authenticated_def bff_answer_def service_unavailable_def
      split: option.splits sum.splits prod.splits if_splits json.splits)

lemma route_cookies:
  assumes "fst (bff_route upstream token v request st) = Inr r" "c \<in> set (br_cookies r)" "request \<noteq> PostLogout"
  shows "1 \<le> sc_max_age c \<and> sc_max_age c \<le> ac_token_max_age"
  using assms by (cases request) (auto simp: bff_routes dest: login_cookies step_up_cookies)

lemma stored_cookies:
  assumes "fold (store_cookie now) cs jar name = Some (value, expires)"
  shows "jar name = Some (value, expires) \<or> (\<exists>c \<in> set cs. 0 < sc_max_age c \<and> expires = now + sc_max_age c * 1000)"
  using assms
proof (induction cs arbitrary: jar)
  case (Cons c cs)
  then have "store_cookie now c jar name = Some (value, expires) \<or> (\<exists>d \<in> set cs. 0 < sc_max_age d \<and> expires = now + sc_max_age d * 1000)" by simp
  then show ?case by (auto simp: store_cookie_def split: if_splits)
qed simp

section \<open>Where the redirects end\<close>

definition refuses :: "'s upstream \<Rightarrow> string \<Rightarrow> bool" where
  "refuses upstream t \<longleftrightarrow> (\<forall>r st. (''authorization'', bearer @ t) \<in> set (ur_headers r) \<longrightarrow> (\<exists>text st'. upstream r st = (Inr (401, text), st')))"

lemma refused_get:
  assumes "refuses upstream t" "t \<noteq> []"
  shows "fst (server_get upstream (Some t) v path st) = NotLoaded 401"
proof -
  let ?r = "\<lparr>ur_path = path, ur_method = ''GET'', ur_headers = visitor_headers v @ [(''content-type'', ''application/json'')] @
    [(''authorization'', bearer @ t)], ur_body = None\<rparr>"
  have "(''authorization'', bearer @ t) \<in> set (ur_headers ?r)" by simp
  with assms(1) obtain page_text st' where "upstream ?r st = (Inr (401, page_text), st')" unfolding refuses_def by blast
  with assms(2) show ?thesis by (simp add: server_get_def call_access_core_def)
qed

lemma refused_page:
  assumes "refuses upstream t" "t \<noteq> []" "pg \<noteq> LoginPage"
  shows "fst (show_page upstream (Some t) v pg st) = Redirect LoginPage"
proof -
  obtain path paths where paths: "page_reads pg = path # paths" using assms(3) by (cases pg) auto
  have "is_unauthorized (fst (server_get upstream (Some t) v path st))" by (simp add: refused_get[OF assms(1,2)] is_unauthorized_def)
  then show ?thesis using assms(3) paths by (auto simp: show_page_def Let_def split: prod.split)
qed

lemma redirects_forever: "refuses upstream t \<Longrightarrow> t \<noteq> [] \<Longrightarrow> fst (navigate upstream (Some t) v n pg st) = None"
proof (induction n arbitrary: pg st)
  case (Suc n)
  show ?case
  proof (cases "pg = LoginPage")
    case True
    with Suc show ?thesis by (simp add: show_page_def)
  next
    case False
    from refused_page[OF Suc.prems False, of v st] obtain st' where "show_page upstream (Some t) v pg st = (Redirect LoginPage, st')"
      by (cases "show_page upstream (Some t) v pg st") simp
    with Suc show ?thesis by simp
  qed
qed simp

section \<open>Properties\<close>

text \<open>C4: the console's server speaks for the session of its cookie and for nobody else: a request of the browser leads to at most
  one request to the service, which carries the token of the cookie, none for a login, and as the client's address the one the
  nearest proxy appended, whatever the browser put in front of it; without a cookie only a login reaches the service, and the
  answer is that nobody is signed in.\<close>
theorem console_speaks_for_the_session:
  assumes "browser_call (recorded upstream) now v request (jar, st, old) = (result, jar', st', new)"
  shows "(new = old \<or> (\<exists>r. new = old @ [r] \<and>
      speaks_for v (case request of PostLogin body \<Rightarrow> None | _ \<Rightarrow> read_cookie now ac_token_cookie jar) r)) \<and>
    (read_cookie now ac_token_cookie jar = None \<and> request \<noteq> PostLogout \<and> (\<forall>body. request \<noteq> PostLogin body) \<longrightarrow>
      new = old \<and> st' = st \<and> result = ApiUnauthorized)"
proof -
  let ?token = "read_cookie now ac_token_cookie jar"
  have "?token \<noteq> Some []" by (auto simp: read_cookie_def split: option.split)
  moreover obtain answer where run: "bff_route (recorded upstream) ?token v request (st, old) = (answer, (st', new))"
      "result = api_result_of (client_fetch answer)"
    using assms by (auto simp: browser_call_def split: prod.splits)
  ultimately have "sends v (case request of PostLogin body \<Rightarrow> None | _ \<Rightarrow> ?token) old new"
    using bff_sends[of ?token v request "(st, old)" upstream] by simp
  moreover have "new = old \<and> st' = st \<and> result = ApiUnauthorized"
    if "?token = None" "request \<noteq> PostLogout" "\<forall>body. request \<noteq> PostLogin body"
    using run nothing_without_cookie[OF that(2,3), of "recorded upstream" v "(st, old)"] that(1)
    by (auto simp: client_fetch_def api_result_of_def not_authenticated_def bff_answer_def)
  ultimately show ?thesis by (simp add: sends_def)
qed

definition sample_visitor :: visitor where
  "sample_visitor = \<lparr>vis_forwarded = Some ''8.8.8.8, 10.0.0.7'', vis_agent = None\<rparr>"

definition sample_upstream :: "unit upstream" where
  "sample_upstream r st = (Inr (200, BodyJson (JObject [])), st)"

theorem console_speaks_for_the_session_witness:
  "browser_call (recorded sample_upstream) 0 sample_visitor GetPolicies ((\<lambda>name. None), (), []) =
     (ApiUnauthorized, (\<lambda>name. None), (), [])"
proof -
  obtain result jar' new where run: "browser_call (recorded sample_upstream) 0 sample_visitor GetPolicies ((\<lambda>name. None), (), []) =
      (result, jar', (), new)" by (metis prod_cases4 unit.exhaust)
  have "jar' = (\<lambda>name. None)"
    using run by (simp add: bff_routes browser_call_def read_cookie_def proxy_get_def browser_jar_def not_authenticated_def bff_answer_def)
  with console_speaks_for_the_session[OF run] run show ?thesis by (simp add: read_cookie_def)
qed

text \<open>The session's cookie is short: a cookie the browser holds after a call is one it held before or expires within a quarter of
  an hour; after a logout there is none, whatever the
  service answered, and the call succeeds.\<close>
theorem session_cookie_is_short:
  assumes "browser_call upstream now v request (jar, st) = (result, jar', st')"
  shows "(\<forall>name value expires. jar' name = Some (value, expires) \<longrightarrow>
      jar name = Some (value, expires) \<or> now < expires \<and> expires \<le> now + 15 * 60 * 1000) \<and>
    (request = PostLogout \<longrightarrow> jar' ac_token_cookie = None \<and> jar' ac_user_cookie = None \<and> (\<exists>body. result = ApiOk body))"
proof -
  let ?token = "read_cookie now ac_token_cookie jar"
  obtain answer where run: "bff_route upstream ?token v request st = (answer, st')"
      "jar' = browser_jar now answer jar" "result = api_result_of (client_fetch answer)"
    using assms by (auto simp: browser_call_def split: prod.splits)
  have out: "jar' ac_token_cookie = None \<and> jar' ac_user_cookie = None \<and> (\<forall>name. jar' name = jar name \<or> jar' name = None) \<and> (\<exists>body. result = ApiOk body)"
    if "request = PostLogout"
  proof -
    from run(1) that have "answer = Inr \<lparr>br_status = 200, br_body = JObject [(''ok'', JBool True)],
        br_cookies = [cleared ac_token_cookie, cleared ac_user_cookie]\<rparr>" by (auto simp: logout_route_def)
    then show ?thesis
      by (simp add: run(2,3) browser_jar_def store_cookie_def cleared_def api_result_of_def client_fetch_def ac_token_cookie_def ac_user_cookie_def)
  qed
  have "jar name = Some (value, expires) \<or> now < expires \<and> expires \<le> now + 15 * 60 * 1000"
    if "jar' name = Some (value, expires)" for name "value" expires
  proof (cases answer)
    case (Inl e)
    with that run(2) show ?thesis by (simp add: browser_jar_def)
  next
    case (Inr r)
    show ?thesis
    proof (cases "request = PostLogout")
      case True
      with out[OF True] that show ?thesis by (metis option.distinct(1))
    next
      case False
      have "1 \<le> sc_max_age c \<and> sc_max_age c \<le> ac_token_max_age" if "c \<in> set (br_cookies r)" for c
        using route_cookies[of upstream ?token v request st r c] run(1) Inr that False by simp
      with stored_cookies[of now "br_cookies r" jar name "value" expires] that run(2) Inr show ?thesis
        by (fastforce simp: browser_jar_def ac_token_max_age_def)
    qed
  qed
  with out show ?thesis by blast
qed

theorem session_cookie_is_short_witness:
  "\<exists>jar'. browser_call sample_upstream 0 sample_visitor PostLogout ((\<lambda>name. Some (''t'', 5)), ()) = (ApiOk (JObject [(''ok'', JBool True)]), jar', ()) \<and>
     jar' ac_token_cookie = None"
proof -
  obtain result jar' where run: "browser_call sample_upstream 0 sample_visitor PostLogout ((\<lambda>name. Some (''t'', 5)), ()) = (result, jar', ())"
    by (metis prod_cases3 unit.exhaust)
  have "result = ApiOk (JObject [(''ok'', JBool True)])"
    using run by (auto simp: browser_call_def logout_route_def client_fetch_def api_result_of_def)
  with run session_cookie_is_short[OF run] show ?thesis by blast
qed

text \<open>C40: a refused cookie locks the browser out of the login page: while it holds a token the service refuses, as after the session
  was revoked elsewhere, every page of the console that reads the service redirects to the login page and the login page redirects to the console,
  so that no number of redirects ends at a page, although without the cookie the login page is shown.\<close>
theorem refused_cookie_redirects_forever:
  assumes "refuses upstream t" "t \<noteq> []"
  shows "fst (navigate upstream (Some t) v n pg st) = None \<and> navigate upstream None v (Suc (Suc n)) ConsolePage st = (Some LoginPage, st)"
  using redirects_forever[OF assms] by (simp add: show_page_def)

definition refusing_upstream :: "unit upstream" where
  "refusing_upstream r st = (Inr (401, BodyEmpty), st)"

theorem refused_cookie_redirects_forever_witness:
  "fst (navigate refusing_upstream (Some ''t'') sample_visitor 20 LoginPage ()) = None"
  using refused_cookie_redirects_forever[of refusing_upstream "''t''" sample_visitor 20 LoginPage "()"]
  by (simp add: refuses_def refusing_upstream_def)

end
