(* ===== verification/ConditionForm.thy ===== *)
theory ConditionForm
  imports Policies Guards Dates Buffers
begin

text \<open>
  The condition builder of the console (apps/console, playground/condition-builder.tsx): clauses, their compilation to a
  policy condition, and \<open>parseCondition\<close>, which opens a stored condition for editing. The form of the browser and the check and
  evaluation of the service meet here: the browser's platform \<open>p\<close> reads times in its own time zone, the service's is \<open>q\<close>.
\<close>

section \<open>Clauses\<close>

datatype clause_attr = AttrAal | AttrIp | AttrCidr | AttrNow

datatype combinator = CombineAnd | CombineOr

record clause_body =
  cb_attr :: clause_attr
  cb_op :: cmp_op
  cb_value :: string

record clause = clause_body +
  cb_id :: string

definition numeric_ops :: "cmp_op list" where
  "numeric_ops = [Eq, Ne, Lt, Le, Gt, Ge]"

definition string_ops :: "cmp_op list" where
  "string_ops = [Eq, Ne]"

definition ops_for :: "clause_attr \<Rightarrow> cmp_op list" where
  "ops_for attr = (if attr = AttrAal \<or> attr = AttrNow then numeric_ops else if attr = AttrIp then string_ops else [])"

section \<open>From clauses to a condition\<close>

definition cidr_list :: "string \<Rightarrow> string list" where
  "cidr_list value = filter (\<lambda>c. c \<noteq> []) (map js_trim (split_on CHR '','' value))"

text \<open>A number that is not finite is 0; the browser's number field gives no infinite ones.\<close>

definition compile_clause :: "text_platform \<Rightarrow> 'a clause_body_scheme \<Rightarrow> condition" where
  "compile_clause p c =
     (case cb_attr c of
        AttrCidr \<Rightarrow> IpInCidr (Attr EnvIp) (cidr_list (cb_value c))
      | AttrAal \<Rightarrow> Cmp (cb_op c) (Attr PrincipalAal) (Lit (LNum (case js_number p (cb_value c) of Some n \<Rightarrow> n | None \<Rightarrow> 0)))
      | AttrIp \<Rightarrow> Cmp (cb_op c) (Attr EnvIp) (Lit (LStr (cb_value c)))
      | AttrNow \<Rightarrow> Cmp (cb_op c) (Attr EnvNow) (Lit (LStr
          (if cb_value c = [] then []
           else case js_date_parse p (cb_value c) of Some t \<Rightarrow> to_iso_string t | None \<Rightarrow> cb_value c))))"

definition compile_form :: "text_platform \<Rightarrow> combinator \<Rightarrow> 'a clause_body_scheme list \<Rightarrow> condition" where
  "compile_form p combinator clauses =
     (case map (compile_clause p) clauses of
        [node] \<Rightarrow> node
      | nodes \<Rightarrow> (case combinator of CombineAnd \<Rightarrow> All nodes | CombineOr \<Rightarrow> Any nodes))"

section \<open>From a condition to clauses\<close>

fun literal_text :: "text_platform \<Rightarrow> literal \<Rightarrow> string" where
  "literal_text p (LStr s) = s"
| "literal_text p (LNum n) = js_number_text p (Some n)"
| "literal_text p (LBool b) = (if b then ''true'' else ''false'')"

fun clause_attr_of :: "attr_path \<Rightarrow> clause_attr" where
  "clause_attr_of PrincipalAal = AttrAal"
| "clause_attr_of EnvIp = AttrIp"
| "clause_attr_of EnvNow = AttrNow"

text \<open>\<open>join(', ')\<close>\<close>

fun join_cidrs :: "string list \<Rightarrow> string" where
  "join_cidrs [] = []"
| "join_cidrs [c] = c"
| "join_cidrs (c # d # ds) = c @ '', '' @ join_cidrs (d # ds)"

fun parse_node :: "text_platform \<Rightarrow> condition \<Rightarrow> clause_body option" where
  "parse_node p (Cmp op (Attr path) (Lit l)) =
     Some \<lparr>cb_attr = clause_attr_of path, cb_op = op,
       cb_value = (case (path, l) of (EnvNow, LStr s) \<Rightarrow> take 16 s | _ \<Rightarrow> literal_text p l)\<rparr>"
| "parse_node p (IpInCidr (Attr EnvIp) cidrs) = Some \<lparr>cb_attr = AttrCidr, cb_op = Eq, cb_value = join_cidrs cidrs\<rparr>"
| "parse_node p _ = None"

definition parse_children :: "text_platform \<Rightarrow> condition list \<Rightarrow> clause_body list option" where
  "parse_children p children =
     (if children = [] \<or> None \<in> set (map (parse_node p) children) then None
      else Some (map (the \<circ> parse_node p) children))"

definition parse_form :: "text_platform \<Rightarrow> condition \<Rightarrow> (combinator \<times> clause_body list) option" where
  "parse_form p c =
     (case c of
        All children \<Rightarrow> map_option (Pair CombineAnd) (parse_children p children)
      | Any children \<Rightarrow> map_option (Pair CombineOr) (parse_children p children)
      | _ \<Rightarrow> map_option (\<lambda>single. (CombineAnd, [single])) (parse_node p c))"

section \<open>The state of the builder\<close>

record builder =
  bd_combinator :: combinator
  bd_clauses :: "clause list"
  bd_next :: nat

definition clause_id :: "nat \<Rightarrow> string" where
  "clause_id n = CHR ''c'' # digits n"

definition with_id :: "nat \<Rightarrow> clause_body \<Rightarrow> clause" where
  "with_id n c = clause_body.extend c \<lparr>cb_id = clause_id n\<rparr>"

text \<open>\<open>seeded\<close>: the clauses of the condition to edit, or one for a second factor.\<close>

definition builder_init :: "text_platform \<Rightarrow> condition option \<Rightarrow> builder" where
  "builder_init p initial =
     (case Option.bind initial (parse_form p) of
        Some (combinator, clauses) \<Rightarrow>
          \<lparr>bd_combinator = combinator, bd_clauses = map (\<lambda>(n, c). with_id n c) (enumerate 0 clauses), bd_next = length clauses\<rparr>
      | None \<Rightarrow> \<lparr>bd_combinator = CombineAnd,
          bd_clauses = [with_id 0 \<lparr>cb_attr = AttrAal, cb_op = Ge, cb_value = ''2''\<rparr>], bd_next = 1\<rparr>)"

datatype clause_patch = PatchAttr clause_attr | PatchOp cmp_op | PatchValue string

definition patch_clause :: "clause_patch \<Rightarrow> clause \<Rightarrow> clause" where
  "patch_clause patch c =
     (case patch of
        PatchAttr attr \<Rightarrow> c\<lparr>cb_attr := attr, cb_value := [],
          cb_op := (case ops_for attr of [] \<Rightarrow> cb_op c | first # _ \<Rightarrow> if cb_op c \<notin> set (ops_for attr) then first else cb_op c)\<rparr>
      | PatchOp op \<Rightarrow> c\<lparr>cb_op := op\<rparr>
      | PatchValue v \<Rightarrow> c\<lparr>cb_value := v\<rparr>)"

definition update_clause :: "string \<Rightarrow> clause_patch \<Rightarrow> builder \<Rightarrow> builder" where
  "update_clause i patch b = b\<lparr>bd_clauses := map (\<lambda>c. if cb_id c \<noteq> i then c else patch_clause patch c) (bd_clauses b)\<rparr>"

definition add_clause :: "builder \<Rightarrow> builder" where
  "add_clause b = b\<lparr>bd_clauses := bd_clauses b @ [with_id (bd_next b) \<lparr>cb_attr = AttrAal, cb_op = Ge, cb_value = []\<rparr>],
     bd_next := bd_next b + 1\<rparr>"

definition remove_clause :: "string \<Rightarrow> builder \<Rightarrow> builder" where
  "remove_clause i b = (if length (bd_clauses b) = 1 then b else b\<lparr>bd_clauses := filter (\<lambda>c. cb_id c \<noteq> i) (bd_clauses b)\<rparr>)"

definition presets :: "(combinator \<times> clause_body list) list" where
  "presets =
     [(CombineAnd, [\<lparr>cb_attr = AttrAal, cb_op = Ge, cb_value = ''2''\<rparr>]),
      (CombineAnd, [\<lparr>cb_attr = AttrCidr, cb_op = Eq, cb_value = ''203.0.113.0/24''\<rparr>]),
      (CombineAnd, [\<lparr>cb_attr = AttrNow, cb_op = Le, cb_value = ''2026-12-31T23:59''\<rparr>])]"

definition apply_preset :: "combinator \<times> clause_body list \<Rightarrow> builder \<Rightarrow> builder" where
  "apply_preset preset b = b\<lparr>bd_combinator := fst preset,
     bd_clauses := map (\<lambda>(n, c). with_id n c) (enumerate (bd_next b) (snd preset)), bd_next := bd_next b + length (snd preset)\<rparr>"

text \<open>The operator of a clause is chosen from those of its attribute.\<close>

inductive builder_run :: "text_platform \<Rightarrow> condition option \<Rightarrow> builder \<Rightarrow> bool" for p initial where
  built: "builder_run p initial (builder_init p initial)"
| attr_chosen: "builder_run p initial b \<Longrightarrow> builder_run p initial (update_clause i (PatchAttr attr) b)"
| op_chosen: "builder_run p initial b \<Longrightarrow> \<forall>c \<in> set (bd_clauses b). cb_id c = i \<longrightarrow> op \<in> set (ops_for (cb_attr c)) \<Longrightarrow>
    builder_run p initial (update_clause i (PatchOp op) b)"
| value_typed: "builder_run p initial b \<Longrightarrow> builder_run p initial (update_clause i (PatchValue v) b)"
| clause_added: "builder_run p initial b \<Longrightarrow> builder_run p initial (add_clause b)"
| clause_removed: "builder_run p initial b \<Longrightarrow> builder_run p initial (remove_clause i b)"
| preset_applied: "builder_run p initial b \<Longrightarrow> preset \<in> set presets \<Longrightarrow> builder_run p initial (apply_preset preset b)"
| combinator_chosen: "builder_run p initial b \<Longrightarrow> builder_run p initial (b\<lparr>bd_combinator := combinator\<rparr>)"

section \<open>What the builder keeps\<close>

definition op_fits :: "'a clause_body_scheme \<Rightarrow> bool" where
  "op_fits c \<longleftrightarrow> ops_for (cb_attr c) = [] \<or> cb_op c \<in> set (ops_for (cb_attr c))"

definition builder_ok :: "builder \<Rightarrow> bool" where
  "builder_ok b \<longleftrightarrow> bd_clauses b \<noteq> [] \<and> distinct (map cb_id (bd_clauses b)) \<and>
     (\<forall>c \<in> set (bd_clauses b). op_fits c \<and> (\<exists>n < bd_next b. cb_id c = clause_id n))"

lemma clause_id_inj [simp]: "clause_id n = clause_id m \<longleftrightarrow> n = m"
  using dec_value_digits by (auto simp: clause_id_def) metis

lemma with_id_simps [simp]: "cb_id (with_id n c) = clause_id n" "cb_attr (with_id n c) = cb_attr c" "cb_op (with_id n c) = cb_op c"
  "cb_value (with_id n c) = cb_value c" "op_fits (with_id n c) = op_fits c"
  by (simp_all add: with_id_def clause_body.defs op_fits_def)

lemma ops_for_simps [simp]: "ops_for AttrAal = numeric_ops" "ops_for AttrNow = numeric_ops" "ops_for AttrIp = string_ops" "ops_for AttrCidr = []"
  by (simp_all add: ops_for_def)

lemma numeric_op [simp]: "op \<in> set numeric_ops"
  by (cases op) (simp_all add: numeric_ops_def)

definition numbered :: "nat \<Rightarrow> clause_body list \<Rightarrow> clause list" where
  "numbered n cs = map (\<lambda>(k, c). with_id k c) (enumerate n cs)"

lemma numbered_simps [simp]: "numbered n [] = []" "numbered n (c # cs) = with_id n c # numbered (Suc n) cs"
  by (simp_all add: numbered_def)

lemma numbered_ids: "map cb_id (numbered n cs) = map clause_id [n ..< n + length cs]"
proof (induction cs arbitrary: n)
  case (Cons c cs)
  show ?case using Cons[of "Suc n"] upt_conv_Cons[of n "n + length (c # cs)"] by simp
qed simp

lemma numbered_clause: "c \<in> set (numbered n cs) \<Longrightarrow> \<exists>k d. n \<le> k \<and> k < n + length cs \<and> d \<in> set cs \<and> c = with_id k d"
proof (induction cs arbitrary: n)
  case (Cons d ds)
  show ?case
  proof (cases "c = with_id n d")
    case True
    then show ?thesis by (intro exI[of _ n] exI[of _ d]) simp
  next
    case False
    with Cons.prems have "c \<in> set (numbered (Suc n) ds)" by simp
    from Cons.IH[OF this] obtain k e where "Suc n \<le> k" "k < Suc n + length ds" "e \<in> set ds" "c = with_id k e" by blast
    then show ?thesis by (intro exI[of _ k] exI[of _ e]) simp
  qed
qed simp

lemma numbered_ok:
  assumes "cs \<noteq> []" "\<forall>c \<in> set cs. op_fits c"
  shows "builder_ok \<lparr>bd_combinator = combinator, bd_clauses = numbered n cs, bd_next = n + length cs\<rparr>"
proof -
  have "distinct (map clause_id [n ..< n + length cs])" by (simp add: distinct_map inj_on_def)
  moreover have "numbered n cs \<noteq> []" using assms(1) by (cases cs) simp_all
  ultimately show ?thesis using assms(2) numbered_clause[of _ n cs] by (fastforce simp: builder_ok_def numbered_ids)
qed

text \<open>A stored condition passes the static check, so its operators are among those of the builder.\<close>

lemma accepted_iff:
  "parse_condition p c = ok c' \<longleftrightarrow> c' = c \<and> well_typed p c \<and> condition_size c \<le> max_condition_nodes \<and> condition_height c \<le> max_condition_depth"
proof -
  have "parse_condition p c = ok c' \<longleftrightarrow> c' = c \<and> (\<exists>m. walk_condition p 0 c 0 = (None, m))"
    by (cases "walk_condition p 0 c 0") (auto simp: parse_condition_def split: option.splits)
  then show ?thesis by (auto simp: walk_condition_None fits_def)
qed

lemma parse_node_fits: "parse_node p c = Some d \<Longrightarrow> well_typed q c \<Longrightarrow> op_fits d"
proof (induction p c rule: parse_node.induct)
  case (1 p op path l)
  then show ?case
    by (cases path; cases l; cases op)
      (auto simp: op_fits_def string_ops_def check_cmp_def comparable_def temporal_pair_def is_ordered_def Let_def)
qed (auto simp: op_fits_def)

lemma parse_children_okD:
  assumes "parse_children p cs = Some ds"
  shows "cs \<noteq> []" "ds = map (the \<circ> parse_node p) cs" "\<forall>c \<in> set cs. \<exists>d. parse_node p c = Some d"
proof -
  show "cs \<noteq> []" "ds = map (the \<circ> parse_node p) cs" using assms by (auto simp: parse_children_def split: if_splits)
  have "None \<notin> parse_node p ` set cs" using assms by (auto simp: parse_children_def split: if_splits)
  then show "\<forall>c \<in> set cs. \<exists>d. parse_node p c = Some d" by (metis image_eqI not_None_eq)
qed

lemma parse_form_fits:
  assumes "parse_form p c = Some (combinator, ds)" "well_typed q c"
  shows "ds \<noteq> [] \<and> (\<forall>d \<in> set ds. op_fits d)"
proof -
  have each: "ds \<noteq> [] \<and> (\<forall>d \<in> set ds. op_fits d)" if "parse_children p cs = Some ds" "list_all (well_typed q) cs" for cs
  proof -
    from parse_children_okD[OF that(1)] have ds: "ds = map (the \<circ> parse_node p) cs" "\<forall>c \<in> set cs. \<exists>d. parse_node p c = Some d" "cs \<noteq> []" by auto
    have "op_fits (the (parse_node p c))" if "c \<in> set cs" for c
      using that ds(2) \<open>list_all (well_typed q) cs\<close> parse_node_fits[of p c _ q] by (auto simp: list_all_iff)
    with ds show ?thesis by simp
  qed
  show ?thesis
  proof (cases c)
    case (All cs) with assms each[of cs] show ?thesis by (auto simp: parse_form_def)
  next
    case (Any cs) with assms each[of cs] show ?thesis by (auto simp: parse_form_def)
  qed (use assms parse_node_fits[of p c _ q] in \<open>auto simp: parse_form_def\<close>)
qed

lemma builder_init_ok:
  assumes "\<And>c. initial = Some c \<Longrightarrow> well_typed q c"
  shows "builder_ok (builder_init p initial)"
proof (cases "Option.bind initial (parse_form p)")
  case None
  then show ?thesis by (auto simp: builder_init_def builder_ok_def op_fits_def)
next
  case (Some r)
  obtain combinator ds where r: "r = (combinator, ds)" by fastforce
  from Some r obtain c where "initial = Some c" "parse_form p c = Some (combinator, ds)" by (cases initial) auto
  with assms parse_form_fits[of p c combinator ds q] have "ds \<noteq> [] \<and> (\<forall>d \<in> set ds. op_fits d)" by blast
  with Some r numbered_ok[of ds combinator 0] show ?thesis by (simp add: builder_init_def numbered_def)
qed

lemma patch_clause_id [simp]: "cb_id (patch_clause patch c) = cb_id c"
  by (cases patch) (simp_all add: patch_clause_def)

lemma update_clause_ok:
  assumes "builder_ok b" "\<And>c. c \<in> set (bd_clauses b) \<Longrightarrow> cb_id c = i \<Longrightarrow> op_fits (patch_clause patch c)"
  shows "builder_ok (update_clause i patch b)"
proof -
  have ids: "map cb_id (bd_clauses (update_clause i patch b)) = map cb_id (bd_clauses b)" by (simp add: update_clause_def)
  have "op_fits c \<and> (\<exists>n < bd_next b. cb_id c = clause_id n)" if "c \<in> set (bd_clauses (update_clause i patch b))" for c
    using that assms by (auto simp: builder_ok_def update_clause_def split: if_splits)
  moreover have "bd_clauses (update_clause i patch b) \<noteq> []" "bd_next (update_clause i patch b) = bd_next b"
    using assms(1) by (simp_all add: builder_ok_def update_clause_def)
  ultimately show ?thesis using assms(1) unfolding builder_ok_def ids by simp
qed

lemma builder_run_ok:
  assumes "\<And>c. initial = Some c \<Longrightarrow> well_typed q c" "builder_run p initial b"
  shows "builder_ok b"
  using assms(2)
proof (induction rule: builder_run.induct)
  case built
  then show ?case by (rule builder_init_ok[OF assms(1)])
next
  case (attr_chosen b i attr)
  then show ?case by (intro update_clause_ok) (auto simp: op_fits_def patch_clause_def ops_for_def numeric_ops_def string_ops_def)
next
  case (op_chosen b i op)
  then show ?case by (intro update_clause_ok) (auto simp: op_fits_def patch_clause_def)
next
  case (value_typed b i v)
  then show ?case by (intro update_clause_ok) (auto simp: builder_ok_def op_fits_def patch_clause_def)
next
  case (clause_added b)
  then have "clause_id (bd_next b) \<notin> cb_id ` set (bd_clauses b)" by (force simp: builder_ok_def)
  with clause_added show ?case by (auto simp: builder_ok_def add_clause_def op_fits_def intro: less_SucI)
next
  case (clause_removed b i)
  have "filter (\<lambda>c. cb_id c \<noteq> i) (bd_clauses b) \<noteq> []" if several: "length (bd_clauses b) \<noteq> 1"
  proof -
    obtain c d cs where "bd_clauses b = c # d # cs"
      using several clause_removed by (cases "bd_clauses b" rule: remdups_adj.cases) (auto simp: builder_ok_def)
    with clause_removed show ?thesis by (auto simp: builder_ok_def filter_empty_conv)
  qed
  with clause_removed show ?case by (auto simp: builder_ok_def remove_clause_def distinct_map_filter)
next
  case (preset_applied b preset)
  then have "snd preset \<noteq> []" "\<forall>c \<in> set (snd preset). op_fits c" by (auto simp: presets_def op_fits_def)
  from numbered_ok[OF this, of "fst preset" "bd_next b"] show ?case by (simp add: apply_preset_def numbered_def builder_ok_def)
qed (simp add: builder_ok_def)

section \<open>What the built condition means\<close>

text \<open>The values that can be saved: networks in CIDR notation, and a time the browser reads. What the browser writes as an instant,
  the service reads as the same one.\<close>

definition value_ok :: "text_platform \<Rightarrow> 'a clause_body_scheme \<Rightarrow> bool" where
  "value_ok p c \<longleftrightarrow>
     (case cb_attr c of
        AttrCidr \<Rightarrow> cidr_list (cb_value c) \<noteq> [] \<and> list_all is_valid_cidr (cidr_list (cb_value c))
      | AttrNow \<Rightarrow> cb_value c \<noteq> [] \<and> js_date_parse p (cb_value c) \<noteq> None
      | _ \<Rightarrow> True)"

definition same_instants :: "text_platform \<Rightarrow> platform \<Rightarrow> bool" where
  "same_instants p q \<longleftrightarrow> (\<forall>s t. js_date_parse p s = Some t \<longrightarrow> js_date_parse q (to_iso_string t) = Some t)"

text \<open>Browser and service read time alike: the service reads the instants the browser writes, and no text the browser does not
  read, the empty one included.\<close>

definition one_clock :: "text_platform \<Rightarrow> platform \<Rightarrow> bool" where
  "one_clock p q \<longleftrightarrow> same_instants p q \<and> js_date_parse q [] = None \<and> (\<forall>s. js_date_parse p s = None \<longrightarrow> js_date_parse q s = None)"

definition clause_verdict :: "text_platform \<Rightarrow> platform \<Rightarrow> evaluation_context \<Rightarrow> 'a clause_body_scheme \<Rightarrow> verdict" where
  "clause_verdict p q ctx c =
     (case cb_attr c of
        AttrAal \<Rightarrow> ordered (cb_op c) (ctx_aal ctx) (case js_number p (cb_value c) of Some n \<Rightarrow> n | None \<Rightarrow> 0)
      | AttrIp \<Rightarrow> equality (cb_op c) (ctx_ip ctx) (cb_value c)
      | AttrNow \<Rightarrow> ordered (cb_op c) (ctx_now ctx) (the (js_date_parse p (cb_value c)))
      | AttrCidr \<Rightarrow> eval_ip_in_cidr q (RStr (ctx_ip ctx)) (cidr_list (cb_value c)))"

definition form_verdict :: "combinator \<Rightarrow> verdict set \<Rightarrow> verdict" where
  "form_verdict combinator vs =
     (case combinator of
        CombineAnd \<Rightarrow> if VFalse \<in> vs then VFalse else if Indeterminate \<in> vs then Indeterminate else VTrue
      | CombineOr \<Rightarrow> if VTrue \<in> vs then VTrue else if Indeterminate \<in> vs then Indeterminate else VFalse)"

lemma form_verdict_single [simp]: "form_verdict combinator {v} = v"
  by (cases v; cases combinator) (simp_all add: form_verdict_def)

lemma compile_clause_leaf: "condition_size (compile_clause p c) = 1" "condition_height (compile_clause p c) = 0"
  by (simp_all add: compile_clause_def split: clause_attr.split)

lemma compile_clause_typed:
  assumes "op_fits c" "value_ok p c" "same_instants p q"
  shows "well_typed q (compile_clause p c)"
proof (cases "cb_attr c")
  case AttrNow
  then obtain t where "js_date_parse p (cb_value c) = Some t" "cb_value c \<noteq> []" using assms(2) by (auto simp: value_ok_def)
  with assms(3) AttrNow show ?thesis
    by (simp add: compile_clause_def check_cmp_def comparable_def temporal_pair_def same_instants_def Let_def)
next
  case AttrIp
  with assms(1) show ?thesis
    by (auto simp: compile_clause_def op_fits_def string_ops_def check_cmp_def comparable_def is_ordered_def Let_def)
next
  case AttrCidr
  with assms(2) show ?thesis
    by (auto simp: compile_clause_def value_ok_def check_ip_in_cidr_def list_all_iff)
qed (simp add: compile_clause_def check_cmp_def comparable_def Let_def)

lemma to_iso_string_nonempty [simp]: "to_iso_string t \<noteq> []" "[] \<noteq> to_iso_string t"
  by (auto simp: to_iso_string_def Let_def split: prod.split)

lemma compile_clause_typed_iff:
  assumes "op_fits c" "one_clock p q"
  shows "well_typed q (compile_clause p c) \<longleftrightarrow> value_ok p c"
proof
  assume typed: "well_typed q (compile_clause p c)"
  show "value_ok p c"
  proof (cases "cb_attr c")
    case AttrNow
    with typed assms(2) show ?thesis
      by (auto simp: value_ok_def one_clock_def compile_clause_def check_cmp_def comparable_def temporal_pair_def Let_def
          split: if_splits option.splits)
  next
    case AttrCidr
    with typed show ?thesis by (auto simp: compile_clause_def value_ok_def check_ip_in_cidr_def list_all_iff split: if_splits)
  qed (simp_all add: value_ok_def)
qed (use assms compile_clause_typed in \<open>auto simp: one_clock_def\<close>)

lemma compile_clause_verdict:
  assumes "value_ok p c" "same_instants p q"
  shows "eval_condition q ctx (compile_clause p c) = clause_verdict p q ctx c"
proof (cases "cb_attr c")
  case AttrNow
  then obtain t where "js_date_parse p (cb_value c) = Some t" "cb_value c \<noteq> []" using assms(1) by (auto simp: value_ok_def)
  with assms(2) AttrNow show ?thesis
    by (simp add: compile_clause_def clause_verdict_def compare_epochs_def same_instants_def)
qed (simp_all add: compile_clause_def clause_verdict_def)

lemma compile_form_cases:
  assumes "clauses \<noteq> []"
  obtains (single) c where "clauses = [c]" "compile_form p combinator clauses = compile_clause p c"
  | (many) "length clauses \<noteq> 1" "compile_form p combinator clauses =
      (case combinator of CombineAnd \<Rightarrow> All (map (compile_clause p) clauses) | CombineOr \<Rightarrow> Any (map (compile_clause p) clauses))"
proof (cases clauses rule: remdups_adj.cases)
  case (3 c d cs)
  then show thesis by (intro many) (cases combinator; simp add: compile_form_def)+
qed (use assms single in \<open>simp_all add: compile_form_def\<close>)

lemma leaves_size: "sum_list (map (condition_size \<circ> compile_clause p) cs) = length cs"
  by (induction cs) (simp_all add: compile_clause_leaf)

lemma leaves_height: "fold max (map (condition_height \<circ> compile_clause p) cs) 0 = 0"
  by (induction cs) (simp_all add: compile_clause_leaf)

lemma compile_form_accepted:
  assumes "clauses \<noteq> []" "\<forall>c \<in> set clauses. op_fits c" "one_clock p q"
  shows "parse_condition q (compile_form p combinator clauses) = ok (compile_form p combinator clauses) \<longleftrightarrow>
    length clauses < max_condition_nodes \<and> (\<forall>c \<in> set clauses. value_ok p c)"
proof -
  have typed: "well_typed q (compile_clause p c) \<longleftrightarrow> value_ok p c" if "c \<in> set clauses" for c
    using that assms(2,3) by (intro compile_clause_typed_iff) auto
  from assms(1) show ?thesis
  proof (cases rule: compile_form_cases[where p = p and combinator = combinator])
    case (single c)
    then show ?thesis using typed by (simp add: accepted_iff compile_clause_leaf max_condition_nodes_def max_condition_depth_def)
  next
    case many
    then show ?thesis using typed assms(1)
      by (cases combinator) (auto simp: accepted_iff leaves_size leaves_height max_condition_depth_def list_all_iff)
  qed
qed

lemma compile_form_verdict:
  assumes "clauses \<noteq> []" "\<forall>c \<in> set clauses. value_ok p c" "same_instants p q"
  shows "eval_condition q ctx (compile_form p combinator clauses) = form_verdict combinator (clause_verdict p q ctx ` set clauses)"
proof -
  have each: "(eval_condition q ctx \<circ> compile_clause p) ` set clauses = clause_verdict p q ctx ` set clauses"
    using assms(2,3) by (intro image_cong) (simp_all add: compile_clause_verdict)
  from assms(1) show ?thesis
  proof (cases rule: compile_form_cases[where p = p and combinator = combinator])
    case (single c)
    then show ?thesis using assms(2,3) compile_clause_verdict[of p c q ctx] by simp
  next
    case many
    then show ?thesis using each
      by (cases combinator) (simp_all add: all_loop_eq any_loop_eq form_verdict_def image_comp)
  qed
qed

section \<open>Opening a stored condition\<close>

text \<open>An accepted network has no comma and no white space.\<close>

lemma split_on_member: "c \<in> set xs \<Longrightarrow> c = sep \<or> (\<exists>part \<in> set (split_on sep xs). c \<in> set part)"
proof (induction xs)
  case (Cons x xs)
  obtain y ys where "split_on sep xs = y # ys" by (cases "split_on sep xs") auto
  with Cons show ?case by auto
qed simp

lemma valid_cidr_chars: "is_valid_cidr s \<Longrightarrow> s \<noteq> [] \<and> (\<forall>c \<in> set s. is_hex c \<or> c \<in> {CHR ''.'', CHR '':'', CHR ''/''})"
proof -
  assume valid: "is_valid_cidr s"
  then obtain i where i: "index_of CHR ''/'' s = Some i" by (auto simp: is_valid_cidr_def split: option.splits)
  let ?addr = "take i s" and ?len = "drop (Suc i) s"
  have s: "s = ?addr @ CHR ''/'' # ?len" using index_of_split[OF i] by simp
  have digit: "is_digit c \<Longrightarrow> is_hex c" for c by (auto simp: is_digit_def is_hex_def)
  have len: "\<forall>c \<in> set ?len. is_hex c"
    using valid i digit by (auto simp: is_valid_cidr_def short_numeral_def list_all_iff Let_def split: if_splits)
  have addr: "\<forall>c \<in> set ?addr. is_hex c \<or> c \<in> {CHR ''.'', CHR '':''}"
  proof (cases "CHR '':'' \<in> set ?addr")
    case True
    with valid i show ?thesis by (auto simp: is_valid_cidr_def list_all_iff Let_def split: if_splits)
  next
    case False
    with valid i have octets: "list_all (\<lambda>octet. short_numeral octet \<and> dec_value octet \<le> 255) (split_on CHR ''.'' ?addr)"
      by (simp add: is_valid_cidr_def Let_def split: if_splits)
    have "is_hex c \<or> c = CHR ''.''" if "c \<in> set ?addr" for c
      using split_on_member[OF that, of "CHR ''.''"] octets digit by (auto simp: short_numeral_def list_all_iff)
    then show ?thesis by blast
  qed
  show ?thesis using s addr len by (metis Un_iff append_is_Nil_conv insert_iff list.distinct(1) list.simps(15) set_append)
qed

lemma cidr_plain: "is_valid_cidr s \<Longrightarrow> CHR '','' \<notin> set s \<and> js_trim s = s \<and> js_trim (CHR '' '' # s) = s \<and> s \<noteq> []"
proof -
  assume "is_valid_cidr s"
  from valid_cidr_chars[OF this] have s: "s \<noteq> []" "\<forall>c \<in> set s. is_hex c \<or> c \<in> {CHR ''.'', CHR '':'', CHR ''/''}" by auto
  have "\<not> is_space c \<and> c \<noteq> CHR '',''" if "is_hex c \<or> c \<in> {CHR ''.'', CHR '':'', CHR ''/''}" for c
    using that by (auto simp: is_hex_def is_space_def)
  then have chars: "\<forall>c \<in> set s. \<not> is_space c \<and> c \<noteq> CHR '',''" using s(2) by blast
  then have "js_trim s = s" using s(1) by (intro js_trim_plain) auto
  moreover from this have "js_trim (CHR '' '' # s) = s" by (simp add: js_trim_def is_space_def)
  ultimately show ?thesis using s(1) chars by blast
qed

lemma split_join_cidrs:
  "\<forall>d \<in> set (c # cs). CHR '','' \<notin> set d \<Longrightarrow> split_on CHR '','' (join_cidrs (c # cs)) = c # map (\<lambda>d. CHR '' '' # d) cs"
proof (induction cs arbitrary: c)
  case (Cons d ds)
  then have "split_on CHR '','' (join_cidrs (d # ds)) = d # map (\<lambda>d. CHR '' '' # d) ds" by simp
  moreover have "split_on CHR '','' (c @ CHR '','' # CHR '' '' # join_cidrs (d # ds)) = c # split_on CHR '','' (CHR '' '' # join_cidrs (d # ds))"
    using Cons.prems by (intro split_on_append_sep) simp
  ultimately show ?case by simp
qed (simp add: split_on_absent)

lemma cidr_list_join: "cs \<noteq> [] \<Longrightarrow> list_all is_valid_cidr cs \<Longrightarrow> cidr_list (join_cidrs cs) = cs"
proof (cases cs)
  case (Cons c ds)
  assume valid: "list_all is_valid_cidr cs"
  then have "split_on CHR '','' (join_cidrs cs) = c # map (\<lambda>d. CHR '' '' # d) ds"
    using cidr_plain Cons by (simp add: split_join_cidrs list_all_iff)
  moreover have "map (js_trim \<circ> (\<lambda>d. CHR '' '' # d)) ds = ds" using valid Cons cidr_plain by (intro map_idI) (simp add: list_all_iff)
  moreover have "js_trim c = c" "filter (\<lambda>c. c \<noteq> []) ds = ds" "c \<noteq> []"
    using valid Cons cidr_plain by (auto simp: list_all_iff filter_id_conv)
  ultimately show ?thesis using Cons by (simp add: cidr_list_def)
qed simp

text \<open>No comparison with a time, and numbers that survive their way through the text of a field.\<close>

fun plain_leaf :: "text_platform \<Rightarrow> condition \<Rightarrow> bool" where
  "plain_leaf p (Cmp op (Attr path) (Lit l)) \<longleftrightarrow> path \<noteq> EnvNow \<and>
     (case l of LNum n \<Rightarrow> js_number p (js_number_text p (Some n)) = Some n | _ \<Rightarrow> True)"
| "plain_leaf p _ \<longleftrightarrow> True"

fun form_children :: "condition \<Rightarrow> condition list" where
  "form_children (All cs) = cs"
| "form_children (Any cs) = cs"
| "form_children c = [c]"

definition plain_form :: "text_platform \<Rightarrow> condition \<Rightarrow> bool" where
  "plain_form p c \<longleftrightarrow> list_all (plain_leaf p) (form_children c)"

lemma compile_parsed_node:
  assumes "parse_node p c = Some d" "well_typed q c" "plain_leaf p c"
  shows "compile_clause p d = c"
  using assms
proof (induction p c rule: parse_node.induct)
  case (1 p op path l)
  then show ?case
    by (cases path; cases l)
      (auto simp: compile_clause_def check_cmp_def comparable_def temporal_pair_def Let_def)
next
  case (2 p cidrs)
  then have "cidrs \<noteq> []" "list_all is_valid_cidr cidrs"
    by (auto simp: check_ip_in_cidr_def list_all_iff split: if_splits)
  from cidr_list_join[OF this] 2(1) show ?case by (auto simp: compile_clause_def)
qed simp_all

text \<open>A conjunction or a disjunction of one clause comes back as the clause.\<close>

definition unwrapped :: "condition \<Rightarrow> condition" where
  "unwrapped c = (case c of All [d] \<Rightarrow> d | Any [d] \<Rightarrow> d | _ \<Rightarrow> c)"

lemma eval_unwrapped: "eval_condition q ctx (unwrapped c) = eval_condition q ctx c"
proof -
  have one: "eval_condition q ctx d = eval_condition q ctx (All [d])" "eval_condition q ctx d = eval_condition q ctx (Any [d])" for d
    by (cases "eval_condition q ctx d"; simp add: all_loop_eq any_loop_eq)+
  show ?thesis
    by (cases c) (auto simp del: eval_condition.simps simp: unwrapped_def one[symmetric] split: list.split)
qed

lemma compile_parsed_children:
  assumes "parse_children p cs = Some ds" "list_all (well_typed q) cs" "list_all (plain_leaf p) cs"
  shows "map (compile_clause p) ds = cs"
proof -
  note ds = parse_children_okD[OF assms(1)]
  have "compile_clause p (the (parse_node p c)) = c" if "c \<in> set cs" for c
    using that ds(3) assms(2,3) compile_parsed_node[of p c _ q] by (fastforce simp: list_all_iff)
  then show ?thesis unfolding ds(2) by (simp add: map_idI)
qed

lemma compile_parsed_form:
  assumes "parse_form p c = Some (combinator, ds)" "well_typed q c" "plain_form p c"
  shows "compile_form p combinator ds = unwrapped c"
proof (cases c)
  case (All cs)
  with assms compile_parsed_children[of p cs ds q] show ?thesis
    by (auto simp: parse_form_def plain_form_def compile_form_def unwrapped_def split: list.split)
next
  case (Any cs)
  with assms compile_parsed_children[of p cs ds q] show ?thesis
    by (auto simp: parse_form_def plain_form_def compile_form_def unwrapped_def split: list.split)
qed (use assms compile_parsed_node[of p c _ q] in \<open>auto simp: parse_form_def plain_form_def compile_form_def unwrapped_def\<close>)

lemma compile_with_id [simp]: "compile_clause p (with_id n c) = compile_clause p c"
  by (cases "cb_attr c") (simp_all add: compile_clause_def split: option.split)

lemma compile_numbered [simp]: "map (compile_clause p) (numbered n cs) = map (compile_clause p) cs"
  by (induction cs arbitrary: n) simp_all

text \<open>What the builder hands over as it opens.\<close>

lemma builder_opens:
  assumes "parse_form p c = Some (combinator, ds)"
  shows "compile_form p (bd_combinator (builder_init p (Some c))) (bd_clauses (builder_init p (Some c))) = compile_form p combinator ds"
  using assms by (simp add: builder_init_def compile_form_def numbered_def[symmetric])

end
