(* ===== verification/Forms.thy ===== *)
theory Forms
  imports ConditionForm AdminEndpoints Bff
begin

text \<open>
  The forms of the console (apps/console, components/console and components/playground): the policy form, the relationship form, the
  namespace form and the panels of the playground, from what they open to the request they send. A form is a record of its React
  state; an event handler is a function on it. The requests are those of theory AdminEndpoints.
\<close>

section \<open>The catalog\<close>

text \<open>\<open>useCatalog\<close>: what the forms offer, from the namespaces and tuples that were loaded. \<open>localeCompare\<close> compares the
  sort keys of the browser's collation, the argument \<open>collate\<close>.\<close>

definition sorted_names :: "(string \<Rightarrow> string) \<Rightarrow> string list \<Rightarrow> string list" where
  "sorted_names collate names = sort_key collate (dedup names)"

record catalog =
  cat_loading :: bool
  cat_unauthorized :: bool
  cat_namespaces :: "namespace_summary_view list"
  cat_tuples :: "tuple_view list"

datatype 'a loaded = LoadedOk 'a | LoadedUnauthorized | LoadedOther

definition catalog_empty :: catalog where
  "catalog_empty = \<lparr>cat_loading = True, cat_unauthorized = False, cat_namespaces = [], cat_tuples = []\<rparr>"

definition catalog_loaded :: "namespace_summary_view list loaded \<Rightarrow> tuple_view list loaded \<Rightarrow> catalog \<Rightarrow> catalog" where
  "catalog_loaded namespaces tuples c = c\<lparr>cat_loading := False,
     cat_unauthorized := cat_unauthorized c \<or> namespaces = LoadedUnauthorized \<or> tuples = LoadedUnauthorized,
     cat_namespaces := (case namespaces of LoadedOk ns \<Rightarrow> ns | _ \<Rightarrow> cat_namespaces c),
     cat_tuples := (case tuples of LoadedOk ts \<Rightarrow> ts | _ \<Rightarrow> cat_tuples c)\<rparr>"

text \<open>\<open>new Map(namespaces.map(...)).get(type)\<close>: the last of a name.\<close>

definition catalog_namespace :: "string \<Rightarrow> catalog \<Rightarrow> namespace_summary_view option" where
  "catalog_namespace t c = find (\<lambda>n. nsv_namespace n = t) (rev (cat_namespaces c))"

definition namespace_names :: "(string \<Rightarrow> string) \<Rightarrow> catalog \<Rightarrow> string list" where
  "namespace_names collate c = sorted_names collate (map nsv_namespace (cat_namespaces c))"

definition resource_types :: "(string \<Rightarrow> string) \<Rightarrow> catalog \<Rightarrow> string list" where
  "resource_types collate c =
     sorted_names collate (map nsv_namespace (cat_namespaces c) @ map (ref_type \<circ> tv_object) (cat_tuples c))"

definition catalog_subjects :: "(string \<Rightarrow> string) \<Rightarrow> catalog \<Rightarrow> string list" where
  "catalog_subjects collate c =
     sorted_names collate (map (\<lambda>v. sv_type (tv_subject v) @ '':'' @ sv_id (tv_subject v))
       (filter (\<lambda>v. sv_relation (tv_subject v) = None) (cat_tuples c)))"

definition object_ids_for :: "(string \<Rightarrow> string) \<Rightarrow> catalog \<Rightarrow> string \<Rightarrow> string list" where
  "object_ids_for collate c t =
     sorted_names collate (map (ref_id \<circ> tv_object) (filter (\<lambda>v. ref_type (tv_object v) = t) (cat_tuples c)))"

definition relations_for :: "(string \<Rightarrow> string) \<Rightarrow> catalog \<Rightarrow> string \<Rightarrow> string list" where
  "relations_for collate c t =
     sorted_names collate ((case catalog_namespace t c of Some n \<Rightarrow> nsv_relations n | None \<Rightarrow> []) @
       map tv_relation (filter (\<lambda>v. ref_type (tv_object v) = t) (cat_tuples c)))"

definition actions_for :: "(string \<Rightarrow> string) \<Rightarrow> catalog \<Rightarrow> string \<Rightarrow> string list" where
  "actions_for collate c t = sorted_names collate (case catalog_namespace t c of Some n \<Rightarrow> nsv_actions n | None \<Rightarrow> [])"

section \<open>The end of a submission\<close>

text \<open>Where the form leads after the answer, and whether it is still saving: \<open>Stay\<close> with the message it shows, None for the
  translated one of an unavailable service.\<close>

datatype form_exit = Stay "string option" | ToLogin | ToList

definition submit_answered :: "api_result \<Rightarrow> bool \<times> form_exit" where
  "submit_answered result =
     (case result of
        ApiUnauthorized \<Rightarrow> (True, ToLogin)
      | ApiOk data \<Rightarrow> (True, ToList)
      | ApiError message \<Rightarrow> (False, Stay (Some message))
      | ApiUnavailable \<Rightarrow> (False, Stay None))"

section \<open>The policy form\<close>

record policy_form =
  pf_id :: string
  pf_effect :: policy_effect
  pf_resource_type :: string
  pf_action :: string
  pf_raw :: bool
  pf_condition :: "condition option"
  pf_saving :: bool

definition wildcard :: string where
  "wildcard = ''*''"

definition policy_form_init :: "text_platform \<Rightarrow> policy_view option \<Rightarrow> policy_form" where
  "policy_form_init p initial =
     (case initial of
        None \<Rightarrow> \<lparr>pf_id = [], pf_effect = ForbidPolicy, pf_resource_type = [], pf_action = wildcard, pf_raw = False,
          pf_condition = None, pf_saving = False\<rparr>
      | Some v \<Rightarrow> \<lparr>pf_id = pv_id v, pf_effect = pv_effect v, pf_resource_type = pv_resource_type v, pf_action = pv_action v,
          pf_raw = parse_form p (pv_condition v) = None, pf_condition = Some (pv_condition v), pf_saving = False\<rparr>)"

text \<open>The condition the builder starts from: the stored one, where it can show it.\<close>

definition builder_initial :: "text_platform \<Rightarrow> policy_view option \<Rightarrow> condition option" where
  "builder_initial p initial =
     (case initial of
        None \<Rightarrow> None
      | Some v \<Rightarrow> if parse_form p (pv_condition v) \<noteq> None then Some (pv_condition v) else None)"

text \<open>The effects that run once the form is shown: the builder hands over what it compiled, and an empty resource type becomes the
  first one of the catalog.\<close>

definition builder_changed :: "text_platform \<Rightarrow> builder \<Rightarrow> policy_form \<Rightarrow> policy_form" where
  "builder_changed p b form = form\<lparr>pf_condition := Some (compile_form p (bd_combinator b) (bd_clauses b))\<rparr>"

definition policy_form_shown :: "text_platform \<Rightarrow> string list \<Rightarrow> policy_view option \<Rightarrow> policy_form" where
  "policy_form_shown p names initial =
     (let form = policy_form_init p initial;
          form = (if pf_raw form then form else builder_changed p (builder_init p (builder_initial p initial)) form) in
      if pf_resource_type form = [] \<and> names \<noteq> [] then form\<lparr>pf_resource_type := hd names\<rparr> else form)"

definition policy_form_can_submit :: "policy_form \<Rightarrow> bool" where
  "policy_form_can_submit form \<longleftrightarrow> js_trim (pf_id form) \<noteq> [] \<and> js_trim (pf_resource_type form) \<noteq> [] \<and>
     js_trim (pf_action form) \<noteq> [] \<and> pf_condition form \<noteq> None \<and> \<not> pf_saving form"

definition policy_form_submit :: "policy_form \<Rightarrow> pap_request option" where
  "policy_form_submit form =
     (if \<not> policy_form_can_submit form then None
      else case pf_condition form of
        None \<Rightarrow> None
      | Some c \<Rightarrow> Some (WritePolicy (js_trim (pf_id form)) (Some \<lparr>pd_id = None, pd_effect = pf_effect form,
          pd_resource_type = js_trim (pf_resource_type form), pd_action = js_trim (pf_action form), pd_condition = c\<rparr>)))"

definition policy_form_sent :: "policy_form \<Rightarrow> policy_form" where
  "policy_form_sent form = (if policy_form_can_submit form then form\<lparr>pf_saving := True\<rparr> else form)"

text \<open>\<open>setRawMode(false)\<close>: a condition the builder cannot show is replaced by the builder's first one.\<close>

definition policy_form_replace :: "text_platform \<Rightarrow> policy_form \<Rightarrow> policy_form" where
  "policy_form_replace p form = builder_changed p (builder_init p None) (form\<lparr>pf_raw := False\<rparr>)"

definition policy_form_answered :: "api_result \<Rightarrow> policy_form \<Rightarrow> policy_form \<times> form_exit" where
  "policy_form_answered result form = (form\<lparr>pf_saving := fst (submit_answered result)\<rparr>, snd (submit_answered result))"

section \<open>The relationship form\<close>

record tuple_form =
  tf_object_type :: string
  tf_object_id :: string
  tf_relation :: string
  tf_subject_type :: string
  tf_subject_id :: string
  tf_subject_relation :: string
  tf_saving :: bool

definition tuple_form_init :: tuple_form where
  "tuple_form_init = \<lparr>tf_object_type = [], tf_object_id = [], tf_relation = [], tf_subject_type = ''user'', tf_subject_id = [],
     tf_subject_relation = [], tf_saving = False\<rparr>"

text \<open>The effects of the catalog: the first type, and the first relation where the chosen one is not among them.\<close>

definition tuple_form_catalog :: "(string \<Rightarrow> string) \<Rightarrow> catalog \<Rightarrow> tuple_form \<Rightarrow> tuple_form" where
  "tuple_form_catalog collate c form =
     (let types = resource_types collate c;
          form = (if tf_object_type form = [] \<and> types \<noteq> [] then form\<lparr>tf_object_type := hd types\<rparr> else form);
          relations = relations_for collate c (tf_object_type form) in
      if relations \<noteq> [] \<and> tf_relation form \<notin> set relations then form\<lparr>tf_relation := hd relations\<rparr> else form)"

definition tuple_form_can_submit :: "tuple_form \<Rightarrow> bool" where
  "tuple_form_can_submit form \<longleftrightarrow> js_trim (tf_object_type form) \<noteq> [] \<and> js_trim (tf_object_id form) \<noteq> [] \<and>
     js_trim (tf_relation form) \<noteq> [] \<and> js_trim (tf_subject_type form) \<noteq> [] \<and> js_trim (tf_subject_id form) \<noteq> [] \<and> \<not> tf_saving form"

definition tuple_form_submit :: "tuple_form \<Rightarrow> pap_request option" where
  "tuple_form_submit form =
     (if \<not> tuple_form_can_submit form then None
      else Some (WriteTuple (Some \<lparr>td_object = \<lparr>ref_type = js_trim (tf_object_type form), ref_id = js_trim (tf_object_id form)\<rparr>,
        td_relation = js_trim (tf_relation form),
        td_subject = \<lparr>ref_type = js_trim (tf_subject_type form), ref_id = js_trim (tf_subject_id form)\<rparr>,
        td_subject_relation = (if js_trim (tf_subject_relation form) = [] then None else Some (js_trim (tf_subject_relation form)))\<rparr>)))"

definition tuple_form_sent :: "tuple_form \<Rightarrow> tuple_form" where
  "tuple_form_sent form = (if tuple_form_can_submit form then form\<lparr>tf_saving := True\<rparr> else form)"

definition tuple_form_written :: "tuple_form \<Rightarrow> tuple_form" where
  "tuple_form_written form = form\<lparr>tf_object_id := [], tf_subject_id := [], tf_subject_relation := [], tf_saving := False\<rparr>"

definition tuple_form_answered :: "api_result \<Rightarrow> tuple_form \<Rightarrow> tuple_form \<times> form_exit" where
  "tuple_form_answered result form =
     (case result of
        ApiOk data \<Rightarrow> (tuple_form_written form, Stay None)
      | _ \<Rightarrow> (form\<lparr>tf_saving := fst (submit_answered result)\<rparr>, snd (submit_answered result)))"

text \<open>\<open>RevokeTupleButton\<close> and \<open>DeletePolicyButton\<close>\<close>

definition revoke_request :: "tuple_view \<Rightarrow> pap_request" where
  "revoke_request v = RevokeTuple (Some \<lparr>td_object = tv_object v, td_relation = tv_relation v,
     td_subject = \<lparr>ref_type = sv_type (tv_subject v), ref_id = sv_id (tv_subject v)\<rparr>,
     td_subject_relation = sv_relation (tv_subject v)\<rparr>)"

definition delete_request :: "policy_view \<Rightarrow> pap_request" where
  "delete_request v = DeletePolicy (pv_id v)"

section \<open>The namespace form\<close>

text \<open>A relation's rewrite is edited as a list of simple terms; another tree is shown as it is.\<close>

datatype rewrite_entry = Terms "userset list" | Raw userset

fun simple_kind :: "userset \<Rightarrow> bool" where
  "simple_kind This \<longleftrightarrow> True"
| "simple_kind (ComputedUserset relation) \<longleftrightarrow> True"
| "simple_kind (TupleToUserset tupleset computed) \<longleftrightarrow> True"
| "simple_kind _ \<longleftrightarrow> False"

definition userset_to_terms :: "userset \<Rightarrow> userset list option" where
  "userset_to_terms u =
     (if simple_kind u then Some [u]
      else case u of Union children \<Rightarrow> if list_all simple_kind children then Some children else None | _ \<Rightarrow> None)"

definition terms_to_userset :: "userset list \<Rightarrow> userset option" where
  "terms_to_userset terms = (case terms of [] \<Rightarrow> None | [t] \<Rightarrow> Some t | _ \<Rightarrow> Some (Union terms))"

definition entry_of :: "userset \<Rightarrow> rewrite_entry" where
  "entry_of tree = (case userset_to_terms tree of Some terms \<Rightarrow> Terms terms | None \<Rightarrow> Raw tree)"

definition initial_rewrites :: "namespace_detail_view option \<Rightarrow> (string \<times> rewrite_entry) list" where
  "initial_rewrites detail = (case detail of None \<Rightarrow> [] | Some d \<Rightarrow> map (apsnd entry_of) (ndv_rewrites d))"

record namespace_form =
  nf_namespace :: string
  nf_relations :: "string list"
  nf_draft :: string
  nf_actions :: "(string \<times> string list) list"
  nf_rewrites :: "(string \<times> rewrite_entry) list"
  nf_saving :: bool

definition namespace_form_init :: "namespace_detail_view option \<Rightarrow> namespace_form" where
  "namespace_form_init initial =
     \<lparr>nf_namespace = (case initial of Some d \<Rightarrow> ndv_namespace d | None \<Rightarrow> []),
      nf_relations = (case initial of Some d \<Rightarrow> ndv_relations d | None \<Rightarrow> []), nf_draft = [],
      nf_actions = (case initial of Some d \<Rightarrow> ndv_actions d | None \<Rightarrow> []), nf_rewrites = initial_rewrites initial, nf_saving = False\<rparr>"

definition add_relation :: "namespace_form \<Rightarrow> namespace_form" where
  "add_relation form =
     (let v = js_trim (nf_draft form) in
      if v = [] \<or> v \<in> set (nf_relations form) then form\<lparr>nf_draft := []\<rparr>
      else form\<lparr>nf_relations := nf_relations form @ [v], nf_draft := []\<rparr>)"

definition remove_relation :: "string \<Rightarrow> namespace_form \<Rightarrow> namespace_form" where
  "remove_relation relation form = form\<lparr>nf_relations := filter (\<lambda>r. r \<noteq> relation) (nf_relations form),
     nf_actions := map (apsnd (filter (\<lambda>r. r \<noteq> relation))) (nf_actions form),
     nf_rewrites := filter (\<lambda>e. fst e \<noteq> relation) (nf_rewrites form)\<rparr>"

definition add_action :: "namespace_form \<Rightarrow> namespace_form" where
  "add_action form = form\<lparr>nf_actions := nf_actions form @ [([], [])]\<rparr>"

definition remove_action :: "nat \<Rightarrow> namespace_form \<Rightarrow> namespace_form" where
  "remove_action i form = form\<lparr>nf_actions := take i (nf_actions form) @ drop (Suc i) (nf_actions form)\<rparr>"

definition change_action :: "nat \<Rightarrow> (string \<times> string list \<Rightarrow> string \<times> string list) \<Rightarrow> namespace_form \<Rightarrow> namespace_form" where
  "change_action i f form = form\<lparr>nf_actions := map (\<lambda>(k, a). if k = i then f a else a) (enumerate 0 (nf_actions form))\<rparr>"

definition rename_verb :: "nat \<Rightarrow> string \<Rightarrow> namespace_form \<Rightarrow> namespace_form" where
  "rename_verb i verb = change_action i (\<lambda>a. (verb, snd a))"

definition toggle_relation :: "nat \<Rightarrow> string \<Rightarrow> namespace_form \<Rightarrow> namespace_form" where
  "toggle_relation i relation = change_action i (\<lambda>a. (fst a,
     if relation \<in> set (snd a) then filter (\<lambda>r. r \<noteq> relation) (snd a) else snd a @ [relation]))"

definition set_entry_terms :: "string \<Rightarrow> userset list \<Rightarrow> namespace_form \<Rightarrow> namespace_form" where
  "set_entry_terms relation terms form = form\<lparr>nf_rewrites := AList.update relation (Terms terms) (nf_rewrites form)\<rparr>"

definition entry_terms :: "string \<Rightarrow> namespace_form \<Rightarrow> userset list" where
  "entry_terms relation form = (case map_of (nf_rewrites form) relation of Some (Terms terms) \<Rightarrow> terms | _ \<Rightarrow> [])"

definition add_term :: "string \<Rightarrow> namespace_form \<Rightarrow> namespace_form" where
  "add_term relation form = set_entry_terms relation (entry_terms relation form @ [This]) form"

definition remove_term :: "string \<Rightarrow> nat \<Rightarrow> namespace_form \<Rightarrow> namespace_form" where
  "remove_term relation i form =
     set_entry_terms relation (take i (entry_terms relation form) @ drop (Suc i) (entry_terms relation form)) form"

definition change_term :: "string \<Rightarrow> nat \<Rightarrow> userset \<Rightarrow> namespace_form \<Rightarrow> namespace_form" where
  "change_term relation i t form = set_entry_terms relation ((entry_terms relation form)[i := t]) form"

datatype term_kind = KindThis | KindComputed | KindTupleTo

text \<open>\<open>TermRow\<close>: a new kind starts from the first relation.\<close>

definition term_of_kind :: "string list \<Rightarrow> term_kind \<Rightarrow> userset" where
  "term_of_kind relations kind =
     (let first = (case relations of r # _ \<Rightarrow> r | [] \<Rightarrow> []) in
      case kind of KindThis \<Rightarrow> This | KindComputed \<Rightarrow> ComputedUserset first | KindTupleTo \<Rightarrow> TupleToUserset first [])"

definition namespace_form_can_submit :: "namespace_form \<Rightarrow> bool" where
  "namespace_form_can_submit form \<longleftrightarrow> js_trim (nf_namespace form) \<noteq> [] \<and> nf_relations form \<noteq> [] \<and>
     list_all (\<lambda>a. js_trim (fst a) \<noteq> [] \<and> snd a \<noteq> []) (nf_actions form) \<and> \<not> nf_saving form"

text \<open>\<open>actionRecord[row.verb.trim()] = row.relations\<close>\<close>

definition action_record :: "(string \<times> string list) list \<Rightarrow> (string \<times> string list) list" where
  "action_record rows = foldl (\<lambda>acc a. AList.update (js_trim (fst a)) (snd a) acc) [] rows"

definition entry_tree :: "rewrite_entry \<Rightarrow> userset option" where
  "entry_tree e = (case e of Raw tree \<Rightarrow> Some tree | Terms terms \<Rightarrow> terms_to_userset terms)"

definition rewrite_record :: "(string \<times> rewrite_entry) list \<Rightarrow> (string \<times> userset) list" where
  "rewrite_record entries = List.map_filter (\<lambda>(relation, e). map_option (Pair relation) (entry_tree e)) entries"

definition namespace_form_submit :: "namespace_form \<Rightarrow> pap_request option" where
  "namespace_form_submit form =
     (if \<not> namespace_form_can_submit form then None
      else Some (DefineNamespace (js_trim (nf_namespace form)) (Some
        \<lparr>data_relations = nf_relations form, data_actions = action_record (nf_actions form),
         data_rewrites = (if rewrite_record (nf_rewrites form) = [] then None else Some (rewrite_record (nf_rewrites form)))\<rparr>)))"

definition namespace_form_sent :: "namespace_form \<Rightarrow> namespace_form" where
  "namespace_form_sent form = (if namespace_form_can_submit form then form\<lparr>nf_saving := True\<rparr> else form)"

definition namespace_form_answered :: "api_result \<Rightarrow> namespace_form \<Rightarrow> namespace_form \<times> form_exit" where
  "namespace_form_answered result form = (form\<lparr>nf_saving := fst (submit_answered result)\<rparr>, snd (submit_answered result))"

section \<open>The playground\<close>

text \<open>\<open>parseSubject\<close> of the check panel.\<close>

definition parse_subject_text :: "string \<Rightarrow> entity_ref" where
  "parse_subject_text v =
     (case index_of CHR '':'' v of
        None \<Rightarrow> \<lparr>ref_type = ''user'', ref_id = js_trim v\<rparr>
      | Some i \<Rightarrow> \<lparr>ref_type = js_trim (take i v), ref_id = js_trim (drop (Suc i) v)\<rparr>)"

definition pick_option :: "string list \<Rightarrow> string \<Rightarrow> string" where
  "pick_option options current = (if current \<in> set options then current else case options of [] \<Rightarrow> current | first # _ \<Rightarrow> first)"

record check_panel =
  cp_as_subject :: bool
  cp_subject :: string
  cp_aal :: string
  cp_resource_type :: string
  cp_resource_id :: string
  cp_verb :: string

definition panel_change_type :: "(string \<Rightarrow> string) \<Rightarrow> catalog \<Rightarrow> string \<Rightarrow> check_panel \<Rightarrow> check_panel" where
  "panel_change_type collate c next panel = panel\<lparr>cp_resource_type := next,
     cp_resource_id := pick_option (object_ids_for collate c next) (cp_resource_id panel),
     cp_verb := pick_option (actions_for collate c next) (cp_verb panel)\<rparr>"

datatype panel_call = AskCheck check_dto | AskCheckAs check_as_dto

text \<open>\<open>Number(aal)\<close> of a value of the selection, a digit.\<close>

definition panel_request :: "check_panel \<Rightarrow> panel_call" where
  "panel_request panel =
     (let dto = \<lparr>cd_action = cp_resource_type panel @ ''.'' @ cp_verb panel,
            cd_resource = \<lparr>ref_type = cp_resource_type panel, ref_id = cp_resource_id panel\<rparr>, cd_token = None\<rparr> in
      if cp_as_subject panel
      then AskCheckAs (check_dto.extend dto \<lparr>ad_subject = parse_subject_text (cp_subject panel), ad_aal = Some (int (dec_value (cp_aal panel)))\<rparr>)
      else AskCheck dto)"

definition simulate_request :: "string \<Rightarrow> string \<Rightarrow> string \<Rightarrow> bool \<Rightarrow> policy_effect \<Rightarrow> condition option \<Rightarrow> simulate_dto" where
  "simulate_request resource_type resource_id verb with_policy effect cond =
     check_dto.extend \<lparr>cd_action = resource_type @ ''.'' @ verb, cd_resource = \<lparr>ref_type = resource_type, ref_id = resource_id\<rparr>,
         cd_token = None\<rparr>
       \<lparr>sd_policies = (case cond of
          Some c \<Rightarrow> if with_policy then Some [\<lparr>pd_id = None, pd_effect = effect, pd_resource_type = resource_type, pd_action = verb,
            pd_condition = c\<rparr>] else None
        | None \<Rightarrow> None)\<rparr>"

end
