(* ===== verification/FormSafety.thy ===== *)
theory FormSafety
  imports Forms
begin

text \<open>
  What the forms of the console send, and what it does in the service: a built condition is accepted and enforced as the clauses
  say, and a stored policy that is opened and saved unchanged keeps its meaning, unless it compares with a time.
\<close>

section \<open>The built condition\<close>

text \<open>C13: What the operator builds is what the service enforces. Take any sequence of edits in the builder (clauses added, removed
  and changed, presets applied, a stored condition opened), and a browser and a service that read time alike. The service accepts
  the compiled condition exactly when there are fewer than 64 clauses and every value can be saved: a clause about the time holds a
  time, not a blank, and a clause about networks at least one network and only networks. Then it evaluates the condition as the
  clauses combined: each clause compares its attribute with its value, and the combinator asks for all of them or for any, in the
  logic of three values.\<close>
theorem built_condition_is_enforced:
  assumes "builder_run p initial b" "\<And>c. initial = Some c \<Longrightarrow> well_typed q c" "one_clock p q"
  shows "(parse_condition q (compile_form p (bd_combinator b) (bd_clauses b)) = ok (compile_form p (bd_combinator b) (bd_clauses b)) \<longleftrightarrow>
      length (bd_clauses b) < max_condition_nodes \<and> (\<forall>c \<in> set (bd_clauses b). value_ok p c)) \<and>
    ((\<forall>c \<in> set (bd_clauses b). value_ok p c) \<longrightarrow>
      eval_condition q ctx (compile_form p (bd_combinator b) (bd_clauses b)) =
        form_verdict (bd_combinator b) (clause_verdict p q ctx ` set (bd_clauses b)))"
proof -
  have "builder_ok b" using assms(1,2) by (intro builder_run_ok[of initial q p b]) auto
  then have "bd_clauses b \<noteq> []" "\<forall>c \<in> set (bd_clauses b). op_fits c" by (simp_all add: builder_ok_def)
  then show ?thesis using compile_form_accepted[OF _ _ assms(3)] compile_form_verdict assms(3)[unfolded one_clock_def] by blast
qed

text \<open>Browser and service in one time zone, with one time written on the keyboard.\<close>

definition one_time :: "string \<Rightarrow> date \<Rightarrow> text_platform" where
  "one_time s t = plain_text_platform\<lparr>js_date_parse := (\<lambda>u. if u = s \<or> u = to_iso_string t then Some t else None)\<rparr>"

lemma one_time_instants: "same_instants (one_time s t) (platform.truncate (one_time s t))"
  by (simp add: same_instants_def one_time_def platform.truncate_def)

lemma one_time_clock: "s \<noteq> [] \<Longrightarrow> one_clock (one_time s t) (platform.truncate (one_time s t))"
  by (simp add: one_clock_def one_time_instants) (auto simp: one_time_def platform.truncate_def)

definition sample_built :: builder where
  "sample_built = update_clause ''c1'' (PatchValue ''203.0.113.0/24, 10.0.0.0/8'') (update_clause ''c1'' (PatchAttr AttrCidr)
     (add_clause (builder_init plain_text_platform None)))"

lemma sample_built_run: "builder_run plain_text_platform None sample_built"
  unfolding sample_built_def by (intro builder_run.intros)

text \<open>The preset with a deadline is accepted and holds before it; with its time deleted it is refused.\<close>

theorem built_condition_is_enforced_witness:
  "let p = one_time ''2026-12-31T23:59'' 1798761540000; q = platform.truncate p; b = apply_preset (presets ! 2) (builder_init p None);
     c = compile_form p CombineAnd (bd_clauses b);
     blank = compile_form p CombineAnd (bd_clauses (update_clause ''c1'' (PatchValue []) b)) in
   parse_condition q c = ok c \<and> eval_condition q sample_context c = VTrue \<and> parse_condition q blank \<noteq> ok blank"
proof -
  let ?p = "one_time ''2026-12-31T23:59'' 1798761540000"
  let ?q = "platform.truncate ?p"
  let ?b = "apply_preset (presets ! 2) (builder_init ?p None)"
  let ?e = "update_clause ''c1'' (PatchValue []) ?b"
  have run: "builder_run ?p None ?b"
    by (intro builder_run.intros) (simp add: presets_def)
  then have blank: "builder_run ?p None ?e" by (rule builder_run.value_typed)
  have clauses: "bd_clauses ?b = [with_id 1 \<lparr>cb_attr = AttrNow, cb_op = Le, cb_value = ''2026-12-31T23:59''\<rparr>]" "bd_combinator ?b = CombineAnd"
    by (simp_all add: apply_preset_def presets_def builder_init_def)
  then have edited: "\<not> (\<forall>c \<in> set (bd_clauses ?e). value_ok ?p c)" "bd_combinator ?e = CombineAnd"
    by (simp_all add: update_clause_def patch_clause_def value_ok_def clause_id_def with_id_def clause_body.defs digits.simps digit_char_def)
  have clock: "one_clock ?p ?q" by (rule one_time_clock) simp
  have usable: "\<forall>c \<in> set (bd_clauses ?b). value_ok ?p c" "length (bd_clauses ?b) < max_condition_nodes"
    unfolding clauses by (simp_all add: value_ok_def one_time_def max_condition_nodes_def)
  have verdict: "form_verdict CombineAnd (clause_verdict ?p ?q sample_context ` set (bd_clauses ?b)) = VTrue"
    unfolding clauses by (simp add: clause_verdict_def one_time_def sample_context_def verdict_of_def)
  from built_condition_is_enforced[OF run _ clock] usable verdict built_condition_is_enforced[OF blank _ clock] edited clauses(2)
  show ?thesis by (simp add: Let_def)
qed

text \<open>A clause that was added and left blank is not refused and does not stay out: it compiles to an assurance level of at least 0.\<close>

lemma blank_clause_verdict:
  assumes "js_number p [] = Some 0" "0 \<le> ctx_aal ctx"
  shows "eval_condition q ctx (compile_clause p (with_id n \<lparr>cb_attr = AttrAal, cb_op = Ge, cb_value = []\<rparr>)) = VTrue"
  using assms by (simp add: compile_clause_def verdict_of_def)

text \<open>A blank clause disables an alternative. Adding a clause to a condition of which any clause suffices, and leaving its value
  blank, gives a condition that the service accepts whenever it accepted the others, and that holds for every caller.\<close>
theorem blank_clause_admits_everyone:
  assumes "js_number p [] = Some 0" "0 \<le> ctx_aal ctx" "bd_combinator b = CombineOr" "bd_clauses b \<noteq> []"
  shows "eval_condition q ctx (compile_form p (bd_combinator (add_clause b)) (bd_clauses (add_clause b))) = VTrue \<and>
    (parse_condition q (Any (map (compile_clause p) (bd_clauses b))) = ok (Any (map (compile_clause p) (bd_clauses b))) \<and>
       length (bd_clauses b) + 1 < max_condition_nodes \<longrightarrow>
     parse_condition q (compile_form p (bd_combinator (add_clause b)) (bd_clauses (add_clause b))) =
       ok (compile_form p (bd_combinator (add_clause b)) (bd_clauses (add_clause b))))"
proof -
  let ?blank = "with_id (bd_next b) \<lparr>cb_attr = AttrAal, cb_op = Ge, cb_value = []\<rparr>"
  have added: "compile_form p (bd_combinator (add_clause b)) (bd_clauses (add_clause b)) =
      Any (map (compile_clause p) (bd_clauses b @ [?blank]))"
    using assms(3,4) by (cases "bd_clauses b") (auto simp: add_clause_def compile_form_def split: list.split)
  have "well_typed q (compile_clause p ?blank)"
    by (simp add: compile_clause_def check_cmp_def comparable_def Let_def)
  moreover have "VTrue \<in> eval_condition q ctx ` set (map (compile_clause p) (bd_clauses b @ [?blank]))"
    using blank_clause_verdict[OF assms(1,2), of q "bd_next b"] by force
  ultimately show ?thesis unfolding added
    by (simp add: any_loop_eq accepted_iff leaves_size leaves_height compile_clause_leaf max_condition_depth_def
        del: compile_with_id)
qed

definition sample_either :: builder where
  "sample_either = (builder_init plain_text_platform (Some (Any [Cmp Eq (Attr EnvIp) (Lit (LStr ''10.0.0.9''))])))"

theorem blank_clause_admits_everyone_witness:
  "eval_condition plain_platform sample_context (compile_form plain_text_platform (bd_combinator sample_either) (bd_clauses sample_either)) = VFalse \<and>
   eval_condition plain_platform sample_context (compile_form plain_text_platform CombineOr (bd_clauses (add_clause sample_either))) = VTrue"
proof -
  have b: "bd_combinator sample_either = CombineOr" "bd_clauses sample_either \<noteq> []" by code_simp+
  have blank: "js_number plain_text_platform [] = Some 0"
    by (simp add: plain_text_platform_def plain_platform_def platform.extend_def dec_value_def)
  have "0 \<le> ctx_aal sample_context" by (simp add: sample_context_def)
  from blank_clause_admits_everyone[OF blank this b, of plain_platform, THEN conjunct1] b(1)
  have "eval_condition plain_platform sample_context (compile_form plain_text_platform CombineOr (bd_clauses (add_clause sample_either))) = VTrue"
    by (simp add: add_clause_def)
  moreover have "eval_condition plain_platform sample_context
      (compile_form plain_text_platform (bd_combinator sample_either) (bd_clauses sample_either)) = VFalse" by code_simp
  ultimately show ?thesis by blast
qed

section \<open>A stored policy, opened and saved\<close>

lemma well_typed_schema: "well_typed q c \<Longrightarrow> condition_schema c"
  by (induction c) (auto simp: list_all_iff check_in_def check_ip_in_cidr_def split: list.splits if_splits)

lemma unwrapped_accepted:
  assumes "parse_condition q c = ok c"
  shows "parse_condition q (unwrapped c) = ok (unwrapped c)"
proof -
  have "well_typed q (unwrapped c)" "condition_size (unwrapped c) \<le> condition_size c" "condition_height (unwrapped c) \<le> condition_height c"
    using assms by (auto simp: accepted_iff unwrapped_def split: condition.split list.split)
  with assms show ?thesis by (auto simp: accepted_iff)
qed

lemma identifier_trim: "is_identifier s \<Longrightarrow> s \<noteq> [] \<and> js_trim s = s"
proof -
  assume i: "is_identifier s"
  have plain: "\<not> is_space c" if "is_identifier_char c" for c
    using that by (auto simp: is_identifier_char_def is_letter_def is_digit_def is_space_def)
  have "\<forall>c \<in> set s. is_identifier_char c"
    using i by (auto simp: is_identifier_def is_identifier_char_def list_all_iff split: list.splits)
  with plain i show ?thesis by (intro conjI js_trim_plain) (auto simp: is_identifier_def split: list.splits)
qed

text \<open>A view that the forms of the service could have written.\<close>

definition form_view :: "policy_view \<Rightarrow> bool" where
  "form_view v \<longleftrightarrow> is_identifier (pv_id v) \<and> schema_identifier (pv_resource_type v) \<and>
     (pv_action v = any_action \<or> schema_identifier (pv_action v))"

definition unchanged_save :: "text_platform \<Rightarrow> policy_view \<Rightarrow> policy_dto" where
  "unchanged_save p v = \<lparr>pd_id = None, pd_effect = pv_effect v, pd_resource_type = pv_resource_type v, pd_action = pv_action v,
     pd_condition = (case parse_form p (pv_condition v) of
        Some (combinator, clauses) \<Rightarrow> compile_form p combinator clauses | None \<Rightarrow> pv_condition v)\<rparr>"

lemma unchanged_request:
  assumes "form_view v"
  shows "policy_form_submit (policy_form_shown p names (Some v)) = Some (WritePolicy (pv_id v) (Some (unchanged_save p v)))"
proof -
  have ids: "pv_id v \<noteq> []" "js_trim (pv_id v) = pv_id v" "pv_resource_type v \<noteq> []" "js_trim (pv_resource_type v) = pv_resource_type v"
    using assms identifier_trim by (auto simp: form_view_def schema_identifier_def)
  have "pv_action v \<noteq> [] \<and> js_trim (pv_action v) = pv_action v"
    using assms identifier_trim by (auto simp: form_view_def schema_identifier_def any_action_def js_trim_def is_space_def)
  with ids show ?thesis
    by (auto simp: policy_form_submit_def policy_form_can_submit_def policy_form_shown_def policy_form_init_def Let_def
        builder_changed_def builder_initial_def unchanged_save_def builder_opens split: option.splits)
qed

text \<open>What is sent is the stored condition or a reading of it: in the raw mode the condition itself, otherwise what the builder
  compiles.\<close>

lemma unchanged_save_condition:
  assumes "parse_condition q (pv_condition v) = ok (pv_condition v)"
    and "parse_form p (pv_condition v) \<noteq> None \<longrightarrow> plain_form p (pv_condition v)"
  shows "parse_condition q (pd_condition (unchanged_save p v)) = ok (pd_condition (unchanged_save p v)) \<and>
    eval_condition q ctx (pd_condition (unchanged_save p v)) = eval_condition q ctx (pv_condition v)"
proof (cases "parse_form p (pv_condition v)")
  case (Some r)
  have "well_typed q (pv_condition v)" using assms(1) by (simp add: accepted_iff)
  with Some assms(2) compile_parsed_form have "pd_condition (unchanged_save p v) = unwrapped (pv_condition v)"
    by (cases r) (fastforce simp: unchanged_save_def)
  then show ?thesis using unwrapped_accepted[OF assms(1)] by (simp add: eval_unwrapped)
qed (use assms(1) in \<open>simp add: unchanged_save_def\<close>)

subsection \<open>The table of policies\<close>

text \<open>What evaluating the policies of an organization can tell of them.\<close>

definition policy_readings :: "platform \<Rightarrow> evaluation_context \<Rightarrow> org_id \<Rightarrow> database \<Rightarrow>
    (string \<times> policy_effect \<times> string \<times> string \<times> verdict) list" where
  "policy_readings q ctx org db =
     map (\<lambda>w. (policy_id w, policy_effect w, policy_resource_type w, policy_action w, eval_condition q ctx (policy_condition w)))
       (list_policies_by_org org db)"

lemma upsert_row_map:
  "distinct (map key rs) \<Longrightarrow> key row \<in> key ` set rs \<Longrightarrow>
   upsert_row key change row rs = map (\<lambda>r. if key r = key row then change r else r) rs"
proof (induction rs)
  case (Cons r rs)
  show ?case
  proof (cases "key r = key row")
    case True
    have "key x \<noteq> key row" if "x \<in> set rs" for x using Cons.prems(1) True that by (metis distinct.simps(2) image_eqI image_set list.simps(9))
    then have "map (\<lambda>r. if key r = key row then change r else r) rs = rs" by (intro map_idI) simp
    with True show ?thesis by simp
  qed (use Cons in auto)
qed simp

lemma insort_key_map: "insort_key f (g x) (map g xs) = map g (insort_key (f \<circ> g) x xs)"
  by (induction xs) simp_all

lemma sort_key_map: "sort_key f (map g xs) = map g (sort_key (f \<circ> g) xs)"
  by (induction xs) (simp_all add: insort_key_map comp_def)

lemma changed_conditions_read:
  assumes "db_policies db' = map (\<lambda>r. if pr_id r = i then r\<lparr>pr_condition := c, pr_revision := n\<rparr> else r) (db_policies db)"
    and "\<forall>r \<in> set (db_policies db). pr_id r = i \<longrightarrow> eval_condition q ctx c = eval_condition q ctx (pr_condition r)"
  shows "policy_readings q ctx org db' = policy_readings q ctx org db"
proof -
  let ?g = "\<lambda>r. if pr_id r = i then r\<lparr>pr_condition := c, pr_revision := n\<rparr> else r"
  let ?k = "\<lambda>r. (pr_resource_type r, pr_action r, pr_id r)"
  have keys: "?k \<circ> ?g = ?k" "(\<lambda>r. pr_org r = org_value org) \<circ> ?g = (\<lambda>r. pr_org r = org_value org)"
    by (auto simp: fun_eq_iff)
  have listed: "list_policies_by_org org db' =
      map (policy_to_domain \<circ> ?g) (sort_key ?k (filter (\<lambda>r. pr_org r = org_value org) (db_policies db)))"
    unfolding list_policies_by_org_def assms(1) filter_map sort_key_map keys by simp
  show ?thesis unfolding policy_readings_def listed unfolding list_policies_by_org_def
    using assms(2) by (auto simp: policy_to_domain_def)
qed

text \<open>C14: Opening a stored policy and saving it as it is changes no decision, when the form can give its condition back. A condition
  the builder cannot show is kept as it is; for one it can show, the theorem asks that no clause is about a time and that the
  numbers survive their text (plain_form). For every such policy that is listed in a reachable database, and has the shape the
  service asks of a request (form_view), the form as it is shown sends the policy under its own id; the service takes the
  request; and after it, the policies of every organization have the effects, targets and verdicts they had, in every context.
  A clause about a time is moved, as shown below.\<close>
theorem unchanged_policy_keeps_its_meaning:
  assumes "reachable q db" "token_org claims = Some org" "v \<in> set (directory_list_policies (OrgId org) db)" "form_view v"
    and "parse_form p (pv_condition v) \<noteq> None \<longrightarrow> plain_form p (pv_condition v)"
  shows "\<exists>d token db'. policy_form_submit (policy_form_shown p names (Some v)) = Some (WritePolicy (pv_id v) (Some d)) \<and>
    write_policy_endpoint q (pv_id v) (Some d) claims db = (Inr (ok token), db') \<and>
    (\<forall>ctx other. policy_readings q ctx other db' = policy_readings q ctx other db)"
proof -
  have inv: "rows_inv q db" using store_inv_reachable[OF assms(1)] by (simp add: store_inv_def)
  from assms(3) obtain r where r: "r \<in> set (db_policies db)" "pr_org r = org"
    and v: "pv_id v = pr_id r" "pv_effect v = pr_effect r" "pv_resource_type v = pr_resource_type r" "pv_action v = pr_action r"
      "pv_condition v = pr_condition r"
    by (auto simp: directory_list_policies_def list_policies_by_org_def policy_to_domain_def)
  have accepted: "parse_condition q (pv_condition v) = ok (pv_condition v)" using inv r(1) v(5) by (simp add: rows_inv_def)
  let ?d = "unchanged_save p v" and ?c = "pd_condition (unchanged_save p v)"
  note sent = unchanged_save_condition[OF accepted assms(5)]
  then have parses: "parse_condition q ?c = ok ?c" by blast
  then have "policy_schema ?d"
    using assms(4) well_typed_schema[of q ?c] by (simp add: policy_schema_def unchanged_save_def form_view_def accepted_iff)
  then have written: "write_policy_endpoint q (pv_id v) (Some ?d) claims db =
      (Inr (ok (token_encode q (ConsistencyToken (next_revision db)))),
       policy_upsert \<lparr>policy_id = pv_id v, policy_org = OrgId org, policy_effect = pv_effect v, policy_resource_type = pv_resource_type v,
         policy_action = pv_action v, policy_condition = ?c, policy_revision = next_revision db\<rparr> (allocated_db db))"
    using assms(2,4) parses
    by (auto simp: write_policy_endpoint_def parsed_def writer_policy_def with_transaction_def allocate_alt form_view_def
        schema_identifier_def unchanged_save_def)
  obtain db' where db': "write_policy_endpoint q (pv_id v) (Some ?d) claims db = (Inr (ok (token_encode q (ConsistencyToken (next_revision db)))), db')"
    using written by blast
  have dist: "distinct (map pr_id (db_policies db))" using inv by (simp add: rows_inv_def)
  have same: "s = r" if "s \<in> set (db_policies db)" "pr_id s = pr_id r" for s
    using dist that r(1) by (auto simp: distinct_map inj_on_def)
  have row: "r\<lparr>pr_org := pr_org r, pr_effect := pr_effect r, pr_resource_type := pr_resource_type r, pr_action := pr_action r,
      pr_condition := c, pr_revision := n\<rparr> = r\<lparr>pr_condition := c, pr_revision := n\<rparr>" for c n by (cases r) simp
  have "db_policies db' = map (\<lambda>r. if pr_id r = pv_id v then r\<lparr>pr_condition := ?c, pr_revision := rev_value (next_revision db)\<rparr> else r)
      (db_policies db)"
    using written db' r v dist same
    by (auto simp: policy_upsert_def allocated_db_def upsert_row_map policy_row_of_def row dest!: same)
  then have "policy_readings q ctx other db' = policy_readings q ctx other db" for ctx other
    by (rule changed_conditions_read) (use same v sent in \<open>auto simp: eval_unwrapped\<close>)
  with db' unchanged_request[OF assms(4), of p names] show ?thesis by blast
qed

definition stored_view :: policy_view where
  "stored_view = \<lparr>pv_id = ''p1'', pv_effect = ForbidPolicy, pv_resource_type = ''doc'', pv_action = ''read'',
     pv_condition = Cmp Ge (Attr PrincipalAal) (Lit (LNum 0)), pv_revision = 1\<rparr>"

lemma stored_view_form: "form_view stored_view"
  by code_simp

theorem unchanged_policy_keeps_its_meaning_witness:
  "\<exists>d token db'. policy_form_submit (policy_form_shown plain_text_platform [''doc''] (Some stored_view)) = Some (WritePolicy ''p1'' (Some d)) \<and>
    write_policy_endpoint plain_platform ''p1'' (Some d)
      \<lparr>tok_sub = ''ann'', tok_sid = ''s'', tok_org = Some (org_value sample_org), tok_jti = ''j'', tok_aal = 2, tok_exp = 9\<rparr>
      sample_policy_db = (Inr (ok token), db') \<and>
    (\<forall>ctx other. policy_readings plain_platform ctx other db' = policy_readings plain_platform ctx other sample_policy_db)"
proof -
  have r: "reachable plain_platform sample_policy_db"
    unfolding sample_policy_db_def by (rule reachable.step[OF reachable.start store_step.write_policy])
  have org: "token_org \<lparr>tok_sub = ''ann'', tok_sid = ''s'', tok_org = Some (org_value sample_org), tok_jti = ''j'', tok_aal = 2,
      tok_exp = 9\<rparr> = Some (org_value sample_org)" by code_simp
  have listed: "stored_view \<in> set (directory_list_policies (OrgId (org_value sample_org)) sample_policy_db)" by code_simp
  have plain: "parse_form plain_text_platform (pv_condition stored_view) \<noteq> None \<longrightarrow>
      plain_form plain_text_platform (pv_condition stored_view)" by code_simp
  have "pv_id stored_view = ''p1''" by (simp add: stored_view_def)
  with unchanged_policy_keeps_its_meaning[OF r org listed stored_view_form plain, of "[''doc'']"] show ?thesis by simp
qed

section \<open>Times\<close>

text \<open>C39: A deadline moves when its policy is opened and saved. The stored instant is written in universal time; the form shows its first
  sixteen characters, and reads them back as a time of the browser's zone. So saving the form as it is shown replaces the instant by
  one that differs by the offset of the zone, and the comparison with it decides differently in between.\<close>
theorem saving_moves_the_deadline:
  assumes "form_view v" "pv_condition v = Cmp op (Attr EnvNow) (Lit (LStr (to_iso_string t)))"
    and "js_date_parse p (take 16 (to_iso_string t)) = Some (t - offset)" "same_instants p q"
    and "js_date_parse q (to_iso_string t) = Some t"
  shows "\<exists>d. policy_form_submit (policy_form_shown p names (Some v)) = Some (WritePolicy (pv_id v) (Some d)) \<and>
    eval_condition q ctx (pv_condition v) = ordered op (ctx_now ctx) t \<and>
    eval_condition q ctx (pd_condition d) = ordered op (ctx_now ctx) (t - offset)"
proof -
  have "pd_condition (unchanged_save p v) = Cmp op (Attr EnvNow) (Lit (LStr (to_iso_string (t - offset))))"
    using assms(2,3) by (simp add: unchanged_save_def parse_form_def compile_form_def compile_clause_def)
  moreover have "js_date_parse q (to_iso_string (t - offset)) = Some (t - offset)" using assms(3,4) by (simp add: same_instants_def)
  ultimately show ?thesis
    using unchanged_request[OF assms(1), of p names] assms(2,5) by (simp add: compare_epochs_def)
qed

text \<open>A browser three hours behind universal time, and the last minute of 2026.\<close>

definition zone_platform :: text_platform where
  "zone_platform = plain_text_platform\<lparr>js_date_parse := (\<lambda>u.
     if u = ''2026-12-31T23:59'' then Some 1798772340000
     else if u = ''2026-12-31T23:59:00.000Z'' then Some 1798761540000
     else if u = ''2027-01-01T02:59:00.000Z'' then Some 1798772340000 else None)\<rparr>"

definition deadline_view :: policy_view where
  "deadline_view = stored_view\<lparr>pv_condition := Cmp Le (Attr EnvNow) (Lit (LStr (to_iso_string 1798761540000)))\<rparr>"

theorem saving_moves_the_deadline_witness:
  "\<exists>d. policy_form_submit (policy_form_shown zone_platform [] (Some deadline_view)) = Some (WritePolicy ''p1'' (Some d)) \<and>
    eval_condition (platform.truncate zone_platform) (sample_context\<lparr>ctx_now := 1798765140000\<rparr>) (pv_condition deadline_view) = VFalse \<and>
    eval_condition (platform.truncate zone_platform) (sample_context\<lparr>ctx_now := 1798765140000\<rparr>) (pd_condition d) = VTrue"
proof -
  have t: "to_iso_string 1798761540000 = ''2026-12-31T23:59:00.000Z''" "to_iso_string 1798772340000 = ''2027-01-01T02:59:00.000Z''"
    by code_simp+
  have v: "form_view deadline_view" using stored_view_form by (simp add: deadline_view_def form_view_def)
  have c: "pv_condition deadline_view = Cmp Le (Attr EnvNow) (Lit (LStr (to_iso_string 1798761540000)))" by (simp add: deadline_view_def)
  have read: "js_date_parse zone_platform (take 16 (to_iso_string 1798761540000)) = Some (1798761540000 - (- 10800000))"
    by (simp add: t zone_platform_def)
  have same: "same_instants zone_platform (platform.truncate zone_platform)"
    using t by (simp add: same_instants_def zone_platform_def platform.truncate_def)
  have stored: "js_date_parse (platform.truncate zone_platform) (to_iso_string 1798761540000) = Some 1798761540000"
    by (simp add: t zone_platform_def platform.truncate_def)
  have "pv_id deadline_view = ''p1''" by (simp add: deadline_view_def stored_view_def)
  with saving_moves_the_deadline[OF v c read same stored, of "[]" "sample_context\<lparr>ctx_now := 1798765140000\<rparr>"]
  show ?thesis by (simp add: verdict_of_def)
qed

section \<open>A listed relationship, revoked\<close>

definition view_key :: "string \<Rightarrow> tuple_view \<Rightarrow> tuple_key" where
  "view_key org v = (org, ref_type (tv_object v), ref_id (tv_object v), tv_relation v, encode_subject (to_subject_ref (tv_subject v)))"

definition view_body :: "tuple_view \<Rightarrow> tuple_dto" where
  "view_body v = \<lparr>td_object = tv_object v, td_relation = tv_relation v,
     td_subject = \<lparr>ref_type = sv_type (tv_subject v), ref_id = sv_id (tv_subject v)\<rparr>, td_subject_relation = sv_relation (tv_subject v)\<rparr>"

lemma listed_tuple:
  assumes "directory_list_tuples (OrgId org) query db = Inr vs" "v \<in> set vs"
  shows "\<exists>r \<in> set (db_tuples db). tuple_row_key r = view_key org v"
proof -
  obtain ts where ts: "list_tuples (tuple_filter_of (OrgId org) query) db = Inr ts" "vs = map tuple_view_of ts"
    using assms(1) by (cases "list_tuples (tuple_filter_of (OrgId org) query) db") (auto simp: directory_list_tuples_def)
  with assms(2) obtain t where t: "t \<in> set ts" "v = tuple_view_of t" by auto
  let ?f = "tuple_filter_of (OrgId org) query"
  let ?rows = "slice (filter_limit ?f) (filter_offset ?f)
      (sort_key (\<lambda>r. (tr_namespace r, tr_object_id r, tr_relation r, tr_subject r)) (filter (matches_filter ?f) (db_tuples db)))"
  have "list_all2 (\<lambda>r t. tuple_to_domain r = Inr t) ?rows ts"
    using ts(1) by (simp add: list_tuples_def map_throws_ok_iff)
  with t(1) obtain r where r: "r \<in> set ?rows" "tuple_to_domain r = Inr t"
    by (fastforce simp: list_all2_conv_all_nth in_set_conv_nth)
  then have member: "r \<in> set (db_tuples db)" "matches_filter ?f r"
    by (auto simp: slice_def dest!: in_set_takeD in_set_dropD)
  obtain s where "parse_subject (tr_subject r) = Inr s"
    "t = \<lparr>tuple_org = OrgId (tr_org r), tuple_object = \<lparr>ref_type = tr_namespace r, ref_id = tr_object_id r\<rparr>,
       tuple_relation = tr_relation r, tuple_subject = s, tuple_revision = Revision (tr_revision r), tuple_created = tr_created r\<rparr>"
    using r(2) by (cases "parse_subject (tr_subject r)") (auto simp: tuple_to_domain_def)
  with member t(2) have "tuple_row_key r = view_key org v"
    by (auto simp: view_key_def tuple_row_key_def tuple_view_of_def to_from_subject_ref encode_parse_subject matches_filter_def
        tuple_filter_of_def)
  with member(1) show ?thesis by blast
qed

text \<open>The revoke button removes exactly the relationship it stands next to: for every view the directory listed, the button sends a
  request the service answers with a token, and the tables then hold what they held but for that relationship, whose removal is the
  last entry of the changelog.\<close>
theorem revoke_button_removes_its_tuple:
  assumes "reachable p db" "token_org claims = Some org" "directory_list_tuples (OrgId org) query db = Inr vs" "v \<in> set vs"
    and "tuple_schema (view_body v)"
  shows "\<exists>token db'. pap_endpoint p now (revoke_request v) claims db = (Inr (ok token), db') \<and>
    contents db (view_key org v) \<noteq> None \<and> contents db' = (contents db)(view_key org v := None) \<and>
    (\<exists>change. db_changelog db' = db_changelog db @ [change] \<and> cr_op change = DeleteOp \<and> change_tuple_key change = view_key org v)"
proof -
  have inv: "revisions_inv db" using store_inv_reachable[OF assms(1)] by (simp add: store_inv_def)
  let ?c = "\<lparr>cmd_org = OrgId org, cmd_object = tv_object v, cmd_relation = tv_relation v, cmd_subject = to_subject_ref (tv_subject v)\<rparr>"
  have key: "command_key ?c = view_key org v" by (simp add: command_key_def view_key_def)
  have body: "revoke_request v = RevokeTuple (Some (view_body v))" by (simp add: revoke_request_def view_body_def)
  have "to_command claims (Some (view_body v)) = ok ?c"
    using assms(2,5) by (auto simp: to_command_def parsed_def view_body_def to_subject_ref_def split: option.split)
  then have sent: "pap_endpoint p now (revoke_request v) claims db =
      (map_sum id (ok \<circ> token_encode p) (fst (writer_revoke now ?c db)), snd (writer_revoke now ?c db))"
    by (simp add: body revoke_tuple_endpoint_def split_beta)
  from listed_tuple[OF assms(3,4)] obtain r where r: "r \<in> set (db_tuples db)" "tuple_row_key r = view_key org v" by blast
  then have "view_key org v \<in> fst ` set (map (\<lambda>r. (tuple_row_key r, tr_revision r)) (db_tuples db))" by (force simp: image_iff)
  then have held: "contents db (view_key org v) \<noteq> None" unfolding contents_def map_of_eq_None_iff by blast
  have same: "contents (allocated_db db) = contents db" by (simp add: contents_def allocated_db_def)
  have "0 < fst (store_delete ?c (allocated_db db))" using held by (simp add: drizzle_store.removed_iff key same)
  then have revoked: "writer_revoke now ?c db =
      (Inr (ConsistencyToken (next_revision db)), logged DeleteOp now ?c (next_revision db) (snd (store_delete ?c (allocated_db db))))"
    using writer_revoke_eq[OF inv, of now ?c] by (simp add: split_beta)
  have "contents (logged DeleteOp now ?c (next_revision db) (snd (store_delete ?c (allocated_db db)))) = (contents db)(view_key org v := None)"
  proof -
    have "contents (logged op t c n db0) = contents db0" for op t c n db0 by (simp add: contents_def logged_def)
    with drizzle_store.stored_remove[of ?c "allocated_db db"] show ?thesis by (simp only: same key)
  qed
  moreover have "change_tuple_key (change_row_of (recorded_change DeleteOp now ?c (next_revision db))) = view_key org v"
    by (simp add: change_tuple_key_def change_row_of_def recorded_change_def view_key_def)
  moreover have "cr_op (change_row_of (recorded_change DeleteOp now ?c (next_revision db))) = DeleteOp"
    by (simp add: change_row_of_def recorded_change_def)
  ultimately show ?thesis using sent revoked held by (auto simp: logged_def intro!: exI)
qed

definition listed_view :: tuple_view where
  "listed_view = \<lparr>tv_object = \<lparr>ref_type = ''doc'', ref_id = ''a''\<rparr>, tv_relation = ''viewer'',
     tv_subject = \<lparr>sv_type = ''team'', sv_id = ''x'', sv_relation = Some ''member''\<rparr>, tv_revision = 2\<rparr>"

theorem revoke_button_removes_its_tuple_witness:
  "\<exists>token db'. pap_endpoint plain_platform 7 (revoke_request listed_view)
      \<lparr>tok_sub = ''ann'', tok_sid = ''s'', tok_org = Some (org_value sample_org), tok_jti = ''j'', tok_aal = 2, tok_exp = 9\<rparr>
      paged_db = (Inr (ok token), db') \<and>
    contents db' = (contents paged_db)(view_key (org_value sample_org) listed_view := None)"
proof -
  have r: "reachable plain_platform paged_db" unfolding paged_db_def by (rule reachable_commands)
  have org: "token_org \<lparr>tok_sub = ''ann'', tok_sid = ''s'', tok_org = Some (org_value sample_org), tok_jti = ''j'', tok_aal = 2,
      tok_exp = 9\<rparr> = Some (org_value sample_org)" by code_simp
  obtain vs where vs: "directory_list_tuples (OrgId (org_value sample_org)) every_tuple paged_db = Inr vs" "listed_view \<in> set vs"
  proof -
    have "case directory_list_tuples (OrgId (org_value sample_org)) every_tuple paged_db of Inr vs \<Rightarrow> listed_view \<in> set vs | Inl _ \<Rightarrow> False"
      by code_simp
    then show thesis using that by (cases "directory_list_tuples (OrgId (org_value sample_org)) every_tuple paged_db") auto
  qed
  have "tuple_schema (view_body listed_view)" by code_simp
  from revoke_button_removes_its_tuple[OF r org vs this, of 7] show ?thesis by blast
qed

end
