(* ===== verification/SchemaForm.thy ===== *)
theory SchemaForm
  imports FormSafety
begin

text \<open>
  The namespace form of the console against the service: a namespace that is opened and saved unchanged keeps its relations, its
  actions and the meaning of every rewrite, so the evaluation of every query answers as before.
\<close>

section \<open>The rewrites the form writes back\<close>

text \<open>A union of one simple term comes back as the term; every other tree comes back as it was.\<close>

definition flat_union :: "userset \<Rightarrow> userset" where
  "flat_union u = (case u of Union [t] \<Rightarrow> if simple_kind t then t else u | _ \<Rightarrow> u)"

lemma flat_union_cases:
  obtains (flat) t where "u = Union [t]" "simple_kind t" "flat_union u = t" | (same) "flat_union u = u"
proof (cases "\<exists>t. u = Union [t] \<and> simple_kind t")
  case True
  then show thesis using flat by (auto simp: flat_union_def)
next
  case False
  then have "flat_union u = u" by (cases u) (auto simp: flat_union_def split: list.split)
  then show thesis by (rule same)
qed

lemma entry_tree_of:
  assumes "u \<noteq> Union []"
  shows "entry_tree (entry_of u) = Some (flat_union u)"
proof -
  have "entry_tree (entry_of (Union cs)) = Some (flat_union (Union cs))" if "cs \<noteq> []" for cs
    using that by (auto simp: entry_tree_def entry_of_def userset_to_terms_def terms_to_userset_def flat_union_def
        split: list.split)
  with assms show ?thesis
    by (cases u) (auto simp: entry_tree_def entry_of_def userset_to_terms_def terms_to_userset_def flat_union_def)
qed

lemma validate_simple_depth: "simple_kind t \<Longrightarrow> validate_userset rs d t = None \<Longrightarrow> d' \<le> d \<Longrightarrow> validate_userset rs d' t = None"
  by (cases t) (auto split: if_splits)

lemma flat_union_valid: "validate_userset rs d u = None \<Longrightarrow> validate_userset rs d (flat_union u) = None"
proof (cases u rule: flat_union_cases)
  case (flat t)
  assume "validate_userset rs d u = None"
  with flat have "validate_userset rs (d + 1) t = None" by (auto split: if_splits option.splits)
  with flat validate_simple_depth[of t rs "d + 1" d] show ?thesis by simp
qed simp

lemma flat_union_targets: "computed_userset_targets (flat_union u) = computed_userset_targets u"
  by (cases u rule: flat_union_cases) simp_all

lemma flat_union_schema: "userset_schema u \<Longrightarrow> userset_schema (flat_union u)"
  by (cases u rule: flat_union_cases) simp_all

definition flat_config :: "namespace_config \<Rightarrow> namespace_config" where
  "flat_config c = c\<lparr>config_rewrites := map (apsnd flat_union) (config_rewrites c)\<rparr>"

lemma valid_rewrite_flat: "valid_rewrite rs e \<Longrightarrow> valid_rewrite rs (apsnd flat_union e)"
  by (cases e) (simp add: valid_rewrite_def flat_union_valid)

lemma flat_config_valid: "valid_config c \<Longrightarrow> valid_config (flat_config c)"
proof -
  assume "valid_config c"
  moreover have "(\<lambda>(r :: string, u). (r, computed_userset_targets u)) \<circ> apsnd flat_union = (\<lambda>(r, u). (r, computed_userset_targets u))"
    by (auto simp: fun_eq_iff flat_union_targets)
  ultimately show ?thesis
    by (auto simp: valid_config_alt flat_config_def list_all_iff valid_rewrite_flat)
qed

lemma flat_rewrite: "config_rewrites_for (flat_config c) relation = flat_union (config_rewrites_for c relation)"
proof -
  have "map_of (map (apsnd flat_union) rws) relation = map_option flat_union (map_of rws relation)" for rws
    by (induction rws) auto
  moreover have "flat_union This = This" by (simp add: flat_union_def)
  ultimately show ?thesis by (simp add: config_rewrites_for_def flat_config_def direct_userset_def split: option.split)
qed

section \<open>The request of an unchanged form\<close>

lemma action_record_same:
  assumes "distinct (map fst (acc @ rows))" "\<forall>a \<in> set rows. js_trim (fst a) = fst a"
  shows "foldl (\<lambda>acc a. AList.update (js_trim (fst a)) (snd a) acc) acc rows = acc @ rows"
  using assms
proof (induction rows arbitrary: acc)
  case (Cons a rows)
  then have "AList.update (fst a) (snd a) acc = acc @ [a]" using update_fresh[of "fst a" acc "snd a"] by auto
  with Cons show ?case by simp
qed simp

lemma unchanged_namespace_request:
  assumes "valid_config c" "is_identifier ns" "detail = \<lparr>ndv_namespace = ns, ndv_relations = config_relations c,
      ndv_actions = config_actions c, ndv_rewrites = config_rewrites c, ndv_revision = r\<rparr>"
  shows "namespace_form_submit (namespace_form_init (Some detail)) = Some (DefineNamespace ns (Some (config_to_data (flat_config c))))"
proof -
  have "\<forall>a \<in> set (config_actions c). js_trim (fst a) = fst a \<and> fst a \<noteq> [] \<and> snd a \<noteq> []"
    using assms(1) identifier_trim by (auto simp: valid_config_def list_all_iff)
  moreover from this have "action_record (config_actions c) = config_actions c"
    using assms(1) action_record_same[of "[]" "config_actions c"] by (simp add: action_record_def valid_config_def)
  moreover have "rewrite_record (map (apsnd entry_of) rws) = map (apsnd flat_union) rws"
    if "list_all (valid_rewrite (config_relations c)) rws" for rws
    using that
  proof (induction rws)
    case (Cons e rws)
    then have "snd e \<noteq> Union []" by (auto simp: valid_rewrite_def)
    with Cons show ?case by (cases e) (auto simp: rewrite_record_def map_filter_simps entry_tree_of split_beta)
  qed (simp add: rewrite_record_def map_filter_simps)
  then have "rewrite_record (initial_rewrites (Some detail)) = config_rewrites (flat_config c)"
    using assms(1,3) by (simp add: initial_rewrites_def valid_config_alt flat_config_def)
  ultimately show ?thesis
    using assms identifier_trim[of ns]
    by (auto simp: namespace_form_submit_def namespace_form_can_submit_def namespace_form_init_def config_to_data_def
        flat_config_def list_all_iff valid_config_def)
qed

section \<open>Evaluation over the registry that was saved\<close>

lemma first_grant_single: "first_grant f [x] w = f x w"
  by (cases "f x w") (auto split: option.split)

lemma derive_flat_union:
  "derive_rewrite D snap target object relation depth (flat_union u) w = derive_rewrite D snap target object relation depth u w"
  by (cases u rule: flat_union_cases) (simp_all add: first_grant_single del: first_grant.simps)

lemma derive_rewrite_snapshot:
  "derive_rewrite D (snap\<lparr>snap_namespaces := reg\<rparr>) target object relation depth u w =
   derive_rewrite D snap target object relation depth u w"
proof (induction u arbitrary: w)
  case This
  have this_depth: "indexed_depth (snap\<lparr>snap_namespaces := reg\<rparr>) = indexed_depth snap" by (simp add: fun_eq_iff indexed_depth_def)
  show ?case unfolding derive_rewrite.simps derive_this_def this_depth by simp
next
  case (Union cs)
  then show ?case by (auto intro: first_grant_cong)
next
  case (Intersection cs)
  then show ?case by (auto intro: intersect_grants_cong)
next
  case (Exclusion base sub)
  show ?case unfolding derive_rewrite.simps Exclusion by simp
qed simp_all

lemma derive_rewrite_less:
  assumes "\<And>ob r d w y. D ob r d w = Some y \<Longrightarrow> D' ob r d w = Some y" "derive_rewrite D snap target object relation depth u w = Some y"
  shows "derive_rewrite D' snap target object relation depth u w = Some y"
proof -
  let ?f = "\<lambda>D. \<lambda>(ob, r, d, w). D ob r d w"
  have "mono_option (\<lambda>f. derive_rewrite (\<lambda>ob r d w. f (ob, r, d, w)) snap target object relation depth u w)"
    by (rule derive_rewrite_mono) (rule call_mono)
  moreover have "fun_ord option_ord (?f D) (?f D')"
  proof -
    have "D ob r d w = None \<or> D ob r d w = D' ob r d w" for ob r d w by (cases "D ob r d w") (simp_all add: assms(1))
    then show ?thesis by (simp add: fun_ord_def flat_ord_def)
  qed
  ultimately have "option_ord (derive_rewrite D snap target object relation depth u w) (derive_rewrite D' snap target object relation depth u w)"
    by (auto dest: monotoneD)
  with assms(2) show ?thesis by (simp add: flat_ord_def)
qed

text \<open>Two registries whose rewrites walk alike.\<close>

definition walk_alike :: "namespace_registry \<Rightarrow> namespace_registry \<Rightarrow> bool" where
  "walk_alike reg reg' \<longleftrightarrow> (\<forall>t r. rewrites_for reg' t r = rewrites_for reg t r \<or> rewrites_for reg' t r = flat_union (rewrites_for reg t r))"

lemma walk_alike_rewrite:
  "walk_alike reg reg' \<Longrightarrow> derive_rewrite D snap target object relation depth (rewrites_for reg' t r) w =
   derive_rewrite D snap target object relation depth (rewrites_for reg t r) w"
  by (metis derive_flat_union walk_alike_def)

lemma derive_alike_less:
  assumes "derive snap target object relation depth w = Some y" "snap_namespaces snap = reg"
    "\<And>D snap target t r d u ob w. derive_rewrite D snap target ob u d (rewrites_for reg' t r) w = derive_rewrite D snap target ob u d (rewrites_for reg t r) w"
  shows "derive (snap\<lparr>snap_namespaces := reg'\<rparr>) target object relation depth w = Some y"
  using assms(1,2)
proof (induction rule: derive.raw_induct[rotated, consumes 1, case_names call])
  case (call derive snap target object relation depth w y)
  let ?s = "snap\<lparr>snap_namespaces := reg'\<rparr>"
  show ?case
  proof (cases "depth > max_userset_depth \<or> node_key object relation \<in> visited w")
    case True
    with call(2) show ?thesis by (subst derive.simps) (auto simp: Let_def split: if_splits)
  next
    case False
    let ?w = "w\<lparr>visited := insert (node_key object relation) (visited w)\<rparr>"
    have "derive_rewrite (derive snap target) snap target object relation depth (rewrites_for reg (ref_type object) relation) ?w = Some y"
      using call(2,3) False by (simp add: Let_def)
    then have "derive_rewrite (Evaluate.derive ?s target) snap target object relation depth (rewrites_for reg (ref_type object) relation) ?w = Some y"
      by (rule derive_rewrite_less[rotated]) (rule call(1)[OF _ call(3)])
    then have "derive_rewrite (Evaluate.derive ?s target) ?s target object relation depth (rewrites_for reg' (ref_type object) relation) ?w = Some y"
      using assms(3) by (simp add: derive_rewrite_snapshot)
    with False show ?thesis by (subst derive.simps) (simp add: Let_def)
  qed
qed

lemma derive_alike:
  assumes "walk_alike (snap_namespaces snap) reg'"
  shows "derive (snap\<lparr>snap_namespaces := reg'\<rparr>) = derive snap"
proof (intro ext)
  fix target object relation depth w
  let ?s = "snap\<lparr>snap_namespaces := reg'\<rparr>"
  have there: "derive ?s target object relation depth w = Some y" if "derive snap target object relation depth w = Some y" for y
    using that by (rule derive_alike_less) (simp_all add: walk_alike_rewrite[OF assms])
  have "derive (?s\<lparr>snap_namespaces := snap_namespaces snap\<rparr>) target object relation depth w = Some y"
    if "derive ?s target object relation depth w = Some y" for y
    using that by (rule derive_alike_less[where reg = reg']) (simp_all add: derive_rewrite_snapshot walk_alike_rewrite[OF assms])
  with there show "derive ?s target object relation depth w = derive snap target object relation depth w"
    by (cases "derive snap target object relation depth w"; cases "derive ?s target object relation depth w") auto
qed

lemma evaluate_alike:
  assumes "walk_alike (snap_namespaces snap) reg'" "map fst reg' = map fst (snap_namespaces snap)"
    and "map (\<lambda>e. (def_org (snd e), def_namespace (snd e), config_actions (def_config (snd e)))) reg' =
      map (\<lambda>e. (def_org (snd e), def_namespace (snd e), config_actions (def_config (snd e)))) (snap_namespaces snap)"
  shows "evaluate q (snap\<lparr>snap_namespaces := reg'\<rparr>) = evaluate q snap"
proof -
  let ?s = "snap\<lparr>snap_namespaces := reg'\<rparr>"
  have any: "derive_any ?s subject resource rs trunc = derive_any snap subject resource rs trunc" for subject resource rs trunc
  proof (induction rs arbitrary: trunc)
    case (Cons r rs)
    show ?case unfolding derive_any.simps derive_alike[OF assms(1)] Cons ..
  qed simp
  have pairs: "list_all2 (\<lambda>e e'. fst e = fst e' \<and> def_org (snd e) = def_org (snd e') \<and> def_namespace (snd e) = def_namespace (snd e') \<and>
      config_actions (def_config (snd e)) = config_actions (def_config (snd e'))) reg' (snap_namespaces snap)"
    using assms(2,3) by (auto simp: list_all2_conv_all_nth list_eq_iff_nth_eq)
  have required: "(case map_of reg' t of Some d \<Rightarrow> required_relations_for d a | None \<Rightarrow> []) =
      (case map_of (snap_namespaces snap) t of Some d \<Rightarrow> required_relations_for d a | None \<Rightarrow> [])" for t a
    using pairs by (induction rule: list_all2_induct) (auto simp: required_relations_for_def required_relations_for_verb_def)
  have orgs: "list_ex (\<lambda>d. def_org d \<noteq> org) (map snd reg') =
      list_ex (\<lambda>d. def_org d \<noteq> org) (map snd (snap_namespaces snap))" for org
    using pairs by (induction rule: list_all2_induct) auto
  show ?thesis unfolding evaluate_def any
    by (simp add: required_relations_def registry_get_def registry_all_def required orgs)
qed

section \<open>The namespace in the store\<close>

text \<open>The definition of the form's namespace with the rewrites flattened, at a new revision.\<close>

definition flat_definition :: "string \<Rightarrow> nat \<Rightarrow> namespace_definition \<Rightarrow> namespace_definition" where
  "flat_definition ns n d =
     (if def_namespace d = ns then d\<lparr>def_config := flat_config (def_config d), def_revision := Revision n\<rparr> else d)"

lemma flat_definition_simps [simp]: "def_org (flat_definition ns n d) = def_org d" "def_namespace (flat_definition ns n d) = def_namespace d"
  "config_actions (def_config (flat_definition ns n d)) = config_actions (def_config d)"
  by (simp_all add: flat_definition_def flat_config_def)

lemma registry_of_map:
  "registry_of (map (flat_definition ns n) ds) = map (apsnd (flat_definition ns n)) (registry_of ds)"
proof -
  have update: "AList.update k (f v) (map (apsnd f) m) = map (apsnd f) (AList.update k v m)" for k v m and f :: "namespace_definition \<Rightarrow> namespace_definition"
    by (induction m) auto
  have "foldl (\<lambda>m d. AList.update (def_namespace d) d m) (map (apsnd (flat_definition ns n)) m) (map (flat_definition ns n) ds) =
      map (apsnd (flat_definition ns n)) (foldl (\<lambda>m d. AList.update (def_namespace d) d m) m ds)" for m
    by (induction ds arbitrary: m) (simp_all add: update)
  from this[of "[]"] show ?thesis by (simp add: registry_of_def)
qed

lemma flat_registry_alike: "walk_alike reg (map (apsnd (flat_definition ns n)) reg)"
proof -
  have "map_of (map (apsnd (flat_definition ns n)) reg) t = map_option (flat_definition ns n) (map_of reg t)" for t
    by (induction reg) auto
  moreover have "flat_union direct_userset = direct_userset" by (simp add: direct_userset_def flat_union_def)
  ultimately show ?thesis
    by (auto simp: walk_alike_def rewrites_for_def flat_definition_def flat_rewrite split: option.split)
qed

lemma saved_definitions:
  assumes "reachable p db" "find_by_namespace org ns db = Some d"
    and "db' = namespace_save \<lparr>def_org = org, def_namespace = ns, def_config = flat_config (def_config d),
        def_revision = next_revision db, def_created = now\<rparr> (allocated_db db)"
  shows "list_namespaces_by_org org db' = map (flat_definition ns (rev_value (next_revision db))) (list_namespaces_by_org org db)"
proof -
  let ?n = "rev_value (next_revision db)" and ?mine = "\<lambda>r. nr_org r = org_value org \<and> nr_namespace r = ns"
  let ?g = "\<lambda>r. if ?mine r then r\<lparr>nr_config := config_to_data (flat_config (def_config d)), nr_revision := ?n\<rparr> else r"
  have inv: "rows_inv p db" using store_inv_reachable[OF assms(1)] by (simp add: store_inv_def)
  then have dist: "distinct (map namespace_row_key (db_namespaces db))" by (simp add: rows_inv_def)
  from assms(2) obtain r where r: "r \<in> set (db_namespaces db)" "?mine r" "d = namespace_to_domain r"
    by (auto simp: find_by_namespace_def dest: find_SomeD)
  have same: "s = r" if "s \<in> set (db_namespaces db)" "?mine s" for s
    using dist that r by (auto simp: distinct_map inj_on_def namespace_row_key_def)
  have valid: "valid_config (def_config d)" unfolding r(3) by (rule stored_config_valid[OF inv r(1)])
  have key: "(org_value org, ns) \<in> namespace_row_key ` set (db_namespaces db)"
    using r(1,2) by (force simp: namespace_row_key_def)
  have rows: "db_namespaces db' = map ?g (db_namespaces db)"
    unfolding assms(3) namespace_save_def
    by (simp add: allocated_db_def namespace_row_of_def) (subst upsert_row_map[OF dist]; use key in \<open>simp add: namespace_row_key_def\<close>)
  have keys: "(\<lambda>r. nr_org r = org_value org) \<circ> ?g = (\<lambda>r. nr_org r = org_value org)" "nr_namespace \<circ> ?g = nr_namespace"
    by (auto simp: fun_eq_iff)
  have each: "namespace_to_domain (?g s) = flat_definition ns ?n (namespace_to_domain s)"
    if "s \<in> set (db_namespaces db)" "nr_org s = org_value org" for s
  proof (cases "?mine s")
    case True
    with same that have "s = r" by blast
    with True r(3) valid show ?thesis
      by (simp add: namespace_to_domain_def flat_definition_def config_from_to_data flat_config_valid)
  qed (use that in \<open>auto simp: flat_definition_def namespace_to_domain_def\<close>)
  show ?thesis unfolding list_namespaces_by_org_def rows filter_map sort_key_map keys using each by simp
qed

text \<open>C15: Opening a namespace and saving it as it is changes no evaluation. For every reachable database and every namespace of an
  organization, the form as it is shown sends the relations and actions it read, and every rewrite but for unions of one term; the
  service accepts them; and after it, every query over the organization's namespaces and any tuples and memberships is evaluated as
  before.\<close>
theorem unchanged_namespace_evaluates_alike:
  assumes "reachable p db" "token_org claims = Some org" "directory_get_namespace (OrgId org) ns db = Some detail"
    and "list_all (userset_schema \<circ> snd) (ndv_rewrites detail)"
  shows "\<exists>d token db'. namespace_form_submit (namespace_form_init (Some detail)) = Some (DefineNamespace ns (Some d)) \<and>
    data_relations d = ndv_relations detail \<and> data_actions d = ndv_actions detail \<and>
    define_namespace_endpoint p now ns (Some d) claims db = (Inr (ok token), db') \<and>
    (\<forall>q snap. snap_namespaces snap = registry_of (list_namespaces_by_org (OrgId org) db) \<longrightarrow>
       evaluate q (snap\<lparr>snap_namespaces := registry_of (list_namespaces_by_org (OrgId org) db')\<rparr>) = evaluate q snap)"
proof -
  have inv: "rows_inv p db" using store_inv_reachable[OF assms(1)] by (simp add: store_inv_def)
  from assms(3) obtain w where w: "find_by_namespace (OrgId org) ns db = Some w"
    and detail: "detail = \<lparr>ndv_namespace = def_namespace w, ndv_relations = config_relations (def_config w),
      ndv_actions = config_actions (def_config w), ndv_rewrites = config_rewrites (def_config w), ndv_revision = rev_value (def_revision w)\<rparr>"
    by (auto simp: directory_get_namespace_def config_to_data_def Let_def split: if_splits)
  from w obtain r where r: "r \<in> set (db_namespaces db)" "nr_namespace r = ns" "w = namespace_to_domain r"
    by (auto simp: find_by_namespace_def dest: find_SomeD)
  have valid: "valid_config (def_config w)" unfolding r(3) by (rule stored_config_valid[OF inv r(1)])
  have ns: "def_namespace w = ns" "is_identifier ns" using inv r by (auto simp: rows_inv_def namespace_to_domain_def)
  let ?d = "config_to_data (flat_config (def_config w))"
  have sent: "namespace_form_submit (namespace_form_init (Some detail)) = Some (DefineNamespace ns (Some ?d))"
    by (rule unchanged_namespace_request[OF valid ns(2)]) (simp add: detail ns(1))
  have "namespace_schema ?d"
    using valid assms(4) flat_union_schema
    by (auto simp: namespace_schema_def config_to_data_def flat_config_def valid_config_def detail list_all_iff optional_def)
  then obtain db' where taken: "define_namespace_endpoint p now ns (Some ?d) claims db =
      (Inr (ok (token_encode p (ConsistencyToken (next_revision db)))), db')"
    and db': "db' = namespace_save \<lparr>def_org = OrgId org, def_namespace = ns, def_config = flat_config (def_config w),
        def_revision = next_revision db, def_created = now\<rparr> (allocated_db db)"
    using assms(2) ns(2) config_create_to_data[OF flat_config_valid[OF valid]]
    by (auto simp: define_namespace_endpoint_def parsed_def writer_define_def with_transaction_def allocate_alt)
  have listed: "registry_of (list_namespaces_by_org (OrgId org) db') =
      map (apsnd (flat_definition ns (rev_value (next_revision db)))) (registry_of (list_namespaces_by_org (OrgId org) db))"
    unfolding saved_definitions[OF assms(1) w db'] by (rule registry_of_map)
  have "evaluate q (snap\<lparr>snap_namespaces := registry_of (list_namespaces_by_org (OrgId org) db')\<rparr>) = evaluate q snap"
    if "snap_namespaces snap = registry_of (list_namespaces_by_org (OrgId org) db)" for q snap
    by (rule evaluate_alike) (simp_all add: that listed flat_registry_alike comp_def)
  moreover have "data_relations ?d = ndv_relations detail" "data_actions ?d = ndv_actions detail"
    by (simp_all add: detail config_to_data_def flat_config_def)
  ultimately show ?thesis using sent taken by blast
qed

definition team_define :: define_command where
  "team_define = \<lparr>define_org = sample_org, define_namespace = ''team'',
     define_config = \<lparr>data_relations = [''owner'', ''member''], data_actions = [(''see'', [''member''])],
       data_rewrites = Some [(''member'', Union [ComputedUserset ''owner''])]\<rparr>\<rparr>"

definition union_db :: database where
  "union_db = snd (writer_define 0 team_define empty_database)"

definition team_detail :: namespace_detail_view where
  "team_detail = \<lparr>ndv_namespace = ''team'', ndv_relations = [''owner'', ''member''], ndv_actions = [(''see'', [''member''])],
     ndv_rewrites = [(''member'', Union [ComputedUserset ''owner''])], ndv_revision = 1\<rparr>"

theorem unchanged_namespace_evaluates_alike_witness:
  "\<exists>d token db'. namespace_form_submit (namespace_form_init (Some team_detail)) = Some (DefineNamespace ''team'' (Some d)) \<and>
    define_namespace_endpoint plain_platform 5 ''team'' (Some d)
      \<lparr>tok_sub = ''ann'', tok_sid = ''s'', tok_org = Some (org_value sample_org), tok_jti = ''j'', tok_aal = 2, tok_exp = 9\<rparr>
      union_db = (Inr (ok token), db') \<and>
    (\<forall>q snap. snap_namespaces snap = registry_of (list_namespaces_by_org sample_org union_db) \<longrightarrow>
       evaluate q (snap\<lparr>snap_namespaces := registry_of (list_namespaces_by_org sample_org db')\<rparr>) = evaluate q snap)"
proof -
  have r: "reachable plain_platform union_db"
    unfolding union_db_def by (rule reachable.step[OF reachable.start store_step.define_ns])
  have org: "token_org \<lparr>tok_sub = ''ann'', tok_sid = ''s'', tok_org = Some (org_value sample_org), tok_jti = ''j'', tok_aal = 2,
      tok_exp = 9\<rparr> = Some (org_value sample_org)" by code_simp
  have listed: "directory_get_namespace (OrgId (org_value sample_org)) ''team'' union_db = Some team_detail" by code_simp
  have sized: "list_all (userset_schema \<circ> snd) (ndv_rewrites team_detail)" by code_simp
  have "OrgId (org_value sample_org) = sample_org" by simp
  with unchanged_namespace_evaluates_alike[OF r org listed sized, of 5] show ?thesis by metis
qed

end
