(* ===== verification/Panels.thy ===== *)
theory Panels
  imports Forms AuthnEndpoints
begin

text \<open>
  The panels of the console that send a request at the press of a button and show its answer: the manager of the second factor
  (\<open>mfa-manager.tsx\<close>), the audit verification, the login card, and the check, expand and simulate panels of the playground.

  \<open>ask\<close> sends a call of the browser's client and answers it, in a world \<open>'w\<close>; \<open>client_run\<close> is one. A handler answers the
  state of its component, where the browser goes from there, and the world; \<open>Threw\<close> is an exception nothing catches, after which
  the component stays as it was at that moment. The bodies of the answers are JSON and read as the code reads them. The parser of
  an enrollment's address and the encoder of its image are parameters.
\<close>

section \<open>Answers\<close>

type_synonym 'w ask = "client_call \<Rightarrow> 'w \<Rightarrow> api_result \<times> 'w"

datatype panel_exit = StayHere | GoToLogin | GoToConsole | RefreshPage | Threw

text \<open>An error on the screen: the message of the answer, or the translated one of an unavailable service.\<close>

datatype shown_error = ErrorText string | ErrorUnavailable | ErrorCredentials | ErrorLoginUnavailable

definition error_of :: "api_result \<Rightarrow> shown_error" where
  "error_of result = (case result of ApiError message \<Rightarrow> ErrorText message | _ \<Rightarrow> ErrorUnavailable)"

definition js_truthy :: "json \<Rightarrow> bool" where
  "js_truthy v =
     (case v of JNull \<Rightarrow> False | JUndefined \<Rightarrow> False | JBool b \<Rightarrow> b | JNumber n \<Rightarrow> n \<noteq> 0 | JString s \<Rightarrow> s \<noteq> [] | _ \<Rightarrow> True)"

section \<open>The manager of the second factor\<close>

record enrollment =
  en_uri :: json
  en_secret :: string
  en_qr :: string

record mfa_manager =
  mm_status :: json
  mm_enrollment :: "enrollment option"
  mm_code :: string
  mm_fresh_codes :: json
  mm_step_up_code :: string
  mm_step_up_ok :: bool
  mm_busy :: bool
  mm_error :: "shown_error option"

definition manager_start :: "json \<Rightarrow> mfa_manager" where
  "manager_start status = \<lparr>mm_status = status, mm_enrollment = None, mm_code = [], mm_fresh_codes = JNull, mm_step_up_code = [],
     mm_step_up_ok = False, mm_busy = False, mm_error = None\<rparr>"

definition manager_sent :: "mfa_manager \<Rightarrow> mfa_manager" where
  "manager_sent m = m\<lparr>mm_busy := True, mm_error := None\<rparr>"

definition manager_failed :: "api_result \<Rightarrow> mfa_manager \<Rightarrow> mfa_manager" where
  "manager_failed result m = m\<lparr>mm_busy := False, mm_error := Some (error_of result)\<rparr>"

definition refresh_status :: "'w ask \<Rightarrow> mfa_manager \<Rightarrow> 'w \<Rightarrow> mfa_manager \<times> panel_exit \<times> 'w" where
  "refresh_status ask m w =
     (case ask FetchMfaStatus w of
        (ApiUnauthorized, w') \<Rightarrow> (m, GoToLogin, w')
      | (ApiOk data, w') \<Rightarrow> (m\<lparr>mm_status := data\<rparr>, StayHere, w')
      | (_, w') \<Rightarrow> (m, StayHere, w'))"

definition enable_factor :: "(json \<Rightarrow> string throws) \<Rightarrow> (json \<Rightarrow> string throws) \<Rightarrow> 'w ask \<Rightarrow> mfa_manager \<Rightarrow> 'w \<Rightarrow>
    mfa_manager \<times> panel_exit \<times> 'w" where
  "enable_factor secret_of qr_of ask m0 w =
     (let m = manager_sent m0 in
      case ask EnrollMfa w of
        (ApiUnauthorized, w') \<Rightarrow> (m, GoToLogin, w')
      | (ApiOk data, w') \<Rightarrow>
          (case js_property ''otpauthUri'' data of
             Inl _ \<Rightarrow> (m, Threw, w')
           | Inr uri \<Rightarrow>
               (case secret_of uri of
                  Inl _ \<Rightarrow> (m, Threw, w')
                | Inr secret \<Rightarrow>
                    (case qr_of uri of
                       Inl _ \<Rightarrow> (m, Threw, w')
                     | Inr qr \<Rightarrow> (m\<lparr>mm_enrollment := Some \<lparr>en_uri = uri, en_secret = secret, en_qr = qr\<rparr>, mm_busy := False\<rparr>,
                         StayHere, w'))))
      | (result, w') \<Rightarrow> (manager_failed result m, StayHere, w'))"

definition activate_factor :: "'w ask \<Rightarrow> mfa_manager \<Rightarrow> 'w \<Rightarrow> mfa_manager \<times> panel_exit \<times> 'w" where
  "activate_factor ask m0 w =
     (let m = manager_sent m0 in
      case ask (ActivateMfa (js_trim (mm_code m0))) w of
        (ApiUnauthorized, w') \<Rightarrow> (m, GoToLogin, w')
      | (ApiOk data, w') \<Rightarrow>
          (case js_property ''recoveryCodes'' data of
             Inl _ \<Rightarrow> (m\<lparr>mm_enrollment := None, mm_code := []\<rparr>, Threw, w')
           | Inr codes \<Rightarrow> refresh_status ask (m\<lparr>mm_enrollment := None, mm_code := [], mm_fresh_codes := codes, mm_busy := False\<rparr>) w')
      | (result, w') \<Rightarrow> (manager_failed result m, StayHere, w'))"

definition regenerate_codes :: "'w ask \<Rightarrow> mfa_manager \<Rightarrow> 'w \<Rightarrow> mfa_manager \<times> panel_exit \<times> 'w" where
  "regenerate_codes ask m0 w =
     (let m = manager_sent m0 in
      case ask RegenerateRecoveryCodes w of
        (ApiUnauthorized, w') \<Rightarrow> (m, GoToLogin, w')
      | (ApiOk data, w') \<Rightarrow>
          (case js_property ''recoveryCodes'' data of
             Inl _ \<Rightarrow> (m, Threw, w')
           | Inr codes \<Rightarrow> refresh_status ask (m\<lparr>mm_fresh_codes := codes, mm_busy := False\<rparr>) w')
      | (result, w') \<Rightarrow> (manager_failed result m, StayHere, w'))"

definition disable_factor :: "'w ask \<Rightarrow> mfa_manager \<Rightarrow> 'w \<Rightarrow> mfa_manager \<times> panel_exit \<times> 'w" where
  "disable_factor ask m0 w =
     (let m = manager_sent m0 in
      case ask DisableMfa w of
        (ApiUnauthorized, w') \<Rightarrow> (m, GoToLogin, w')
      | (ApiOk data, w') \<Rightarrow> refresh_status ask (m\<lparr>mm_busy := False\<rparr>) w'
      | (result, w') \<Rightarrow> (manager_failed result m, StayHere, w'))"

definition step_up_here :: "'w ask \<Rightarrow> mfa_manager \<Rightarrow> 'w \<Rightarrow> mfa_manager \<times> panel_exit \<times> 'w" where
  "step_up_here ask m0 w =
     (let m = (manager_sent m0)\<lparr>mm_step_up_ok := False\<rparr> in
      case ask (StepUpMfa (js_trim (mm_step_up_code m0))) w of
        (ApiUnauthorized, w') \<Rightarrow> (m, GoToLogin, w')
      | (ApiOk data, w') \<Rightarrow> (m\<lparr>mm_step_up_code := [], mm_step_up_ok := True, mm_busy := False\<rparr>, RefreshPage, w')
      | (result, w') \<Rightarrow> (manager_failed result m, StayHere, w'))"

text \<open>What is on the screen; \<open>status.enabled\<close> of a status that is not null.\<close>

datatype manager_screen = ScreenUnavailable | ScreenCodes json | ScreenEnrollment enrollment | ScreenDisabled | ScreenEnabled

definition manager_screen :: "mfa_manager \<Rightarrow> manager_screen" where
  "manager_screen m =
     (if mm_status m = JNull then ScreenUnavailable
      else if js_truthy (mm_fresh_codes m) then ScreenCodes (mm_fresh_codes m)
      else case mm_enrollment m of
        Some e \<Rightarrow> ScreenEnrollment e
      | None \<Rightarrow>
          (case js_property ''enabled'' (mm_status m) of
             Inr v \<Rightarrow> if js_truthy v then ScreenEnabled else ScreenDisabled
           | Inl _ \<Rightarrow> ScreenDisabled))"

datatype press = PressEnable | PressActivate | PressCancel | PressRegenerate | PressDisable | PressStepUp | PressCodesDone
  | TypeCode string | TypeStepUpCode string

text \<open>The buttons and fields of a screen that are not disabled.\<close>

fun offered :: "nat \<Rightarrow> mfa_manager \<Rightarrow> press \<Rightarrow> bool" where
  "offered aal m PressCodesDone = (case manager_screen m of ScreenCodes codes \<Rightarrow> True | _ \<Rightarrow> False)"
| "offered aal m PressActivate = (case manager_screen m of ScreenEnrollment e \<Rightarrow> \<not> mm_busy m \<and> js_trim (mm_code m) \<noteq> [] | _ \<Rightarrow> False)"
| "offered aal m PressCancel = (case manager_screen m of ScreenEnrollment e \<Rightarrow> True | _ \<Rightarrow> False)"
| "offered aal m (TypeCode s) = (case manager_screen m of ScreenEnrollment e \<Rightarrow> True | _ \<Rightarrow> False)"
| "offered aal m PressEnable = (manager_screen m = ScreenDisabled \<and> \<not> mm_busy m)"
| "offered aal m PressRegenerate = (manager_screen m = ScreenEnabled \<and> \<not> mm_busy m \<and> 2 \<le> aal)"
| "offered aal m PressDisable = (manager_screen m = ScreenEnabled \<and> \<not> mm_busy m \<and> 2 \<le> aal)"
| "offered aal m PressStepUp = (manager_screen m = ScreenEnabled \<and> \<not> mm_busy m \<and> js_trim (mm_step_up_code m) \<noteq> [])"
| "offered aal m (TypeStepUpCode s) = (manager_screen m = ScreenEnabled)"

fun perform :: "(json \<Rightarrow> string throws) \<Rightarrow> (json \<Rightarrow> string throws) \<Rightarrow> 'w ask \<Rightarrow> press \<Rightarrow> mfa_manager \<Rightarrow> 'w \<Rightarrow>
    mfa_manager \<times> panel_exit \<times> 'w" where
  "perform secret_of qr_of ask PressEnable m w = enable_factor secret_of qr_of ask m w"
| "perform secret_of qr_of ask PressActivate m w = activate_factor ask m w"
| "perform secret_of qr_of ask PressRegenerate m w = regenerate_codes ask m w"
| "perform secret_of qr_of ask PressDisable m w = disable_factor ask m w"
| "perform secret_of qr_of ask PressStepUp m w = step_up_here ask m w"
| "perform secret_of qr_of ask PressCancel m w = (m\<lparr>mm_enrollment := None, mm_code := [], mm_error := None\<rparr>, StayHere, w)"
| "perform secret_of qr_of ask PressCodesDone m w = (m\<lparr>mm_fresh_codes := JNull\<rparr>, StayHere, w)"
| "perform secret_of qr_of ask (TypeCode s) m w = (m\<lparr>mm_code := s\<rparr>, StayHere, w)"
| "perform secret_of qr_of ask (TypeStepUpCode s) m w = (m\<lparr>mm_step_up_code := s\<rparr>, StayHere, w)"

section \<open>The audit panel and the login card\<close>

record audit_panel =
  ap_result :: json
  ap_busy :: bool
  ap_error :: "shown_error option"

definition audit_start :: "json \<Rightarrow> audit_panel" where
  "audit_start first = \<lparr>ap_result = first, ap_busy = False, ap_error = (if first = JNull then Some ErrorUnavailable else None)\<rparr>"

definition audit_run :: "'w ask \<Rightarrow> audit_panel \<Rightarrow> 'w \<Rightarrow> audit_panel \<times> panel_exit \<times> 'w" where
  "audit_run ask panel0 w =
     (let panel = panel0\<lparr>ap_busy := True, ap_error := None\<rparr> in
      case ask VerifyAudit w of
        (ApiUnauthorized, w') \<Rightarrow> (panel, GoToLogin, w')
      | (ApiOk data, w') \<Rightarrow> (panel\<lparr>ap_result := data, ap_busy := False\<rparr>, StayHere, w')
      | (result, w') \<Rightarrow> (panel\<lparr>ap_busy := False, ap_error := Some (error_of result)\<rparr>, StayHere, w'))"

record login_card =
  lg_email :: string
  lg_password :: string
  lg_pending :: bool
  lg_error :: "shown_error option"

definition login_submit :: "'w ask \<Rightarrow> login_card \<Rightarrow> 'w \<Rightarrow> login_card \<times> panel_exit \<times> 'w" where
  "login_submit ask card0 w =
     (let card = card0\<lparr>lg_pending := True, lg_error := None\<rparr> in
      case ask (Login (lg_email card0) (lg_password card0)) w of
        (ApiOk data, w') \<Rightarrow> (card, GoToConsole, w')
      | (ApiUnauthorized, w') \<Rightarrow> (card\<lparr>lg_pending := False, lg_error := Some ErrorCredentials\<rparr>, StayHere, w')
      | (ApiUnavailable, w') \<Rightarrow> (card\<lparr>lg_pending := False, lg_error := Some ErrorLoginUnavailable\<rparr>, StayHere, w')
      | (ApiError message, w') \<Rightarrow> (card\<lparr>lg_pending := False, lg_error := Some (ErrorText message)\<rparr>, StayHere, w'))"

definition fill_demo :: "login_card \<Rightarrow> login_card" where
  "fill_demo form = form\<lparr>lg_email := ''demo@accesscore.dev'', lg_password := ''correct horse battery staple'', lg_error := None\<rparr>"

text \<open>The button of the shell and the one of \<open>ReauthNotice\<close>: whatever the answer, the browser goes to the login page.\<close>

definition sign_out :: "'w ask \<Rightarrow> 'w \<Rightarrow> panel_exit \<times> 'w" where
  "sign_out ask w = (case ask Logout w of (_, w') \<Rightarrow> (GoToLogin, w'))"

section \<open>The panels of the playground\<close>

datatype panel_outcome = OutcomeIdle | OutcomeLoading | OutcomeShown json | OutcomeReauth | OutcomeUnavailable | OutcomeError string

definition outcome_of :: "api_result \<Rightarrow> panel_outcome" where
  "outcome_of result =
     (case result of
        ApiOk data \<Rightarrow> OutcomeShown data
      | ApiUnauthorized \<Rightarrow> OutcomeReauth
      | ApiUnavailable \<Rightarrow> OutcomeUnavailable
      | ApiError message \<Rightarrow> OutcomeError message)"

record expand_panel =
  ep_resource_type :: string
  ep_resource_id :: string
  ep_relation :: string
  ep_outcome :: panel_outcome

definition expand_start :: expand_panel where
  "expand_start = \<lparr>ep_resource_type = ''document'', ep_resource_id = ''onboarding'', ep_relation = ''viewer'', ep_outcome = OutcomeIdle\<rparr>"

definition expand_change_type :: "(string \<Rightarrow> string) \<Rightarrow> catalog \<Rightarrow> string \<Rightarrow> expand_panel \<Rightarrow> expand_panel" where
  "expand_change_type collate c next panel = panel\<lparr>ep_resource_type := next,
     ep_resource_id := pick_option (object_ids_for collate c next) (ep_resource_id panel),
     ep_relation := pick_option (relations_for collate c next) (ep_relation panel)\<rparr>"

definition expand_submit :: "'w ask \<Rightarrow> expand_panel \<Rightarrow> 'w \<Rightarrow> expand_panel \<times> 'w" where
  "expand_submit ask panel w =
     (case ask (RunExpand (JObject [(''type'', JString (ep_resource_type panel)), (''id'', JString (ep_resource_id panel))])
          (ep_relation panel)) w of
        (result, w') \<Rightarrow> (panel\<lparr>ep_outcome := outcome_of result\<rparr>, w'))"

section \<open>What the panels keep\<close>

lemma codes_only_confirmed:
  assumes "manager_screen m = ScreenCodes codes" "offered aal m b"
  shows "b = PressCodesDone"
  using assms by (cases b) simp_all

lemma refreshed_codes:
  assumes "refresh_status ask m w = (m', exit, w')" "js_truthy (mm_fresh_codes m)" "mm_status m' \<noteq> JNull"
  shows "manager_screen m' = ScreenCodes (mm_fresh_codes m)"
  using assms by (auto simp: refresh_status_def manager_screen_def split: prod.splits api_result.splits)

text \<open>New recovery codes are shown until they are confirmed: after an activation or a regeneration that the service answers with
  codes, the codes are on the screen whatever the status that is read next holds, unless there is none, and the only thing the
  user can do is to confirm them.\<close>
theorem fresh_codes_stay_on_screen:
  assumes "b = PressActivate \<and> call = ActivateMfa (js_trim (mm_code m)) \<or> b = PressRegenerate \<and> call = RegenerateRecoveryCodes"
    and "ask call w = (ApiOk data, w1)" "js_property ''recoveryCodes'' data = Inr codes" "js_truthy codes"
    and "perform secret_of qr_of ask b m w = (m', exit, w')" "mm_status m' \<noteq> JNull"
  shows "manager_screen m' = ScreenCodes codes \<and> (\<forall>b. offered aal m' b \<longleftrightarrow> b = PressCodesDone)"
proof -
  from assms(1) have "manager_screen m' = ScreenCodes codes"
  proof
    assume "b = PressActivate \<and> call = ActivateMfa (js_trim (mm_code m))"
    with assms(2,3,5) have "refresh_status ask ((manager_sent m)\<lparr>mm_enrollment := None, mm_code := [], mm_fresh_codes := codes,
        mm_busy := False\<rparr>) w1 = (m', exit, w')" by (simp add: activate_factor_def Let_def)
    from refreshed_codes[OF this _ assms(6)] assms(4) show ?thesis by simp
  next
    assume "b = PressRegenerate \<and> call = RegenerateRecoveryCodes"
    with assms(2,3,5) have "refresh_status ask ((manager_sent m)\<lparr>mm_fresh_codes := codes, mm_busy := False\<rparr>) w1 = (m', exit, w')"
      by (simp add: regenerate_codes_def Let_def)
    from refreshed_codes[OF this _ assms(6)] assms(4) show ?thesis by simp
  qed
  then show ?thesis using codes_only_confirmed by auto
qed

definition sample_ask :: "unit ask" where
  "sample_ask call w =
     (ApiOk (case call of
        ActivateMfa code \<Rightarrow> JObject [(''recoveryCodes'', JArray [JString ''aaaa-bbbb''])]
      | _ \<Rightarrow> JObject [(''enabled'', JBool True), (''recoveryCodesRemaining'', JNumber 1)]), w)"

definition sample_manager :: mfa_manager where
  "sample_manager = (manager_start (JObject [(''enabled'', JBool False)]))
     \<lparr>mm_enrollment := Some \<lparr>en_uri = JString ''otpauth://x'', en_secret = ''s'', en_qr = ''q''\<rparr>, mm_code := ''123456'',
       mm_step_up_code := ''123456''\<rparr>"

theorem fresh_codes_stay_on_screen_witness:
  "manager_screen (fst (perform (\<lambda>uri. Inr []) (\<lambda>uri. Inr []) sample_ask PressActivate sample_manager ())) =
     ScreenCodes (JArray [JString ''aaaa-bbbb''])"
proof -
  obtain m' exit where run: "perform (\<lambda>uri. Inr []) (\<lambda>uri. Inr []) sample_ask PressActivate sample_manager () = (m', exit, ())"
    by (metis prod.collapse old.unit.exhaust)
  then have "mm_status m' \<noteq> JNull"
    by (auto simp: activate_factor_def sample_ask_def js_property_def refresh_status_def Let_def)
  with fresh_codes_stay_on_screen[OF _ _ _ _ run, of "ActivateMfa (js_trim (mm_code sample_manager))"
      "JObject [(''recoveryCodes'', JArray [JString ''aaaa-bbbb''])]" "()" "JArray [JString ''aaaa-bbbb'']" 1] run
  show ?thesis by (simp add: sample_ask_def js_property_def js_truthy_def)
qed

text \<open>A code the service refuses is answered with status 401.\<close>

lemma refused_code_is_401:
  assumes "fst (step_up_endpoint policy up factor issue audit now claims (Some code) old st mfa al) = Inr (Inl problem)"
    "step_up_schema code" "problem \<noteq> too_many_attempts"
  shows "problem = titled ''Step-up failed'' 401"
proof -
  have refused: "\<exists>e. q = g e" if "map_sum id (map_sum g id) result = Inr (Inl q)"
    for g :: "step_up_error \<Rightarrow> problem" and q and result :: "(step_up_result, step_up_error) result throws"
    using that by (cases result; simp) (rename_tac r, case_tac r; simp; blast)
  let ?result = "fst (step_up_execute policy up factor issue audit now \<lparr>su_session = tok_sid claims, su_user = tok_sub claims,
    su_proof = (if six_digits code then TotpProof code else RecoveryProof code)\<rparr> old st mfa al)"
  from assms(1,2) have "map_sum id (map_sum (\<lambda>e. if e = StepUpLocked then too_many_attempts else titled ''Step-up failed'' 401) id)
      ?result = Inr (Inl problem)"
    by (simp add: step_up_endpoint_def parsed_def answered_def case_prod_unfold Let_def)
  from refused[OF this] assms(3) show ?thesis by (auto split: if_splits)
qed

text \<open>A mistyped code throws the user out of the page: when the service refuses the code of a step-up, with the 401 it has for that,
  the manager takes the answer for the end of the session and leaves for the login page without an error, still busy; the session
  is alive, so the login page sends the browser on to the console.\<close>
theorem mistyped_code_leaves_the_page:
  assumes "\<forall>r s. ur_path r = ''/auth/mfa/step-up'' \<longrightarrow> (\<exists>body s'. upstream r s = (Inr (401, body), s'))"
    and "read_cookie now ac_token_cookie jar = Some t"
    and "perform secret_of qr_of (client_run upstream now v) PressStepUp m (jar, st) = (m', exit, (jar', st'))"
  shows "exit = GoToLogin \<and> mm_error m' = None \<and> mm_busy m' \<and> jar' = jar \<and>
    fst (show_page upstream (read_cookie now ac_token_cookie jar') v LoginPage st') = Redirect ConsolePage"
proof -
  let ?r = "\<lparr>ur_path = ''/auth/mfa/step-up'', ur_method = ''POST'',
    ur_headers = visitor_headers v @ [(''content-type'', ''application/json'')] @ (if t = [] then [] else [(''authorization'', bearer @ t)]),
    ur_body = Some (JObject [(''code'', JString (js_trim (mm_step_up_code m)))])\<rparr>"
  obtain body s' where refused: "upstream ?r st = (Inr (401, body), s')" using assms(1) by fastforce
  have route: "step_up_route upstream (Some t) v (Some (JObject [(''code'', JString (js_trim (mm_step_up_code m)))])) st =
      (Inr \<lparr>br_status = 401, br_body = or_empty (upstream_body body), br_cookies = []\<rparr>, s')"
    using refused by (simp add: step_up_route_def call_access_core_def step_up_answer_def next_json_def)
  have "client_run upstream now v (StepUpMfa (js_trim (mm_step_up_code m))) (jar, st) = (ApiUnauthorized, (jar, s'))"
    by (simp add: client_run_def browser_call_def assms(2) route client_fetch_def api_result_of_def browser_jar_def)
  with assms(3) have "m' = (manager_sent m)\<lparr>mm_step_up_ok := False\<rparr>" "exit = GoToLogin" "jar' = jar"
    by (simp_all add: step_up_here_def Let_def)
  with assms(2) show ?thesis by (simp add: manager_sent_def show_page_def)
qed

definition refusing_upstream :: "unit upstream" where
  "refusing_upstream r s = (Inr (401, BodyJson (JObject [(''title'', JString ''Step-up failed'')])), s)"

theorem mistyped_code_leaves_the_page_witness:
  "fst (snd (perform (\<lambda>uri. Inr []) (\<lambda>uri. Inr []) (client_run refusing_upstream 0 \<lparr>vis_forwarded = None, vis_agent = None\<rparr>)
     PressStepUp sample_manager ((\<lambda>name. Some (''t'', 5)), ()))) = GoToLogin"
proof -
  let ?jar = "\<lambda>name::string. Some (''t'', 5::date)" and ?v = "\<lparr>vis_forwarded = None, vis_agent = None\<rparr>"
  obtain m' exit jar' u where run: "perform (\<lambda>uri. Inr []) (\<lambda>uri. Inr []) (client_run refusing_upstream 0 ?v) PressStepUp
      sample_manager (?jar, ()) = (m', exit, (jar', u))" by (rule prod_cases4)
  have "read_cookie 0 ac_token_cookie ?jar = Some ''t''" by (simp add: read_cookie_def)
  from mistyped_code_leaves_the_page[OF _ this run] run show ?thesis by (simp add: refusing_upstream_def)
qed

end
