(* ===== verification/Deployment.thy ===== *)
theory Deployment
  imports "HOL-Library.Monad_Syntax" IndexFresh DecisionLog SessionSafety Watch Vault Guards Login Buffers
begin

text \<open>
  How a deployment is put together: the environment (\<open>config/env.ts\<close>), read by a zod schema with defaults and two
  more demands on production, and the options the modules of the service hand from it to their parts (\<open>authn.module.ts\<close>,
  \<open>identity.module.ts\<close>, \<open>authz.module.ts\<close>, \<open>app.module.ts\<close>, \<open>jwks.controller.ts\<close>).

  \<open>process.env\<close> is a map from names to text. \<open>new URL\<close> and zod's pattern of an address are parameters; \<open>Number\<close> is the one
  of the platform. Of the error that names the refused variables only the fact that it is thrown is kept.
\<close>

section \<open>The schema\<close>

record environment_platform = platform +
  is_url :: "string \<Rightarrow> bool"
  is_email :: "string \<Rightarrow> bool"

type_synonym process_env = "string \<Rightarrow> string option"

datatype node_env = NodeDevelopment | NodeTest | NodeProduction

datatype log_level = LogFatal | LogError | LogWarn | LogInfo | LogDebug | LogTrace | LogSilent

datatype signer_driver = VaultDriver | SoftwareDriver

record environment =
  env_node :: node_env
  env_port :: int
  env_log_level :: log_level
  env_database_url :: string
  env_redis_url :: string
  env_signer_driver :: signer_driver
  env_vault_addr :: string
  env_vault_token :: string
  env_transit_key :: string
  env_transit_mfa_key :: string
  env_jwt_issuer :: string
  env_jwt_audience :: string
  env_clock_skew :: int
  env_access_ttl :: int
  env_refresh_ttl :: int
  env_refresh_grace :: int
  env_jwks_max_age :: int
  env_throttle_ttl :: int
  env_throttle_limit :: int
  env_lockout_threshold :: int
  env_lockout_window :: int
  env_lockout_ip_threshold :: int
  env_cache_enabled :: bool
  env_cache_ttl :: int
  env_demo_email :: "string option"
  env_log_async :: bool
  env_log_buffer_size :: int
  env_log_batch_size :: int
  env_log_interval_ms :: int
  env_watch_poll_ms :: int
  env_watch_page_size :: int
  env_watch_heartbeat :: int
  env_watch_max_stream :: int
  env_index_enabled :: bool
  env_index_interval_ms :: int
  env_index_page_size :: int
  env_index_max_tuples :: int

definition dev_vault_token :: string where
  "dev_vault_token = ''accesscore-dev-token''"

text \<open>\<open>z.enum([...]).default(...)\<close>, with the value a name stands for.\<close>

definition env_choice :: "(string \<times> 'a) list \<Rightarrow> 'a \<Rightarrow> string option \<Rightarrow> 'a option" where
  "env_choice names fallback v = (case v of None \<Rightarrow> Some fallback | Some s \<Rightarrow> map_of names s)"

definition env_flag :: "string option \<Rightarrow> bool option" where
  "env_flag = env_choice [(''true'', True), (''false'', False)] True"

text \<open>\<open>z.string()\<close> with its check\<close>

definition env_text :: "(string \<Rightarrow> bool) \<Rightarrow> string \<Rightarrow> string option \<Rightarrow> string option" where
  "env_text good fallback v = (let s = (case v of None \<Rightarrow> fallback | Some s \<Rightarrow> s) in if good s then Some s else None)"

definition env_required :: "(string \<Rightarrow> bool) \<Rightarrow> string option \<Rightarrow> string option" where
  "env_required good v = (case v of None \<Rightarrow> None | Some s \<Rightarrow> if good s then Some s else None)"

definition env_optional :: "(string \<Rightarrow> bool) \<Rightarrow> string option \<Rightarrow> string option option" where
  "env_optional good v = (case v of None \<Rightarrow> Some None | Some s \<Rightarrow> if good s then Some (Some s) else None)"

text \<open>\<open>z.coerce.number().int()\<close> with its bounds: \<open>Number(text)\<close>, refused unless finite and whole.\<close>

definition env_number :: "('p platform_scheme) \<Rightarrow> (int \<Rightarrow> bool) \<Rightarrow> int \<Rightarrow> string option \<Rightarrow> int option" where
  "env_number p good fallback v =
     (case v of
        None \<Rightarrow> Some fallback
      | Some s \<Rightarrow>
          (case js_number p s of
             None \<Rightarrow> None
           | Some q \<Rightarrow> if of_int \<lfloor>q\<rfloor> = q \<and> good \<lfloor>q\<rfloor> then Some \<lfloor>q\<rfloor> else None))"

definition positive :: "int \<Rightarrow> bool" where
  "positive n \<longleftrightarrow> 0 < n"

definition nonnegative :: "int \<Rightarrow> bool" where
  "nonnegative n \<longleftrightarrow> 0 \<le> n"

definition positive_up_to :: "int \<Rightarrow> int \<Rightarrow> bool" where
  "positive_up_to most n \<longleftrightarrow> 0 < n \<and> n \<le> most"

definition node_names :: "(string \<times> node_env) list" where
  "node_names = [(''development'', NodeDevelopment), (''test'', NodeTest), (''production'', NodeProduction)]"

definition log_level_names :: "(string \<times> log_level) list" where
  "log_level_names = [(''fatal'', LogFatal), (''error'', LogError), (''warn'', LogWarn), (''info'', LogInfo),
     (''debug'', LogDebug), (''trace'', LogTrace), (''silent'', LogSilent)]"

definition driver_names :: "(string \<times> signer_driver) list" where
  "driver_names = [(''vault'', VaultDriver), (''software'', SoftwareDriver)]"

definition env_schema :: "environment_platform \<Rightarrow> process_env \<Rightarrow> environment option" where
  "env_schema p source = do {
     node \<leftarrow> env_choice node_names NodeDevelopment (source ''NODE_ENV'');
     port \<leftarrow> env_number p positive 3000 (source ''PORT'');
     level \<leftarrow> env_choice log_level_names LogInfo (source ''LOG_LEVEL'');
     database \<leftarrow> env_required (is_url p) (source ''DATABASE_URL'');
     redis \<leftarrow> env_text (is_url p) ''redis://localhost:6379'' (source ''REDIS_URL'');
     driver \<leftarrow> env_choice driver_names VaultDriver (source ''SIGNER_DRIVER'');
     addr \<leftarrow> env_text (is_url p) ''http://localhost:8200'' (source ''VAULT_ADDR'');
     token \<leftarrow> env_text (\<lambda>s. s \<noteq> []) dev_vault_token (source ''VAULT_TOKEN'');
     key \<leftarrow> env_text (\<lambda>s. s \<noteq> []) ''accesscore-signing'' (source ''VAULT_TRANSIT_KEY'');
     mfa_key \<leftarrow> env_text (\<lambda>s. s \<noteq> []) ''accesscore-mfa'' (source ''VAULT_TRANSIT_MFA_KEY'');
     issuer \<leftarrow> env_text (\<lambda>s. s \<noteq> []) ''https://auth.accesscore.dev'' (source ''JWT_ISSUER'');
     audience \<leftarrow> env_text (\<lambda>s. s \<noteq> []) ''accesscore'' (source ''JWT_AUDIENCE'');
     skew \<leftarrow> env_number p nonnegative 30 (source ''JWT_CLOCK_SKEW'');
     access \<leftarrow> env_number p positive 900 (source ''ACCESS_TOKEN_TTL'');
     refresh \<leftarrow> env_number p positive 1209600 (source ''REFRESH_TOKEN_TTL'');
     grace \<leftarrow> env_number p nonnegative 10 (source ''REFRESH_GRACE_SECONDS'');
     jwks \<leftarrow> env_number p nonnegative 300 (source ''JWKS_CACHE_MAX_AGE'');
     throttle_ttl \<leftarrow> env_number p positive 60 (source ''THROTTLE_TTL_SECONDS'');
     throttle_limit \<leftarrow> env_number p positive 100 (source ''THROTTLE_LIMIT'');
     threshold \<leftarrow> env_number p positive 5 (source ''LOCKOUT_THRESHOLD'');
     window \<leftarrow> env_number p positive 900 (source ''LOCKOUT_WINDOW_SECONDS'');
     ip_threshold \<leftarrow> env_number p positive 50 (source ''LOCKOUT_IP_THRESHOLD'');
     cached \<leftarrow> env_flag (source ''DECISION_CACHE_ENABLED'');
     cache_ttl \<leftarrow> env_number p positive 60 (source ''DECISION_CACHE_TTL_SECONDS'');
     demo \<leftarrow> env_optional (is_email p) (source ''DEMO_ACCOUNT_EMAIL'');
     asynchronous \<leftarrow> env_flag (source ''DECISION_LOG_ASYNC'');
     buffer \<leftarrow> env_number p positive 10000 (source ''DECISION_LOG_BUFFER_SIZE'');
     batch \<leftarrow> env_number p positive 500 (source ''DECISION_LOG_FLUSH_BATCH_SIZE'');
     interval \<leftarrow> env_number p positive 1000 (source ''DECISION_LOG_FLUSH_INTERVAL_MS'');
     poll \<leftarrow> env_number p positive 500 (source ''WATCH_POLL_INTERVAL_MS'');
     page \<leftarrow> env_number p (positive_up_to 1000) 200 (source ''WATCH_PAGE_SIZE'');
     heartbeat \<leftarrow> env_number p positive 15 (source ''WATCH_HEARTBEAT_SECONDS'');
     stream \<leftarrow> env_number p positive 300 (source ''WATCH_MAX_STREAM_SECONDS'');
     indexed \<leftarrow> env_flag (source ''MEMBERSHIP_INDEX_ENABLED'');
     index_interval \<leftarrow> env_number p positive 2000 (source ''MEMBERSHIP_INDEX_INTERVAL_MS'');
     index_page \<leftarrow> env_number p (positive_up_to 5000) 500 (source ''MEMBERSHIP_INDEX_CHANGE_PAGE_SIZE'');
     index_tuples \<leftarrow> env_number p positive 50000 (source ''MEMBERSHIP_INDEX_MAX_TUPLES_PER_ORG'');
     Some \<lparr>env_node = node, env_port = port, env_log_level = level, env_database_url = database, env_redis_url = redis,
       env_signer_driver = driver, env_vault_addr = addr, env_vault_token = token, env_transit_key = key,
       env_transit_mfa_key = mfa_key, env_jwt_issuer = issuer, env_jwt_audience = audience, env_clock_skew = skew,
       env_access_ttl = access, env_refresh_ttl = refresh, env_refresh_grace = grace, env_jwks_max_age = jwks,
       env_throttle_ttl = throttle_ttl, env_throttle_limit = throttle_limit, env_lockout_threshold = threshold,
       env_lockout_window = window, env_lockout_ip_threshold = ip_threshold, env_cache_enabled = cached,
       env_cache_ttl = cache_ttl, env_demo_email = demo, env_log_async = asynchronous, env_log_buffer_size = buffer,
       env_log_batch_size = batch, env_log_interval_ms = interval, env_watch_poll_ms = poll, env_watch_page_size = page,
       env_watch_heartbeat = heartbeat, env_watch_max_stream = stream, env_index_enabled = indexed,
       env_index_interval_ms = index_interval, env_index_page_size = index_page, env_index_max_tuples = index_tuples\<rparr>
   }"

text \<open>\<open>superRefine\<close>\<close>

definition production_ready :: "environment \<Rightarrow> bool" where
  "production_ready e \<longleftrightarrow> env_node e = NodeProduction \<longrightarrow>
     env_signer_driver e = VaultDriver \<and> env_vault_token e \<noteq> dev_vault_token"

definition load_env :: "environment_platform \<Rightarrow> process_env \<Rightarrow> environment throws" where
  "load_env p source =
     (case env_schema p source of
        None \<Rightarrow> Inl (Error ''Error'')
      | Some e \<Rightarrow> if production_ready e then Inr e else Inl (Error ''Error''))"

section \<open>The options of the parts\<close>

text \<open>The signer and the encryptor of the secrets: \<open>None\<close> is the software one.\<close>

definition signer_of :: "environment \<Rightarrow> vault_config option" where
  "signer_of e =
     (if env_signer_driver e = SoftwareDriver then None
      else Some \<lparr>vf_addr = env_vault_addr e, vf_token = env_vault_token e, vf_key_name = env_transit_key e\<rparr>)"

definition encryptor_of :: "environment \<Rightarrow> vault_config option" where
  "encryptor_of e =
     (if env_signer_driver e = SoftwareDriver then None
      else Some \<lparr>vf_addr = env_vault_addr e, vf_token = env_vault_token e, vf_key_name = env_transit_mfa_key e\<rparr>)"

definition issuer_of :: "environment \<Rightarrow> access_token_config" where
  "issuer_of e = \<lparr>at_issuer = env_jwt_issuer e, at_audience = env_jwt_audience e, at_ttl_seconds = env_access_ttl e\<rparr>"

text \<open>The verifier with the lifetime of the key set it reads.\<close>

definition verifier_of :: "environment \<Rightarrow> verifier_config" where
  "verifier_of e = \<lparr>vc_issuer = env_jwt_issuer e, vc_audience = env_jwt_audience e, vc_clock_skew = env_clock_skew e,
     vc_jwks_ttl = env_jwks_max_age e\<rparr>"

text \<open>\<open>accessTokenTtlSeconds\<close> of the signing keys and of the session terminator\<close>

definition retired_after :: "environment \<Rightarrow> int" where
  "retired_after e = env_access_ttl e"

definition terminator_ttl :: "environment \<Rightarrow> int" where
  "terminator_ttl e = env_access_ttl e"

definition account_lockout_of :: "environment \<Rightarrow> lockout_policy" where
  "account_lockout_of e = \<lparr>lp_threshold = nat (env_lockout_threshold e), lp_window_seconds = env_lockout_window e\<rparr>"

definition login_of :: "environment \<Rightarrow> login_config" where
  "login_of e = \<lparr>lcfg_refresh_ttl = env_refresh_ttl e, lcfg_account_lockout = account_lockout_of e,
     lcfg_ip_lockout = \<lparr>lp_threshold = nat (env_lockout_ip_threshold e), lp_window_seconds = env_lockout_window e\<rparr>,
     lcfg_public_email = map_option (to_lower \<circ> js_trim) (env_demo_email e)\<rparr>"

definition step_up_lockout_of :: "environment \<Rightarrow> lockout_policy" where
  "step_up_lockout_of e = \<lparr>lp_threshold = nat (env_lockout_threshold e), lp_window_seconds = env_lockout_window e\<rparr>"

definition refresh_of :: "environment \<Rightarrow> refresh_config" where
  "refresh_of e = \<lparr>grace_seconds = env_refresh_grace e, access_ttl_seconds = env_access_ttl e\<rparr>"

definition demo_address_of :: "environment \<Rightarrow> string option" where
  "demo_address_of e = env_demo_email e"

definition mfa_issuer_name :: string where
  "mfa_issuer_name = ''AccessCore''"

definition watch_of :: "environment \<Rightarrow> watch_options" where
  "watch_of e = \<lparr>poll_interval_ms = env_watch_poll_ms e, page_size = nat (env_watch_page_size e),
     heartbeat_seconds = env_watch_heartbeat e, max_stream_seconds = env_watch_max_stream e\<rparr>"

definition reader_of :: "environment \<Rightarrow> membership_reader" where
  "reader_of e = (if env_index_enabled e then drizzle_reader else noop_reader)"

definition indexer_of :: "environment \<Rightarrow> indexer_options" where
  "indexer_of e = \<lparr>change_page_size = nat (env_index_page_size e), max_tuples_per_org = nat (env_index_max_tuples e)\<rparr>"

text \<open>The interval of the indexer that \<open>onApplicationBootstrap\<close> starts; \<open>None\<close> where it starts none.\<close>

definition index_every :: "environment \<Rightarrow> int option" where
  "index_every e = (if env_index_enabled e then Some (env_index_interval_ms e) else None)"

text \<open>The buffered log; \<open>None\<close> is the one that writes at once.\<close>

definition decision_log_of :: "environment \<Rightarrow> log_options option" where
  "decision_log_of e =
     (if env_log_async e
      then Some \<lparr>max_buffer_size = nat (env_log_buffer_size e), flush_batch_size = nat (env_log_batch_size e),
        flush_interval_ms = env_log_interval_ms e\<rparr>
      else None)"

text \<open>The prefix and the lifetime of the cached decisions; \<open>None\<close> is the cache that keeps nothing.\<close>

definition decision_cache_of :: "environment \<Rightarrow> (string \<times> int) option" where
  "decision_cache_of e = (if env_cache_enabled e then Some (''authz:dec:v1'', env_cache_ttl e) else None)"

text \<open>The throttler: window in milliseconds and limit; none under test.\<close>

definition throttler_of :: "environment \<Rightarrow> (int \<times> int) option" where
  "throttler_of e = (if env_node e = NodeTest then None else Some (env_throttle_ttl e * 1000, env_throttle_limit e))"

text \<open>\<open>genReqId\<close>: the first value of the header or the random identifier; and the paths that are not logged.\<close>

definition request_id_of :: "string list option \<Rightarrow> string \<Rightarrow> string" where
  "request_id_of header random = (case header of Some (h # _) \<Rightarrow> h | _ \<Rightarrow> random)"

definition not_logged :: "string option \<Rightarrow> bool" where
  "not_logged url = (takeWhile (\<lambda>c. c \<noteq> CHR ''?'') (case url of None \<Rightarrow> [] | Some u \<Rightarrow> u) \<in>
     {''/health'', ''/ready'', ''/reference'', ''/metrics''})"

section \<open>What the schema yields\<close>

lemma env_number_ok: "env_number p good fallback v = Some n \<Longrightarrow> good fallback \<Longrightarrow> good n"
  by (auto simp: env_number_def split: option.splits if_splits)

lemma env_text_ok: "env_text good fallback v = Some s \<Longrightarrow> good s"
  by (auto simp: env_text_def Let_def split: if_splits)

lemma env_optional_ok: "env_optional good v = Some (Some s) \<Longrightarrow> good s"
  by (auto simp: env_optional_def split: option.splits if_splits)

lemma load_env_schema: "load_env p source = Inr e \<Longrightarrow> env_schema p source = Some e \<and> production_ready e"
  by (auto simp: load_env_def split: option.splits if_splits)

lemma bounds_read [simp]: "positive n = (0 < n)" "nonnegative n = (0 \<le> n)" "positive_up_to most n = (0 < n \<and> n \<le> most)"
  by (simp_all add: positive_def nonnegative_def positive_up_to_def)

text \<open>What the value of a parser satisfies when there is one, field by field.\<close>

definition yields :: "'a option \<Rightarrow> ('a \<Rightarrow> bool) \<Rightarrow> bool" where
  "yields m Q \<longleftrightarrow> (\<forall>x. m = Some x \<longrightarrow> Q x)"

lemma yields_bind: "yields m P \<Longrightarrow> (\<And>x. P x \<Longrightarrow> yields (f x) Q) \<Longrightarrow> yields (m \<bind> f) Q"
  by (auto simp: yields_def bind_eq_Some_conv)

lemma yields_number: "good fallback \<Longrightarrow> yields (env_number p good fallback v) good"
  using env_number_ok by (auto simp: yields_def)

lemma yields_text: "yields (env_text good fallback v) good"
  using env_text_ok by (auto simp: yields_def)

lemma yields_any: "yields m (\<lambda>x. True)"
  by (simp add: yields_def)

lemma yields_some: "Q x \<Longrightarrow> yields (Some x) Q"
  by (simp add: yields_def)

definition lifetimes_fit :: "environment \<Rightarrow> bool" where
  "lifetimes_fit e \<longleftrightarrow> 0 < env_access_ttl e \<and> 0 < env_refresh_ttl e \<and> 0 \<le> env_clock_skew e \<and> 0 \<le> env_refresh_grace e \<and>
     0 \<le> env_jwks_max_age e \<and> 0 < env_cache_ttl e \<and> 0 < env_lockout_threshold e \<and> 0 < env_lockout_ip_threshold e \<and>
     0 < env_lockout_window e"

definition sizes_fit :: "environment \<Rightarrow> bool" where
  "sizes_fit e \<longleftrightarrow> 0 < env_log_buffer_size e \<and> 0 < env_log_batch_size e \<and> 0 < env_log_interval_ms e \<and> 0 < env_watch_poll_ms e \<and>
     0 < env_watch_page_size e \<and> env_watch_page_size e \<le> 1000 \<and> 0 < env_watch_heartbeat e \<and> 0 < env_watch_max_stream e \<and>
     0 < env_index_interval_ms e \<and> 0 < env_index_page_size e \<and> env_index_page_size e \<le> 5000 \<and> 0 < env_index_max_tuples e"

definition texts_fit :: "environment \<Rightarrow> bool" where
  "texts_fit e \<longleftrightarrow> env_vault_token e \<noteq> [] \<and> env_transit_key e \<noteq> [] \<and> env_transit_mfa_key e \<noteq> [] \<and>
     env_jwt_issuer e \<noteq> [] \<and> env_jwt_audience e \<noteq> []"

lemma schema_yields: "yields (env_schema p source) (\<lambda>e. lifetimes_fit e \<and> sizes_fit e \<and> texts_fit e)"
  unfolding env_schema_def
  by ((rule yields_bind, ((rule yields_number, simp) | rule yields_text | rule yields_any))+,
    rule yields_some, simp add: lifetimes_fit_def sizes_fit_def texts_fit_def)

lemma loaded_fit: "load_env p source = Inr e \<Longrightarrow> lifetimes_fit e \<and> sizes_fit e \<and> texts_fit e"
  using schema_yields[of p source] by (auto simp: yields_def dest!: load_env_schema)

section \<open>What a deployment keeps\<close>

definition sample_environment_platform :: environment_platform where
  "sample_environment_platform = platform.extend plain_platform \<lparr>is_url = (\<lambda>s. s \<noteq> []), is_email = (\<lambda>s. CHR ''@'' \<in> set s)\<rparr>"

text \<open>A production environment that leaves the rest to the defaults.\<close>

definition sample_source :: process_env where
  "sample_source = [''NODE_ENV'' \<mapsto> ''production'', ''DATABASE_URL'' \<mapsto> ''postgres://db'', ''VAULT_TOKEN'' \<mapsto> ''secret'',
     ''ACCESS_TOKEN_TTL'' \<mapsto> ''600'', ''DEMO_ACCOUNT_EMAIL'' \<mapsto> '' Demo@x '']"

definition sample_environment :: environment where
  "sample_environment = \<lparr>env_node = NodeProduction, env_port = 3000, env_log_level = LogInfo, env_database_url = ''postgres://db'',
     env_redis_url = ''redis://localhost:6379'', env_signer_driver = VaultDriver, env_vault_addr = ''http://localhost:8200'',
     env_vault_token = ''secret'', env_transit_key = ''accesscore-signing'', env_transit_mfa_key = ''accesscore-mfa'',
     env_jwt_issuer = ''https://auth.accesscore.dev'', env_jwt_audience = ''accesscore'', env_clock_skew = 30,
     env_access_ttl = 600, env_refresh_ttl = 1209600, env_refresh_grace = 10, env_jwks_max_age = 300, env_throttle_ttl = 60,
     env_throttle_limit = 100, env_lockout_threshold = 5, env_lockout_window = 900, env_lockout_ip_threshold = 50,
     env_cache_enabled = True, env_cache_ttl = 60, env_demo_email = Some '' Demo@x '', env_log_async = True,
     env_log_buffer_size = 10000, env_log_batch_size = 500, env_log_interval_ms = 1000, env_watch_poll_ms = 500,
     env_watch_page_size = 200, env_watch_heartbeat = 15, env_watch_max_stream = 300, env_index_enabled = True,
     env_index_interval_ms = 2000, env_index_page_size = 500, env_index_max_tuples = 50000\<rparr>"

lemma sample_loaded: "load_env sample_environment_platform sample_source = Inr sample_environment"
  by code_simp

text \<open>The keys of production stay in Vault: an environment that loads for production signs and encrypts with Vault, at the
  configured address, with a token of its own and the two configured keys.\<close>
theorem production_keys_stay_in_vault:
  assumes "load_env p source = Inr e" "env_node e = NodeProduction"
  shows "\<exists>token. token \<noteq> [] \<and> token \<noteq> dev_vault_token \<and>
    signer_of e = Some \<lparr>vf_addr = env_vault_addr e, vf_token = token, vf_key_name = env_transit_key e\<rparr> \<and>
    encryptor_of e = Some \<lparr>vf_addr = env_vault_addr e, vf_token = token, vf_key_name = env_transit_mfa_key e\<rparr>"
proof -
  from assms(1) have "production_ready e" by (simp add: load_env_schema)
  with loaded_fit[OF assms(1)] assms(2) show ?thesis by (simp add: signer_of_def encryptor_of_def production_ready_def texts_fit_def)
qed

theorem production_keys_stay_in_vault_witness:
  "\<exists>token. token \<noteq> [] \<and> token \<noteq> dev_vault_token \<and>
    signer_of sample_environment = Some \<lparr>vf_addr = ''http://localhost:8200'', vf_token = token, vf_key_name = ''accesscore-signing''\<rparr> \<and>
    encryptor_of sample_environment = Some \<lparr>vf_addr = ''http://localhost:8200'', vf_token = token, vf_key_name = ''accesscore-mfa''\<rparr>"
  using production_keys_stay_in_vault[OF sample_loaded] by (simp add: sample_environment_def)

text \<open>What the parts assume of their options holds of every environment that loads: the lifetimes are positive, the revocation of
  a session, the retirement of a key and the refreshed tokens count with the lifetime of the issued tokens, a lockout needs at
  least one failure, a batch of the log and a page of the watch and of the index hold at least one entry, and the index reader
  reads what the indexer writes or nothing.\<close>
theorem deployed_options_fit:
  assumes "load_env p source = Inr e"
  shows "0 < at_ttl_seconds (issuer_of e) \<and> terminator_ttl e = at_ttl_seconds (issuer_of e) \<and>
    retired_after e = at_ttl_seconds (issuer_of e) \<and> access_ttl_seconds (refresh_of e) = at_ttl_seconds (issuer_of e) \<and>
    vc_issuer (verifier_of e) = at_issuer (issuer_of e) \<and> vc_audience (verifier_of e) = at_audience (issuer_of e) \<and>
    0 \<le> vc_clock_skew (verifier_of e) \<and>
    0 < lp_threshold (lcfg_account_lockout (login_of e)) \<and> 0 < lp_threshold (lcfg_ip_lockout (login_of e)) \<and>
    step_up_lockout_of e = lcfg_account_lockout (login_of e) \<and> 0 < lp_window_seconds (step_up_lockout_of e) \<and>
    (\<forall>opts. decision_log_of e = Some opts \<longrightarrow> 0 < flush_batch_size opts \<and> 0 < max_buffer_size opts) \<and>
    0 < page_size (watch_of e) \<and> page_size (watch_of e) \<le> 1000 \<and>
    0 < change_page_size (indexer_of e) \<and> change_page_size (indexer_of e) \<le> 5000 \<and>
    reader_of e = (if index_every e = None then noop_reader else drizzle_reader)"
proof -
  note options = issuer_of_def terminator_ttl_def retired_after_def refresh_of_def verifier_of_def login_of_def account_lockout_of_def
    step_up_lockout_of_def decision_log_of_def watch_of_def indexer_of_def reader_of_def index_every_def
  from loaded_fit[OF assms] show ?thesis by (simp add: options nat_le_iff lifetimes_fit_def sizes_fit_def)
qed

theorem deployed_options_fit_witness:
  "0 < change_page_size (indexer_of sample_environment) \<and> terminator_ttl sample_environment = at_ttl_seconds (issuer_of sample_environment)"
  using deployed_options_fit[OF sample_loaded] by simp

text \<open>The tokens a deployment issues are the ones it accepts: a token issued with the options of an environment is answered with
  its claims by a guard with the options of the same environment until its lifetime and the clock skew have passed or its
  session is revoked, and refused from then on.\<close>
lemma deployed_tokens_answer:
  assumes "load_env ep source = Inr e"
    and "issue_token p (issuer_of e) active sign jti now claims = Inr t"
    and "decodable_token p (issuer_of e) \<lparr>is_kid = key_kid active, is_jti = jti, is_at = now, is_claims = claims\<rparr>"
    and "kid_resolvable keys moment (key_kid active) cache k" "jwk_alg k = ''EdDSA''"
    and "\<forall>text_to_sign. ed_verify p (jwk_x k) text_to_sign (sig_value (sign text_to_sign (key_version active))) \<and>
      CHR ''.'' \<notin> set (sig_value (sign text_to_sign (key_version active)))"
    and "now \<le> moment" "js_trim (iss_token t) = iss_token t"
  shows "fst (access_token_guard p (verifier_of e) keys moment (Some (bearer @ iss_token t)) cache up st) =
    (if moment div 1000 < now div 1000 + env_access_ttl e + env_clock_skew e \<and> \<not> is_revoked up moment (sid_subject (claim_sid claims)) st
     then Inr (ok (the (read_claims (JObject (token_payload (issuer_of e) jti now claims))))) else Inr (err unauthorized))"
proof -
  from assms(1) have "0 \<le> env_clock_skew e" using loaded_fit by (simp add: lifetimes_fit_def)
  moreover have "now div 1000 \<le> moment div 1000" using assms(7) by (rule zdiv_mono1) simp
  ultimately have "now div 1000 - vc_clock_skew (verifier_of e) \<le> moment div 1000" by (simp add: verifier_of_def)
  with issued_token_guarded[OF assms(2) _ _ assms(3-6) _ assms(8), of "verifier_of e" up st] show ?thesis
    by (simp add: issuer_of_def verifier_of_def)
qed

end
