(* ===== verification/Seed.thy ===== *)
theory Seed
  imports Decisions Login
begin

text \<open>
  The script that fills a new deployment with the demonstration account and its organization (\<open>seed.ts\<close>): it drives the writers
  of the accounts, of the tenancy and of the authorization store, in this order and with no transaction around them, and its
  banner promises how the seeded organization behaves.

  \<open>clock n\<close> is the \<open>n\<close>-th reading of the clock; the identifiers and the encoded password, which come from Node and argon2, are
  in \<open>made\<close>. What is printed is the outcome.
\<close>

section \<open>The script\<close>

record application =
  app_identity :: identity_state
  app_tenancy :: tenancy_state
  app_database :: database

record seed_fresh =
  sd_user :: user_id
  sd_encoded :: string
  sd_org :: org_id
  sd_membership :: string

datatype seed_outcome = SeedApplied | SeedPresent

definition demo_email :: string where
  "demo_email = ''demo@accesscore.dev''"

definition demo_password :: string where
  "demo_password = ''correct horse battery staple''"

definition seed_object :: "string \<Rightarrow> string \<Rightarrow> entity_ref" where
  "seed_object t i = \<lparr>ref_type = t, ref_id = i\<rparr>"

definition as_subject :: "string \<Rightarrow> string \<Rightarrow> subject_ref" where
  "as_subject t i = Subject (seed_object t i)"

definition as_userset :: "string \<Rightarrow> string \<Rightarrow> string \<Rightarrow> subject_ref" where
  "as_userset t i relation = UsersetSubject (seed_object t i) relation"

definition editor_rewrite :: userset where
  "editor_rewrite = Union [This, ComputedUserset ''owner'']"

definition viewer_rewrite :: userset where
  "viewer_rewrite = Union [This, ComputedUserset ''editor'', TupleToUserset ''parent'' ''viewer'']"

definition document_config :: config_data where
  "document_config = \<lparr>data_relations = [''owner'', ''editor'', ''viewer'', ''parent''],
     data_actions = [(''read'', [''viewer'']), (''write'', [''editor''])],
     data_rewrites = Some [(''editor'', editor_rewrite), (''viewer'', viewer_rewrite)]\<rparr>"

definition ledger_config :: config_data where
  "ledger_config = \<lparr>data_relations = [''operator''],
     data_actions = [(''open'', [''operator'']), (''transfer'', [''operator'']), (''audit'', [''operator'']), (''reverse'', [''operator''])],
     data_rewrites = None\<rparr>"

definition grants_of :: "user_id \<Rightarrow> (entity_ref \<times> string \<times> subject_ref) list" where
  "grants_of u =
     [(seed_object ''document'' ''onboarding'', ''owner'', as_subject ''user'' (user_value u)),
      (seed_object ''document'' ''onboarding'', ''viewer'', as_userset ''group'' ''eng'' ''member''),
      (seed_object ''group'' ''eng'', ''member'', as_userset ''group'' ''eng-leads'' ''member''),
      (seed_object ''group'' ''eng-leads'', ''member'', as_subject ''user'' ''bob''),
      (seed_object ''document'' ''onboarding'', ''parent'', as_subject ''folder'' ''handbook''),
      (seed_object ''folder'' ''handbook'', ''viewer'', as_subject ''user'' ''carol''),
      (seed_object ''ledger'' ''miniledger'', ''operator'', as_subject ''user'' (user_value u))]"

text \<open>The first write that throws ends the script.\<close>

fun write_grants :: "(nat \<Rightarrow> date) \<Rightarrow> org_id \<Rightarrow> (entity_ref \<times> string \<times> subject_ref) list \<Rightarrow> nat \<Rightarrow> database \<Rightarrow> unit throws \<times> database" where
  "write_grants clock org [] n db = (Inr (), db)"
| "write_grants clock org ((object, relation, subject) # gs) n db =
     (case writer_write (clock n) \<lparr>cmd_org = org, cmd_object = object, cmd_relation = relation, cmd_subject = subject\<rparr> db of
        (Inl e, db') \<Rightarrow> (Inl e, db')
      | (Inr _, db') \<Rightarrow> write_grants clock org gs (Suc n) db')"

definition require_mfa :: "org_id \<Rightarrow> write_policy_command" where
  "require_mfa org = \<lparr>wp_org = org, wp_id = ''require-mfa-to-write'', wp_effect = ForbidPolicy, wp_resource_type = ''document'',
     wp_action = ''write'', wp_condition = Cmp Lt (Attr PrincipalAal) (Lit (LNum 2))\<rparr>"

definition refused :: "('a, 'e) result throws \<Rightarrow> js_error option" where
  "refused answer = (case answer of Inl e \<Rightarrow> Some e | Inr (Inl _) \<Rightarrow> Some (Error ''Error'') | Inr (Inr _) \<Rightarrow> None)"

text \<open>The part in the authorization store; a refused definition or policy is thrown as an error.\<close>

definition seed_store :: "platform \<Rightarrow> (nat \<Rightarrow> date) \<Rightarrow> org_id \<Rightarrow> user_id \<Rightarrow> database \<Rightarrow> unit throws \<times> database" where
  "seed_store p clock org u db =
     (case writer_define (clock 2) \<lparr>define_org = org, define_namespace = ''document'', define_config = document_config\<rparr> db of
        (defined, db1) \<Rightarrow>
          (case refused defined of
             Some e \<Rightarrow> (Inl e, db1)
           | None \<Rightarrow>
               (case writer_define (clock 3) \<lparr>define_org = org, define_namespace = ''ledger'', define_config = ledger_config\<rparr> db1 of
                  (ledger, db2) \<Rightarrow>
                    (case refused ledger of
                       Some e \<Rightarrow> (Inl e, db2)
                     | None \<Rightarrow>
                         (case write_grants clock org (grants_of u) 4 db2 of
                            (Inl e, db3) \<Rightarrow> (Inl e, db3)
                          | (Inr _, db3) \<Rightarrow>
                              (case writer_policy p (require_mfa org) db3 of
                                 (step_up, db4) \<Rightarrow> (case refused step_up of Some e \<Rightarrow> (Inl e, db4) | None \<Rightarrow> (Inr (), db4))))))))"

text \<open>The account: the existing one, or a verified new one.\<close>

definition seed_user :: "seed_fresh \<Rightarrow> date \<Rightarrow> string \<Rightarrow> user option \<Rightarrow> identity_state \<Rightarrow> user_id throws \<times> identity_state" where
  "seed_user made now email existing st =
     (case existing of
        Some u \<Rightarrow> (Inr (usr_id u), st)
      | None \<Rightarrow>
          (case password_create demo_password of
             Inl _ \<Rightarrow> (Inl (Error ''Error''), st)
           | Inr _ \<Rightarrow>
               (let (registered, events) = user_register (sd_user made) email (sd_encoded made) now;
                    (verified, more) = user_verify_email now registered in
                case save_user (verified, events @ more) st of
                  (Inl e, st') \<Rightarrow> (Inl e, st')
                | (Inr _, st') \<Rightarrow> (Inr (sd_user made), st'))))"

definition seed :: "platform \<Rightarrow> (nat \<Rightarrow> date) \<Rightarrow> seed_fresh \<Rightarrow> application \<Rightarrow> seed_outcome throws \<times> application" where
  "seed p clock made app =
     (case email_create demo_email of
        Inl _ \<Rightarrow> (Inl (Error ''Error''), app)
      | Inr email \<Rightarrow>
          (let existing = find_user_by_email email (app_identity app) in
           if \<exists>u \<in> set_option existing. find_active_organization (usr_id u) (app_tenancy app) \<noteq> None then (Inr SeedPresent, app)
           else case seed_user made (clock 0) email existing (app_identity app) of
             (Inl e, users) \<Rightarrow> (Inl e, app\<lparr>app_identity := users\<rparr>)
           | (Inr u, users) \<Rightarrow>
               (case provision_organization (sd_org made) (sd_membership made) (clock 1) u (app_tenancy app) of
                  (Inl e, orgs) \<Rightarrow> (Inl e, app\<lparr>app_identity := users, app_tenancy := orgs\<rparr>)
                | (Inr org, orgs) \<Rightarrow>
                    (case seed_store p clock org u (app_database app) of
                       (Inl e, db) \<Rightarrow> (Inl e, app\<lparr>app_identity := users, app_tenancy := orgs, app_database := db\<rparr>)
                     | (Inr _, db) \<Rightarrow> (Inr SeedApplied, app\<lparr>app_identity := users, app_tenancy := orgs, app_database := db\<rparr>)))))"

section \<open>What the banner promises\<close>

definition demo_user :: user_id where
  "demo_user = UserId ''u1''"

definition demo_org :: org_id where
  "demo_org = OrgId ''o1''"

definition demo_store :: "platform \<Rightarrow> (nat \<Rightarrow> date) \<Rightarrow> database" where
  "demo_store p clock = snd (seed_store p clock demo_org demo_user empty_database)"

definition demo_principal :: "string \<Rightarrow> rat \<Rightarrow> principal" where
  "demo_principal u aal = \<lparr>principal_subject = seed_object ''user'' u, principal_org = Some ''o1'', assurance_level = aal,
     session_id = ''s1'', authenticated_at = None\<rparr>"

definition document_action :: "string \<Rightarrow> action" where
  "document_action verb = \<lparr>action_namespace = ''document'', action_verb = verb\<rparr>"

definition onboarding :: entity_ref where
  "onboarding = seed_object ''document'' ''onboarding''"

abbreviation allowed_by_tuples :: "platform \<Rightarrow> (nat \<Rightarrow> date) \<Rightarrow> string \<Rightarrow> string \<Rightarrow> effect option" where
  "allowed_by_tuples p clock u verb \<equiv>
     map_option decision_effect (rebac_of drizzle_reader (demo_store p clock) demo_org (seed_object ''user'' u) (document_action verb) onboarding)"

lemma demo_stored: "fst (seed_store p clock demo_org demo_user empty_database) = Inr ()"
  by code_simp

lemma owner_writes: "allowed_by_tuples p clock ''u1'' ''write'' = Some Permit"
  by code_simp

lemma owner_reads: "allowed_by_tuples p clock ''u1'' ''read'' = Some Permit"
  by code_simp

lemma bob_reads: "allowed_by_tuples p clock ''bob'' ''read'' = Some Permit"
  by code_simp

lemma bob_writes: "allowed_by_tuples p clock ''bob'' ''write'' = Some Deny"
  by code_simp

lemma carol_reads: "allowed_by_tuples p clock ''carol'' ''read'' = Some Permit"
  by code_simp

lemma carol_writes: "allowed_by_tuples p clock ''carol'' ''write'' = Some Deny"
  by code_simp

lemmas demo_relationships = owner_writes owner_reads bob_reads bob_writes carol_reads carol_writes

lemma write_policies:
  "map (\<lambda>q. (policy_effect q, policy_condition q)) (list_by_target demo_org ''document'' ''write'' (demo_store p clock)) =
     [(ForbidPolicy, Cmp Lt (Attr PrincipalAal) (Lit (LNum 2)))]"
  by code_simp

lemma read_policies: "list_by_target demo_org ''document'' ''read'' (demo_store p clock) = []"
  by code_simp

lemma demo_viewers:
  "pdp_expand drizzle_reader (demo_store p clock) (demo_principal ''u1'' aal) onboarding ''viewer'' =
     Some [seed_object ''user'' ''bob'', seed_object ''user'' ''u1'', seed_object ''user'' ''carol'']"
  by code_simp

lemma below_two:
  assumes "map (\<lambda>q. (policy_effect q, policy_condition q)) ps = [(ForbidPolicy, Cmp Lt (Attr PrincipalAal) (Lit (LNum 2)))]"
  shows "decision_effect (decide p rebac ps ctx) = (if ctx_aal ctx < 2 then Deny else decision_effect rebac)"
proof -
  from assms obtain q where q: "ps = [q]" "policy_effect q = ForbidPolicy" "policy_condition q = Cmp Lt (Attr PrincipalAal) (Lit (LNum 2))" by auto
  then have "forbids p ctx q \<longleftrightarrow> ctx_aal ctx < 2" "\<not> grants p ctx q"
    by (simp_all add: forbids_def grants_def verdict_of_def)
  with q(1) show ?thesis by (simp add: decide_effect) (metis effect.exhaust)
qed

lemma demo_decision:
  assumes "allowed_by_tuples p clock u verb = Some e"
  shows "map_option (decision_effect \<circ> result_decision) (decided p drizzle_reader (demo_store p clock) now (demo_principal u aal)
    (document_action verb) onboarding (sample_request FullConsistency)) =
    Some (decision_effect (decide p (the (rebac_of drizzle_reader (demo_store p clock) demo_org (seed_object ''user'' u) (document_action verb) onboarding))
      (list_by_target demo_org ''document'' verb (demo_store p clock))
      \<lparr>ctx_aal = aal, ctx_auth_time = None, ctx_ip = ''10.0.0.1'', ctx_now = now\<rparr>))"
proof -
  have "org_of (demo_principal u aal) = Some demo_org" by (simp add: org_of_def demo_principal_def demo_org_def)
  from decided_full[OF this, of "sample_request FullConsistency" p drizzle_reader "demo_store p clock" now] assms show ?thesis
    by (auto simp: sample_request_def demo_principal_def document_action_def onboarding_def seed_object_def)
qed

lemma demo_effects:
  assumes "allowed_by_tuples p clock u verb = Some e"
  shows "verb = ''write'' \<Longrightarrow> map_option (decision_effect \<circ> result_decision) (decided p drizzle_reader (demo_store p clock) now
      (demo_principal u aal) (document_action verb) onboarding (sample_request FullConsistency)) = Some (if aal < 2 then Deny else e)"
    "verb = ''read'' \<Longrightarrow> map_option (decision_effect \<circ> result_decision) (decided p drizzle_reader (demo_store p clock) now
      (demo_principal u aal) (document_action verb) onboarding (sample_request FullConsistency)) = Some e"
  using assms unfolding demo_decision[OF assms] by (auto simp: below_two[OF write_policies] read_policies)

text \<open>The seeded organization behaves as its banner says: the viewers of the document are the owner, bob of the nested group and
  carol of the folder; each of them reads it at any level of assurance, and only the owner writes it, from the second level on.\<close>
theorem seeded_organization_keeps_its_promise:
  "map_option set (pdp_expand drizzle_reader (demo_store p clock) (demo_principal ''u1'' aal) onboarding ''viewer'') =
     Some {seed_object ''user'' ''u1'', seed_object ''user'' ''bob'', seed_object ''user'' ''carol''} \<and>
   (\<forall>u \<in> {''u1'', ''bob'', ''carol''}. \<forall>verb \<in> {''read'', ''write''}.
     map_option (decision_effect \<circ> result_decision) (decided p drizzle_reader (demo_store p clock) now (demo_principal u aal)
       (document_action verb) onboarding (sample_request FullConsistency)) =
     Some (if verb = ''read'' \<or> u = ''u1'' \<and> 2 \<le> aal then Permit else Deny))"
  by (simp add: demo_viewers demo_relationships[THEN demo_effects(1)] demo_relationships[THEN demo_effects(2)] insert_commute
      linorder_not_le[symmetric] del: map_option_eq_Some)

section \<open>A run that is stopped\<close>

lemma provisioned_is_found:
  assumes "provision_organization i membership_id now u st = (Inr org, st')"
  shows "find_active_organization u st' \<noteq> None"
proof -
  let ?m = "\<lparr>mem_id = membership_id, mem_user = u, mem_org = i, mem_status = MembershipActive, mem_role = OwnerRole, mem_joined = now\<rparr>"
  from assms have "?m \<in> set (ten_members st')"
    by (auto simp: provision_organization_def insert_membership_def split: sum.splits prod.splits if_splits)
  then have "?m \<in> set (active_memberships u st')" by (simp add: active_memberships_def)
  then show ?thesis by (cases "active_memberships u st'") (simp_all add: find_active_organization_def)
qed

lemma find_new: "\<forall>x \<in> set xs. \<not> P x \<Longrightarrow> find P (xs @ [y]) = (if P y then Some y else None)"
  by (induction xs) simp_all

lemma seeded_user_is_found:
  assumes "seed_user made now email (find_user_by_email email st) st = (Inr u, st')" "sd_user made \<notin> usr_id ` set (id_users st)"
  shows "\<exists>r. find_user_by_email email st' = Some r \<and> usr_id r = u"
proof (cases "find_user_by_email email st")
  case None
  then have absent: "email \<notin> usr_email ` set (id_users st)" by (auto simp: find_user_by_email_def find_None_iff)
  define registered where "registered = fst (user_verify_email now (fst (user_register (sd_user made) email (sd_encoded made) now)))"
  have r: "usr_id registered = sd_user made" "usr_email registered = email"
    by (simp_all add: registered_def user_verify_email_def user_register_def)
  from assms None have "u = sd_user made \<and> id_users st' = id_users st @ [registered]"
    by (auto simp: seed_user_def save_user_def Let_def user_register_def user_verify_email_def registered_def absent split: sum.splits prod.splits if_splits)
  moreover have "find (\<lambda>v. usr_email v = email) (id_users st @ [registered]) = Some registered"
    using absent r(2) by (subst find_new) (simp_all add: image_iff, metis)
  ultimately show ?thesis using r(1) by (simp add: find_user_by_email_def)
qed (use assms in \<open>simp add: seed_user_def\<close>)

text \<open>The script is not resumed: once a run has created the organization, a later one finds the account with an organization and
  reports that everything is there, whatever the authorization store holds; so a run that was stopped before its last write
  leaves an organization without its namespaces, relationships or policy for good.\<close>
theorem stopped_seed_is_not_resumed:
  assumes "seed p clock made app = (Inr SeedApplied, app')" "sd_user made \<notin> usr_id ` set (id_users (app_identity app))"
  shows "seed p clock' made' (app'\<lparr>app_database := db\<rparr>) = (Inr SeedPresent, app'\<lparr>app_database := db\<rparr>)"
proof -
  obtain email where email: "email_create demo_email = Inr email" using assms(1) by (auto simp: seed_def split: sum.splits)
  from assms(1) obtain u where u: "seed_user made (clock 0) email (find_user_by_email email (app_identity app)) (app_identity app) =
        (Inr u, app_identity app')"
      "\<exists>org. provision_organization (sd_org made) (sd_membership made) (clock 1) u (app_tenancy app) = (Inr org, app_tenancy app')"
    by (auto simp: seed_def email Let_def split: sum.splits prod.splits if_splits)
  from seeded_user_is_found[OF u(1) assms(2)] provisioned_is_found u(2) show ?thesis
    by (auto simp: seed_def email)
qed

text \<open>A new deployment, and the state of a run that stopped before its first write to the authorization store.\<close>

definition new_deployment :: application where
  "new_deployment = \<lparr>app_identity = empty_identity, app_tenancy = \<lparr>ten_orgs = [], ten_members = []\<rparr>, app_database = empty_database\<rparr>"

definition sample_seed :: seed_fresh where
  "sample_seed = \<lparr>sd_user = demo_user, sd_encoded = ''x'', sd_org = demo_org, sd_membership = ''m1''\<rparr>"

lemma seed_runs: "fst (seed p clock sample_seed new_deployment) = Inr SeedApplied"
  by code_simp

theorem stopped_seed_is_not_resumed_witness:
  "fst (seed p clock' sample_seed ((snd (seed p clock sample_seed new_deployment))\<lparr>app_database := empty_database\<rparr>)) = Inr SeedPresent"
proof -
  have run: "seed p clock sample_seed new_deployment = (Inr SeedApplied, snd (seed p clock sample_seed new_deployment))"
    using seed_runs[of p clock] by (metis prod.collapse)
  have "sd_user sample_seed \<notin> usr_id ` set (id_users (app_identity new_deployment))" by (simp add: new_deployment_def empty_identity_def)
  from stopped_seed_is_not_resumed[OF run this, of clock' sample_seed empty_database] show ?thesis by simp
qed

end
