(* ===== verification/Spec2Isabelle.thy ===== *)
theory Spec2Isabelle
  imports Walks Writers Decisions IndexFresh Watch DecisionLog Directory AuditChain LoginSafety SigningKeys EndpointSafety AuthnEndpointSafety VaultSafety Sdk BffSafety SchemaForm Panels Deployment Seed
begin

text \<open>
  AccessCore: a verification development. Paths below are relative to src/; \<open>api\<close> abbreviates apps/api/src and \<open>console\<close>
  apps/console/src.

  \<^bold>\<open>The program.\<close> AccessCore is an authentication and authorization service. \<open>api/identity\<close> keeps accounts and second factors,
  \<open>api/authn\<close> sessions, refresh tokens, access tokens and the keys that sign them, \<open>api/tenancy\<close> organizations and memberships, and
  \<open>api/security\<close> a hash-chained audit log. \<open>api/authz\<close> decides whether a subject may act on a resource: relationship tuples are
  evaluated under the rewrites of a namespace, then attribute policies are applied, forbid before permit. Writes are logged with a
  revision, which consistency tokens, the change stream and the membership index refer to; decisions are cached in Redis and
  recorded. \<open>packages/sdk\<close> is the client that other services put in front of their handlers, and \<open>apps/console\<close> the administration
  console with a server of its own between the browser and the service.

  \<^bold>\<open>Foundations.\<close>
  \<^item> Prelude: text, lists and results. A \<open>('a, 'e) result\<close> is an error value of the code, \<open>'a throws\<close> an exception.
  \<^item> Kernel (\<open>api/shared/kernel\<close>, \<open>api/authz/domain\<close>): identifiers, revisions, entity and subject references, actions, tuples and
    the index over them, with the round trips of their texts.
  \<^item> Json, Dates, Buffers: JSON values and canonical text, \<open>toISOString\<close>, \<open>Buffer\<close> and base64.

  \<^bold>\<open>Authorization.\<close>
  \<^item> Namespaces (\<open>userset.ts\<close>, \<open>namespace-config.ts\<close>, \<open>namespace-registry.ts\<close>): validation and the search for cycles.
  \<^item> Evaluate (\<open>evaluate.ts\<close>, \<open>indexed-memberships.ts\<close>): the walks \<open>derive\<close> and \<open>collect_members\<close>, and the flattening. Walks: they
    return over every accepted registry, and the walk that searches agrees with the walk that lists.
  \<^item> Conditions and Policies (\<open>condition.ts\<close>, \<open>evaluate-condition.ts\<close>, \<open>decide.ts\<close>, \<open>boundary.ts\<close>, \<open>consistency-token.ts\<close>): the static
    check, the three-valued evaluation, the combination of policies.
  \<^item> Store (\<open>infrastructure/persistence\<close>, the three writers, the unit of work): one record \<open>database\<close> with a list of rows per table;
    a transaction is a function that keeps its changes or none. Writers: the invariant \<open>store_inv\<close> over the step relation
    \<open>store_step\<close>, the interfaces \<open>relation_store\<close> and \<open>logged_store\<close>, and the databases \<open>in_service\<close>, which writers and
    indexer reach together.
  \<^item> Pdp (\<open>pdp-service.ts\<close>, \<open>redis-decision-cache.ts\<close>): the closure that is loaded for a query, check, batches, expand and simulate.
    Decisions: isolation of organizations, tokens, what the cache may answer while writers and indexer go on, and where the
    closure is too small.
  \<^item> Indexer and IndexFresh (\<open>membership-indexer.ts\<close>, \<open>drizzle-membership-index.ts\<close>): a run of the index,
    whose queries read what is committed meanwhile, what a reader may rely on, and a cached decision that a run outdates.
  \<^item> Watch (\<open>tuple-change-stream.ts\<close>), DecisionLog (\<open>buffered-decision-log.ts\<close>), Directory (\<open>directory-service.ts\<close>).

  \<^bold>\<open>Accounts and sessions.\<close>
  \<^item> Identity, Totp, Mfa (\<open>api/identity\<close>): accounts, single-use tokens, the demonstration account, RFC 6238, credentials, recovery
    codes. Accounts and MfaSafety: what the tables keep under concurrent requests.
  \<^item> Sessions, Refresh, Login (\<open>api/authn\<close>, \<open>api/tenancy\<close>): tables, Redis keys, rotation with reuse detection and grace, lockouts,
    login and step-up. SessionHistory, SessionSafety, LoginSafety: their guarantees over histories. The lockout check of a login
    and its write read different states; its bound counts the overlap.
  \<^item> Jwt, SigningKeys, Guards (\<open>jwt-access-token-issuer.ts\<close>, \<open>jwks-provider.ts\<close>, \<open>jwt-verifier.ts\<close>, \<open>signing-keys.ts\<close>, the guards):
    issuing, publishing, verifying, rotating. Vault and VaultSafety: the clients of the transit engine and the software
    implementations. The interface \<open>signer\<close> of the key rotation is interpreted by the software signer; that the transit client
    meets it is not shown, because Vault does not document what a request with a lost answer did.
  \<^item> Histories: the locales \<open>forward_history\<close> and \<open>tracked_history\<close>, for states that concurrent requests share.
  \<^item> AuditChain (\<open>api/security\<close>): the chain and its verification.

  \<^bold>\<open>Edges.\<close>
  \<^item> AuthzEndpoints, AdminEndpoints, AuthnEndpoints (the controllers and their schemas); EndpointSafety and AuthnEndpointSafety compose
    guards, controllers and the parts behind them.
  \<^item> Sdk (\<open>packages/sdk\<close>): the client and the guard, composed with the service.
  \<^item> Bff and BffSafety (\<open>console/app/api\<close>, \<open>console/lib\<close>): routes, cookies, redirects, the browser's client.
  \<^item> ConditionForm, Forms, Panels (\<open>console/components\<close>): the condition builder, the forms and the panels as records with a function
    per event. FormSafety and SchemaForm follow a form to the stored row and to the decisions it changes.
  \<^item> Deployment (\<open>api/config/env.ts\<close> and the module factories): the environment and the options made from it. Seed (\<open>api/seed.ts\<close>):
    the script that fills a new deployment, and the promises of its banner.

  \<^bold>\<open>Conventions.\<close> A handler that reads before it writes takes the state of its reads, \<open>old\<close>, and the state its writes start from,
  \<open>st\<close>; a history lists the states of a shared store, and a step may act on what a request read in any earlier one. \<open>up\<close> says
  whether Redis answers. The body of a request is typed, or \<open>None\<close> where its schema refuses its shape; the answers of other services
  are JSON and are read as the code reads them. Clocks, random identifiers and encoded passwords are arguments.

  \<^bold>\<open>Parameters.\<close> What belongs to the platform or to a library is an argument: \<open>platform\<close> (\<open>Number\<close>, \<open>Date.parse\<close>, base64url), with
  \<open>reads_numerals\<close> as the documented behaviour that is used, \<open>text_platform\<close> (numbers as text), \<open>jwt_platform\<close> (coding of segments,
  Ed25519), digests, HMAC and ciphers, the collation, Vault, the service behind the console (\<open>upstream\<close>) and \<open>fetch\<close>. A theorem
  that assumes something of a parameter has a witness with a concrete one. A statement about a digest names the texts on which it
  would have to collide.

  \<^bold>\<open>Bounds and termination.\<close> The walks are cut at \<open>max_userset_depth\<close> = 10 hops and are partial functions to \<open>option\<close>; Walks proves
  that they return over every registry of accepted configurations, so no fuel is involved. Conditions have at most 16 levels and 64
  nodes, rewrites at most 32 levels; the code refuses more, and so do the definitions. The closure, the indexer's run and the
  change stream take the page sizes of their options; \<open>Deployment.deployed_options_fit\<close> shows that every environment that
  loads makes them positive. The stream is a loop over a list of polls, the drain of the decision log one over the answers of its
  sink, and \<open>DecisionLog.close_drains\<close> says how many answers are enough. \<open>Bff.navigate\<close> follows as many redirects as its fuel
  allows; the theorem about it holds for every fuel.

  \<^bold>\<open>What the lemmas show.\<close> Each theory with \<open>Safety\<close> in its name, and Walks, Writers, Decisions, IndexFresh, Accounts and
  SessionHistory, holds the invariants and the properties of the definitions before it. Invariants are proved once per step and
  lifted to reachable states and histories (\<open>store_inv\<close>, \<open>index_inv\<close>, \<open>authn_inv\<close>, \<open>identity_ok\<close>, \<open>codes_ok\<close>, \<open>credentials_ok\<close>);
  simulations relate a part to the contract of its client (\<open>Writers\<close>, \<open>Indexer\<close>); the properties of the endpoints, of
  the client library and of the console are compositions of the parts. Where the code does not keep a promise of its own, a
  theorem or lemma states the run that breaks it, beside the property that does hold.

  \<^bold>\<open>Not modelled.\<close>
  \<^item> Argon2, random bytes and the delivery of mail: library calls, arguments of the handlers.
  \<^item> The injection of objects by NestJS, of which Deployment keeps the options; metrics, health probes and request logging, which
    decide nothing; the generated API description; process start-up and migrations.
  \<^item> PostgreSQL and Redis themselves: a statement is atomic, a transaction keeps all or nothing, and isolation between statements
    is the histories' choice of what was read. Locks are modelled where the code takes them.
  \<^item> A batch of the decision log that is stored although the answer is an error; the three reads of a refresh, which are taken at
    one state; a signer whose key set was rotated although its answer was lost.
  \<^item> Timers: the indexer's interval, the flush timer of the decision log and the sleep of the stream appear as the runs, the
    flushes and the polls they cause.
  \<^item> The console's markup, styling and translations, and the address bar beyond the redirects of its pages.
\<close>

end
